(* ===== verification/Prelude.thy ===== *)
theory Prelude
  imports Main "HOL-Library.Char_ord" "HOL-Library.List_Lexorder"
begin

text \<open>
  Shared material of the development: results with an error branch (Rust's \<open>Result\<close>), the
  ordered map that models \<open>BTreeMap\<close>, byte strings (prefix, suffix, substring search, splitting at
  a separator), and the decimal rendering of numbers that the key constructors use.

  A Rust \<open>String\<close> or \<open>Vec<u8>\<close> is a \<^typ>\<open>string\<close>, a list of 8-bit characters: its \<open>length\<close> is the
  byte length that \<open>len()\<close> returns, and the lexicographic order of \<open>List_Lexorder\<close> over
  \<open>Char_ord\<close> is the byte order of Rust.
\<close>

named_theorems bmap_simps \<open>lookup equations of the ordered map\<close>
named_theorems res_simps \<open>evaluation of the result combinators\<close>

section \<open>Results\<close>

text \<open>\<open>Result<T, E>\<close>: the error on the left, the value on the right.\<close>

definition bindE :: "'e + 'a \<Rightarrow> ('a \<Rightarrow> 'e + 'b) \<Rightarrow> 'e + 'b" where
  "bindE m f = (case m of Inl e \<Rightarrow> Inl e | Inr x \<Rightarrow> f x)"

text \<open>\<open>ok_or_else\<close>: an absent value becomes the given error.\<close>

definition ok_or :: "'e \<Rightarrow> 'a option \<Rightarrow> 'e + 'a" where
  "ok_or e v = (case v of None \<Rightarrow> Inl e | Some x \<Rightarrow> Inr x)"

text \<open>An early \<open>return Err(e)\<close> under a condition.\<close>

definition guardE :: "bool \<Rightarrow> 'e \<Rightarrow> 'e + unit" where
  "guardE b e = (if b then Inr () else Inl e)"

text \<open>A \<open>for\<close> loop whose body may return early with an error.\<close>

fun foldE :: "('a \<Rightarrow> 's \<Rightarrow> 'e + 's) \<Rightarrow> 'a list \<Rightarrow> 's \<Rightarrow> 'e + 's" where
  "foldE f [] s = Inr s"
| "foldE f (x # xs) s = bindE (f x s) (foldE f xs)"

lemma bindE_simps [simp, res_simps]:
  "bindE (Inl e) f = Inl e"
  "bindE (Inr x) f = f x"
  by (simp_all add: bindE_def)

lemma bindE_Inr_iff: "bindE m f = Inr y \<longleftrightarrow> (\<exists>x. m = Inr x \<and> f x = Inr y)"
  by (cases m) (auto simp: bindE_def)

lemma bindE_Inl_iff: "bindE m f = Inl e \<longleftrightarrow> m = Inl e \<or> (\<exists>x. m = Inr x \<and> f x = Inl e)"
  by (cases m) (auto simp: bindE_def)

lemma bindE_InrE [elim!]:
  assumes "bindE m f = Inr y"
  obtains x where "m = Inr x" "f x = Inr y"
  using assms by (auto simp: bindE_Inr_iff)

lemma ok_or_simps [simp, res_simps]:
  "ok_or e None = Inl e"
  "ok_or e (Some x) = Inr x"
  by (simp_all add: ok_or_def)

lemma ok_or_iff [simp]:
  "ok_or e v = Inr x \<longleftrightarrow> v = Some x"
  "ok_or e v = Inl e' \<longleftrightarrow> v = None \<and> e' = e"
  by (auto simp: ok_or_def split: option.splits)

lemma guardE_iff [simp]:
  "guardE b e = Inr u \<longleftrightarrow> b"
  "guardE b e = Inl e' \<longleftrightarrow> \<not> b \<and> e' = e"
  by (auto simp: guardE_def)

lemma guardE_simps [simp, res_simps]:
  "guardE True e = Inr ()"
  "guardE False e = Inl e"
  by (simp_all add: guardE_def)

lemma bindE_cong [fundef_cong]:
  "m = m' \<Longrightarrow> (\<And>x. m' = Inr x \<Longrightarrow> f x = g x) \<Longrightarrow> bindE m f = bindE m' g"
  by (cases m') (auto simp: bindE_def)

lemma foldE_append: "foldE f (xs @ ys) s = bindE (foldE f xs s) (foldE f ys)"
proof (induction xs arbitrary: s)
  case (Cons x xs)
  then show ?case by (cases "f x s") auto
qed simp

text \<open>A loop invariant: what every successful pass of the body keeps holds at the end.\<close>

lemma foldE_invariant:
  assumes "foldE f xs s = Inr t" and "I s"
    and "\<And>x s t. x \<in> set xs \<Longrightarrow> I s \<Longrightarrow> f x s = Inr t \<Longrightarrow> I t"
  shows "I t"
  using assms
proof (induction xs arbitrary: s)
  case (Cons x xs)
  from Cons.prems(1) obtain u where u: "f x s = Inr u" "foldE f xs u = Inr t"
    by (auto simp: bindE_Inr_iff)
  have "I u" using Cons.prems(2,3) u(1) by (meson list.set_intros(1))
  then show ?case using Cons.IH [OF u(2)] Cons.prems(3) by (meson list.set_intros(2))
qed simp

section \<open>The ordered map\<close>

fun al_insert :: "'k::linorder \<Rightarrow> 'v \<Rightarrow> ('k \<times> 'v) list \<Rightarrow> ('k \<times> 'v) list" where
  "al_insert k v [] = [(k, v)]"
| "al_insert k v ((k', v') # xs) =
     (if k < k' then (k, v) # (k', v') # xs
      else if k = k' then (k, v) # xs
      else (k', v') # al_insert k v xs)"

fun al_remove :: "'k::linorder \<Rightarrow> ('k \<times> 'v) list \<Rightarrow> ('k \<times> 'v) list" where
  "al_remove k [] = []"
| "al_remove k ((k', v') # xs) = (if k = k' then xs else (k', v') # al_remove k xs)"

abbreviation ksorted :: "('k::linorder \<times> 'v) list \<Rightarrow> bool" where
  "ksorted xs \<equiv> sorted_wrt (<) (map fst xs)"

lemma ksorted_Cons: "ksorted (p # xs) \<longleftrightarrow> (\<forall>q \<in> set xs. fst p < fst q) \<and> ksorted xs"
  by auto

lemma set_al_insert: "fst ` set (al_insert k v xs) = insert k (fst ` set xs)"
  by (induction k v xs rule: al_insert.induct) auto

lemma ksorted_al_insert: "ksorted xs \<Longrightarrow> ksorted (al_insert k v xs)"
proof (induction k v xs rule: al_insert.induct)
  case (2 k v k' v' xs)
  have "\<forall>q \<in> set (al_insert k v xs). k' < fst q" if "k' < k" "\<forall>q \<in> set xs. k' < fst q"
  proof
    fix q assume "q \<in> set (al_insert k v xs)"
    then have "fst q \<in> insert k (fst ` set xs)" using set_al_insert [of k v xs] by (metis image_eqI)
    with that show "k' < fst q" by auto
  qed
  with 2 show ?case by (auto simp: neq_iff)
qed simp

lemma set_al_remove: "set (al_remove k xs) \<subseteq> set xs"
  by (induction k xs rule: al_remove.induct) auto

lemma ksorted_al_remove: "ksorted xs \<Longrightarrow> ksorted (al_remove k xs)"
proof (induction k xs rule: al_remove.induct)
  case (2 k k' v' xs)
  then show ?case using set_al_remove [of k xs] by auto
qed simp

lemma map_of_al_insert: "map_of (al_insert k v xs) = (map_of xs)(k \<mapsto> v)"
  by (induction k v xs rule: al_insert.induct) auto

lemma map_of_ksorted_None:
  fixes xs :: "('k::linorder \<times> 'v) list"
  shows "\<forall>q \<in> set xs. k < fst q \<Longrightarrow> map_of xs k = None"
  by (induction xs) auto

lemma map_of_al_remove:
  fixes xs :: "('k::linorder \<times> 'v) list"
  shows "ksorted xs \<Longrightarrow> map_of (al_remove k xs) = (map_of xs)(k := None)"
proof (induction k xs rule: al_remove.induct)
  case (2 k k' v' xs)
  then have "map_of xs k' = None" by (intro map_of_ksorted_None) auto
  then show ?case using 2 by (auto simp: fun_eq_iff)
qed simp

lemma ksorted_filter: "ksorted xs \<Longrightarrow> ksorted (filter P xs)"
  by (induction xs) auto

lemma ksorted_map_snd: "ksorted xs \<Longrightarrow> ksorted (map (\<lambda>(k, v). (k, f k v)) xs)"
  by (induction xs) auto

lemma ksorted_distinct: "ksorted xs \<Longrightarrow> distinct (map fst xs)"
  by (induction xs) auto

lemma ksorted_map_of_inject:
  assumes "ksorted xs" "ksorted ys" "map_of xs = map_of ys"
  shows "xs = ys"
proof -
  have "set xs = set ys"
    using assms by (metis ksorted_distinct map_of_inject_set)
  then have "map fst xs = map fst ys"
    using assms strict_sorted_equal [of "map fst xs" "map fst ys"] by auto
  moreover have "inj_on fst (set xs)"
    using ksorted_distinct [OF assms(1)] by (simp add: distinct_map)
  ultimately show ?thesis
    using \<open>set xs = set ys\<close> by (metis map_inj_on sup.idem)
qed

typedef (overloaded) ('k::linorder, 'v) bmap = "{xs :: ('k \<times> 'v) list. ksorted xs}"
  morphisms bm_entries Bmap
  by (rule exI [of _ "[]"]) simp

setup_lifting type_definition_bmap

lift_definition bm_empty :: "('k::linorder, 'v) bmap" is "[]" by simp

lift_definition bm_insert :: "'k::linorder \<Rightarrow> 'v \<Rightarrow> ('k, 'v) bmap \<Rightarrow> ('k, 'v) bmap" is al_insert
  by (rule ksorted_al_insert)

lift_definition bm_remove :: "'k::linorder \<Rightarrow> ('k, 'v) bmap \<Rightarrow> ('k, 'v) bmap" is al_remove
  by (rule ksorted_al_remove)

text \<open>\<open>retain\<close>: keep the entries that satisfy the predicate.\<close>

lift_definition bm_retain :: "('k::linorder \<Rightarrow> 'v \<Rightarrow> bool) \<Rightarrow> ('k, 'v) bmap \<Rightarrow> ('k, 'v) bmap"
  is "\<lambda>P. filter (\<lambda>(k, v). P k v)" by (rule ksorted_filter)

text \<open>\<open>values_mut\<close>: replace every value.\<close>

lift_definition bm_map :: "('k::linorder \<Rightarrow> 'v \<Rightarrow> 'w) \<Rightarrow> ('k, 'v) bmap \<Rightarrow> ('k, 'w) bmap"
  is "\<lambda>f. map (\<lambda>(k, v). (k, f k v))" by (rule ksorted_map_snd)

definition bm_get :: "('k::linorder, 'v) bmap \<Rightarrow> 'k \<Rightarrow> 'v option" where
  "bm_get m k = map_of (bm_entries m) k"

definition bm_is_empty :: "('k::linorder, 'v) bmap \<Rightarrow> bool" where
  "bm_is_empty m = (bm_entries m = [])"

definition bm_has :: "('k::linorder, 'v) bmap \<Rightarrow> 'k \<Rightarrow> bool" where
  "bm_has m k = (bm_get m k \<noteq> None)"

definition bm_len :: "('k::linorder, 'v) bmap \<Rightarrow> nat" where
  "bm_len m = length (bm_entries m)"

text \<open>\<open>collect\<close> into a map: later entries overwrite earlier ones.\<close>

definition bm_of_list :: "('k::linorder \<times> 'v) list \<Rightarrow> ('k, 'v) bmap" where
  "bm_of_list xs = fold (\<lambda>(k, v). bm_insert k v) xs bm_empty"

instantiation bmap :: (linorder, equal) equal
begin

definition equal_bmap :: "('a, 'b) bmap \<Rightarrow> ('a, 'b) bmap \<Rightarrow> bool" where
  "equal_bmap m n \<longleftrightarrow> bm_entries m = bm_entries n"

instance
  by standard (simp add: equal_bmap_def bm_entries_inject)

end

instantiation bmap :: (linorder, type) size
begin

definition size_bmap :: "('a, 'b) bmap \<Rightarrow> nat" where
  "size_bmap m = length (bm_entries m)"

instance ..

end

lemma ksorted_entries [simp]: "ksorted (bm_entries m)"
  using bm_entries by blast

lemma bmap_eqI: "(\<And>k. bm_get m k = bm_get n k) \<Longrightarrow> m = n"
  unfolding bm_get_def bm_entries_inject [symmetric]
  by (rule ksorted_map_of_inject) auto

lemma bm_get_empty [simp, bmap_simps]: "bm_get bm_empty k = None"
  unfolding bm_get_def by transfer simp

lemma bm_get_insert [simp, bmap_simps]:
  "bm_get (bm_insert k v m) k' = (if k' = k then Some v else bm_get m k')"
  unfolding bm_get_def by transfer (simp add: map_of_al_insert)

lemma bm_get_remove [simp, bmap_simps]:
  "bm_get (bm_remove k m) k' = (if k' = k then None else bm_get m k')"
  unfolding bm_get_def by transfer (simp add: map_of_al_remove)

lemma map_of_filter_entries:
  "ksorted xs \<Longrightarrow> map_of (filter (\<lambda>(k, v). P k v) xs) k =
     (case map_of xs k of None \<Rightarrow> None | Some v \<Rightarrow> if P k v then Some v else None)"
proof (induction xs)
  case (Cons p xs)
  then show ?case
    using map_of_ksorted_None [of xs "fst p"] by (cases p) (auto split: option.splits)
qed simp

lemma bm_get_retain [simp, bmap_simps]:
  "bm_get (bm_retain P m) k =
     (case bm_get m k of None \<Rightarrow> None | Some v \<Rightarrow> if P k v then Some v else None)"
  unfolding bm_get_def by transfer (rule map_of_filter_entries)

lemma bm_get_map [simp, bmap_simps]: "bm_get (bm_map f m) k = map_option (f k) (bm_get m k)"
proof -
  have "map_of (map (\<lambda>(k, v). (k, f k v)) xs) k = map_option (f k) (map_of xs k)" for xs
    by (induction xs) auto
  then show ?thesis unfolding bm_get_def by transfer simp
qed

lemma bm_has_iff: "bm_has m k \<longleftrightarrow> (\<exists>v. bm_get m k = Some v)"
  by (auto simp: bm_has_def)

lemma bm_entries_get: "(k, v) \<in> set (bm_entries m) \<longleftrightarrow> bm_get m k = Some v"
  unfolding bm_get_def by (simp add: ksorted_distinct)

lemma bm_keys_get: "k \<in> fst ` set (bm_entries m) \<longleftrightarrow> bm_get m k \<noteq> None"
  unfolding bm_get_def by (metis map_of_eq_None_iff)

lemma bm_is_empty_iff: "bm_is_empty m \<longleftrightarrow> (\<forall>k. bm_get m k = None)"
proof
  assume "\<forall>k. bm_get m k = None"
  then have "map_of (bm_entries m) = Map.empty" by (simp add: bm_get_def fun_eq_iff)
  then show "bm_is_empty m" by (simp add: bm_is_empty_def)
qed (simp add: bm_is_empty_def bm_get_def)

lemma bm_is_empty_empty [simp]: "bm_is_empty bm_empty"
  by (simp add: bm_is_empty_iff)

lemma bm_entries_empty [simp]: "bm_entries bm_empty = []"
  by transfer simp

lemma bm_is_empty_eq: "bm_is_empty m \<longleftrightarrow> m = bm_empty"
  by (metis bmap_eqI bm_get_empty bm_is_empty_empty bm_is_empty_iff)

lemma fold_bm_insert_get:
  "bm_get (fold (\<lambda>(k, v). bm_insert k v) xs m) k =
     (case map_of (rev xs) k of None \<Rightarrow> bm_get m k | Some v \<Rightarrow> Some v)"
proof (induction xs arbitrary: m)
  case (Cons p xs)
  then show ?case by (cases p) (auto simp: map_add_def split: option.splits)
qed simp

lemma bm_get_of_list [bmap_simps]: "bm_get (bm_of_list xs) k = map_of (rev xs) k"
  by (simp add: bm_of_list_def fold_bm_insert_get split: option.splits)

lemma map_of_rev_distinct: "distinct (map fst xs) \<Longrightarrow> map_of (rev xs) = map_of xs"
  by (subst map_of_inject_set) (simp_all add: rev_map [symmetric])

lemma bm_of_list_entries [simp]: "bm_of_list (bm_entries m) = m"
proof (rule bmap_eqI)
  fix k
  have "map_of (rev (bm_entries m)) = map_of (bm_entries m)"
    by (simp add: map_of_rev_distinct ksorted_distinct)
  then show "bm_get (bm_of_list (bm_entries m)) k = bm_get m k"
    by (subst bm_get_of_list) (simp add: bm_get_def)
qed

lemma bm_of_list_ksorted: "ksorted xs \<Longrightarrow> bm_entries (bm_of_list xs) = xs"
  by (metis Bmap_inverse bm_of_list_entries mem_Collect_eq)

lemma bm_insert_get_same [simp]: "bm_get m k = Some v \<Longrightarrow> bm_insert k v m = m"
  by (rule bmap_eqI) simp

lemma bm_entries_retain: "bm_entries (bm_retain P m) = filter (\<lambda>(k, v). P k v) (bm_entries m)"
  by transfer simp

lemma bm_entries_map: "bm_entries (bm_map f m) = map (\<lambda>(k, v). (k, f k v)) (bm_entries m)"
  by transfer simp

section \<open>Byte strings\<close>

text \<open>\<open>starts_with\<close>, \<open>ends_with\<close>, \<open>strip_prefix\<close> and \<open>contains\<close> of \<open>str\<close>.\<close>

definition starts_with :: "string \<Rightarrow> string \<Rightarrow> bool" where
  "starts_with s p = (take (length p) s = p)"

definition ends_with :: "string \<Rightarrow> string \<Rightarrow> bool" where
  "ends_with s p = starts_with (rev s) (rev p)"

definition strip_prefix :: "string \<Rightarrow> string \<Rightarrow> string option" where
  "strip_prefix p s = (if starts_with s p then Some (drop (length p) s) else None)"

fun contains_str :: "string \<Rightarrow> string \<Rightarrow> bool" where
  "contains_str [] p = (p = [])"
| "contains_str (c # s) p = (starts_with (c # s) p \<or> contains_str s p)"

text \<open>\<open>split_once\<close> at a separator: the text before its first occurrence and the text after it.\<close>

fun split_once :: "char \<Rightarrow> string \<Rightarrow> (string \<times> string) option" where
  "split_once c [] = None"
| "split_once c (x # xs) =
     (if x = c then Some ([], xs)
      else map_option (\<lambda>(a, b). (x # a, b)) (split_once c xs))"

text \<open>\<open>split(c)\<close>: the pieces between the separators (one piece for a text without any).\<close>

fun split_all :: "char \<Rightarrow> string \<Rightarrow> string list" where
  "split_all c [] = [[]]"
| "split_all c (x # xs) =
     (if x = c then [] # split_all c xs
      else (case split_all c xs of [] \<Rightarrow> [[x]] | y # ys \<Rightarrow> (x # y) # ys))"

lemma starts_with_iff: "starts_with s p \<longleftrightarrow> (\<exists>t. s = p @ t)"
  unfolding starts_with_def by (metis append_take_drop_id append_eq_conv_conj)

lemma starts_with_append [simp]: "starts_with (p @ t) p"
  by (simp add: starts_with_def)

lemma starts_with_refl [simp]: "starts_with s s"
  by (simp add: starts_with_def)

lemma starts_with_Nil [simp]: "starts_with s []"
  by (simp add: starts_with_def)

lemma starts_with_same [simp]: "starts_with (p @ s) (p @ q) = starts_with s q"
  by (auto simp: starts_with_iff)

lemma starts_with_Cons [simp]: "starts_with (c # s) (d # p) \<longleftrightarrow> c = d \<and> starts_with s p"
  by (auto simp: starts_with_def)

lemma starts_with_Nil_Cons [simp]: "\<not> starts_with [] (c # p)"
  by (simp add: starts_with_def)

lemma starts_with_trans: "starts_with s p \<Longrightarrow> starts_with p q \<Longrightarrow> starts_with s q"
  by (auto simp: starts_with_iff)

lemma ends_with_iff: "ends_with s p \<longleftrightarrow> (\<exists>t. s = t @ p)"
  unfolding ends_with_def starts_with_iff
  by (metis rev_append rev_rev_ident)

lemma ends_with_append [simp]: "ends_with (t @ p) p"
  by (auto simp: ends_with_iff)

lemma strip_prefix_append [simp]: "strip_prefix p (p @ s) = Some s"
  by (simp add: strip_prefix_def)

lemma strip_prefix_Some: "strip_prefix p s = Some r \<longleftrightarrow> s = p @ r"
  by (auto simp: strip_prefix_def starts_with_iff)

lemma split_once_Some: "split_once c s = Some (a, b) \<longleftrightarrow> s = a @ c # b \<and> c \<notin> set a"
proof (induction s arbitrary: a)
  case (Cons x s)
  then show ?case by (cases a) auto
qed simp

lemma split_once_None: "split_once c s = None \<longleftrightarrow> c \<notin> set s"
  by (induction s) auto

lemma split_once_append [simp]: "c \<notin> set a \<Longrightarrow> split_once c (a @ c # b) = Some (a, b)"
  by (simp add: split_once_Some)

text \<open>Two texts that agree up to the first separator agree on both sides of it.\<close>

lemma sep_inject:
  assumes "(c :: char) \<notin> set a" "c \<notin> set a'"
  shows "a @ c # b = a' @ c # b' \<longleftrightarrow> a = a' \<and> b = b'"
proof
  assume eq: "a @ c # b = a' @ c # b'"
  have "split_once c (a @ c # b) = Some (a, b)" using assms(1) by (rule split_once_append)
  moreover have "split_once c (a @ c # b) = Some (a', b')"
    unfolding eq using assms(2) by (rule split_once_append)
  ultimately show "a = a' \<and> b = b'" by simp
qed simp

text \<open>A separator-free text never equals one that has the separator.\<close>

lemma sep_absent: "c \<notin> set a \<Longrightarrow> a \<noteq> b @ c # d"
  by auto

section \<open>Decimal numbers\<close>

definition digit :: "nat \<Rightarrow> char" where
  "digit n = char_of (48 + n mod 10)"

fun dec_string :: "nat \<Rightarrow> string" where
  "dec_string n = (if n < 10 then [digit n] else dec_string (n div 10) @ [digit n])"

declare dec_string.simps [simp del]

text \<open>\<open>{n:0w}\<close>: padded with zeros on the left to the given width.\<close>

definition dec_padded :: "nat \<Rightarrow> nat \<Rightarrow> string" where
  "dec_padded w n = (let s = dec_string n in replicate (w - length s) (CHR ''0'') @ s)"

definition is_digit :: "char \<Rightarrow> bool" where
  "is_digit c = (48 \<le> (of_char c :: nat) \<and> (of_char c :: nat) \<le> 57)"

definition digit_val :: "char \<Rightarrow> nat" where
  "digit_val c = of_char c - 48"

definition dec_value :: "string \<Rightarrow> nat" where
  "dec_value s = foldl (\<lambda>a c. 10 * a + digit_val c) 0 s"

text \<open>
  \<open>str::parse\<close> for an unsigned integer type with the given maximum: an optional \<open>+\<close>, at least one
  digit, nothing else, and no overflow.
\<close>

definition parse_unsigned :: "nat \<Rightarrow> string \<Rightarrow> nat option" where
  "parse_unsigned bound s =
     (let d = (case s of c # t \<Rightarrow> if c = CHR ''+'' then t else s | [] \<Rightarrow> [])
      in if d \<noteq> [] \<and> list_all is_digit d \<and> dec_value d \<le> bound then Some (dec_value d) else None)"

definition parse_u64 :: "string \<Rightarrow> nat option" where
  "parse_u64 = parse_unsigned (2 ^ 64 - 1)"

definition parse_u32 :: "string \<Rightarrow> nat option" where
  "parse_u32 = parse_unsigned (2 ^ 32 - 1)"

lemma of_char_digit: "(of_char (digit n) :: nat) = 48 + n mod 10"
proof -
  have "48 + n mod 10 < 256" by (simp add: order_less_trans [of _ "58::nat"] add.commute)
  then show ?thesis by (simp add: digit_def)
qed

lemma digit_val_digit [simp]: "digit_val (digit n) = n mod 10"
  by (simp add: digit_val_def of_char_digit)

lemma is_digit_digit [simp]: "is_digit (digit n)"
  by (simp add: is_digit_def of_char_digit)

lemma dec_string_not_Nil [simp]: "dec_string n \<noteq> []"
  by (subst dec_string.simps) simp

lemma dec_string_digits: "c \<in> set (dec_string n) \<Longrightarrow> is_digit c"
proof (induction n rule: dec_string.induct)
  case (1 n)
  then show ?case by (subst (asm) dec_string.simps) (auto split: if_splits)
qed

lemma dec_value_snoc: "dec_value (s @ [c]) = 10 * dec_value s + digit_val c"
  by (simp add: dec_value_def)

lemma dec_value_string [simp]: "dec_value (dec_string n) = n"
proof (induction n rule: dec_string.induct)
  case (1 n)
  show ?case
  proof (cases "n < 10")
    case True
    then show ?thesis by (subst dec_string.simps) (simp add: dec_value_def)
  next
    case False
    with 1 show ?thesis by (subst dec_string.simps) (simp add: dec_value_snoc)
  qed
qed

lemma dec_string_inject [simp]: "dec_string m = dec_string n \<longleftrightarrow> m = n"
  by (metis dec_value_string)

lemma dec_string_no_slash [simp]: "CHR ''/'' \<notin> set (dec_string n)"
  using dec_string_digits [of "CHR ''/''" n] by (auto simp: is_digit_def)

lemma dec_value_zeros: "dec_value (replicate k (CHR ''0'') @ s) = dec_value s"
proof (induction k)
  case (Suc k)
  then show ?case by (simp add: dec_value_def digit_val_def)
qed simp

lemma dec_value_padded [simp]: "dec_value (dec_padded w n) = n"
  by (simp add: dec_padded_def Let_def dec_value_zeros)

lemma dec_padded_inject [simp]: "dec_padded w m = dec_padded w n \<longleftrightarrow> m = n"
  by (metis dec_value_padded)

lemma dec_padded_digits: "c \<in> set (dec_padded w n) \<Longrightarrow> is_digit c"
  by (auto simp: dec_padded_def Let_def is_digit_def dest: dec_string_digits)

lemma parse_unsigned_digits:
  assumes "s \<noteq> []" "list_all is_digit s" "dec_value s \<le> b"
  shows "parse_unsigned b s = Some (dec_value s)"
proof -
  obtain c t where s: "s = c # t" using assms(1) by (cases s) auto
  have "c \<noteq> CHR ''+''" using assms(2) s by (auto simp: is_digit_def)
  with s assms show ?thesis by (simp add: parse_unsigned_def Let_def)
qed

lemma dec_padded_is_digit: "list_all is_digit (dec_padded w n)"
  by (auto simp: list_all_iff dest: dec_padded_digits)

lemma dec_padded_not_Nil [simp]: "dec_padded w n \<noteq> []"
  by (simp add: dec_padded_def Let_def)

lemma parse_u64_padded [simp]: "n < 2 ^ 64 \<Longrightarrow> parse_u64 (dec_padded w n) = Some n"
  unfolding parse_u64_def
  by (subst parse_unsigned_digits) (simp_all add: dec_padded_is_digit del: One_nat_def)

end
