(* ===== verification/Model.thy ===== *)
theory Model
  imports Prelude "HOL-Library.Word"
begin

text \<open>
  The data model of \<open>dsh-core\<close> (\<open>model.rs\<close>, \<open>error.rs\<close>, \<open>limits.rs\<close>): entities as records,
  enumerations as datatypes, \<open>BTreeMap\<close> as the ordered map of the prelude. The counters of type
  \<open>u64\<close> (versions, revisions, sequence numbers) start at 0 and only grow by at most 2 per command,
  so they are \<^typ>\<open>nat\<close>; times (\<open>i64\<close>) are \<^typ>\<open>int\<close>. A float is its 64-bit pattern, compared the way
  IEEE equality does.
\<close>

section \<open>Limits\<close>

definition MAX_PROJECTS :: nat where "MAX_PROJECTS = 10000"
definition MAX_BRANCHES_PER_PROJECT :: nat where "MAX_BRANCHES_PER_PROJECT = 100"
definition MAX_GROUPS_PER_PROJECT :: nat where "MAX_GROUPS_PER_PROJECT = 500"
definition MAX_ITEMS_PER_PROJECT :: nat where "MAX_ITEMS_PER_PROJECT = 10000"
definition MAX_VALUE_BYTES :: nat where "MAX_VALUE_BYTES = 64 * 1024"
definition MAX_ARRAY_ELEMENT_BYTES :: nat where "MAX_ARRAY_ELEMENT_BYTES = 8 * 1024"
definition MAX_KEY_BYTES :: nat where "MAX_KEY_BYTES = 128"
definition MAX_GROUP_NAME_BYTES :: nat where "MAX_GROUP_NAME_BYTES = 128"
definition MAX_PROJECT_NAME_BYTES :: nat where "MAX_PROJECT_NAME_BYTES = 128"

section \<open>Errors\<close>

datatype error_kind =
    LeaderRedirect | NotFound | Validation | PublishBlocked | VersionPruned | SessionInUse
  | SessionExpired | Forbidden | CycleRef | Conflict | NoDraft | LimitExceeded | Internal
  | Storage | Raft | Crypto

fun error_code :: "error_kind \<Rightarrow> string" where
  "error_code LeaderRedirect = ''ERR_LEADER_REDIRECT''"
| "error_code NotFound = ''ERR_NOT_FOUND''"
| "error_code Validation = ''ERR_VALIDATION''"
| "error_code PublishBlocked = ''ERR_PUBLISH_BLOCKED''"
| "error_code VersionPruned = ''ERR_VERSION_PRUNED''"
| "error_code SessionInUse = ''ERR_SESSION_IN_USE''"
| "error_code SessionExpired = ''ERR_SESSION_EXPIRED''"
| "error_code Forbidden = ''ERR_FORBIDDEN''"
| "error_code CycleRef = ''ERR_CYCLE_REF''"
| "error_code Conflict = ''ERR_CONFLICT''"
| "error_code NoDraft = ''ERR_NO_DRAFT''"
| "error_code LimitExceeded = ''ERR_LIMIT_EXCEEDED''"
| "error_code Internal = ''ERR_INTERNAL''"
| "error_code Storage = ''ERR_STORAGE''"
| "error_code Raft = ''ERR_RAFT''"
| "error_code Crypto = ''ERR_CRYPTO''"

section \<open>Values\<close>

datatype value_type = TString | TInt | TFloat | TBool | TJson | TArray | TSecret

record ciphertext =
  ct_enc :: string
  ct_v :: nat
  ct_dek_v :: nat
  ct_nonce :: string
  ct_ct :: string
  ct_edek :: string
  ct_edek_nonce :: string

type_synonym f64 = "64 word"

datatype val =
    VString string
  | VInt int
  | VFloat f64
  | VBool bool
  | VJson string
  | VArray "string list"
  | VSecret ciphertext

fun val_type :: "val \<Rightarrow> value_type" where
  "val_type (VString _) = TString"
| "val_type (VInt _) = TInt"
| "val_type (VFloat _) = TFloat"
| "val_type (VBool _) = TBool"
| "val_type (VJson _) = TJson"
| "val_type (VArray _) = TArray"
| "val_type (VSecret _) = TSecret"

text \<open>
  \<open>PartialEq\<close> of \<open>f64\<close>: the exponent bits all set and a non-zero fraction is a NaN, which equals
  nothing; the two zeros are equal; otherwise the patterns are compared.
\<close>

definition f64_abs :: "f64 \<Rightarrow> nat" where
  "f64_abs x = unat x mod 2 ^ 63"

definition f64_nan :: "f64 \<Rightarrow> bool" where
  "f64_nan x = (f64_abs x > 2047 * 2 ^ 52)"

definition f64_eq :: "f64 \<Rightarrow> f64 \<Rightarrow> bool" where
  "f64_eq x y = (\<not> f64_nan x \<and> \<not> f64_nan y \<and> (x = y \<or> f64_abs x = 0 \<and> f64_abs y = 0))"

text \<open>The derived \<open>PartialEq\<close> of \<open>Value\<close>.\<close>

definition value_eq :: "val \<Rightarrow> val \<Rightarrow> bool" where
  "value_eq v w = (case (v, w) of (VFloat x, VFloat y) \<Rightarrow> f64_eq x y | _ \<Rightarrow> v = w)"

section \<open>Structure\<close>

record item_def =
  it_key :: string
  it_ty :: value_type
  it_required :: bool
  it_secret :: bool
  it_validate :: "string option"
  it_description :: "string option"
  it_shared :: bool

record group_def =
  g_name :: string
  g_items :: "item_def list"

record struct =
  s_version :: nat
  s_groups :: "group_def list"

record structure_draft =
  sd_base_version :: nat
  sd_groups :: "group_def list"

type_synonym project_id = string
type_synonym branch_name = string

definition BRANCH_DEV :: string where "BRANCH_DEV = ''dev''"
definition BRANCH_TEST :: string where "BRANCH_TEST = ''test''"
definition BRANCH_PROD :: string where "BRANCH_PROD = ''prod''"

record project =
  p_id :: project_id
  p_name :: string
  p_created_at :: int

section \<open>Branches and versions\<close>

record draft_value =
  dv_value :: val
  dv_updated_at :: int

record label_selector =
  sel_key :: string
  sel_value :: string

record gray_rule =
  match_labels :: "label_selector list"
  ip_cidrs :: "string list"
  percentage :: "32 word option"

text \<open>Two-level maps: group, then key.\<close>

type_synonym 'v tree = "(string, (string, 'v) bmap) bmap"
type_synonym snapshot = "val tree"
type_synonym value_draft = "draft_value tree"
type_synonym bindings = "string tree"

record branch_state =
  active_version :: nat
  structure_version :: nat
  last_request_id :: "string option"
  b_value_draft :: value_draft
  draft_rev :: nat
  gray_seq :: nat
  b_gray_rule :: "gray_rule option"
  shared_bindings :: bindings
  bindings_dirty :: bool

text \<open>\<open>BranchState::new\<close>.\<close>

definition branch_new :: "nat \<Rightarrow> branch_state" where
  "branch_new sv = \<lparr>active_version = 0, structure_version = sv, last_request_id = None,
     b_value_draft = bm_empty, draft_rev = 0, gray_seq = 0, b_gray_rule = None,
     shared_bindings = bm_empty, bindings_dirty = False\<rparr>"

datatype version_kind = Full | Diff

datatype event_type = ValuePublish | StructurePublish | SharedCascade | Rollback

record version_record =
  vr_no :: nat
  vr_structure_version :: nat
  vr_created_at :: int
  vr_operator :: string
  vr_comment :: string
  vr_rollback_of :: "nat option"
  vr_kind :: version_kind
  vr_snapshot_ref :: "string option"
  vr_diff_ref :: "string option"
  vr_event_ty :: "event_type option"
  vr_gray :: bool

datatype change_kind = Upsert | Delete

record diff_entry =
  de_group :: string
  de_key :: string
  de_kind :: change_kind
  de_new_value :: "val option"

record publish_event =
  ev_project :: project_id
  ev_branch :: branch_name
  ev_version :: nat
  ev_ty :: event_type
  ev_structure_version :: nat
  ev_comment :: string
  ev_request_id :: string
  ev_changes :: "diff_entry list"
  ev_gray :: bool

datatype publish_policy = Block | Warn

datatype cascade_mode = Auto | Manual

section \<open>Shared library, accounts, sessions, audit\<close>

record shared_item =
  si_key :: string
  si_ty :: value_type
  si_secret :: bool
  si_required :: bool
  si_value :: val
  si_version :: nat
  si_description :: "string option"

datatype principal =
    Admin
  | ProjectAdmin string project_id
  | GlobalAdmin string

record project_admin_account =
  pa_username :: string
  pa_project :: project_id
  pa_salt :: string
  pa_password_hash :: string
  pa_created_at :: int

record global_admin_account =
  ga_username :: string
  ga_salt :: string
  ga_password_hash :: string
  ga_created_at :: int

record project_token =
  tk_id :: string
  tk_name :: string
  tk_project :: project_id
  tk_hash :: string
  tk_created_at :: nat
  tk_created_by :: string
  tk_revoked :: bool

record admin_session =
  as_token_hash :: string
  as_issued_at :: int
  as_expires_at :: "int option"
  as_device_id :: string
  as_principal :: principal

text \<open>The free-form JSON \<open>detail\<close> of an audit entry is kept as its text.\<close>

record audit_entry =
  au_seq :: nat
  au_ts :: int
  au_operator :: string
  au_action :: string
  au_project :: "string option"
  au_branch :: "string option"
  au_version :: "nat option"
  au_request_id :: "string option"
  au_detail :: string

section \<open>Error values\<close>

text \<open>
  The messages that the validators collect, one constructor per message of the source, with the
  names it interpolates.
\<close>

datatype verr =
    StringTooLong string
  | InvalidJson string
  | ArrayElementTooLong string
  | TypeMismatch string value_type
  | RequiredUnset string string
  | TooManyGroups
  | InvalidGroupNameLength
  | InvalidGroupName string
  | DuplicateGroup string
  | InvalidKeyLength string
  | InvalidKeyName string
  | DuplicateItemKey string string
  | SecretFlagRequiresSecretType string string
  | TooManyItems
  | UnboundShared string string
  | SharedTypeMismatch string string string
  | DanglingShared string string string

text \<open>
  \<open>Error\<close>: the kind and the \<open>detail\<close> payload that \<open>publish_blocked\<close> attaches. The message text
  (for people, never matched on by the code) is left out.
\<close>

record error =
  e_kind :: error_kind
  e_detail :: "verr list option"

definition err :: "error_kind \<Rightarrow> error" where
  "err k = \<lparr>e_kind = k, e_detail = None\<rparr>"

definition publish_blocked :: "verr list \<Rightarrow> error" where
  "publish_blocked es = \<lparr>e_kind = PublishBlocked, e_detail = Some es\<rparr>"

type_synonym 'a res = "error + 'a"

section \<open>Lemmas\<close>

text \<open>Two-level lookup, the observation under which trees are compared.\<close>

definition tree_get :: "'v tree \<Rightarrow> string \<Rightarrow> string \<Rightarrow> 'v option" where
  "tree_get t g k = (case bm_get t g of None \<Rightarrow> None | Some m \<Rightarrow> bm_get m k)"

text \<open>\<open>entry(g).or_default().insert(k, v)\<close>.\<close>

definition tree_insert :: "string \<Rightarrow> string \<Rightarrow> 'v \<Rightarrow> 'v tree \<Rightarrow> 'v tree" where
  "tree_insert g k v t =
     bm_insert g (bm_insert k v (case bm_get t g of None \<Rightarrow> bm_empty | Some m \<Rightarrow> m)) t"

text \<open>All entries, in the order of two nested loops over the maps.\<close>

definition tree_entries :: "'v tree \<Rightarrow> (string \<times> string \<times> 'v) list" where
  "tree_entries t = concat (map (\<lambda>(g, m). map (\<lambda>(k, v). (g, k, v)) (bm_entries m)) (bm_entries t))"

lemma tree_get_insert [simp]:
  "tree_get (tree_insert g k v t) g' k' =
     (if g' = g \<and> k' = k then Some v else tree_get t g' k')"
  by (auto simp: tree_get_def tree_insert_def split: option.splits)

lemma tree_get_empty [simp]: "tree_get bm_empty g k = None"
  by (simp add: tree_get_def)

lemma tree_entries_get: "(g, k, v) \<in> set (tree_entries t) \<longleftrightarrow> tree_get t g k = Some v"
  by (force simp: tree_entries_def tree_get_def bm_entries_get split: option.splits)

text \<open>Trees without empty groups are determined by their entries.\<close>

definition no_empty_groups :: "'v tree \<Rightarrow> bool" where
  "no_empty_groups t \<longleftrightarrow> (\<forall>g m. bm_get t g = Some m \<longrightarrow> \<not> bm_is_empty m)"

lemma tree_eqI:
  assumes "no_empty_groups s" "no_empty_groups t"
    and "\<And>g k. tree_get s g k = tree_get t g k"
  shows "s = t"
proof (rule bmap_eqI)
  fix g
  show "bm_get s g = bm_get t g"
  proof (cases "bm_get s g"; cases "bm_get t g")
    fix m assume m: "bm_get s g = None" "bm_get t g = Some m"
    have "bm_get m k = None" for k using m assms(3) [of g k] by (simp add: tree_get_def)
    then have "bm_is_empty m" by (simp add: bm_is_empty_iff)
    then show ?thesis using assms(2) m(2) unfolding no_empty_groups_def by blast
  next
    fix m assume m: "bm_get s g = Some m" "bm_get t g = None"
    have "bm_get m k = None" for k using m assms(3) [of g k] by (simp add: tree_get_def)
    then have "bm_is_empty m" by (simp add: bm_is_empty_iff)
    then show ?thesis using assms(1) m(1) unfolding no_empty_groups_def by blast
  next
    fix m n assume m: "bm_get s g = Some m" "bm_get t g = Some n"
    have "bm_get m k = bm_get n k" for k using m assms(3) [of g k] by (simp add: tree_get_def)
    then show ?thesis using m by (simp add: bmap_eqI)
  qed simp
qed

lemma err_simps [simp]: "e_kind (err k) = k" "e_detail (err k) = None"
  by (simp_all add: err_def)

lemma publish_blocked_simps [simp]:
  "e_kind (publish_blocked es) = PublishBlocked"
  "e_detail (publish_blocked es) = Some es"
  by (simp_all add: publish_blocked_def)

lemma err_inject [simp]: "err k = err k' \<longleftrightarrow> k = k'"
  by (simp add: err_def)

text \<open>Equal values are the same value, but for floats; then they are both zero or the same.\<close>

lemma value_eq_refl: "value_eq v v \<longleftrightarrow> (\<forall>x. v = VFloat x \<longrightarrow> \<not> f64_nan x)"
  by (auto simp: value_eq_def f64_eq_def split: val.splits)

lemma value_eq_same:
  "value_eq v w \<Longrightarrow> val_type v \<noteq> TFloat \<Longrightarrow> v = w"
  by (auto simp: value_eq_def split: val.splits)

lemma value_eq_type: "value_eq v w \<Longrightarrow> val_type v = val_type w"
  by (auto simp: value_eq_def split: val.splits)

lemma error_code_inject: "error_code k = error_code k' \<Longrightarrow> k = k'"
  by (cases k; cases k') simp_all

end
