(* ===== verification/Keys.thy ===== *)
theory Keys
  imports Model
begin

text \<open>
  The key layout of the store (\<open>keys.rs\<close>): the prefixes, one constructor per kind of record, and
  the facts every later proof needs of it: for names without a slash, keys of different kinds never
  collide and a key determines the names it was built from.
\<close>

named_theorems key_defs \<open>definitions of the key prefixes and constructors\<close>

section \<open>Prefixes\<close>

definition K_PROJECT :: string where [key_defs]: "K_PROJECT = ''p/''"
definition K_STRUCT :: string where [key_defs]: "K_STRUCT = ''/struct''"
definition K_STRUCT_DRAFT :: string where [key_defs]: "K_STRUCT_DRAFT = ''/struct-draft''"
definition K_BRANCH :: string where [key_defs]: "K_BRANCH = ''/b/''"
definition K_STATE :: string where [key_defs]: "K_STATE = ''/state''"
definition K_VERSION :: string where [key_defs]: "K_VERSION = ''/v/''"
definition K_SHARED :: string where [key_defs]: "K_SHARED = ''sh/''"
definition K_SHARED_DRAFT :: string where [key_defs]: "K_SHARED_DRAFT = ''sh-draft/''"
definition K_SESSION :: string where [key_defs]: "K_SESSION = ''sess/admin''"
definition K_ADMIN_PW :: string where [key_defs]: "K_ADMIN_PW = ''sess/admin-pw''"
definition K_AUDIT :: string where [key_defs]: "K_AUDIT = ''audit/''"
definition K_AUDIT_SEQ :: string where [key_defs]: "K_AUDIT_SEQ = ''audit/seq''"
definition K_IDX_PNAME :: string where [key_defs]: "K_IDX_PNAME = ''idx/pname/''"
definition K_PA_ACCOUNT :: string where [key_defs]: "K_PA_ACCOUNT = ''adm/pa/''"
definition K_GA_ACCOUNT :: string where [key_defs]: "K_GA_ACCOUNT = ''adm/ga/''"
definition K_DATA_TOKEN :: string where [key_defs]: "K_DATA_TOKEN = ''tok/''"
definition K_PA_SESSION :: string where [key_defs]: "K_PA_SESSION = ''sess/pa/''"
definition K_GA_SESSION :: string where [key_defs]: "K_GA_SESSION = ''sess/ga/''"
definition K_GRAY_SNAP :: string where [key_defs]: "K_GRAY_SNAP = ''/gray-snap/''"
definition K_SESSION_PREFIX :: string where [key_defs]: "K_SESSION_PREFIX = ''sess/admin/''"

section \<open>Constructors\<close>

definition data_token_key :: "string \<Rightarrow> string" where [key_defs]:
  "data_token_key hash = K_DATA_TOKEN @ hash"

definition project_key :: "project_id \<Rightarrow> string" where [key_defs]:
  "project_key p = K_PROJECT @ p"

definition struct_key :: "project_id \<Rightarrow> string" where [key_defs]:
  "struct_key p = K_PROJECT @ p @ K_STRUCT"

definition struct_draft_key :: "project_id \<Rightarrow> string" where [key_defs]:
  "struct_draft_key p = K_PROJECT @ p @ K_STRUCT_DRAFT"

definition branch_state_key :: "project_id \<Rightarrow> branch_name \<Rightarrow> string" where [key_defs]:
  "branch_state_key p b = K_PROJECT @ p @ K_BRANCH @ b @ K_STATE"

definition version_key :: "project_id \<Rightarrow> branch_name \<Rightarrow> nat \<Rightarrow> string" where [key_defs]:
  "version_key p b no = K_PROJECT @ p @ K_BRANCH @ b @ K_VERSION @ dec_string no"

definition snapshot_key :: "project_id \<Rightarrow> branch_name \<Rightarrow> nat \<Rightarrow> string" where [key_defs]:
  "snapshot_key p b no = K_PROJECT @ p @ K_BRANCH @ b @ K_VERSION @ dec_string no @ ''/snap''"

definition diff_key :: "project_id \<Rightarrow> branch_name \<Rightarrow> nat \<Rightarrow> string" where [key_defs]:
  "diff_key p b no = K_PROJECT @ p @ K_BRANCH @ b @ K_VERSION @ dec_string no @ ''/diff''"

definition gray_snap_key :: "project_id \<Rightarrow> branch_name \<Rightarrow> nat \<Rightarrow> string" where [key_defs]:
  "gray_snap_key p b seq = K_PROJECT @ p @ K_BRANCH @ b @ K_GRAY_SNAP @ dec_string seq"

definition branch_prefix :: "project_id \<Rightarrow> branch_name \<Rightarrow> string" where [key_defs]:
  "branch_prefix p b = K_PROJECT @ p @ K_BRANCH @ b"

definition shared_key :: "string \<Rightarrow> string" where [key_defs]:
  "shared_key k = K_SHARED @ k"

definition shared_draft_key :: "string \<Rightarrow> string" where [key_defs]:
  "shared_draft_key k = K_SHARED_DRAFT @ k"

definition session_key :: string where [key_defs]:
  "session_key = K_SESSION"

definition session_key_with :: "string \<Rightarrow> string" where [key_defs]:
  "session_key_with sid = K_SESSION_PREFIX @ sid"

definition project_admin_key :: "string \<Rightarrow> string" where [key_defs]:
  "project_admin_key u = K_PA_ACCOUNT @ u"

definition pa_session_key :: "string \<Rightarrow> string" where [key_defs]:
  "pa_session_key u = K_PA_SESSION @ u"

definition pa_session_prefix :: "string \<Rightarrow> string" where [key_defs]:
  "pa_session_prefix u = K_PA_SESSION @ u @ ''/''"

definition pa_session_key_with :: "string \<Rightarrow> string \<Rightarrow> string" where [key_defs]:
  "pa_session_key_with u sid = K_PA_SESSION @ u @ ''/'' @ sid"

definition global_admin_key :: "string \<Rightarrow> string" where [key_defs]:
  "global_admin_key u = K_GA_ACCOUNT @ u"

definition ga_session_prefix :: "string \<Rightarrow> string" where [key_defs]:
  "ga_session_prefix u = K_GA_SESSION @ u @ ''/''"

definition ga_session_key_with :: "string \<Rightarrow> string \<Rightarrow> string" where [key_defs]:
  "ga_session_key_with u sid = K_GA_SESSION @ u @ ''/'' @ sid"

definition audit_key :: "nat \<Rightarrow> string" where [key_defs]:
  "audit_key seq = K_AUDIT @ dec_padded 20 seq"

definition idx_pname :: "string \<Rightarrow> string" where [key_defs]:
  "idx_pname name = K_IDX_PNAME @ name"

text \<open>The prefix of all branch records of a project, as \<open>list_branches\<close> builds it.\<close>

definition branches_prefix :: "project_id \<Rightarrow> string" where [key_defs]:
  "branches_prefix p = K_PROJECT @ p @ K_BRANCH"

text \<open>The prefix of all version records of a branch, as \<open>version_history\<close> builds it.\<close>

definition versions_prefix :: "project_id \<Rightarrow> branch_name \<Rightarrow> string" where [key_defs]:
  "versions_prefix p b = K_PROJECT @ p @ K_BRANCH @ b @ K_VERSION"

section \<open>Keys do not collide\<close>

definition slash_free :: "string \<Rightarrow> bool" where
  "slash_free s \<longleftrightarrow> CHR ''/'' \<notin> set s"

text \<open>The segments of a key. Two keys with different segments are different keys.\<close>

definition segs :: "string \<Rightarrow> string list" where
  "segs = split_all (CHR ''/'')"

lemma split_all_not_Nil [simp]: "split_all c s \<noteq> []"
  by (cases s) (auto split: list.splits)

lemma split_all_free: "c \<notin> set s \<Longrightarrow> split_all c s = [s]"
  by (induction s) auto

lemma split_all_sep: "c \<notin> set a \<Longrightarrow> split_all c (a @ c # s) = a # split_all c s"
  by (induction a) auto

lemma segs_free: "slash_free s \<Longrightarrow> segs s = [s]"
  by (simp add: segs_def slash_free_def split_all_free)

lemma segs_Cons_slash: "segs (CHR ''/'' # s) = [] # segs s"
  by (simp add: segs_def)

lemma segs_sep: "slash_free a \<Longrightarrow> segs (a @ CHR ''/'' # s) = a # segs s"
  by (simp add: segs_def slash_free_def split_all_sep)

lemma slash_free_simps [simp]:
  "slash_free []"
  "slash_free (c # s) \<longleftrightarrow> c \<noteq> CHR ''/'' \<and> slash_free s"
  "slash_free (s @ t) \<longleftrightarrow> slash_free s \<and> slash_free t"
  by (auto simp: slash_free_def)

lemma slash_free_dec [simp]: "slash_free (dec_string n)"
  by (simp add: slash_free_def)

lemma segs_lits:
  "segs ''snap'' = [''snap'']" "segs ''diff'' = [''diff'']" "segs ''state'' = [''state'']"
  "segs ''struct'' = [''struct'']" "segs ''struct-draft'' = [''struct-draft'']"
  "segs ''p'' = [''p'']" "segs ''sh'' = [''sh'']" "segs ''sh-draft'' = [''sh-draft'']"
  "segs ''admin'' = [''admin'']" "segs ''admin-pw'' = [''admin-pw'']" "segs ''seq'' = [''seq'']"
  by (simp_all add: segs_free)

text \<open>A literal segment at the front of a key.\<close>

lemma segs_heads:
  "segs (''p/'' @ s) = ''p'' # segs s"
  "segs (''b/'' @ s) = ''b'' # segs s"
  "segs (''v/'' @ s) = ''v'' # segs s"
  "segs (''gray-snap/'' @ s) = ''gray-snap'' # segs s"
  "segs (''sh/'' @ s) = ''sh'' # segs s"
  "segs (''sh-draft/'' @ s) = ''sh-draft'' # segs s"
  "segs (''sess/'' @ s) = ''sess'' # segs s"
  "segs (''admin/'' @ s) = ''admin'' # segs s"
  "segs (''pa/'' @ s) = ''pa'' # segs s"
  "segs (''ga/'' @ s) = ''ga'' # segs s"
  "segs (''adm/'' @ s) = ''adm'' # segs s"
  "segs (''tok/'' @ s) = ''tok'' # segs s"
  "segs (''audit/'' @ s) = ''audit'' # segs s"
  "segs (''idx/'' @ s) = ''idx'' # segs s"
  "segs (''pname/'' @ s) = ''pname'' # segs s"
  using segs_sep [of "''p''" s] segs_sep [of "''b''" s] segs_sep [of "''v''" s]
    segs_sep [of "''gray-snap''" s] segs_sep [of "''sh''" s] segs_sep [of "''sh-draft''" s]
    segs_sep [of "''sess''" s] segs_sep [of "''admin''" s] segs_sep [of "''pa''" s]
    segs_sep [of "''ga''" s] segs_sep [of "''adm''" s] segs_sep [of "''tok''" s]
    segs_sep [of "''audit''" s] segs_sep [of "''idx''" s] segs_sep [of "''pname''" s]
  by simp_all

lemma slash_free_padded [simp]: "slash_free (dec_padded w n)"
  using dec_padded_digits [of "CHR ''/''" w n] by (auto simp: slash_free_def is_digit_def)

text \<open>The kinds of key, with the names each is built from, and the text of each.\<close>

datatype skey =
    KProject project_id
  | KStruct project_id
  | KStructDraft project_id
  | KState project_id branch_name
  | KVersion project_id branch_name nat
  | KSnap project_id branch_name nat
  | KDiff project_id branch_name nat
  | KGray project_id branch_name nat
  | KShared string
  | KSharedDraft string
  | KSession
  | KAdminPw
  | KSessionOf string
  | KPaSession string
  | KPaSessionOf string string
  | KGaSessionOf string string
  | KPaAccount string
  | KGaAccount string
  | KToken string
  | KAudit nat
  | KAuditSeq
  | KIdxName string

fun key_string :: "skey \<Rightarrow> string" where
  "key_string (KProject p) = project_key p"
| "key_string (KStruct p) = struct_key p"
| "key_string (KStructDraft p) = struct_draft_key p"
| "key_string (KState p b) = branch_state_key p b"
| "key_string (KVersion p b n) = version_key p b n"
| "key_string (KSnap p b n) = snapshot_key p b n"
| "key_string (KDiff p b n) = diff_key p b n"
| "key_string (KGray p b n) = gray_snap_key p b n"
| "key_string (KShared k) = shared_key k"
| "key_string (KSharedDraft k) = shared_draft_key k"
| "key_string KSession = session_key"
| "key_string KAdminPw = K_ADMIN_PW"
| "key_string (KSessionOf sid) = session_key_with sid"
| "key_string (KPaSession u) = pa_session_key u"
| "key_string (KPaSessionOf u sid) = pa_session_key_with u sid"
| "key_string (KGaSessionOf u sid) = ga_session_key_with u sid"
| "key_string (KPaAccount u) = project_admin_key u"
| "key_string (KGaAccount u) = global_admin_key u"
| "key_string (KToken h) = data_token_key h"
| "key_string (KAudit n) = audit_key n"
| "key_string KAuditSeq = K_AUDIT_SEQ"
| "key_string (KIdxName n) = idx_pname n"

text \<open>The names in a key have no slash.\<close>

fun key_ok :: "skey \<Rightarrow> bool" where
  "key_ok (KProject p) = slash_free p"
| "key_ok (KStruct p) = slash_free p"
| "key_ok (KStructDraft p) = slash_free p"
| "key_ok (KState p b) = (slash_free p \<and> slash_free b)"
| "key_ok (KVersion p b n) = (slash_free p \<and> slash_free b)"
| "key_ok (KSnap p b n) = (slash_free p \<and> slash_free b)"
| "key_ok (KDiff p b n) = (slash_free p \<and> slash_free b)"
| "key_ok (KGray p b n) = (slash_free p \<and> slash_free b)"
| "key_ok (KShared k) = slash_free k"
| "key_ok (KSharedDraft k) = slash_free k"
| "key_ok KSession = True"
| "key_ok KAdminPw = True"
| "key_ok (KSessionOf sid) = slash_free sid"
| "key_ok (KPaSession u) = slash_free u"
| "key_ok (KPaSessionOf u sid) = (slash_free u \<and> slash_free sid)"
| "key_ok (KGaSessionOf u sid) = (slash_free u \<and> slash_free sid)"
| "key_ok (KPaAccount u) = slash_free u"
| "key_ok (KGaAccount u) = slash_free u"
| "key_ok (KToken h) = slash_free h"
| "key_ok (KAudit n) = True"
| "key_ok KAuditSeq = True"
| "key_ok (KIdxName n) = slash_free n"

text \<open>A reader of keys: which kind a key is and which names it holds.\<close>

definition key_parse :: "string \<Rightarrow> skey option" where
  "key_parse s = (case segs s of
     [a, b] \<Rightarrow>
       if a = ''p'' then Some (KProject b)
       else if a = ''sh'' then Some (KShared b)
       else if a = ''sh-draft'' then Some (KSharedDraft b)
       else if a = ''tok'' then Some (KToken b)
       else if a = ''audit'' then Some (if b = ''seq'' then KAuditSeq else KAudit (dec_value b))
       else if a = ''sess'' then
         (if b = ''admin'' then Some KSession
          else if b = ''admin-pw'' then Some KAdminPw else None)
       else None
   | [a, b, c] \<Rightarrow>
       if a = ''p'' then
         (if c = ''struct'' then Some (KStruct b)
          else if c = ''struct-draft'' then Some (KStructDraft b) else None)
       else if a = ''sess'' then
         (if b = ''admin'' then Some (KSessionOf c)
          else if b = ''pa'' then Some (KPaSession c) else None)
       else if a = ''adm'' then
         (if b = ''pa'' then Some (KPaAccount c)
          else if b = ''ga'' then Some (KGaAccount c) else None)
       else if a = ''idx'' then Some (KIdxName c)
       else None
   | [a, b, c, d] \<Rightarrow>
       if b = ''pa'' then Some (KPaSessionOf c d)
       else if b = ''ga'' then Some (KGaSessionOf c d) else None
   | [a, b, c, d, e] \<Rightarrow> Some (KState b d)
   | [a, b, c, d, e, f] \<Rightarrow>
       if e = ''v'' then Some (KVersion b d (dec_value f)) else Some (KGray b d (dec_value f))
   | [a, b, c, d, e, f, g] \<Rightarrow>
       if g = ''snap'' then Some (KSnap b d (dec_value f)) else Some (KDiff b d (dec_value f))
   | _ \<Rightarrow> None)"

lemma dec_padded_not_seq: "dec_padded w n \<noteq> ''seq''"
  using dec_padded_digits [of "CHR ''s''" w n] by (auto simp: is_digit_def)

lemmas segs_steps = segs_sep segs_free segs_lits segs_heads [simplified]

lemma key_parse_string: "key_ok k \<Longrightarrow> key_parse (key_string k) = Some k"
  by (cases k) (simp_all add: key_parse_def key_defs segs_steps dec_padded_not_seq)

lemma key_string_inject: "key_ok k \<Longrightarrow> key_ok k' \<Longrightarrow> key_string k = key_string k' \<longleftrightarrow> k = k'"
  by (metis key_parse_string option.inject)

text \<open>
  With \<open>key_fold\<close> the simplifier reads every key as the text of its kind and decides key equalities
  by the datatype.
\<close>

lemmas key_fold = key_string.simps [symmetric]

declare key_string.simps [simp del]

lemmas key_eq = key_fold key_string_inject

section \<open>Keys below a directory\<close>

lemma split_all_append: "split_all c (a @ c # b) = split_all c a @ split_all c b"
  by (induction a) (auto split: list.splits)

fun join_all :: "char \<Rightarrow> string list \<Rightarrow> string" where
  "join_all c [] = []"
| "join_all c [x] = x"
| "join_all c (x # y # ys) = x @ c # join_all c (y # ys)"

lemma join_split: "join_all c (split_all c s) = s"
proof (induction s)
  case (Cons x s)
  obtain y ys where "split_all c s = y # ys" by (cases "split_all c s") auto
  with Cons show ?case by (cases ys) auto
qed simp

lemma join_all_append:
  "xs \<noteq> [] \<Longrightarrow> ys \<noteq> [] \<Longrightarrow> join_all c (xs @ ys) = join_all c xs @ c # join_all c ys"
proof (induction c xs rule: join_all.induct)
  case (2 c x)
  then show ?case by (cases ys) simp_all
qed simp_all

lemma starts_with_dir:
  "starts_with k (pre @ ''/'') \<longleftrightarrow> (\<exists>r. r \<noteq> [] \<and> segs k = segs pre @ r)"
proof
  assume "starts_with k (pre @ ''/'')"
  then obtain t where "k = pre @ CHR ''/'' # t" by (auto simp: starts_with_iff)
  then have "segs k = segs pre @ segs t" by (simp add: segs_def split_all_append)
  moreover have "segs t \<noteq> []" by (simp add: segs_def)
  ultimately show "\<exists>r. r \<noteq> [] \<and> segs k = segs pre @ r" by blast
next
  assume "\<exists>r. r \<noteq> [] \<and> segs k = segs pre @ r"
  then obtain r where r: "r \<noteq> []" "segs k = segs pre @ r" by blast
  have "k = join_all (CHR ''/'') (segs pre @ r)" using r(2) by (metis join_split segs_def)
  also have "\<dots> = pre @ CHR ''/'' # join_all (CHR ''/'') r"
    using r(1) by (simp add: join_all_append segs_def join_split)
  finally show "starts_with k (pre @ ''/'')" by (simp add: starts_with_iff)
qed

text \<open>A key strictly below the directory with the given segments.\<close>

definition in_dir :: "string list \<Rightarrow> string \<Rightarrow> bool" where
  "in_dir xs k \<longleftrightarrow> take (length xs) (segs k) = xs \<and> length xs < length (segs k)"

lemma starts_with_dirI: "q = pre @ ''/'' \<Longrightarrow> segs pre = xs \<Longrightarrow> starts_with k q \<longleftrightarrow> in_dir xs k"
proof -
  assume q: "q = pre @ ''/''" "segs pre = xs"
  have "(\<exists>r. r \<noteq> [] \<and> segs k = xs @ r) \<longleftrightarrow> in_dir xs k"
  proof
    assume "in_dir xs k"
    then have "segs k = xs @ drop (length xs) (segs k)" "drop (length xs) (segs k) \<noteq> []"
      by (simp_all add: in_dir_def) (metis append_take_drop_id)
    then show "\<exists>r. r \<noteq> [] \<and> segs k = xs @ r" by blast
  qed (auto simp: in_dir_def)
  then show ?thesis by (simp only: q starts_with_dir)
qed

text \<open>The directories the code scans.\<close>

lemma scan_dirs:
  "starts_with k K_PROJECT \<longleftrightarrow> in_dir [''p''] k"
  "starts_with k K_SHARED \<longleftrightarrow> in_dir [''sh''] k"
  "starts_with k K_SHARED_DRAFT \<longleftrightarrow> in_dir [''sh-draft''] k"
  "starts_with k K_DATA_TOKEN \<longleftrightarrow> in_dir [''tok''] k"
  "starts_with k K_AUDIT \<longleftrightarrow> in_dir [''audit''] k"
  "starts_with k K_SESSION_PREFIX \<longleftrightarrow> in_dir [''sess'', ''admin''] k"
  "starts_with k K_PA_ACCOUNT \<longleftrightarrow> in_dir [''adm'', ''pa''] k"
  "starts_with k K_GA_ACCOUNT \<longleftrightarrow> in_dir [''adm'', ''ga''] k"
  by (rule starts_with_dirI [of _ "''p''"] starts_with_dirI [of _ "''sh''"]
      starts_with_dirI [of _ "''sh-draft''"] starts_with_dirI [of _ "''tok''"]
      starts_with_dirI [of _ "''audit''"] starts_with_dirI [of _ "''sess/admin''"]
      starts_with_dirI [of _ "''adm/pa''"] starts_with_dirI [of _ "''adm/ga''"];
      simp add: key_defs segs_def; fail)+

lemma scan_names:
  "slash_free p \<Longrightarrow> starts_with k (branches_prefix p) \<longleftrightarrow> in_dir [''p'', p, ''b''] k"
  "slash_free p \<Longrightarrow> slash_free b \<Longrightarrow>
     starts_with k (versions_prefix p b) \<longleftrightarrow> in_dir [''p'', p, ''b'', b, ''v''] k"
  "slash_free p \<Longrightarrow> starts_with k (pa_session_prefix p) \<longleftrightarrow> in_dir [''sess'', ''pa'', p] k"
  "slash_free p \<Longrightarrow> starts_with k (ga_session_prefix p) \<longleftrightarrow> in_dir [''sess'', ''ga'', p] k"
  by (rule starts_with_dirI [of _ "''p/'' @ p @ ''/b''"]
      starts_with_dirI [of _ "''p/'' @ p @ ''/b/'' @ b @ ''/v''"]
      starts_with_dirI [of _ "''sess/pa/'' @ p"] starts_with_dirI [of _ "''sess/ga/'' @ p"];
      simp add: key_defs segs_steps segs_free [of "''b''", simplified] segs_free [of "''v''", simplified];
      fail)+

text \<open>The segments of each kind of key.\<close>

fun key_segs :: "skey \<Rightarrow> string list" where
  "key_segs (KProject p) = [''p'', p]"
| "key_segs (KStruct p) = [''p'', p, ''struct'']"
| "key_segs (KStructDraft p) = [''p'', p, ''struct-draft'']"
| "key_segs (KState p b) = [''p'', p, ''b'', b, ''state'']"
| "key_segs (KVersion p b n) = [''p'', p, ''b'', b, ''v'', dec_string n]"
| "key_segs (KSnap p b n) = [''p'', p, ''b'', b, ''v'', dec_string n, ''snap'']"
| "key_segs (KDiff p b n) = [''p'', p, ''b'', b, ''v'', dec_string n, ''diff'']"
| "key_segs (KGray p b n) = [''p'', p, ''b'', b, ''gray-snap'', dec_string n]"
| "key_segs (KShared k) = [''sh'', k]"
| "key_segs (KSharedDraft k) = [''sh-draft'', k]"
| "key_segs KSession = [''sess'', ''admin'']"
| "key_segs KAdminPw = [''sess'', ''admin-pw'']"
| "key_segs (KSessionOf sid) = [''sess'', ''admin'', sid]"
| "key_segs (KPaSession u) = [''sess'', ''pa'', u]"
| "key_segs (KPaSessionOf u sid) = [''sess'', ''pa'', u, sid]"
| "key_segs (KGaSessionOf u sid) = [''sess'', ''ga'', u, sid]"
| "key_segs (KPaAccount u) = [''adm'', ''pa'', u]"
| "key_segs (KGaAccount u) = [''adm'', ''ga'', u]"
| "key_segs (KToken h) = [''tok'', h]"
| "key_segs (KAudit n) = [''audit'', dec_padded 20 n]"
| "key_segs KAuditSeq = [''audit'', ''seq'']"
| "key_segs (KIdxName n) = [''idx'', ''pname'', n]"

lemma segs_key_string: "key_ok sk \<Longrightarrow> segs (key_string sk) = key_segs sk"
  by (cases sk) (simp_all add: key_string.simps key_defs segs_steps)

end
