(* ===== verification/Validator.thy ===== *)
theory Validator
  imports Keys
begin

text \<open>
  The validators (\<open>validator.rs\<close>): item values against their definition, the check before a publish,
  names, and the structure constraints, each returning the list of its complaints. The lemmas say
  when a list is empty, by predicates stated without the loops.

  JSON is parsed and printed by the \<open>serde_json\<close> package. What the code takes from it is a
  parameter: whether a text parses, and the length of the text printed for a value or a shared item.
\<close>

record ext =
  json_valid :: "string \<Rightarrow> bool"
  value_size :: "val \<Rightarrow> nat"
  shared_size :: "shared_item \<Rightarrow> nat"

section \<open>Values\<close>

definition validate_value :: "ext \<Rightarrow> item_def \<Rightarrow> val \<Rightarrow> verr list" where
  "validate_value E def v = (case (it_ty def, v) of
     (TString, VString s) \<Rightarrow> if length s > MAX_VALUE_BYTES then [StringTooLong (it_key def)] else []
   | (TInt, VInt _) \<Rightarrow> []
   | (TFloat, VFloat _) \<Rightarrow> []
   | (TBool, VBool _) \<Rightarrow> []
   | (TJson, VJson s) \<Rightarrow> if json_valid E s then [] else [InvalidJson (it_key def)]
   | (TArray, VArray xs) \<Rightarrow>
       if list_ex (\<lambda>i. length i > MAX_ARRAY_ELEMENT_BYTES) xs
       then [ArrayElementTooLong (it_key def)] else []
   | (TSecret, VSecret _) \<Rightarrow> []
   | _ \<Rightarrow> [TypeMismatch (it_key def) (it_ty def)])"

definition validate_item :: "ext \<Rightarrow> value_draft \<Rightarrow> string \<Rightarrow> item_def \<Rightarrow> verr list" where
  "validate_item E draft g it =
     (if it_shared it then []
      else let has = map_option dv_value (tree_get draft g (it_key it))
        in if it_required it \<and> has = None then [RequiredUnset g (it_key it)]
           else (case has of None \<Rightarrow> [] | Some v \<Rightarrow> validate_value E it v))"

definition validate_publish :: "ext \<Rightarrow> value_draft \<Rightarrow> struct \<Rightarrow> verr list" where
  "validate_publish E draft st =
     concat (map (\<lambda>g. concat (map (validate_item E draft (g_name g)) (g_items g))) (s_groups st))"

section \<open>Names\<close>

definition is_lower :: "char \<Rightarrow> bool" where
  "is_lower c = (97 \<le> (of_char c :: nat) \<and> (of_char c :: nat) \<le> 122)"

definition is_upper :: "char \<Rightarrow> bool" where
  "is_upper c = (65 \<le> (of_char c :: nat) \<and> (of_char c :: nat) \<le> 90)"

definition is_alnum :: "char \<Rightarrow> bool" where
  "is_alnum c = (is_lower c \<or> is_upper c \<or> is_digit c)"

definition valid_key_name :: "string \<Rightarrow> bool" where
  "valid_key_name name =
     (name \<noteq> [] \<and> length name \<le> 128 \<and>
      list_all (\<lambda>b. is_alnum b \<or> b = CHR ''.'' \<or> b = CHR ''_'' \<or> b = CHR ''-'') name)"

section \<open>Structure\<close>

fun item_errs :: "string \<Rightarrow> string list \<Rightarrow> item_def list \<Rightarrow> verr list" where
  "item_errs g seen [] = []"
| "item_errs g seen (it # its) =
     (if length (it_key it) > MAX_KEY_BYTES \<or> it_key it = [] then [InvalidKeyLength (it_key it)] else [])
     @ (if \<not> valid_key_name (it_key it) then [InvalidKeyName (it_key it)] else [])
     @ (if it_key it \<in> set seen then [DuplicateItemKey g (it_key it)] else [])
     @ (if it_secret it \<and> it_ty it \<noteq> TSecret then [SecretFlagRequiresSecretType g (it_key it)] else [])
     @ item_errs g (it_key it # seen) its"

fun group_errs :: "string list \<Rightarrow> group_def list \<Rightarrow> verr list" where
  "group_errs seen [] = []"
| "group_errs seen (g # gs) =
     (if length (g_name g) > MAX_GROUP_NAME_BYTES \<or> g_name g = [] then [InvalidGroupNameLength] else [])
     @ (if \<not> valid_key_name (g_name g) then [InvalidGroupName (g_name g)] else [])
     @ (if g_name g \<in> set seen then [DuplicateGroup (g_name g)] else [])
     @ item_errs (g_name g) [] (g_items g)
     @ group_errs (g_name g # seen) gs"

definition total_items :: "struct \<Rightarrow> nat" where
  "total_items st = sum_list (map (\<lambda>g. length (g_items g)) (s_groups st))"

definition validate_structure :: "struct \<Rightarrow> verr list" where
  "validate_structure st =
     (if length (s_groups st) > MAX_GROUPS_PER_PROJECT then [TooManyGroups] else [])
     @ group_errs [] (s_groups st)
     @ (if total_items st > MAX_ITEMS_PER_PROJECT then [TooManyItems] else [])"

section \<open>What an empty list of complaints means\<close>

text \<open>A value fits its definition: right constructor, and within the bounds of that type.\<close>

definition value_fits :: "ext \<Rightarrow> item_def \<Rightarrow> val \<Rightarrow> bool" where
  "value_fits E def v \<longleftrightarrow> val_type v = it_ty def \<and>
     (\<forall>s. v = VString s \<longrightarrow> length s \<le> MAX_VALUE_BYTES) \<and>
     (\<forall>s. v = VJson s \<longrightarrow> json_valid E s) \<and>
     (\<forall>xs. v = VArray xs \<longrightarrow> (\<forall>x \<in> set xs. length x \<le> MAX_ARRAY_ELEMENT_BYTES))"

lemma validate_value_Nil: "validate_value E def v = [] \<longleftrightarrow> value_fits E def v"
  by (cases "it_ty def"; cases v)
     (auto simp: validate_value_def value_fits_def list_ex_iff linorder_not_less [symmetric])

definition item_filled :: "ext \<Rightarrow> value_draft \<Rightarrow> string \<Rightarrow> item_def \<Rightarrow> bool" where
  "item_filled E draft g it \<longleftrightarrow>
     (it_required it \<longrightarrow> tree_get draft g (it_key it) \<noteq> None) \<and>
     (\<forall>dv. tree_get draft g (it_key it) = Some dv \<longrightarrow> value_fits E it (dv_value dv))"

lemma validate_item_Nil:
  "validate_item E draft g it = [] \<longleftrightarrow> it_shared it \<or> item_filled E draft g it"
  by (auto simp: validate_item_def item_filled_def Let_def validate_value_Nil split: option.splits)

lemma validate_publish_Nil:
  "validate_publish E draft st = [] \<longleftrightarrow>
     (\<forall>g \<in> set (s_groups st). \<forall>it \<in> set (g_items g).
        it_shared it \<or> item_filled E draft (g_name g) it)"
  by (auto simp: validate_publish_def validate_item_Nil)

lemma valid_key_name_slash_free: "valid_key_name s \<Longrightarrow> slash_free s"
  by (auto simp: valid_key_name_def slash_free_def list_all_iff is_alnum_def is_lower_def
      is_upper_def is_digit_def)

lemma valid_key_name_length: "valid_key_name s \<Longrightarrow> length s \<le> 128 \<and> s \<noteq> []"
  by (simp add: valid_key_name_def)

definition items_ok :: "item_def list \<Rightarrow> bool" where
  "items_ok its \<longleftrightarrow> distinct (map it_key its) \<and>
     (\<forall>it \<in> set its. valid_key_name (it_key it) \<and> (it_secret it \<longrightarrow> it_ty it = TSecret))"

definition struct_ok :: "struct \<Rightarrow> bool" where
  "struct_ok st \<longleftrightarrow>
     length (s_groups st) \<le> MAX_GROUPS_PER_PROJECT \<and>
     total_items st \<le> MAX_ITEMS_PER_PROJECT \<and>
     distinct (map g_name (s_groups st)) \<and>
     (\<forall>g \<in> set (s_groups st). valid_key_name (g_name g) \<and> items_ok (g_items g))"

lemma item_errs_Nil:
  "item_errs g seen its = [] \<longleftrightarrow> items_ok its \<and> (\<forall>it \<in> set its. it_key it \<notin> set seen)"
proof (induction its arbitrary: seen)
  case (Cons it its)
  then show ?case
    using valid_key_name_length [of "it_key it"] by (auto simp: items_ok_def MAX_KEY_BYTES_def image_iff)
qed (simp add: items_ok_def)

lemma group_errs_Nil:
  "group_errs seen gs = [] \<longleftrightarrow>
     distinct (map g_name gs) \<and> (\<forall>g \<in> set gs. valid_key_name (g_name g) \<and> items_ok (g_items g) \<and>
       g_name g \<notin> set seen)"
proof (induction gs arbitrary: seen)
  case (Cons g gs)
  then show ?case
    using valid_key_name_length [of "g_name g"]
    by (auto simp: item_errs_Nil MAX_GROUP_NAME_BYTES_def image_iff)
qed simp

lemma validate_structure_Nil: "validate_structure st = [] \<longleftrightarrow> struct_ok st"
  by (auto simp: validate_structure_def struct_ok_def group_errs_Nil)

text \<open>A concrete JSON checker and encoder, for examples: non-empty text is valid, every value has 8 bytes.\<close>

definition sample_ext :: ext where
  "sample_ext = \<lparr>json_valid = (\<lambda>s. s \<noteq> []), value_size = (\<lambda>v. 8), shared_size = (\<lambda>i. 8)\<rparr>"

end
