(* ===== verification/Diff.thy ===== *)
theory Diff
  imports Validator
begin

text \<open>
  The difference of two snapshots and its application (\<open>diff.rs\<close>, and the copy of \<open>apply_diff\<close> that
  the state machine uses), and the masking of secrets on the wire (\<open>wire.rs\<close>). A locale states what
  the version store relies on: a difference, applied to the snapshot it was taken from, gives back
  the other snapshot.
\<close>

section \<open>Differences\<close>

definition upsert_entry :: "string \<Rightarrow> string \<Rightarrow> val \<Rightarrow> diff_entry" where
  "upsert_entry g k v = \<lparr>de_group = g, de_key = k, de_kind = Upsert, de_new_value = Some v\<rparr>"

definition delete_entry :: "string \<Rightarrow> string \<Rightarrow> diff_entry" where
  "delete_entry g k = \<lparr>de_group = g, de_key = k, de_kind = Delete, de_new_value = None\<rparr>"

text \<open>\<open>old_val != Some(value)\<close> under the equality of \<open>Value\<close>.\<close>

definition differs :: "val option \<Rightarrow> val \<Rightarrow> bool" where
  "differs old v = (case old of None \<Rightarrow> True | Some w \<Rightarrow> \<not> value_eq w v)"

definition compute_diff :: "snapshot \<Rightarrow> snapshot \<Rightarrow> diff_entry list" where
  "compute_diff old new =
     map (\<lambda>(g, k, v). upsert_entry g k v)
       (filter (\<lambda>(g, k, v). differs (tree_get old g k) v) (tree_entries new))
     @ map (\<lambda>(g, k, v). delete_entry g k)
       (filter (\<lambda>(g, k, v). tree_get new g k = None) (tree_entries old))"

text \<open>Removing a key removes its group when that becomes empty.\<close>

definition tree_delete :: "string \<Rightarrow> string \<Rightarrow> 'v tree \<Rightarrow> 'v tree" where
  "tree_delete g k t = (case bm_get t g of
     None \<Rightarrow> t
   | Some m \<Rightarrow> (let m' = bm_remove k m in if bm_is_empty m' then bm_remove g t else bm_insert g m' t))"

text \<open>
  \<open>apply_diff\<close> of \<open>diff.rs\<close> unwraps the value of an upsert: \<^term>\<open>None\<close> is its panic. The copy in
  \<open>state.rs\<close> skips an upsert without a value.
\<close>

fun apply_diff :: "snapshot \<Rightarrow> diff_entry list \<Rightarrow> snapshot option" where
  "apply_diff out [] = Some out"
| "apply_diff out (d # ds) = (case de_kind d of
     Upsert \<Rightarrow> (case de_new_value d of
        None \<Rightarrow> None
      | Some v \<Rightarrow> apply_diff (tree_insert (de_group d) (de_key d) v out) ds)
   | Delete \<Rightarrow> apply_diff (tree_delete (de_group d) (de_key d) out) ds)"

definition apply_entry :: "snapshot \<Rightarrow> diff_entry \<Rightarrow> snapshot" where
  "apply_entry snap d = (case de_kind d of
     Upsert \<Rightarrow> (case de_new_value d of
        None \<Rightarrow> snap
      | Some v \<Rightarrow> tree_insert (de_group d) (de_key d) v snap)
   | Delete \<Rightarrow> tree_delete (de_group d) (de_key d) snap)"

definition sm_apply_diff :: "snapshot \<Rightarrow> diff_entry list \<Rightarrow> snapshot" where
  "sm_apply_diff snap ds = foldl apply_entry snap ds"

section \<open>Masking\<close>

fun masked_value :: "val \<Rightarrow> val" where
  "masked_value (VSecret _) = VString ''***''"
| "masked_value v = v"

definition mask_diff_entry :: "diff_entry \<Rightarrow> diff_entry" where
  "mask_diff_entry d = d\<lparr>de_new_value := map_option masked_value (de_new_value d)\<rparr>"

definition mask_event_for_wire :: "publish_event \<Rightarrow> publish_event" where
  "mask_event_for_wire e = e\<lparr>ev_changes := map mask_diff_entry (ev_changes e)\<rparr>"

section \<open>Lemmas on differences\<close>

lemma tree_get_delete [simp]:
  "tree_get (tree_delete g k t) g' k' = (if g' = g \<and> k' = k then None else tree_get t g' k')"
proof (cases "bm_get t g")
  case (Some m)
  have "bm_get m k' = None" if "bm_is_empty (bm_remove k m)" "k' \<noteq> k"
    using that by (auto simp: bm_is_empty_iff split: if_splits)
  with Some show ?thesis by (auto simp: tree_delete_def tree_get_def Let_def)
qed (auto simp: tree_delete_def tree_get_def)

text \<open>Two trees hold the same value at a place, up to the equality of values.\<close>

definition val_sim :: "val option \<Rightarrow> val option \<Rightarrow> bool" where
  "val_sim a b \<longleftrightarrow> a = b \<or> (\<exists>v w. a = Some v \<and> b = Some w \<and> value_eq v w)"

definition snap_sim :: "snapshot \<Rightarrow> snapshot \<Rightarrow> bool" where
  "snap_sim s t \<longleftrightarrow> (\<forall>g k. val_sim (tree_get s g k) (tree_get t g k))"

lemma f64_eq_sym: "f64_eq x y = f64_eq y x"
  by (auto simp: f64_eq_def)

lemma f64_eq_trans: "f64_eq x y \<Longrightarrow> f64_eq y z \<Longrightarrow> f64_eq x z"
  by (auto simp: f64_eq_def)

lemma value_eq_sym: "value_eq v w \<Longrightarrow> value_eq w v"
  by (auto simp: value_eq_def f64_eq_sym split: val.splits)

lemma value_eq_trans: "value_eq u v \<Longrightarrow> value_eq v w \<Longrightarrow> value_eq u w"
  by (auto simp: value_eq_def intro: f64_eq_trans split: val.splits)

lemma val_sim_refl [simp]: "val_sim a a"
  by (simp add: val_sim_def)

lemma val_sim_sym: "val_sim a b \<Longrightarrow> val_sim b a"
  by (auto simp: val_sim_def dest: value_eq_sym)

lemma val_sim_trans: "val_sim a b \<Longrightarrow> val_sim b c \<Longrightarrow> val_sim a c"
  by (auto simp: val_sim_def dest: value_eq_trans)

lemma val_sim_None [simp]: "val_sim None b \<longleftrightarrow> b = None" "val_sim a None \<longleftrightarrow> a = None"
  by (auto simp: val_sim_def)

lemma snap_sim_refl [simp]: "snap_sim s s"
  by (simp add: snap_sim_def)

lemma snap_sim_sym: "snap_sim s t \<Longrightarrow> snap_sim t s"
  by (simp add: snap_sim_def val_sim_sym)

lemma snap_sim_trans: "snap_sim s t \<Longrightarrow> snap_sim t u \<Longrightarrow> snap_sim s u"
  unfolding snap_sim_def by (blast intro: val_sim_trans)

text \<open>Without floats, and without empty groups, similar snapshots are the same snapshot.\<close>

definition no_floats :: "snapshot \<Rightarrow> bool" where
  "no_floats s \<longleftrightarrow> (\<forall>g k v. tree_get s g k = Some v \<longrightarrow> val_type v \<noteq> TFloat)"

lemma snap_sim_eq:
  assumes "snap_sim s t" "no_floats t" "no_empty_groups s" "no_empty_groups t"
  shows "s = t"
proof (rule tree_eqI)
  fix g k
  have "val_sim (tree_get s g k) (tree_get t g k)" using assms(1) by (simp add: snap_sim_def)
  moreover have "\<And>v. tree_get t g k = Some v \<Longrightarrow> val_type v \<noteq> TFloat"
    using assms(2) by (auto simp: no_floats_def)
  ultimately show "tree_get s g k = tree_get t g k"
    unfolding val_sim_def by (metis value_eq_same value_eq_type)
qed (use assms in simp_all)

text \<open>The effect of one entry at its own place.\<close>

definition entry_effect :: "diff_entry \<Rightarrow> val option" where
  "entry_effect d = (case de_kind d of Upsert \<Rightarrow> de_new_value d | Delete \<Rightarrow> None)"

abbreviation entry_place :: "diff_entry \<Rightarrow> string \<times> string" where
  "entry_place d \<equiv> (de_group d, de_key d)"

definition entry_wf :: "diff_entry \<Rightarrow> bool" where
  "entry_wf d \<longleftrightarrow> (de_kind d = Upsert \<longrightarrow> de_new_value d \<noteq> None)"

lemma tree_get_apply_entry:
  "entry_wf d \<Longrightarrow> tree_get (apply_entry s d) g k =
     (if (g, k) = entry_place d then entry_effect d else tree_get s g k)"
  by (auto simp: apply_entry_def entry_effect_def entry_wf_def split: change_kind.splits option.splits)

lemma sm_apply_diff_Nil [simp]: "sm_apply_diff s [] = s"
  by (simp add: sm_apply_diff_def)

lemma sm_apply_diff_Cons [simp]: "sm_apply_diff s (d # ds) = sm_apply_diff (apply_entry s d) ds"
  by (simp add: sm_apply_diff_def)

lemma sm_apply_diff_miss:
  "list_all entry_wf ds \<Longrightarrow> (g, k) \<notin> entry_place ` set ds \<Longrightarrow>
     tree_get (sm_apply_diff s ds) g k = tree_get s g k"
  by (induction ds arbitrary: s) (auto simp: tree_get_apply_entry)

lemma sm_apply_diff_hit:
  "list_all entry_wf ds \<Longrightarrow> distinct (map entry_place ds) \<Longrightarrow> d \<in> set ds \<Longrightarrow>
     tree_get (sm_apply_diff s ds) (de_group d) (de_key d) = entry_effect d"
proof (induction ds arbitrary: s)
  case (Cons e ds)
  show ?case
  proof (cases "d = e")
    case True
    then have "entry_place d \<notin> entry_place ` set ds" using Cons.prems(2) by auto
    with True Cons.prems(1) show ?thesis
      by (simp add: sm_apply_diff_miss tree_get_apply_entry)
  qed (use Cons in auto)
qed simp

lemma distinct_tree_entries: "distinct (map (\<lambda>(g, k, v). (g, k)) (tree_entries t))"
proof -
  have "distinct (map (\<lambda>(g, k, v). (g, k)) (concat (map (\<lambda>(g, m). map (\<lambda>(k, v). (g, k, v)) (bm_entries m)) xs)))"
    if "ksorted xs" for xs :: "(string \<times> (string, 'a) bmap) list"
    using that
  proof (induction xs)
    case (Cons p xs)
    obtain g m where p: "p = (g, m)" by (cases p)
    have "distinct (map fst (bm_entries m))" by (simp add: ksorted_distinct)
    then have "distinct (map (\<lambda>k. (g, k)) (map fst (bm_entries m)))"
      by (simp add: distinct_map inj_on_def)
    then have 1: "distinct (map (\<lambda>(g, k, v). (g, k)) (map (\<lambda>(k, v). (g, k, v)) (bm_entries m)))"
      by (simp add: case_prod_unfold comp_def)
    have "\<forall>q \<in> set xs. g \<noteq> fst q" using Cons.prems p by auto
    with 1 Cons p show ?case by (auto simp: comp_def)
  qed simp
  then show ?thesis by (simp add: tree_entries_def)
qed

lemma compute_diff_wf: "list_all entry_wf (compute_diff old new)"
  by (auto simp: compute_diff_def entry_wf_def list_all_iff upsert_entry_def delete_entry_def)

lemma in_compute_diff:
  "d \<in> set (compute_diff old new) \<longleftrightarrow>
     (\<exists>g k v. tree_get new g k = Some v \<and> differs (tree_get old g k) v \<and> d = upsert_entry g k v) \<or>
     (\<exists>g k v. tree_get old g k = Some v \<and> tree_get new g k = None \<and> d = delete_entry g k)"
  by (force simp: compute_diff_def tree_entries_get)

lemma distinct_map_filter_triples:
  "distinct (map (\<lambda>(g, k, v). (g, k)) xs) \<Longrightarrow> distinct (map (\<lambda>(g, k, v). (g, k)) (filter P xs))"
  by (induction xs) (auto simp: image_iff)

lemma distinct_compute_diff: "distinct (map entry_place (compute_diff old new))"
proof -
  let ?U = "filter (\<lambda>(g, k, v). differs (tree_get old g k) v) (tree_entries new)"
  let ?D = "filter (\<lambda>(g, k, v). tree_get new g k = None) (tree_entries old)"
  have U: "map entry_place (map (\<lambda>(g, k, v). upsert_entry g k v) ?U) = map (\<lambda>(g, k, v). (g, k)) ?U"
    by (simp add: upsert_entry_def case_prod_unfold)
  have D: "map entry_place (map (\<lambda>(g, k, v). delete_entry g k) ?D) = map (\<lambda>(g, k, v). (g, k)) ?D"
    by (simp add: delete_entry_def case_prod_unfold)
  have "distinct (map (\<lambda>(g, k, v). (g, k)) ?U)" "distinct (map (\<lambda>(g, k, v). (g, k)) ?D)"
    by (simp_all add: distinct_map_filter_triples distinct_tree_entries)
  moreover have "set (map (\<lambda>(g, k, v). (g, k)) ?U) \<inter> set (map (\<lambda>(g, k, v). (g, k)) ?D) = {}"
    by (auto simp: tree_entries_get)
  ultimately show ?thesis unfolding compute_diff_def map_append U D by simp
qed

text \<open>Applying the difference to its first snapshot gives the second, up to the equality of values.\<close>

lemma apply_compute_diff: "snap_sim (sm_apply_diff old (compute_diff old new)) new"
  unfolding snap_sim_def
proof (intro allI)
  fix g k
  let ?ds = "compute_diff old new"
  note hit = sm_apply_diff_hit [OF compute_diff_wf distinct_compute_diff]
  note miss = sm_apply_diff_miss [OF compute_diff_wf]
  consider (up) v where "tree_get new g k = Some v" "differs (tree_get old g k) v"
    | (same) v where "tree_get new g k = Some v" "\<not> differs (tree_get old g k) v"
    | (del) v where "tree_get new g k = None" "tree_get old g k = Some v"
    | (none) "tree_get new g k = None" "tree_get old g k = None"
    by (cases "tree_get new g k"; cases "tree_get old g k") auto
  then show "val_sim (tree_get (sm_apply_diff old ?ds) g k) (tree_get new g k)"
  proof cases
    case up
    then have "upsert_entry g k v \<in> set ?ds" unfolding in_compute_diff by blast
    from hit [OF this] up show ?thesis by (simp add: upsert_entry_def entry_effect_def)
  next
    case del
    then have "delete_entry g k \<in> set ?ds" unfolding in_compute_diff by blast
    from hit [OF this] del show ?thesis by (simp add: delete_entry_def entry_effect_def)
  next
    case same
    have "(g, k) \<notin> entry_place ` set ?ds"
      using same by (auto simp: in_compute_diff upsert_entry_def delete_entry_def)
    from miss [OF this] same show ?thesis
      by (auto simp: differs_def val_sim_def split: option.splits)
  next
    case none
    have "(g, k) \<notin> entry_place ` set ?ds"
      using none by (auto simp: in_compute_diff upsert_entry_def delete_entry_def)
    from miss [OF this] none show ?thesis by simp
  qed
qed

lemma apply_diff_eq_sm: "list_all entry_wf ds \<Longrightarrow> apply_diff s ds = Some (sm_apply_diff s ds)"
  by (induction ds arbitrary: s)
     (auto simp: apply_entry_def entry_wf_def split: change_kind.splits option.splits)

lemma no_empty_groups_insert: "no_empty_groups t \<Longrightarrow> no_empty_groups (tree_insert g k v t)"
  by (auto simp: no_empty_groups_def tree_insert_def bm_is_empty_iff)

lemma no_empty_groups_delete: "no_empty_groups t \<Longrightarrow> no_empty_groups (tree_delete g k t)"
  by (auto simp: no_empty_groups_def tree_delete_def Let_def split: option.splits if_splits)

lemma no_empty_groups_apply: "no_empty_groups s \<Longrightarrow> no_empty_groups (sm_apply_diff s ds)"
proof (induction ds arbitrary: s)
  case (Cons d ds)
  have "no_empty_groups (apply_entry s d)"
    using Cons.prems
    by (auto simp: apply_entry_def no_empty_groups_insert no_empty_groups_delete
        split: change_kind.splits option.splits)
  then show ?case using Cons.IH by simp
qed simp

lemma no_empty_groups_empty [simp]: "no_empty_groups bm_empty"
  by (simp add: no_empty_groups_def)

lemma compute_diff_Nil: "compute_diff old new = [] \<Longrightarrow> snap_sim old new"
  using apply_compute_diff [of old new] by simp

section \<open>The contract the version store relies on\<close>

text \<open>
  A difference format: \<open>sim\<close> is the equality of snapshots it preserves. The client is a chain of
  versions, each stored as the difference from the one before it as it reads back.
\<close>

locale delta_format =
  fixes delta :: "'s \<Rightarrow> 's \<Rightarrow> 'd"
    and patch :: "'s \<Rightarrow> 'd \<Rightarrow> 's"
    and sim :: "'s \<Rightarrow> 's \<Rightarrow> bool"
  assumes patch_delta: "sim (patch old (delta old new)) new"
    and sim_refl: "sim s s"
    and sim_sym: "sim s t \<Longrightarrow> sim t s"
    and sim_trans: "sim s t \<Longrightarrow> sim t u \<Longrightarrow> sim s u"
begin

text \<open>The deltas stored for the successive snapshots, each taken from the one read back before.\<close>

fun deltas :: "'s \<Rightarrow> 's list \<Rightarrow> 'd list" where
  "deltas cur [] = []"
| "deltas cur (n # ns) = delta cur n # deltas (patch cur (delta cur n)) ns"

lemma length_deltas [simp]: "length (deltas cur ns) = length ns"
  by (induction ns arbitrary: cur) simp_all

lemma replay_sim_last: "ns \<noteq> [] \<Longrightarrow> sim (foldl patch base (deltas base ns)) (last ns)"
proof (induction ns arbitrary: base)
  case (Cons n ns)
  show ?case
  proof (cases ns)
    case Nil
    then show ?thesis by (simp add: patch_delta)
  next
    case (Cons m ms)
    then show ?thesis using Cons.IH by simp
  qed
qed simp

lemma take_deltas: "take i (deltas cur ns) = deltas cur (take i ns)"
proof (induction ns arbitrary: cur i)
  case (Cons n ns)
  then show ?case by (cases i) simp_all
qed simp

lemma replay_sim_nth:
  assumes "i < length ns"
  shows "sim (foldl patch base (take (Suc i) (deltas base ns))) (ns ! i)"
proof -
  have "take (Suc i) ns \<noteq> []" using assms by (cases ns) simp_all
  from replay_sim_last [OF this] show ?thesis
    using assms by (simp add: take_deltas take_Suc_conv_app_nth)
qed

lemma patch_again: "sim (patch old (delta old new)) t \<Longrightarrow> sim new t"
  by (rule sim_trans [OF sim_sym [OF patch_delta]])

end

interpretation snap_delta: delta_format compute_diff sm_apply_diff snap_sim
  by unfold_locales
     (auto simp: apply_compute_diff snap_sim_sym intro: snap_sim_trans)

section \<open>Lemmas on masking\<close>

fun is_secret :: "val \<Rightarrow> bool" where
  "is_secret (VSecret _) = True"
| "is_secret _ = False"

lemma masked_value_not_secret [simp]: "\<not> is_secret (masked_value v)"
  by (cases v) simp_all

lemma masked_value_plain: "\<not> is_secret v \<Longrightarrow> masked_value v = v"
  by (cases v) simp_all

lemma masked_value_idem [simp]: "masked_value (masked_value v) = masked_value v"
  by (simp add: masked_value_plain)

end
