(* ===== verification/Kv_Store.thy ===== *)
theory Kv_Store
  imports Keys
begin

text \<open>
  The store interface and its in-memory implementation (\<open>store.rs\<close>), and the write buffer that the
  state machine keeps in front of it during a command (\<open>PendingOp\<close>, \<open>get_merged\<close>,
  \<open>get_prefix_merged\<close>, \<open>flush_pending\<close> of \<open>state.rs\<close>). A locale states the laws of a store; its
  lemmas say when a batch of puts and deletes has the effect of the buffered sequence.

  Stored bytes are represented by the value they encode, so the store is polymorphic in that value;
  where the code adds up byte lengths, the length of an encoding is a parameter.
\<close>

section \<open>The in-memory store\<close>

type_synonym 'v mem_store = "(string, 'v) bmap"

definition ms_get :: "'v mem_store \<Rightarrow> string \<Rightarrow> 'v option" where
  "ms_get s k = bm_get s k"

definition ms_put :: "'v mem_store \<Rightarrow> string \<Rightarrow> 'v \<Rightarrow> 'v mem_store" where
  "ms_put s k v = bm_insert k v s"

definition ms_delete :: "'v mem_store \<Rightarrow> string \<Rightarrow> 'v mem_store" where
  "ms_delete s k = bm_remove k s"

text \<open>\<open>range(start..).take_while(starts_with)\<close>.\<close>

definition ms_get_prefix :: "'v mem_store \<Rightarrow> string \<Rightarrow> (string \<times> 'v) list" where
  "ms_get_prefix s p =
     takeWhile (\<lambda>(k, v). starts_with k p) (dropWhile (\<lambda>(k, v). k < p) (bm_entries s))"

definition ms_get_prefix_keys :: "'v mem_store \<Rightarrow> string \<Rightarrow> string list" where
  "ms_get_prefix_keys s p = map fst (ms_get_prefix s p)"

text \<open>The loop of the default \<open>get_prefix_page\<close>: skip up to the cursor, then fill the budget.\<close>

fun page_take :: "('v \<Rightarrow> nat) \<Rightarrow> nat \<Rightarrow> nat \<Rightarrow> (string \<times> 'v) list \<Rightarrow> (string \<times> 'v) list" where
  "page_take vlen budget bytes [] = []"
| "page_take vlen budget bytes ((k, v) # xs) =
     (let bytes' = bytes + (length k + vlen v) in
      (k, v) # (if bytes' \<ge> max budget 1 then [] else page_take vlen budget bytes' xs))"

definition page_of ::
  "('v \<Rightarrow> nat) \<Rightarrow> (string \<times> 'v) list \<Rightarrow> string option \<Rightarrow> nat \<Rightarrow> (string \<times> 'v) list" where
  "page_of vlen rows after budget =
     page_take vlen budget 0
       (case after of None \<Rightarrow> rows | Some a \<Rightarrow> dropWhile (\<lambda>(k, v). k \<le> a) rows)"

definition ms_get_prefix_page ::
  "('v \<Rightarrow> nat) \<Rightarrow> 'v mem_store \<Rightarrow> string \<Rightarrow> string option \<Rightarrow> nat \<Rightarrow> (string \<times> 'v) list" where
  "ms_get_prefix_page vlen s p after budget = page_of vlen (ms_get_prefix s p) after budget"

definition ms_put_batch :: "'v mem_store \<Rightarrow> (string \<times> 'v) list \<Rightarrow> 'v mem_store" where
  "ms_put_batch s pairs = fold (\<lambda>(k, v) m. bm_insert k v m) pairs s"

text \<open>Deletes first, then inserts.\<close>

definition ms_write_batch :: "'v mem_store \<Rightarrow> (string \<times> 'v) list \<Rightarrow> string list \<Rightarrow> 'v mem_store" where
  "ms_write_batch s puts deletes =
     fold (\<lambda>(k, v) m. bm_insert k v m) puts (fold bm_remove deletes s)"

section \<open>The write buffer\<close>

datatype 'v pending_op = Put string 'v | Del string

fun op_key :: "'v pending_op \<Rightarrow> string" where
  "op_key (Put k v) = k"
| "op_key (Del k) = k"

text \<open>The last operation on the key decides, else the store.\<close>

definition buf_get :: "'v mem_store \<Rightarrow> 'v pending_op list \<Rightarrow> string \<Rightarrow> 'v option" where
  "buf_get st ops k = (case find (\<lambda>u. op_key u = k) (rev ops) of
     Some (Put _ v) \<Rightarrow> Some v
   | Some (Del _) \<Rightarrow> None
   | None \<Rightarrow> ms_get st k)"

definition buf_get_prefix :: "'v mem_store \<Rightarrow> 'v pending_op list \<Rightarrow> string \<Rightarrow> (string \<times> 'v) list" where
  "buf_get_prefix st ops p = bm_entries
     (fold (\<lambda>u m. case u of
          Put k v \<Rightarrow> if starts_with k p then bm_insert k v m else m
        | Del k \<Rightarrow> if starts_with k p then bm_remove k m else m)
      ops (bm_of_list (ms_get_prefix st p)))"

definition op_puts :: "'v pending_op list \<Rightarrow> (string \<times> 'v) list" where
  "op_puts ops = concat (map (\<lambda>u. case u of Put k v \<Rightarrow> [(k, v)] | Del k \<Rightarrow> []) ops)"

definition op_dels :: "'v pending_op list \<Rightarrow> string list" where
  "op_dels ops = concat (map (\<lambda>u. case u of Put k v \<Rightarrow> [] | Del k \<Rightarrow> [k]) ops)"

definition buf_flush :: "'v mem_store \<Rightarrow> 'v pending_op list \<Rightarrow> 'v mem_store" where
  "buf_flush st ops = (if ops = [] then st else ms_write_batch st (op_puts ops) (op_dels ops))"

section \<open>Keys with a common prefix\<close>

lemma prefix_le: "starts_with k p \<Longrightarrow> p \<le> k"
proof (induction p arbitrary: k)
  case (Cons c p)
  then show ?case by (cases k) auto
qed simp

lemma not_less_prefix: "k < p \<Longrightarrow> \<not> starts_with k p"
  using prefix_le [of k p] by auto

text \<open>The keys with a prefix are an interval of the order.\<close>

lemma prefix_interval:
  "p \<le> k \<Longrightarrow> k < k' \<Longrightarrow> starts_with k' p \<Longrightarrow> starts_with k (p :: string)"
proof (induction p arbitrary: k k')
  case (Cons c p)
  obtain d k1 where k: "k = d # k1" using Cons.prems(1) by (cases k) auto
  obtain k2 where k': "k' = c # k2" using Cons.prems(3) by (cases k') auto
  have "c = d" using Cons.prems(1,2) by (auto simp: k k')
  moreover have "starts_with k1 p"
    using Cons.prems by (intro Cons.IH [of k1 k2]) (auto simp: k k' \<open>c = d\<close>)
  ultimately show ?case by (simp add: k)
qed simp

lemma takeWhile_dropWhile_filter:
  assumes "ksorted xs"
  shows "takeWhile (\<lambda>(k, v). starts_with k p) (dropWhile (\<lambda>(k, v). k < p) xs)
       = filter (\<lambda>(k, v). starts_with k p) xs"
  using assms
proof (induction xs)
  case (Cons x xs)
  obtain k v where x: "x = (k, v)" by (cases x)
  have later: "\<forall>q \<in> set xs. k < fst q" and sorted: "ksorted xs" using Cons.prems x by auto
  show ?case
  proof (cases "k < p")
    case True
    then show ?thesis using Cons.IH [OF sorted] not_less_prefix [of k p] by (simp add: x)
  next
    case False
    then have ge: "dropWhile (\<lambda>(k, v). k < p) xs = xs"
      using later by (cases xs) (auto simp: not_less intro: order_trans less_imp_le)
    show ?thesis
    proof (cases "starts_with k p")
      case True
      with False ge Cons.IH [OF sorted] show ?thesis by (simp add: x)
    next
      case no: False
      have "\<forall>q \<in> set xs. \<not> starts_with (fst q) p"
        using later no False prefix_interval [of p k] by (auto simp: not_less)
      then have "filter (\<lambda>(k, v). starts_with k p) xs = []" by (auto simp: filter_empty_conv)
      with no False show ?thesis by (simp add: x)
    qed
  qed
qed simp

lemma ms_get_prefix_filter: "ms_get_prefix s p = filter (\<lambda>(k, v). starts_with k p) (bm_entries s)"
  by (simp add: ms_get_prefix_def takeWhile_dropWhile_filter)

lemma ms_get_prefix_retain: "ms_get_prefix s p = bm_entries (bm_retain (\<lambda>k v. starts_with k p) s)"
  by (simp add: ms_get_prefix_filter bm_entries_retain)

lemma in_ms_get_prefix: "(k, v) \<in> set (ms_get_prefix s p) \<longleftrightarrow> bm_get s k = Some v \<and> starts_with k p"
  by (auto simp: ms_get_prefix_filter bm_entries_get)

lemma ms_get_prefix_all: "ms_get_prefix s [] = bm_entries s"
  by (simp add: ms_get_prefix_filter)

section \<open>The laws of a store\<close>

text \<open>
  What a client of the \<open>Store\<close> trait may rely on. \<open>batch\<close> is \<open>write_batch\<close>: within one batch, a put
  wins over a delete of the same key, whatever the order they were issued in.
\<close>

locale kv_store =
  fixes get :: "'s \<Rightarrow> string \<Rightarrow> 'v option"
    and put :: "'s \<Rightarrow> string \<Rightarrow> 'v \<Rightarrow> 's"
    and delete :: "'s \<Rightarrow> string \<Rightarrow> 's"
    and prefix :: "'s \<Rightarrow> string \<Rightarrow> (string \<times> 'v) list"
    and batch :: "'s \<Rightarrow> (string \<times> 'v) list \<Rightarrow> string list \<Rightarrow> 's"
  assumes get_put: "get (put s k v) k' = (if k' = k then Some v else get s k')"
    and get_delete: "get (delete s k) k' = (if k' = k then None else get s k')"
    and prefix_sorted: "ksorted (prefix s p)"
    and prefix_mem: "(k, v) \<in> set (prefix s p) \<longleftrightarrow> get s k = Some v \<and> starts_with k p"
    and get_batch: "get (batch s ps ds) k =
      (case map_of (rev ps) k of Some v \<Rightarrow> Some v
       | None \<Rightarrow> if k \<in> set ds then None else get s k)"
begin

text \<open>The store after the buffered operations, performed one after the other.\<close>

abbreviation performed :: "'s \<Rightarrow> 'v pending_op list \<Rightarrow> 's" where
  "performed s ops \<equiv> foldl (\<lambda>t u. case u of Put k v \<Rightarrow> put t k v | Del k \<Rightarrow> delete t k) s ops"

text \<open>Reading through the buffer, last operation first, is reading the performed store.\<close>

lemma get_performed:
  "get (performed s ops) k = (case find (\<lambda>u. op_key u = k) (rev ops) of
     Some (Put _ v) \<Rightarrow> Some v | Some (Del _) \<Rightarrow> None | None \<Rightarrow> get s k)"
proof (induction ops rule: rev_induct)
  case (snoc u ops)
  then show ?case by (cases u) (auto simp: get_put get_delete split: option.splits pending_op.splits)
qed simp

end

text \<open>No delete comes after a put of the same key.\<close>

fun flush_safe :: "'v pending_op list \<Rightarrow> bool" where
  "flush_safe [] = True"
| "flush_safe (Put k v # ops) = (Del k \<notin> set ops \<and> flush_safe ops)"
| "flush_safe (Del k # ops) = flush_safe ops"

context kv_store
begin

text \<open>
  The batch of a buffer in which no delete follows a put of its key is the performed sequence.
\<close>

lemma batch_performed:
  "flush_safe ops \<Longrightarrow> get (batch s (op_puts ops) (op_dels ops)) k = get (performed s ops) k"
proof (induction ops arbitrary: s)
  case (Cons u ops)
  have IH: "get (batch t (op_puts ops) (op_dels ops)) k = get (performed t ops) k" for t
    using Cons by (cases u) simp_all
  show ?case
  proof (cases u)
    case (Put j v)
    have "k \<notin> set (op_dels ops)" if "k = j"
      using Cons.prems Put that by (auto simp: op_dels_def split: pending_op.splits)
    then show ?thesis
      using IH [of "put s j v", symmetric] Put
      by (auto simp: get_batch get_put op_puts_def op_dels_def map_add_def split: option.splits)
  next
    case (Del j)
    then show ?thesis
      using IH [of "delete s j", symmetric]
      by (auto simp: get_batch get_delete op_puts_def op_dels_def split: option.splits)
  qed
qed (simp add: get_batch op_puts_def op_dels_def)

end

section \<open>The in-memory store keeps the laws\<close>

lemma fold_bm_remove_get: "bm_get (fold bm_remove ds m) k = (if k \<in> set ds then None else bm_get m k)"
  by (induction ds arbitrary: m) auto

interpretation mem: kv_store ms_get ms_put ms_delete ms_get_prefix ms_write_batch
proof unfold_locales
  fix s :: "'a mem_store" and ps ds k
  show "ms_get (ms_write_batch s ps ds) k =
      (case map_of (rev ps) k of Some v \<Rightarrow> Some v
       | None \<Rightarrow> if k \<in> set ds then None else ms_get s k)"
    by (simp add: ms_get_def ms_write_batch_def fold_bm_insert_get fold_bm_remove_get
        split: option.splits)
qed (simp_all add: ms_get_def ms_put_def ms_delete_def in_ms_get_prefix ms_get_prefix_retain
      bm_entries_get split: option.splits)

section \<open>The buffered store\<close>

text \<open>
  The abstract meaning of a buffered store: the map after performing the operations in order. Reads
  through the buffer read this map, and a flush of a safe buffer yields it.
\<close>

definition buf_view :: "'v mem_store \<Rightarrow> 'v pending_op list \<Rightarrow> 'v mem_store" where
  "buf_view st ops =
     foldl (\<lambda>t u. case u of Put k v \<Rightarrow> ms_put t k v | Del k \<Rightarrow> ms_delete t k) st ops"

lemma buf_get_view: "buf_get st ops k = bm_get (buf_view st ops) k"
  using mem.get_performed [of st ops k] by (simp add: buf_get_def buf_view_def ms_get_def)

lemma buf_view_Nil [simp]: "buf_view st [] = st"
  by (simp add: buf_view_def)

lemma buf_view_put [simp]: "buf_view st (ops @ [Put k v]) = bm_insert k v (buf_view st ops)"
  by (simp add: buf_view_def ms_put_def)

lemma buf_view_del [simp]: "buf_view st (ops @ [Del k]) = bm_remove k (buf_view st ops)"
  by (simp add: buf_view_def ms_delete_def)

lemma buf_get_prefix_view: "buf_get_prefix st ops p = ms_get_prefix (buf_view st ops) p"
proof -
  have "fold (\<lambda>u m. case u of
          Put k v \<Rightarrow> if starts_with k p then bm_insert k v m else m
        | Del k \<Rightarrow> if starts_with k p then bm_remove k m else m) ops (bm_of_list (ms_get_prefix st p))
      = bm_retain (\<lambda>k v. starts_with k p) (buf_view st ops)"
  proof (induction ops rule: rev_induct)
    case Nil
    then show ?case by (simp add: ms_get_prefix_retain)
  next
    case (snoc u ops)
    then show ?case by (cases u) (auto intro!: bmap_eqI split: option.splits)
  qed
  then show ?thesis by (simp add: buf_get_prefix_def ms_get_prefix_retain)
qed

lemma buf_flush_view: "flush_safe ops \<Longrightarrow> buf_flush st ops = buf_view st ops"
  using mem.batch_performed [of ops st]
  by (auto simp: buf_flush_def buf_view_def ms_get_def intro!: bmap_eqI)

lemma flush_safe_put: "flush_safe ops \<Longrightarrow> flush_safe (ops @ [Put k v])"
  by (induction ops rule: flush_safe.induct) auto

lemma flush_safe_del: "flush_safe ops \<Longrightarrow> k \<notin> fst ` set (op_puts ops) \<Longrightarrow> flush_safe (ops @ [Del k])"
  by (induction ops rule: flush_safe.induct) (auto simp: op_puts_def)

lemma flush_safe_dels: "flush_safe (map Del ks)"
  by (induction ks) auto

text \<open>A buffer that deletes a key after putting it is flushed with the key still there.\<close>

lemma buf_flush_unsafe:
  "buf_get st [Put k v, Del k] k = None \<and> ms_get (buf_flush st [Put k v, Del k]) k = Some v"
  by (simp add: buf_get_def buf_flush_def ms_get_def ms_write_batch_def op_puts_def op_dels_def)

section \<open>Pages\<close>

lemma page_take_prefix: "\<exists>ys. xs = page_take vlen budget b xs @ ys"
  by (induction vlen budget b xs rule: page_take.induct) (auto simp: Let_def)

lemma page_take_not_Nil: "xs \<noteq> [] \<Longrightarrow> page_take vlen budget b xs \<noteq> []"
  by (cases xs) (auto simp: Let_def)

text \<open>After the last key of a prefix of the rows, exactly the rest of the rows is left.\<close>

lemma dropWhile_after_prefix:
  fixes xs :: "(string \<times> 'v) list"
  assumes "ksorted (xs @ ys)" "xs \<noteq> []"
  shows "dropWhile (\<lambda>(k, v). k \<le> fst (last xs)) (xs @ ys) = ys"
proof -
  have le: "\<forall>q \<in> set xs. fst q \<le> fst (last xs)"
    using assms by (induction xs) (auto simp: less_imp_le)
  have gt: "\<forall>q \<in> set ys. fst (last xs) < fst q"
    using assms by (auto simp: sorted_wrt_append)
  have "dropWhile (\<lambda>(k, v). k \<le> fst (last xs)) (xs @ ys) = dropWhile (\<lambda>(k, v). k \<le> fst (last xs)) ys"
    using le by (intro dropWhile_append2) auto
  also have "\<dots> = ys" using gt by (cases ys) auto
  finally show ?thesis .
qed

end
