(* ===== verification/Machine.thy ===== *)
theory Machine
  imports Diff Kv_Store
begin

text \<open>
  The state of the deterministic state machine (\<open>StateMachine\<close> of \<open>state.rs\<close>): a store, a write
  buffer, the typed access to both, and the readers of single records and of listings.

  The store holds JSON; \<open>serde_json\<close> printing followed by parsing at the same type is the identity on
  the records kept here, so a stored value is represented by the record itself, tagged with its
  type, and parsing at another type fails. The in-memory store never reports an input or output
  error, so readers that only fail with one return plain values.
\<close>

section \<open>Stored values\<close>

datatype sval =
    SProject project
  | SStruct struct
  | SStructDraft structure_draft
  | SBranch branch_state
  | SVersion version_record
  | SSnap snapshot
  | SDiff "diff_entry list"
  | SShared shared_item
  | SSession admin_session
  | SPa project_admin_account
  | SGa global_admin_account
  | SToken project_token
  | SAudit audit_entry
  | SStr string
  | SNum nat

fun as_project where "as_project (SProject x) = Some x" | "as_project _ = None"
fun as_struct where "as_struct (SStruct x) = Some x" | "as_struct _ = None"
fun as_struct_draft where "as_struct_draft (SStructDraft x) = Some x" | "as_struct_draft _ = None"
fun as_branch where "as_branch (SBranch x) = Some x" | "as_branch _ = None"
fun as_version where "as_version (SVersion x) = Some x" | "as_version _ = None"
fun as_snap where "as_snap (SSnap x) = Some x" | "as_snap _ = None"
fun as_diff where "as_diff (SDiff x) = Some x" | "as_diff _ = None"
fun as_shared where "as_shared (SShared x) = Some x" | "as_shared _ = None"
fun as_session where "as_session (SSession x) = Some x" | "as_session _ = None"
fun as_pa where "as_pa (SPa x) = Some x" | "as_pa _ = None"
fun as_ga where "as_ga (SGa x) = Some x" | "as_ga _ = None"
fun as_token where "as_token (SToken x) = Some x" | "as_token _ = None"
fun as_audit where "as_audit (SAudit x) = Some x" | "as_audit _ = None"
fun as_str where "as_str (SStr x) = Some x" | "as_str _ = None"
fun as_num where "as_num (SNum x) = Some x" | "as_num _ = None"

section \<open>The machine\<close>

record sm =
  sm_store :: "sval mem_store"
  sm_pending :: "sval pending_op list"

definition sm_new :: "sval mem_store \<Rightarrow> sm" where
  "sm_new st = \<lparr>sm_store = st, sm_pending = []\<rparr>"

definition put_pending :: "string \<Rightarrow> sval \<Rightarrow> sm \<Rightarrow> sm" where
  "put_pending k v s = s\<lparr>sm_pending := sm_pending s @ [Put k v]\<rparr>"

definition delete_pending :: "string \<Rightarrow> sm \<Rightarrow> sm" where
  "delete_pending k s = s\<lparr>sm_pending := sm_pending s @ [Del k]\<rparr>"

definition get_merged :: "sm \<Rightarrow> string \<Rightarrow> sval option" where
  "get_merged s k = buf_get (sm_store s) (sm_pending s) k"

definition get_prefix_merged :: "sm \<Rightarrow> string \<Rightarrow> (string \<times> sval) list" where
  "get_prefix_merged s p = buf_get_prefix (sm_store s) (sm_pending s) p"

definition flush_pending :: "sm \<Rightarrow> sm" where
  "flush_pending s = s\<lparr>sm_store := buf_flush (sm_store s) (sm_pending s), sm_pending := []\<rparr>"

text \<open>\<open>load\<close> reads the store alone, \<open>load_merged\<close> reads through the buffer.\<close>

definition decode_with :: "(sval \<Rightarrow> 'a option) \<Rightarrow> sval option \<Rightarrow> 'a option res" where
  "decode_with dec raw = (case raw of
     None \<Rightarrow> Inr None
   | Some v \<Rightarrow> (case dec v of None \<Rightarrow> Inl (err Internal) | Some x \<Rightarrow> Inr (Some x)))"

definition load :: "(sval \<Rightarrow> 'a option) \<Rightarrow> sm \<Rightarrow> string \<Rightarrow> 'a option res" where
  "load dec s k = decode_with dec (ms_get (sm_store s) k)"

definition load_merged :: "(sval \<Rightarrow> 'a option) \<Rightarrow> sm \<Rightarrow> string \<Rightarrow> 'a option res" where
  "load_merged dec s k = decode_with dec (get_merged s k)"

definition save_pending :: "string \<Rightarrow> sval \<Rightarrow> sm \<Rightarrow> sm" where
  "save_pending k v s = put_pending k v s"

text \<open>Delete every key of a list of rows.\<close>

definition delete_rows :: "(string \<times> sval) list \<Rightarrow> sm \<Rightarrow> sm" where
  "delete_rows rows s = fold (\<lambda>(k, v). delete_pending k) rows s"

section \<open>Readers\<close>

definition get_project :: "sm \<Rightarrow> project_id \<Rightarrow> project option res" where
  "get_project s p = load_merged as_project s (project_key p)"

text \<open>Keys below a project (those with a further slash) are skipped; the result is sorted by name.\<close>

definition list_projects :: "sm \<Rightarrow> project list" where
  "list_projects s = sort_key p_name
     (List.map_filter (\<lambda>(k, v). if CHR ''/'' \<in> set (drop (length K_PROJECT) k) then None else as_project v)
        (get_prefix_merged s ''p/''))"

definition get_structure :: "sm \<Rightarrow> project_id \<Rightarrow> struct option res" where
  "get_structure s p = load_merged as_struct s (struct_key p)"

definition get_structure_draft :: "sm \<Rightarrow> project_id \<Rightarrow> structure_draft option res" where
  "get_structure_draft s p = load_merged as_struct_draft s (struct_draft_key p)"

definition get_branch_state :: "sm \<Rightarrow> project_id \<Rightarrow> branch_name \<Rightarrow> branch_state option res" where
  "get_branch_state s p b = load_merged as_branch s (branch_state_key p b)"

text \<open>The name of a branch is the text up to the next slash; sorted, without duplicates.\<close>

definition list_branches :: "sm \<Rightarrow> project_id \<Rightarrow> branch_name list" where
  "list_branches s p = remdups_adj (sort
     (List.map_filter (\<lambda>(k, v).
        case split_once (CHR ''/'') (drop (length (branches_prefix p)) k) of
          None \<Rightarrow> None
        | Some (name, rest) \<Rightarrow> if name = [] then None else Some name)
      (get_prefix_merged s (branches_prefix p))))"

definition get_shared :: "sm \<Rightarrow> string \<Rightarrow> shared_item option res" where
  "get_shared s k = load_merged as_shared s (shared_key k)"

section \<open>The view of a machine\<close>

text \<open>The map the machine reads: its store after the buffered operations.\<close>

definition view :: "sm \<Rightarrow> sval mem_store" where
  "view s = buf_view (sm_store s) (sm_pending s)"

lemma get_merged_view: "get_merged s k = bm_get (view s) k"
  by (simp add: get_merged_def view_def buf_get_view)

lemma get_prefix_merged_view: "get_prefix_merged s p = ms_get_prefix (view s) p"
  by (simp add: get_prefix_merged_def view_def buf_get_prefix_view)

lemma view_put [simp]: "view (put_pending k v s) = bm_insert k v (view s)"
  by (simp add: view_def put_pending_def)

lemma view_save [simp]: "view (save_pending k v s) = bm_insert k v (view s)"
  by (simp add: save_pending_def)

lemma view_delete [simp]: "view (delete_pending k s) = bm_remove k (view s)"
  by (simp add: view_def delete_pending_def)

lemma view_delete_rows:
  "bm_get (view (delete_rows rows s)) k = (if k \<in> fst ` set rows then None else bm_get (view s) k)"
  unfolding delete_rows_def by (induction rows arbitrary: s) auto

lemma view_new [simp]: "view (sm_new st) = st"
  by (simp add: view_def sm_new_def)

lemma sm_store_buffered [simp]:
  "sm_store (put_pending k v s) = sm_store s"
  "sm_store (save_pending k v s) = sm_store s"
  "sm_store (delete_pending k s) = sm_store s"
  by (simp_all add: put_pending_def save_pending_def delete_pending_def)

lemma sm_store_delete_rows [simp]: "sm_store (delete_rows rows s) = sm_store s"
  unfolding delete_rows_def by (induction rows arbitrary: s) auto

lemma view_flush: "flush_safe (sm_pending s) \<Longrightarrow> sm_store (flush_pending s) = view s"
  by (simp add: flush_pending_def view_def buf_flush_view)

lemma flush_pending_empty [simp]: "sm_pending (flush_pending s) = []"
  by (simp add: flush_pending_def)

lemma decode_with_simps [simp]:
  "decode_with dec None = Inr None"
  by (simp add: decode_with_def)

lemma decode_with_Inr:
  "decode_with dec raw = Inr r \<longleftrightarrow>
     (raw = None \<and> r = None) \<or> (\<exists>v x. raw = Some v \<and> dec v = Some x \<and> r = Some x)"
  by (auto simp: decode_with_def split: option.splits)

lemma load_merged_Some:
  "load_merged dec s k = Inr (Some x) \<longleftrightarrow> (\<exists>v. bm_get (view s) k = Some v \<and> dec v = Some x)"
  by (auto simp: load_merged_def decode_with_Inr get_merged_view)

lemma load_merged_None: "load_merged dec s k = Inr None \<longleftrightarrow> bm_get (view s) k = None"
  by (auto simp: load_merged_def decode_with_Inr get_merged_view)

lemma load_merged_eq: "load_merged dec s k = decode_with dec (bm_get (view s) k)"
  by (simp add: load_merged_def get_merged_view)

lemma decoders [simp]:
  "as_project v = Some a1 \<longleftrightarrow> v = SProject a1"
  "as_struct v = Some a2 \<longleftrightarrow> v = SStruct a2"
  "as_struct_draft v = Some a3 \<longleftrightarrow> v = SStructDraft a3"
  "as_branch v = Some a4 \<longleftrightarrow> v = SBranch a4"
  "as_version v = Some a5 \<longleftrightarrow> v = SVersion a5"
  "as_snap v = Some a6 \<longleftrightarrow> v = SSnap a6"
  "as_diff v = Some a7 \<longleftrightarrow> v = SDiff a7"
  "as_shared v = Some a8 \<longleftrightarrow> v = SShared a8"
  "as_session v = Some a9 \<longleftrightarrow> v = SSession a9"
  "as_pa v = Some a10 \<longleftrightarrow> v = SPa a10"
  "as_ga v = Some a11 \<longleftrightarrow> v = SGa a11"
  "as_token v = Some a12 \<longleftrightarrow> v = SToken a12"
  "as_audit v = Some a13 \<longleftrightarrow> v = SAudit a13"
  "as_str v = Some a14 \<longleftrightarrow> v = SStr a14"
  "as_num v = Some a15 \<longleftrightarrow> v = SNum a15"
  by (cases v; auto)+

text \<open>What each reader returns, in terms of the view.\<close>

lemma get_project_Some [simp]:
  "get_project s p = Inr (Some x) \<longleftrightarrow> bm_get (view s) (project_key p) = Some (SProject x)"
  "get_project s p = Inr None \<longleftrightarrow> bm_get (view s) (project_key p) = None"
  by (auto simp: get_project_def load_merged_Some load_merged_None)

lemma get_structure_Some [simp]:
  "get_structure s p = Inr (Some x) \<longleftrightarrow> bm_get (view s) (struct_key p) = Some (SStruct x)"
  "get_structure s p = Inr None \<longleftrightarrow> bm_get (view s) (struct_key p) = None"
  by (auto simp: get_structure_def load_merged_Some load_merged_None)

lemma get_structure_draft_Some [simp]:
  "get_structure_draft s p = Inr (Some y) \<longleftrightarrow> bm_get (view s) (struct_draft_key p) = Some (SStructDraft y)"
  "get_structure_draft s p = Inr None \<longleftrightarrow> bm_get (view s) (struct_draft_key p) = None"
  by (auto simp: get_structure_draft_def load_merged_Some load_merged_None)

lemma get_branch_state_Some [simp]:
  "get_branch_state s p b = Inr (Some z) \<longleftrightarrow> bm_get (view s) (branch_state_key p b) = Some (SBranch z)"
  "get_branch_state s p b = Inr None \<longleftrightarrow> bm_get (view s) (branch_state_key p b) = None"
  by (auto simp: get_branch_state_def load_merged_Some load_merged_None)

lemma get_shared_Some [simp]:
  "get_shared s k = Inr (Some i) \<longleftrightarrow> bm_get (view s) (shared_key k) = Some (SShared i)"
  "get_shared s k = Inr None \<longleftrightarrow> bm_get (view s) (shared_key k) = None"
  by (auto simp: get_shared_def load_merged_Some load_merged_None)

text \<open>The readers as rewrite rules, for a view whose entry is known.\<close>

lemma readers [simp]:
  "bm_get (view s) (project_key p) = Some (SProject x1) \<Longrightarrow> get_project s p = Inr (Some x1)"
  "bm_get (view s) (project_key p) = None \<Longrightarrow> get_project s p = Inr None"
  "bm_get (view s) (struct_key p) = Some (SStruct x2) \<Longrightarrow> get_structure s p = Inr (Some x2)"
  "bm_get (view s) (struct_key p) = None \<Longrightarrow> get_structure s p = Inr None"
  "bm_get (view s) (struct_draft_key p) = Some (SStructDraft x3) \<Longrightarrow> get_structure_draft s p = Inr (Some x3)"
  "bm_get (view s) (struct_draft_key p) = None \<Longrightarrow> get_structure_draft s p = Inr None"
  "bm_get (view s) (branch_state_key p b) = Some (SBranch x4) \<Longrightarrow> get_branch_state s p b = Inr (Some x4)"
  "bm_get (view s) (branch_state_key p b) = None \<Longrightarrow> get_branch_state s p b = Inr None"
  "bm_get (view s) (shared_key k) = Some (SShared x5) \<Longrightarrow> get_shared s k = Inr (Some x5)"
  "bm_get (view s) (shared_key k) = None \<Longrightarrow> get_shared s k = Inr None"
  by simp_all

section \<open>Well-typed stores\<close>

text \<open>Which record a kind of key holds, and how the record repeats the names in its key.\<close>

fun typed :: "skey \<Rightarrow> sval \<Rightarrow> bool" where
  "typed (KProject p) v = (case v of SProject x \<Rightarrow> (p_id x = p \<and> p_name x = p) | _ \<Rightarrow> False)"
| "typed (KStruct p) v = (case v of SStruct _ \<Rightarrow> True | _ \<Rightarrow> False)"
| "typed (KStructDraft p) v = (case v of SStructDraft _ \<Rightarrow> True | _ \<Rightarrow> False)"
| "typed (KState p b) v = (case v of SBranch _ \<Rightarrow> True | _ \<Rightarrow> False)"
| "typed (KVersion p b n) v = (case v of SVersion r \<Rightarrow> (vr_no r = n) | _ \<Rightarrow> False)"
| "typed (KSnap p b n) v = (case v of SSnap _ \<Rightarrow> True | _ \<Rightarrow> False)"
| "typed (KDiff p b n) v = (case v of SDiff _ \<Rightarrow> True | _ \<Rightarrow> False)"
| "typed (KGray p b n) v = (case v of SSnap _ \<Rightarrow> True | _ \<Rightarrow> False)"
| "typed (KShared k) v = (case v of SShared i \<Rightarrow> (si_key i = k) | _ \<Rightarrow> False)"
| "typed (KSharedDraft k) v = (case v of SShared i \<Rightarrow> (si_key i = k) | _ \<Rightarrow> False)"
| "typed KSession v = (case v of SSession _ \<Rightarrow> True | _ \<Rightarrow> False)"
| "typed KAdminPw v = (case v of SStr _ \<Rightarrow> True | _ \<Rightarrow> False)"
| "typed (KSessionOf sid) v = (case v of SSession _ \<Rightarrow> True | _ \<Rightarrow> False)"
| "typed (KPaSession u) v = (case v of SSession _ \<Rightarrow> True | _ \<Rightarrow> False)"
| "typed (KPaSessionOf u sid) v = (case v of SSession _ \<Rightarrow> True | _ \<Rightarrow> False)"
| "typed (KGaSessionOf u sid) v = (case v of SSession _ \<Rightarrow> True | _ \<Rightarrow> False)"
| "typed (KPaAccount u) v = (case v of SPa a \<Rightarrow> (pa_username a = u) | _ \<Rightarrow> False)"
| "typed (KGaAccount u) v = (case v of SGa a \<Rightarrow> (ga_username a = u) | _ \<Rightarrow> False)"
| "typed (KToken h) v = (case v of SToken t \<Rightarrow> (tk_hash t = h) | _ \<Rightarrow> False)"
| "typed (KAudit n) v = (case v of SAudit e \<Rightarrow> (au_seq e = n) | _ \<Rightarrow> False)"
| "typed KAuditSeq v = (case v of SNum _ \<Rightarrow> True | _ \<Rightarrow> False)"
| "typed (KIdxName n) v = (case v of SStr _ \<Rightarrow> True | _ \<Rightarrow> False)"

definition store_wf :: "sval mem_store \<Rightarrow> bool" where
  "store_wf m \<longleftrightarrow> (\<forall>k v. bm_get m k = Some v \<longrightarrow> (\<exists>sk. key_ok sk \<and> k = key_string sk \<and> typed sk v))"

lemma store_wf_empty [simp]: "store_wf bm_empty"
  by (simp add: store_wf_def)

lemma store_wfD:
  assumes "store_wf m" "bm_get m (key_string sk) = Some v" "key_ok sk"
  shows "typed sk v"
  using assms unfolding store_wf_def by (metis key_string_inject)

lemma store_wf_insert:
  "store_wf m \<Longrightarrow> key_ok sk \<Longrightarrow> typed sk v \<Longrightarrow> store_wf (bm_insert (key_string sk) v m)"
  by (auto simp: store_wf_def)

lemma store_wf_remove: "store_wf m \<Longrightarrow> store_wf (bm_remove k m)"
  by (auto simp: store_wf_def)

lemma store_wf_subset:
  "store_wf m \<Longrightarrow> (\<And>k v. bm_get n k = Some v \<Longrightarrow> bm_get m k = Some v) \<Longrightarrow> store_wf n"
  by (auto simp: store_wf_def)

lemma typed_cases:
  "typed (KProject p) v \<Longrightarrow> \<exists>x. v = SProject x \<and> p_id x = p \<and> p_name x = p"
  "typed (KStruct p) v \<Longrightarrow> \<exists>x. v = SStruct x"
  "typed (KStructDraft p) v \<Longrightarrow> \<exists>x. v = SStructDraft x"
  "typed (KState p b) v \<Longrightarrow> \<exists>x. v = SBranch x"
  "typed (KVersion p b n) v \<Longrightarrow> \<exists>x. v = SVersion x \<and> vr_no x = n"
  "typed (KSnap p b n) v \<Longrightarrow> \<exists>x. v = SSnap x"
  "typed (KDiff p b n) v \<Longrightarrow> \<exists>x. v = SDiff x"
  "typed (KGray p b n) v \<Longrightarrow> \<exists>x. v = SSnap x"
  "typed (KShared k) v \<Longrightarrow> \<exists>x. v = SShared x \<and> si_key x = k"
  "typed (KSharedDraft k) v \<Longrightarrow> \<exists>x. v = SShared x \<and> si_key x = k"
  "typed KSession v \<Longrightarrow> \<exists>x. v = SSession x"
  "typed KAdminPw v \<Longrightarrow> \<exists>x. v = SStr x"
  "typed (KPaAccount u) v \<Longrightarrow> \<exists>x. v = SPa x \<and> pa_username x = u"
  "typed (KGaAccount u) v \<Longrightarrow> \<exists>x. v = SGa x \<and> ga_username x = u"
  "typed (KToken h) v \<Longrightarrow> \<exists>x. v = SToken x \<and> tk_hash x = h"
  "typed (KAudit n) v \<Longrightarrow> \<exists>x. v = SAudit x \<and> au_seq x = n"
  "typed KAuditSeq v \<Longrightarrow> \<exists>x. v = SNum x"
  by (cases v; simp)+

section \<open>Safe buffers\<close>

text \<open>The keys a buffer puts; deleting any other key keeps the buffer safe to flush.\<close>

definition put_keys :: "sm \<Rightarrow> string set" where
  "put_keys s = fst ` set (op_puts (sm_pending s))"

definition buf_safe :: "sm \<Rightarrow> bool" where
  "buf_safe s \<longleftrightarrow> flush_safe (sm_pending s)"

lemma op_puts_simps [simp]:
  "op_puts [] = []" "op_puts (ops @ [Put k v]) = op_puts ops @ [(k, v)]"
  "op_puts (ops @ [Del k]) = op_puts ops"
  by (simp_all add: op_puts_def)

lemma put_keys_simps [simp]:
  "put_keys (save_pending k v s) = insert k (put_keys s)"
  "put_keys (delete_pending k s) = put_keys s"
  by (auto simp: put_keys_def save_pending_def put_pending_def delete_pending_def)

lemma put_keys_start: "sm_pending s = [] \<Longrightarrow> put_keys s = {}"
  by (simp add: put_keys_def)

lemma put_keys_delete_rows [simp]: "put_keys (delete_rows rows s) = put_keys s"
  unfolding delete_rows_def by (induction rows arbitrary: s) auto

lemma buf_safe_start: "sm_pending s = [] \<Longrightarrow> buf_safe s"
  by (simp add: buf_safe_def)

lemma buf_safe_save [simp]: "buf_safe s \<Longrightarrow> buf_safe (save_pending k v s)"
  by (simp add: buf_safe_def save_pending_def put_pending_def flush_safe_put)

lemma buf_safe_delete: "buf_safe s \<Longrightarrow> k \<notin> put_keys s \<Longrightarrow> buf_safe (delete_pending k s)"
  by (simp add: buf_safe_def delete_pending_def put_keys_def flush_safe_del)

lemma buf_safe_delete_rows:
  "buf_safe s \<Longrightarrow> fst ` set rows \<inter> put_keys s = {} \<Longrightarrow> buf_safe (delete_rows rows s)"
  unfolding delete_rows_def
proof (induction rows arbitrary: s)
  case (Cons r rows)
  then show ?case by (cases r) (simp add: buf_safe_delete)
qed simp

lemma store_wf_delete_rows: "store_wf (view s) \<Longrightarrow> store_wf (view (delete_rows rows s))"
  by (erule store_wf_subset) (simp add: view_delete_rows split: if_splits)

lemma view_start: "sm_pending s = [] \<Longrightarrow> view s = sm_store s"
  by (simp add: view_def)

lemma load_start: "sm_pending s = [] \<Longrightarrow> load dec s k = load_merged dec s k"
  by (simp add: load_def load_merged_eq view_start ms_get_def)

end
