(* ===== verification/Versions.thy ===== *)
theory Versions
  imports Machine
begin

text \<open>
  The version store of a branch (\<open>state.rs\<close>: \<open>snapshot_of\<close>, \<open>write_version_snapshot\<close>,
  \<open>version_history\<close>, \<open>prune_versions\<close>, \<open>get_config\<close>): every 100th version and version 1 are
  stored in full, the others as the difference from the version before. The abstract content of a
  version is defined by recursion on its number; the lemmas show that reading computes it, that
  writing the next number extends it, and which versions pruning leaves readable.
\<close>

definition CHECKPOINT_INTERVAL :: nat where "CHECKPOINT_INTERVAL = 100"

record config_snapshot =
  cs_project :: string
  cs_branch :: string
  cs_version :: nat
  cs_resolved_version :: nat
  cs_structure_version :: nat
  cs_groups :: snapshot
  cs_gray :: bool

section \<open>Reading a version\<close>

text \<open>The base of a version: itself if it is a checkpoint, else the last checkpoint before it, or 1.\<close>

definition base_of :: "nat \<Rightarrow> nat" where
  "base_of version =
     (if version mod CHECKPOINT_INTERVAL = 0 then version
      else let base = ((version - 1) div CHECKPOINT_INTERVAL) * CHECKPOINT_INTERVAL
           in if base = 0 then 1 else base)"

text \<open>The full snapshot under a version number; absent is \<^const>\<open>NotFound\<close>, undecodable \<^const>\<open>Internal\<close>.\<close>

definition read_full :: "sm \<Rightarrow> project_id \<Rightarrow> branch_name \<Rightarrow> nat \<Rightarrow> snapshot res" where
  "read_full s p b v = bindE (load_merged as_snap s (snapshot_key p b v)) (ok_or (err NotFound))"

text \<open>
  The loop over the versions after the base. A version without a difference ends the loop with the
  full snapshot stored under that number, if there is one.
\<close>

fun replay :: "sm \<Rightarrow> project_id \<Rightarrow> branch_name \<Rightarrow> nat list \<Rightarrow> snapshot \<Rightarrow> snapshot res" where
  "replay s p b [] snap = Inr snap"
| "replay s p b (v # vs) snap =
     (if v mod CHECKPOINT_INTERVAL = 0
      then bindE (read_full s p b v) (replay s p b vs)
      else bindE (load_merged as_diff s (diff_key p b v)) (\<lambda>d. case d of
             None \<Rightarrow> read_full s p b v
           | Some diff \<Rightarrow> replay s p b vs (sm_apply_diff snap diff)))"

definition snapshot_of :: "sm \<Rightarrow> project_id \<Rightarrow> branch_name \<Rightarrow> nat \<Rightarrow> snapshot res" where
  "snapshot_of s p b version =
     (if version = 0 then Inl (err NotFound)
      else let start = base_of version in
        bindE (load_merged as_snap s (snapshot_key p b start)) (\<lambda>r. case r of
          None \<Rightarrow> read_full s p b version
        | Some snap \<Rightarrow> replay s p b [start + 1..<version + 1] snap))"

definition is_checkpoint :: "nat \<Rightarrow> bool" where
  "is_checkpoint vno = (vno = 1 \<or> vno mod CHECKPOINT_INTERVAL = 0)"

definition write_version_snapshot ::
  "project_id \<Rightarrow> branch_name \<Rightarrow> nat \<Rightarrow> snapshot \<Rightarrow> snapshot \<Rightarrow> version_record \<Rightarrow> sm \<Rightarrow> sm" where
  "write_version_snapshot p b vno old new rec s =
     (if is_checkpoint vno
      then save_pending (version_key p b vno) (SVersion (rec\<lparr>vr_kind := Full\<rparr>))
             (save_pending (snapshot_key p b vno) (SSnap new) s)
      else save_pending (version_key p b vno) (SVersion (rec\<lparr>vr_kind := Diff\<rparr>))
             (save_pending (diff_key p b vno) (SDiff (compute_diff old new)) s))"

text \<open>The value snapshot of the active version; empty before the first one.\<close>

definition active_snapshot :: "sm \<Rightarrow> project_id \<Rightarrow> branch_name \<Rightarrow> branch_state \<Rightarrow> snapshot res" where
  "active_snapshot s p b st =
     (if active_version st = 0 then Inr bm_empty else snapshot_of s p b (active_version st))"

definition get_version_record :: "sm \<Rightarrow> project_id \<Rightarrow> branch_name \<Rightarrow> nat \<Rightarrow> version_record option res" where
  "get_version_record s p b no = load_merged as_version s (version_key p b no)"

definition version_history :: "sm \<Rightarrow> project_id \<Rightarrow> branch_name \<Rightarrow> version_record list" where
  "version_history s p b = sort_key vr_no
     (List.map_filter (\<lambda>(k, v).
        if ends_with k ''/snap'' \<or> ends_with k ''/diff'' then None else as_version v)
      (get_prefix_merged s (versions_prefix p b)))"

section \<open>Pruning\<close>

text \<open>The first version number kept: the newest dropped one, aligned down to its base.\<close>

definition keep_from :: "nat \<Rightarrow> nat" where
  "keep_from newest =
     (if newest mod CHECKPOINT_INTERVAL \<noteq> 0 \<and> newest \<noteq> 1
      then let kf = ((newest - 1) div CHECKPOINT_INTERVAL) * CHECKPOINT_INTERVAL
           in if kf = 0 then 1 else kf
      else newest)"

definition store_delete :: "string \<Rightarrow> sm \<Rightarrow> sm" where
  "store_delete k s = s\<lparr>sm_store := ms_delete (sm_store s) k\<rparr>"

definition drop_version :: "project_id \<Rightarrow> branch_name \<Rightarrow> nat \<Rightarrow> sm \<Rightarrow> sm" where
  "drop_version p b no s =
     store_delete (diff_key p b no) (store_delete (snapshot_key p b no)
       (store_delete (version_key p b no) s))"

definition prune_versions :: "project_id \<Rightarrow> branch_name \<Rightarrow> nat \<Rightarrow> sm \<Rightarrow> (nat \<times> sm) res" where
  "prune_versions p b keep s =
     bindE (bindE (get_branch_state s p b) (ok_or (err NotFound))) (\<lambda>st.
       let hist = version_history s p b; total = length hist in
       if total \<le> keep then Inr (0, s)
       else let kf = keep_from (vr_no (hist ! (total - keep - 1)));
                gone = filter (\<lambda>r. \<not> (vr_no r \<ge> kf \<or> vr_no r = active_version st)) hist
            in Inr (length gone, fold (\<lambda>r. drop_version p b (vr_no r)) gone s))"

section \<open>The configuration of a branch\<close>

definition structure_or_empty :: "sm \<Rightarrow> project_id \<Rightarrow> struct res" where
  "structure_or_empty s p = bindE (get_structure s p) (\<lambda>o1. case o1 of
     None \<Rightarrow> Inr \<lparr>s_version = 0, s_groups = []\<rparr> | Some x \<Rightarrow> Inr x)"

definition get_config :: "sm \<Rightarrow> project_id \<Rightarrow> branch_name \<Rightarrow> nat \<Rightarrow> config_snapshot res" where
  "get_config s p b version =
     bindE (bindE (get_branch_state s p b) (ok_or (err NotFound))) (\<lambda>st.
       let vno = (if version = 0 then active_version st else version) in
       if vno = 0 then Inl (err NotFound)
       else bindE (snapshot_of s p b vno) (\<lambda>snap.
         bindE (structure_or_empty s p) (\<lambda>structure.
           Inr \<lparr>cs_project = p, cs_branch = b, cs_version = vno, cs_resolved_version = vno,
             cs_structure_version = s_version structure, cs_groups = snap, cs_gray = False\<rparr>)))"

definition gray_snapshot_of :: "sm \<Rightarrow> project_id \<Rightarrow> branch_name \<Rightarrow> nat \<Rightarrow> snapshot res" where
  "gray_snapshot_of s p b seq =
     bindE (load_merged as_snap s (gray_snap_key p b seq)) (ok_or (err NotFound))"

section \<open>The content of a chain of versions\<close>

text \<open>
  The abstract content of version \<open>v\<close>: the full snapshot of a checkpoint, else the content of the
  version before it patched with the stored difference.
\<close>

fun chain_content ::
  "(nat \<Rightarrow> bool) \<Rightarrow> ('s \<Rightarrow> 'd \<Rightarrow> 's) \<Rightarrow> (nat \<Rightarrow> 's option) \<Rightarrow> (nat \<Rightarrow> 'd option) \<Rightarrow> nat \<Rightarrow> 's option" where
  "chain_content cp patch full del 0 = None"
| "chain_content cp patch full del (Suc n) =
     (if cp (Suc n) then full (Suc n)
      else (case (chain_content cp patch full del n, del (Suc n)) of
              (Some s, Some d) \<Rightarrow> Some (patch s d)
            | _ \<Rightarrow> None))"

text \<open>Two stores that agree up to a number give the versions up to it the same content.\<close>

lemma chain_content_cong:
  "(\<And>i. i \<le> v \<Longrightarrow> full' i = full i) \<Longrightarrow> (\<And>i. i \<le> v \<Longrightarrow> del' i = del i) \<Longrightarrow>
     chain_content cp patch full' del' v = chain_content cp patch full del v"
  by (induction v) simp_all

text \<open>It is enough that they agree from the last checkpoint on.\<close>

lemma chain_content_cong_from:
  assumes "cp u" "0 < u" "u \<le> v"
    and "\<And>i. u \<le> i \<Longrightarrow> i \<le> v \<Longrightarrow> full' i = full i" "\<And>i. u \<le> i \<Longrightarrow> i \<le> v \<Longrightarrow> del' i = del i"
  shows "chain_content cp patch full' del' v = chain_content cp patch full del v"
  using assms(3-)
proof (induction v)
  case (Suc v)
  show ?case
  proof (cases "u = Suc v")
    case True
    then show ?thesis using assms(1) Suc.prems by simp
  next
    case False
    then show ?thesis using Suc by simp
  qed
qed (use assms(2) in simp)

text \<open>Below a readable version, everything down to the last checkpoint is readable.\<close>

lemma chain_content_below:
  assumes "chain_content cp patch full del v = Some x" "u \<le> v" "\<forall>i. u < i \<and> i \<le> v \<longrightarrow> \<not> cp i"
  shows "\<exists>y. chain_content cp patch full del u = Some y"
  using assms
proof (induction v arbitrary: x)
  case (Suc v)
  then show ?case by (cases "u = Suc v") (auto split: if_splits option.splits)
qed simp

text \<open>A difference format with checkpoints: what is written under the next number reads back.\<close>

locale checkpointed = delta_format delta patch sim
  for delta :: "'s \<Rightarrow> 's \<Rightarrow> 'd" and patch :: "'s \<Rightarrow> 'd \<Rightarrow> 's" and sim :: "'s \<Rightarrow> 's \<Rightarrow> bool" +
  fixes cp :: "nat \<Rightarrow> bool"
  assumes cp_first: "cp 1"
begin

lemma append_version:
  assumes old: "n \<noteq> 0 \<Longrightarrow> chain_content cp patch full del n = Some old"
    and kept: "\<And>i. i \<le> n \<Longrightarrow> full' i = full i" "\<And>i. i \<le> n \<Longrightarrow> del' i = del i"
    and full: "cp (Suc n) \<Longrightarrow> full' (Suc n) = Some new"
    and del: "\<not> cp (Suc n) \<Longrightarrow> del' (Suc n) = Some (delta old new)"
  shows "\<exists>x. chain_content cp patch full' del' (Suc n) = Some x \<and> sim x new"
proof (cases "cp (Suc n)")
  case True
  then show ?thesis using full sim_refl by simp
next
  case False
  then have "n \<noteq> 0" using cp_first by (cases n) auto
  then have "chain_content cp patch full' del' n = Some old"
    using old chain_content_cong [of n full' full del' del] kept by simp
  then show ?thesis using False del patch_delta by simp
qed

lemma append_keeps:
  assumes "\<And>i. i \<le> n \<Longrightarrow> full' i = full i" "\<And>i. i \<le> n \<Longrightarrow> del' i = del i" "v \<le> n"
  shows "chain_content cp patch full' del' v = chain_content cp patch full del v"
  using assms by (intro chain_content_cong) auto

end

interpretation snap_chain: checkpointed compute_diff sm_apply_diff snap_sim is_checkpoint
  by unfold_locales (simp add: is_checkpoint_def)

section \<open>Reading computes the content\<close>

definition full_at :: "sval mem_store \<Rightarrow> project_id \<Rightarrow> branch_name \<Rightarrow> nat \<Rightarrow> snapshot option" where
  "full_at m p b v = Option.bind (bm_get m (snapshot_key p b v)) as_snap"

definition diff_at :: "sval mem_store \<Rightarrow> project_id \<Rightarrow> branch_name \<Rightarrow> nat \<Rightarrow> diff_entry list option" where
  "diff_at m p b v = Option.bind (bm_get m (diff_key p b v)) as_diff"

definition content :: "sval mem_store \<Rightarrow> project_id \<Rightarrow> branch_name \<Rightarrow> nat \<Rightarrow> snapshot option" where
  "content m p b = chain_content is_checkpoint sm_apply_diff (full_at m p b) (diff_at m p b)"

lemma full_at_Some: "full_at m p b v = Some x \<longleftrightarrow> bm_get m (snapshot_key p b v) = Some (SSnap x)"
  by (auto simp: full_at_def bind_eq_Some_conv)

lemma diff_at_Some: "diff_at m p b v = Some d \<longleftrightarrow> bm_get m (diff_key p b v) = Some (SDiff d)"
  by (auto simp: diff_at_def bind_eq_Some_conv)

lemma read_full_Some: "full_at (view s) p b v = Some x \<Longrightarrow> read_full s p b v = Inr x"
  by (simp add: read_full_def full_at_Some load_merged_eq decode_with_def)

lemma content_Suc:
  "content m p b (Suc n) =
     (if is_checkpoint (Suc n) then full_at m p b (Suc n)
      else (case (content m p b n, diff_at m p b (Suc n)) of
              (Some s, Some d) \<Rightarrow> Some (sm_apply_diff s d) | _ \<Rightarrow> None))"
  by (simp add: content_def)

lemma content_0 [simp]: "content m p b 0 = None"
  by (simp add: content_def)

lemma content_checkpoint: "is_checkpoint v \<Longrightarrow> 0 < v \<Longrightarrow> content m p b v = full_at m p b v"
  by (cases v) (simp_all add: content_Suc)

text \<open>The loop of \<open>snapshot_of\<close>, started on the content of one version, arrives at that of another.\<close>

lemma replay_through:
  assumes "0 < u" "content (view s) p b u = Some x"
    and "\<And>i. u \<le> i \<Longrightarrow> i \<le> u + k \<Longrightarrow> content (view s) p b i \<noteq> None"
  shows "replay s p b ([u + 1..<u + k + 1] @ ws) x = replay s p b ws (the (content (view s) p b (u + k)))"
  using assms
proof (induction k arbitrary: u x)
  case (Suc k)
  from Suc.prems(3) [of "Suc u"] obtain y where y: "content (view s) p b (Suc u) = Some y" by auto
  have tail: "replay s p b ([Suc u + 1..<Suc u + k + 1] @ ws) y = replay s p b ws (the (content (view s) p b (Suc u + k)))"
    using Suc.prems by (intro Suc.IH y) auto
  have list: "[u + 1..<u + Suc k + 1] @ ws = Suc u # [Suc u + 1..<Suc u + k + 1] @ ws"
    by (simp add: upt_rec)
  have "replay s p b (Suc u # vs) x = replay s p b vs y" for vs
  proof (cases "Suc u mod CHECKPOINT_INTERVAL = 0")
    case True
    then have "full_at (view s) p b (Suc u) = Some y"
      using y by (simp add: content_Suc is_checkpoint_def)
    then show ?thesis using True by (simp add: read_full_Some)
  next
    case False
    then have ncp: "\<not> is_checkpoint (Suc u)" using Suc.prems(1) by (simp add: is_checkpoint_def)
    then obtain d where d: "diff_at (view s) p b (Suc u) = Some d" "y = sm_apply_diff x d"
      using y Suc.prems(2) by (auto simp: content_Suc split: option.splits)
    then have "load_merged as_diff s (diff_key p b (Suc u)) = Inr (Some d)"
      by (simp add: diff_at_Some load_merged_Some)
    then show ?thesis using False d(2) by simp
  qed
  with tail list show ?case by simp
qed simp

lemma base_of_props:
  assumes "0 < v"
  shows "0 < base_of v" "base_of v \<le> v" "is_checkpoint (base_of v)"
    and "\<And>i. base_of v < i \<Longrightarrow> i \<le> v \<Longrightarrow> \<not> is_checkpoint i"
proof -
  let ?q = "(v - 1) div 100 * 100"
  have q: "?q \<le> v - 1" "v - 1 < ?q + 100" by (simp_all add: div_times_less_eq_dividend)
  show "0 < base_of v" using assms by (simp add: base_of_def Let_def)
  show "base_of v \<le> v"
    using assms q by (auto simp: base_of_def Let_def CHECKPOINT_INTERVAL_def)
  show "is_checkpoint (base_of v)"
    by (auto simp: base_of_def Let_def CHECKPOINT_INTERVAL_def is_checkpoint_def)
  fix i assume i: "base_of v < i" "i \<le> v"
  show "\<not> is_checkpoint i"
  proof
    assume "is_checkpoint i"
    then have "i = 1 \<or> i mod 100 = 0" by (simp add: is_checkpoint_def CHECKPOINT_INTERVAL_def)
    moreover have "i \<noteq> 1" using i \<open>0 < base_of v\<close> by simp
    ultimately have m: "i mod 100 = 0" by simp
    show False
    proof (cases "v mod 100 = 0")
      case True
      then show False using i by (simp add: base_of_def CHECKPOINT_INTERVAL_def)
    next
      case False
      then have "i \<le> v - 1" "?q < i"
        using i m by (auto simp: base_of_def Let_def CHECKPOINT_INTERVAL_def le_less split: if_splits)
      then have "i div 100 \<le> (v - 1) div 100" by (simp add: div_le_mono)
      then have "i div 100 * 100 \<le> ?q" by simp
      moreover have "i div 100 * 100 = i" using m div_mult_mod_eq [of i 100] by simp
      ultimately show False using \<open>?q < i\<close> by simp
    qed
  qed
qed

text \<open>A version with a content is read, and what is read is its content.\<close>

lemma snapshot_of_content:
  assumes "content (view s) p b v = Some x"
  shows "snapshot_of s p b v = Inr x"
proof -
  have v: "0 < v" using assms by (cases v) simp_all
  note base = base_of_props [OF v]
  have readable: "\<exists>y. content (view s) p b u = Some y" if "base_of v \<le> u" "u \<le> v" for u
    using assms that base(4) unfolding content_def
    by (intro chain_content_below [where v = v]) auto
  obtain y where y: "content (view s) p b (base_of v) = Some y" using readable base(2) by blast
  then have full: "load_merged as_snap s (snapshot_key p b (base_of v)) = Inr (Some y)"
    using base(1,3) by (simp add: content_checkpoint full_at_Some load_merged_Some)
  obtain k where k: "v = base_of v + k" using base(2) le_Suc_ex by blast
  have "replay s p b ([base_of v + 1..<base_of v + k + 1] @ []) y = Inr (the (content (view s) p b (base_of v + k)))"
    using readable k by (subst replay_through [OF base(1) y]) auto
  then show ?thesis
    using v full assms k by (simp add: snapshot_of_def Let_def)
qed

section \<open>Writing a version\<close>

lemma view_write_version:
  "view (write_version_snapshot p b vno old new rec s) =
     (if is_checkpoint vno
      then bm_insert (version_key p b vno) (SVersion (rec\<lparr>vr_kind := Full\<rparr>))
             (bm_insert (snapshot_key p b vno) (SSnap new) (view s))
      else bm_insert (version_key p b vno) (SVersion (rec\<lparr>vr_kind := Diff\<rparr>))
             (bm_insert (diff_key p b vno) (SDiff (compute_diff old new)) (view s)))"
  by (simp add: write_version_snapshot_def)

lemma sm_store_write_version [simp]:
  "sm_store (write_version_snapshot p b vno old new rec s) = sm_store s"
  by (simp add: write_version_snapshot_def)

text \<open>A write touches the keys of its own version only.\<close>

lemma write_version_other:
  assumes "\<forall>k \<in> {version_key p b vno, snapshot_key p b vno, diff_key p b vno}. x \<noteq> k"
  shows "bm_get (view (write_version_snapshot p b vno old new rec s)) x = bm_get (view s) x"
  using assms by (simp add: view_write_version)

lemma full_at_other:
  assumes "slash_free p" "slash_free b" "slash_free p'" "slash_free b'" "(p', b', v) \<noteq> (p, b, vno)"
  shows "full_at (view (write_version_snapshot p b vno old new rec s)) p' b' v = full_at (view s) p' b' v"
    and "diff_at (view (write_version_snapshot p b vno old new rec s)) p' b' v = diff_at (view s) p' b' v"
  using assms by (auto simp: full_at_def diff_at_def view_write_version key_eq)

lemma full_at_written:
  assumes "slash_free p" "slash_free b"
  shows "is_checkpoint vno \<Longrightarrow>
      full_at (view (write_version_snapshot p b vno old new rec s)) p b vno = Some new"
    and "\<not> is_checkpoint vno \<Longrightarrow>
      diff_at (view (write_version_snapshot p b vno old new rec s)) p b vno = Some (compute_diff old new)"
  using assms by (simp_all add: full_at_def diff_at_def view_write_version key_eq)

text \<open>The version after the last one reads back as what was written, up to the equality of values.\<close>

lemma write_next_content:
  assumes "slash_free p" "slash_free b"
    and "n \<noteq> 0 \<Longrightarrow> content (view s) p b n = Some old"
  shows "\<exists>x. content (view (write_version_snapshot p b (Suc n) old new rec s)) p b (Suc n) = Some x \<and>
    snap_sim x new"
  unfolding content_def
  by (rule snap_chain.append_version [where n = n and old = old and new = new
        and full = "full_at (view s) p b" and del = "diff_at (view s) p b"])
     (use assms in \<open>simp_all add: full_at_other full_at_written content_def\<close>)

text \<open>Earlier versions, and the versions of other branches, keep their content.\<close>

lemma write_keeps_content:
  assumes "slash_free p" "slash_free b" "slash_free p'" "slash_free b'" "(p', b') \<noteq> (p, b) \<or> v < vno"
  shows "content (view (write_version_snapshot p b vno old new rec s)) p' b' v = content (view s) p' b' v"
  unfolding content_def
  by (rule chain_content_cong) (use assms in \<open>auto intro!: full_at_other\<close>)

lemma content_other_key:
  assumes "\<And>i. snapshot_key p b i \<noteq> k" "\<And>i. diff_key p b i \<noteq> k"
  shows "content (bm_insert k v m) p b = content m p b"
    and "content (bm_remove k m) p b = content m p b"
proof -
  have "full_at (bm_insert k v m) p b = full_at m p b" "diff_at (bm_insert k v m) p b = diff_at m p b"
    "full_at (bm_remove k m) p b = full_at m p b" "diff_at (bm_remove k m) p b = diff_at m p b"
    using assms by (auto simp: full_at_def diff_at_def fun_eq_iff)
  then show "content (bm_insert k v m) p b = content m p b"
    "content (bm_remove k m) p b = content m p b"
    by (simp_all add: content_def)
qed

section \<open>History and pruning\<close>

lemma set_map_filter: "set (List.map_filter f xs) = {y. \<exists>x \<in> set xs. f x = Some y}"
  by (force simp: List.map_filter_def)

lemma ends_with_dec: "\<not> ends_with (pre @ dec_string n) (x @ [c])" if "\<not> is_digit c"
proof
  assume "ends_with (pre @ dec_string n) (x @ [c])"
  then have "last (dec_string n) = c" by (auto simp: ends_with_iff) (metis dec_string_not_Nil last_appendR last_snoc append_assoc)
  then have "c \<in> set (dec_string n)" using dec_string_not_Nil last_in_set by metis
  with that show False using dec_string_digits by blast
qed

lemma version_key_suffix: "\<not> ends_with (version_key p b n) ''/snap''" "\<not> ends_with (version_key p b n) ''/diff''"
proof -
  have "version_key p b n = (K_PROJECT @ p @ K_BRANCH @ b @ K_VERSION) @ dec_string n"
    by (simp add: version_key_def)
  then show "\<not> ends_with (version_key p b n) ''/snap''" "\<not> ends_with (version_key p b n) ''/diff''"
    using ends_with_dec [of "CHR ''p''" "K_PROJECT @ p @ K_BRANCH @ b @ K_VERSION" n "''/sna''"]
      ends_with_dec [of "CHR ''f''" "K_PROJECT @ p @ K_BRANCH @ b @ K_VERSION" n "''/dif''"]
    by (simp_all add: is_digit_def)
qed

text \<open>In a well-typed store the history is the set of version records of the branch, in order.\<close>

lemma set_version_history:
  assumes "store_wf (view s)" "slash_free p" "slash_free b"
  shows "r \<in> set (version_history s p b) \<longleftrightarrow>
    bm_get (view s) (version_key p b (vr_no r)) = Some (SVersion r)"
proof
  assume "r \<in> set (version_history s p b)"
  then obtain k where k: "bm_get (view s) k = Some (SVersion r)" "starts_with k (versions_prefix p b)"
    by (auto simp: version_history_def set_map_filter get_prefix_merged_view in_ms_get_prefix split: if_splits)
  obtain sk where sk: "key_ok sk" "k = key_string sk" "typed sk (SVersion r)"
    using assms(1) k(1) unfolding store_wf_def by blast
  then obtain p' b' where "sk = KVersion p' b' (vr_no r)" by (cases sk) auto
  moreover have "in_dir [''p'', p, ''b'', b, ''v''] k" using k(2) assms scan_names(2) by blast
  ultimately have "p' = p" "b' = b" using sk(1,2) by (auto simp: in_dir_def segs_key_string)
  with k(1) sk(2) \<open>sk = _\<close> show "bm_get (view s) (version_key p b (vr_no r)) = Some (SVersion r)"
    by (simp add: key_string.simps)
next
  assume r: "bm_get (view s) (version_key p b (vr_no r)) = Some (SVersion r)"
  have "starts_with (version_key p b (vr_no r)) (versions_prefix p b)"
    by (simp add: version_key_def versions_prefix_def)
  with r have "(version_key p b (vr_no r), SVersion r) \<in> set (get_prefix_merged s (versions_prefix p b))"
    by (simp add: get_prefix_merged_view in_ms_get_prefix)
  then show "r \<in> set (version_history s p b)"
    by (auto simp: version_history_def set_map_filter version_key_suffix intro!: bexI)
qed

lemma sorted_version_history: "sorted (map vr_no (version_history s p b))"
  by (simp add: version_history_def)

lemma keep_from_props:
  "keep_from n \<le> n" "0 < n \<Longrightarrow> 0 < keep_from n" "is_checkpoint (keep_from n)"
proof -
  have "(n - 1) div 100 * 100 \<le> n - 1" by (simp add: div_times_less_eq_dividend)
  then show "keep_from n \<le> n"
    by (cases n) (auto simp: keep_from_def Let_def CHECKPOINT_INTERVAL_def)
  show "0 < n \<Longrightarrow> 0 < keep_from n" by (auto simp: keep_from_def Let_def)
  show "is_checkpoint (keep_from n)"
    by (auto simp: keep_from_def Let_def is_checkpoint_def CHECKPOINT_INTERVAL_def)
qed

text \<open>Pruning acts on the store itself; it runs outside commands, with an empty buffer.\<close>

lemma view_store_delete: "sm_pending s = [] \<Longrightarrow> view (store_delete k s) = bm_remove k (view s)"
  by (simp add: view_def store_delete_def ms_delete_def)

lemma store_delete_pending [simp]: "sm_pending (store_delete k s) = sm_pending s"
  by (simp add: store_delete_def)

lemma drop_version_pending [simp]: "sm_pending (drop_version p b n s) = sm_pending s"
  by (simp add: drop_version_def)

lemma drop_versions_get:
  assumes "sm_pending s = []"
  shows "bm_get (view (fold (\<lambda>r. drop_version p b (vr_no r)) rs s)) k =
    (if \<exists>r \<in> set rs. k \<in> {version_key p b (vr_no r), snapshot_key p b (vr_no r), diff_key p b (vr_no r)}
     then None else bm_get (view s) k)"
  using assms
proof (induction rs arbitrary: s)
  case (Cons r rs)
  have "view (drop_version p b (vr_no r) s) =
     bm_remove (diff_key p b (vr_no r)) (bm_remove (snapshot_key p b (vr_no r))
       (bm_remove (version_key p b (vr_no r)) (view s)))"
    using Cons.prems by (simp add: drop_version_def view_store_delete)
  with Cons show ?case by auto
qed simp

lemma drop_versions_content:
  assumes "sm_pending s = []" "slash_free p" "slash_free b"
    and "is_checkpoint kf" "0 < kf" "kf \<le> v" "\<forall>r \<in> set rs. vr_no r < kf"
  shows "content (view (fold (\<lambda>r. drop_version p b (vr_no r)) rs s)) p b v = content (view s) p b v"
  unfolding content_def
  by (rule chain_content_cong_from [where u = kf])
     (use assms in \<open>auto simp: full_at_def diff_at_def drop_versions_get key_eq\<close>)

end
