(* ===== verification/Gray.thy ===== *)
theory Gray
  imports Versions
begin

text \<open>
  Gray release on the read path (\<open>state.rs\<close>: \<open>resolve_version\<close>, \<open>rule_matches\<close>, \<open>fnv1a_hash\<close>,
  \<open>ip_in_cidr\<close>, \<open>validate_gray_rule\<close>, \<open>get_config_resolved\<close>, \<open>next_monotonic\<close>): which clients see
  the gray snapshot of a branch, and with what content. Addresses are parsed the way Rust's
  \<open>IpAddr::from_str\<close> does; they are 32-bit and 128-bit words.
\<close>

unbundle bit_operations_syntax

section \<open>Addresses\<close>

datatype ip_addr = V4 "32 word" | V6 "128 word"

record client_ctx =
  instance_id :: string
  labels :: "(string, string) bmap"
  client_ip :: "ip_addr option"

definition hex_val :: "char \<Rightarrow> nat" where
  "hex_val c = (let n = of_char c in
     if is_digit c then n - 48 else if 97 \<le> n \<and> n \<le> 102 then n - 87 else n - 55)"

definition is_hex :: "char \<Rightarrow> bool" where
  "is_hex c = (is_digit c \<or> (let n = (of_char c :: nat) in 97 \<le> n \<and> n \<le> 102 \<or> 65 \<le> n \<and> n \<le> 70))"

text \<open>
  \<open>read_number\<close> of the standard library's address parser: all digits that follow, at most
  \<open>maxd\<close> of them, in range, and without a leading zero where that is not allowed.
\<close>

definition read_number ::
  "nat \<Rightarrow> (char \<Rightarrow> bool) \<Rightarrow> nat \<Rightarrow> bool \<Rightarrow> nat \<Rightarrow> string \<Rightarrow> (nat \<times> string) option" where
  "read_number radix dig maxd zero_ok bound s =
     (let ds = takeWhile dig s; v = foldl (\<lambda>a c. radix * a + hex_val c) 0 ds in
      if ds = [] \<or> length ds > maxd \<or> (\<not> zero_ok \<and> hd ds = CHR ''0'' \<and> length ds > 1) \<or> v > bound
      then None else Some (v, dropWhile dig s))"

fun read_char :: "char \<Rightarrow> string \<Rightarrow> string option" where
  "read_char c [] = None"
| "read_char c (x # xs) = (if x = c then Some xs else None)"

text \<open>Four decimal bytes separated by points.\<close>

definition read_octet :: "string \<Rightarrow> (nat \<times> string) option" where
  "read_octet = read_number 10 is_digit 3 False 255"

definition read_v4 :: "string \<Rightarrow> (32 word \<times> string) option" where
  "read_v4 s =
     Option.bind (read_octet s) (\<lambda>(a, s). Option.bind (read_char (CHR ''.'') s) (\<lambda>s.
     Option.bind (read_octet s) (\<lambda>(b, s). Option.bind (read_char (CHR ''.'') s) (\<lambda>s.
     Option.bind (read_octet s) (\<lambda>(c, s). Option.bind (read_char (CHR ''.'') s) (\<lambda>s.
     Option.bind (read_octet s) (\<lambda>(d, s).
       Some (word_of_nat (((a * 256 + b) * 256 + c) * 256 + d), s))))))))"

text \<open>
  Up to \<open>n\<close> groups of four hexadecimal digits; two groups may be written as an embedded IPv4
  address, which ends the list. The flag tells whether one did.
\<close>

fun read_groups :: "bool \<Rightarrow> nat \<Rightarrow> string \<Rightarrow> nat list \<times> bool \<times> string" where
  "read_groups fst_group 0 s = ([], False, s)"
| "read_groups fst_group (Suc n) s =
     (let start = (if fst_group then Some s else read_char (CHR '':'') s);
          v4 = (if n \<ge> 1 then Option.bind start read_v4 else None)
      in case v4 of
           Some (w, rest) \<Rightarrow> ([unat w div 65536, unat w mod 65536], True, rest)
         | None \<Rightarrow> (case Option.bind start (read_number 16 is_hex 4 True 65535) of
             None \<Rightarrow> ([], False, s)
           | Some (g, rest) \<Rightarrow>
               (let (gs, b, r) = read_groups False n rest in (g # gs, b, r))))"

definition groups_word :: "nat list \<Rightarrow> 128 word" where
  "groups_word gs = word_of_nat (foldl (\<lambda>a g. 65536 * a + g) 0 gs)"

definition read_v6 :: "string \<Rightarrow> (128 word \<times> string) option" where
  "read_v6 s =
     (let (head, head_v4, s1) = read_groups True 8 s in
      if length head = 8 then Some (groups_word head, s1)
      else if head_v4 then None
      else Option.bind (read_char (CHR '':'') s1) (\<lambda>s2.
           Option.bind (read_char (CHR '':'') s2) (\<lambda>s3.
             let (tail, _, s4) = read_groups True (8 - (length head + 1)) s3 in
             Some (groups_word (head @ replicate (8 - length head - length tail) 0 @ tail), s4))))"

text \<open>\<open>IpAddr::from_str\<close>: the whole text must be used up.\<close>

definition parse_ip :: "string \<Rightarrow> ip_addr option" where
  "parse_ip s = (case read_v4 s of
     Some (w, rest) \<Rightarrow> if rest = [] then Some (V4 w) else None
   | None \<Rightarrow> (case read_v6 s of
       Some (w, rest) \<Rightarrow> if rest = [] then Some (V6 w) else None
     | None \<Rightarrow> None))"

text \<open>\<open>addr/prefix\<close>: the three early exits shared by matching and validation.\<close>

definition parse_cidr :: "string \<Rightarrow> (ip_addr \<times> nat) option" where
  "parse_cidr cidr =
     Option.bind (split_once (CHR ''/'') cidr) (\<lambda>(addr_s, prefix_s).
     Option.bind (parse_ip addr_s) (\<lambda>addr.
     Option.bind (parse_u32 prefix_s) (\<lambda>prefix. Some (addr, prefix))))"

definition mask32 :: "nat \<Rightarrow> 32 word" where
  "mask32 prefix = (if prefix = 0 then 0 else push_bit (32 - prefix) (- 1))"

definition mask128 :: "nat \<Rightarrow> 128 word" where
  "mask128 prefix = (if prefix = 0 then 0 else push_bit (128 - prefix) (- 1))"

definition ip_in_cidr :: "ip_addr \<Rightarrow> string \<Rightarrow> bool" where
  "ip_in_cidr ip cidr = (case parse_cidr cidr of
     None \<Rightarrow> False
   | Some (addr, prefix) \<Rightarrow> (case (ip, addr) of
       (V4 a, V4 b) \<Rightarrow> if prefix > 32 then False else a AND mask32 prefix = b AND mask32 prefix
     | (V6 a, V6 b) \<Rightarrow> if prefix > 128 then False else a AND mask128 prefix = b AND mask128 prefix
     | _ \<Rightarrow> False))"

section \<open>Rules\<close>

definition fnv1a_hash :: "string \<Rightarrow> 32 word" where
  "fnv1a_hash s = foldl (\<lambda>h c. (h XOR word_of_nat (of_char c)) * 0x01000193) 0x811c9dc5 s"

definition rule_matches :: "gray_rule \<Rightarrow> client_ctx \<Rightarrow> bool" where
  "rule_matches rule ctx =
     (if list_ex (\<lambda>sel. bm_get (labels ctx) (sel_key sel) = Some (sel_value sel)) (match_labels rule)
      then True
      else if (case client_ip ctx of None \<Rightarrow> False | Some ip \<Rightarrow> list_ex (ip_in_cidr ip) (ip_cidrs rule))
      then True
      else (case percentage rule of None \<Rightarrow> False
            | Some pct \<Rightarrow> instance_id ctx \<noteq> [] \<and> fnv1a_hash (instance_id ctx) mod 100 < pct))"

definition validate_gray_rule :: "gray_rule \<Rightarrow> unit res" where
  "validate_gray_rule rule =
     (if match_labels rule = [] \<and> ip_cidrs rule = [] \<and> percentage rule = None then Inl (err Validation)
      else bindE (foldE (\<lambda>sel u. guardE (\<not> (sel_key sel = [] \<or> sel_value sel = [])) (err Validation))
                   (match_labels rule) ()) (\<lambda>_.
           bindE (foldE (\<lambda>cidr u. case parse_cidr cidr of
                     None \<Rightarrow> Inl (err Validation)
                   | Some (addr, prefix) \<Rightarrow>
                       guardE (prefix \<le> (case addr of V4 _ \<Rightarrow> 32 | V6 _ \<Rightarrow> 128)) (err Validation))
                   (ip_cidrs rule) ()) (\<lambda>_.
             (case percentage rule of None \<Rightarrow> Inr ()
              | Some pct \<Rightarrow> guardE (pct \<le> 100) (err Validation)))))"

definition next_monotonic :: "nat \<Rightarrow> nat \<Rightarrow> nat" where
  "next_monotonic active gray = max active gray + 1"

section \<open>Resolution\<close>

datatype resolved_version = Stable nat | Gray nat

definition resolve_version ::
  "sm \<Rightarrow> project_id \<Rightarrow> branch_name \<Rightarrow> client_ctx \<Rightarrow> resolved_version res" where
  "resolve_version s p b ctx =
     bindE (bindE (get_branch_state s p b) (ok_or (err NotFound))) (\<lambda>st.
       case b_gray_rule st of
         None \<Rightarrow> Inr (Stable (active_version st))
       | Some rule \<Rightarrow>
           if gray_seq st = 0 then Inr (Stable (active_version st))
           else if instance_id ctx = [] then Inr (Stable (active_version st))
           else if rule_matches rule ctx then Inr (Gray (gray_seq st))
           else Inr (Stable (active_version st)))"

definition get_config_resolved ::
  "sm \<Rightarrow> project_id \<Rightarrow> branch_name \<Rightarrow> nat \<Rightarrow> client_ctx \<Rightarrow> config_snapshot res" where
  "get_config_resolved s p b version ctx =
     (if version \<noteq> 0 then get_config s p b version
      else bindE (resolve_version s p b ctx) (\<lambda>r. case r of
        Stable _ \<Rightarrow> get_config s p b 0
      | Gray seq \<Rightarrow>
          bindE (gray_snapshot_of s p b seq) (\<lambda>snap.
          bindE (structure_or_empty s p) (\<lambda>structure.
          bindE (bindE (get_branch_state s p b) (ok_or (err NotFound))) (\<lambda>st.
            Inr \<lparr>cs_project = p, cs_branch = b, cs_version = active_version st,
              cs_resolved_version = seq, cs_structure_version = s_version structure,
              cs_groups = snap, cs_gray = True\<rparr>)))))"

section \<open>Lemmas on addresses\<close>

lemma and_push_mask_eq:
  fixes a b :: "'a::len word"
  assumes "n \<le> LENGTH('a)"
  shows "a AND push_bit n (- 1) = b AND push_bit n (- 1) \<longleftrightarrow> drop_bit n a = drop_bit n b"
proof
  assume eq: "a AND push_bit n (- 1) = b AND push_bit n (- 1)"
  show "drop_bit n a = drop_bit n b"
  proof (rule bit_eqI)
    fix i
    from arg_cong [OF eq, of "\<lambda>w. bit w (n + i)"] show "bit (drop_bit n a) i = bit (drop_bit n b) i"
      by (auto simp: bit_simps dest: bit_imp_le_length)
  qed
next
  assume eq: "drop_bit n a = drop_bit n b"
  show "a AND push_bit n (- 1) = b AND push_bit n (- 1)"
  proof (rule bit_eqI)
    fix i
    from arg_cong [OF eq, of "\<lambda>w. bit w (i - n)"] show "bit (a AND push_bit n (- 1)) i = bit (b AND push_bit n (- 1)) i"
      by (auto simp: bit_simps)
  qed
qed

lemma mask32_eq: "p \<le> 32 \<Longrightarrow> a AND mask32 p = b AND mask32 p \<longleftrightarrow> drop_bit (32 - p) a = drop_bit (32 - p) b"
proof (cases "p = 0")
  case True
  have "drop_bit 32 w = 0" for w :: "32 word" by (rule bit_eqI) (auto simp: bit_simps dest: bit_imp_le_length)
  then show ?thesis using True by (simp add: mask32_def)
qed (simp add: mask32_def and_push_mask_eq del: push_bit_minus_one push_bit_minus_one_eq_not_mask)

lemma mask128_eq: "p \<le> 128 \<Longrightarrow> a AND mask128 p = b AND mask128 p \<longleftrightarrow> drop_bit (128 - p) a = drop_bit (128 - p) b"
proof (cases "p = 0")
  case True
  have "drop_bit 128 w = 0" for w :: "128 word" by (rule bit_eqI) (auto simp: bit_simps dest: bit_imp_le_length)
  then show ?thesis using True by (simp add: mask128_def)
qed (simp add: mask128_def and_push_mask_eq del: push_bit_minus_one push_bit_minus_one_eq_not_mask)

text \<open>The network of an address: its first \<open>prefix\<close> bits.\<close>

fun same_network :: "nat \<Rightarrow> ip_addr \<Rightarrow> ip_addr \<Rightarrow> bool" where
  "same_network p (V4 a) (V4 b) \<longleftrightarrow> p \<le> 32 \<and> drop_bit (32 - p) a = drop_bit (32 - p) b"
| "same_network p (V6 a) (V6 b) \<longleftrightarrow> p \<le> 128 \<and> drop_bit (128 - p) a = drop_bit (128 - p) b"
| "same_network p _ _ \<longleftrightarrow> False"

lemma ip_in_cidr_network:
  "ip_in_cidr ip cidr \<longleftrightarrow> (\<exists>addr p. parse_cidr cidr = Some (addr, p) \<and> same_network p ip addr)"
  by (cases ip) (auto simp: ip_in_cidr_def mask32_eq mask128_eq split: option.splits ip_addr.splits)

lemma drop_bit_coarser: "drop_bit n a = drop_bit n b \<Longrightarrow> n \<le> m \<Longrightarrow> drop_bit m a = drop_bit m (b :: 'a::len word)"
  by (metis drop_bit_drop_bit le_add_diff_inverse2)

text \<open>A shorter prefix is a larger network.\<close>

lemma same_network_shorter: "same_network p ip addr \<Longrightarrow> q \<le> p \<Longrightarrow> same_network q ip addr"
  by (cases ip; cases addr) (auto elim: drop_bit_coarser)

section \<open>Lemmas on rules\<close>

lemma foldE_unit_Inr: "foldE (\<lambda>x u. f x) xs () = Inr v \<longleftrightarrow> (\<forall>x \<in> set xs. f x = Inr ())"
  by (induction xs) (auto simp: bindE_Inr_iff)

lemma validate_gray_rule_ok:
  "validate_gray_rule rule = Inr u \<longleftrightarrow>
     (match_labels rule \<noteq> [] \<or> ip_cidrs rule \<noteq> [] \<or> percentage rule \<noteq> None) \<and>
     (\<forall>sel \<in> set (match_labels rule). sel_key sel \<noteq> [] \<and> sel_value sel \<noteq> []) \<and>
     (\<forall>cidr \<in> set (ip_cidrs rule). \<exists>addr p. parse_cidr cidr = Some (addr, p) \<and>
        p \<le> (case addr of V4 _ \<Rightarrow> 32 | V6 _ \<Rightarrow> 128)) \<and>
     (\<forall>pct. percentage rule = Some pct \<longrightarrow> pct \<le> 100)"
proof -
  have one: "(case x of None \<Rightarrow> Inl (err Validation)
     | Some (addr, p) \<Rightarrow> guardE (p \<le> (case addr of V4 _ \<Rightarrow> 32 | V6 _ \<Rightarrow> 128)) (err Validation)) = Inr () \<longleftrightarrow>
     (\<exists>addr p. x = Some (addr, p) \<and> p \<le> (case addr of V4 _ \<Rightarrow> 32 | V6 _ \<Rightarrow> 128))"
    for x :: "(ip_addr \<times> nat) option"
    by (auto split: option.splits)
  show ?thesis
    by (auto simp: validate_gray_rule_def bindE_Inr_iff foldE_unit_Inr one split: option.splits)
qed

lemma rule_matches_iff:
  "rule_matches rule ctx \<longleftrightarrow>
     (\<exists>sel \<in> set (match_labels rule). bm_get (labels ctx) (sel_key sel) = Some (sel_value sel)) \<or>
     (\<exists>ip. client_ip ctx = Some ip \<and> (\<exists>c \<in> set (ip_cidrs rule). ip_in_cidr ip c)) \<or>
     (\<exists>pct. percentage rule = Some pct \<and> instance_id ctx \<noteq> [] \<and> fnv1a_hash (instance_id ctx) mod 100 < pct)"
  by (auto simp: rule_matches_def list_ex_iff split: option.splits)

lemma mod_100_less: "(w :: 32 word) mod 100 < 100"
  by (rule word_mod_less_divisor) simp

text \<open>Raising the percentage keeps every client that was in.\<close>

lemma rule_matches_percentage_mono:
  assumes "rule_matches rule ctx" "percentage rule = Some p" "p \<le> q"
  shows "rule_matches (rule\<lparr>percentage := Some q\<rparr>) ctx"
  using assms by (auto simp: rule_matches_iff)

lemma rule_matches_full_rollout:
  "percentage rule = Some 100 \<Longrightarrow> instance_id ctx \<noteq> [] \<Longrightarrow> rule_matches rule ctx"
  by (simp add: rule_matches_iff mod_100_less)

lemma resolve_version_cases:
  assumes "bm_get (view s) (branch_state_key p b) = Some (SBranch st)"
  shows "resolve_version s p b ctx = Inr
    (if gray_seq st \<noteq> 0 \<and> instance_id ctx \<noteq> [] \<and>
        (\<exists>rule. b_gray_rule st = Some rule \<and> rule_matches rule ctx)
     then Gray (gray_seq st) else Stable (active_version st))"
  using assms by (auto simp: resolve_version_def split: option.splits)

end
