(* ===== verification/Edits.thy ===== *)
theory Edits
  imports Versions
begin

text \<open>
  What a command does to the machine, seen as a sequence of buffered edits: a step relation whose
  steps save a record under a key of its type, delete a key that the buffer has not put, or delete
  a shared draft in the store. A footprint bounds the keys touched. By rule induction, edits keep
  the store well-typed, keep the buffer safe to flush and change no key outside the footprint;
  the lemmas on the operations show that each command is such a sequence.
\<close>

section \<open>Keys that are in the store\<close>

text \<open>A key and a value that a well-typed store may hold together.\<close>

definition entry_ok :: "string \<Rightarrow> sval \<Rightarrow> bool" where
  "entry_ok k v \<longleftrightarrow> (\<exists>sk. key_ok sk \<and> k = key_string sk \<and> typed sk v)"

lemma entry_okI: "key_ok sk \<Longrightarrow> typed sk v \<Longrightarrow> entry_ok (key_string sk) v"
  by (auto simp: entry_ok_def)

lemma store_wf_entry: "store_wf m \<longleftrightarrow> (\<forall>k v. bm_get m k = Some v \<longrightarrow> entry_ok k v)"
  by (simp add: store_wf_def entry_ok_def)

lemma store_wf_get: "store_wf m \<Longrightarrow> bm_get m k = Some v \<Longrightarrow> entry_ok k v"
  by (simp add: store_wf_entry)

lemma entry_okE:
  assumes "entry_ok k v"
  obtains sk where "key_ok sk" "k = key_string sk" "typed sk v" "segs k = key_segs sk"
  using assms by (auto simp: entry_ok_def segs_key_string)

text \<open>The type of the value fixes the kind of key, and with it that the names have no slash.\<close>

lemma segs_project_key: "segs (project_key p) = ''p'' # segs p"
  by (simp add: project_key_def K_PROJECT_def segs_heads [simplified])

lemma entry_ok_project: "entry_ok (project_key p) (SProject x) \<Longrightarrow> slash_free p \<and> p_id x = p \<and> p_name x = p"
proof (erule entry_okE)
  fix sk assume sk: "key_ok sk" "project_key p = key_string sk" "typed sk (SProject x)"
  then obtain q where q: "sk = KProject q" by (cases sk) auto
  then have "p = q" using sk(2) by (simp add: key_string.simps project_key_def)
  with sk q show ?thesis by simp
qed

lemma entry_ok_struct: "entry_ok (struct_key p) (SStruct x) \<Longrightarrow> slash_free p"
proof (erule entry_okE)
  fix sk assume sk: "key_ok sk" "struct_key p = key_string sk" "typed sk (SStruct x)"
  then obtain q where q: "sk = KStruct q" by (cases sk) auto
  then have "p = q" using sk(2) by (simp add: key_string.simps struct_key_def)
  with sk q show ?thesis by simp
qed

lemma segs_branch_state_key: "segs (branch_state_key p b) = ''p'' # segs p @ ''b'' # segs b @ [''state'']"
proof -
  have "branch_state_key p b = ''p'' @ CHR ''/'' # p @ CHR ''/'' # ''b'' @ CHR ''/'' # b @ CHR ''/'' # ''state''"
    by (simp add: branch_state_key_def key_defs)
  then show ?thesis
    by (simp only: segs_def split_all_append) (simp add: split_all_free)
qed

lemma segs_slash_free: "segs p = [x] \<Longrightarrow> slash_free p"
proof -
  assume "segs p = [x]"
  then have "join_all (CHR ''/'') [x] = p" by (metis join_split segs_def)
  then have "x = p" by simp
  moreover have "CHR ''/'' \<notin> set x" if "split_all (CHR ''/'') y = [x]" for y :: string and x
    using that by (induction y arbitrary: x) (auto split: if_splits list.splits)
  ultimately show ?thesis using \<open>segs p = [x]\<close> by (auto simp: slash_free_def segs_def)
qed

lemma entry_ok_state: "entry_ok (branch_state_key p b) (SBranch x) \<Longrightarrow> slash_free p \<and> slash_free b"
proof (erule entry_okE)
  fix sk
  assume sk: "key_ok sk" "typed sk (SBranch x)" "segs (branch_state_key p b) = key_segs sk"
  then obtain q c where q: "sk = KState q c" by (cases sk) auto
  have "segs p \<noteq> []" "segs b \<noteq> []" by (simp_all add: segs_def)
  then obtain x xs y ys where xy: "segs p = x # xs" "segs b = y # ys" by (meson list.exhaust)
  have "length xs + length ys = 0"
    using arg_cong [OF sk(3), of length] by (simp add: segs_branch_state_key q xy)
  then show ?thesis using xy by (auto intro: segs_slash_free)
qed

lemma entry_ok_shared: "entry_ok (shared_key k) (SShared x) \<Longrightarrow> slash_free k \<and> si_key x = k"
proof (erule entry_okE)
  fix sk assume sk: "key_ok sk" "shared_key k = key_string sk" "typed sk (SShared x)"
  then consider q where "sk = KShared q" | q where "sk = KSharedDraft q" by (cases sk) auto
  then show ?thesis
    using sk by cases (auto simp: key_string.simps shared_key_def shared_draft_key_def key_defs)
qed

lemma entry_ok_pa: "entry_ok (project_admin_key u) (SPa x) \<Longrightarrow> slash_free u \<and> pa_username x = u"
proof (erule entry_okE)
  fix sk assume sk: "key_ok sk" "project_admin_key u = key_string sk" "typed sk (SPa x)"
  then obtain q where q: "sk = KPaAccount q" by (cases sk) auto
  then have "u = q" using sk(2) by (simp add: key_string.simps project_admin_key_def)
  with sk q show ?thesis by simp
qed

lemma entry_ok_ga: "entry_ok (global_admin_key u) (SGa x) \<Longrightarrow> slash_free u \<and> ga_username x = u"
proof (erule entry_okE)
  fix sk assume sk: "key_ok sk" "global_admin_key u = key_string sk" "typed sk (SGa x)"
  then obtain q where q: "sk = KGaAccount q" by (cases sk) auto
  then have "u = q" using sk(2) by (simp add: key_string.simps global_admin_key_def)
  with sk q show ?thesis by simp
qed

text \<open>A session key stays one when its session changes, whatever the names in it.\<close>

lemma entry_ok_session: "entry_ok k (SSession x) \<Longrightarrow> entry_ok k (SSession y)"
proof (erule entry_okE)
  fix sk assume sk: "key_ok sk" "k = key_string sk" "typed sk (SSession x)"
  then have "typed sk (SSession y)" by (cases sk) auto
  with sk show ?thesis by (auto intro: entry_okI)
qed

lemma entry_ok_token: "entry_ok k (SToken x) \<Longrightarrow> tk_hash y = tk_hash x \<Longrightarrow> entry_ok k (SToken y)"
proof (erule entry_okE)
  fix sk assume sk: "key_ok sk" "k = key_string sk" "typed sk (SToken x)" and "tk_hash y = tk_hash x"
  then have "typed sk (SToken y)" by (cases sk) auto
  with sk show ?thesis by (auto intro: entry_okI)
qed

text \<open>The entries commands write.\<close>

lemma entry_oks:
  "slash_free p \<Longrightarrow> p_id x1 = p \<Longrightarrow> p_name x1 = p \<Longrightarrow> entry_ok (project_key p) (SProject x1)"
  "slash_free p \<Longrightarrow> entry_ok (struct_key p) (SStruct x2)"
  "slash_free p \<Longrightarrow> entry_ok (struct_draft_key p) (SStructDraft x3)"
  "slash_free p \<Longrightarrow> slash_free b \<Longrightarrow> entry_ok (branch_state_key p b) (SBranch x4)"
  "slash_free p \<Longrightarrow> slash_free b \<Longrightarrow> vr_no x5 = n \<Longrightarrow> entry_ok (version_key p b n) (SVersion x5)"
  "slash_free p \<Longrightarrow> slash_free b \<Longrightarrow> entry_ok (snapshot_key p b n) (SSnap x6)"
  "slash_free p \<Longrightarrow> slash_free b \<Longrightarrow> entry_ok (diff_key p b n) (SDiff x7)"
  "slash_free p \<Longrightarrow> slash_free b \<Longrightarrow> entry_ok (gray_snap_key p b n) (SSnap x6)"
  "slash_free k \<Longrightarrow> si_key x8 = k \<Longrightarrow> entry_ok (shared_key k) (SShared x8)"
  "slash_free k \<Longrightarrow> si_key x8 = k \<Longrightarrow> entry_ok (shared_draft_key k) (SShared x8)"
  "entry_ok session_key (SSession x9)"
  "entry_ok K_ADMIN_PW (SStr x10)"
  "slash_free sid \<Longrightarrow> entry_ok (session_key_with sid) (SSession x9)"
  "slash_free u \<Longrightarrow> entry_ok (pa_session_key u) (SSession x9)"
  "slash_free u \<Longrightarrow> slash_free sid \<Longrightarrow> entry_ok (pa_session_key_with u sid) (SSession x9)"
  "slash_free u \<Longrightarrow> slash_free sid \<Longrightarrow> entry_ok (ga_session_key_with u sid) (SSession x9)"
  "slash_free u \<Longrightarrow> pa_username x11 = u \<Longrightarrow> entry_ok (project_admin_key u) (SPa x11)"
  "slash_free u \<Longrightarrow> ga_username x12 = u \<Longrightarrow> entry_ok (global_admin_key u) (SGa x12)"
  "slash_free h \<Longrightarrow> tk_hash x13 = h \<Longrightarrow> entry_ok (data_token_key h) (SToken x13)"
  "au_seq x14 = n \<Longrightarrow> entry_ok (audit_key n) (SAudit x14)"
  "entry_ok K_AUDIT_SEQ (SNum x15)"
  "slash_free nm \<Longrightarrow> entry_ok (idx_pname nm) (SStr x10)"
  by (simp_all only: key_fold) (rule entry_okI; simp)+

section \<open>Edits\<close>

definition pending_keys :: "sm \<Rightarrow> string set" where
  "pending_keys s = op_key ` set (sm_pending s)"

inductive edits :: "(string \<Rightarrow> bool) \<Rightarrow> sm \<Rightarrow> sm \<Rightarrow> bool" for F s where
  none: "edits F s s"
| save: "edits F s t \<Longrightarrow> F k \<Longrightarrow> entry_ok k v \<Longrightarrow> edits F s (save_pending k v t)"
| delete: "edits F s t \<Longrightarrow> F k \<Longrightarrow> k \<notin> put_keys t \<Longrightarrow> edits F s (delete_pending k t)"
| direct: "edits F s t \<Longrightarrow> F k \<Longrightarrow> k \<notin> pending_keys t \<Longrightarrow> edits F s (store_delete k t)"

lemmas edits_intros = edits.none edits.save edits.delete

lemma edits_trans: "edits F t u \<Longrightarrow> edits F s t \<Longrightarrow> edits F s u"
  by (induction rule: edits.induct) (auto intro: edits.intros)

lemma edits_mono: "edits F s t \<Longrightarrow> (\<And>k. F k \<Longrightarrow> G k) \<Longrightarrow> edits G s t"
  by (induction rule: edits.induct) (auto intro: edits.intros)

lemma edits_nothing: "edits (\<lambda>k. False) s t \<Longrightarrow> t = s"
  by (induction rule: edits.induct) auto

text \<open>Deleting a key in the store that the buffer does not mention deletes it in the view.\<close>

lemma buf_view_delete:
  "k \<notin> op_key ` set ops \<Longrightarrow> buf_view (ms_delete st k) ops = bm_remove k (buf_view st ops)"
proof (induction ops rule: rev_induct)
  case (snoc u ops)
  then show ?case by (cases u) (auto intro!: bmap_eqI)
qed (simp add: ms_delete_def)

lemma view_direct: "k \<notin> pending_keys s \<Longrightarrow> view (store_delete k s) = bm_remove k (view s)"
  by (simp add: view_def store_delete_def pending_keys_def buf_view_delete)

lemma edits_frame: "edits F s t \<Longrightarrow> \<not> F k \<Longrightarrow> bm_get (view t) k = bm_get (view s) k"
  by (induction rule: edits.induct) (auto simp: view_direct)

lemma edits_wf: "edits F s t \<Longrightarrow> store_wf (view s) \<Longrightarrow> store_wf (view t)"
  by (induction rule: edits.induct) (auto simp: store_wf_entry view_direct split: if_splits)

lemma buf_safe_store_delete [simp]: "buf_safe (store_delete k s) = buf_safe s"
  by (simp add: buf_safe_def)

lemma edits_safe: "edits F s t \<Longrightarrow> buf_safe s \<Longrightarrow> buf_safe t"
  by (induction rule: edits.induct) (auto simp: buf_safe_delete buf_safe_store_delete)

lemma put_keys_direct [simp]: "put_keys (store_delete k s) = put_keys s"
  by (simp add: put_keys_def store_delete_def)

lemma edits_put_keys: "edits F s t \<Longrightarrow> k \<in> put_keys t \<Longrightarrow> F k \<or> k \<in> put_keys s"
  by (induction rule: edits.induct) auto

lemma edits_entry: "edits F s t \<Longrightarrow> store_wf (view s) \<Longrightarrow> bm_get (view t) k = Some v \<Longrightarrow> entry_ok k v"
  using edits_wf store_wf_get by blast

text \<open>Many edits in a row.\<close>

lemma edits_delete_rows:
  "edits F s t \<Longrightarrow> (\<And>k. k \<in> fst ` set rows \<Longrightarrow> F k \<and> k \<notin> put_keys t) \<Longrightarrow> edits F s (delete_rows rows t)"
  unfolding delete_rows_def
proof (induction rows arbitrary: t)
  case (Cons r rows)
  obtain k v where r: "r = (k, v)" by (cases r)
  have "edits F s (fold (\<lambda>(k, v). delete_pending k) rows (delete_pending k t))"
    using Cons.prems by (intro Cons.IH) (auto simp: r intro: edits.delete)
  then show ?case by (simp add: r)
qed simp

lemma edits_fold:
  assumes "\<And>x t. x \<in> set xs \<Longrightarrow> edits F s t \<Longrightarrow> edits F s (f x t)" "edits F s t"
  shows "edits F s (fold f xs t)"
  using assms by (induction xs arbitrary: t) auto

lemma edits_foldE:
  assumes "foldE f xs (t, ev) = Inr (u, ev')" "edits F s t"
    and "\<And>x t ev u ev'. x \<in> set xs \<Longrightarrow> edits F s t \<Longrightarrow> f x (t, ev) = Inr (u, ev') \<Longrightarrow> edits F s u"
  shows "edits F s u"
  using assms
proof (induction xs arbitrary: t ev)
  case (Cons x xs)
  obtain t1 ev1 where f: "f x (t, ev) = Inr (t1, ev1)" and rest: "foldE f xs (t1, ev1) = Inr (u, ev')"
    using Cons.prems(1) by auto
  have "edits F s t1" using Cons.prems(2,3) f by (meson list.set_intros(1))
  with rest show ?case using Cons.prems(3) by (intro Cons.IH) (auto, meson)
qed auto

section \<open>Writing a version\<close>

definition branch_area :: "project_id \<Rightarrow> branch_name \<Rightarrow> string \<Rightarrow> bool" where
  "branch_area p b = in_dir [''p'', p, ''b'', b]"

lemma branch_area_keys:
  assumes "slash_free p" "slash_free b"
  shows "branch_area p b (branch_state_key p b)" "branch_area p b (version_key p b n)"
    "branch_area p b (snapshot_key p b n)" "branch_area p b (diff_key p b n)"
    "branch_area p b (gray_snap_key p b n)"
  unfolding branch_area_def in_dir_def key_fold
  using assms by (simp_all add: segs_key_string)

lemma edits_write_version:
  assumes "edits F s t" "slash_free p" "slash_free b" "vr_no rec = vno" "\<And>k. branch_area p b k \<Longrightarrow> F k"
  shows "edits F s (write_version_snapshot p b vno old new rec t)"
  using assms
  by (auto simp: write_version_snapshot_def branch_area_keys intro!: edits.save entry_oks)

lemma put_keys_write_version:
  "put_keys (write_version_snapshot p b vno old new rec s) =
     (if is_checkpoint vno then {version_key p b vno, snapshot_key p b vno}
      else {version_key p b vno, diff_key p b vno}) \<union> put_keys s"
  by (auto simp: write_version_snapshot_def)

end
