(* ===== verification/Accounts.thy ===== *)
theory Accounts
  imports Edits
begin

text \<open>
  Sessions, accounts, access tokens and the audit log (\<open>state.rs\<close>): the readers and the commands
  on the \<open>sess/\<close>, \<open>adm/\<close>, \<open>tok/\<close> and \<open>audit/\<close> keys. A command returns the new machine and the
  events it publishes, or the error it fails with.
\<close>

type_synonym outcome = "(sm \<times> publish_event list) res"

definition done_with :: "sm \<Rightarrow> outcome" where
  "done_with s = Inr (s, [])"

section \<open>Names\<close>

definition to_lower :: "char \<Rightarrow> char" where
  "to_lower c = (if is_upper c then char_of (of_char c + 32 :: nat) else c)"

definition eq_ignore_ascii_case :: "string \<Rightarrow> string \<Rightarrow> bool" where
  "eq_ignore_ascii_case a b = (map to_lower a = map to_lower b)"

definition valid_account_username :: "string \<Rightarrow> bool" where
  "valid_account_username name =
     (name \<noteq> [] \<and> \<not> eq_ignore_ascii_case name ''admin'' \<and> length name \<le> 64 \<and>
      list_all (\<lambda>c. is_alnum c \<or> c = CHR ''_'' \<or> c = CHR ''-'') name \<and> length name \<ge> 2)"

definition valid_token_name :: "string \<Rightarrow> bool" where
  "valid_token_name name =
     (name \<noteq> [] \<and> length name \<le> 64 \<and>
      list_all (\<lambda>c. is_alnum c \<or> c = CHR ''.'' \<or> c = CHR ''_'' \<or> c = CHR ''-'') name)"

text \<open>\<open>chars().take(n)\<close> on UTF-8 bytes: a continuation byte belongs to the character before it.\<close>

fun utf8_take :: "nat \<Rightarrow> string \<Rightarrow> string" where
  "utf8_take n [] = []"
| "utf8_take n (c # s) =
     (if 128 \<le> (of_char c :: nat) \<and> (of_char c :: nat) < 192 then c # utf8_take n s
      else case n of 0 \<Rightarrow> [] | Suc m \<Rightarrow> c # utf8_take m s)"

definition operator_id :: "string \<Rightarrow> string" where
  "operator_id operator = (if operator = [] then ''admin'' else operator)"

section \<open>Readers\<close>

definition get_session :: "sm \<Rightarrow> admin_session option res" where
  "get_session s = load_merged as_session s session_key"

definition get_session_with :: "sm \<Rightarrow> string \<Rightarrow> admin_session option res" where
  "get_session_with s sid = load_merged as_session s (session_key_with sid)"

definition get_project_admin :: "sm \<Rightarrow> string \<Rightarrow> project_admin_account option res" where
  "get_project_admin s u = load_merged as_pa s (project_admin_key u)"

definition list_project_admins :: "sm \<Rightarrow> string \<Rightarrow> project_admin_account list" where
  "list_project_admins s p = sort_key pa_username
     (List.map_filter (\<lambda>(k, v). case as_pa v of None \<Rightarrow> None
        | Some a \<Rightarrow> if pa_project a = p then Some a else None) (get_prefix_merged s K_PA_ACCOUNT))"

definition get_pa_session :: "sm \<Rightarrow> string \<Rightarrow> admin_session option res" where
  "get_pa_session s u = load_merged as_session s (pa_session_key u)"

definition get_global_admin :: "sm \<Rightarrow> string \<Rightarrow> global_admin_account option res" where
  "get_global_admin s u = load_merged as_ga s (global_admin_key u)"

definition list_global_admins :: "sm \<Rightarrow> global_admin_account list" where
  "list_global_admins s = sort_key ga_username
     (List.map_filter (\<lambda>(k, v). as_ga v) (get_prefix_merged s K_GA_ACCOUNT))"

definition has_global_admins :: "sm \<Rightarrow> bool" where
  "has_global_admins s = (get_prefix_merged s K_GA_ACCOUNT \<noteq> [])"

definition get_ga_session_with :: "sm \<Rightarrow> string \<Rightarrow> string \<Rightarrow> admin_session option res" where
  "get_ga_session_with s u sid = load_merged as_session s (ga_session_key_with u sid)"

definition get_pa_session_with :: "sm \<Rightarrow> string \<Rightarrow> string \<Rightarrow> admin_session option res" where
  "get_pa_session_with s u sid = load_merged as_session s (pa_session_key_with u sid)"

definition list_admin_sessions :: "sm \<Rightarrow> admin_session list" where
  "list_admin_sessions s = List.map_filter (\<lambda>(k, v). as_session v) (get_prefix_merged s K_SESSION_PREFIX)"

definition get_admin_password_hash :: "sm \<Rightarrow> string option res" where
  "get_admin_password_hash s = load_merged as_str s K_ADMIN_PW"

definition get_data_token :: "sm \<Rightarrow> string \<Rightarrow> project_token option res" where
  "get_data_token s hash = load_merged as_token s (data_token_key hash)"

definition list_project_tokens :: "sm \<Rightarrow> project_id \<Rightarrow> project_token list" where
  "list_project_tokens s p = sort_key tk_created_at
     (List.map_filter (\<lambda>(k, v). case as_token v of None \<Rightarrow> None
        | Some t \<Rightarrow> if tk_project t = p then Some t else None) (get_prefix_merged s K_DATA_TOKEN))"

section \<open>The single administrator session\<close>

definition apply_session_login :: "string \<Rightarrow> int \<Rightarrow> int option \<Rightarrow> sm \<Rightarrow> outcome" where
  "apply_session_login token_hash issued_at expires_at s =
     bindE (get_session s) (\<lambda>r. case r of
       Some _ \<Rightarrow> Inl (err SessionInUse)
     | None \<Rightarrow> done_with (save_pending session_key (SSession
         \<lparr>as_token_hash = token_hash, as_issued_at = issued_at, as_expires_at = expires_at,
          as_device_id = ''cli'', as_principal = Admin\<rparr>) s))"

definition apply_session_logout :: "sm \<Rightarrow> outcome" where
  "apply_session_logout s = done_with (delete_pending session_key s)"

definition heartbeat :: "string \<Rightarrow> int option \<Rightarrow> sm \<Rightarrow> outcome" where
  "heartbeat key expires_at s =
     bindE (bindE (load_merged as_session s key) (ok_or (err SessionExpired))) (\<lambda>session.
       done_with (save_pending key (SSession (session\<lparr>as_expires_at := expires_at\<rparr>)) s))"

definition apply_session_heartbeat :: "int option \<Rightarrow> sm \<Rightarrow> outcome" where
  "apply_session_heartbeat expires_at s =
     bindE (bindE (get_session s) (ok_or (err SessionExpired))) (\<lambda>session.
       done_with (save_pending session_key (SSession (session\<lparr>as_expires_at := expires_at\<rparr>)) s))"

section \<open>Concurrent administrator sessions\<close>

definition apply_multi_session_login :: "string \<Rightarrow> int \<Rightarrow> int option \<Rightarrow> string \<Rightarrow> sm \<Rightarrow> outcome" where
  "apply_multi_session_login token_hash issued_at expires_at session_id s =
     done_with (save_pending (session_key_with session_id) (SSession
       \<lparr>as_token_hash = token_hash, as_issued_at = issued_at, as_expires_at = expires_at,
        as_device_id = ''cli'', as_principal = Admin\<rparr>) s)"

definition apply_multi_session_logout :: "string \<Rightarrow> sm \<Rightarrow> outcome" where
  "apply_multi_session_logout session_id s = done_with (delete_pending (session_key_with session_id) s)"

definition apply_multi_session_heartbeat :: "string \<Rightarrow> int option \<Rightarrow> sm \<Rightarrow> outcome" where
  "apply_multi_session_heartbeat session_id expires_at s =
     heartbeat (session_key_with session_id) expires_at s"

definition apply_multi_pa_session_login ::
  "string \<Rightarrow> string \<Rightarrow> int \<Rightarrow> int option \<Rightarrow> string \<Rightarrow> string \<Rightarrow> sm \<Rightarrow> outcome" where
  "apply_multi_pa_session_login username token_hash issued_at expires_at device_id session_id s =
     bindE (bindE (get_project_admin s username) (ok_or (err NotFound))) (\<lambda>a.
       done_with (save_pending (pa_session_key_with username session_id) (SSession
         \<lparr>as_token_hash = token_hash, as_issued_at = issued_at, as_expires_at = expires_at,
          as_device_id = device_id, as_principal = ProjectAdmin username (pa_project a)\<rparr>) s))"

definition apply_multi_pa_session_logout :: "string \<Rightarrow> string \<Rightarrow> sm \<Rightarrow> outcome" where
  "apply_multi_pa_session_logout username session_id s =
     done_with (delete_pending (pa_session_key_with username session_id) s)"

definition apply_multi_pa_session_heartbeat :: "string \<Rightarrow> string \<Rightarrow> int option \<Rightarrow> sm \<Rightarrow> outcome" where
  "apply_multi_pa_session_heartbeat username session_id expires_at s =
     heartbeat (pa_session_key_with username session_id) expires_at s"

text \<open>The old single key, then every key below the prefix.\<close>

definition delete_all_admin_sessions :: "sm \<Rightarrow> sm" where
  "delete_all_admin_sessions s =
     (let s1 = delete_pending session_key s in delete_rows (get_prefix_merged s1 K_SESSION_PREFIX) s1)"

definition delete_all_pa_sessions :: "string \<Rightarrow> sm \<Rightarrow> sm" where
  "delete_all_pa_sessions username s =
     (let s1 = delete_pending (pa_session_key username) s
      in delete_rows (get_prefix_merged s1 (pa_session_prefix username)) s1)"

definition delete_all_ga_sessions :: "string \<Rightarrow> sm \<Rightarrow> sm" where
  "delete_all_ga_sessions username s = delete_rows (get_prefix_merged s (ga_session_prefix username)) s"

definition apply_multi_session_logout_all :: "sm \<Rightarrow> outcome" where
  "apply_multi_session_logout_all s = done_with (delete_all_admin_sessions s)"

definition apply_multi_pa_session_logout_all :: "string \<Rightarrow> sm \<Rightarrow> outcome" where
  "apply_multi_pa_session_logout_all username s = done_with (delete_all_pa_sessions username s)"

section \<open>Project administrators\<close>

definition username_taken :: "string \<Rightarrow> sm \<Rightarrow> string \<Rightarrow> bool" where
  "username_taken prefix s username =
     list_ex (\<lambda>(k, v). case strip_prefix prefix k of None \<Rightarrow> False
       | Some u \<Rightarrow> eq_ignore_ascii_case u username) (get_prefix_merged s prefix)"

definition project_admin_username_taken :: "sm \<Rightarrow> string \<Rightarrow> bool" where
  "project_admin_username_taken = username_taken K_PA_ACCOUNT"

definition global_admin_username_taken :: "sm \<Rightarrow> string \<Rightarrow> bool" where
  "global_admin_username_taken = username_taken K_GA_ACCOUNT"

definition apply_project_admin_create ::
  "project_id \<Rightarrow> string \<Rightarrow> string \<Rightarrow> string \<Rightarrow> int \<Rightarrow> sm \<Rightarrow> outcome" where
  "apply_project_admin_create project username salt password_hash now_ms s =
     (if \<not> valid_account_username username then Inl (err Validation)
      else bindE (bindE (load as_project s (project_key project)) (ok_or (err NotFound))) (\<lambda>_.
        bindE (load as_pa s (project_admin_key username)) (\<lambda>existing.
          if existing \<noteq> None then Inl (err Conflict)
          else if global_admin_username_taken s username then Inl (err Conflict)
          else done_with (save_pending (project_admin_key username) (SPa
            \<lparr>pa_username = username, pa_project = project, pa_salt = salt,
             pa_password_hash = password_hash, pa_created_at = now_ms\<rparr>) s))))"

definition apply_project_admin_delete :: "string \<Rightarrow> sm \<Rightarrow> outcome" where
  "apply_project_admin_delete username s =
     bindE (bindE (load as_pa s (project_admin_key username)) (ok_or (err NotFound))) (\<lambda>_.
       done_with (delete_pending (project_admin_key username) (delete_all_pa_sessions username s)))"

definition apply_project_admin_set_password :: "string \<Rightarrow> string \<Rightarrow> string \<Rightarrow> sm \<Rightarrow> outcome" where
  "apply_project_admin_set_password username salt password_hash s =
     bindE (bindE (load as_pa s (project_admin_key username)) (ok_or (err NotFound))) (\<lambda>acct.
       done_with (delete_all_pa_sessions username
         (save_pending (project_admin_key username)
           (SPa (acct\<lparr>pa_salt := salt, pa_password_hash := password_hash\<rparr>)) s)))"

definition apply_pa_session_login ::
  "string \<Rightarrow> string \<Rightarrow> int \<Rightarrow> int option \<Rightarrow> string \<Rightarrow> sm \<Rightarrow> outcome" where
  "apply_pa_session_login username token_hash issued_at expires_at device_id s =
     bindE (load as_session s (pa_session_key username)) (\<lambda>existing.
       if existing \<noteq> None then Inl (err SessionInUse)
       else bindE (bindE (load as_pa s (project_admin_key username)) (ok_or (err NotFound))) (\<lambda>acct.
         done_with (save_pending (pa_session_key username) (SSession
           \<lparr>as_token_hash = token_hash, as_issued_at = issued_at, as_expires_at = expires_at,
            as_device_id = device_id, as_principal = ProjectAdmin username (pa_project acct)\<rparr>) s)))"

definition apply_pa_session_logout :: "string \<Rightarrow> sm \<Rightarrow> outcome" where
  "apply_pa_session_logout username s = done_with (delete_pending (pa_session_key username) s)"

definition apply_pa_session_heartbeat :: "string \<Rightarrow> int option \<Rightarrow> sm \<Rightarrow> outcome" where
  "apply_pa_session_heartbeat username expires_at s =
     bindE (bindE (load as_session s (pa_session_key username)) (ok_or (err SessionExpired))) (\<lambda>session.
       done_with (save_pending (pa_session_key username)
         (SSession (session\<lparr>as_expires_at := expires_at\<rparr>)) s))"

section \<open>Global administrators\<close>

definition apply_global_admin_create :: "string \<Rightarrow> string \<Rightarrow> string \<Rightarrow> int \<Rightarrow> sm \<Rightarrow> outcome" where
  "apply_global_admin_create username salt password_hash now_ms s =
     (if \<not> valid_account_username username then Inl (err Validation)
      else bindE (load as_ga s (global_admin_key username)) (\<lambda>existing.
        if existing \<noteq> None then Inl (err Conflict)
        else if project_admin_username_taken s username then Inl (err Conflict)
        else done_with (save_pending (global_admin_key username) (SGa
          \<lparr>ga_username = username, ga_salt = salt, ga_password_hash = password_hash,
           ga_created_at = now_ms\<rparr>) s)))"

definition apply_global_admin_delete :: "string \<Rightarrow> sm \<Rightarrow> outcome" where
  "apply_global_admin_delete username s =
     bindE (bindE (load as_ga s (global_admin_key username)) (ok_or (err NotFound))) (\<lambda>_.
       done_with (delete_all_ga_sessions username (delete_pending (global_admin_key username) s)))"

definition apply_global_admin_set_password :: "string \<Rightarrow> string \<Rightarrow> string \<Rightarrow> sm \<Rightarrow> outcome" where
  "apply_global_admin_set_password username salt password_hash s =
     bindE (bindE (load as_ga s (global_admin_key username)) (ok_or (err NotFound))) (\<lambda>acct.
       done_with (delete_all_ga_sessions username
         (save_pending (global_admin_key username)
           (SGa (acct\<lparr>ga_salt := salt, ga_password_hash := password_hash\<rparr>)) s)))"

definition apply_multi_ga_session_login ::
  "string \<Rightarrow> string \<Rightarrow> int \<Rightarrow> int option \<Rightarrow> string \<Rightarrow> string \<Rightarrow> sm \<Rightarrow> outcome" where
  "apply_multi_ga_session_login username token_hash issued_at expires_at device_id session_id s =
     bindE (bindE (get_global_admin s username) (ok_or (err NotFound))) (\<lambda>acct.
       done_with (save_pending (ga_session_key_with username session_id) (SSession
         \<lparr>as_token_hash = token_hash, as_issued_at = issued_at, as_expires_at = expires_at,
          as_device_id = device_id, as_principal = GlobalAdmin (ga_username acct)\<rparr>) s))"

definition apply_multi_ga_session_logout :: "string \<Rightarrow> string \<Rightarrow> sm \<Rightarrow> outcome" where
  "apply_multi_ga_session_logout username session_id s =
     done_with (delete_pending (ga_session_key_with username session_id) s)"

definition apply_multi_ga_session_heartbeat :: "string \<Rightarrow> string \<Rightarrow> int option \<Rightarrow> sm \<Rightarrow> outcome" where
  "apply_multi_ga_session_heartbeat username session_id expires_at s =
     heartbeat (ga_session_key_with username session_id) expires_at s"

definition apply_multi_ga_session_logout_all :: "string \<Rightarrow> sm \<Rightarrow> outcome" where
  "apply_multi_ga_session_logout_all username s = done_with (delete_all_ga_sessions username s)"

text \<open>The user names are read off the keys, not the records.\<close>

definition apply_global_admin_sessions_revoke_all :: "sm \<Rightarrow> outcome" where
  "apply_global_admin_sessions_revoke_all s = done_with
     (fold (\<lambda>(k, v) t. case strip_prefix K_GA_ACCOUNT k of
          None \<Rightarrow> t | Some u \<Rightarrow> delete_all_ga_sessions u t)
       (get_prefix_merged s K_GA_ACCOUNT) s)"

definition apply_admin_set_password :: "string \<Rightarrow> sm \<Rightarrow> outcome" where
  "apply_admin_set_password password_hash s = done_with (save_pending K_ADMIN_PW (SStr password_hash) s)"

section \<open>Access tokens\<close>

definition apply_project_token_create ::
  "project_id \<Rightarrow> string \<Rightarrow> string \<Rightarrow> string \<Rightarrow> int \<Rightarrow> sm \<Rightarrow> outcome" where
  "apply_project_token_create project name token_hash operator now_ms s =
     (if \<not> valid_token_name name then Inl (err Validation)
      else bindE (bindE (load as_project s (project_key project)) (ok_or (err NotFound))) (\<lambda>_.
        bindE (load as_token s (data_token_key token_hash)) (\<lambda>existing.
          if existing \<noteq> None then done_with s
          else if list_ex (\<lambda>(k, v). case as_token v of None \<Rightarrow> False
                 | Some rec \<Rightarrow> tk_project rec = project \<and> tk_name rec = name)
               (get_prefix_merged s K_DATA_TOKEN)
          then Inl (err Conflict)
          else done_with (save_pending (data_token_key token_hash) (SToken
            \<lparr>tk_id = utf8_take 16 token_hash, tk_name = name, tk_project = project,
             tk_hash = token_hash, tk_created_at = nat (max now_ms 0),
             tk_created_by = operator_id operator, tk_revoked = False\<rparr>) s))))"

definition apply_project_token_revoke :: "project_id \<Rightarrow> string \<Rightarrow> sm \<Rightarrow> outcome" where
  "apply_project_token_revoke project token_id s =
     (case find (\<lambda>(k, v). case as_token v of None \<Rightarrow> False
             | Some rec \<Rightarrow> tk_project rec = project \<and> tk_id rec = token_id)
           (get_prefix_merged s K_DATA_TOKEN) of
        None \<Rightarrow> Inl (err NotFound)
      | Some (key, _) \<Rightarrow>
          bindE (bindE (load as_token s key) (ok_or (err NotFound))) (\<lambda>rec.
            if tk_revoked rec then done_with s
            else done_with (save_pending key (SToken (rec\<lparr>tk_revoked := True\<rparr>)) s)))"

section \<open>Audit\<close>

definition apply_audit_append :: "audit_entry \<Rightarrow> sm \<Rightarrow> outcome" where
  "apply_audit_append entry s =
     bindE (load_merged as_num s K_AUDIT_SEQ) (\<lambda>prev.
       let seq = (case prev of None \<Rightarrow> 0 | Some n \<Rightarrow> n) + 1 in
       done_with (save_pending K_AUDIT_SEQ (SNum seq)
         (save_pending (audit_key seq) (SAudit (entry\<lparr>au_seq := seq\<rparr>)) s)))"

definition apply_rotate_master_key :: "sm \<Rightarrow> outcome" where
  "apply_rotate_master_key s = done_with s"

definition audit_matches :: "string option \<Rightarrow> string option \<Rightarrow> int option \<Rightarrow> audit_entry \<Rightarrow> bool" where
  "audit_matches action project since e =
     ((case action of None \<Rightarrow> True | Some a \<Rightarrow> au_action e = a) \<and>
      (case project of None \<Rightarrow> True | Some p \<Rightarrow> au_project e = Some p) \<and>
      (case since of None \<Rightarrow> True | Some t \<Rightarrow> t \<le> au_ts e))"

text \<open>The counter key and any key without a number are skipped; newest first.\<close>

definition get_audit :: "sm \<Rightarrow> string option \<Rightarrow> string option \<Rightarrow> int option \<Rightarrow> nat \<Rightarrow> audit_entry list" where
  "get_audit s action project since limit = take limit
     (sort_key (\<lambda>e. - int (au_seq e)) (List.map_filter (\<lambda>(k, v).
        case Option.bind (strip_prefix K_AUDIT k) parse_u64 of
          None \<Rightarrow> None
        | Some _ \<Rightarrow> (case as_audit v of None \<Rightarrow> None
            | Some e \<Rightarrow> if audit_matches action project since e then Some e else None))
      (get_prefix_merged s K_AUDIT)))"

definition audit_seqs :: "sm \<Rightarrow> nat list" where
  "audit_seqs s = sort (List.map_filter (\<lambda>(k, v). Option.bind (strip_prefix K_AUDIT k) parse_u64)
     (get_prefix_merged s K_AUDIT))"

definition prune_audit :: "nat \<Rightarrow> sm \<Rightarrow> nat \<times> sm" where
  "prune_audit keep s =
     (let seqs = audit_seqs s; total = length seqs in
      if total \<le> keep then (0, s)
      else let gone = take (total - keep) seqs
        in (length gone, fold (\<lambda>seq t. t\<lparr>sm_store := ms_delete (sm_store t) (audit_key seq)\<rparr>) gone s))"

section \<open>Footprints\<close>

text \<open>The keys the account commands may touch.\<close>

definition admin_area :: "string \<Rightarrow> bool" where
  "admin_area k = starts_with k K_SESSION"

definition pa_session_area :: "string \<Rightarrow> string \<Rightarrow> bool" where
  "pa_session_area u k = (k = pa_session_key u \<or> starts_with k (pa_session_prefix u))"

definition pa_area :: "string \<Rightarrow> string \<Rightarrow> bool" where
  "pa_area u k = (k = project_admin_key u \<or> pa_session_area u k)"

definition ga_session_area :: "string \<Rightarrow> string \<Rightarrow> bool" where
  "ga_session_area u k = starts_with k (ga_session_prefix u)"

definition ga_area :: "string \<Rightarrow> string \<Rightarrow> bool" where
  "ga_area u k = (k = global_admin_key u \<or> ga_session_area u k)"

definition token_area :: "string \<Rightarrow> bool" where
  "token_area k = starts_with k K_DATA_TOKEN"

definition audit_area :: "string \<Rightarrow> bool" where
  "audit_area k = starts_with k K_AUDIT"

named_theorems area_simps \<open>membership of keys in footprints\<close>

lemma areas [area_simps]:
  "admin_area session_key" "admin_area (session_key_with sid)" "admin_area K_ADMIN_PW"
  "pa_session_area u (pa_session_key u)" "pa_session_area u (pa_session_key_with u sid)"
  "pa_area u (project_admin_key u)" "pa_area u (pa_session_key u)" "pa_area u (pa_session_key_with u sid)"
  "ga_session_area u (ga_session_key_with u sid)"
  "ga_area u (global_admin_key u)" "ga_area u (ga_session_key_with u sid)"
  "token_area (data_token_key h)" "audit_area (audit_key n)" "audit_area K_AUDIT_SEQ"
  by (simp_all add: admin_area_def pa_session_area_def pa_area_def ga_session_area_def ga_area_def
      token_area_def audit_area_def key_defs)

lemma account_not_session:
  "\<not> pa_session_area v (project_admin_key u)" "\<not> ga_session_area v (global_admin_key u)"
  "pa_session_area u k \<Longrightarrow> pa_area u k" "ga_session_area u k \<Longrightarrow> ga_area u k"
  by (auto simp: pa_session_area_def ga_session_area_def pa_area_def ga_area_def key_defs)

section \<open>The commands are edits\<close>

lemma rows_keys: "k \<in> fst ` set (get_prefix_merged s q) \<longleftrightarrow> starts_with k q \<and> bm_get (view s) k \<noteq> None"
  by (simp add: get_prefix_merged_view ms_get_prefix_retain bm_keys_get split: option.splits)

lemma edits_delete_prefix:
  assumes "edits F s t" "\<And>k. starts_with k q \<Longrightarrow> F k" "\<And>k. k \<in> put_keys t \<Longrightarrow> \<not> starts_with k q"
  shows "edits F s (delete_rows (get_prefix_merged t q) t)"
  using assms by (intro edits_delete_rows) (auto simp: rows_keys)

lemma edits_delete_pa_sessions:
  assumes "edits F s t" "\<And>k. pa_session_area u k \<Longrightarrow> F k" "\<And>k. k \<in> put_keys t \<Longrightarrow> \<not> pa_session_area u k"
  shows "edits F s (delete_all_pa_sessions u t)"
  using assms unfolding delete_all_pa_sessions_def Let_def
  by (intro edits_delete_prefix edits.delete) (auto simp: pa_session_area_def)

lemma edits_delete_ga_sessions:
  assumes "edits F s t" "\<And>k. ga_session_area u k \<Longrightarrow> F k" "\<And>k. k \<in> put_keys t \<Longrightarrow> \<not> ga_session_area u k"
  shows "edits F s (delete_all_ga_sessions u t)"
  using assms unfolding delete_all_ga_sessions_def
  by (intro edits_delete_prefix) (auto simp: ga_session_area_def)

lemma put_keys_sessions [simp]:
  "put_keys (delete_all_pa_sessions u s) = put_keys s" "put_keys (delete_all_ga_sessions u s) = put_keys s"
  by (simp_all add: delete_all_pa_sessions_def delete_all_ga_sessions_def Let_def)

lemma session_entry: "load_merged as_session s k = Inr (Some x) \<Longrightarrow> store_wf (view s) \<Longrightarrow> entry_ok k (SSession y)"
  by (auto simp: load_merged_Some intro: entry_ok_session store_wf_get)

lemma edits_heartbeat:
  "heartbeat k e s = Inr (t, ev) \<Longrightarrow> store_wf (view s) \<Longrightarrow> F k \<Longrightarrow> edits F s t"
  by (auto simp: heartbeat_def done_with_def intro!: edits.save edits.none session_entry)

text \<open>The single and the concurrent administrator sessions.\<close>

lemma admin_session_edits:
  assumes "store_wf (view s)" "sm_pending s = []"
  shows "apply_session_login h i e s = Inr (t, ev) \<Longrightarrow> edits admin_area s t"
    and "apply_session_logout s = Inr (t, ev) \<Longrightarrow> edits admin_area s t"
    and "apply_session_heartbeat e s = Inr (t, ev) \<Longrightarrow> edits admin_area s t"
    and "slash_free sid \<Longrightarrow> apply_multi_session_login h i e sid s = Inr (t, ev) \<Longrightarrow> edits admin_area s t"
    and "apply_multi_session_logout sid s = Inr (t, ev) \<Longrightarrow> edits admin_area s t"
    and "apply_multi_session_heartbeat sid e s = Inr (t, ev) \<Longrightarrow> edits admin_area s t"
    and "apply_multi_session_logout_all s = Inr (t, ev) \<Longrightarrow> edits admin_area s t"
    and "apply_admin_set_password ph s = Inr (t, ev) \<Longrightarrow> edits admin_area s t"
proof -
  show "apply_session_login h i e s = Inr (t, ev) \<Longrightarrow> edits admin_area s t"
    by (auto simp: apply_session_login_def done_with_def area_simps intro!: edits_intros entry_oks
        split: option.splits)
  show "apply_session_logout s = Inr (t, ev) \<Longrightarrow> edits admin_area s t"
    using assms(2) by (auto simp: apply_session_logout_def done_with_def area_simps put_keys_start
        intro!: edits_intros)
  show "apply_session_heartbeat e s = Inr (t, ev) \<Longrightarrow> edits admin_area s t"
    by (auto simp: apply_session_heartbeat_def done_with_def area_simps intro!: edits_intros entry_oks)
  show "slash_free sid \<Longrightarrow> apply_multi_session_login h i e sid s = Inr (t, ev) \<Longrightarrow> edits admin_area s t"
    by (auto simp: apply_multi_session_login_def done_with_def area_simps intro!: edits_intros entry_oks)
  show "apply_multi_session_logout sid s = Inr (t, ev) \<Longrightarrow> edits admin_area s t"
    using assms(2) by (auto simp: apply_multi_session_logout_def done_with_def area_simps put_keys_start
        intro!: edits_intros)
  show "apply_multi_session_heartbeat sid e s = Inr (t, ev) \<Longrightarrow> edits admin_area s t"
    using assms(1) by (auto simp: apply_multi_session_heartbeat_def area_simps intro: edits_heartbeat)
  have below: "starts_with k K_SESSION_PREFIX \<Longrightarrow> admin_area k" for k
    by (auto simp: admin_area_def key_defs starts_with_iff)
  show "apply_multi_session_logout_all s = Inr (t, ev) \<Longrightarrow> edits admin_area s t"
    using assms(2) by (auto simp: apply_multi_session_logout_all_def delete_all_admin_sessions_def Let_def
        done_with_def area_simps put_keys_start below intro!: edits_delete_prefix edits_intros)
  show "apply_admin_set_password ph s = Inr (t, ev) \<Longrightarrow> edits admin_area s t"
    by (auto simp: apply_admin_set_password_def done_with_def area_simps intro!: edits_intros entry_oks)
qed

text \<open>Project administrators and their sessions.\<close>

lemma pa_edits:
  assumes "store_wf (view s)" "sm_pending s = []"
  shows "apply_multi_pa_session_login u h i e d sid s = Inr (t, ev) \<Longrightarrow> slash_free sid \<Longrightarrow> edits (pa_area u) s t"
    and "apply_multi_pa_session_logout u sid s = Inr (t, ev) \<Longrightarrow> edits (pa_area u) s t"
    and "apply_multi_pa_session_heartbeat u sid e s = Inr (t, ev) \<Longrightarrow> edits (pa_area u) s t"
    and "apply_multi_pa_session_logout_all u s = Inr (t, ev) \<Longrightarrow> edits (pa_area u) s t"
    and "apply_project_admin_create p u salt ph now s = Inr (t, ev) \<Longrightarrow> edits (pa_area u) s t"
    and "apply_project_admin_delete u s = Inr (t, ev) \<Longrightarrow> edits (pa_area u) s t"
    and "apply_project_admin_set_password u salt ph s = Inr (t, ev) \<Longrightarrow> edits (pa_area u) s t"
    and "apply_pa_session_login u h i e d s = Inr (t, ev) \<Longrightarrow> edits (pa_area u) s t"
    and "apply_pa_session_logout u s = Inr (t, ev) \<Longrightarrow> edits (pa_area u) s t"
    and "apply_pa_session_heartbeat u e s = Inr (t, ev) \<Longrightarrow> edits (pa_area u) s t"
proof -
  note basic = done_with_def area_simps account_not_session load_start [OF assms(2)] load_merged_Some
    put_keys_start [OF assms(2)]
  have acct: "slash_free u \<and> pa_username x = u" if "bm_get (view s) (project_admin_key u) = Some (SPa x)" for x
    using store_wf_get [OF assms(1) that] entry_ok_pa by blast
  have valid: "slash_free u" if "valid_account_username u"
    using that by (auto simp: valid_account_username_def slash_free_def list_all_iff is_alnum_def
        is_lower_def is_upper_def is_digit_def)
  show "apply_multi_pa_session_login u h i e d sid s = Inr (t, ev) \<Longrightarrow> slash_free sid \<Longrightarrow> edits (pa_area u) s t"
    using acct by (auto simp: apply_multi_pa_session_login_def get_project_admin_def basic
        intro!: edits_intros entry_oks)
  show "apply_multi_pa_session_logout u sid s = Inr (t, ev) \<Longrightarrow> edits (pa_area u) s t"
    by (auto simp: apply_multi_pa_session_logout_def basic intro!: edits_intros)
  show "apply_multi_pa_session_heartbeat u sid e s = Inr (t, ev) \<Longrightarrow> edits (pa_area u) s t"
    using assms(1) by (auto simp: apply_multi_pa_session_heartbeat_def area_simps intro: edits_heartbeat)
  show "apply_multi_pa_session_logout_all u s = Inr (t, ev) \<Longrightarrow> edits (pa_area u) s t"
    by (auto simp: apply_multi_pa_session_logout_all_def basic intro!: edits_delete_pa_sessions edits_intros)
  show "apply_project_admin_create p u salt ph now s = Inr (t, ev) \<Longrightarrow> edits (pa_area u) s t"
    using valid by (auto simp: apply_project_admin_create_def basic intro!: edits_intros entry_oks
        split: if_splits)
  show "apply_project_admin_delete u s = Inr (t, ev) \<Longrightarrow> edits (pa_area u) s t"
    by (auto simp: apply_project_admin_delete_def basic intro!: edits_delete_pa_sessions edits_intros)
  show "apply_project_admin_set_password u salt ph s = Inr (t, ev) \<Longrightarrow> edits (pa_area u) s t"
    using acct by (auto simp: apply_project_admin_set_password_def basic
        intro!: edits_delete_pa_sessions edits_intros entry_oks)
  show "apply_pa_session_login u h i e d s = Inr (t, ev) \<Longrightarrow> edits (pa_area u) s t"
    using acct by (auto simp: apply_pa_session_login_def basic intro!: edits_intros entry_oks split: if_splits)
  show "apply_pa_session_logout u s = Inr (t, ev) \<Longrightarrow> edits (pa_area u) s t"
    by (auto simp: apply_pa_session_logout_def basic intro!: edits_intros)
  show "apply_pa_session_heartbeat u e s = Inr (t, ev) \<Longrightarrow> edits (pa_area u) s t"
    using assms(1) by (auto simp: apply_pa_session_heartbeat_def basic
        intro!: edits_intros dest: store_wf_get intro: entry_ok_session)
qed

text \<open>Global administrators and their sessions.\<close>

lemma ga_edits:
  assumes "store_wf (view s)" "sm_pending s = []"
  shows "apply_global_admin_create u salt ph now s = Inr (t, ev) \<Longrightarrow> edits (ga_area u) s t"
    and "apply_global_admin_delete u s = Inr (t, ev) \<Longrightarrow> edits (ga_area u) s t"
    and "apply_global_admin_set_password u salt ph s = Inr (t, ev) \<Longrightarrow> edits (ga_area u) s t"
    and "apply_multi_ga_session_login u h i e d sid s = Inr (t, ev) \<Longrightarrow> slash_free sid \<Longrightarrow> edits (ga_area u) s t"
    and "apply_multi_ga_session_logout u sid s = Inr (t, ev) \<Longrightarrow> edits (ga_area u) s t"
    and "apply_multi_ga_session_heartbeat u sid e s = Inr (t, ev) \<Longrightarrow> edits (ga_area u) s t"
    and "apply_multi_ga_session_logout_all u s = Inr (t, ev) \<Longrightarrow> edits (ga_area u) s t"
proof -
  note basic = done_with_def area_simps account_not_session load_start [OF assms(2)] load_merged_Some
    put_keys_start [OF assms(2)]
  have acct: "slash_free u \<and> ga_username x = u" if "bm_get (view s) (global_admin_key u) = Some (SGa x)" for x
    using store_wf_get [OF assms(1) that] entry_ok_ga by blast
  have valid: "slash_free u" if "valid_account_username u"
    using that by (auto simp: valid_account_username_def slash_free_def list_all_iff is_alnum_def
        is_lower_def is_upper_def is_digit_def)
  show "apply_global_admin_create u salt ph now s = Inr (t, ev) \<Longrightarrow> edits (ga_area u) s t"
    using valid by (auto simp: apply_global_admin_create_def basic intro!: edits_intros entry_oks
        split: if_splits)
  show "apply_global_admin_delete u s = Inr (t, ev) \<Longrightarrow> edits (ga_area u) s t"
    by (auto simp: apply_global_admin_delete_def basic intro!: edits_delete_ga_sessions edits_intros)
  show "apply_global_admin_set_password u salt ph s = Inr (t, ev) \<Longrightarrow> edits (ga_area u) s t"
    using acct by (auto simp: apply_global_admin_set_password_def basic
        intro!: edits_delete_ga_sessions edits_intros entry_oks)
  show "apply_multi_ga_session_login u h i e d sid s = Inr (t, ev) \<Longrightarrow> slash_free sid \<Longrightarrow> edits (ga_area u) s t"
    using acct by (auto simp: apply_multi_ga_session_login_def get_global_admin_def basic
        intro!: edits_intros entry_oks)
  show "apply_multi_ga_session_logout u sid s = Inr (t, ev) \<Longrightarrow> edits (ga_area u) s t"
    by (auto simp: apply_multi_ga_session_logout_def basic intro!: edits_intros)
  show "apply_multi_ga_session_heartbeat u sid e s = Inr (t, ev) \<Longrightarrow> edits (ga_area u) s t"
    using assms(1) by (auto simp: apply_multi_ga_session_heartbeat_def area_simps intro: edits_heartbeat)
  show "apply_multi_ga_session_logout_all u s = Inr (t, ev) \<Longrightarrow> edits (ga_area u) s t"
    by (auto simp: apply_multi_ga_session_logout_all_def basic intro!: edits_delete_ga_sessions edits_intros)
qed

lemma revoke_all_edits:
  assumes "sm_pending s = []"
  shows "apply_global_admin_sessions_revoke_all s = Inr (t, ev) \<Longrightarrow> edits (\<lambda>k. starts_with k K_GA_SESSION) s t"
proof -
  let ?F = "\<lambda>k. starts_with k K_GA_SESSION"
  let ?f = "\<lambda>(k, v) t. case strip_prefix K_GA_ACCOUNT k of
      None \<Rightarrow> t | Some u \<Rightarrow> delete_all_ga_sessions u t"
  have area: "ga_session_area u k \<Longrightarrow> ?F k" for u k
    by (auto simp: ga_session_area_def key_defs starts_with_iff)
  have step: "edits ?F s (?f x u) \<and> put_keys (?f x u) = {}" if "edits ?F s u \<and> put_keys u = {}" for x u
    using that area by (auto split: option.splits prod.splits intro!: edits_delete_ga_sessions)
  have "edits ?F s (fold ?f rows s) \<and> put_keys (fold ?f rows s) = {}" for rows
    using put_keys_start [OF assms] step
    by (induction rows rule: rev_induct) (auto intro: edits.none)
  then show "apply_global_admin_sessions_revoke_all s = Inr (t, ev) \<Longrightarrow> edits ?F s t"
    by (auto simp: apply_global_admin_sessions_revoke_all_def done_with_def)
qed

text \<open>Tokens and the audit log.\<close>

lemma token_create_edits:
  assumes "sm_pending s = []" "slash_free h"
  shows "apply_project_token_create p name h op now s = Inr (t, ev) \<Longrightarrow> edits token_area s t"
  using assms by (auto simp: apply_project_token_create_def done_with_def area_simps
      intro!: edits_intros entry_oks split: if_splits)

lemma token_revoke_edits:
  assumes "store_wf (view s)" "sm_pending s = []"
  shows "apply_project_token_revoke p tid s = Inr (t, ev) \<Longrightarrow> edits token_area s t"
proof -
  assume "apply_project_token_revoke p tid s = Inr (t, ev)"
  then obtain k v where k: "find (\<lambda>(k, v). case as_token v of None \<Rightarrow> False
             | Some rec \<Rightarrow> tk_project rec = p \<and> tk_id rec = tid) (get_prefix_merged s K_DATA_TOKEN) = Some (k, v)"
    and t: "bindE (bindE (load as_token s k) (ok_or (err NotFound))) (\<lambda>rec.
            if tk_revoked rec then done_with s
            else done_with (save_pending k (SToken (rec\<lparr>tk_revoked := True\<rparr>)) s)) = Inr (t, ev)"
    by (auto simp: apply_project_token_revoke_def split: option.splits)
  have "token_area k"
    using k by (auto simp: find_Some_iff get_prefix_merged_view in_ms_get_prefix token_area_def
        dest: nth_mem)
  moreover have "entry_ok k (SToken (x\<lparr>tk_revoked := True\<rparr>))" if "bm_get (view s) k = Some (SToken x)" for x
    using store_wf_get [OF assms(1) that] by (auto intro: entry_ok_token)
  ultimately show "edits token_area s t"
    using t by (auto simp: done_with_def load_start [OF assms(2)] load_merged_Some
        intro!: edits_intros split: if_splits)
qed

lemma audit_edits: "apply_audit_append e s = Inr (t, ev) \<Longrightarrow> edits audit_area s t"
  by (auto simp: apply_audit_append_def done_with_def area_simps Let_def intro!: edits_intros entry_oks)

section \<open>Reading and clearing\<close>

lemma view_delete_prefix:
  "bm_get (view (delete_rows (get_prefix_merged s q) s)) k =
     (if starts_with k q then None else bm_get (view s) k)"
  by (simp add: view_delete_rows rows_keys)

lemma view_delete_pa_sessions:
  "bm_get (view (delete_all_pa_sessions u s)) k = (if pa_session_area u k then None else bm_get (view s) k)"
  by (simp add: delete_all_pa_sessions_def Let_def view_delete_prefix pa_session_area_def)

lemma view_delete_ga_sessions:
  "bm_get (view (delete_all_ga_sessions u s)) k = (if ga_session_area u k then None else bm_get (view s) k)"
  by (simp add: delete_all_ga_sessions_def view_delete_prefix ga_session_area_def)

lemma view_delete_admin_sessions:
  "bm_get (view (delete_all_admin_sessions s)) k =
     (if k = session_key \<or> starts_with k K_SESSION_PREFIX then None else bm_get (view s) k)"
  by (simp add: delete_all_admin_sessions_def Let_def view_delete_prefix)

text \<open>The accounts of a project, in a well-typed store.\<close>

lemma set_list_project_admins:
  assumes "store_wf (view s)"
  shows "a \<in> set (list_project_admins s p) \<longleftrightarrow>
    bm_get (view s) (project_admin_key (pa_username a)) = Some (SPa a) \<and> pa_project a = p"
proof -
  have "k = project_admin_key (pa_username a)" if k: "bm_get (view s) k = Some (SPa a)" for k
  proof -
    obtain sk where sk: "key_ok sk" "k = key_string sk" "typed sk (SPa a)"
      using entry_okE [OF store_wf_get [OF assms k]] by metis
    then show ?thesis by (cases sk) (auto simp: key_string.simps)
  qed
  moreover have pre: "starts_with (project_admin_key u) K_PA_ACCOUNT" for u
    by (simp add: project_admin_key_def)
  ultimately have only: "(k, SPa a) \<in> set (get_prefix_merged s K_PA_ACCOUNT) \<longleftrightarrow>
      k = project_admin_key (pa_username a) \<and> bm_get (view s) k = Some (SPa a)" for k
    unfolding get_prefix_merged_view in_ms_get_prefix using pre by blast
  have "a \<in> set (list_project_admins s p) \<longleftrightarrow>
      (\<exists>k. (k, SPa a) \<in> set (get_prefix_merged s K_PA_ACCOUNT)) \<and> pa_project a = p"
  proof -
    have "(case as_pa v of None \<Rightarrow> None | Some x \<Rightarrow> if pa_project x = p then Some x else None) = Some a
        \<longleftrightarrow> v = SPa a \<and> pa_project a = p" for v
      by (cases v) auto
    then show ?thesis
      by (simp add: list_project_admins_def set_map_filter case_prod_unfold del: decoders) (metis fst_conv snd_conv surj_pair)
  qed
  then show ?thesis by (simp add: only)
qed

end
