(* ===== verification/Project_Ops.thy ===== *)
theory Project_Ops
  imports Gray Accounts
begin

text \<open>
  Commands on projects, branches and structures (\<open>state.rs\<close>: \<open>apply_project_create\<close>,
  \<open>apply_project_delete\<close>, \<open>apply_branch_create\<close>, \<open>apply_branch_delete\<close>,
  \<open>apply_structure_draft_set\<close>, \<open>apply_publish_structure\<close>), and what each leaves in the view.
\<close>

section \<open>Names\<close>

definition slug :: "nat \<Rightarrow> string \<Rightarrow> bool" where
  "slug bound name =
     (name \<noteq> [] \<and> length name \<le> bound \<and>
      list_all (\<lambda>b. is_lower b \<or> is_digit b \<or> b = CHR ''-'') name \<and>
      hd name \<noteq> CHR ''-'' \<and> last name \<noteq> CHR ''-'')"

definition valid_name :: "string \<Rightarrow> bool" where
  "valid_name = slug MAX_PROJECT_NAME_BYTES"

definition valid_branch :: "string \<Rightarrow> bool" where
  "valid_branch = slug 64"

section \<open>Projects\<close>

text \<open>The groups a new project starts with: none, or those of the clone source, validated again.\<close>

definition clone_groups :: "string \<Rightarrow> string option \<Rightarrow> sm \<Rightarrow> group_def list res" where
  "clone_groups name clone_from s = (case clone_from of
     None \<Rightarrow> Inr []
   | Some src \<Rightarrow>
       if src = name then Inl (err Validation)
       else if \<not> valid_name src then Inl (err Validation)
       else bindE (bindE (get_structure s src) (ok_or (err Validation))) (\<lambda>src_struct.
         let errs = validate_structure src_struct in
         if errs \<noteq> [] then Inl (publish_blocked errs) else Inr (s_groups src_struct)))"

definition apply_project_create :: "string \<Rightarrow> int \<Rightarrow> string option \<Rightarrow> sm \<Rightarrow> outcome" where
  "apply_project_create name now_ms clone_from s =
     (if \<not> valid_name name then Inl (err Validation)
      else if length (list_projects s) \<ge> MAX_PROJECTS then Inl (err LimitExceeded)
      else bindE (get_project s name) (\<lambda>existing.
        if existing \<noteq> None then Inl (err Conflict)
        else bindE (clone_groups name clone_from s) (\<lambda>groups.
          let s1 = save_pending (project_key name)
                     (SProject \<lparr>p_id = name, p_name = name, p_created_at = now_ms\<rparr>) s;
              s2 = save_pending (idx_pname name) (SStr ''1'') s1;
              s3 = save_pending (struct_key name) (SStruct \<lparr>s_version = 1, s_groups = groups\<rparr>) s2
          in done_with (fold (\<lambda>b. save_pending (branch_state_key name b) (SBranch (branch_new 1)))
               [BRANCH_DEV, BRANCH_TEST, BRANCH_PROD] s3))))"

text \<open>
  The scan for the keys of a project uses \<open>p/{id}\<close> as its prefix, without a slash behind it.
\<close>

definition apply_project_delete :: "project_id \<Rightarrow> sm \<Rightarrow> outcome" where
  "apply_project_delete p s =
     bindE (bindE (get_project s p) (ok_or (err NotFound))) (\<lambda>project.
       let s1 = delete_rows (get_prefix_merged s (project_key p)) s;
           s2 = delete_pending (idx_pname (p_name project)) s1;
           s3 = fold (\<lambda>acct t. delete_pending (project_admin_key (pa_username acct))
                  (delete_all_pa_sessions (pa_username acct) t)) (list_project_admins s2 p) s2;
           gone = filter (\<lambda>(k, v). case as_token v of None \<Rightarrow> False | Some rec \<Rightarrow> tk_project rec = p)
                    (get_prefix_merged s3 K_DATA_TOKEN)
       in done_with (delete_rows gone s3))"

section \<open>Branches\<close>

text \<open>The items of a structure that take their value from the shared library.\<close>

definition shared_items :: "struct \<Rightarrow> (string \<times> string) list" where
  "shared_items st = concat (map (\<lambda>g. map (\<lambda>i. (g_name g, it_key i)) (filter it_shared (g_items g))) (s_groups st))"

definition draft_from_snapshot :: "(string \<times> string) list \<Rightarrow> int \<Rightarrow> snapshot \<Rightarrow> value_draft" where
  "draft_from_snapshot shared now_ms snap =
     bm_retain (\<lambda>g m. \<not> bm_is_empty m)
       (bm_map (\<lambda>g items. bm_map (\<lambda>k v. \<lparr>dv_value = v, dv_updated_at = now_ms\<rparr>)
          (bm_retain (\<lambda>k v. (g, k) \<notin> set shared) items)) snap)"

definition branch_from_source ::
  "project_id \<Rightarrow> branch_name \<Rightarrow> struct \<Rightarrow> int \<Rightarrow> sm \<Rightarrow> branch_state \<Rightarrow> branch_state res" where
  "branch_from_source p src structure now_ms s state =
     bindE (bindE (get_branch_state s p src) (ok_or (err Validation))) (\<lambda>src_state.
       if active_version src_state = 0 then Inl (err Validation)
       else bindE (snapshot_of s p src (active_version src_state)) (\<lambda>snap.
         Inr (state\<lparr>b_value_draft := draft_from_snapshot (shared_items structure) now_ms snap,
                    shared_bindings := shared_bindings src_state,
                    bindings_dirty := False\<rparr>)))"

definition apply_branch_create ::
  "project_id \<Rightarrow> branch_name \<Rightarrow> branch_name option \<Rightarrow> int \<Rightarrow> sm \<Rightarrow> outcome" where
  "apply_branch_create p name source now_ms s =
     (if \<not> valid_branch name then Inl (err Validation)
      else bindE (bindE (get_project s p) (ok_or (err NotFound))) (\<lambda>_.
        bindE (get_branch_state s p name) (\<lambda>existing.
          if existing \<noteq> None then Inl (err Conflict)
          else if length (list_branches s p) \<ge> MAX_BRANCHES_PER_PROJECT then Inl (err LimitExceeded)
          else bindE (get_structure s p) (\<lambda>found.
            let structure = (case found of None \<Rightarrow> \<lparr>s_version = 1, s_groups = []\<rparr> | Some x \<Rightarrow> x);
                state = branch_new (s_version structure)
            in bindE (case source of None \<Rightarrow> Inr state
                      | Some src \<Rightarrow> branch_from_source p src structure now_ms s state) (\<lambda>state.
                 done_with (save_pending (branch_state_key p name) (SBranch state) s))))))"

text \<open>
  The scan for the keys of a branch uses \<open>p/{id}/b/{branch}\<close> as its prefix, without a slash behind it.
\<close>

definition apply_branch_delete :: "project_id \<Rightarrow> branch_name \<Rightarrow> sm \<Rightarrow> outcome" where
  "apply_branch_delete p name s =
     bindE (bindE (get_branch_state s p name) (ok_or (err NotFound))) (\<lambda>st.
       if active_version st > 0 \<or> \<not> bm_is_empty (b_value_draft st) then Inl (err Conflict)
       else done_with (delete_rows (get_prefix_merged s (branch_prefix p name)) s))"

section \<open>Structures\<close>

definition apply_structure_draft_set :: "project_id \<Rightarrow> nat \<Rightarrow> group_def list \<Rightarrow> sm \<Rightarrow> outcome" where
  "apply_structure_draft_set p base_version groups s =
     bindE (bindE (get_structure s p) (ok_or (err NotFound))) (\<lambda>structure.
       if base_version \<noteq> s_version structure then Inl (err Conflict)
       else let errs = validate_structure \<lparr>s_version = base_version, s_groups = groups\<rparr> in
         if errs \<noteq> [] then Inl (publish_blocked errs)
         else done_with (save_pending (struct_draft_key p)
           (SStructDraft \<lparr>sd_base_version = base_version, sd_groups = groups\<rparr>) s))"

text \<open>The definition a structure gives an item: the last one listed, as an index built in order has it.\<close>

definition item_index :: "struct \<Rightarrow> item_def tree" where
  "item_index st = fold (\<lambda>g t. fold (\<lambda>i t. tree_insert (g_name g) (it_key i) i t) (g_items g) t)
     (s_groups st) bm_empty"

text \<open>
  The draft values that survive a structure: those of known items, without the shared ones. The first
  pass drops groups it empties, the second does not.
\<close>

definition retain_draft :: "struct \<Rightarrow> value_draft \<Rightarrow> value_draft" where
  "retain_draft st draft =
     bm_retain (\<lambda>g m. bm_has (item_index st) g \<and> \<not> bm_is_empty m)
       (bm_map (\<lambda>g m. bm_retain (\<lambda>k v. tree_get (item_index st) g k \<noteq> None) m) draft)"

definition drop_shared_values :: "struct \<Rightarrow> value_draft \<Rightarrow> value_draft" where
  "drop_shared_values st draft = fold (\<lambda>(g, k) d. case bm_get d g of
     None \<Rightarrow> d | Some m \<Rightarrow> bm_insert g (bm_remove k m) d) (shared_items st) draft"

text \<open>The type each shared item declares; a later item of the same name wins.\<close>

definition shared_types :: "struct \<Rightarrow> ((string \<times> string) \<times> value_type) list" where
  "shared_types st = concat (map (\<lambda>g. map (\<lambda>i. ((g_name g, it_key i), it_ty i)) (filter it_shared (g_items g))) (s_groups st))"

definition keep_binding :: "sm \<Rightarrow> struct \<Rightarrow> string \<Rightarrow> string \<Rightarrow> string \<Rightarrow> bool" where
  "keep_binding s st g k rk = (case map_of (rev (shared_types st)) (g, k) of
     None \<Rightarrow> False
   | Some ty \<Rightarrow> (case get_shared s rk of Inr (Some sh) \<Rightarrow> si_ty sh = ty | _ \<Rightarrow> False))"

definition retain_bindings :: "sm \<Rightarrow> struct \<Rightarrow> bindings \<Rightarrow> bindings" where
  "retain_bindings s st bs =
     bm_retain (\<lambda>g m. \<not> bm_is_empty m) (bm_map (\<lambda>g m. bm_retain (keep_binding s st g) m) bs)"

text \<open>One branch of a structure publish: the new version, the moved gray snapshot, the cleaned draft.\<close>

definition publish_structure_branch ::
  "project_id \<Rightarrow> string \<Rightarrow> string \<Rightarrow> int \<Rightarrow> string \<Rightarrow> struct \<Rightarrow> branch_name \<Rightarrow>
     sm \<times> publish_event list \<Rightarrow> (sm \<times> publish_event list) res" where
  "publish_structure_branch p comment request_id now_ms operator new_structure branch = (\<lambda>(s, events).
     bindE (bindE (get_branch_state s p branch) (ok_or (err Internal))) (\<lambda>st.
       let vno = next_monotonic (active_version st) (gray_seq st); gray_next = vno + 1 in
       bindE (active_snapshot s p branch st) (\<lambda>values.
         let record = \<lparr>vr_no = vno, vr_structure_version = s_version new_structure,
               vr_created_at = now_ms, vr_operator = operator_id operator, vr_comment = comment,
               vr_rollback_of = None, vr_kind = Full, vr_snapshot_ref = None, vr_diff_ref = None,
               vr_event_ty = Some StructurePublish, vr_gray = False\<rparr>;
             s1 = write_version_snapshot p branch vno values values record s;
             st1 = st\<lparr>active_version := vno, structure_version := s_version new_structure\<rparr> in
         bindE (if gray_seq st1 > 0
                then bindE (gray_snapshot_of s1 p branch (gray_seq st1)) (\<lambda>gray_snap.
                  Inr (delete_pending (gray_snap_key p branch (gray_seq st1))
                         (save_pending (gray_snap_key p branch gray_next) (SSnap gray_snap) s1),
                       st1\<lparr>gray_seq := gray_next\<rparr>))
                else Inr (s1, st1)) (\<lambda>(s2, st2).
           let st3 = st2\<lparr>b_value_draft := drop_shared_values new_structure
                           (retain_draft new_structure (b_value_draft st2)),
                         shared_bindings := retain_bindings s2 new_structure (shared_bindings st2)\<rparr>;
               s3 = save_pending (branch_state_key p branch) (SBranch st3) s2
           in Inr (s3, events @ [\<lparr>ev_project = p, ev_branch = branch, ev_version = vno,
                ev_ty = StructurePublish, ev_structure_version = s_version new_structure,
                ev_comment = comment, ev_request_id = request_id, ev_changes = [], ev_gray = False\<rparr>])))))"

definition apply_publish_structure ::
  "project_id \<Rightarrow> string \<Rightarrow> string \<Rightarrow> int \<Rightarrow> string \<Rightarrow> publish_policy \<Rightarrow> sm \<Rightarrow> outcome" where
  "apply_publish_structure p comment request_id now_ms operator policy s =
     bindE (bindE (get_structure s p) (ok_or (err NotFound))) (\<lambda>structure.
     bindE (bindE (get_structure_draft s p) (ok_or (err NoDraft))) (\<lambda>draft.
       if sd_base_version draft \<noteq> s_version structure then Inl (err Conflict)
       else let errs = validate_structure \<lparr>s_version = s_version structure, s_groups = sd_groups draft\<rparr> in
         if errs \<noteq> [] \<and> policy = Block then Inl (publish_blocked errs)
         else let new_structure = \<lparr>s_version = s_version structure + 1, s_groups = sd_groups draft\<rparr> in
           bindE (foldE (publish_structure_branch p comment request_id now_ms operator new_structure)
                    (list_branches s p) (s, [])) (\<lambda>(s1, events).
             Inr (delete_pending (struct_draft_key p)
                    (save_pending (struct_key p) (SStruct new_structure) s1), events))))"

section \<open>The commands are edits\<close>

lemma slug_slash_free: "slug n name \<Longrightarrow> slash_free name"
  by (auto simp: slug_def slash_free_def list_all_iff is_lower_def is_digit_def)

lemma valid_name_slash_free: "valid_name name \<Longrightarrow> slash_free name"
  by (simp add: valid_name_def slug_slash_free)

lemma valid_branch_slash_free: "valid_branch name \<Longrightarrow> slash_free name"
  by (simp add: valid_branch_def slug_slash_free)

lemma default_branches_slash_free [simp]:
  "slash_free BRANCH_DEV" "slash_free BRANCH_TEST" "slash_free BRANCH_PROD"
  by (simp_all add: BRANCH_DEV_def BRANCH_TEST_def BRANCH_PROD_def)

definition project_area :: "project_id \<Rightarrow> string \<Rightarrow> bool" where
  "project_area p k = (k = project_key p \<or> k = idx_pname p \<or> in_dir [''p'', p] k)"

lemma project_area_keys [area_simps]:
  "project_area p (project_key p)" "project_area p (idx_pname p)"
  "slash_free p \<Longrightarrow> project_area p (struct_key p)"
  "slash_free p \<Longrightarrow> project_area p (struct_draft_key p)"
  "slash_free p \<Longrightarrow> slash_free b \<Longrightarrow> project_area p (branch_state_key p b)"
  by (simp_all add: project_area_def)
     (simp_all only: key_fold in_dir_def segs_key_string key_ok.simps, simp_all)

lemma in_dir_prefix: "in_dir (xs @ ys) k \<Longrightarrow> in_dir xs k"
proof -
  assume dir: "in_dir (xs @ ys) k"
  then have "take (length xs) (take (length (xs @ ys)) (segs k)) = take (length xs) (xs @ ys)"
    by (simp add: in_dir_def)
  then show "in_dir xs k" using dir by (simp add: in_dir_def)
qed

lemma branch_area_project: "branch_area p b k \<Longrightarrow> project_area p k"
  using in_dir_prefix [of "[''p'', p]" "[''b'', b]" k] by (simp add: branch_area_def project_area_def)

lemma project_create_edits:
  assumes "apply_project_create name now clone s = Inr (t, ev)"
  shows "edits (project_area name) s t"
  using assms valid_name_slash_free [of name]
  by (auto simp: apply_project_create_def done_with_def Let_def area_simps intro!: edits_intros entry_oks
      split: if_splits)

lemma structure_draft_set_edits:
  assumes "apply_structure_draft_set p base groups s = Inr (t, ev)" "store_wf (view s)"
  shows "edits (project_area p) s t"
proof -
  have "slash_free p" if "bm_get (view s) (struct_key p) = Some (SStruct x)" for x
    using store_wf_get [OF assms(2) that] entry_ok_struct by blast
  then show ?thesis
    using assms(1) by (auto simp: apply_structure_draft_set_def done_with_def Let_def area_simps
        intro!: edits_intros entry_oks split: if_splits)
qed

lemma branch_create_edits:
  assumes "apply_branch_create p name source now s = Inr (t, ev)" "store_wf (view s)"
  shows "edits (branch_area p name) s t"
proof -
  have "slash_free p" if "bm_get (view s) (project_key p) = Some (SProject x)" for x
    using store_wf_get [OF assms(2) that] entry_ok_project by blast
  then show ?thesis
    using assms(1) valid_branch_slash_free [of name]
    by (auto simp: apply_branch_create_def done_with_def Let_def branch_area_keys
        intro!: edits_intros entry_oks split: if_splits)
qed

lemma branch_delete_edits:
  assumes "apply_branch_delete p name s = Inr (t, ev)" "sm_pending s = []"
  shows "edits (\<lambda>k. starts_with k (branch_prefix p name)) s t"
  using assms by (auto simp: apply_branch_delete_def done_with_def put_keys_start
      intro!: edits_delete_prefix edits_intros split: if_splits)

section \<open>Deleting a project\<close>

text \<open>The keys a deletion removes.\<close>

definition project_delete_area :: "sm \<Rightarrow> project_id \<Rightarrow> string \<Rightarrow> bool" where
  "project_delete_area s p k \<longleftrightarrow>
     starts_with k (project_key p) \<or> k = idx_pname p \<or>
     (\<exists>a \<in> set (list_project_admins s p). pa_area (pa_username a) k) \<or>
     (token_area k \<and> (\<exists>t. bm_get (view s) k = Some (SToken t) \<and> tk_project t = p))"

abbreviation drop_admins :: "project_admin_account list \<Rightarrow> sm \<Rightarrow> sm" where
  "drop_admins accts s \<equiv> fold (\<lambda>acct t. delete_pending (project_admin_key (pa_username acct))
     (delete_all_pa_sessions (pa_username acct) t)) accts s"

abbreviation token_rows :: "project_id \<Rightarrow> sm \<Rightarrow> (string \<times> sval) list" where
  "token_rows p s \<equiv> filter (\<lambda>(k, v). case as_token v of None \<Rightarrow> False | Some rec \<Rightarrow> tk_project rec = p)
     (get_prefix_merged s K_DATA_TOKEN)"

lemma token_rows_keys:
  "k \<in> fst ` set (token_rows p s) \<longleftrightarrow>
     token_area k \<and> (\<exists>r. bm_get (view s) k = Some (SToken r) \<and> tk_project r = p)"
  by (force simp: get_prefix_merged_view in_ms_get_prefix token_area_def split: option.splits)

lemma list_project_admins_cong:
  assumes "\<And>k. starts_with k K_PA_ACCOUNT \<Longrightarrow> bm_get (view t) k = bm_get (view s) k"
  shows "list_project_admins t p = list_project_admins s p"
proof -
  have "get_prefix_merged t K_PA_ACCOUNT = get_prefix_merged s K_PA_ACCOUNT"
    using assms unfolding get_prefix_merged_view ms_get_prefix_retain
    by (intro arg_cong [where f = bm_entries] bmap_eqI) (simp split: option.splits)
  then show ?thesis by (simp add: list_project_admins_def)
qed

lemma fold_clean:
  assumes "\<And>x t. x \<in> set xs \<Longrightarrow> edits F s t \<Longrightarrow> put_keys t = {} \<Longrightarrow> edits F s (f x t) \<and> put_keys (f x t) = {}"
    and "edits F s t" "put_keys t = {}"
  shows "edits F s (fold f xs t) \<and> put_keys (fold f xs t) = {}"
  using assms by (induction xs arbitrary: t) auto

lemma fold_delete_admins_view:
  "bm_get (view (drop_admins accts s)) k =
   (if \<exists>a \<in> set accts. pa_area (pa_username a) k then None else bm_get (view s) k)"
  by (induction accts arbitrary: s) (auto simp: view_delete_pa_sessions pa_area_def)

lemma fold_delete_admins_edits:
  assumes "edits F s t" "put_keys t = {}" "\<And>a k. a \<in> set accts \<Longrightarrow> pa_area (pa_username a) k \<Longrightarrow> F k"
  shows "edits F s (drop_admins accts t) \<and>
    put_keys (drop_admins accts t) = {}"
proof (rule fold_clean [OF _ assms(1,2)])
  fix a u assume a: "a \<in> set accts" and u: "edits F s u" "put_keys u = {}"
  show "edits F s (delete_pending (project_admin_key (pa_username a)) (delete_all_pa_sessions (pa_username a) u)) \<and>
      put_keys (delete_pending (project_admin_key (pa_username a)) (delete_all_pa_sessions (pa_username a) u)) = {}"
    using u assms(3) [OF a]
    by (auto simp: area_simps account_not_session intro!: edits.delete edits_delete_pa_sessions)
qed

lemma project_delete_steps:
  assumes "apply_project_delete p s = Inr (t, ev)" "sm_pending s = []" "store_wf (view s)"
  obtains x s2 s3 gone where
    "bm_get (view s) (project_key p) = Some (SProject x)" "p_name x = p" "slash_free p"
    "s2 = delete_pending (idx_pname p) (delete_rows (get_prefix_merged s (project_key p)) s)"
    "s3 = drop_admins (list_project_admins s p) s2"
    "gone = token_rows p s3"
    "t = delete_rows gone s3" "ev = []"
proof -
  obtain x where x: "bm_get (view s) (project_key p) = Some (SProject x)"
    using assms(1) by (auto simp: apply_project_delete_def)
  then have names: "p_name x = p" "slash_free p"
    using store_wf_get [OF assms(3) x] entry_ok_project by blast+
  let ?s2 = "delete_pending (idx_pname p) (delete_rows (get_prefix_merged s (project_key p)) s)"
  have "list_project_admins ?s2 p = list_project_admins s p"
    by (rule list_project_admins_cong) (auto simp: view_delete_prefix key_defs starts_with_iff)
  then show thesis
    using that [OF x names refl refl refl] assms(1) x names
    by (simp add: apply_project_delete_def done_with_def Let_def)
qed

lemma project_delete_view:
  assumes "apply_project_delete p s = Inr (t, ev)" "sm_pending s = []" "store_wf (view s)"
  shows "bm_get (view t) k = (if project_delete_area s p k then None else bm_get (view s) k)"
proof -
  obtain x s2 s3 gone where steps: "bm_get (view s) (project_key p) = Some (SProject x)"
    "p_name x = p" "slash_free p" "s2 = delete_pending (idx_pname p) (delete_rows (get_prefix_merged s (project_key p)) s)"
    "s3 = drop_admins (list_project_admins s p) s2"
    "gone = token_rows p s3" "t = delete_rows gone s3" "ev = []"
    by (rule project_delete_steps [OF assms])
  have s3: "bm_get (view s3) k = (if starts_with k (project_key p) \<or> k = idx_pname p \<or>
     (\<exists>a \<in> set (list_project_admins s p). pa_area (pa_username a) k) then None else bm_get (view s) k)" for k
    by (simp add: steps(4,5) fold_delete_admins_view view_delete_prefix)
  then show ?thesis
    unfolding steps(6,7) view_delete_rows token_rows_keys by (auto simp: project_delete_area_def)
qed

lemma project_delete_edits:
  assumes "apply_project_delete p s = Inr (t, ev)" "sm_pending s = []" "store_wf (view s)"
  shows "edits (project_delete_area s p) s t"
proof -
  obtain x s2 s3 gone where steps: "bm_get (view s) (project_key p) = Some (SProject x)"
    "p_name x = p" "slash_free p" "s2 = delete_pending (idx_pname p) (delete_rows (get_prefix_merged s (project_key p)) s)"
    "s3 = drop_admins (list_project_admins s p) s2"
    "gone = token_rows p s3" "t = delete_rows gone s3" "ev = []"
    by (rule project_delete_steps [OF assms])
  have none: "put_keys s = {}" using assms(2) by (rule put_keys_start)
  have "edits (project_delete_area s p) s s2"
    unfolding steps(4) using none
    by (intro edits.delete edits_delete_prefix edits.none) (auto simp: project_delete_area_def)
  moreover have "put_keys s2 = {}" using none by (simp add: steps(4))
  ultimately have s3: "edits (project_delete_area s p) s s3" "put_keys s3 = {}"
    using fold_delete_admins_edits [of "project_delete_area s p" s s2 "list_project_admins s p"]
    by (auto simp: steps(5) project_delete_area_def)
  have "project_delete_area s p k" if gone: "k \<in> fst ` set gone" for k
  proof -
    obtain r where "bm_get (view s3) k = Some (SToken r)" "tk_project r = p" "token_area k"
      using gone unfolding steps(6) token_rows_keys by blast
    moreover have "project_delete_area s p k \<or> bm_get (view s3) k = bm_get (view s) k"
      using edits_frame [OF s3(1)] by blast
    ultimately show ?thesis unfolding project_delete_area_def by metis
  qed
  then show ?thesis
    unfolding steps(7) using s3 by (intro edits_delete_rows) auto
qed

section \<open>Publishing a structure\<close>

lemma distinct_remdups_adj: "sorted xs \<Longrightarrow> distinct (remdups_adj xs)"
  by (induction xs rule: remdups_adj.induct) (auto dest: order_antisym)

lemma list_branches_props:
  "distinct (list_branches s p)" "b \<in> set (list_branches s p) \<Longrightarrow> slash_free b"
  by (auto simp: list_branches_def distinct_remdups_adj set_map_filter slash_free_def split_once_Some
      split: option.splits if_splits)

text \<open>Keys of one branch and of one project, without any condition on the names.\<close>

lemma branch_keys_distinct [simp]:
  "gray_snap_key p b m = gray_snap_key p b n \<longleftrightarrow> m = n"
  "gray_snap_key p b m \<noteq> version_key p b n" "gray_snap_key p b m \<noteq> snapshot_key p b n"
  "gray_snap_key p b m \<noteq> diff_key p b n" "gray_snap_key p b m \<noteq> branch_state_key p b"
  "version_key p b n \<noteq> branch_state_key p b" "snapshot_key p b n \<noteq> branch_state_key p b"
  "diff_key p b n \<noteq> branch_state_key p b"
  "struct_key p \<noteq> struct_draft_key p" "struct_draft_key p \<noteq> struct_key p"
  by (simp_all add: key_defs)

lemma branch_areas_disjoint:
  "branch_area p b k \<Longrightarrow> branch_area p' b' k \<Longrightarrow> p = p' \<and> b = b'"
  by (auto simp: branch_area_def in_dir_def)

lemma next_monotonic_gt: "next_monotonic a g > a" "next_monotonic a g > g"
  by (auto simp: next_monotonic_def)

lemma next_monotonic_neq [simp]:
  "Suc (next_monotonic a g) \<noteq> g" "g \<noteq> Suc (next_monotonic a g)" "Suc (next_monotonic a g) = g \<longleftrightarrow> False"
  by (auto simp: next_monotonic_def)

lemma structure_branch_edits:
  assumes "publish_structure_branch p comment rid now operator st b (t, ev) = Inr (u, ev')"
    and "slash_free p" "slash_free b" "\<And>k. k \<in> put_keys t \<Longrightarrow> \<not> branch_area p b k"
  shows "edits (branch_area p b) t u"
proof -
  note areas = branch_area_keys [OF assms(2,3)]
  have fresh: "gray_snap_key p b n \<notin> put_keys t" for n using assms(4) areas by blast
  show ?thesis
    using assms(1-3) fresh
    by (auto simp: publish_structure_branch_def Let_def areas put_keys_write_version
        intro!: edits_intros edits_write_version entry_oks split: if_splits)
qed

lemma structure_branches_edits:
  assumes "foldE (publish_structure_branch p comment rid now operator st) bs (t, ev) = Inr (u, ev')"
    and "slash_free p" "\<forall>b \<in> set bs. slash_free b" "distinct bs"
    and "\<And>k b. k \<in> put_keys t \<Longrightarrow> b \<in> set bs \<Longrightarrow> \<not> branch_area p b k"
  shows "edits (\<lambda>k. \<exists>b \<in> set bs. branch_area p b k) t u"
  using assms
proof (induction bs arbitrary: t ev)
  case (Cons b bs)
  obtain t1 ev1 where f: "publish_structure_branch p comment rid now operator st b (t, ev) = Inr (t1, ev1)"
    and rest: "foldE (publish_structure_branch p comment rid now operator st) bs (t1, ev1) = Inr (u, ev')"
    using Cons.prems(1) by auto
  have first: "edits (branch_area p b) t t1"
    using Cons.prems by (intro structure_branch_edits [OF f]) auto
  have "\<not> branch_area p c k" if "k \<in> put_keys t1" "c \<in> set bs" for k c
  proof
    assume c: "branch_area p c k"
    have "c \<in> set (b # bs)" "c \<noteq> b" using that(2) Cons.prems(4) by auto
    with c Cons.prems(5) have "k \<notin> put_keys t" by blast
    then have "branch_area p b k" using edits_put_keys [OF first that(1)] by blast
    then show False using branch_areas_disjoint [OF c] \<open>c \<noteq> b\<close> by blast
  qed
  moreover have "\<forall>b \<in> set bs. slash_free b" "distinct bs" using Cons.prems(3,4) by simp_all
  ultimately have "edits (\<lambda>k. \<exists>b \<in> set bs. branch_area p b k) t1 u"
    by (intro Cons.IH [OF rest Cons.prems(2)])
  then show ?case by (rule edits_trans [OF edits_mono edits_mono [OF first]]) simp_all
qed (auto intro: edits.none)

lemma publish_structure_edits:
  assumes "apply_publish_structure p comment rid now operator policy s = Inr (t, ev)"
    and "sm_pending s = []" "store_wf (view s)"
  shows "edits (project_area p) s t"
proof -
  obtain st new u ev' where st: "bm_get (view s) (struct_key p) = Some (SStruct st)"
    and fold: "foldE (publish_structure_branch p comment rid now operator new) (list_branches s p) (s, []) = Inr (u, ev')"
    and t: "t = delete_pending (struct_draft_key p) (save_pending (struct_key p) (SStruct new) u)"
    using assms(1) by (auto simp: apply_publish_structure_def Let_def split: if_splits)
  have p: "slash_free p" using store_wf_get [OF assms(3) st] entry_ok_struct by blast
  have branches: "edits (\<lambda>k. \<exists>b \<in> set (list_branches s p). branch_area p b k) s u"
    using list_branches_props put_keys_start [OF assms(2)]
    by (intro structure_branches_edits [OF fold p]) auto
  have "\<not> branch_area p b (struct_draft_key p)" for b
    using p by (simp add: branch_area_def in_dir_def key_fold segs_key_string)
  then have "struct_draft_key p \<notin> put_keys u"
    using edits_put_keys [OF branches] put_keys_start [OF assms(2)] by blast
  moreover have "edits (project_area p) s u"
    using branches by (rule edits_mono) (auto intro: branch_area_project)
  ultimately show ?thesis
    using p by (auto simp: t area_simps intro!: edits_intros entry_oks)
qed

end
