(* ===== verification/Publish_Ops.thy ===== *)
theory Publish_Ops
  imports Project_Ops
begin

text \<open>
  Commands that edit a draft and turn it into versions (\<open>state.rs\<close>: \<open>apply_draft_update\<close>,
  \<open>materialize_resolved\<close>, \<open>apply_publish\<close>, \<open>apply_rollback\<close>, \<open>apply_gray_publish\<close>,
  \<open>apply_gray_promote\<close>, \<open>apply_gray_abort\<close>).
\<close>

record draft_update_item =
  du_group :: string
  du_key :: string
  du_value :: val

record shared_binding =
  sb_group :: string
  sb_key :: string
  sb_shared_key :: string

section \<open>Editing the draft\<close>

definition draft_size :: "value_draft \<Rightarrow> nat" where
  "draft_size d = sum_list (map (\<lambda>(g, m). bm_len m) (bm_entries d))"

text \<open>
  The checks on one update. The draft itself is not changed in this loop, so an item that is listed
  twice counts twice.
\<close>

definition check_update ::
  "ext \<Rightarrow> item_def tree \<Rightarrow> value_draft \<Rightarrow> draft_update_item \<Rightarrow> nat \<Rightarrow> nat res" where
  "check_update E index draft u cnt =
     bindE (ok_or (err Validation) (tree_get index (du_group u) (du_key u))) (\<lambda>def.
       if it_shared def then Inl (err Validation)
       else if validate_value E def (du_value u) \<noteq> [] then Inl (err Validation)
       else if value_size E (du_value u) > MAX_VALUE_BYTES then Inl (err LimitExceeded)
       else if tree_get draft (du_group u) (du_key u) = None
       then (if cnt + 1 > MAX_ITEMS_PER_PROJECT then Inl (err LimitExceeded) else Inr (cnt + 1))
       else Inr cnt)"

text \<open>One binding: an empty shared key removes it; the flag records a change.\<close>

definition apply_binding ::
  "sm \<Rightarrow> item_def tree \<Rightarrow> shared_binding \<Rightarrow> bindings \<times> bool \<Rightarrow> (bindings \<times> bool) res" where
  "apply_binding s index b = (\<lambda>(bs, changed).
     bindE (ok_or (err Validation) (tree_get index (sb_group b) (sb_key b))) (\<lambda>def.
       if \<not> it_shared def then Inl (err Validation)
       else let cur = tree_get bs (sb_group b) (sb_key b) in
         if sb_shared_key b = [] then
           Inr (if cur = None then (bs, changed) else (tree_delete (sb_group b) (sb_key b) bs, True))
         else if \<not> valid_key_name (sb_shared_key b) then Inl (err Validation)
         else bindE (bindE (get_shared s (sb_shared_key b)) (ok_or (err Validation))) (\<lambda>shared.
           if si_ty shared \<noteq> it_ty def then Inl (err Validation)
           else Inr (tree_insert (sb_group b) (sb_key b) (sb_shared_key b) bs,
                     changed \<or> cur \<noteq> Some (sb_shared_key b)))))"

text \<open>A deleted item leaves its group in the draft, even when the group is then empty.\<close>

definition delete_draft_item :: "string \<times> string \<Rightarrow> value_draft \<Rightarrow> value_draft" where
  "delete_draft_item gk d = (case bm_get d (fst gk) of
     None \<Rightarrow> d | Some m \<Rightarrow> bm_insert (fst gk) (bm_remove (snd gk) m) d)"

definition set_draft_item :: "int \<Rightarrow> draft_update_item \<Rightarrow> value_draft \<Rightarrow> value_draft" where
  "set_draft_item now_ms u d =
     tree_insert (du_group u) (du_key u) \<lparr>dv_value = du_value u, dv_updated_at = now_ms\<rparr> d"

definition apply_draft_update ::
  "ext \<Rightarrow> project_id \<Rightarrow> branch_name \<Rightarrow> draft_update_item list \<Rightarrow> (string \<times> string) list \<Rightarrow>
     shared_binding list \<Rightarrow> int \<Rightarrow> nat option \<Rightarrow> sm \<Rightarrow> outcome" where
  "apply_draft_update E p branch updates deletes bindings now_ms expected_draft_rev s =
     bindE (bindE (get_branch_state s p branch) (ok_or (err NotFound))) (\<lambda>st.
       if (case expected_draft_rev of None \<Rightarrow> False | Some e \<Rightarrow> e \<noteq> draft_rev st)
       then Inl (err Conflict)
       else bindE (bindE (get_structure s p) (ok_or (err NotFound))) (\<lambda>structure.
         let index = item_index structure in
         bindE (foldE (check_update E index (b_value_draft st)) updates (draft_size (b_value_draft st))) (\<lambda>_.
         bindE (foldE (apply_binding s index) bindings (shared_bindings st, False)) (\<lambda>(bs, changed).
           let draft = fold (set_draft_item now_ms) updates (fold delete_draft_item deletes (b_value_draft st));
               st' = st\<lparr>b_value_draft := draft, draft_rev := draft_rev st + 1, shared_bindings := bs,
                       bindings_dirty := bindings_dirty st \<or> changed\<rparr>
           in done_with (save_pending (branch_state_key p branch) (SBranch st') s)))))"

section \<open>Materialising a draft\<close>

text \<open>A secret without a draft value keeps the one of the active version.\<close>

definition keep_secret :: "snapshot \<Rightarrow> string \<Rightarrow> item_def \<Rightarrow> value_draft \<Rightarrow> value_draft" where
  "keep_secret old g it d =
     (if it_shared it \<or> it_ty it \<noteq> TSecret then d
      else if tree_get d g (it_key it) \<noteq> None then d
      else (case tree_get old g (it_key it) of
              None \<Rightarrow> d
            | Some v \<Rightarrow> tree_insert g (it_key it) \<lparr>dv_value = v, dv_updated_at = 0\<rparr> d))"

definition fold_items :: "(string \<Rightarrow> item_def \<Rightarrow> 'a \<Rightarrow> 'a) \<Rightarrow> struct \<Rightarrow> 'a \<Rightarrow> 'a" where
  "fold_items f st a = fold (\<lambda>g. fold (f (g_name g)) (g_items g)) (s_groups st) a"

definition struct_items :: "struct \<Rightarrow> (string \<times> item_def) list" where
  "struct_items st = concat (map (\<lambda>g. map (\<lambda>i. (g_name g, i)) (g_items g)) (s_groups st))"

definition resolve_shared ::
  "sm \<Rightarrow> bindings \<Rightarrow> string \<times> item_def \<Rightarrow> snapshot \<times> verr list \<Rightarrow> (snapshot \<times> verr list) res" where
  "resolve_shared s bs gi acc = (case (gi, acc) of ((g, it), (resolved, errs)) \<Rightarrow>
     if \<not> it_shared it then Inr acc
     else (case tree_get bs g (it_key it) of
       None \<Rightarrow> Inr (resolved, errs @ [UnboundShared g (it_key it)])
     | Some rk \<Rightarrow> bindE (get_shared s rk) (\<lambda>found. case found of
         None \<Rightarrow> Inr (resolved, errs @ [DanglingShared g (it_key it) rk])
       | Some shared \<Rightarrow>
           if si_ty shared \<noteq> it_ty it then Inr (resolved, errs @ [SharedTypeMismatch g (it_key it) rk])
           else Inr (tree_insert g (it_key it) (si_value shared) resolved, errs))))"

definition draft_values :: "value_draft \<Rightarrow> snapshot" where
  "draft_values d = bm_map (\<lambda>g m. bm_map (\<lambda>k dv. dv_value dv) m) d"

definition materialize_resolved ::
  "ext \<Rightarrow> sm \<Rightarrow> branch_state \<Rightarrow> struct \<Rightarrow> snapshot \<Rightarrow> publish_policy \<Rightarrow> (snapshot \<times> verr list) res" where
  "materialize_resolved E s st structure old policy =
     (let draft_map = fold_items (keep_secret old) structure (b_value_draft st);
          errs = validate_publish E draft_map structure
      in bindE (foldE (resolve_shared s (shared_bindings st)) (struct_items structure)
                  (draft_values draft_map, errs)) (\<lambda>(resolved, errs).
           if errs \<noteq> [] \<and> policy = Block then Inl (publish_blocked errs) else Inr (resolved, errs)))"

section \<open>Publishing\<close>

definition new_record ::
  "nat \<Rightarrow> nat \<Rightarrow> int \<Rightarrow> string \<Rightarrow> string \<Rightarrow> nat option \<Rightarrow> event_type \<Rightarrow> bool \<Rightarrow> version_record" where
  "new_record vno sv now_ms operator comment rollback_of ty gray =
     \<lparr>vr_no = vno, vr_structure_version = sv, vr_created_at = now_ms, vr_operator = operator,
      vr_comment = comment, vr_rollback_of = rollback_of, vr_kind = Full, vr_snapshot_ref = None,
      vr_diff_ref = None, vr_event_ty = Some ty, vr_gray = gray\<rparr>"

definition new_event ::
  "project_id \<Rightarrow> branch_name \<Rightarrow> nat \<Rightarrow> event_type \<Rightarrow> nat \<Rightarrow> string \<Rightarrow> string \<Rightarrow> diff_entry list \<Rightarrow> bool
     \<Rightarrow> publish_event" where
  "new_event p b vno ty sv comment request_id changes gray =
     \<lparr>ev_project = p, ev_branch = b, ev_version = vno, ev_ty = ty, ev_structure_version = sv,
      ev_comment = comment, ev_request_id = request_id, ev_changes = changes, ev_gray = gray\<rparr>"

text \<open>Nothing to publish: an empty draft and no changed binding.\<close>

definition nothing_to_publish :: "branch_state \<Rightarrow> bool" where
  "nothing_to_publish st = (bm_is_empty (b_value_draft st) \<and> \<not> bindings_dirty st)"

definition apply_publish ::
  "ext \<Rightarrow> project_id \<Rightarrow> branch_name \<Rightarrow> string \<Rightarrow> string \<Rightarrow> int \<Rightarrow> string \<Rightarrow> publish_policy \<Rightarrow> sm \<Rightarrow> outcome" where
  "apply_publish E p branch comment request_id now_ms operator policy s =
     bindE (bindE (get_branch_state s p branch) (ok_or (err NotFound))) (\<lambda>st.
     bindE (bindE (get_structure s p) (ok_or (err NotFound))) (\<lambda>structure.
       if last_request_id st = Some request_id then done_with s
       else if nothing_to_publish st then Inl (err NoDraft)
       else bindE (active_snapshot s p branch st) (\<lambda>old.
         bindE (materialize_resolved E s st structure old policy) (\<lambda>(resolved, _).
           let diff = compute_diff old resolved; vno = active_version st + 1;
               record = new_record vno (s_version structure) now_ms (operator_id operator) comment None
                          ValuePublish False;
               s1 = write_version_snapshot p branch vno old resolved record s;
               st1 = st\<lparr>active_version := vno, last_request_id := Some request_id,
                       b_value_draft := bm_empty, bindings_dirty := False\<rparr>
           in Inr (save_pending (branch_state_key p branch) (SBranch st1) s1,
                   [new_event p branch vno ValuePublish (s_version structure) comment request_id diff False])))))"

definition apply_rollback ::
  "project_id \<Rightarrow> branch_name \<Rightarrow> nat \<Rightarrow> string \<Rightarrow> string \<Rightarrow> int \<Rightarrow> string \<Rightarrow> sm \<Rightarrow> outcome" where
  "apply_rollback p branch to_version comment request_id now_ms operator s =
     bindE (bindE (get_branch_state s p branch) (ok_or (err NotFound))) (\<lambda>st.
       if last_request_id st = Some request_id then done_with s
       else if to_version = 0 \<or> to_version \<ge> active_version st then Inl (err Validation)
       else bindE (snapshot_of s p branch to_version) (\<lambda>snap.
         bindE (active_snapshot s p branch st) (\<lambda>old.
           let diff = compute_diff old snap; vno = active_version st + 1;
               record = new_record vno (structure_version st) now_ms (operator_id operator) comment
                          (Some to_version) Rollback False;
               s1 = write_version_snapshot p branch vno old snap record s;
               st1 = st\<lparr>active_version := vno, last_request_id := Some request_id\<rparr>
           in Inr (save_pending (branch_state_key p branch) (SBranch st1) s1,
                   [new_event p branch vno Rollback (structure_version st) comment request_id diff False]))))"

section \<open>Gray release\<close>

definition apply_gray_publish ::
  "ext \<Rightarrow> project_id \<Rightarrow> branch_name \<Rightarrow> gray_rule \<Rightarrow> string \<Rightarrow> string \<Rightarrow> publish_policy \<Rightarrow> sm \<Rightarrow> outcome" where
  "apply_gray_publish E p branch rule comment request_id policy s =
     bindE (validate_gray_rule rule) (\<lambda>_.
     bindE (bindE (get_branch_state s p branch) (ok_or (err NotFound))) (\<lambda>st.
     bindE (bindE (get_structure s p) (ok_or (err NotFound))) (\<lambda>structure.
       if last_request_id st = Some request_id then done_with s
       else if nothing_to_publish st then Inl (err NoDraft)
       else bindE (active_snapshot s p branch st) (\<lambda>old.
         bindE (materialize_resolved E s st structure old policy) (\<lambda>(gray_snap, _).
           let diff = compute_diff old gray_snap; old_seq = gray_seq st; seq = old_seq + 1;
               s1 = save_pending (gray_snap_key p branch seq) (SSnap gray_snap) s;
               s2 = (if old_seq > 0 then delete_pending (gray_snap_key p branch old_seq) s1 else s1);
               st1 = st\<lparr>gray_seq := seq, b_gray_rule := Some rule, last_request_id := Some request_id,
                       b_value_draft := bm_empty, bindings_dirty := False\<rparr>
           in Inr (save_pending (branch_state_key p branch) (SBranch st1) s2,
                   [new_event p branch (active_version st) ValuePublish (s_version structure) comment
                      request_id diff True]))))))"

definition no_gray :: "branch_state \<Rightarrow> bool" where
  "no_gray st = (gray_seq st = 0 \<or> b_gray_rule st = None)"

definition apply_gray_promote ::
  "project_id \<Rightarrow> branch_name \<Rightarrow> string \<Rightarrow> string \<Rightarrow> int \<Rightarrow> string \<Rightarrow> sm \<Rightarrow> outcome" where
  "apply_gray_promote p branch comment request_id now_ms operator s =
     bindE (bindE (get_branch_state s p branch) (ok_or (err NotFound))) (\<lambda>st.
       if last_request_id st = Some request_id then done_with s
       else if no_gray st then Inl (err Validation)
       else bindE (gray_snapshot_of s p branch (gray_seq st)) (\<lambda>gray_snap.
         bindE (active_snapshot s p branch st) (\<lambda>old.
           let diff = compute_diff old gray_snap; vno = next_monotonic (active_version st) (gray_seq st);
               record = new_record vno (structure_version st) now_ms (operator_id operator) comment None
                          ValuePublish True;
               s1 = write_version_snapshot p branch vno old gray_snap record s;
               s2 = delete_pending (gray_snap_key p branch (gray_seq st)) s1;
               st1 = st\<lparr>active_version := vno, gray_seq := 0, b_gray_rule := None,
                       last_request_id := Some request_id\<rparr>
           in Inr (save_pending (branch_state_key p branch) (SBranch st1) s2,
                   [new_event p branch vno ValuePublish (structure_version st) comment request_id diff True]))))"

definition apply_gray_abort ::
  "project_id \<Rightarrow> branch_name \<Rightarrow> string \<Rightarrow> string \<Rightarrow> sm \<Rightarrow> outcome" where
  "apply_gray_abort p branch comment request_id s =
     bindE (bindE (get_branch_state s p branch) (ok_or (err NotFound))) (\<lambda>st.
       if last_request_id st = Some request_id then done_with s
       else if no_gray st then Inl (err Validation)
       else let s1 = delete_pending (gray_snap_key p branch (gray_seq st)) s;
                st1 = st\<lparr>gray_seq := 0, b_gray_rule := None, last_request_id := Some request_id\<rparr>
            in Inr (save_pending (branch_state_key p branch) (SBranch st1) s1,
                    [new_event p branch (active_version st) ValuePublish (structure_version st) comment
                       request_id [] True]))"

section \<open>The commands are edits of one branch\<close>

lemma branch_found:
  "store_wf (view s) \<Longrightarrow> bm_get (view s) (branch_state_key p b) = Some (SBranch st) \<Longrightarrow>
     slash_free p \<and> slash_free b"
  by (meson store_wf_get entry_ok_state)

lemma record_no [simp]: "vr_no (new_record vno sv now operator comment ro ty gray) = vno"
  by (simp add: new_record_def)

lemma draft_update_edits:
  assumes "apply_draft_update E p b updates deletes bindings now expected s = Inr (t, ev)" "store_wf (view s)"
  shows "edits (branch_area p b) s t"
  using assms branch_found [OF assms(2)]
  by (auto simp: apply_draft_update_def done_with_def Let_def branch_area_keys
      intro!: edits_intros entry_oks split: if_splits)

lemma publish_edits:
  assumes "apply_publish E p b comment rid now operator policy s = Inr (t, ev)" "store_wf (view s)"
  shows "edits (branch_area p b) s t"
  using assms branch_found [OF assms(2)]
  by (auto simp: apply_publish_def done_with_def Let_def branch_area_keys
      intro!: edits_intros edits_write_version entry_oks split: if_splits)

lemma rollback_edits:
  assumes "apply_rollback p b to comment rid now operator s = Inr (t, ev)" "store_wf (view s)"
  shows "edits (branch_area p b) s t"
  using assms branch_found [OF assms(2)]
  by (auto simp: apply_rollback_def done_with_def Let_def branch_area_keys
      intro!: edits_intros edits_write_version entry_oks split: if_splits)

lemma gray_publish_edits:
  assumes "apply_gray_publish E p b rule comment rid policy s = Inr (t, ev)" "store_wf (view s)"
    and "sm_pending s = []"
  shows "edits (branch_area p b) s t"
  using assms branch_found [OF assms(2)]
  by (auto simp: apply_gray_publish_def done_with_def Let_def branch_area_keys put_keys_start
      intro!: edits_intros entry_oks split: if_splits)

lemma gray_promote_edits:
  assumes "apply_gray_promote p b comment rid now operator s = Inr (t, ev)" "store_wf (view s)"
    and "sm_pending s = []"
  shows "edits (branch_area p b) s t"
  using assms branch_found [OF assms(2)]
  by (auto simp: apply_gray_promote_def done_with_def Let_def branch_area_keys put_keys_start
      put_keys_write_version intro!: edits_intros edits_write_version entry_oks split: if_splits)

lemma gray_abort_edits:
  assumes "apply_gray_abort p b comment rid s = Inr (t, ev)" "store_wf (view s)" "sm_pending s = []"
  shows "edits (branch_area p b) s t"
  using assms branch_found [OF assms(2)]
  by (auto simp: apply_gray_abort_def done_with_def Let_def branch_area_keys put_keys_start
      intro!: edits_intros entry_oks split: if_splits)

end
