(* ===== verification/Shared_Ops.thy ===== *)
theory Shared_Ops
  imports Publish_Ops
begin

text \<open>
  The shared library and its cascade (\<open>state.rs\<close>: \<open>apply_shared_draft_update\<close>,
  \<open>apply_shared_publish\<close>, \<open>cascade_to_branch\<close>, \<open>apply_shared_delete\<close>, \<open>shared_usage\<close>). Publishing
  deletes each shared draft in the store itself, not through the buffer, so the machine is returned
  with the error as well.
\<close>

definition apply_shared_draft_update :: "ext \<Rightarrow> shared_item \<Rightarrow> sm \<Rightarrow> outcome" where
  "apply_shared_draft_update E item s =
     (if si_key item = [] \<or> \<not> valid_key_name (si_key item) then Inl (err Validation)
      else if si_secret item \<and> si_ty item \<noteq> TSecret then Inl (err Validation)
      else if \<not> si_secret item \<and> si_ty item = TSecret then Inl (err Validation)
      else if shared_size E item > MAX_VALUE_BYTES then Inl (err LimitExceeded)
      else done_with (save_pending (shared_draft_key (si_key item)) (SShared item) s))"

definition list_shared_drafts :: "sm \<Rightarrow> shared_item list" where
  "list_shared_drafts s = sort_key si_key
     (List.map_filter (\<lambda>(k, v). as_shared v) (get_prefix_merged s K_SHARED_DRAFT))"

definition list_shared_published :: "sm \<Rightarrow> shared_item list" where
  "list_shared_published s = sort_key si_key
     (List.map_filter (\<lambda>(k, v). as_shared v) (get_prefix_merged s K_SHARED))"

definition get_shared_effective :: "sm \<Rightarrow> string \<Rightarrow> shared_item option res" where
  "get_shared_effective s k =
     bindE (load_merged as_shared s (shared_draft_key k)) (\<lambda>d. case d of
       Some item \<Rightarrow> Inr (Some item)
     | None \<Rightarrow> load_merged as_shared s (shared_key k))"

text \<open>Every place that binds the shared key: project, branch, group, item.\<close>

definition branch_usage :: "string \<Rightarrow> project_id \<Rightarrow> branch_name \<Rightarrow> branch_state \<Rightarrow>
    (project_id \<times> branch_name \<times> string \<times> string) list" where
  "branch_usage key p b st =
     map (\<lambda>(g, k, rk). (p, b, g, k)) (filter (\<lambda>(g, k, rk). rk = key) (tree_entries (shared_bindings st)))"

definition shared_usage :: "sm \<Rightarrow> string \<Rightarrow> (project_id \<times> branch_name \<times> string \<times> string) list res" where
  "shared_usage s key =
     foldE (\<lambda>p out. foldE (\<lambda>b out. bindE (get_branch_state s (p_id p) b) (\<lambda>found. case found of
          None \<Rightarrow> Inr out
        | Some st \<Rightarrow> Inr (out @ branch_usage key (p_id p) b st)))
       (list_branches s (p_id p)) out)
     (list_projects s) []"

definition cascade_to_branch ::
  "val \<Rightarrow> string \<Rightarrow> string \<Rightarrow> int \<Rightarrow> project_id \<times> branch_name \<times> string \<times> string \<Rightarrow>
     sm \<times> publish_event list \<Rightarrow> (sm \<times> publish_event list) res" where
  "cascade_to_branch v comment request_id now_ms use acc =
     (case (use, acc) of ((p, b, grp, key), (s, events)) \<Rightarrow>
     bindE (bindE (get_branch_state s p b) (ok_or (err Internal))) (\<lambda>st.
     bindE (active_snapshot s p b st) (\<lambda>old.
       let new_snap = tree_insert grp key v old; diff = compute_diff old new_snap;
           vno = active_version st + 1;
           record = new_record vno (structure_version st) now_ms ''shared'' comment None SharedCascade False;
           s1 = write_version_snapshot p b vno old new_snap record s
       in Inr (save_pending (branch_state_key p b) (SBranch (st\<lparr>active_version := vno\<rparr>)) s1,
               events @ [new_event p b vno SharedCascade (structure_version st) comment request_id diff False]))))"

text \<open>
  One draft: the published item with the next version number, the draft deleted in the store, and
  the cascade. The result carries the machine, with the outcome so far.
\<close>

definition shared_publish_item ::
  "string \<Rightarrow> string \<Rightarrow> int \<Rightarrow> cascade_mode \<Rightarrow> shared_item \<Rightarrow> sm \<times> publish_event list \<Rightarrow>
     sm \<times> (sm \<times> publish_event list) res" where
  "shared_publish_item comment request_id now_ms cascade item acc = (case acc of (s, events) \<Rightarrow>
     case get_shared s (si_key item) of
       Inl e \<Rightarrow> (s, Inl e)
     | Inr prev \<Rightarrow>
         let version = (case prev of None \<Rightarrow> 0 | Some q \<Rightarrow> si_version q) + 1;
             s1 = save_pending (shared_key (si_key item)) (SShared (item\<lparr>si_version := version\<rparr>)) s;
             s2 = store_delete (shared_draft_key (si_key item)) s1
         in (s2, if cascade = Manual then Inr (s2, events)
                 else bindE (shared_usage s2 (si_key item)) (\<lambda>uses.
                   foldE (cascade_to_branch (si_value item) comment request_id now_ms) uses (s2, events))))"

fun shared_publish_loop ::
  "string \<Rightarrow> string \<Rightarrow> int \<Rightarrow> cascade_mode \<Rightarrow> shared_item list \<Rightarrow> sm \<times> publish_event list \<Rightarrow>
     sm \<times> (publish_event list) res" where
  "shared_publish_loop comment request_id now_ms cascade [] (s, events) = (s, Inr events)"
| "shared_publish_loop comment request_id now_ms cascade (item # items) acc =
     (case shared_publish_item comment request_id now_ms cascade item acc of
        (s, Inl e) \<Rightarrow> (s, Inl e)
      | (s, Inr acc') \<Rightarrow> shared_publish_loop comment request_id now_ms cascade items acc')"

definition apply_shared_publish ::
  "string \<Rightarrow> string \<Rightarrow> int \<Rightarrow> cascade_mode \<Rightarrow> sm \<Rightarrow> sm \<times> (publish_event list) res" where
  "apply_shared_publish comment request_id now_ms cascade s =
     (let drafts = list_shared_drafts s in
      if drafts = [] then (s, Inl (err NoDraft))
      else shared_publish_loop comment request_id now_ms cascade drafts (s, []))"

definition apply_shared_delete :: "string \<Rightarrow> sm \<Rightarrow> outcome" where
  "apply_shared_delete key s =
     (if \<not> valid_key_name key then Inl (err Validation)
      else bindE (get_shared s key) (\<lambda>found. case found of
        None \<Rightarrow> done_with (delete_pending (shared_draft_key key) s)
      | Some _ \<Rightarrow> bindE (shared_usage s key) (\<lambda>refs.
          if refs \<noteq> [] then Inl (err Conflict)
          else done_with (delete_pending (shared_draft_key key) (delete_pending (shared_key key) s)))))"

section \<open>The commands are edits\<close>

definition shared_area :: "string \<Rightarrow> bool" where
  "shared_area k = (starts_with k K_SHARED \<or> starts_with k K_SHARED_DRAFT)"

text \<open>A publish reaches the branches that bind a published item.\<close>

definition shared_publish_area :: "string \<Rightarrow> bool" where
  "shared_publish_area k = (shared_area k \<or> (\<exists>p b. branch_area p b k))"

lemma shared_publish_area_cases: "shared_publish_area k \<Longrightarrow> shared_area k \<or> starts_with k K_PROJECT"
  using in_dir_prefix [of "[''p'']" _ k] by (auto simp: shared_publish_area_def branch_area_def scan_dirs)

lemma shared_area_keys [area_simps]: "shared_area (shared_key k)" "shared_area (shared_draft_key k)"
  by (simp_all add: shared_area_def shared_key_def shared_draft_key_def)

lemma shared_draft_update_edits:
  "apply_shared_draft_update E item s = Inr (t, ev) \<Longrightarrow> edits shared_area s t"
  by (auto simp: apply_shared_draft_update_def done_with_def area_simps valid_key_name_slash_free
      intro!: edits_intros entry_oks split: if_splits)

lemma shared_delete_edits:
  "apply_shared_delete key s = Inr (t, ev) \<Longrightarrow> sm_pending s = [] \<Longrightarrow> edits shared_area s t"
  by (auto simp: apply_shared_delete_def done_with_def area_simps put_keys_start
      intro!: edits_intros split: if_splits option.splits)

text \<open>
  During a publish the buffer holds no operation on a shared draft, so deleting one in the store
  shows in the view.
\<close>

definition no_draft_ops :: "sm \<Rightarrow> bool" where
  "no_draft_ops s \<longleftrightarrow> (\<forall>k \<in> pending_keys s. \<not> starts_with k K_SHARED_DRAFT)"

lemma no_draft_ops_simps [simp]:
  "no_draft_ops (save_pending k v s) \<longleftrightarrow> \<not> starts_with k K_SHARED_DRAFT \<and> no_draft_ops s"
  "no_draft_ops (store_delete k s) = no_draft_ops s"
  by (auto simp: no_draft_ops_def pending_keys_def save_pending_def put_pending_def store_delete_def)

lemma no_draft_ops_write_version [simp]:
  "no_draft_ops (write_version_snapshot p b vno old new rec s) = no_draft_ops s"
  by (simp add: write_version_snapshot_def key_defs)

lemma cascade_edits:
  assumes "cascade_to_branch v comment rid now use (t, ev) = Inr (u, ev')"
    and "store_wf (view t)" "no_draft_ops t"
  shows "edits shared_publish_area t u \<and> no_draft_ops u"
proof -
  obtain p b g key where use: "use = (p, b, g, key)" by (metis surj_pair)
  have state: "\<not> starts_with (branch_state_key p b) K_SHARED_DRAFT" by (simp add: key_defs)
  have "edits (branch_area p b) t u \<and> no_draft_ops u"
    using assms branch_found [OF assms(2)] state
    by (auto simp: cascade_to_branch_def use Let_def branch_area_keys intro!: edits_intros edits_write_version entry_oks)
  then show ?thesis using edits_mono shared_publish_area_def by blast
qed

lemma cascades_edits:
  assumes "foldE (cascade_to_branch v comment rid now) uses (t, ev) = Inr (u, ev')"
    and "store_wf (view t)" "no_draft_ops t"
  shows "edits shared_publish_area t u \<and> no_draft_ops u"
  using assms
proof (induction uses arbitrary: t ev)
  case (Cons use uses)
  obtain t1 ev1 where f: "cascade_to_branch v comment rid now use (t, ev) = Inr (t1, ev1)"
    and rest: "foldE (cascade_to_branch v comment rid now) uses (t1, ev1) = Inr (u, ev')"
    using Cons.prems(1) by auto
  note first = cascade_edits [OF f Cons.prems(2,3)]
  have "edits shared_publish_area t1 u \<and> no_draft_ops u"
    using first Cons.prems(2) by (intro Cons.IH [OF rest]) (auto intro: edits_wf)
  then show ?case using first edits_trans by blast
qed (simp add: edits.none)

lemma publish_item_edits:
  assumes "shared_publish_item comment rid now cascade item (t, ev) = (u, Inr (u', ev'))"
    and "store_wf (view t)" "no_draft_ops t" "slash_free (si_key item)"
  shows "edits shared_publish_area t u' \<and> no_draft_ops u'"
proof -
  define version where "version = (case get_shared t (si_key item) of Inr (Some q) \<Rightarrow> si_version q | _ \<Rightarrow> 0) + 1"
  define t1 where "t1 = save_pending (shared_key (si_key item)) (SShared (item\<lparr>si_version := version\<rparr>)) t"
  define t2 where "t2 = store_delete (shared_draft_key (si_key item)) t1"
  have "\<not> starts_with (shared_key (si_key item)) K_SHARED_DRAFT" by (simp add: key_defs)
  then have t1: "edits shared_publish_area t t1" "no_draft_ops t1"
    using assms(3,4)
    by (auto simp: t1_def shared_publish_area_def area_simps intro!: edits_intros entry_oks)
  then have "shared_draft_key (si_key item) \<notin> pending_keys t1"
    by (auto simp: no_draft_ops_def shared_draft_key_def)
  then have t2: "edits shared_publish_area t t2" "no_draft_ops t2"
    using t1 by (auto simp: t2_def shared_publish_area_def area_simps intro!: edits.direct)
  have "u' = t2 \<or> (\<exists>uses. foldE (cascade_to_branch (si_value item) comment rid now) uses (t2, ev) = Inr (u', ev'))"
    using assms(1) by (auto simp: shared_publish_item_def Let_def t2_def t1_def version_def
        split: sum.splits if_splits option.splits)
  then show ?thesis
    using t2 cascades_edits edits_wf [OF t2(1) assms(2)] edits_trans by metis
qed

lemma publish_loop_edits:
  assumes "shared_publish_loop comment rid now cascade items (t, ev) = (u, Inr ev')"
    and "store_wf (view t)" "no_draft_ops t" "\<forall>i \<in> set items. slash_free (si_key i)"
  shows "edits shared_publish_area t u"
  using assms
proof (induction items arbitrary: t ev)
  case (Cons i items)
  obtain u1 t1 ev1 where f: "shared_publish_item comment rid now cascade i (t, ev) = (u1, Inr (t1, ev1))"
    and rest: "shared_publish_loop comment rid now cascade items (t1, ev1) = (u, Inr ev')"
    using Cons.prems(1) by (auto split: prod.splits sum.splits)
  note first = publish_item_edits [OF f Cons.prems(2,3)]
  have "edits shared_publish_area t1 u"
    using first Cons.prems(2,4) by (intro Cons.IH [OF rest]) (auto intro: edits_wf)
  then show ?case using first Cons.prems(4) edits_trans by auto
qed (simp add: edits.none)

lemma drafts_slash_free:
  assumes "store_wf (view s)" "i \<in> set (list_shared_drafts s)"
  shows "slash_free (si_key i)"
proof -
  obtain k where "bm_get (view s) k = Some (SShared i)"
    using assms(2) by (auto simp: list_shared_drafts_def set_map_filter get_prefix_merged_view in_ms_get_prefix)
  then obtain sk where "key_ok sk" "typed sk (SShared i)"
    using assms(1) entry_okE store_wf_get by metis
  then show ?thesis by (cases sk) auto
qed

lemma shared_publish_edits:
  assumes "apply_shared_publish comment rid now cascade s = (t, Inr ev)" "store_wf (view s)" "sm_pending s = []"
  shows "edits shared_publish_area s t"
proof -
  have "no_draft_ops s" using assms(3) by (simp add: no_draft_ops_def pending_keys_def)
  then show ?thesis
    using assms drafts_slash_free [OF assms(2)]
    by (auto simp: apply_shared_publish_def Let_def intro: publish_loop_edits split: if_splits)
qed

end
