(* ===== verification/Command.thy ===== *)
theory Command
  imports Shared_Ops
begin

text \<open>
  The commands of the replicated log (\<open>command.rs\<close>) and their execution (\<open>apply\<close>, \<open>apply_inner\<close> of
  \<open>state.rs\<close>): a fresh buffer, the operation of the command, and a single flush if it succeeds.
\<close>

datatype (plugins only: code) command =
    ProjectCreate string string int "string option"
  | ProjectDelete project_id string
  | BranchCreate project_id branch_name "branch_name option" string int
  | BranchDelete project_id branch_name string
  | StructureDraftSet project_id nat "group_def list" string
  | PublishStructure project_id string string string int publish_policy
  | DraftUpdate project_id branch_name "draft_update_item list" "(string \<times> string) list"
      "shared_binding list" string int "nat option"
  | Publish project_id branch_name string string string int publish_policy
  | RollbackTo project_id branch_name nat string string string int
  | SharedDraftUpdate shared_item string
  | SharedPublish string string string int cascade_mode publish_policy
  | SharedDelete string string
  | SessionLogin string int "int option"
  | SessionLogout
  | SessionHeartbeat "int option"
  | ProjectAdminCreate project_id string string string int
  | ProjectAdminDelete string
  | ProjectAdminSetPassword string string string
  | PaSessionLogin string string int "int option" string
  | PaSessionLogout string
  | PaSessionHeartbeat string "int option"
  | AdminSetPassword string
  | MultiSessionLogin string int "int option" string
  | MultiSessionLogout string
  | MultiSessionHeartbeat string "int option"
  | MultiPaSessionLogin string string int "int option" string string
  | MultiPaSessionLogout string string
  | MultiPaSessionHeartbeat string string "int option"
  | MultiSessionLogoutAll
  | MultiPaSessionLogoutAll string
  | GlobalAdminCreate string string string int
  | GlobalAdminDelete string
  | GlobalAdminSetPassword string string string
  | MultiGaSessionLogin string string int "int option" string string
  | MultiGaSessionLogout string string
  | MultiGaSessionHeartbeat string string "int option"
  | MultiGaSessionLogoutAll string
  | GlobalAdminSessionsRevokeAll
  | AuditAppend audit_entry
  | RotateMasterKey "8 word list" "8 word list"
  | GrayPublish project_id branch_name gray_rule string string string int publish_policy
  | GrayPromote project_id branch_name string string string int
  | GrayAbort project_id branch_name string string string int
  | ProjectTokenCreate project_id string string string int
  | ProjectTokenRevoke project_id string

text \<open>The time carried by the command, or the one given to \<open>apply\<close> if it carries none.\<close>

definition eff_ts :: "int \<Rightarrow> int \<Rightarrow> int" where
  "eff_ts ts fallback = (if ts > 0 then ts else fallback)"

text \<open>An operation that only writes through the buffer leaves the store as it was when it fails.\<close>

definition buffered :: "(sm \<Rightarrow> outcome) \<Rightarrow> sm \<Rightarrow> sm \<times> (publish_event list) res" where
  "buffered f s = (case f s of Inl e \<Rightarrow> (s, Inl e) | Inr (t, events) \<Rightarrow> (t, Inr events))"

primrec apply_inner :: "ext \<Rightarrow> command \<Rightarrow> int \<Rightarrow> sm \<Rightarrow> sm \<times> (publish_event list) res" where
  "apply_inner E (ProjectCreate name operator ts clone_from) now_ms =
     buffered (apply_project_create name (eff_ts ts now_ms) clone_from)"
| "apply_inner E (ProjectDelete p operator) now_ms = buffered (apply_project_delete p)"
| "apply_inner E (BranchCreate p name source operator ts) now_ms =
     buffered (apply_branch_create p name source (eff_ts ts now_ms))"
| "apply_inner E (BranchDelete p name operator) now_ms = buffered (apply_branch_delete p name)"
| "apply_inner E (StructureDraftSet p base_version groups operator) now_ms =
     buffered (apply_structure_draft_set p base_version groups)"
| "apply_inner E (PublishStructure p comment request_id operator ts policy) now_ms =
     buffered (apply_publish_structure p comment request_id (eff_ts ts now_ms) operator policy)"
| "apply_inner E (DraftUpdate p b updates deletes bindings operator ts expected) now_ms =
     buffered (apply_draft_update E p b updates deletes bindings (eff_ts ts now_ms) expected)"
| "apply_inner E (Publish p b comment request_id operator ts policy) now_ms =
     buffered (apply_publish E p b comment request_id (eff_ts ts now_ms) operator policy)"
| "apply_inner E (RollbackTo p b to_version comment request_id operator ts) now_ms =
     buffered (apply_rollback p b to_version comment request_id (eff_ts ts now_ms) operator)"
| "apply_inner E (SharedDraftUpdate item operator) now_ms = buffered (apply_shared_draft_update E item)"
| "apply_inner E (SharedPublish comment request_id operator ts cascade policy) now_ms =
     apply_shared_publish comment request_id (eff_ts ts now_ms) cascade"
| "apply_inner E (SharedDelete key operator) now_ms = buffered (apply_shared_delete key)"
| "apply_inner E (SessionLogin token_hash issued_at expires_at) now_ms =
     buffered (apply_session_login token_hash issued_at expires_at)"
| "apply_inner E SessionLogout now_ms = buffered apply_session_logout"
| "apply_inner E (SessionHeartbeat expires_at) now_ms = buffered (apply_session_heartbeat expires_at)"
| "apply_inner E (ProjectAdminCreate p username salt password_hash ts) now_ms =
     buffered (apply_project_admin_create p username salt password_hash (eff_ts ts now_ms))"
| "apply_inner E (ProjectAdminDelete username) now_ms = buffered (apply_project_admin_delete username)"
| "apply_inner E (ProjectAdminSetPassword username salt password_hash) now_ms =
     buffered (apply_project_admin_set_password username salt password_hash)"
| "apply_inner E (PaSessionLogin username token_hash issued_at expires_at device_id) now_ms =
     buffered (apply_pa_session_login username token_hash issued_at expires_at device_id)"
| "apply_inner E (PaSessionLogout username) now_ms = buffered (apply_pa_session_logout username)"
| "apply_inner E (PaSessionHeartbeat username expires_at) now_ms =
     buffered (apply_pa_session_heartbeat username expires_at)"
| "apply_inner E (AdminSetPassword password_hash) now_ms = buffered (apply_admin_set_password password_hash)"
| "apply_inner E (MultiSessionLogin token_hash issued_at expires_at session_id) now_ms =
     buffered (apply_multi_session_login token_hash issued_at expires_at session_id)"
| "apply_inner E (MultiSessionLogout session_id) now_ms = buffered (apply_multi_session_logout session_id)"
| "apply_inner E (MultiSessionHeartbeat session_id expires_at) now_ms =
     buffered (apply_multi_session_heartbeat session_id expires_at)"
| "apply_inner E (MultiPaSessionLogin username token_hash issued_at expires_at device_id session_id) now_ms =
     buffered (apply_multi_pa_session_login username token_hash issued_at expires_at device_id session_id)"
| "apply_inner E (MultiPaSessionLogout username session_id) now_ms =
     buffered (apply_multi_pa_session_logout username session_id)"
| "apply_inner E (MultiPaSessionHeartbeat username session_id expires_at) now_ms =
     buffered (apply_multi_pa_session_heartbeat username session_id expires_at)"
| "apply_inner E MultiSessionLogoutAll now_ms = buffered apply_multi_session_logout_all"
| "apply_inner E (MultiPaSessionLogoutAll username) now_ms =
     buffered (apply_multi_pa_session_logout_all username)"
| "apply_inner E (GlobalAdminCreate username salt password_hash ts) now_ms =
     buffered (apply_global_admin_create username salt password_hash (eff_ts ts now_ms))"
| "apply_inner E (GlobalAdminDelete username) now_ms = buffered (apply_global_admin_delete username)"
| "apply_inner E (GlobalAdminSetPassword username salt password_hash) now_ms =
     buffered (apply_global_admin_set_password username salt password_hash)"
| "apply_inner E (MultiGaSessionLogin username token_hash issued_at expires_at device_id session_id) now_ms =
     buffered (apply_multi_ga_session_login username token_hash issued_at expires_at device_id session_id)"
| "apply_inner E (MultiGaSessionLogout username session_id) now_ms =
     buffered (apply_multi_ga_session_logout username session_id)"
| "apply_inner E (MultiGaSessionHeartbeat username session_id expires_at) now_ms =
     buffered (apply_multi_ga_session_heartbeat username session_id expires_at)"
| "apply_inner E (MultiGaSessionLogoutAll username) now_ms =
     buffered (apply_multi_ga_session_logout_all username)"
| "apply_inner E GlobalAdminSessionsRevokeAll now_ms = buffered apply_global_admin_sessions_revoke_all"
| "apply_inner E (AuditAppend entry) now_ms = buffered (apply_audit_append entry)"
| "apply_inner E (RotateMasterKey kek kek_enc) now_ms = buffered apply_rotate_master_key"
| "apply_inner E (GrayPublish p b rule comment request_id operator ts policy) now_ms =
     buffered (apply_gray_publish E p b rule comment request_id policy)"
| "apply_inner E (GrayPromote p b comment request_id operator ts) now_ms =
     buffered (apply_gray_promote p b comment request_id (eff_ts ts now_ms) operator)"
| "apply_inner E (GrayAbort p b comment request_id operator ts) now_ms =
     buffered (apply_gray_abort p b comment request_id)"
| "apply_inner E (ProjectTokenCreate p name token_hash operator ts) now_ms =
     buffered (apply_project_token_create p name token_hash operator (eff_ts ts now_ms))"
| "apply_inner E (ProjectTokenRevoke p token_id) now_ms = buffered (apply_project_token_revoke p token_id)"

definition clear_pending :: "sm \<Rightarrow> sm" where
  "clear_pending s = s\<lparr>sm_pending := []\<rparr>"

definition apply_command :: "ext \<Rightarrow> command \<Rightarrow> int \<Rightarrow> sm \<Rightarrow> sm \<times> (publish_event list) res" where
  "apply_command E cmd now_ms s =
     (case apply_inner E cmd now_ms (clear_pending s) of
        (t, Inr events) \<Rightarrow> (flush_pending t, Inr events)
      | (t, Inl e) \<Rightarrow> (clear_pending t, Inl e))"

section \<open>Every command is a sequence of edits within its footprint\<close>

text \<open>
  What a command carries that the API has checked or made: token hashes and session ids are
  hexadecimal text, so they have no slash.
\<close>

primrec cmd_ok :: "command \<Rightarrow> bool" where
  "cmd_ok (ProjectCreate name operator ts clone_from) = True"
| "cmd_ok (ProjectDelete p operator) = True"
| "cmd_ok (BranchCreate p name source operator ts) = True"
| "cmd_ok (BranchDelete p name operator) = True"
| "cmd_ok (StructureDraftSet p base_version groups operator) = True"
| "cmd_ok (PublishStructure p comment request_id operator ts policy) = True"
| "cmd_ok (DraftUpdate p b updates deletes bindings operator ts expected) = True"
| "cmd_ok (Publish p b comment request_id operator ts policy) = True"
| "cmd_ok (RollbackTo p b to_version comment request_id operator ts) = True"
| "cmd_ok (SharedDraftUpdate item operator) = True"
| "cmd_ok (SharedPublish comment request_id operator ts cascade policy) = True"
| "cmd_ok (SharedDelete key operator) = True"
| "cmd_ok (SessionLogin token_hash issued_at expires_at) = True"
| "cmd_ok SessionLogout = True"
| "cmd_ok (SessionHeartbeat expires_at) = True"
| "cmd_ok (ProjectAdminCreate p username salt password_hash ts) = True"
| "cmd_ok (ProjectAdminDelete username) = True"
| "cmd_ok (ProjectAdminSetPassword username salt password_hash) = True"
| "cmd_ok (PaSessionLogin username token_hash issued_at expires_at device_id) = True"
| "cmd_ok (PaSessionLogout username) = True"
| "cmd_ok (PaSessionHeartbeat username expires_at) = True"
| "cmd_ok (AdminSetPassword password_hash) = True"
| "cmd_ok (MultiSessionLogin token_hash issued_at expires_at session_id) = slash_free session_id"
| "cmd_ok (MultiSessionLogout session_id) = True"
| "cmd_ok (MultiSessionHeartbeat session_id expires_at) = True"
| "cmd_ok (MultiPaSessionLogin username token_hash issued_at expires_at device_id session_id) =
     slash_free session_id"
| "cmd_ok (MultiPaSessionLogout username session_id) = True"
| "cmd_ok (MultiPaSessionHeartbeat username session_id expires_at) = True"
| "cmd_ok MultiSessionLogoutAll = True"
| "cmd_ok (MultiPaSessionLogoutAll username) = True"
| "cmd_ok (GlobalAdminCreate username salt password_hash ts) = True"
| "cmd_ok (GlobalAdminDelete username) = True"
| "cmd_ok (GlobalAdminSetPassword username salt password_hash) = True"
| "cmd_ok (MultiGaSessionLogin username token_hash issued_at expires_at device_id session_id) =
     slash_free session_id"
| "cmd_ok (MultiGaSessionLogout username session_id) = True"
| "cmd_ok (MultiGaSessionHeartbeat username session_id expires_at) = True"
| "cmd_ok (MultiGaSessionLogoutAll username) = True"
| "cmd_ok GlobalAdminSessionsRevokeAll = True"
| "cmd_ok (AuditAppend entry) = True"
| "cmd_ok (RotateMasterKey kek kek_enc) = True"
| "cmd_ok (GrayPublish p b rule comment request_id operator ts policy) = True"
| "cmd_ok (GrayPromote p b comment request_id operator ts) = True"
| "cmd_ok (GrayAbort p b comment request_id operator ts) = True"
| "cmd_ok (ProjectTokenCreate p name token_hash operator ts) = slash_free token_hash"
| "cmd_ok (ProjectTokenRevoke p token_id) = True"

text \<open>The keys a command may touch.\<close>

primrec cmd_area :: "sm \<Rightarrow> command \<Rightarrow> string \<Rightarrow> bool" where
  "cmd_area s (ProjectCreate name operator ts clone_from) = project_area name"
| "cmd_area s (ProjectDelete p operator) = project_delete_area s p"
| "cmd_area s (BranchCreate p name source operator ts) = branch_area p name"
| "cmd_area s (BranchDelete p name operator) = (\<lambda>k. starts_with k (branch_prefix p name))"
| "cmd_area s (StructureDraftSet p base_version groups operator) = project_area p"
| "cmd_area s (PublishStructure p comment request_id operator ts policy) = project_area p"
| "cmd_area s (DraftUpdate p b updates deletes bindings operator ts expected) = branch_area p b"
| "cmd_area s (Publish p b comment request_id operator ts policy) = branch_area p b"
| "cmd_area s (RollbackTo p b to_version comment request_id operator ts) = branch_area p b"
| "cmd_area s (SharedDraftUpdate item operator) = shared_area"
| "cmd_area s (SharedPublish comment request_id operator ts cascade policy) = shared_publish_area"
| "cmd_area s (SharedDelete key operator) = shared_area"
| "cmd_area s (SessionLogin token_hash issued_at expires_at) = admin_area"
| "cmd_area s SessionLogout = admin_area"
| "cmd_area s (SessionHeartbeat expires_at) = admin_area"
| "cmd_area s (ProjectAdminCreate p username salt password_hash ts) = pa_area username"
| "cmd_area s (ProjectAdminDelete username) = pa_area username"
| "cmd_area s (ProjectAdminSetPassword username salt password_hash) = pa_area username"
| "cmd_area s (PaSessionLogin username token_hash issued_at expires_at device_id) = pa_area username"
| "cmd_area s (PaSessionLogout username) = pa_area username"
| "cmd_area s (PaSessionHeartbeat username expires_at) = pa_area username"
| "cmd_area s (AdminSetPassword password_hash) = admin_area"
| "cmd_area s (MultiSessionLogin token_hash issued_at expires_at session_id) = admin_area"
| "cmd_area s (MultiSessionLogout session_id) = admin_area"
| "cmd_area s (MultiSessionHeartbeat session_id expires_at) = admin_area"
| "cmd_area s (MultiPaSessionLogin username token_hash issued_at expires_at device_id session_id) =
     pa_area username"
| "cmd_area s (MultiPaSessionLogout username session_id) = pa_area username"
| "cmd_area s (MultiPaSessionHeartbeat username session_id expires_at) = pa_area username"
| "cmd_area s MultiSessionLogoutAll = admin_area"
| "cmd_area s (MultiPaSessionLogoutAll username) = pa_area username"
| "cmd_area s (GlobalAdminCreate username salt password_hash ts) = ga_area username"
| "cmd_area s (GlobalAdminDelete username) = ga_area username"
| "cmd_area s (GlobalAdminSetPassword username salt password_hash) = ga_area username"
| "cmd_area s (MultiGaSessionLogin username token_hash issued_at expires_at device_id session_id) =
     ga_area username"
| "cmd_area s (MultiGaSessionLogout username session_id) = ga_area username"
| "cmd_area s (MultiGaSessionHeartbeat username session_id expires_at) = ga_area username"
| "cmd_area s (MultiGaSessionLogoutAll username) = ga_area username"
| "cmd_area s GlobalAdminSessionsRevokeAll = (\<lambda>k. starts_with k K_GA_SESSION)"
| "cmd_area s (AuditAppend entry) = audit_area"
| "cmd_area s (RotateMasterKey kek kek_enc) = (\<lambda>k. False)"
| "cmd_area s (GrayPublish p b rule comment request_id operator ts policy) = branch_area p b"
| "cmd_area s (GrayPromote p b comment request_id operator ts) = branch_area p b"
| "cmd_area s (GrayAbort p b comment request_id operator ts) = branch_area p b"
| "cmd_area s (ProjectTokenCreate p name token_hash operator ts) = token_area"
| "cmd_area s (ProjectTokenRevoke p token_id) = token_area"

lemma buffered_Inr [simp]: "buffered f s = (t, Inr ev) \<longleftrightarrow> f s = Inr (t, ev)"
  by (auto simp: buffered_def split: sum.splits)

lemma rotate_edits: "apply_rotate_master_key s = Inr (t, ev) \<Longrightarrow> edits F s t"
  by (auto simp: apply_rotate_master_key_def done_with_def intro: edits.none)

lemmas op_edits =
  project_create_edits project_delete_edits branch_create_edits branch_delete_edits
  structure_draft_set_edits publish_structure_edits draft_update_edits publish_edits rollback_edits
  shared_draft_update_edits shared_publish_edits shared_delete_edits admin_session_edits pa_edits
  ga_edits revoke_all_edits audit_edits rotate_edits gray_publish_edits gray_promote_edits
  gray_abort_edits token_create_edits token_revoke_edits

lemma apply_inner_edits:
  assumes "apply_inner E c now s = (t, Inr ev)" "store_wf (view s)" "sm_pending s = []" "cmd_ok c"
  shows "edits (cmd_area s c) s t"
  using assms by (cases c) (simp_all, (rule op_edits; assumption)+)

section \<open>What a command does to the store\<close>

lemma clear_pending_simps [simp]:
  "sm_pending (clear_pending s) = []" "sm_store (clear_pending s) = sm_store s"
  "view (clear_pending s) = sm_store s"
  by (simp_all add: clear_pending_def view_def)

lemma apply_command_Inr:
  "apply_command E c now s = (t, Inr ev) \<longleftrightarrow>
     (\<exists>u. apply_inner E c now (clear_pending s) = (u, Inr ev) \<and> t = flush_pending u)"
  by (auto simp: apply_command_def split: prod.splits sum.splits)

lemma apply_command_Inl:
  "apply_command E c now s = (t, Inl e) \<longleftrightarrow>
     (\<exists>u. apply_inner E c now (clear_pending s) = (u, Inl e) \<and> t = clear_pending u)"
  by (auto simp: apply_command_def split: prod.splits sum.splits)

lemma apply_command_done:
  assumes "apply_command E c now s = (t, Inr ev)" "store_wf (sm_store s)" "cmd_ok c"
  obtains u where "apply_inner E c now (clear_pending s) = (u, Inr ev)" "sm_store t = view u"
    "sm_pending t = []" "edits (cmd_area (clear_pending s) c) (clear_pending s) u" "store_wf (sm_store t)"
proof -
  obtain u where u: "apply_inner E c now (clear_pending s) = (u, Inr ev)" "t = flush_pending u"
    using assms(1) by (auto simp: apply_command_Inr)
  have edits: "edits (cmd_area (clear_pending s) c) (clear_pending s) u"
    using apply_inner_edits [OF u(1)] assms(2,3) by simp
  have "buf_safe u" by (rule edits_safe [OF edits]) (simp add: buf_safe_start)
  then have "sm_store t = view u" by (simp add: u(2) view_flush buf_safe_def)
  moreover have "store_wf (view u)" using edits_wf [OF edits] assms(2) by simp
  ultimately show thesis using that [OF u(1) _ _ edits] u(2) by simp
qed

text \<open>A failed command: nothing happened, except that a shared publish may have lost drafts.\<close>

fun direct_writer :: "command \<Rightarrow> bool" where
  "direct_writer (SharedPublish _ _ _ _ _ _) = True"
| "direct_writer _ = False"

lemma buffered_Inl: "buffered f s = (t, Inl e) \<Longrightarrow> t = s"
  by (auto simp: buffered_def split: sum.splits)

text \<open>The machine a shared publish stops with has lost nothing but shared drafts.\<close>

definition keeps_all_but_drafts :: "sm \<Rightarrow> sm \<Rightarrow> bool" where
  "keeps_all_but_drafts s t \<longleftrightarrow>
     (\<forall>k. bm_get (sm_store t) k = bm_get (sm_store s) k \<or>
          (starts_with k K_SHARED_DRAFT \<and> bm_get (sm_store t) k = None))"

lemma keeps_all_but_drafts_refl [simp]: "keeps_all_but_drafts s s"
  by (simp add: keeps_all_but_drafts_def)

lemma keeps_all_but_drafts_trans:
  "keeps_all_but_drafts s t \<Longrightarrow> keeps_all_but_drafts t u \<Longrightarrow> keeps_all_but_drafts s u"
  unfolding keeps_all_but_drafts_def by metis

lemma cascade_store: "cascade_to_branch v comment rid now use (t, ev) = Inr (u, ev') \<Longrightarrow> sm_store u = sm_store t"
  by (auto simp: cascade_to_branch_def Let_def split: prod.splits)

lemma cascades_store:
  "foldE (cascade_to_branch v comment rid now) uses (t, ev) = Inr (u, ev') \<Longrightarrow> sm_store u = sm_store t"
proof (induction uses arbitrary: t ev)
  case (Cons use uses)
  then show ?case by (auto dest!: cascade_store)
qed auto

lemma publish_item_store:
  assumes "shared_publish_item comment rid now cascade item (t, ev) = (u, r)"
  shows "keeps_all_but_drafts t u \<and> (\<forall>u' ev'. r = Inr (u', ev') \<longrightarrow> keeps_all_but_drafts t u')"
proof -
  have del: "keeps_all_but_drafts t (store_delete (shared_draft_key k) (save_pending j v t))" for k j v
    by (auto simp: keeps_all_but_drafts_def store_delete_def ms_delete_def shared_draft_key_def)
  have "keeps_all_but_drafts t (store_delete (shared_draft_key k) (save_pending j v t)) \<Longrightarrow>
     foldE (cascade_to_branch (si_value item) comment rid now) uses
       (store_delete (shared_draft_key k) (save_pending j v t), ev) = Inr (u', ev') \<Longrightarrow>
     keeps_all_but_drafts t u'" for uses u' ev' k j v
    by (drule cascades_store) (simp add: keeps_all_but_drafts_def)
  with del show ?thesis
    using assms by (auto simp: shared_publish_item_def Let_def split: sum.splits if_splits option.splits)
qed

lemma publish_loop_store:
  "shared_publish_loop comment rid now cascade items (t, ev) = (u, r) \<Longrightarrow> keeps_all_but_drafts t u"
proof (induction items arbitrary: t ev)
  case (Cons i items)
  obtain u1 r1 where f: "shared_publish_item comment rid now cascade i (t, ev) = (u1, r1)" by fastforce
  note first = publish_item_store [OF f]
  show ?case
  proof (cases r1)
    case (Inl e)
    then show ?thesis using Cons.prems f first by simp
  next
    case (Inr acc)
    obtain t1 ev1 where "acc = (t1, ev1)" by fastforce
    then show ?thesis
      using Cons.prems Cons.IH [of t1 ev1] f first Inr keeps_all_but_drafts_trans by auto
  qed
qed simp

lemma apply_inner_failed:
  assumes "apply_inner E c now s = (t, Inl e)"
  shows "(\<not> direct_writer c \<longrightarrow> t = s) \<and> keeps_all_but_drafts s t"
proof (cases "direct_writer c")
  case True
  then show ?thesis
    using assms by (cases c) (auto simp: apply_shared_publish_def Let_def dest: publish_loop_store split: if_splits)
next
  case False
  then have "t = s" using assms by (cases c) (auto dest: buffered_Inl)
  then show ?thesis by simp
qed

section \<open>Properties\<close>

text \<open>
  C1: A command that succeeds on a well-typed store leaves an empty buffer and a well-typed store,
  the store is exactly what the operations of the command read and wrote through the buffer (the
  single batch, which performs deletes before puts, loses nothing), and no key outside the
  footprint of the command has changed.
\<close>
theorem command_effect:
  assumes "apply_command E c now s = (t, Inr ev)" "store_wf (sm_store s)" "cmd_ok c"
  shows "sm_pending t = [] \<and> store_wf (sm_store t) \<and>
    sm_store t = view (fst (apply_inner E c now (clear_pending s))) \<and>
    (\<forall>k. \<not> cmd_area (clear_pending s) c k \<longrightarrow> bm_get (sm_store t) k = bm_get (sm_store s) k)"
proof -
  obtain u where u: "apply_inner E c now (clear_pending s) = (u, Inr ev)" "sm_store t = view u"
    "sm_pending t = []" "edits (cmd_area (clear_pending s) c) (clear_pending s) u" "store_wf (sm_store t)"
    by (rule apply_command_done [OF assms])
  then show ?thesis using edits_frame [OF u(4)] by simp
qed

theorem command_effect_witness:
  "let c = ProjectCreate ''shop'' ''root'' 5 None; s = sm_new bm_empty;
       t = fst (apply_command sample_ext c 0 s)
   in store_wf (sm_store t) \<and> sm_store t = view (fst (apply_inner sample_ext c 0 (clear_pending s))) \<and>
      bm_get (sm_store t) (project_key ''other'') = None"
proof -
  let ?c = "ProjectCreate ''shop'' ''root'' 5 None"
  let ?r = "apply_command sample_ext ?c 0 (sm_new bm_empty)"
  have "snd ?r = Inr []" by code_simp
  then have "?r = (fst ?r, Inr [])" by (metis prod.collapse)
  moreover have "\<not> cmd_area s ?c (project_key ''other'')" for s by (simp, code_simp)
  moreover have "store_wf (sm_store (sm_new bm_empty))" "cmd_ok ?c"
    "bm_get (sm_store (sm_new bm_empty)) k = None" for k
    by (simp_all add: sm_new_def)
  ultimately show ?thesis
    unfolding Let_def using command_effect [of sample_ext ?c 0 "sm_new bm_empty" "fst ?r" "[]"] by metis
qed

text \<open>
  C2: A command that fails leaves the store as it was, unless it is a shared publish; a failed
  shared publish leaves every key as it was except drafts of shared items, which may be gone.
\<close>
theorem command_failure:
  assumes "apply_command E c now s = (t, Inl e)"
  shows "(\<not> direct_writer c \<longrightarrow> t = clear_pending s) \<and> keeps_all_but_drafts s t \<and> sm_pending t = []"
proof -
  obtain u where u: "apply_inner E c now (clear_pending s) = (u, Inl e)" "t = clear_pending u"
    using assms by (auto simp: apply_command_Inl)
  have "clear_pending (clear_pending s) = clear_pending s" by (simp add: clear_pending_def)
  then show ?thesis
    using apply_inner_failed [OF u(1)] by (auto simp: u(2) keeps_all_but_drafts_def)
qed

theorem command_failure_witness:
  "apply_command sample_ext SessionLogout 0 (sm_new bm_empty) \<noteq> (sm_new bm_empty, Inl (err NotFound)) \<and>
   fst (apply_command sample_ext (ProjectDelete ''shop'' ''root'') 0 (sm_new bm_empty)) = sm_new bm_empty"
proof -
  let ?r = "apply_command sample_ext (ProjectDelete ''shop'' ''root'') 0 (sm_new bm_empty)"
  have "snd ?r = Inl (err NotFound)" by code_simp
  then have "?r = (fst ?r, Inl (err NotFound))" by (metis prod.collapse)
  then have "fst ?r = clear_pending (sm_new bm_empty)" using command_failure by fastforce
  moreover have "snd (apply_command sample_ext SessionLogout 0 (sm_new bm_empty)) = Inr []" by code_simp
  ultimately show ?thesis by (auto simp: clear_pending_def sm_new_def)
qed

end
