(* ===== verification/Publishing.thy ===== *)
theory Publishing
  imports Command
begin

text \<open>
  What the commands on drafts and versions achieve: the functional behaviour of \<open>apply_draft_update\<close>,
  \<open>apply_publish\<close>, \<open>apply_rollback\<close>, the guarantees of a blocking publish, idempotence by request
  id, and the gray commands.
\<close>

section \<open>Readable versions\<close>

text \<open>The active version of a branch is readable if there is none yet or it has a content.\<close>

definition readable :: "sval mem_store \<Rightarrow> project_id \<Rightarrow> branch_name \<Rightarrow> nat \<Rightarrow> bool" where
  "readable m p b n \<longleftrightarrow> n = 0 \<or> content m p b n \<noteq> None"

definition content_of :: "sval mem_store \<Rightarrow> project_id \<Rightarrow> branch_name \<Rightarrow> nat \<Rightarrow> snapshot" where
  "content_of m p b n = (case content m p b n of None \<Rightarrow> bm_empty | Some x \<Rightarrow> x)"

lemma content_keys_cong:
  assumes "\<And>i. i \<le> v \<Longrightarrow> bm_get n (snapshot_key p b i) = bm_get m (snapshot_key p b i)"
    and "\<And>i. i \<le> v \<Longrightarrow> bm_get n (diff_key p b i) = bm_get m (diff_key p b i)"
  shows "content n p b v = content m p b v"
  unfolding content_def using assms by (intro chain_content_cong) (simp_all add: full_at_def diff_at_def)

lemma readable_cong:
  assumes "\<And>i. i \<le> a \<Longrightarrow> bm_get n (snapshot_key p b i) = bm_get m (snapshot_key p b i)"
    and "\<And>i. i \<le> a \<Longrightarrow> bm_get n (diff_key p b i) = bm_get m (diff_key p b i)"
  shows "readable n p b a = readable m p b a"
  using content_keys_cong [OF assms] by (simp add: readable_def)

lemma active_snapshot_content:
  "readable (view s) p b (active_version st) \<Longrightarrow>
     active_snapshot s p b st = Inr (content_of (view s) p b (active_version st))"
  by (auto simp: active_snapshot_def readable_def content_of_def snapshot_of_content split: option.splits)

text \<open>A version and the state of the branch, written together under the next number.\<close>

lemma content_save_state [simp]:
  "content (bm_insert (branch_state_key p b) v m) q c = content m q c"
  if "slash_free p" "slash_free b" "slash_free q" "slash_free c"
  using that by (simp add: content_other_key key_eq)

lemma write_next_readable:
  assumes "slash_free p" "slash_free b" "readable (view s) p b n"
    and "old = content_of (view s) p b n"
    and "t = save_pending (branch_state_key p b) v (write_version_snapshot p b (n + 1) old new rec s)"
  shows "\<exists>x. content (view t) p b (n + 1) = Some x \<and> snapshot_of t p b (n + 1) = Inr x \<and> snap_sim x new"
    and "u \<le> n \<Longrightarrow> content (view t) p b u = content (view s) p b u"
proof -
  have "n \<noteq> 0 \<Longrightarrow> content (view s) p b n = Some old"
    using assms(3,4) by (auto simp: readable_def content_of_def)
  then obtain x where "content (view (write_version_snapshot p b (Suc n) old new rec s)) p b (Suc n) = Some x"
    "snap_sim x new"
    using write_next_content [OF assms(1,2), of n s old new rec] by auto
  then have "content (view t) p b (n + 1) = Some x" using assms(1,2,5) by simp
  then show "\<exists>x. content (view t) p b (n + 1) = Some x \<and> snapshot_of t p b (n + 1) = Inr x \<and> snap_sim x new"
    using \<open>snap_sim x new\<close> snapshot_of_content by blast
  show "u \<le> n \<Longrightarrow> content (view t) p b u = content (view s) p b u"
    using assms(1,2,5) by (simp add: write_keeps_content)
qed

section \<open>An example branch\<close>

text \<open>A project with one required number and one secret, a branch with a draft for the number.\<close>

definition sample_item :: "string \<Rightarrow> value_type \<Rightarrow> item_def" where
  "sample_item k ty = \<lparr>it_key = k, it_ty = ty, it_required = True, it_secret = (ty = TSecret),
     it_validate = None, it_description = None, it_shared = False\<rparr>"

definition sample_struct :: struct where
  "sample_struct = \<lparr>s_version = 1, s_groups = [\<lparr>g_name = ''db'', g_items = [sample_item ''port'' TInt]\<rparr>]\<rparr>"

definition sample_branch :: branch_state where
  "sample_branch = (branch_new 1)\<lparr>b_value_draft :=
     tree_insert ''db'' ''port'' \<lparr>dv_value = VInt 5432, dv_updated_at = 1\<rparr> bm_empty\<rparr>"

definition sample_store :: "branch_state \<Rightarrow> sval mem_store" where
  "sample_store st = bm_insert (branch_state_key ''shop'' ''dev'') (SBranch st)
     (bm_insert (struct_key ''shop'') (SStruct sample_struct)
       (bm_insert (project_key ''shop'') (SProject \<lparr>p_id = ''shop'', p_name = ''shop'', p_created_at = 0\<rparr>) bm_empty))"

definition sample_sm :: "branch_state \<Rightarrow> sm" where
  "sample_sm st = sm_new (sample_store st)"

lemma sample_view [simp]:
  "view (sample_sm st) = sample_store st" "sm_pending (sample_sm st) = []"
  "sm_store (sample_sm st) = sample_store st"
  by (simp_all add: sample_sm_def) (simp add: sm_new_def)+

lemma sample_wf [simp]: "store_wf (sample_store st)"
  by (simp add: sample_store_def key_fold store_wf_insert)

lemma sample_get [simp]:
  "bm_get (sample_store st) (branch_state_key ''shop'' ''dev'') = Some (SBranch st)"
  "bm_get (sample_store st) (struct_key ''shop'') = Some (SStruct sample_struct)"
  by (simp_all add: sample_store_def key_eq)

text \<open>Did the operation succeed?\<close>

definition succeeds :: "outcome \<Rightarrow> bool" where
  "succeeds r = (case r of Inl _ \<Rightarrow> False | Inr _ \<Rightarrow> True)"

lemma succeedsE:
  assumes "succeeds r"
  obtains t ev where "r = Inr (t, ev)"
  using assms by (cases r) (auto simp: succeeds_def)

section \<open>Publishing a draft\<close>

lemma publish_steps:
  assumes "apply_publish E p b comment rid now operator policy s = Inr (t, ev)"
    and "bm_get (view s) (branch_state_key p b) = Some (SBranch st)"
    and "last_request_id st \<noteq> Some rid"
  obtains str old resolved warnings where
    "get_structure s p = Inr (Some str)" "\<not> nothing_to_publish st"
    "active_snapshot s p b st = Inr old"
    "materialize_resolved E s st str old policy = Inr (resolved, warnings)"
    "t = save_pending (branch_state_key p b) (SBranch (st\<lparr>active_version := active_version st + 1,
        last_request_id := Some rid, b_value_draft := bm_empty, bindings_dirty := False\<rparr>))
      (write_version_snapshot p b (active_version st + 1) old resolved
        (new_record (active_version st + 1) (s_version str) now (operator_id operator) comment None
           ValuePublish False) s)"
    "ev = [new_event p b (active_version st + 1) ValuePublish (s_version str) comment rid
             (compute_diff old resolved) False]"
  using assms by (auto simp: apply_publish_def Let_def split: if_splits)

text \<open>
  C3: A publish that is not a repetition writes the next version number: the branch points at it,
  the draft is cleared and the request id recorded; reading that version gives the materialised
  draft, up to the equality of values; the single event carries the number and a list of changes
  that turns the old content into the new one; and every older version keeps its content.
\<close>
theorem publish_result:
  assumes "apply_publish E p b comment rid now operator policy s = Inr (t, ev)"
    and "store_wf (view s)" "bm_get (view s) (branch_state_key p b) = Some (SBranch st)"
    and "last_request_id st \<noteq> Some rid" "readable (view s) p b (active_version st)"
  shows "\<exists>str resolved warnings x.
    materialize_resolved E s st str (content_of (view s) p b (active_version st)) policy
      = Inr (resolved, warnings) \<and>
    get_branch_state t p b = Inr (Some (st\<lparr>active_version := active_version st + 1,
      last_request_id := Some rid, b_value_draft := bm_empty, bindings_dirty := False\<rparr>)) \<and>
    snapshot_of t p b (active_version st + 1) = Inr x \<and> snap_sim x resolved \<and>
    map ev_version ev = [active_version st + 1] \<and>
    snap_sim (sm_apply_diff (content_of (view s) p b (active_version st)) (ev_changes (hd ev))) x \<and>
    (\<forall>v \<le> active_version st. content (view t) p b v = content (view s) p b v)"
proof -
  obtain str old resolved warnings where steps:
    "get_structure s p = Inr (Some str)" "\<not> nothing_to_publish st"
    "active_snapshot s p b st = Inr old"
    "materialize_resolved E s st str old policy = Inr (resolved, warnings)"
    "t = save_pending (branch_state_key p b) (SBranch (st\<lparr>active_version := active_version st + 1,
        last_request_id := Some rid, b_value_draft := bm_empty, bindings_dirty := False\<rparr>))
      (write_version_snapshot p b (active_version st + 1) old resolved
        (new_record (active_version st + 1) (s_version str) now (operator_id operator) comment None
           ValuePublish False) s)"
    "ev = [new_event p b (active_version st + 1) ValuePublish (s_version str) comment rid
             (compute_diff old resolved) False]"
    by (rule publish_steps [OF assms(1,3,4)])
  have names: "slash_free p" "slash_free b" using branch_found [OF assms(2,3)] by auto
  have old: "old = content_of (view s) p b (active_version st)"
    using steps(3) active_snapshot_content [OF assms(5)] by simp
  note next_version = write_next_readable [OF names assms(5) old steps(5)]
  obtain x where x: "snapshot_of t p b (active_version st + 1) = Inr x" "snap_sim x resolved"
    using next_version(1) by blast
  have "snap_sim (sm_apply_diff old (compute_diff old resolved)) x"
    using apply_compute_diff snap_sim_trans snap_sim_sym x(2) by blast
  then show ?thesis
    using steps(4) x next_version(2) by (auto simp: old steps(5,6) new_event_def)
qed
theorem publish_result_witness:
  "\<exists>t ev x. apply_publish sample_ext ''shop'' ''dev'' ''first'' ''r1'' 5 ''root'' Block (sample_sm sample_branch)
     = Inr (t, ev) \<and> snapshot_of t ''shop'' ''dev'' 1 = Inr x \<and> map ev_version ev = [1] \<and>
     snap_sim (sm_apply_diff bm_empty (ev_changes (hd ev))) x"
proof -
  have "succeeds (apply_publish sample_ext ''shop'' ''dev'' ''first'' ''r1'' 5 ''root'' Block (sample_sm sample_branch))"
    by code_simp
  then obtain t ev where run:
    "apply_publish sample_ext ''shop'' ''dev'' ''first'' ''r1'' 5 ''root'' Block (sample_sm sample_branch) = Inr (t, ev)"
    by (rule succeedsE)
  have "active_version sample_branch = 0" "last_request_id sample_branch = None"
    by (simp_all add: sample_branch_def branch_new_def)
  then show ?thesis
    using publish_result [OF run] run by (fastforce simp: readable_def content_of_def)
qed

section \<open>Retries\<close>

lemma struct_not_in_branch: "slash_free p \<Longrightarrow> \<not> branch_area q b (struct_key p)"
  by (simp add: branch_area_def in_dir_def key_fold segs_key_string)

lemma last_request_after:
  assumes "op = apply_publish E p b comment rid now operator policy \<or>
      op = apply_rollback p b v comment rid now operator \<or>
      op = apply_gray_publish E p b rule comment rid policy \<or>
      op = apply_gray_promote p b comment rid now operator \<or> op = apply_gray_abort p b comment rid"
    and "op s = Inr (t, ev)"
  shows "\<exists>st. bm_get (view t) (branch_state_key p b) = Some (SBranch st) \<and> last_request_id st = Some rid"
  using assms
  by (elim disjE)
     (auto simp: apply_publish_def apply_rollback_def apply_gray_publish_def apply_gray_promote_def
       apply_gray_abort_def done_with_def Let_def split: if_splits)

lemma edits_of_versioning:
  assumes "op = apply_publish E p b comment rid now operator policy \<or>
      op = apply_rollback p b v comment rid now operator \<or>
      op = apply_gray_publish E p b rule comment rid policy \<or>
      op = apply_gray_promote p b comment rid now operator \<or> op = apply_gray_abort p b comment rid"
    and "op s = Inr (t, ev)" "store_wf (view s)" "sm_pending s = []"
  shows "edits (branch_area p b) s t"
  using assms
  by (elim disjE) (auto intro: publish_edits rollback_edits gray_publish_edits gray_promote_edits gray_abort_edits)

text \<open>
  C4: Publish, rollback, gray publish, promote and abort are idempotent: the same command with the
  same request id, applied again to the result, succeeds, publishes no event and changes nothing.
\<close>
theorem retry_is_noop:
  assumes "op = apply_publish E p b comment rid now operator policy \<or>
      op = apply_rollback p b v comment rid now operator \<or>
      op = apply_gray_publish E p b rule comment rid policy \<or>
      op = apply_gray_promote p b comment rid now operator \<or> op = apply_gray_abort p b comment rid"
    and "op s = Inr (t, ev)" "store_wf (view s)" "sm_pending s = []"
  shows "op t = Inr (t, [])"
proof -
  obtain st where st: "bm_get (view t) (branch_state_key p b) = Some (SBranch st)" "last_request_id st = Some rid"
    using last_request_after [OF assms(1,2)] by blast
  note edits = edits_of_versioning [OF assms]
  have "slash_free p" using st(1) edits_wf [OF edits assms(3)] branch_found by blast
  then have "bm_get (view t) (struct_key p) = bm_get (view s) (struct_key p)"
    by (intro edits_frame [OF edits] struct_not_in_branch)
  then show ?thesis
    using assms(1,2) st
    by (elim disjE)
       (auto simp: apply_publish_def apply_rollback_def apply_gray_publish_def apply_gray_promote_def
         apply_gray_abort_def done_with_def)
qed

theorem retry_is_noop_witness:
  "\<exists>t ev. apply_publish sample_ext ''shop'' ''dev'' ''first'' ''r1'' 5 ''root'' Block (sample_sm sample_branch)
       = Inr (t, ev) \<and>
     apply_publish sample_ext ''shop'' ''dev'' ''first'' ''r1'' 5 ''root'' Block t = Inr (t, [])"
proof -
  have "succeeds (apply_publish sample_ext ''shop'' ''dev'' ''first'' ''r1'' 5 ''root'' Block (sample_sm sample_branch))"
    by code_simp
  then obtain t ev where run:
    "apply_publish sample_ext ''shop'' ''dev'' ''first'' ''r1'' 5 ''root'' Block (sample_sm sample_branch) = Inr (t, ev)"
    by (rule succeedsE)
  then show ?thesis using retry_is_noop [OF disjI1 [OF refl] run] by simp
qed

section \<open>Rollback\<close>

text \<open>
  C5: A rollback to an older version that is readable does not go back in numbers: it writes the
  next number with the content of the old version (up to the equality of values), keeps every older
  version, leaves the draft alone and records the origin in the version record; a target of 0 or not below the
  active version is refused.
\<close>
theorem rollback_result:
  assumes "store_wf (view s)" "bm_get (view s) (branch_state_key p b) = Some (SBranch st)"
    and "last_request_id st \<noteq> Some rid" "readable (view s) p b (active_version st)"
  shows "(to = 0 \<or> active_version st \<le> to \<longrightarrow>
      apply_rollback p b to comment rid now operator s = Inl (err Validation)) \<and>
    (0 < to \<and> to < active_version st \<and> content (view s) p b to = Some old \<longrightarrow>
      (\<exists>t ev x r. apply_rollback p b to comment rid now operator s = Inr (t, ev) \<and>
        get_branch_state t p b = Inr (Some (st\<lparr>active_version := active_version st + 1,
          last_request_id := Some rid\<rparr>)) \<and>
        snapshot_of t p b (active_version st + 1) = Inr x \<and> snap_sim x old \<and>
        get_version_record t p b (active_version st + 1) = Inr (Some r) \<and> vr_rollback_of r = Some to \<and>
        (\<forall>v \<le> active_version st. content (view t) p b v = content (view s) p b v)))"
proof (intro conjI impI)
  assume "to = 0 \<or> active_version st \<le> to"
  then show "apply_rollback p b to comment rid now operator s = Inl (err Validation)"
    using assms(2,3) by (auto simp: apply_rollback_def)
next
  assume target: "0 < to \<and> to < active_version st \<and> content (view s) p b to = Some old"
  have names: "slash_free p" "slash_free b" using branch_found [OF assms(1,2)] by auto
  let ?cur = "content_of (view s) p b (active_version st)"
  let ?rec = "new_record (active_version st + 1) (structure_version st) now (operator_id operator) comment
     (Some to) Rollback False"
  define t where "t = save_pending (branch_state_key p b) (SBranch (st\<lparr>active_version := active_version st + 1,
        last_request_id := Some rid\<rparr>))
      (write_version_snapshot p b (active_version st + 1) ?cur old ?rec s)"
  have run: "apply_rollback p b to comment rid now operator s = Inr (t,
      [new_event p b (active_version st + 1) Rollback (structure_version st) comment rid
        (compute_diff ?cur old) False])"
    using target assms(2,3) active_snapshot_content [OF assms(4)] snapshot_of_content [of s p b to old]
    by (simp add: apply_rollback_def Let_def t_def)
  note next_version = write_next_readable [OF names assms(4) refl t_def]
  obtain x where "snapshot_of t p b (active_version st + 1) = Inr x" "snap_sim x old"
    using next_version(1) by blast
  moreover have "\<exists>k. get_version_record t p b (active_version st + 1) = Inr (Some (?rec\<lparr>vr_kind := k\<rparr>))"
    using names
    by (auto simp: t_def get_version_record_def load_merged_Some view_write_version key_eq)
  then obtain k where "get_version_record t p b (active_version st + 1) = Inr (Some (?rec\<lparr>vr_kind := k\<rparr>))" ..
  moreover have "vr_rollback_of (?rec\<lparr>vr_kind := k\<rparr>) = Some to" by (simp add: new_record_def)
  moreover have "get_branch_state t p b = Inr (Some (st\<lparr>active_version := active_version st + 1,
      last_request_id := Some rid\<rparr>))" by (simp add: t_def)
  ultimately show "\<exists>t ev x r. apply_rollback p b to comment rid now operator s = Inr (t, ev) \<and>
        get_branch_state t p b = Inr (Some (st\<lparr>active_version := active_version st + 1,
          last_request_id := Some rid\<rparr>)) \<and>
        snapshot_of t p b (active_version st + 1) = Inr x \<and> snap_sim x old \<and>
        get_version_record t p b (active_version st + 1) = Inr (Some r) \<and> vr_rollback_of r = Some to \<and>
        (\<forall>v \<le> active_version st. content (view t) p b v = content (view s) p b v)"
    using run next_version(2) by blast
qed

text \<open>Two published versions: the port was 5432, then 5433.\<close>

definition sample_snap :: "int \<Rightarrow> snapshot" where
  "sample_snap n = tree_insert ''db'' ''port'' (VInt n) bm_empty"

definition sample_branch2 :: branch_state where
  "sample_branch2 = (branch_new 1)\<lparr>active_version := 2, last_request_id := Some ''r2''\<rparr>"

definition with_versions :: "sval mem_store \<Rightarrow> sval mem_store" where
  "with_versions m = bm_insert (snapshot_key ''shop'' ''dev'' 1) (SSnap (sample_snap 5432))
     (bm_insert (diff_key ''shop'' ''dev'' 2) (SDiff (compute_diff (sample_snap 5432) (sample_snap 5433))) m)"

definition sample_sm2 :: "branch_state \<Rightarrow> sm" where
  "sample_sm2 st = sm_new (with_versions (sample_store st))"

lemma sample2_view [simp]:
  "view (sample_sm2 st) = with_versions (sample_store st)" "sm_pending (sample_sm2 st) = []"
  by (simp_all add: sample_sm2_def) (simp add: sm_new_def)

lemma sample2_wf [simp]: "store_wf (with_versions (sample_store st))"
  unfolding with_versions_def key_fold by (intro store_wf_insert) simp_all

lemma sample2_get [simp]:
  "bm_get (with_versions m) (branch_state_key ''shop'' ''dev'') = bm_get m (branch_state_key ''shop'' ''dev'')"
  "bm_get (with_versions m) (struct_key ''shop'') = bm_get m (struct_key ''shop'')"
  by (simp_all add: with_versions_def key_eq)

lemma sample2_content:
  "content (with_versions m) ''shop'' ''dev'' 1 = Some (sample_snap 5432)"
  "content (with_versions m) ''shop'' ''dev'' 2 \<noteq> None"
proof -
  have one: "full_at (with_versions m) ''shop'' ''dev'' 1 = Some (sample_snap 5432)"
    by (simp add: full_at_def with_versions_def)
  then show v1: "content (with_versions m) ''shop'' ''dev'' 1 = Some (sample_snap 5432)"
    by (simp add: content_checkpoint is_checkpoint_def)
  have "diff_at (with_versions m) ''shop'' ''dev'' 2 \<noteq> None"
    by (simp add: diff_at_def with_versions_def key_eq)
  then show "content (with_versions m) ''shop'' ''dev'' 2 \<noteq> None"
    using v1 content_Suc [of "with_versions m" "''shop''" "''dev''" 1]
    by (auto simp: is_checkpoint_def CHECKPOINT_INTERVAL_def numeral_2_eq_2)
qed

theorem rollback_result_witness:
  "\<exists>t ev x. apply_rollback ''shop'' ''dev'' 1 ''back'' ''r3'' 9 ''root'' (sample_sm2 sample_branch2) = Inr (t, ev) \<and>
     snapshot_of t ''shop'' ''dev'' 3 = Inr x \<and> snap_sim x (sample_snap 5432)"
proof -
  let ?s = "sample_sm2 sample_branch2"
  have "bm_get (view ?s) (branch_state_key ''shop'' ''dev'') = Some (SBranch sample_branch2)"
    "last_request_id sample_branch2 \<noteq> Some ''r3''" "active_version sample_branch2 = 2"
    "readable (view ?s) ''shop'' ''dev'' (active_version sample_branch2)"
    "content (view ?s) ''shop'' ''dev'' 1 = Some (sample_snap 5432)"
    using sample2_content by (simp_all add: sample_branch2_def readable_def)
  then show ?thesis
    using rollback_result [of ?s "''shop''" "''dev''" sample_branch2 "''r3''" 1 "''back''" 9 "''root''" "sample_snap 5432"]
    by (fastforce simp: numeral_3_eq_3 numeral_2_eq_2)
qed

section \<open>Materialising a draft\<close>

abbreviation places :: "(string \<times> item_def) list \<Rightarrow> (string \<times> string) list" where
  "places gis \<equiv> map (\<lambda>(g, it). (g, it_key it)) gis"

text \<open>The value a binding resolves to.\<close>

definition bound_to :: "sm \<Rightarrow> bindings \<Rightarrow> string \<Rightarrow> item_def \<Rightarrow> val \<Rightarrow> bool" where
  "bound_to s bs g it v \<longleftrightarrow> (\<exists>rk sh. tree_get bs g (it_key it) = Some rk \<and>
     get_shared s rk = Inr (Some sh) \<and> si_ty sh = it_ty it \<and> v = si_value sh)"

lemma resolve_shared_errs:
  "foldE (resolve_shared s bs) gis (r0, e0) = Inr (r, e) \<Longrightarrow> \<exists>more. e = e0 @ more"
proof (induction gis arbitrary: r0 e0)
  case (Cons gi gis)
  obtain g it where gi: "gi = (g, it)" by (cases gi)
  obtain r1 e1 where step: "resolve_shared s bs gi (r0, e0) = Inr (r1, e1)"
    and rest: "foldE (resolve_shared s bs) gis (r1, e1) = Inr (r, e)"
    using Cons.prems by auto
  have "\<exists>m. e1 = e0 @ m"
    using step by (auto simp: gi resolve_shared_def split: if_splits option.splits)
  then show ?case using Cons.IH [OF rest] by auto
qed simp

lemma resolve_shared_step:
  assumes "resolve_shared s bs (g, it) (r0, e0) = Inr (r1, [])"
  shows "e0 = [] \<and> (if it_shared it
    then \<exists>v. bound_to s bs g it v \<and> r1 = tree_insert g (it_key it) v r0 else r1 = r0)"
  using assms by (auto simp: resolve_shared_def bound_to_def split: if_splits option.splits)

lemma resolve_shared_all:
  assumes "foldE (resolve_shared s bs) gis (r0, e0) = Inr (r, [])" "distinct (places gis)"
  shows "(\<forall>g it. (g, it) \<in> set gis \<and> it_shared it \<longrightarrow>
      (\<exists>v. bound_to s bs g it v \<and> tree_get r g (it_key it) = Some v)) \<and>
    (\<forall>g k. (\<forall>it. (g, it) \<in> set gis \<and> it_shared it \<longrightarrow> it_key it \<noteq> k) \<longrightarrow> tree_get r g k = tree_get r0 g k)"
  using assms
proof (induction gis arbitrary: r0 e0)
  case (Cons gi gis)
  obtain g it where gi: "gi = (g, it)" by (cases gi)
  obtain r1 e1 where step: "resolve_shared s bs gi (r0, e0) = Inr (r1, e1)"
    and rest: "foldE (resolve_shared s bs) gis (r1, e1) = Inr (r, [])"
    using Cons.prems(1) by auto
  have "e1 = []" using resolve_shared_errs [OF rest] by simp
  note first = resolve_shared_step [OF step [unfolded gi \<open>e1 = []\<close>]]
  have tail: "distinct (places gis)" "(g, it_key it) \<notin> set (places gis)" using Cons.prems(2) by (simp_all add: gi)
  note IH = Cons.IH [OF rest tail(1)]
  have fresh: "\<forall>it'. (g, it') \<in> set gis \<and> it_shared it' \<longrightarrow> it_key it' \<noteq> it_key it"
    using tail(2) by (force simp: image_iff)
  show ?case
  proof (cases "it_shared it")
    case True
    then obtain v where v: "bound_to s bs g it v" "r1 = tree_insert g (it_key it) v r0"
      using first by auto
    have "tree_get r g (it_key it) = Some v" using IH fresh v(2) by simp
    then show ?thesis using IH v True by (auto simp: gi)
  next
    case False
    then show ?thesis using IH first by (auto simp: gi)
  qed
qed auto

lemma tree_get_draft_values [simp]: "tree_get (draft_values d) g k = map_option dv_value (tree_get d g k)"
  by (auto simp: tree_get_def draft_values_def split: option.splits)

lemma fold_items_struct_items: "fold_items f st a = fold (\<lambda>(g, it). f g it) (struct_items st) a"
proof -
  have "fold (\<lambda>g. fold (f (g_name g)) (g_items g)) gs a =
     fold (\<lambda>(g, it). f g it) (concat (map (\<lambda>g. map (\<lambda>i. (g_name g, i)) (g_items g)) gs)) a" for gs a
    by (induction gs arbitrary: a) (simp_all add: fold_map comp_def)
  then show ?thesis by (simp add: fold_items_def struct_items_def)
qed

lemma keep_secret_get:
  "tree_get (fold (\<lambda>(g, it). keep_secret old g it) gis d) g k =
     (case tree_get d g k of Some dv \<Rightarrow> Some dv
      | None \<Rightarrow> if \<exists>it. (g, it) \<in> set gis \<and> it_key it = k \<and> \<not> it_shared it \<and> it_ty it = TSecret
          then map_option (\<lambda>v. \<lparr>dv_value = v, dv_updated_at = 0\<rparr>) (tree_get old g k) else None)"
proof (induction gis arbitrary: d)
  case (Cons gi gis)
  obtain h it where "gi = (h, it)" by (cases gi)
  then show ?case using Cons by (auto simp: keep_secret_def split: option.splits)
qed (simp split: option.splits)

lemma struct_ok_places: "struct_ok st \<Longrightarrow> distinct (places (struct_items st))"
proof -
  have places: "distinct (places (concat (map (\<lambda>g. map (\<lambda>i. (g_name g, i)) (g_items g)) gs)))"
    if "distinct (map g_name gs)" "\<forall>g \<in> set gs. items_ok (g_items g)" for gs
    using that
  proof (induction gs)
    case (Cons g gs)
    have "distinct (map (\<lambda>i. (g_name g, it_key i)) (g_items g))"
      using Cons.prems(2) by (auto simp: items_ok_def distinct_map inj_on_def)
    with Cons show ?case by (auto simp: image_iff comp_def)
  qed simp
  assume "struct_ok st"
  then show "distinct (places (struct_items st))"
    unfolding struct_items_def by (intro places) (simp_all add: struct_ok_def)
qed

lemma in_struct_items: "(n, it) \<in> set (struct_items st) \<longleftrightarrow> (\<exists>g \<in> set (s_groups st). n = g_name g \<and> it \<in> set (g_items g))"
  by (auto simp: struct_items_def)

text \<open>What an item of the structure resolves to when nothing is amiss.\<close>

definition item_value :: "branch_state \<Rightarrow> snapshot \<Rightarrow> string \<Rightarrow> item_def \<Rightarrow> val option" where
  "item_value st old g it = (case tree_get (b_value_draft st) g (it_key it) of
     Some dv \<Rightarrow> Some (dv_value dv)
   | None \<Rightarrow> if it_ty it = TSecret then tree_get old g (it_key it) else None)"

text \<open>
  What a blocking materialisation lets through is complete and consistent, item by item of a valid structure: an item
  taken from the shared library is bound to a published item of its type and has its value; any other item has its
  draft value, or the old value if it is a secret without one; it is there if it is required, and its value fits.
\<close>

lemma materialized_is_complete:
  assumes "materialize_resolved E s st structure old Block = Inr (resolved, errs)" "struct_ok structure"
    and "(g, it) \<in> set (struct_items structure)"
  shows "errs = [] \<and>
    (if it_shared it then \<exists>v. bound_to s (shared_bindings st) g it v \<and> tree_get resolved g (it_key it) = Some v
     else tree_get resolved g (it_key it) = item_value st old g it \<and>
       (it_required it \<longrightarrow> item_value st old g it \<noteq> None) \<and>
       (\<forall>v. item_value st old g it = Some v \<longrightarrow> value_fits E it v))"
proof -
  let ?map = "fold_items (keep_secret old) structure (b_value_draft st)"
  have fold: "foldE (resolve_shared s (shared_bindings st)) (struct_items structure)
      (draft_values ?map, validate_publish E ?map structure) = Inr (resolved, [])" and errs: "errs = []"
    using assms(1) by (auto simp: materialize_resolved_def Let_def split: if_splits)
  note places = struct_ok_places [OF assms(2)]
  note all = resolve_shared_all [OF fold places]
  have "validate_publish E ?map structure = []" using resolve_shared_errs [OF fold] by simp
  then have filled: "it_shared it \<or> item_filled E ?map g it"
    using assms(3) by (auto simp: validate_publish_Nil in_struct_items)
  have unique: "it' = it" if "(g, it') \<in> set (struct_items structure)" "it_key it' = it_key it" for it'
    using eq_key_imp_eq_value [of "map (\<lambda>(g, it). ((g, it_key it), it)) (struct_items structure)" "(g, it_key it)" it' it]
      places that assms(3) by (force simp: comp_def case_prod_unfold)
  have draft: "map_option dv_value (tree_get ?map g (it_key it)) = item_value st old g it" if "\<not> it_shared it"
    using that assms(3) unique
    by (auto simp: item_value_def fold_items_struct_items keep_secret_get option.map_comp comp_def option.map_ident
        split: option.splits)
  show ?thesis
  proof (cases "it_shared it")
    case True
    then show ?thesis using all assms(3) errs by auto
  next
    case False
    have "tree_get resolved g (it_key it) = map_option dv_value (tree_get ?map g (it_key it))"
      using all False unique by (metis tree_get_draft_values)
    then show ?thesis using False filled draft [OF False, symmetric] errs
      by (cases "tree_get ?map g (it_key it)") (auto simp: item_filled_def)
  qed
qed

section \<open>Editing a draft\<close>

lemma foldE_all: "foldE f xs a = Inr b \<Longrightarrow> \<forall>x \<in> set xs. \<exists>c d. f x c = Inr d"
proof (induction xs arbitrary: a)
  case (Cons x xs)
  then obtain c where "f x a = Inr c" "foldE f xs c = Inr b" by auto
  with Cons.IH show ?case by auto
qed simp

lemma tree_get_delete_draft [simp]:
  "tree_get (delete_draft_item gk d) g k = (if gk = (g, k) then None else tree_get d g k)"
  by (cases gk) (auto simp: delete_draft_item_def tree_get_def split: option.splits)

lemma fold_delete_draft:
  "tree_get (fold delete_draft_item gks d) g k = (if (g, k) \<in> set gks then None else tree_get d g k)"
  by (induction gks arbitrary: d) auto

definition update_entries :: "int \<Rightarrow> draft_update_item list \<Rightarrow> ((string \<times> string) \<times> draft_value) list" where
  "update_entries now us = map (\<lambda>u. ((du_group u, du_key u), \<lparr>dv_value = du_value u, dv_updated_at = now\<rparr>)) us"

lemma fold_set_draft:
  "tree_get (fold (set_draft_item now) us d) g k =
     (case map_of (rev (update_entries now us)) (g, k) of Some v \<Rightarrow> Some v | None \<Rightarrow> tree_get d g k)"
  by (induction us arbitrary: d)
     (auto simp: set_draft_item_def update_entries_def map_add_def split: option.splits)

lemma check_update_ok:
  "check_update E index d u c = Inr c' \<Longrightarrow> \<exists>def. tree_get index (du_group u) (du_key u) = Some def \<and>
     \<not> it_shared def \<and> value_fits E def (du_value u) \<and> value_size E (du_value u) \<le> MAX_VALUE_BYTES"
  by (auto simp: check_update_def validate_value_Nil split: if_splits)

text \<open>
  C7: A draft update that succeeds was made against the revision it expected, touches only items of
  the structure that are not taken from the shared library, with values that fit, raises the
  revision by one, leaves the published version alone, and changes the draft item by item: the last update of an item
  wins, else a deleted item is gone, else it is as it was.
\<close>
theorem draft_update_result:
  assumes "apply_draft_update E p b updates deletes bindings now expected s = Inr (t, ev)"
    and "bm_get (view s) (branch_state_key p b) = Some (SBranch st)"
  shows "\<exists>str st'. get_structure s p = Inr (Some str) \<and> get_branch_state t p b = Inr (Some st') \<and>
    (expected = None \<or> expected = Some (draft_rev st)) \<and> draft_rev st' = draft_rev st + 1 \<and>
    active_version st' = active_version st \<and> last_request_id st' = last_request_id st \<and>
    (\<forall>u \<in> set updates. \<exists>def. tree_get (item_index str) (du_group u) (du_key u) = Some def \<and>
       \<not> it_shared def \<and> value_fits E def (du_value u) \<and> value_size E (du_value u) \<le> MAX_VALUE_BYTES) \<and>
    (\<forall>g k. tree_get (b_value_draft st') g k =
       (case map_of (rev (update_entries now updates)) (g, k) of
          Some v \<Rightarrow> Some v
        | None \<Rightarrow> if (g, k) \<in> set deletes then None else tree_get (b_value_draft st) g k))"
proof -
  obtain str c bs changed where str: "get_structure s p = Inr (Some str)"
    and exp: "expected = None \<or> expected = Some (draft_rev st)"
    and checks: "foldE (check_update E (item_index str) (b_value_draft st)) updates (draft_size (b_value_draft st)) = Inr c"
    and t: "t = save_pending (branch_state_key p b) (SBranch (st\<lparr>b_value_draft :=
        fold (set_draft_item now) updates (fold delete_draft_item deletes (b_value_draft st)),
        draft_rev := draft_rev st + 1, shared_bindings := bs, bindings_dirty := bindings_dirty st \<or> changed\<rparr>)) s"
    using assms by (auto simp: apply_draft_update_def done_with_def Let_def split: if_splits option.splits)
  then show ?thesis
    using foldE_all [OF checks] check_update_ok
    by (auto simp: fold_set_draft fold_delete_draft split: option.splits)
qed

definition sample_update :: draft_update_item where
  "sample_update = \<lparr>du_group = ''db'', du_key = ''port'', du_value = VInt 5434\<rparr>"

lemma sample_update_checks:
  "succeeds (apply_draft_update sample_ext ''shop'' ''dev'' [sample_update] deletes [] 9 (Some 0) (sample_sm sample_branch))"
proof -
  have "tree_get (item_index sample_struct) ''db'' ''port'' = Some (sample_item ''port'' TInt)"
    by (simp add: item_index_def sample_struct_def sample_item_def)
  then have "\<exists>n. check_update sample_ext (item_index sample_struct) (b_value_draft sample_branch) sample_update c = Inr n" for c
    by (simp add: check_update_def sample_update_def sample_item_def validate_value_def
        sample_ext_def MAX_VALUE_BYTES_def sample_branch_def)
  then obtain n where "check_update sample_ext (item_index sample_struct) (b_value_draft sample_branch) sample_update
      (draft_size (b_value_draft sample_branch)) = Inr n" by blast
  moreover have "draft_rev sample_branch = 0" by (simp add: sample_branch_def branch_new_def)
  ultimately show ?thesis
    by (simp add: succeeds_def apply_draft_update_def done_with_def Let_def)
qed

theorem draft_update_result_witness:
  "\<exists>t ev st. apply_draft_update sample_ext ''shop'' ''dev'' [sample_update] [(''db'', ''host'')] [] 9 (Some 0)
       (sample_sm sample_branch) = Inr (t, ev) \<and>
     get_branch_state t ''shop'' ''dev'' = Inr (Some st) \<and> draft_rev st = 1 \<and>
     tree_get (b_value_draft st) ''db'' ''port'' = Some \<lparr>dv_value = VInt 5434, dv_updated_at = 9\<rparr>"
proof -
  let ?r = "apply_draft_update sample_ext ''shop'' ''dev'' [sample_update] [(''db'', ''host'')] [] 9 (Some 0)
       (sample_sm sample_branch)"
  have "succeeds ?r" by (simp add: sample_update_checks)
  then obtain t ev where run: "?r = Inr (t, ev)" by (rule succeedsE)
  have "draft_rev sample_branch = 0" by (simp add: sample_branch_def branch_new_def)
  then show ?thesis
    using draft_update_result [OF run, of sample_branch] run
    by (fastforce simp: update_entries_def sample_update_def)
qed

text \<open>
  Optimistic locking: after an update that expected the current revision, a second update that
  expects the same revision is refused as a conflict, whatever it contains.
\<close>
lemma second_update_conflicts:
  assumes "apply_draft_update E p b updates deletes bindings now (Some r) s = Inr (t, ev)"
  shows "apply_draft_update E' p b updates' deletes' bindings' now' (Some r) t = Inl (err Conflict)"
  using assms by (auto simp: apply_draft_update_def done_with_def Let_def split: if_splits)

end
