(* ===== verification/Gray_Release.thy ===== *)
theory Gray_Release
  imports Publishing
begin

text \<open>
  The life of a gray release (\<open>apply_gray_publish\<close>, \<open>apply_gray_promote\<close>, \<open>apply_gray_abort\<close>) as its
  clients see it through \<open>get_config_resolved\<close>: who reads what while it runs, after an abort and after
  a promotion; and when a promotion leaves the branch without a readable configuration.
\<close>

section \<open>Reading depends on the stored versions only\<close>

definition same_versions :: "sm \<Rightarrow> sm \<Rightarrow> project_id \<Rightarrow> branch_name \<Rightarrow> bool" where
  "same_versions s t p b \<longleftrightarrow>
     (\<forall>i. bm_get (view t) (snapshot_key p b i) = bm_get (view s) (snapshot_key p b i) \<and>
          bm_get (view t) (diff_key p b i) = bm_get (view s) (diff_key p b i)) \<and>
     bm_get (view t) (struct_key p) = bm_get (view s) (struct_key p)"

lemma replay_same: "same_versions s t p b \<Longrightarrow> replay t p b vs x = replay s p b vs x"
proof (induction vs arbitrary: x)
  case (Cons v vs)
  then have "read_full t p b v = read_full s p b v"
    "load_merged as_diff t (diff_key p b v) = load_merged as_diff s (diff_key p b v)"
    by (simp_all add: read_full_def load_merged_eq same_versions_def)
  then show ?case using Cons by (simp cong: option.case_cong bindE_cong)
qed simp

lemma snapshot_of_same:
  assumes "same_versions s t p b"
  shows "snapshot_of t p b v = snapshot_of s p b v"
proof -
  have "load_merged as_snap t (snapshot_key p b i) = load_merged as_snap s (snapshot_key p b i)"
    "read_full t p b i = read_full s p b i" for i
    using assms by (simp_all add: read_full_def load_merged_eq same_versions_def)
  moreover have "replay t p b vs = replay s p b vs" for vs
    using replay_same [OF assms] by blast
  ultimately show ?thesis by (simp add: snapshot_of_def Let_def cong: option.case_cong)
qed

lemma structure_same: "same_versions s t p b \<Longrightarrow> structure_or_empty t p = structure_or_empty s p"
  by (simp add: structure_or_empty_def get_structure_def load_merged_eq same_versions_def)

lemma get_config_same:
  assumes "same_versions s t p b"
    and "bm_get (view s) (branch_state_key p b) = Some (SBranch st)"
    and "bm_get (view t) (branch_state_key p b) = Some (SBranch st')"
    and "active_version st' = active_version st"
  shows "get_config t p b v = get_config s p b v"
  using assms(2-) snapshot_of_same [OF assms(1)] structure_same [OF assms(1)]
  by (simp add: get_config_def Let_def)

text \<open>What a client reads, by the state of the branch.\<close>

lemma read_stable:
  assumes "bm_get (view s) (branch_state_key p b) = Some (SBranch st)"
    and "\<not> (gray_seq st \<noteq> 0 \<and> instance_id ctx \<noteq> [] \<and>
      (\<exists>rule. b_gray_rule st = Some rule \<and> rule_matches rule ctx))"
  shows "get_config_resolved s p b v ctx = get_config s p b v"
  using assms(2) by (auto simp: get_config_resolved_def resolve_version_cases [OF assms(1)])

lemma read_gray:
  assumes "bm_get (view s) (branch_state_key p b) = Some (SBranch st)"
    and "gray_seq st \<noteq> 0" "instance_id ctx \<noteq> []" "b_gray_rule st = Some rule" "rule_matches rule ctx"
    and "bm_get (view s) (gray_snap_key p b (gray_seq st)) = Some (SSnap x)"
    and "structure_or_empty s p = Inr str"
  shows "get_config_resolved s p b 0 ctx = Inr \<lparr>cs_project = p, cs_branch = b,
    cs_version = active_version st, cs_resolved_version = gray_seq st,
    cs_structure_version = s_version str, cs_groups = x, cs_gray = True\<rparr>"
  using assms by (simp add: get_config_resolved_def resolve_version_cases [OF assms(1)]
      gray_snapshot_of_def load_merged_eq decode_with_def)

section \<open>Publishing to some\<close>

text \<open>The clients that a running release gives its content to.\<close>

definition in_release :: "branch_state \<Rightarrow> client_ctx \<Rightarrow> bool" where
  "in_release st ctx \<longleftrightarrow> gray_seq st \<noteq> 0 \<and> instance_id ctx \<noteq> [] \<and>
     (\<exists>rule. b_gray_rule st = Some rule \<and> rule_matches rule ctx)"

lemma gray_publish_steps:
  assumes "apply_gray_publish E p b rule comment rid policy s = Inr (t, ev)"
    and "bm_get (view s) (branch_state_key p b) = Some (SBranch st)"
    and "last_request_id st \<noteq> Some rid"
  obtains str old resolved warnings where
    "validate_gray_rule rule = Inr ()"
    "bm_get (view s) (struct_key p) = Some (SStruct str)" "active_snapshot s p b st = Inr old"
    "materialize_resolved E s st str old policy = Inr (resolved, warnings)"
    "bm_get (view t) (branch_state_key p b) = Some (SBranch (st\<lparr>gray_seq := gray_seq st + 1,
       b_gray_rule := Some rule, last_request_id := Some rid, b_value_draft := bm_empty,
       bindings_dirty := False\<rparr>))"
    "bm_get (view t) (gray_snap_key p b (gray_seq st + 1)) = Some (SSnap resolved)"
    "\<And>k. k \<noteq> branch_state_key p b \<Longrightarrow> \<forall>i. k \<noteq> gray_snap_key p b i \<Longrightarrow> bm_get (view t) k = bm_get (view s) k"
    "ev = [new_event p b (active_version st) ValuePublish (s_version str) comment rid
       (compute_diff old resolved) True]"
proof -
  note [simp] = branch_keys_distinct [symmetric] branch_keys_distinct(5) [symmetric]
  obtain str old resolved warnings where steps:
    "validate_gray_rule rule = Inr ()"
    "bm_get (view s) (struct_key p) = Some (SStruct str)" "active_snapshot s p b st = Inr old"
    "materialize_resolved E s st str old policy = Inr (resolved, warnings)"
    and t: "t = (let s1 = save_pending (gray_snap_key p b (gray_seq st + 1)) (SSnap resolved) s;
        s2 = (if gray_seq st > 0 then delete_pending (gray_snap_key p b (gray_seq st)) s1 else s1)
      in save_pending (branch_state_key p b) (SBranch (st\<lparr>gray_seq := gray_seq st + 1,
       b_gray_rule := Some rule, last_request_id := Some rid, b_value_draft := bm_empty,
       bindings_dirty := False\<rparr>)) s2)"
    and ev: "ev = [new_event p b (active_version st) ValuePublish (s_version str) comment rid
       (compute_diff old resolved) True]"
    using assms by (auto simp: apply_gray_publish_def Let_def split: if_splits)
  show thesis
    by (rule that [OF steps _ _ _ ev]) (auto simp: t Let_def)
qed

lemma other_keys:
  "snapshot_key p b i \<noteq> branch_state_key p b" "diff_key p b i \<noteq> branch_state_key p b"
  "snapshot_key p b i \<noteq> gray_snap_key p b j" "diff_key p b i \<noteq> gray_snap_key p b j"
  by (metis branch_keys_distinct)+

lemma struct_key_other: "slash_free p \<Longrightarrow> slash_free b \<Longrightarrow>
    struct_key p \<noteq> branch_state_key p b \<and> struct_key p \<noteq> gray_snap_key p b j"
  by (simp add: key_eq)

text \<open>
  C12: A gray publish is isolated. No version anyone can ask for by number changes, and a client
  that asks for the current configuration gets the gray one, which is the materialised draft, if it
  has an identity and the rule matches it, and otherwise the stable one. For a client that was not in
  an earlier release, which this one replaces, that is exactly what it got before.
\<close>
theorem gray_publish_isolated:
  assumes "apply_gray_publish E p b rule comment rid policy s = Inr (t, ev)" "store_wf (view s)"
    and "bm_get (view s) (branch_state_key p b) = Some (SBranch st)" "last_request_id st \<noteq> Some rid"
  shows "\<exists>str old resolved warnings. get_structure s p = Inr (Some str) \<and>
    active_snapshot s p b st = Inr old \<and>
    materialize_resolved E s st str old policy = Inr (resolved, warnings) \<and>
    (\<forall>v. get_config t p b v = get_config s p b v) \<and>
    (\<forall>ctx. get_config_resolved t p b 0 ctx =
      (if instance_id ctx \<noteq> [] \<and> rule_matches rule ctx
       then Inr \<lparr>cs_project = p, cs_branch = b, cs_version = active_version st,
              cs_resolved_version = gray_seq st + 1, cs_structure_version = s_version str,
              cs_groups = resolved, cs_gray = True\<rparr>
       else get_config s p b 0)) \<and>
    (\<forall>ctx. instance_id ctx = [] \<or> \<not> rule_matches rule ctx \<longrightarrow> \<not> in_release st ctx \<longrightarrow>
      get_config_resolved t p b 0 ctx = get_config_resolved s p b 0 ctx)"
proof -
  obtain str old resolved warnings where steps:
    "validate_gray_rule rule = Inr ()"
    "bm_get (view s) (struct_key p) = Some (SStruct str)" "active_snapshot s p b st = Inr old"
    "materialize_resolved E s st str old policy = Inr (resolved, warnings)"
    "bm_get (view t) (branch_state_key p b) = Some (SBranch (st\<lparr>gray_seq := gray_seq st + 1,
       b_gray_rule := Some rule, last_request_id := Some rid, b_value_draft := bm_empty,
       bindings_dirty := False\<rparr>))"
    "bm_get (view t) (gray_snap_key p b (gray_seq st + 1)) = Some (SSnap resolved)"
    "\<And>k. k \<noteq> branch_state_key p b \<Longrightarrow> \<forall>i. k \<noteq> gray_snap_key p b i \<Longrightarrow> bm_get (view t) k = bm_get (view s) k"
    by (rule gray_publish_steps [OF assms(1,3,4)]) blast
  have names: "slash_free p" "slash_free b" using branch_found [OF assms(2,3)] by auto
  have same: "same_versions s t p b"
    unfolding same_versions_def using steps(7) other_keys struct_key_other [OF names] by simp
  have stable: "get_config t p b v = get_config s p b v" for v
    by (rule get_config_same [OF same assms(3) steps(5)]) simp
  have str: "structure_or_empty t p = Inr str"
    using structure_same [OF same] steps(2) by (simp add: structure_or_empty_def)
  have "get_config_resolved t p b 0 ctx =
      (if instance_id ctx \<noteq> [] \<and> rule_matches rule ctx
       then Inr \<lparr>cs_project = p, cs_branch = b, cs_version = active_version st,
              cs_resolved_version = gray_seq st + 1, cs_structure_version = s_version str,
              cs_groups = resolved, cs_gray = True\<rparr>
       else get_config s p b 0)" for ctx
    using read_gray [OF steps(5) _ _ _ _ _ str] read_stable [OF steps(5)] steps(6) stable by simp
  moreover have "get_config_resolved s p b 0 ctx = get_config s p b 0" if "\<not> in_release st ctx" for ctx
    using read_stable [OF assms(3)] that unfolding in_release_def by blast
  ultimately show ?thesis using steps(2-4) stable by auto
qed

definition sample_rule :: gray_rule where
  "sample_rule = \<lparr>match_labels = [\<lparr>sel_key = ''zone'', sel_value = ''eu''\<rparr>], ip_cidrs = [], percentage = None\<rparr>"

definition sample_client :: "string \<Rightarrow> client_ctx" where
  "sample_client zone = \<lparr>instance_id = ''i-1'', labels = bm_insert ''zone'' zone bm_empty, client_ip = None\<rparr>"

lemma sample_clients:
  "instance_id (sample_client z) \<noteq> []" "rule_matches sample_rule (sample_client z) \<longleftrightarrow> z = ''eu''"
  by (simp_all add: sample_client_def sample_rule_def rule_matches_iff)

abbreviation "sample_gray \<equiv> apply_gray_publish sample_ext ''shop'' ''dev'' sample_rule ''gray'' ''g1'' Block (sample_sm sample_branch)"

lemma sample_gray_succeeds: "succeeds sample_gray"
  by code_simp

lemma sample_branch_numbers:
  "active_version sample_branch = 0" "gray_seq sample_branch = 0" "last_request_id sample_branch = None"
  by (simp_all add: sample_branch_def branch_new_def)

theorem gray_publish_isolated_witness:
  "\<exists>t ev c. sample_gray = Inr (t, ev) \<and>
     get_config_resolved t ''shop'' ''dev'' 0 (sample_client ''eu'') = Inr c \<and> cs_gray c \<and>
     get_config_resolved t ''shop'' ''dev'' 0 (sample_client ''us'') = Inl (err NotFound)"
proof -
  obtain t ev where run: "sample_gray = Inr (t, ev)" by (rule succeedsE [OF sample_gray_succeeds])
  have "get_config (sample_sm sample_branch) ''shop'' ''dev'' 0 = Inl (err NotFound)"
    by (simp add: get_config_def sample_branch_numbers)
  then show ?thesis
    using gray_publish_isolated [OF run, of sample_branch] run
    by (fastforce simp: sample_clients sample_branch_numbers)
qed

section \<open>Aborting\<close>

text \<open>
  After an abort nobody reads gray any more: every request of every client is answered as the
  stable configuration was before, the gray snapshot is gone, and apart from it and the state of the
  branch nothing has changed.
\<close>
lemma gray_abort_result:
  assumes "apply_gray_abort p b comment rid s = Inr (t, ev)" "store_wf (view s)"
    and "bm_get (view s) (branch_state_key p b) = Some (SBranch st)" "last_request_id st \<noteq> Some rid"
  shows "(\<forall>v ctx. get_config_resolved t p b v ctx = get_config s p b v) \<and>
    gray_snapshot_of t p b (gray_seq st) = Inl (err NotFound) \<and>
    get_branch_state t p b = Inr (Some (st\<lparr>gray_seq := 0, b_gray_rule := None, last_request_id := Some rid\<rparr>)) \<and>
    (\<forall>k. k \<noteq> branch_state_key p b \<longrightarrow> k \<noteq> gray_snap_key p b (gray_seq st) \<longrightarrow>
       bm_get (view t) k = bm_get (view s) k)"
proof -
  let ?st = "st\<lparr>gray_seq := 0, b_gray_rule := None, last_request_id := Some rid\<rparr>"
  have t: "t = save_pending (branch_state_key p b) (SBranch ?st)
      (delete_pending (gray_snap_key p b (gray_seq st)) s)"
    using assms(1,3,4) by (auto simp: apply_gray_abort_def Let_def split: if_splits)
  have names: "slash_free p" "slash_free b" using branch_found [OF assms(2,3)] by auto
  have state: "bm_get (view t) (branch_state_key p b) = Some (SBranch ?st)" by (simp add: t)
  have same: "same_versions s t p b"
    unfolding same_versions_def using other_keys struct_key_other [OF names] by (simp add: t)
  have "get_config_resolved t p b v ctx = get_config s p b v" for v ctx
    using read_stable [OF state] get_config_same [OF same assms(3) state] by simp
  then show ?thesis using state by (simp add: t gray_snapshot_of_def load_merged_eq)
qed

section \<open>Promoting\<close>

lemma gray_promote_steps:
  assumes "bm_get (view s) (branch_state_key p b) = Some (SBranch st)"
    and "last_request_id st \<noteq> Some rid" "\<not> no_gray st"
    and "bm_get (view s) (gray_snap_key p b (gray_seq st)) = Some (SSnap new)"
    and "active_snapshot s p b st = Inr old"
  shows "apply_gray_promote p b comment rid now operator s =
    (let vno = max (active_version st) (gray_seq st) + 1 in
     Inr (save_pending (branch_state_key p b) (SBranch (st\<lparr>active_version := vno, gray_seq := 0,
         b_gray_rule := None, last_request_id := Some rid\<rparr>))
       (delete_pending (gray_snap_key p b (gray_seq st))
         (write_version_snapshot p b vno old new (new_record vno (structure_version st) now
            (operator_id operator) comment None ValuePublish True) s)),
       [new_event p b vno ValuePublish (structure_version st) comment rid (compute_diff old new) True]))"
  using assms by (simp add: apply_gray_promote_def Let_def gray_snapshot_of_def load_merged_eq decode_with_def
      next_monotonic_def)

lemma content_delete_gray [simp]:
  "content (bm_remove (gray_snap_key p b i) m) p b = content m p b"
  by (rule content_other_key) (metis other_keys)+

text \<open>
  C13: A promotion whose gray number is not above the active version makes the gray content the next
  version for everybody, up to the equality of values; the older versions keep their content and the
  gray snapshot is gone.
\<close>
theorem gray_promote_result:
  assumes "store_wf (view s)" "bm_get (view s) (branch_state_key p b) = Some (SBranch st)"
    and "last_request_id st \<noteq> Some rid" "\<not> no_gray st"
    and "bm_get (view s) (gray_snap_key p b (gray_seq st)) = Some (SSnap new)"
    and "readable (view s) p b (active_version st)" "gray_seq st \<le> active_version st"
  shows "\<exists>t ev x. apply_gray_promote p b comment rid now operator s = Inr (t, ev) \<and>
    map ev_version ev = [active_version st + 1] \<and> snap_sim x new \<and>
    snapshot_of t p b (active_version st + 1) = Inr x \<and>
    (\<forall>ctx. get_config_resolved t p b 0 ctx = get_config t p b (active_version st + 1)) \<and>
    (\<forall>v \<le> active_version st. content (view t) p b v = content (view s) p b v) \<and>
    gray_snapshot_of t p b (gray_seq st) = Inl (err NotFound)"
proof -
  have names: "slash_free p" "slash_free b" using branch_found [OF assms(1,2)] by auto
  define old where "old = content_of (view s) p b (active_version st)"
  have old: "active_snapshot s p b st = Inr old"
    using active_snapshot_content [OF assms(6)] by (simp add: old_def)
  let ?n = "active_version st + 1"
  define rec where "rec = new_record ?n (structure_version st) now (operator_id operator) comment None ValuePublish True"
  let ?st = "st\<lparr>active_version := ?n, gray_seq := 0, b_gray_rule := None, last_request_id := Some rid\<rparr>"
  let ?u = "save_pending (branch_state_key p b) (SBranch ?st) (write_version_snapshot p b ?n old new rec s)"
  let ?t = "save_pending (branch_state_key p b) (SBranch ?st)
     (delete_pending (gray_snap_key p b (gray_seq st)) (write_version_snapshot p b ?n old new rec s))"
  have run: "apply_gray_promote p b comment rid now operator s =
     Inr (?t, [new_event p b ?n ValuePublish (structure_version st) comment rid (compute_diff old new) True])"
    using gray_promote_steps [OF assms(2-5) old, of comment now operator] assms(7) by (simp add: max_def rec_def)
  have same: "content (view ?t) p b = content (view ?u) p b"
    using names by simp
  note next_version = write_next_readable [OF names assms(6) old_def refl, where v = "SBranch ?st" and new = new and rec = rec]
  obtain x where x: "content (view ?t) p b ?n = Some x" "snap_sim x new"
    using next_version(1) same by auto
  have state: "bm_get (view ?t) (branch_state_key p b) = Some (SBranch ?st)" by simp
  have "get_config_resolved ?t p b 0 ctx = get_config ?t p b ?n" for ctx
    using read_stable [OF state] state by (simp add: get_config_def Let_def)
  moreover have "content (view ?t) p b v = content (view s) p b v" if "v \<le> active_version st" for v
    unfolding same by (rule next_version(2) [OF that])
  ultimately show ?thesis
    unfolding run using x snapshot_of_content [OF x(1)]
    by (auto simp: new_event_def gray_snapshot_of_def load_merged_eq branch_keys_distinct)
qed

text \<open>The loop that reads a version stops at the first number with nothing stored.\<close>

lemma replay_gap:
  assumes "0 < u" "content (view s) p b u = Some x" "u \<le> a" "a < n"
    and "\<And>i. u \<le> i \<Longrightarrow> i \<le> a \<Longrightarrow> content (view s) p b i \<noteq> None"
    and "bm_get (view s) (snapshot_key p b (Suc a)) = None" "bm_get (view s) (diff_key p b (Suc a)) = None"
  shows "replay s p b [u + 1..<n + 1] x = Inl (err NotFound)"
proof -
  obtain k where a: "a = u + k" using assms(3) le_Suc_ex by blast
  have "[u + 1..<n + 1] = [u + 1..<u + k + 1] @ [Suc a..<n + 1]"
    using assms(4) upt_add_eq_append [of "u + 1" "u + k + 1" "n - a"] by (simp add: a)
  moreover have "[Suc a..<n + 1] = Suc a # [Suc (Suc a)..<n + 1]" using assms(4) by (simp add: upt_rec)
  ultimately show ?thesis
    using replay_through [OF assms(1,2), of k "[Suc a..<n + 1]"] assms(5-) a
    by (auto simp: read_full_def load_merged_eq)
qed

lemma snapshot_of_gap:
  assumes "readable (view s) p b a" "a < n"
    and "bm_get (view s) (snapshot_key p b (Suc a)) = None" "bm_get (view s) (diff_key p b (Suc a)) = None"
    and "\<And>i. a < i \<Longrightarrow> i \<le> n \<Longrightarrow> bm_get (view s) (snapshot_key p b i) = None"
  shows "snapshot_of s p b n = Inl (err NotFound)"
proof -
  have n: "0 < n" using assms(2) by simp
  note base = base_of_props [OF n]
  show ?thesis
  proof (cases "a < base_of n")
    case True
    then show ?thesis using n base assms(2,5) by (simp add: snapshot_of_def Let_def load_merged_eq read_full_def)
  next
    case False
    then have "content (view s) p b a \<noteq> None" using assms(1) base(1) by (auto simp: readable_def)
    then have below: "\<exists>y. content (view s) p b i = Some y" if "base_of n \<le> i" "i \<le> a" for i
      using that base(4) assms(2) unfolding content_def
      by (auto intro!: chain_content_below [where v = a])
    then obtain y where y: "content (view s) p b (base_of n) = Some y" using False by force
    then have "load_merged as_snap s (snapshot_key p b (base_of n)) = Inr (Some y)"
      using base(1,3) by (simp add: content_checkpoint full_at_Some load_merged_Some)
    moreover have "replay s p b [base_of n + 1..<n + 1] y = Inl (err NotFound)"
      using False below assms(2-4) by (intro replay_gap [OF base(1) y, of a]) auto
    ultimately show ?thesis using n by (simp add: snapshot_of_def Let_def)
  qed
qed

text \<open>
  C14: A promotion whose gray number is above the active version - the first release of a branch, or
  a release that a structure publish has moved - skips a version number. Unless the number it takes
  is a checkpoint, the version is stored as a difference from a version that does not exist: the
  command succeeds, but from then on no client can read the configuration, and no later publish goes
  through as long as the stored versions stay as they are.
\<close>
theorem gray_promote_skips:
  assumes "store_wf (view s)" "bm_get (view s) (branch_state_key p b) = Some (SBranch st)"
    and "last_request_id st \<noteq> Some rid" "\<not> no_gray st"
    and "bm_get (view s) (gray_snap_key p b (gray_seq st)) = Some (SSnap new)"
    and "readable (view s) p b (active_version st)" "active_version st < gray_seq st"
    and "\<not> is_checkpoint (gray_seq st + 1)"
    and "\<forall>i > active_version st. bm_get (view s) (snapshot_key p b i) = None \<and> bm_get (view s) (diff_key p b i) = None"
  shows "\<exists>t ev. apply_gray_promote p b comment rid now operator s = Inr (t, ev) \<and>
    (\<forall>ctx. get_config_resolved t p b 0 ctx = Inl (err NotFound)) \<and>
    (\<forall>u st' str E comment' rid' now' operator' policy.
       same_versions t u p b \<and> get_branch_state u p b = Inr (Some st') \<and>
       active_version st' = gray_seq st + 1 \<and> get_structure u p = Inr (Some str) \<and>
       last_request_id st' \<noteq> Some rid' \<and> \<not> nothing_to_publish st' \<longrightarrow>
       apply_publish E p b comment' rid' now' operator' policy u = Inl (err NotFound))"
proof -
  have names: "slash_free p" "slash_free b" using branch_found [OF assms(1,2)] by auto
  define old where "old = content_of (view s) p b (active_version st)"
  have old: "active_snapshot s p b st = Inr old"
    using active_snapshot_content [OF assms(6)] by (simp add: old_def)
  let ?n = "gray_seq st + 1"
  define rec where "rec = new_record ?n (structure_version st) now (operator_id operator) comment None ValuePublish True"
  let ?st = "st\<lparr>active_version := ?n, gray_seq := 0, b_gray_rule := None, last_request_id := Some rid\<rparr>"
  define t where "t = save_pending (branch_state_key p b) (SBranch ?st)
     (delete_pending (gray_snap_key p b (gray_seq st)) (write_version_snapshot p b ?n old new rec s))"
  have run: "apply_gray_promote p b comment rid now operator s =
     Inr (t, [new_event p b ?n ValuePublish (structure_version st) comment rid (compute_diff old new) True])"
    using gray_promote_steps [OF assms(2-5) old, of comment now operator] assms(7) by (simp add: max_def rec_def t_def)
  have kept: "bm_get (view t) (snapshot_key p b i) = bm_get (view s) (snapshot_key p b i)"
    "i \<noteq> ?n \<Longrightarrow> bm_get (view t) (diff_key p b i) = bm_get (view s) (diff_key p b i)" for i
    using assms(8) names other_keys by (simp_all add: t_def view_write_version) (simp_all add: key_eq)
  have "readable (view t) p b (active_version st)"
    using assms(6,7) kept readable_cong [of "active_version st" "view t" p b "view s"] by simp
  then have gap: "snapshot_of t p b ?n = Inl (err NotFound)"
    using assms(7,9) kept by (intro snapshot_of_gap [of t p b "active_version st"]) auto
  have state: "bm_get (view t) (branch_state_key p b) = Some (SBranch ?st)" by (simp add: t_def)
  have "get_config_resolved t p b 0 ctx = Inl (err NotFound)" for ctx
    using read_stable [OF state] state gap by (simp add: get_config_def Let_def)
  moreover have "apply_publish E p b comment' rid' now' operator' policy u = Inl (err NotFound)"
    if "same_versions t u p b" "get_branch_state u p b = Inr (Some st')" "active_version st' = ?n"
      "get_structure u p = Inr (Some str)" "last_request_id st' \<noteq> Some rid'" "\<not> nothing_to_publish st'"
    for u st' str E comment' rid' now' operator' policy
    using that(2-) snapshot_of_same [OF that(1), of ?n] gap by (simp add: apply_publish_def active_snapshot_def)
  ultimately show ?thesis using run by blast
qed

text \<open>A running release on the branch with two versions, and on the branch without any.\<close>

definition with_release :: "branch_state \<Rightarrow> branch_state" where
  "with_release st = st\<lparr>gray_seq := 1, b_gray_rule := Some sample_rule\<rparr>"

definition release_sm :: "sval mem_store \<Rightarrow> sm" where
  "release_sm m = sm_new (bm_insert (gray_snap_key ''shop'' ''dev'' 1) (SSnap (sample_snap 6000)) m)"

lemma release_view [simp]:
  "view (release_sm m) = bm_insert (gray_snap_key ''shop'' ''dev'' 1) (SSnap (sample_snap 6000)) m"
  by (simp add: release_sm_def)

lemma release_wf: "store_wf m \<Longrightarrow> store_wf (view (release_sm m))"
  by (simp add: key_fold store_wf_insert)

lemma release_get:
  "bm_get (view (release_sm m)) (branch_state_key ''shop'' ''dev'') = bm_get m (branch_state_key ''shop'' ''dev'')"
  "bm_get (view (release_sm m)) (snapshot_key ''shop'' ''dev'' i) = bm_get m (snapshot_key ''shop'' ''dev'' i)"
  "bm_get (view (release_sm m)) (diff_key ''shop'' ''dev'' i) = bm_get m (diff_key ''shop'' ''dev'' i)"
  by (simp_all add: key_eq)

lemma with_release_numbers [simp]:
  "gray_seq (with_release st) = 1" "active_version (with_release st) = active_version st"
  "last_request_id (with_release st) = last_request_id st" "\<not> no_gray (with_release st)"
  by (simp_all add: with_release_def no_gray_def)

theorem gray_promote_result_witness:
  "\<exists>t ev x. apply_gray_promote ''shop'' ''dev'' ''go'' ''p1'' 9 ''root''
       (release_sm (with_versions (sample_store (with_release sample_branch2)))) = Inr (t, ev) \<and>
     snapshot_of t ''shop'' ''dev'' 3 = Inr x \<and> snap_sim x (sample_snap 6000)"
proof -
  let ?st = "with_release sample_branch2"
  let ?s = "release_sm (with_versions (sample_store ?st))"
  have "bm_get (view ?s) (branch_state_key ''shop'' ''dev'') = Some (SBranch ?st)"
    unfolding release_get by simp
  moreover have "active_version sample_branch2 = 2" "last_request_id sample_branch2 = Some ''r2''"
    by (simp_all add: sample_branch2_def)
  moreover have "readable (view ?s) ''shop'' ''dev'' 2"
    using sample2_content readable_cong [of 2 "view ?s" "''shop''" "''dev''" "with_versions (sample_store ?st)"]
    by (simp add: release_get readable_def del: release_view)
  ultimately show ?thesis
    using gray_promote_result [of ?s "''shop''" "''dev''" ?st "''p1''" "sample_snap 6000" "''go''" 9 "''root''"]
      release_wf [OF sample2_wf]
    by fastforce
qed

theorem gray_promote_skips_witness:
  "\<exists>t ev. apply_gray_promote ''shop'' ''dev'' ''go'' ''p1'' 9 ''root''
       (release_sm (sample_store (with_release (branch_new 1)))) = Inr (t, ev) \<and>
     get_config_resolved t ''shop'' ''dev'' 0 (sample_client ''eu'') = Inl (err NotFound)"
proof -
  let ?st = "with_release (branch_new 1)"
  let ?s = "release_sm (sample_store ?st)"
  have state: "bm_get (view ?s) (branch_state_key ''shop'' ''dev'') = Some (SBranch ?st)"
    unfolding release_get by simp
  have new: "active_version ?st = 0" "last_request_id ?st \<noteq> Some ''p1''"
    by (simp_all add: branch_new_def)
  have none: "\<forall>i > active_version ?st. bm_get (view ?s) (snapshot_key ''shop'' ''dev'' i) = None \<and>
      bm_get (view ?s) (diff_key ''shop'' ''dev'' i) = None"
    unfolding release_get sample_store_def by (simp add: key_eq)
  have "readable (view ?s) ''shop'' ''dev'' (active_version ?st)" "active_version ?st < gray_seq ?st"
    "\<not> is_checkpoint (gray_seq ?st + 1)"
    unfolding new by (simp_all add: readable_def is_checkpoint_def CHECKPOINT_INTERVAL_def)
  moreover have "bm_get (view ?s) (gray_snap_key ''shop'' ''dev'' (gray_seq ?st)) = Some (SSnap (sample_snap 6000))"
    by simp
  ultimately show ?thesis
    using gray_promote_skips [OF release_wf [OF sample_wf] state new(2) with_release_numbers(4) _ _ _ _ none]
    by blast
qed

section \<open>Who matches a rule\<close>

text \<open>
  The bit masks of the address test compute the network: a client matches a rule iff it carries
  one of the labels, or its address has the first bits of a listed network of its own family, as
  many as the prefix says, or it has an identity whose hash modulo 100 is below the percentage.
\<close>
lemma rule_matches_spec:
  "rule_matches rule ctx \<longleftrightarrow>
     (\<exists>sel. sel \<in> set (match_labels rule) \<and> bm_get (labels ctx) (sel_key sel) = Some (sel_value sel)) \<or>
     (\<exists>ip cidr addr p. client_ip ctx = Some ip \<and> cidr \<in> set (ip_cidrs rule) \<and>
        parse_cidr cidr = Some (addr, p) \<and> same_network p ip addr) \<or>
     (\<exists>pct. percentage rule = Some pct \<and> instance_id ctx \<noteq> [] \<and>
        unat (fnv1a_hash (instance_id ctx)) mod 100 < unat pct)"
proof -
  have "h mod 100 < pct \<longleftrightarrow> unat h mod 100 < unat pct" for h pct :: "32 word"
    by (simp add: word_less_nat_alt unat_mod)
  then show ?thesis by (auto simp: rule_matches_iff ip_in_cidr_network)
qed

text \<open>
  A rollout only grows: raising the percentage keeps every client that was in, at 100 everybody
  with an identity is in, and a validated rule has a percentage of at most 100 and only networks
  that parse, with a prefix that fits the family.
\<close>
theorem rollout_grows:
  "(percentage rule = Some p \<and> p \<le> q \<and> rule_matches rule ctx \<longrightarrow> rule_matches (rule\<lparr>percentage := Some q\<rparr>) ctx) \<and>
   (percentage rule = Some 100 \<and> instance_id ctx \<noteq> [] \<longrightarrow> rule_matches rule ctx) \<and>
   (validate_gray_rule rule = Inr () \<longrightarrow>
      (match_labels rule \<noteq> [] \<or> ip_cidrs rule \<noteq> [] \<or> percentage rule \<noteq> None) \<and>
      (\<forall>sel \<in> set (match_labels rule). sel_key sel \<noteq> [] \<and> sel_value sel \<noteq> []) \<and>
      (\<forall>cidr \<in> set (ip_cidrs rule). \<exists>addr n. parse_cidr cidr = Some (addr, n) \<and>
         n \<le> (case addr of V4 _ \<Rightarrow> 32 | V6 _ \<Rightarrow> 128)) \<and>
      (\<forall>pct. percentage rule = Some pct \<longrightarrow> unat pct \<le> 100))"
  using rule_matches_percentage_mono [of rule ctx p q] rule_matches_full_rollout [of rule ctx]
  by (auto simp: validate_gray_rule_ok word_le_nat_alt)

theorem rollout_grows_witness:
  "rule_matches (sample_rule\<lparr>percentage := Some 100\<rparr>) (sample_client ''us'') \<and>
   unat (the (percentage (\<lparr>match_labels = [], ip_cidrs = [''10.0.0.0/8''], percentage = Some 20\<rparr>))) \<le> 100"
proof -
  let ?r = "sample_rule\<lparr>percentage := Some 100\<rparr>"
  let ?v = "\<lparr>match_labels = [], ip_cidrs = [''10.0.0.0/8''], percentage = Some 20\<rparr>"
  have "rule_matches ?r (sample_client ''us'')"
    using rollout_grows [of ?r undefined undefined "sample_client ''us''"] sample_clients by simp
  moreover have "parse_cidr ''10.0.0.0/8'' = Some (V4 0x0A000000, 8)"
    by (simp add: parse_cidr_def parse_ip_def read_v4_def read_octet_def read_number_def Let_def is_digit_def
        hex_val_def parse_u32_def parse_unsigned_def dec_value_def digit_val_def)
  then have "validate_gray_rule ?v = Inr ()"
    by (simp add: validate_gray_rule_def)
  then have "unat (the (percentage ?v)) \<le> 100"
    using rollout_grows [of ?v undefined undefined "sample_client ''us''"] by simp
  ultimately show ?thesis by blast
qed

end
