(* ===== verification/Version_Steps.thy ===== *)
theory Version_Steps
  imports Publishing
begin

text \<open>
  What a command does to the versions of the branches, seen as a sequence of version steps on the
  view: changes of other records, changes of a branch that keep its active version, and the writing
  of a version above the active one together with the state that points at it. Every command but the
  two deletions is such a sequence (the lemmas of this theory); by rule induction, stored versions
  are never overwritten, their numbers stay within the active version, active versions stay
  readable, and every event describes the step from one version to the next. The deletions remove
  whole branches.
\<close>

section \<open>Records of versions\<close>

definition version_data :: "string \<Rightarrow> bool" where
  "version_data k \<longleftrightarrow> (\<exists>p b n. slash_free p \<and> slash_free b \<and>
     k \<in> {project_key p, branch_state_key p b, version_key p b n, snapshot_key p b n, diff_key p b n})"

definition agree :: "sval mem_store \<Rightarrow> sval mem_store \<Rightarrow> bool" where
  "agree m n \<longleftrightarrow> (\<forall>k. version_data k \<longrightarrow> bm_get n k = bm_get m k)"

lemma version_dataI:
  assumes "slash_free p" "slash_free b"
  shows "version_data (project_key p)" "version_data (branch_state_key p b)" "version_data (version_key p b n)"
    "version_data (snapshot_key p b n)" "version_data (diff_key p b n)"
  using assms unfolding version_data_def by blast+

lemma agree_get:
  assumes "agree m n" "slash_free p" "slash_free b"
  shows "bm_get n (branch_state_key p b) = bm_get m (branch_state_key p b)"
    "bm_get n (project_key p) = bm_get m (project_key p)"
    "bm_get n (version_key p b i) = bm_get m (version_key p b i)"
    "bm_get n (snapshot_key p b i) = bm_get m (snapshot_key p b i)"
    "bm_get n (diff_key p b i) = bm_get m (diff_key p b i)"
  using assms version_dataI by (simp_all add: agree_def)

lemma agree_refl [simp]: "agree m m"
  by (simp add: agree_def)

lemma agree_content: "agree m n \<Longrightarrow> slash_free p \<Longrightarrow> slash_free b \<Longrightarrow> content n p b = content m p b"
  unfolding content_def by (auto intro!: ext chain_content_cong simp: full_at_def diff_at_def agree_get)

lemma agree_insert: "agree m n \<Longrightarrow> \<not> version_data k \<Longrightarrow> agree m (bm_insert k v n)"
  by (auto simp: agree_def)

lemma agree_remove: "agree m n \<Longrightarrow> \<not> version_data k \<Longrightarrow> agree m (bm_remove k n)"
  by (auto simp: agree_def)

lemma version_data_project: "version_data k \<Longrightarrow> starts_with k K_PROJECT"
  by (auto simp: version_data_def key_defs)

lemma not_version_data:
  "slash_free p \<Longrightarrow> \<not> version_data (struct_key p)" "slash_free p \<Longrightarrow> \<not> version_data (struct_draft_key p)"
  "slash_free p \<Longrightarrow> slash_free b \<Longrightarrow> \<not> version_data (gray_snap_key p b n)"
  "\<not> version_data (shared_key k)" "\<not> version_data (shared_draft_key k)" "\<not> version_data (idx_pname k)"
proof -
  show "slash_free p \<Longrightarrow> \<not> version_data (struct_key p)" "slash_free p \<Longrightarrow> \<not> version_data (struct_draft_key p)"
      "slash_free p \<Longrightarrow> slash_free b \<Longrightarrow> \<not> version_data (gray_snap_key p b n)"
    by (auto simp: version_data_def key_eq)
  show "\<not> version_data (shared_key k)" "\<not> version_data (shared_draft_key k)" "\<not> version_data (idx_pname k)"
    by (auto dest!: version_data_project simp: key_defs)
qed

text \<open>The view after a version was written; the old content is only used for the difference.\<close>

definition write_view ::
  "project_id \<Rightarrow> branch_name \<Rightarrow> nat \<Rightarrow> snapshot \<Rightarrow> snapshot \<Rightarrow> version_record \<Rightarrow> sval mem_store \<Rightarrow> sval mem_store" where
  "write_view p b vno old new rec m = view (write_version_snapshot p b vno old new rec (sm_new m))"

lemma view_write [simp]: "view (write_version_snapshot p b vno old new rec s) = write_view p b vno old new rec (view s)"
  unfolding write_view_def by (simp add: view_write_version)

lemma write_view_other:
  "k \<notin> {version_key p b vno, snapshot_key p b vno, diff_key p b vno} \<Longrightarrow>
     bm_get (write_view p b vno old new rec m) k = bm_get m k"
  unfolding write_view_def by (simp add: write_version_other del: view_write)

section \<open>Version steps\<close>

inductive vsteps :: "bool \<Rightarrow> sval mem_store \<Rightarrow> publish_event list \<Rightarrow> sval mem_store \<Rightarrow> bool" for tame m where
  start: "vsteps tame m [] m"
| other: "vsteps tame m evs n \<Longrightarrow> agree n n' \<Longrightarrow> vsteps tame m evs n'"
| state: "vsteps tame m evs n \<Longrightarrow> slash_free p \<Longrightarrow> slash_free b \<Longrightarrow>
    bm_get n (branch_state_key p b) = Some (SBranch st) \<Longrightarrow> active_version st' = active_version st \<Longrightarrow>
    vsteps tame m evs (bm_insert (branch_state_key p b) (SBranch st') n)"
| branch: "vsteps tame m evs n \<Longrightarrow> slash_free p \<Longrightarrow> slash_free b \<Longrightarrow>
    bm_get n (branch_state_key p b) = None \<Longrightarrow> bm_get n (project_key p) \<noteq> None \<Longrightarrow> active_version st = 0 \<Longrightarrow>
    vsteps tame m evs (bm_insert (branch_state_key p b) (SBranch st) n)"
| proj: "vsteps tame m evs n \<Longrightarrow> slash_free p \<Longrightarrow> vsteps tame m evs (bm_insert (project_key p) v n)"
| notice: "vsteps tame m evs n \<Longrightarrow>
    slash_free (ev_project e) \<Longrightarrow> slash_free (ev_branch e) \<Longrightarrow>
    bm_get n (branch_state_key (ev_project e) (ev_branch e)) = Some (SBranch st) \<Longrightarrow>
    ev_version e = active_version st \<Longrightarrow> ev_gray e \<Longrightarrow> vsteps tame m (evs @ [e]) n"
| wrote: "vsteps tame m evs n \<Longrightarrow> slash_free p \<Longrightarrow> slash_free b \<Longrightarrow>
    bm_get n (branch_state_key p b) = Some (SBranch st) \<Longrightarrow> active_version st < vno \<Longrightarrow>
    (tame \<Longrightarrow> vno = active_version st + 1) \<Longrightarrow>
    (readable n p b (active_version st) \<Longrightarrow> old = content_of n p b (active_version st)) \<Longrightarrow>
    active_version st' = vno \<Longrightarrow>
    ev_project e = p \<Longrightarrow> ev_branch e = b \<Longrightarrow> ev_version e = vno \<Longrightarrow>
    snap_sim (sm_apply_diff old (ev_changes e)) new \<Longrightarrow>
    vsteps tame m (evs @ [e])
      (bm_insert (branch_state_key p b) (SBranch st') (write_view p b vno old new rec n))"

inductive_cases vsteps_NilE: "vsteps tame m [] n"

lemma vsteps_trans: "vsteps tame n evs' u \<Longrightarrow> vsteps tame m evs n \<Longrightarrow> vsteps tame m (evs @ evs') u"
proof (induction rule: vsteps.induct)
  case (wrote evs1 n1 p b st vno old st' e new rec)
  then have "vsteps tame m ((evs @ evs1) @ [e])
      (bm_insert (branch_state_key p b) (SBranch st') (write_view p b vno old new rec n1))"
    by (intro vsteps.wrote) auto
  then show ?case by simp
next
  case (notice evs1 n1 e st)
  then have "vsteps tame m ((evs @ evs1) @ [e]) n1" by (intro vsteps.notice)
  then show ?case by simp
next
  case (other evs1 n1 n2)
  then show ?case by (intro vsteps.other [of tame m "evs @ evs1" n1 n2])
next
  case (state evs1 n1 p b st st')
  then show ?case by (intro vsteps.state [of tame m "evs @ evs1" n1 p b st st'])
next
  case (branch evs1 n1 p b st)
  then show ?case by (intro vsteps.branch [of tame m "evs @ evs1" n1 p b st])
next
  case (proj evs1 n1 p v)
  then show ?case by (intro vsteps.proj)
qed simp

lemma vsteps_weaken:
  assumes "vsteps tame m evs n" "tame' \<Longrightarrow> tame"
  shows "vsteps tame' m evs n"
  using assms(1)
proof (induction rule: vsteps.induct)
  case (wrote evs n p b st vno old st' e new rec)
  then show ?case using assms(2) by (intro vsteps.wrote) auto
qed (rule vsteps.intros; assumption)+

section \<open>What version steps keep\<close>

text \<open>The numbers of stored versions lie between 1 and the active version of an existing branch.\<close>

definition ver_bound :: "sval mem_store \<Rightarrow> bool" where
  "ver_bound m \<longleftrightarrow> (\<forall>p b n k. slash_free p \<longrightarrow> slash_free b \<longrightarrow>
     k \<in> {version_key p b n, snapshot_key p b n, diff_key p b n} \<longrightarrow> bm_get m k \<noteq> None \<longrightarrow>
     (\<exists>st. bm_get m (branch_state_key p b) = Some (SBranch st) \<and> 0 < n \<and> n \<le> active_version st))"

definition ver_kept :: "sval mem_store \<Rightarrow> sval mem_store \<Rightarrow> bool" where
  "ver_kept m m' \<longleftrightarrow> (\<forall>p b n k. slash_free p \<longrightarrow> slash_free b \<longrightarrow>
     k \<in> {version_key p b n, snapshot_key p b n, diff_key p b n} \<longrightarrow> bm_get m k \<noteq> None \<longrightarrow>
     bm_get m' k = bm_get m k)"

text \<open>The current configuration of every branch that has one can be read.\<close>

definition live :: "sval mem_store \<Rightarrow> bool" where
  "live m \<longleftrightarrow> (\<forall>p b st. slash_free p \<longrightarrow> slash_free b \<longrightarrow>
     bm_get m (branch_state_key p b) = Some (SBranch st) \<longrightarrow> readable m p b (active_version st))"

lemma ver_boundD:
  assumes "ver_bound m" "slash_free p" "slash_free b"
    and "k \<in> {version_key p b n, snapshot_key p b n, diff_key p b n}" "bm_get m k \<noteq> None"
  obtains st where "bm_get m (branch_state_key p b) = Some (SBranch st)" "0 < n" "n \<le> active_version st"
  using assms unfolding ver_bound_def by meson

lemma ver_bound_none:
  assumes "ver_bound m" "slash_free p" "slash_free b" "bm_get m (branch_state_key p b) = Some (SBranch st)"
    and "active_version st < n"
  shows "bm_get m (version_key p b n) = None" "bm_get m (snapshot_key p b n) = None" "bm_get m (diff_key p b n) = None"
proof -
  have "bm_get m k = None" if "k \<in> {version_key p b n, snapshot_key p b n, diff_key p b n}" for k
    using ver_boundD [OF assms(1-3) that] assms(4,5) by force
  then show "bm_get m (version_key p b n) = None" "bm_get m (snapshot_key p b n) = None" "bm_get m (diff_key p b n) = None"
    by blast+
qed

text \<open>The keys of one version, and how a step treats them.\<close>

definition ver_key :: "project_id \<Rightarrow> branch_name \<Rightarrow> nat \<Rightarrow> string \<Rightarrow> bool" where
  "ver_key p b n k \<longleftrightarrow> k \<in> {version_key p b n, snapshot_key p b n, diff_key p b n}"

lemma ver_key_simps [simp]:
  "ver_key p b n (version_key p b n)" "ver_key p b n (snapshot_key p b n)" "ver_key p b n (diff_key p b n)"
  by (simp_all add: ver_key_def)

lemma ver_key_not_state: "ver_key p b n k \<Longrightarrow> slash_free p \<Longrightarrow> slash_free b \<Longrightarrow> slash_free q \<Longrightarrow> slash_free c \<Longrightarrow>
    k \<noteq> branch_state_key q c"
  by (auto simp: ver_key_def key_eq)

lemma ver_key_unique: "ver_key p b n k \<Longrightarrow> ver_key q c i k \<Longrightarrow> slash_free p \<Longrightarrow> slash_free b \<Longrightarrow>
    slash_free q \<Longrightarrow> slash_free c \<Longrightarrow> q = p \<and> c = b \<and> i = n"
  by (auto simp: ver_key_def key_eq)

lemma state_key_eq: "slash_free p \<Longrightarrow> slash_free b \<Longrightarrow> slash_free q \<Longrightarrow> slash_free c \<Longrightarrow>
    branch_state_key q c = branch_state_key p b \<longleftrightarrow> q = p \<and> c = b"
  by (auto simp: key_eq)

lemma ver_bound_alt: "ver_bound m \<longleftrightarrow> (\<forall>p b n k. slash_free p \<longrightarrow> slash_free b \<longrightarrow>
     ver_key p b n k \<longrightarrow> bm_get m k \<noteq> None \<longrightarrow>
     (\<exists>st. bm_get m (branch_state_key p b) = Some (SBranch st) \<and> 0 < n \<and> n \<le> active_version st))"
  unfolding ver_bound_def ver_key_def ..

lemma ver_kept_alt: "ver_kept m m' \<longleftrightarrow> (\<forall>p b n k. slash_free p \<longrightarrow> slash_free b \<longrightarrow>
     ver_key p b n k \<longrightarrow> bm_get m k \<noteq> None \<longrightarrow> bm_get m' k = bm_get m k)"
  unfolding ver_kept_def ver_key_def ..

lemma ver_kept_refl [simp]: "ver_kept m m"
  by (simp add: ver_kept_def)

lemma ver_kept_trans: "ver_kept m n \<Longrightarrow> ver_kept n u \<Longrightarrow> ver_kept m u"
  unfolding ver_kept_alt by metis

lemma agree_bound:
  assumes "agree m n" "ver_bound m"
  shows "ver_bound n" "ver_kept m n"
proof -
  have get: "bm_get n k = bm_get m k" if "ver_key p b i k" "slash_free p" "slash_free b" for p b i k
    using that agree_get [OF assms(1)] by (auto simp: ver_key_def)
  show "ver_kept m n" unfolding ver_kept_alt using get by blast
  show "ver_bound n" unfolding ver_bound_alt
    using get agree_get(1) [OF assms(1)] assms(2) [unfolded ver_bound_alt] by metis
qed

text \<open>A branch whose active version grows, without a new version below it.\<close>

lemma state_bound:
  assumes "ver_bound m" "slash_free p" "slash_free b"
    and "\<And>st. bm_get m (branch_state_key p b) = Some (SBranch st) \<Longrightarrow> active_version st \<le> active_version st'"
  shows "ver_bound (bm_insert (branch_state_key p b) (SBranch st') m)"
    "ver_kept m (bm_insert (branch_state_key p b) (SBranch st') m)"
proof -
  have get: "bm_get (bm_insert (branch_state_key p b) (SBranch st') m) k = bm_get m k"
    if "ver_key q c i k" "slash_free q" "slash_free c" for q c i k
    using ver_key_not_state [OF that assms(2,3)] by simp
  show "ver_kept m (bm_insert (branch_state_key p b) (SBranch st') m)"
    unfolding ver_kept_alt using get by blast
  show "ver_bound (bm_insert (branch_state_key p b) (SBranch st') m)" unfolding ver_bound_alt
  proof (intro allI impI)
    fix q c i k assume k: "slash_free q" "slash_free c" "ver_key q c i k"
      "bm_get (bm_insert (branch_state_key p b) (SBranch st') m) k \<noteq> None"
    then obtain st where st: "bm_get m (branch_state_key q c) = Some (SBranch st)" "0 < i" "i \<le> active_version st"
      using get assms(1) [unfolded ver_bound_alt] by metis
    then show "\<exists>st. bm_get (bm_insert (branch_state_key p b) (SBranch st') m) (branch_state_key q c) = Some (SBranch st)
        \<and> 0 < i \<and> i \<le> active_version st"
      using assms(4) [of st] k(1,2) assms(2,3) by (auto simp: state_key_eq)
  qed
qed

lemma write_bound:
  assumes "ver_bound m" "slash_free p" "slash_free b"
    and "bm_get m (branch_state_key p b) = Some (SBranch st)" "active_version st < vno" "active_version st' = vno"
  shows "ver_bound (bm_insert (branch_state_key p b) (SBranch st') (write_view p b vno old new rec m))"
    "ver_kept m (bm_insert (branch_state_key p b) (SBranch st') (write_view p b vno old new rec m))"
proof -
  let ?n = "bm_insert (branch_state_key p b) (SBranch st') (write_view p b vno old new rec m)"
  have get: "bm_get ?n k = bm_get m k"
    if "ver_key q c i k" "slash_free q" "slash_free c" "(q, c, i) \<noteq> (p, b, vno)" for q c i k
  proof -
    have "\<not> ver_key p b vno k" using ver_key_unique [OF that(1)] that assms(2,3) by blast
    then have "bm_get (write_view p b vno old new rec m) k = bm_get m k"
      by (intro write_view_other) (simp add: ver_key_def)
    then show ?thesis using ver_key_not_state [OF that(1-3) assms(2,3)] by simp
  qed
  have fresh: "bm_get m k = None" if "ver_key p b vno k" for k
    using ver_bound_none [OF assms(1-5)] that by (auto simp: ver_key_def)
  show "ver_kept m ?n" unfolding ver_kept_alt using get fresh by (metis prod.inject)
  have states: "bm_get ?n (branch_state_key q c) =
      (if q = p \<and> c = b then Some (SBranch st') else bm_get m (branch_state_key q c))"
    if "slash_free q" "slash_free c" for q c
  proof -
    have "branch_state_key q c \<notin> {version_key p b vno, snapshot_key p b vno, diff_key p b vno}"
      using that assms(2,3) by (simp add: key_eq)
    then show ?thesis using that assms(2,3) by (simp add: write_view_other state_key_eq)
  qed
  show "ver_bound ?n" unfolding ver_bound_alt
  proof (intro allI impI)
    fix q c i k assume k: "slash_free q" "slash_free c" "ver_key q c i k" "bm_get ?n k \<noteq> None"
    show "\<exists>st. bm_get ?n (branch_state_key q c) = Some (SBranch st) \<and> 0 < i \<and> i \<le> active_version st"
    proof (cases "(q, c, i) = (p, b, vno)")
      case True
      then show ?thesis using states [OF k(1,2)] assms(5,6) by auto
    next
      case False
      then have "bm_get m k \<noteq> None" using k get by metis
      then obtain st0 where "bm_get m (branch_state_key q c) = Some (SBranch st0)" "0 < i" "i \<le> active_version st0"
        using k(1-3) assms(1) [unfolded ver_bound_alt] by metis
      then show ?thesis using states [OF k(1,2)] assms(4-6) by auto
    qed
  qed
qed

lemma project_get:
  "slash_free p \<Longrightarrow> slash_free q \<Longrightarrow> slash_free c \<Longrightarrow> branch_state_key q c \<noteq> project_key p"
  "slash_free p \<Longrightarrow> slash_free q \<Longrightarrow> slash_free c \<Longrightarrow> ver_key q c i k \<Longrightarrow> k \<noteq> project_key p"
  by (auto simp: ver_key_def key_eq)

lemma project_bound:
  assumes "ver_bound m" "slash_free p"
  shows "ver_bound (bm_insert (project_key p) v m)" "ver_kept m (bm_insert (project_key p) v m)"
proof -
  let ?n = "bm_insert (project_key p) v m"
  have get: "bm_get ?n k = bm_get m k" "bm_get ?n (branch_state_key q c) = bm_get m (branch_state_key q c)"
    if "slash_free q" "slash_free c" "ver_key q c i k" for q c i k
    using project_get [OF assms(2) that(1,2)] that(3) by auto
  show "ver_kept m ?n" unfolding ver_kept_alt using get by blast
  show "ver_bound ?n" unfolding ver_bound_alt using get assms(1) [unfolded ver_bound_alt] by metis
qed

text \<open>Every branch belongs to a project that exists.\<close>

definition owned :: "sval mem_store \<Rightarrow> bool" where
  "owned m \<longleftrightarrow> (\<forall>p b. slash_free p \<longrightarrow> slash_free b \<longrightarrow>
     bm_get m (branch_state_key p b) \<noteq> None \<longrightarrow> bm_get m (project_key p) \<noteq> None)"

lemma owned_insert:
  assumes "owned m" "slash_free p" "slash_free b" "bm_get m (project_key p) \<noteq> None"
  shows "owned (bm_insert (branch_state_key p b) v m)"
proof -
  have "project_key q \<noteq> branch_state_key p b" if "slash_free q" for q
    using that assms(2,3) by (simp add: key_eq)
  then show ?thesis using assms unfolding owned_def by (auto simp: state_key_eq)
qed

lemma vsteps_owned: "vsteps tame m evs n \<Longrightarrow> owned m \<Longrightarrow> owned n"
proof (induction rule: vsteps.induct)
  case (other evs n n')
  then show ?case using agree_get(1,2) [OF other.hyps(2)] unfolding owned_def by metis
next
  case (state evs n p b st st')
  then have "owned n" by simp
  moreover from this have "bm_get n (project_key p) \<noteq> None" using state.hyps unfolding owned_def by blast
  ultimately show ?case using state.hyps by (intro owned_insert)
next
  case (branch evs n p b st)
  then show ?case by (intro owned_insert) simp_all
next
  case (proj evs n p v)
  then have "owned n" by simp
  then show ?case using project_get(1) [OF proj.hyps(2)] unfolding owned_def by auto
next
  case (wrote evs n p b st vno old st' e new rec)
  let ?w = "write_view p b vno old new rec n"
  have get: "bm_get ?w k = bm_get n k" if "k = project_key q \<or> k = branch_state_key q c" "slash_free q" "slash_free c" for k q c
  proof -
    have "k \<notin> {version_key p b vno, snapshot_key p b vno, diff_key p b vno}"
      using that wrote.hyps(2,3) by (auto simp: key_eq)
    then show ?thesis by (rule write_view_other)
  qed
  have "owned n" using wrote by simp
  then have "owned ?w" "bm_get n (project_key p) \<noteq> None"
    using get wrote.hyps(2-4) unfolding owned_def by (metis, metis option.distinct(1))
  then show ?case using get [of "project_key p" p b] wrote.hyps(2,3) by (intro owned_insert) simp_all
qed simp_all

lemma vsteps_bound: "vsteps tame m evs n \<Longrightarrow> ver_bound m \<Longrightarrow> ver_bound n \<and> ver_kept m n"
proof (induction rule: vsteps.induct)
  case (other evs n n')
  then show ?case using agree_bound [of n n'] ver_kept_trans by blast
next
  case (state evs n p b st st')
  then have "ver_bound n" by simp
  note inserted = state_bound [OF this state.hyps(2,3), of st']
  show ?case using inserted state.hyps(4,5) state.IH [OF state.prems] ver_kept_trans by simp blast
next
  case (branch evs n p b st)
  then have "ver_bound n" by simp
  note inserted = state_bound [OF this branch.hyps(2,3), of st]
  show ?case using inserted branch.hyps(4) branch.IH [OF branch.prems] ver_kept_trans by simp blast
next
  case (wrote evs n p b st vno old st' e new rec)
  then have "ver_bound n" by simp
  note written = write_bound [OF this wrote.hyps(2-5,8)]
  show ?case using written wrote.IH [OF wrote.prems] ver_kept_trans by blast
next
  case (proj evs n p v)
  then have "ver_bound n" by simp
  then show ?case using project_bound [OF _ proj.hyps(2)] proj.IH [OF proj.prems] ver_kept_trans by blast
qed simp_all

section \<open>Tame steps keep the branches readable\<close>

text \<open>An event describes a step: its changes turn the content of the version before it into its own.\<close>

definition describes :: "sval mem_store \<Rightarrow> publish_event \<Rightarrow> bool" where
  "describes m e \<longleftrightarrow> (\<exists>x. 0 < ev_version e \<and>
     content m (ev_project e) (ev_branch e) (ev_version e) = Some x \<and>
     readable m (ev_project e) (ev_branch e) (ev_version e - 1) \<and>
     snap_sim (sm_apply_diff (content_of m (ev_project e) (ev_branch e) (ev_version e - 1)) (ev_changes e)) x)"

lemma state_content:
  "slash_free p \<Longrightarrow> slash_free b \<Longrightarrow> slash_free q \<Longrightarrow> slash_free c \<Longrightarrow>
     content (bm_insert (branch_state_key p b) v m) q c = content m q c"
  by (auto intro!: ext content_keys_cong simp: key_eq)

lemma write_content_other:
  assumes "slash_free p" "slash_free b" "slash_free q" "slash_free c" "(q, c) \<noteq> (p, b) \<or> v < vno"
  shows "content (write_view p b vno old new rec m) q c v = content m q c v"
  using write_keeps_content [OF assms, of old new rec "sm_new m"] by simp

text \<open>A description stays true as long as the contents it speaks of are kept.\<close>

lemma describes_cong:
  assumes "describes m e"
    and "\<And>v. v \<le> ev_version e \<Longrightarrow> content n (ev_project e) (ev_branch e) v = content m (ev_project e) (ev_branch e) v"
  shows "describes n e"
  using assms(1) assms(2) [of "ev_version e"] assms(2) [of "ev_version e - 1"]
  by (simp add: describes_def readable_def content_of_def)

text \<open>The events published so far: each describes a version that is there, or announces a release.\<close>

definition told :: "sval mem_store \<Rightarrow> publish_event \<Rightarrow> bool" where
  "told m e \<longleftrightarrow> (\<exists>st. slash_free (ev_project e) \<and> slash_free (ev_branch e) \<and>
     bm_get m (branch_state_key (ev_project e) (ev_branch e)) = Some (SBranch st) \<and>
     ev_version e \<le> active_version st \<and> (describes m e \<or> ev_gray e))"

lemma told_cong:
  assumes "told m e"
    and "\<And>p b st. slash_free p \<Longrightarrow> slash_free b \<Longrightarrow> bm_get m (branch_state_key p b) = Some (SBranch st) \<Longrightarrow>
      (\<exists>st'. bm_get n (branch_state_key p b) = Some (SBranch st') \<and> active_version st \<le> active_version st') \<and>
      (\<forall>v \<le> active_version st. content n p b v = content m p b v)"
  shows "told n e"
proof -
  obtain st where st: "slash_free (ev_project e)" "slash_free (ev_branch e)"
    "bm_get m (branch_state_key (ev_project e) (ev_branch e)) = Some (SBranch st)"
    "ev_version e \<le> active_version st" "describes m e \<or> ev_gray e"
    using assms(1) by (auto simp: told_def)
  then obtain st' where st': "bm_get n (branch_state_key (ev_project e) (ev_branch e)) = Some (SBranch st')"
    "active_version st \<le> active_version st'"
    and same: "\<forall>v \<le> active_version st. content n (ev_project e) (ev_branch e) v = content m (ev_project e) (ev_branch e) v"
    using assms(2) by metis
  then have "describes m e \<Longrightarrow> describes n e"
    using st(4) describes_cong [of m e n] by (meson le_trans)
  then show ?thesis
    using st(1,2,4,5) st' unfolding told_def by (meson le_trans)
qed

definition steady :: "sval mem_store \<Rightarrow> sval mem_store \<Rightarrow> bool" where
  "steady m n \<longleftrightarrow> (\<forall>p b st. slash_free p \<longrightarrow> slash_free b \<longrightarrow>
     bm_get m (branch_state_key p b) = Some (SBranch st) \<longrightarrow>
     (\<exists>st'. bm_get n (branch_state_key p b) = Some (SBranch st') \<and> active_version st \<le> active_version st') \<and>
     (\<forall>v \<le> active_version st. content n p b v = content m p b v))"

lemma steady_project: "slash_free p \<Longrightarrow> steady m (bm_insert (project_key p) v m)"
  by (auto simp: steady_def key_eq intro!: content_keys_cong)

lemma told_steady: "told m e \<Longrightarrow> steady m n \<Longrightarrow> told n e"
  by (erule told_cong) (auto simp: steady_def)

lemma steady_agree: "agree m n \<Longrightarrow> steady m n"
  by (auto simp: steady_def agree_get agree_content)

lemma steady_state:
  assumes "slash_free p" "slash_free b"
    and "\<And>st. bm_get m (branch_state_key p b) = Some (SBranch st) \<Longrightarrow> active_version st \<le> active_version st'"
  shows "steady m (bm_insert (branch_state_key p b) (SBranch st') m)"
  using assms by (auto simp: steady_def state_key_eq state_content)

lemma steady_write:
  assumes "slash_free p" "slash_free b"
    and "bm_get m (branch_state_key p b) = Some (SBranch st)" "active_version st < vno" "active_version st' = vno"
  shows "steady m (bm_insert (branch_state_key p b) (SBranch st') (write_view p b vno old new rec m))"
  unfolding steady_def
proof (intro allI impI conjI)
  fix q c st0 assume q: "slash_free q" "slash_free c" "bm_get m (branch_state_key q c) = Some (SBranch st0)"
  let ?n = "bm_insert (branch_state_key p b) (SBranch st') (write_view p b vno old new rec m)"
  have "branch_state_key q c \<notin> {version_key p b vno, snapshot_key p b vno, diff_key p b vno}"
    using q assms(1,2) by (simp add: key_eq)
  then show "\<exists>st'. bm_get ?n (branch_state_key q c) = Some (SBranch st') \<and> active_version st0 \<le> active_version st'"
    using q assms by (auto simp: write_view_other state_key_eq)
  fix v assume "v \<le> active_version st0"
  then have "(q, c) \<noteq> (p, b) \<or> v < vno" using q(3) assms(3,4) by auto
  then show "content ?n q c v = content m q c v"
    using q(1,2) assms(1,2) by (simp add: state_content write_content_other)
qed

text \<open>The version written next can be read, and its event describes it.\<close>

lemma tame_write:
  assumes "slash_free p" "slash_free b" "readable m p b n" "old = content_of m p b n"
    and "snap_sim (sm_apply_diff old ch) new"
  shows "\<exists>x. content (bm_insert (branch_state_key p b) st' (write_view p b (n + 1) old new rec m)) p b (n + 1) = Some x \<and>
      snap_sim (sm_apply_diff old ch) x"
proof -
  have view: "readable (view (sm_new m)) p b n" "old = content_of (view (sm_new m)) p b n"
    using assms(3,4) by simp_all
  obtain x where "content (bm_insert (branch_state_key p b) st' (write_view p b (n + 1) old new rec m)) p b (n + 1) = Some x"
    "snap_sim x new"
    using write_next_readable(1) [OF assms(1,2) view refl, of st' new rec] by auto
  then show ?thesis using assms(5) snap_sim_trans snap_sim_sym by blast
qed

lemma live_steady:
  assumes "live m" "steady m n"
    and "\<And>p b st. slash_free p \<Longrightarrow> slash_free b \<Longrightarrow> bm_get n (branch_state_key p b) = Some (SBranch st) \<Longrightarrow>
      (\<exists>st0. bm_get m (branch_state_key p b) = Some (SBranch st0) \<and> active_version st = active_version st0) \<or>
      readable n p b (active_version st)"
  shows "live n"
  unfolding live_def
proof (intro allI impI)
  fix p b st assume b: "slash_free p" "slash_free b" "bm_get n (branch_state_key p b) = Some (SBranch st)"
  from assms(3) [OF this] show "readable n p b (active_version st)"
  proof
    assume "\<exists>st0. bm_get m (branch_state_key p b) = Some (SBranch st0) \<and> active_version st = active_version st0"
    then show ?thesis using assms(1,2) b unfolding live_def steady_def readable_def by fastforce
  qed
qed

lemma vsteps_live:
  "vsteps True m evs n \<Longrightarrow> live m \<Longrightarrow> live n \<and> (\<forall>e \<in> set evs. told n e)"
proof (induction rule: vsteps.induct)
  case (other evs n n')
  then have s: "steady n n'" by (simp add: steady_agree)
  have "bm_get n' (branch_state_key p b) = bm_get n (branch_state_key p b)" if "slash_free p" "slash_free b" for p b
    using agree_get(1) [OF other.hyps(2) that] .
  then have "live n'" using other.IH [OF other.prems] by (intro live_steady [OF _ s]) simp_all
  then show ?case using other.IH [OF other.prems] told_steady [OF _ s] by blast
next
  case (state evs n p b st st')
  let ?n = "bm_insert (branch_state_key p b) (SBranch st') n"
  have s: "steady n ?n" using state.hyps by (intro steady_state) auto
  have "live ?n"
    using state.IH [OF state.prems] state.hyps
    by (intro live_steady [OF _ s]) (auto simp: state_key_eq split: if_splits)
  then show ?case using state.IH [OF state.prems] told_steady [OF _ s] by blast
next
  case (branch evs n p b st)
  let ?n = "bm_insert (branch_state_key p b) (SBranch st) n"
  have s: "steady n ?n" using branch.hyps by (intro steady_state) auto
  have "live ?n"
    using branch.IH [OF branch.prems] branch.hyps
    by (intro live_steady [OF _ s]) (auto simp: state_key_eq readable_def split: if_splits)
  then show ?case using branch.IH [OF branch.prems] told_steady [OF _ s] by blast
next
  case (notice evs n e st)
  then have "told n e" by (auto simp: told_def)
  then show ?case using notice by auto
next
  case (wrote evs n p b st vno old st' e new rec)
  let ?n = "bm_insert (branch_state_key p b) (SBranch st') (write_view p b vno old new rec n)"
  have vno: "vno = active_version st + 1" using wrote.hyps(6) by simp
  have read: "readable n p b (active_version st)"
    using wrote.IH [OF wrote.prems] wrote.hyps(2-4) by (auto simp: live_def)
  have s: "steady n ?n" by (rule steady_write [OF wrote.hyps(2-5,8)])
  obtain x where x: "content ?n p b vno = Some x" "snap_sim (sm_apply_diff old (ev_changes e)) x"
    using tame_write [OF wrote.hyps(2,3) read wrote.hyps(7) [OF read] wrote.hyps(12)] vno by metis
  have "live ?n"
  proof (rule live_steady [OF _ s])
    fix q c st1 assume q: "slash_free q" "slash_free c" "bm_get ?n (branch_state_key q c) = Some (SBranch st1)"
    have "branch_state_key q c \<notin> {version_key p b vno, snapshot_key p b vno, diff_key p b vno}"
      using q wrote.hyps(2,3) by (simp add: key_eq)
    then show "(\<exists>st0. bm_get n (branch_state_key q c) = Some (SBranch st0) \<and> active_version st1 = active_version st0) \<or>
        readable ?n q c (active_version st1)"
      using q x(1) wrote.hyps(2,3,8) by (auto simp: state_key_eq write_view_other readable_def split: if_splits)
  qed (use wrote in simp)
  moreover have "told ?n e"
  proof -
    have old: "content ?n p b (vno - 1) = content n p b (vno - 1)"
      using wrote.hyps(2,3) vno by (simp add: state_content write_content_other)
    have "describes ?n e"
      using x wrote.hyps(7,9-11) read vno old
      unfolding describes_def by (auto simp: readable_def content_of_def)
    then show ?thesis using wrote.hyps by (simp add: told_def)
  qed
  ultimately show ?case using wrote.IH [OF wrote.prems] told_steady [OF _ s] by auto
next
  case (proj evs n p v)
  let ?n = "bm_insert (project_key p) v n"
  have s: "steady n ?n" using proj.hyps(2) by (rule steady_project)
  have "live ?n"
    using proj.IH [OF proj.prems] project_get(1) [OF proj.hyps(2)] by (intro live_steady [OF _ s]) (auto split: if_splits)
  then show ?case using proj.IH [OF proj.prems] told_steady [OF _ s] by blast
qed simp

end
