(* ===== verification/Version_Ops.thy ===== *)
theory Version_Ops
  imports Version_Steps
begin

text \<open>
  Every command but the two deletions is a sequence of version steps. The steps are tame - each
  version written follows the active one - except for a promotion or a structure publish on a branch
  whose gray number is above its active version.
\<close>

section \<open>Commands on one branch\<close>

lemma active_snapshot_old:
  assumes "active_snapshot s p b st = Inr old" "readable (view s) p b (active_version st)"
  shows "old = content_of (view s) p b (active_version st)"
  using active_snapshot_content [OF assms(2)] assms(1) by simp

lemma new_event_simps [simp]:
  "ev_project (new_event p b vno ty sv c r ch gray) = p" "ev_branch (new_event p b vno ty sv c r ch gray) = b"
  "ev_version (new_event p b vno ty sv c r ch gray) = vno" "ev_changes (new_event p b vno ty sv c r ch gray) = ch"
  "ev_gray (new_event p b vno ty sv c r ch gray) = gray"
  by (simp_all add: new_event_def)

text \<open>One version written with its difference from the active one.\<close>

lemma write_steps:
  assumes "slash_free p" "slash_free b" "bm_get (view s) (branch_state_key p b) = Some (SBranch st)"
    and "active_snapshot s p b st = Inr old"
    and "active_version st < vno" "tame \<Longrightarrow> vno = active_version st + 1" "active_version st' = vno"
  shows "vsteps tame (view s) [new_event p b vno ty sv c r (compute_diff old new) gray]
    (bm_insert (branch_state_key p b) (SBranch st') (write_view p b vno old new rec (view s)))"
  using vsteps.wrote [OF vsteps.start, of p b "view s" st vno tame old st'
      "new_event p b vno ty sv c r (compute_diff old new) gray" new rec]
    assms active_snapshot_old [OF assms(4)] apply_compute_diff
  by simp

lemma publish_vsteps:
  assumes "apply_publish E p b comment rid now operator policy s = Inr (t, ev)" "store_wf (view s)"
  shows "vsteps True (view s) ev (view t)"
proof -
  obtain st where st: "bm_get (view s) (branch_state_key p b) = Some (SBranch st)"
    using assms(1) by (auto simp: apply_publish_def)
  show ?thesis
  proof (cases "last_request_id st = Some rid")
    case True
    then show ?thesis using assms(1) st by (auto simp: apply_publish_def done_with_def intro: vsteps.start)
  next
    case False
    show ?thesis
      by (rule publish_steps [OF assms(1) st False])
         (use write_steps [OF _ _ st] branch_found [OF assms(2) st] in \<open>simp\<close>)
  qed
qed

lemma rollback_vsteps:
  assumes "apply_rollback p b to comment rid now operator s = Inr (t, ev)" "store_wf (view s)"
  shows "vsteps True (view s) ev (view t)"
  using assms(1) write_steps branch_found [OF assms(2)]
  by (auto simp: apply_rollback_def done_with_def Let_def intro: vsteps.start split: if_splits)

lemma state_steps:
  assumes "store_wf (view s)" "bm_get (view s) (branch_state_key p b) = Some (SBranch st)"
    and "active_version st' = active_version st"
  shows "vsteps tame (view s) [] (bm_insert (branch_state_key p b) (SBranch st') (view s))"
  using branch_found [OF assms(1,2)] by (intro vsteps.state [OF vsteps.start _ _ assms(2,3)]) simp_all

lemma draft_update_vsteps:
  assumes "apply_draft_update E p b updates deletes bindings now expected s = Inr (t, ev)" "store_wf (view s)"
  shows "vsteps True (view s) ev (view t)"
proof -
  obtain st where st: "bm_get (view s) (branch_state_key p b) = Some (SBranch st)"
    using assms(1) by (auto simp: apply_draft_update_def)
  then show ?thesis using assms(1) state_steps [OF assms(2) st]
    by (auto simp: apply_draft_update_def done_with_def Let_def split: if_splits)
qed

text \<open>Gray snapshots are no versions.\<close>

lemma agree_gray:
  "slash_free p \<Longrightarrow> slash_free b \<Longrightarrow> agree m n \<Longrightarrow> agree m (bm_insert (gray_snap_key p b i) v n)"
  "slash_free p \<Longrightarrow> slash_free b \<Longrightarrow> agree m n \<Longrightarrow> agree m (bm_remove (gray_snap_key p b i) n)"
  by (simp_all add: agree_insert agree_remove not_version_data)

lemma agree_under:
  "agree m n \<Longrightarrow> agree (bm_insert k v m) (bm_insert k v n)"
  by (simp add: agree_def)

lemma gray_publish_vsteps:
  assumes "apply_gray_publish E p b rule comment rid policy s = Inr (t, ev)" "store_wf (view s)"
  shows "vsteps True (view s) ev (view t)"
proof -
  obtain st where st: "bm_get (view s) (branch_state_key p b) = Some (SBranch st)"
    using assms(1) by (auto simp: apply_gray_publish_def)
  have names: "slash_free p" "slash_free b" using branch_found [OF assms(2) st] by auto
  show ?thesis
  proof (cases "last_request_id st = Some rid")
    case True
    then show ?thesis using assms(1) st by (auto simp: apply_gray_publish_def done_with_def intro: vsteps.start)
  next
    case False
    let ?st = "st\<lparr>gray_seq := gray_seq st + 1, b_gray_rule := Some rule, last_request_id := Some rid,
      b_value_draft := bm_empty, bindings_dirty := False\<rparr>"
    obtain str old resolved w where steps: "bm_get (view s) (struct_key p) = Some (SStruct str)"
      "active_snapshot s p b st = Inr old" "materialize_resolved E s st str old policy = Inr (resolved, w)"
      "validate_gray_rule rule = Inr ()" "\<not> nothing_to_publish st"
      using assms(1) st False by (auto simp: apply_gray_publish_def Let_def split: if_splits)
    have t: "view t = bm_insert (branch_state_key p b) (SBranch ?st)
        (view (if gray_seq st > 0 then delete_pending (gray_snap_key p b (gray_seq st))
            (save_pending (gray_snap_key p b (gray_seq st + 1)) (SSnap resolved) s)
          else save_pending (gray_snap_key p b (gray_seq st + 1)) (SSnap resolved) s))"
      and ev: "ev = [new_event p b (active_version st) ValuePublish (s_version str) comment rid
             (compute_diff old resolved) True]"
      using assms(1) st False steps by (auto simp: apply_gray_publish_def Let_def)
    let ?n = "bm_insert (branch_state_key p b) (SBranch ?st) (view s)"
    have "vsteps True (view s) [] ?n" using state_steps [OF assms(2) st] by simp
    then have "vsteps True (view s) ([] @ ev) ?n"
      unfolding ev using names by (intro vsteps.notice [where st = ?st]) simp_all
    moreover have "agree ?n (view t)"
      unfolding t using names by (intro agree_under) (simp add: agree_gray)
    ultimately show ?thesis using vsteps.other by simp
  qed
qed

lemma gray_abort_vsteps:
  assumes "apply_gray_abort p b comment rid s = Inr (t, ev)" "store_wf (view s)"
  shows "vsteps True (view s) ev (view t)"
proof -
  obtain st where st: "bm_get (view s) (branch_state_key p b) = Some (SBranch st)"
    using assms(1) by (auto simp: apply_gray_abort_def)
  have names: "slash_free p" "slash_free b" using branch_found [OF assms(2) st] by auto
  show ?thesis
  proof (cases "last_request_id st = Some rid")
    case True
    then show ?thesis using assms(1) st by (auto simp: apply_gray_abort_def done_with_def intro: vsteps.start)
  next
    case False
    let ?st = "st\<lparr>gray_seq := 0, b_gray_rule := None, last_request_id := Some rid\<rparr>"
    have t: "view t = bm_insert (branch_state_key p b) (SBranch ?st) (bm_remove (gray_snap_key p b (gray_seq st)) (view s))"
      and ev: "ev = [new_event p b (active_version st) ValuePublish (structure_version st) comment rid [] True]"
      using assms(1) st False by (auto simp: apply_gray_abort_def Let_def split: if_splits)
    let ?n = "bm_insert (branch_state_key p b) (SBranch ?st) (view s)"
    have "vsteps True (view s) [] ?n" using state_steps [OF assms(2) st] by simp
    then have "vsteps True (view s) ([] @ ev) ?n"
      unfolding ev using names by (intro vsteps.notice [where st = ?st]) simp_all
    moreover have "agree ?n (view t)"
      unfolding t using names by (intro agree_under) (simp add: agree_gray)
    ultimately show ?thesis using vsteps.other by simp
  qed
qed

text \<open>The gray number of a branch is not above its active version.\<close>

definition gray_low :: "sval mem_store \<Rightarrow> project_id \<Rightarrow> branch_name \<Rightarrow> bool" where
  "gray_low m p b \<longleftrightarrow> (\<forall>st. bm_get m (branch_state_key p b) = Some (SBranch st) \<longrightarrow> gray_seq st \<le> active_version st)"

lemma gray_promote_vsteps:
  assumes "apply_gray_promote p b comment rid now operator s = Inr (t, ev)" "store_wf (view s)"
  shows "vsteps (gray_low (view s) p b) (view s) ev (view t)"
proof -
  obtain st where st: "bm_get (view s) (branch_state_key p b) = Some (SBranch st)"
    using assms(1) by (auto simp: apply_gray_promote_def)
  have names: "slash_free p" "slash_free b" using branch_found [OF assms(2) st] by auto
  show ?thesis
  proof (cases "last_request_id st = Some rid")
    case True
    then show ?thesis using assms(1) st by (auto simp: apply_gray_promote_def done_with_def intro: vsteps.start)
  next
    case False
    let ?vno = "next_monotonic (active_version st) (gray_seq st)"
    let ?st = "st\<lparr>active_version := ?vno, gray_seq := 0, b_gray_rule := None, last_request_id := Some rid\<rparr>"
    obtain old new rec where old: "active_snapshot s p b st = Inr old"
      and t: "view t = bm_insert (branch_state_key p b) (SBranch ?st)
        (bm_remove (gray_snap_key p b (gray_seq st)) (write_view p b ?vno old new rec (view s)))"
      and ev: "ev = [new_event p b ?vno ValuePublish (structure_version st) comment rid (compute_diff old new) True]"
      using assms(1) st False by (auto simp: apply_gray_promote_def Let_def split: if_splits)
    have "vsteps (gray_low (view s) p b) (view s) ev
        (bm_insert (branch_state_key p b) (SBranch ?st) (write_view p b ?vno old new rec (view s)))"
      unfolding ev using st next_monotonic_gt
      by (intro write_steps [OF names st old]) (auto simp: gray_low_def next_monotonic_def)
    moreover have "agree (bm_insert (branch_state_key p b) (SBranch ?st) (write_view p b ?vno old new rec (view s))) (view t)"
      unfolding t using names by (intro agree_under) (simp add: agree_gray)
    ultimately show ?thesis by (rule vsteps.other)
  qed
qed

section \<open>Publishing a structure\<close>

lemma write_state_get:
  assumes "slash_free p" "slash_free b" "slash_free c" "c \<noteq> b"
  shows "bm_get (bm_insert (branch_state_key p b) v (write_view p b vno old new rec m)) (branch_state_key p c) =
    bm_get m (branch_state_key p c)"
proof -
  have "branch_state_key p c \<notin> {version_key p b vno, snapshot_key p b vno, diff_key p b vno}"
    using assms by (simp add: key_eq)
  then show ?thesis using assms by (simp add: state_key_eq write_view_other)
qed

lemma structure_branch_vsteps:
  assumes "publish_structure_branch p comment rid now operator str b (s, events) = Inr (u, events')"
    and "slash_free p" "slash_free b"
  shows "\<exists>e. events' = events @ [e] \<and> vsteps (gray_low (view s) p b) (view s) [e] (view u) \<and>
    (\<forall>c. slash_free c \<longrightarrow> c \<noteq> b \<longrightarrow> bm_get (view u) (branch_state_key p c) = bm_get (view s) (branch_state_key p c))"
proof -
  obtain st where st: "bm_get (view s) (branch_state_key p b) = Some (SBranch st)"
    using assms(1) by (auto simp: publish_structure_branch_def)
  obtain old where old: "active_snapshot s p b st = Inr old"
    using assms(1) st by (auto simp: publish_structure_branch_def Let_def)
  let ?vno = "next_monotonic (active_version st) (gray_seq st)"
  define rec where "rec = \<lparr>vr_no = ?vno, vr_structure_version = s_version str,
               vr_created_at = now, vr_operator = operator_id operator, vr_comment = comment,
               vr_rollback_of = None, vr_kind = Full, vr_snapshot_ref = None, vr_diff_ref = None,
               vr_event_ty = Some StructurePublish, vr_gray = False\<rparr>"
  define w where "w = write_version_snapshot p b ?vno old old rec s"
  have "\<exists>st' t. active_version st' = ?vno \<and> u = save_pending (branch_state_key p b) (SBranch st') t \<and>
      (t = w \<or> (\<exists>x i j. t = delete_pending (gray_snap_key p b i) (save_pending (gray_snap_key p b j) x w)))"
  proof (cases "gray_seq st > 0")
    case True
    then obtain g where "gray_snapshot_of w p b (gray_seq st) = Inr g"
      using assms(1) st old by (auto simp: publish_structure_branch_def Let_def w_def rec_def)
    let ?t = "delete_pending (gray_snap_key p b (gray_seq st))
      (save_pending (gray_snap_key p b (Suc ?vno)) (SSnap g) w)"
    let ?st = "st\<lparr>active_version := ?vno, structure_version := s_version str, gray_seq := Suc ?vno,
      b_value_draft := drop_shared_values str (retain_draft str (b_value_draft st)),
      shared_bindings := retain_bindings ?t str (shared_bindings st)\<rparr>"
    have "u = save_pending (branch_state_key p b) (SBranch ?st) ?t"
      using assms(1) st old True \<open>gray_snapshot_of w p b (gray_seq st) = Inr g\<close>
      by (simp add: publish_structure_branch_def Let_def w_def rec_def)
    moreover have "active_version ?st = ?vno" by simp
    ultimately show ?thesis by blast
  next
    case False
    let ?st = "st\<lparr>active_version := ?vno, structure_version := s_version str,
      b_value_draft := drop_shared_values str (retain_draft str (b_value_draft st)),
      shared_bindings := retain_bindings w str (shared_bindings st)\<rparr>"
    have "u = save_pending (branch_state_key p b) (SBranch ?st) w"
      using assms(1) st old False by (auto simp: publish_structure_branch_def Let_def w_def rec_def)
    moreover have "active_version ?st = ?vno" by simp
    ultimately show ?thesis by blast
  qed
  then obtain st' t where st': "active_version st' = ?vno"
    and ut: "u = save_pending (branch_state_key p b) (SBranch st') t"
    and t: "t = w \<or> (\<exists>x i j. t = delete_pending (gray_snap_key p b i) (save_pending (gray_snap_key p b j) x w))"
    by blast
  have u: "view u = bm_insert (branch_state_key p b) (SBranch st') (view t)" by (simp add: ut)
  have n: "agree (write_view p b ?vno old old rec (view s)) (view t)"
    using t assms(2,3) by (auto simp: w_def agree_gray)
  let ?e = "\<lparr>ev_project = p, ev_branch = b, ev_version = ?vno,
                ev_ty = StructurePublish, ev_structure_version = s_version str,
                ev_comment = comment, ev_request_id = rid, ev_changes = [], ev_gray = False\<rparr> :: publish_event"
  let ?w = "bm_insert (branch_state_key p b) (SBranch st') (write_view p b ?vno old old rec (view s))"
  have "vsteps (gray_low (view s) p b) (view s) ([] @ [?e]) ?w"
    using st next_monotonic_gt [of "active_version st" "gray_seq st"] active_snapshot_old [OF old]
    by (intro vsteps.wrote [OF vsteps.start assms(2,3) st]) (auto simp: gray_low_def next_monotonic_def st')
  moreover have "agree ?w (view u)"
    unfolding u using n by (rule agree_under)
  ultimately have "vsteps (gray_low (view s) p b) (view s) [?e] (view u)"
    using vsteps.other by simp
  moreover have "bm_get (view u) (branch_state_key p c) = bm_get (view s) (branch_state_key p c)"
    if "slash_free c" "c \<noteq> b" for c
  proof -
    have "bm_get (view u) (branch_state_key p c) = bm_get ?w (branch_state_key p c)"
      using agree_get(1) [OF n assms(2) that(1)] by (simp add: u)
    then show ?thesis using write_state_get [OF assms(2,3) that] by simp
  qed
  moreover have "events' = events @ [?e]"
    using assms(1) st old by (auto simp: publish_structure_branch_def Let_def split: if_splits)
  ultimately show ?thesis by blast
qed

lemma structure_branches_vsteps:
  assumes "foldE (publish_structure_branch p comment rid now operator str) bs (s, events) = Inr (u, events')"
    and "slash_free p" "\<forall>b \<in> set bs. slash_free b" "distinct bs"
  shows "\<exists>evs. events' = events @ evs \<and> vsteps (\<forall>b \<in> set bs. gray_low (view s) p b) (view s) evs (view u)"
  using assms
proof (induction bs arbitrary: s events)
  case Nil
  then show ?case by (auto intro: vsteps.start)
next
  case (Cons b bs)
  obtain t ev1 where f: "publish_structure_branch p comment rid now operator str b (s, events) = Inr (t, ev1)"
    and rest: "foldE (publish_structure_branch p comment rid now operator str) bs (t, ev1) = Inr (u, events')"
    using Cons.prems(1) by auto
  obtain e where e: "ev1 = events @ [e]" "vsteps (gray_low (view s) p b) (view s) [e] (view t)"
    and same: "\<forall>c. slash_free c \<longrightarrow> c \<noteq> b \<longrightarrow> bm_get (view t) (branch_state_key p c) = bm_get (view s) (branch_state_key p c)"
    using structure_branch_vsteps [OF f Cons.prems(2)] Cons.prems(3) by auto
  obtain evs where evs: "events' = ev1 @ evs"
    "vsteps (\<forall>b \<in> set bs. gray_low (view t) p b) (view t) evs (view u)"
    using Cons.IH [OF rest Cons.prems(2)] Cons.prems(3,4) by auto
  have low: "gray_low (view t) p c = gray_low (view s) p c" if "c \<in> set bs" for c
    using same that Cons.prems(3,4) by (auto simp: gray_low_def)
  have "vsteps (\<forall>b \<in> set (b # bs). gray_low (view s) p b) (view s) ([e] @ evs) (view u)"
    using low by (intro vsteps_trans [OF vsteps_weaken [OF evs(2)] vsteps_weaken [OF e(2)]]) simp_all
  then show ?case using e(1) evs(1) by auto
qed

lemma publish_structure_vsteps:
  assumes "apply_publish_structure p comment rid now operator policy s = Inr (t, ev)" "store_wf (view s)"
  shows "vsteps (\<forall>b. gray_low (view s) p b) (view s) ev (view t)"
proof -
  obtain st new u where st: "bm_get (view s) (struct_key p) = Some (SStruct st)"
    and fold: "foldE (publish_structure_branch p comment rid now operator new) (list_branches s p) (s, []) = Inr (u, ev)"
    and t: "t = delete_pending (struct_draft_key p) (save_pending (struct_key p) (SStruct new) u)"
    using assms(1) by (auto simp: apply_publish_structure_def Let_def split: if_splits)
  have p: "slash_free p" using store_wf_get [OF assms(2) st] entry_ok_struct by blast
  have "vsteps (\<forall>b \<in> set (list_branches s p). gray_low (view s) p b) (view s) ev (view u)"
    using structure_branches_vsteps [OF fold p] list_branches_props by auto
  moreover have "agree (view u) (view t)"
    using p by (simp add: t agree_insert agree_remove not_version_data)
  ultimately show ?thesis by (blast intro: vsteps.other vsteps_weaken)
qed

section \<open>The shared library\<close>

lemma cascade_vsteps:
  assumes "cascade_to_branch v comment rid now use (s, events) = Inr (u, events')" "store_wf (view s)"
  shows "\<exists>e. events' = events @ [e] \<and> vsteps True (view s) [e] (view u)"
proof -
  obtain p b g key where use: "use = (p, b, g, key)" by (metis surj_pair)
  obtain st where st: "bm_get (view s) (branch_state_key p b) = Some (SBranch st)"
    using assms(1) by (auto simp: cascade_to_branch_def use)
  obtain old where old: "active_snapshot s p b st = Inr old"
    using assms(1) st by (auto simp: cascade_to_branch_def use)
  have names: "slash_free p" "slash_free b" using branch_found [OF assms(2) st] by auto
  show ?thesis
    using assms(1) st old write_steps [OF names st old]
    by (auto simp: cascade_to_branch_def use Let_def)
qed

lemma cascades_vsteps:
  assumes "foldE (cascade_to_branch v comment rid now) uses (s, events) = Inr (u, events')"
    and "store_wf (view s)" "no_draft_ops s"
  shows "\<exists>evs. events' = events @ evs \<and> vsteps True (view s) evs (view u)"
  using assms
proof (induction uses arbitrary: s events)
  case Nil
  then show ?case by (auto intro: vsteps.start)
next
  case (Cons use uses)
  obtain t ev1 where f: "cascade_to_branch v comment rid now use (s, events) = Inr (t, ev1)"
    and rest: "foldE (cascade_to_branch v comment rid now) uses (t, ev1) = Inr (u, events')"
    using Cons.prems(1) by auto
  note edits = cascade_edits [OF f Cons.prems(2,3)]
  obtain e where e: "ev1 = events @ [e]" "vsteps True (view s) [e] (view t)"
    using cascade_vsteps [OF f Cons.prems(2)] by blast
  obtain evs where "events' = ev1 @ evs" "vsteps True (view t) evs (view u)"
    using Cons.IH [OF rest] edits edits_wf [OF _ Cons.prems(2)] by blast
  then show ?case using e vsteps_trans [OF _ e(2)] by fastforce
qed

lemma publish_item_vsteps:
  assumes "shared_publish_item comment rid now cascade item (s, ev) = (u, Inr (u', ev'))"
    and "store_wf (view s)" "no_draft_ops s" "slash_free (si_key item)"
  shows "\<exists>evs. ev' = ev @ evs \<and> vsteps True (view s) evs (view u')"
proof -
  define version where "version = (case get_shared s (si_key item) of Inr (Some q) \<Rightarrow> si_version q | _ \<Rightarrow> 0) + 1"
  define t1 where "t1 = save_pending (shared_key (si_key item)) (SShared (item\<lparr>si_version := version\<rparr>)) s"
  define t2 where "t2 = store_delete (shared_draft_key (si_key item)) t1"
  have u': "(u' = t2 \<and> ev' = ev) \<or>
      (\<exists>uses. foldE (cascade_to_branch (si_value item) comment rid now) uses (t2, ev) = Inr (u', ev'))"
    using assms(1) by (auto simp: shared_publish_item_def Let_def t2_def t1_def version_def
        split: sum.splits if_splits option.splits)
  have clean: "no_draft_ops t1" using assms(3) by (simp add: t1_def key_defs)
  then have pend: "shared_draft_key (si_key item) \<notin> pending_keys t1"
    by (auto simp: no_draft_ops_def shared_draft_key_def)
  have view: "view t2 = bm_remove (shared_draft_key (si_key item))
      (bm_insert (shared_key (si_key item)) (SShared (item\<lparr>si_version := version\<rparr>)) (view s))"
    unfolding t2_def view_direct [OF pend] by (simp add: t1_def)
  have "agree (view s) (view t2)"
    by (simp add: view agree_insert agree_remove not_version_data)
  then have steps: "vsteps True (view s) [] (view t2)" by (rule vsteps.other [OF vsteps.start])
  have "store_wf (view t2)"
    unfolding view using assms(2,4) by (simp add: store_wf_remove key_fold store_wf_insert)
  moreover have "no_draft_ops t2" using clean by (simp add: t2_def)
  ultimately show ?thesis
    using u' cascades_vsteps [of _ _ _ _ _ t2 ev u' ev'] steps vsteps_trans [OF _ steps] by fastforce
qed

lemma publish_loop_vsteps:
  assumes "shared_publish_loop comment rid now cascade items (s, ev) = (u, Inr ev')"
    and "store_wf (view s)" "no_draft_ops s" "\<forall>i \<in> set items. slash_free (si_key i)"
  shows "\<exists>evs. ev' = ev @ evs \<and> vsteps True (view s) evs (view u)"
  using assms
proof (induction items arbitrary: s ev)
  case Nil
  then show ?case by (auto intro: vsteps.start)
next
  case (Cons i items)
  obtain u1 t1 ev1 where f: "shared_publish_item comment rid now cascade i (s, ev) = (u1, Inr (t1, ev1))"
    and rest: "shared_publish_loop comment rid now cascade items (t1, ev1) = (u, Inr ev')"
    using Cons.prems(1) by (auto split: prod.splits sum.splits)
  have key: "slash_free (si_key i)" "\<forall>i \<in> set items. slash_free (si_key i)" using Cons.prems(4) by simp_all
  note edits = publish_item_edits [OF f Cons.prems(2,3) key(1)]
  obtain evs1 where first: "ev1 = ev @ evs1" "vsteps True (view s) evs1 (view t1)"
    using publish_item_vsteps [OF f Cons.prems(2,3) key(1)] by blast
  obtain evs where "ev' = ev1 @ evs" "vsteps True (view t1) evs (view u)"
    using Cons.IH [OF rest _ _ key(2)] edits edits_wf [OF _ Cons.prems(2)] by blast
  then show ?case using first vsteps_trans [OF _ first(2)] by fastforce
qed

lemma shared_publish_vsteps:
  assumes "apply_shared_publish comment rid now cascade s = (t, Inr ev)" "store_wf (view s)" "sm_pending s = []"
  shows "vsteps True (view s) ev (view t)"
proof -
  have "no_draft_ops s" using assms(3) by (simp add: no_draft_ops_def pending_keys_def)
  moreover have "shared_publish_loop comment rid now cascade (list_shared_drafts s) (s, []) = (t, Inr ev)"
    using assms(1) by (auto simp: apply_shared_publish_def Let_def split: if_splits)
  ultimately show ?thesis
    using publish_loop_vsteps drafts_slash_free [OF assms(2)] assms(2) by fastforce
qed

section \<open>New projects and branches\<close>

lemma project_create_vsteps:
  assumes "apply_project_create name now clone s = Inr (t, ev)" "owned (view s)"
  shows "vsteps True (view s) ev (view t)"
proof -
  have valid: "valid_name name" and new: "bm_get (view s) (project_key name) = None"
    using assms(1) by (auto simp: apply_project_create_def Let_def split: if_splits)
  have p: "slash_free name" using valid by (rule valid_name_slash_free)
  note keys = default_branches_slash_free p
  have none: "bm_get (view s) (branch_state_key name b) = None" if "slash_free b" for b
    using assms(2) new p that by (auto simp: owned_def)
  obtain x st where ev: "ev = []" and t: "view t =
      fold (\<lambda>b. bm_insert (branch_state_key name b) (SBranch (branch_new 1))) [BRANCH_DEV, BRANCH_TEST, BRANCH_PROD]
        (bm_insert (struct_key name) (SStruct st) (bm_insert (idx_pname name) (SStr ''1'')
          (bm_insert (project_key name) (SProject x) (view s))))"
    using assms(1) by (auto simp: apply_project_create_def done_with_def Let_def split: if_splits)
  define m1 where "m1 = bm_insert (struct_key name) (SStruct st) (bm_insert (idx_pname name) (SStr ''1'')
          (bm_insert (project_key name) (SProject x) (view s)))"
  have "vsteps True (view s) [] (bm_insert (project_key name) (SProject x) (view s))"
    by (rule vsteps.proj [OF vsteps.start p])
  moreover have "agree (bm_insert (project_key name) (SProject x) (view s)) m1"
    unfolding m1_def using p by (simp add: agree_insert not_version_data)
  ultimately have m1: "vsteps True (view s) [] m1" by (rule vsteps.other)
  have got: "bm_get m1 (branch_state_key name b) = None" "bm_get m1 (project_key name) = Some (SProject x)"
    "project_key name \<noteq> branch_state_key name b" if "slash_free b" for b
    using none [OF that] p that by (simp_all add: m1_def key_eq)
  have names: "BRANCH_DEV \<noteq> BRANCH_TEST" "BRANCH_DEV \<noteq> BRANCH_PROD" "BRANCH_TEST \<noteq> BRANCH_PROD"
    by (simp_all add: BRANCH_DEV_def BRANCH_TEST_def BRANCH_PROD_def)
  have zero: "active_version (branch_new 1) = 0" by (simp add: branch_new_def)
  have "vsteps True (view s) []
      (fold (\<lambda>b. bm_insert (branch_state_key name b) (SBranch (branch_new 1))) [BRANCH_DEV, BRANCH_TEST, BRANCH_PROD] m1)"
    using got names zero keys m1
    by (simp, intro vsteps.branch) (simp_all add: state_key_eq)
  then show ?thesis by (simp add: t ev m1_def)
qed

lemma save_pending_inject [simp]: "save_pending k v s = save_pending k w s \<longleftrightarrow> v = w"
  by (cases s) (simp add: save_pending_def put_pending_def)

lemma branch_create_vsteps:
  assumes "apply_branch_create p name source now s = Inr (t, ev)" "store_wf (view s)"
  shows "vsteps True (view s) ev (view t)"
proof -
  obtain x where x: "bm_get (view s) (project_key p) = Some (SProject x)"
    using assms(1) by (auto simp: apply_branch_create_def split: if_splits)
  have names: "slash_free p" "slash_free name"
    using assms(1) store_wf_get [OF assms(2) x] entry_ok_project valid_branch_slash_free
    by (auto simp: apply_branch_create_def split: if_splits)
  have none: "bm_get (view s) (branch_state_key p name) = None"
    using assms(1) by (auto simp: apply_branch_create_def split: if_splits)
  have "\<exists>st. active_version st = 0 \<and> t = save_pending (branch_state_key p name) (SBranch st) s \<and> ev = []"
    using assms(1)
    by (auto simp: apply_branch_create_def done_with_def Let_def branch_from_source_def branch_new_def
        split: if_splits option.splits)
  then show ?thesis using names none x by (auto intro!: vsteps.branch vsteps.start)
qed

section \<open>All commands\<close>

lemma frame_agree:
  assumes "edits F s t" "\<And>k. F k \<Longrightarrow> \<not> starts_with k K_PROJECT"
  shows "agree (view s) (view t)"
  unfolding agree_def using edits_frame [OF assms(1)] assms(2) version_data_project by metis

lemma frame_vsteps:
  assumes "edits F s t" "\<And>k. F k \<Longrightarrow> \<not> starts_with k K_PROJECT"
  shows "vsteps tame (view s) [] (view t)"
  by (rule vsteps.other [OF vsteps.start frame_agree [OF assms]])

lemma outside_projects:
  "admin_area k \<Longrightarrow> \<not> starts_with k K_PROJECT" "pa_area u k \<Longrightarrow> \<not> starts_with k K_PROJECT"
  "ga_area u k \<Longrightarrow> \<not> starts_with k K_PROJECT" "token_area k \<Longrightarrow> \<not> starts_with k K_PROJECT"
  "audit_area k \<Longrightarrow> \<not> starts_with k K_PROJECT" "shared_area k \<Longrightarrow> \<not> starts_with k K_PROJECT"
  "starts_with k K_GA_SESSION \<Longrightarrow> \<not> starts_with k K_PROJECT"
  by (auto simp: admin_area_def pa_area_def pa_session_area_def ga_area_def ga_session_area_def token_area_def
      audit_area_def shared_area_def key_defs starts_with_iff)

lemma structure_draft_set_vsteps:
  assumes "apply_structure_draft_set p base groups s = Inr (t, ev)" "store_wf (view s)"
  shows "vsteps True (view s) ev (view t)"
proof -
  obtain st d where st: "bm_get (view s) (struct_key p) = Some (SStruct st)"
    and t: "t = save_pending (struct_draft_key p) d s" "ev = []"
    using assms(1) by (auto simp: apply_structure_draft_set_def done_with_def Let_def split: if_splits)
  have "slash_free p" using store_wf_get [OF assms(2) st] entry_ok_struct by blast
  then show ?thesis
    by (auto simp: t agree_insert not_version_data intro!: vsteps.other [OF vsteps.start])
qed

text \<open>The two commands that delete branches.\<close>

fun deletes_branches :: "command \<Rightarrow> bool" where
  "deletes_branches (ProjectDelete _ _) = True"
| "deletes_branches (BranchDelete _ _ _) = True"
| "deletes_branches _ = False"

text \<open>A command is tame if no branch it numbers anew has a gray number above its active version.\<close>

fun cmd_tame :: "sval mem_store \<Rightarrow> command \<Rightarrow> bool" where
  "cmd_tame m (GrayPromote p b _ _ _ _) = gray_low m p b"
| "cmd_tame m (PublishStructure p _ _ _ _ _) = (\<forall>b. gray_low m p b)"
| "cmd_tame m _ = True"

fun outside_branches :: "command \<Rightarrow> bool" where
  "outside_branches (ProjectCreate _ _ _ _) = False"
| "outside_branches (ProjectDelete _ _) = False"
| "outside_branches (BranchCreate _ _ _ _ _) = False"
| "outside_branches (BranchDelete _ _ _) = False"
| "outside_branches (StructureDraftSet _ _ _ _) = False"
| "outside_branches (PublishStructure _ _ _ _ _ _) = False"
| "outside_branches (DraftUpdate _ _ _ _ _ _ _ _) = False"
| "outside_branches (Publish _ _ _ _ _ _ _) = False"
| "outside_branches (RollbackTo _ _ _ _ _ _ _) = False"
| "outside_branches (SharedPublish _ _ _ _ _ _) = False"
| "outside_branches (GrayPublish _ _ _ _ _ _ _ _) = False"
| "outside_branches (GrayPromote _ _ _ _ _ _) = False"
| "outside_branches (GrayAbort _ _ _ _ _ _) = False"
| "outside_branches _ = True"

lemma done_with_Inr [simp]: "done_with s = Inr (t, ev) \<longleftrightarrow> t = s \<and> ev = []"
  by (auto simp: done_with_def)

lemma heartbeat_quiet: "heartbeat k e s = Inr (t, ev) \<Longrightarrow> ev = []"
  by (auto simp: heartbeat_def)

lemmas quiet_defs =
  apply_shared_draft_update_def apply_shared_delete_def apply_session_login_def apply_session_logout_def
  apply_session_heartbeat_def apply_project_admin_create_def apply_project_admin_delete_def
  apply_project_admin_set_password_def apply_pa_session_login_def apply_pa_session_logout_def
  apply_pa_session_heartbeat_def apply_admin_set_password_def apply_multi_session_login_def
  apply_multi_session_logout_def apply_multi_session_heartbeat_def apply_multi_pa_session_login_def
  apply_multi_pa_session_logout_def apply_multi_pa_session_heartbeat_def apply_multi_session_logout_all_def
  apply_multi_pa_session_logout_all_def apply_global_admin_create_def apply_global_admin_delete_def
  apply_global_admin_set_password_def apply_multi_ga_session_login_def apply_multi_ga_session_logout_def
  apply_multi_ga_session_heartbeat_def apply_multi_ga_session_logout_all_def
  apply_global_admin_sessions_revoke_all_def apply_audit_append_def apply_rotate_master_key_def
  apply_project_token_create_def apply_project_token_revoke_def Let_def

lemma outside_quiet:
  assumes "apply_inner E c now s = (t, Inr ev)" "outside_branches c"
  shows "ev = []"
  using assms
  by (cases c) (auto simp: quiet_defs dest: heartbeat_quiet split: if_splits option.splits prod.splits)

lemma outside_area:
  assumes "outside_branches c" "cmd_area s c k"
  shows "\<not> starts_with k K_PROJECT"
  using assms by (cases c) (auto dest: outside_projects)

lemma apply_inner_vsteps:
  assumes "apply_inner E c now s = (t, Inr ev)" "store_wf (view s)" "sm_pending s = []" "cmd_ok c"
    and "owned (view s)" "\<not> deletes_branches c"
  shows "vsteps (cmd_tame (view s) c) (view s) ev (view t)"
proof (cases "outside_branches c")
  case True
  have "edits (cmd_area s c) s t" using apply_inner_edits assms(1-4) by blast
  then show ?thesis
    using frame_vsteps [OF _ outside_area [OF True]] outside_quiet [OF assms(1) True] by simp
next
  case False
  note ops = project_create_vsteps branch_create_vsteps structure_draft_set_vsteps publish_structure_vsteps
    draft_update_vsteps publish_vsteps rollback_vsteps shared_publish_vsteps gray_publish_vsteps
    gray_promote_vsteps gray_abort_vsteps
  show ?thesis
    using False assms(1-3,5,6) by (cases c) (simp_all, (rule ops; assumption)+)
qed

end
