(* ===== verification/Maintenance.thy ===== *)
theory Maintenance
  imports Versions Accounts
begin

text \<open>
  Work outside the replicated commands (\<open>state.rs\<close>): the full and the paged dump of the store, the
  restore of a snapshot in batches (\<open>restore_all\<close>, \<open>restore_stream\<close>, \<open>chunk_pairs\<close>), and the
  rewrapping of every stored secret after a key rotation (\<open>rewrap_deks\<close>). The length of an encoded
  value and the rewrapping function are parameters, as they are in the code.
\<close>

type_synonym rows = "(string \<times> sval) list"

section \<open>Dump\<close>

definition dump_all :: "sm \<Rightarrow> rows" where
  "dump_all s = get_prefix_merged s ''''"

definition count_prefix_keys :: "sm \<Rightarrow> string \<Rightarrow> nat" where
  "count_prefix_keys s p = length (ms_get_prefix_keys (sm_store s) p)"

record dump_iter =
  di_budget :: nat
  di_after :: "string option"
  di_done :: bool

definition dump_batches :: "nat \<Rightarrow> dump_iter" where
  "dump_batches budget = \<lparr>di_budget = max budget 1, di_after = None, di_done = False\<rparr>"

text \<open>One call of \<open>next\<close>: a page, or the end.\<close>

definition dump_next :: "(sval \<Rightarrow> nat) \<Rightarrow> sm \<Rightarrow> dump_iter \<Rightarrow> rows option \<times> dump_iter" where
  "dump_next vlen s it =
     (if di_done it then (None, it)
      else let page = ms_get_prefix_page vlen (sm_store s) '''' (di_after it) (di_budget it) in
        if page = [] then (None, it\<lparr>di_done := True\<rparr>)
        else (Some page, it\<lparr>di_after := Some (fst (last page))\<rparr>))"

text \<open>The iterator driven to its end, for at most the given number of calls; \<open>None\<close> is out of calls.\<close>

fun dump_collect :: "(sval \<Rightarrow> nat) \<Rightarrow> sm \<Rightarrow> nat \<Rightarrow> dump_iter \<Rightarrow> rows list option" where
  "dump_collect vlen s 0 it = None"
| "dump_collect vlen s (Suc n) it =
     (case dump_next vlen s it of
        (None, _) \<Rightarrow> Some []
      | (Some page, it') \<Rightarrow> map_option ((#) page) (dump_collect vlen s n it'))"

section \<open>Restore\<close>

text \<open>The inner loop of \<open>chunk_pairs\<close>: how many rows the next batch takes.\<close>

fun chunk_end :: "(sval \<Rightarrow> nat) \<Rightarrow> nat \<Rightarrow> nat \<Rightarrow> bool \<Rightarrow> rows \<Rightarrow> nat" where
  "chunk_end vlen budget bytes at_start [] = 0"
| "chunk_end vlen budget bytes at_start ((k, v) # rows) =
     (if bytes < budget \<or> at_start
      then Suc (chunk_end vlen budget (bytes + (length k + vlen v)) False rows) else 0)"

function chunk_pairs :: "(sval \<Rightarrow> nat) \<Rightarrow> nat \<Rightarrow> rows \<Rightarrow> rows list" where
  "chunk_pairs vlen chunk_bytes rows =
     (if rows = [] then []
      else let n = chunk_end vlen (max chunk_bytes 1) 0 True rows
           in take n rows # chunk_pairs vlen chunk_bytes (drop n rows))"
  by pat_completeness auto

lemma chunk_end_pos: "rows \<noteq> [] \<Longrightarrow> 0 < chunk_end vlen budget b True rows"
  by (cases rows) auto

termination chunk_pairs
  by (relation "measure (\<lambda>(vlen, n, rows). length rows)") (auto simp: chunk_end_pos)

declare chunk_pairs.simps [simp del]

text \<open>
  The batches are consumed in order; the first one clears the old keys in the same transaction. An
  error in the stream stops the restore with what was written so far.
\<close>

fun restore_loop :: "rows res list \<Rightarrow> bool \<Rightarrow> sval mem_store \<Rightarrow> sval mem_store \<times> bool res" where
  "restore_loop [] first st = (st, Inr first)"
| "restore_loop (Inl e # bs) first st = (st, Inl e)"
| "restore_loop (Inr batch # bs) first st =
     (if first then restore_loop bs False (ms_write_batch st batch (ms_get_prefix_keys st ''''))
      else if batch \<noteq> [] then restore_loop bs False (ms_write_batch st batch [])
      else restore_loop bs False st)"

definition restore_stream :: "rows res list \<Rightarrow> sm \<Rightarrow> sm \<times> unit res" where
  "restore_stream batches s =
     (case restore_loop batches True (sm_store s) of
        (st, Inl e) \<Rightarrow> (s\<lparr>sm_store := st\<rparr>, Inl e)
      | (st, Inr first) \<Rightarrow>
          (if first \<and> ms_get_prefix_keys st '''' \<noteq> []
           then s\<lparr>sm_store := ms_write_batch st [] (ms_get_prefix_keys st '''')\<rparr>
           else s\<lparr>sm_store := st\<rparr>, Inr ()))"

definition RESTORE_CHUNK_BYTES :: nat where "RESTORE_CHUNK_BYTES = 64 * 1024 * 1024"

definition restore_all_batched :: "(sval \<Rightarrow> nat) \<Rightarrow> rows \<Rightarrow> nat \<Rightarrow> sm \<Rightarrow> sm \<times> unit res" where
  "restore_all_batched vlen rows chunk_bytes s =
     restore_stream (map Inr (chunk_pairs vlen chunk_bytes rows)) s"

definition restore_all :: "(sval \<Rightarrow> nat) \<Rightarrow> rows \<Rightarrow> sm \<Rightarrow> sm \<times> unit res" where
  "restore_all vlen rows s = restore_all_batched vlen rows RESTORE_CHUNK_BYTES s"

section \<open>Rewrapping secrets\<close>

type_synonym rewrap = "ciphertext \<Rightarrow> ciphertext res option"

text \<open>The flag tells whether the value was changed.\<close>

definition rewrap_value :: "rewrap \<Rightarrow> val \<Rightarrow> (val \<times> bool) res" where
  "rewrap_value f v = (case v of
     VSecret ct \<Rightarrow> (case f ct of None \<Rightarrow> Inr (v, False) | Some r \<Rightarrow> bindE r (\<lambda>ct'. Inr (VSecret ct', True)))
   | _ \<Rightarrow> Inr (v, False))"

definition rewrap_snapshot :: "rewrap \<Rightarrow> snapshot \<Rightarrow> (snapshot \<times> bool) res" where
  "rewrap_snapshot f snap =
     foldE (\<lambda>(g, k, v) (t, changed). bindE (rewrap_value f v) (\<lambda>(v', c).
       Inr (tree_insert g k v' t, changed \<or> c))) (tree_entries snap) (snap, False)"

definition rewrap_draft :: "rewrap \<Rightarrow> value_draft \<Rightarrow> (value_draft \<times> bool) res" where
  "rewrap_draft f d =
     foldE (\<lambda>(g, k, dv) (t, changed). bindE (rewrap_value f (dv_value dv)) (\<lambda>(v', c).
       Inr (tree_insert g k (dv\<lparr>dv_value := v'\<rparr>) t, changed \<or> c))) (tree_entries d) (d, False)"

definition rewrap_entry :: "rewrap \<Rightarrow> diff_entry \<Rightarrow> (diff_entry \<times> bool) res" where
  "rewrap_entry f e = (case (de_kind e, de_new_value e) of
     (Upsert, Some v) \<Rightarrow> bindE (rewrap_value f v) (\<lambda>(v', c). Inr (e\<lparr>de_new_value := Some v'\<rparr>, c))
   | _ \<Rightarrow> Inr (e, False))"

definition rewrap_diff :: "rewrap \<Rightarrow> diff_entry list \<Rightarrow> (diff_entry list \<times> bool) res" where
  "rewrap_diff f es =
     foldE (\<lambda>e (out, changed). bindE (rewrap_entry f e) (\<lambda>(e', c). Inr (out @ [e'], changed \<or> c)))
       es ([], False)"

text \<open>One row, chosen by the text of its key. A value that does not decode is skipped.\<close>

definition rewrap_row :: "rewrap \<Rightarrow> string \<Rightarrow> sval \<Rightarrow> (sval \<times> bool) res" where
  "rewrap_row f k v =
     (if ends_with k ''/snap'' then (case as_snap v of None \<Rightarrow> Inr (v, False)
        | Some snap \<Rightarrow> bindE (rewrap_snapshot f snap) (\<lambda>(t, c). Inr (SSnap t, c)))
      else if ends_with k ''/diff'' then (case as_diff v of None \<Rightarrow> Inr (v, False)
        | Some d \<Rightarrow> bindE (rewrap_diff f d) (\<lambda>(d', c). Inr (SDiff d', c)))
      else if starts_with k K_SHARED \<or> starts_with k K_SHARED_DRAFT then
        (case as_shared v of None \<Rightarrow> Inr (v, False)
        | Some item \<Rightarrow> bindE (rewrap_value f (si_value item)) (\<lambda>(v', c).
            Inr (SShared (item\<lparr>si_value := v'\<rparr>), c)))
      else if contains_str k K_GRAY_SNAP then (case as_snap v of None \<Rightarrow> Inr (v, False)
        | Some snap \<Rightarrow> bindE (rewrap_snapshot f snap) (\<lambda>(t, c). Inr (SSnap t, c)))
      else (case strip_prefix K_PROJECT k of None \<Rightarrow> Inr (v, False)
        | Some rest \<Rightarrow>
            if contains_str rest K_BRANCH \<and> ends_with k K_STATE then
              (case as_branch v of None \<Rightarrow> Inr (v, False)
              | Some st \<Rightarrow> bindE (rewrap_draft f (b_value_draft st)) (\<lambda>(d, c).
                  Inr (SBranch (st\<lparr>b_value_draft := d\<rparr>), c)))
            else Inr (v, False)))"

text \<open>Each changed row is saved at once, so an error leaves the rows before it rewritten.\<close>

fun rewrap_rows :: "rewrap \<Rightarrow> rows \<Rightarrow> nat \<Rightarrow> sval mem_store \<Rightarrow> sval mem_store \<times> nat res" where
  "rewrap_rows f [] n st = (st, Inr n)"
| "rewrap_rows f ((k, v) # rows) n st =
     (case rewrap_row f k v of
        Inl e \<Rightarrow> (st, Inl e)
      | Inr (v', changed) \<Rightarrow>
          if changed then rewrap_rows f rows (n + 1) (ms_put st k v') else rewrap_rows f rows n st)"

definition rewrap_deks :: "rewrap \<Rightarrow> sm \<Rightarrow> sm \<times> nat res" where
  "rewrap_deks f s =
     (case rewrap_rows f (get_prefix_merged s '''') 0 (sm_store s) of
        (st, r) \<Rightarrow> (s\<lparr>sm_store := st\<rparr>, r))"

section \<open>A dump ends and is restored\<close>

lemma ms_write_batch_fold: "ms_write_batch st batch [] = fold (\<lambda>(k, v) m. bm_insert k v m) batch st"
  by (simp add: ms_write_batch_def)

lemma write_batch_clears: "ms_write_batch st batch (ms_get_prefix_keys st []) = bm_of_list batch"
proof -
  have "fold bm_remove (ms_get_prefix_keys st []) st = bm_empty"
    by (rule bmap_eqI) (auto simp: fold_bm_remove_get ms_get_prefix_keys_def ms_get_prefix_all bm_keys_get)
  then show ?thesis by (simp add: ms_write_batch_def bm_of_list_def)
qed

lemma dump_all_entries: "sm_pending s = [] \<Longrightarrow> dump_all s = bm_entries (sm_store s)"
  by (simp add: dump_all_def get_prefix_merged_view ms_get_prefix_all view_start)

text \<open>The iterator stands behind the rows it has given out.\<close>

definition stands_at :: "sm \<Rightarrow> rows \<Rightarrow> rows \<Rightarrow> dump_iter \<Rightarrow> bool" where
  "stands_at s pre rest it \<longleftrightarrow> bm_entries (sm_store s) = pre @ rest \<and> \<not> di_done it \<and>
     di_after it = (if pre = [] then None else Some (fst (last pre)))"

lemma page_at:
  assumes "stands_at s pre rest it"
  shows "ms_get_prefix_page vlen (sm_store s) '''' (di_after it) (di_budget it) = page_take vlen (di_budget it) 0 rest"
proof -
  have "ksorted (pre @ rest)" using assms ksorted_entries [of "sm_store s"] by (simp add: stands_at_def)
  then have "(case di_after it of None \<Rightarrow> pre @ rest | Some a \<Rightarrow> dropWhile (\<lambda>(k, v). k \<le> a) (pre @ rest)) = rest"
    using assms dropWhile_after_prefix [of pre rest] by (auto simp: stands_at_def)
  then show ?thesis
    using assms by (simp add: stands_at_def ms_get_prefix_page_def page_of_def ms_get_prefix_all)
qed

lemma collect_rest:
  "stands_at s pre rest it \<Longrightarrow> length rest < n \<Longrightarrow>
     \<exists>batches. dump_collect vlen s n it = Some batches \<and> concat batches = rest"
proof (induction n arbitrary: pre rest it)
  case (Suc n)
  let ?page = "page_take vlen (di_budget it) 0 rest"
  note page = page_at [OF Suc.prems(1), of vlen]
  show ?case
  proof (cases "rest = []")
    case True
    then show ?thesis using Suc.prems(1) page by (simp add: dump_next_def stands_at_def Let_def)
  next
    case False
    then have ne: "?page \<noteq> []" by (rule page_take_not_Nil)
    obtain ys where ys: "rest = ?page @ ys" using page_take_prefix by blast
    define it' where "it' = it\<lparr>di_after := Some (fst (last ?page))\<rparr>"
    have step: "dump_next vlen s it = (Some ?page, it')"
      using Suc.prems(1) page ne by (simp add: dump_next_def stands_at_def it'_def Let_def)
    have "stands_at s (pre @ ?page) ys it'"
      using Suc.prems(1) ys ne by (simp add: stands_at_def it'_def)
    moreover have "length ys < n"
      using Suc.prems(2) arg_cong [OF ys, of length] ne by (cases ?page) auto
    ultimately obtain batches where "dump_collect vlen s n it' = Some batches" "concat batches = ys"
      using Suc.IH by blast
    then show ?thesis using step ys by (intro exI [of _ "?page # batches"]) simp
  qed
qed simp

lemma chunk_pairs_concat: "concat (chunk_pairs vlen n rows) = rows"
proof (induction vlen n rows rule: chunk_pairs.induct)
  case (1 vlen n rows)
  then show ?case by (subst chunk_pairs.simps) (simp add: Let_def)
qed

lemma restore_rest: "restore_loop (map Inr bs) False (bm_of_list xs) = (bm_of_list (xs @ concat bs), Inr False)"
proof (induction bs arbitrary: xs)
  case (Cons b bs)
  have "ms_write_batch (bm_of_list xs) b [] = bm_of_list (xs @ b)"
    by (simp add: ms_write_batch_fold bm_of_list_def)
  then show ?case using Cons [of "xs @ b"] Cons [of xs] by auto
qed simp

lemma restore_batches_exact: "restore_stream (map Inr bs) t = (t\<lparr>sm_store := bm_of_list (concat bs)\<rparr>, Inr ())"
proof (cases bs)
  case Nil
  have "ms_get_prefix_keys (sm_store t) '''' = [] \<Longrightarrow> sm_store t = bm_empty"
    by (rule bmap_eqI) (simp add: ms_get_prefix_keys_def ms_get_prefix_all bm_get_def)
  then show ?thesis
    using Nil write_batch_clears [of "sm_store t" "[]"] by (auto simp: restore_stream_def bm_of_list_def)
next
  case (Cons b bs')
  then show ?thesis by (simp add: restore_stream_def write_batch_clears restore_rest)
qed

text \<open>
  C35: Dump and restore. The paged dump of a store ends after at most one call more than the store has rows,
  whatever the budget of a page, and its pages are the full dump in order; restoring them, or the full dump cut
  at any size, into any machine leaves exactly the dumped store.
\<close>

theorem dump_ends_and_restores:
  assumes "sm_pending s = []" "length (bm_entries (sm_store s)) < n"
  shows "(\<exists>batches. dump_collect vlen s n (dump_batches budget) = Some batches \<and> concat batches = dump_all s \<and>
      restore_stream (map Inr batches) t = (t\<lparr>sm_store := sm_store s\<rparr>, Inr ())) \<and>
    restore_all_batched vlen (dump_all s) chunk t = (t\<lparr>sm_store := sm_store s\<rparr>, Inr ())"
proof -
  have whole: "bm_of_list (dump_all s) = sm_store s" by (simp add: dump_all_entries [OF assms(1)])
  have "stands_at s [] (dump_all s) (dump_batches budget)"
    by (simp add: stands_at_def dump_batches_def dump_all_entries [OF assms(1)])
  then obtain batches where "dump_collect vlen s n (dump_batches budget) = Some batches" "concat batches = dump_all s"
    using collect_rest assms(2) dump_all_entries [OF assms(1)] by metis
  then show ?thesis
    using whole by (auto simp: restore_batches_exact restore_all_batched_def chunk_pairs_concat)
qed

theorem dump_ends_and_restores_witness:
  "\<exists>batches. dump_collect (\<lambda>v. 1) (sm_new (bm_insert ''k'' (SNum 1) bm_empty)) 2 (dump_batches 1) = Some batches \<and>
     restore_stream (map Inr batches) (sm_new bm_empty) =
       (sm_new (bm_insert ''k'' (SNum 1) bm_empty), Inr ())"
proof -
  have "sm_pending (sm_new (bm_insert ''k'' (SNum 1) bm_empty)) = []"
    "length (bm_entries (sm_store (sm_new (bm_insert ''k'' (SNum 1) bm_empty)))) < 2"
    by code_simp+
  from dump_ends_and_restores [OF this, of "\<lambda>v. 1" 1 "sm_new bm_empty"] show ?thesis
    by (auto simp: sm_new_def)
qed

end
