(* ===== verification/Reach.thy ===== *)
theory Reach
  imports Version_Ops Maintenance
begin

text \<open>
  The states a node can be in: the empty store, driven by commands in any order, successful or not,
  and by the pruning jobs in between. A run is tame if no command of it skips a version number. By
  rule induction: every reachable store is well-typed, its buffer is empty, version numbers are
  bounded by the active version, and in a tame run the current configuration can always be read.
\<close>

section \<open>Deleting below a prefix\<close>

lemma starts_with_slash_free: "slash_free x \<Longrightarrow> starts_with (y @ CHR ''/'' # z) x \<longleftrightarrow> starts_with y x"
proof (induction x arbitrary: y)
  case (Cons c x)
  then show ?case by (cases y) auto
qed simp

lemma starts_with_below:
  "slash_free q \<Longrightarrow> slash_free p \<Longrightarrow> starts_with (q @ CHR ''/'' # u) (p @ CHR ''/'' # v) \<longleftrightarrow> q = p \<and> starts_with u v"
proof (induction p arbitrary: q)
  case Nil
  then show ?case by (cases q) auto
next
  case (Cons c p)
  then show ?case by (cases q) auto
qed

text \<open>A deletion by prefix takes a branch with all its versions, or leaves it alone.\<close>

definition whole_branches :: "string \<Rightarrow> bool" where
  "whole_branches q \<longleftrightarrow> (\<forall>p b. slash_free p \<longrightarrow> slash_free b \<longrightarrow>
     (\<forall>n k. ver_key p b n k \<longrightarrow> starts_with k q = starts_with (branch_state_key p b) q) \<and>
     (starts_with (project_key p) q \<longrightarrow> starts_with (branch_state_key p b) q))"

lemma whole_branches_project: "slash_free p \<Longrightarrow> whole_branches (project_key p)"
  by (auto simp: whole_branches_def ver_key_def key_defs starts_with_slash_free)

lemma whole_branches_branch:
  assumes "slash_free p" "slash_free b"
  shows "whole_branches (branch_prefix p b)"
proof -
  have "\<not> starts_with q (p @ CHR ''/'' # u)" if "slash_free q" for q u
    using that by (auto simp: starts_with_iff)
  then show ?thesis using assms
    by (auto simp: whole_branches_def ver_key_def key_defs starts_with_slash_free starts_with_below
        starts_with_below [of _ _ "CHR ''b'' # CHR ''/'' # _"])
qed

definition prefix_deleted :: "string \<Rightarrow> sval mem_store \<Rightarrow> sval mem_store \<Rightarrow> bool" where
  "prefix_deleted q m n \<longleftrightarrow> (\<forall>k. version_data k \<longrightarrow> bm_get n k = (if starts_with k q then None else bm_get m k))"

lemma prefix_deleted_get:
  assumes "prefix_deleted q m n" "slash_free p" "slash_free b"
  shows "bm_get n (branch_state_key p b) = (if starts_with (branch_state_key p b) q then None else bm_get m (branch_state_key p b))"
    "bm_get n (project_key p) = (if starts_with (project_key p) q then None else bm_get m (project_key p))"
    "ver_key p b i k \<Longrightarrow> bm_get n k = (if starts_with k q then None else bm_get m k)"
  using assms version_dataI [OF assms(2,3)] unfolding prefix_deleted_def ver_key_def by auto

lemma readable_ver_keys:
  assumes "\<And>i k. ver_key p b i k \<Longrightarrow> bm_get n k = bm_get m k"
  shows "readable n p b v = readable m p b v"
  using assms ver_key_simps by (intro readable_cong) metis+

lemma prefix_deleted_keeps:
  assumes "prefix_deleted q m n" "whole_branches q"
  shows "owned m \<Longrightarrow> owned n" "ver_bound m \<Longrightarrow> ver_bound n" "live m \<Longrightarrow> live n"
proof -
  note get = prefix_deleted_get [OF assms(1)]
  have whole: "ver_key p b i k \<Longrightarrow> starts_with k q = starts_with (branch_state_key p b) q"
    "starts_with (project_key p) q \<Longrightarrow> starts_with (branch_state_key p b) q"
    if "slash_free p" "slash_free b" for p b i k
    using assms(2) that unfolding whole_branches_def by blast+
  show "owned m \<Longrightarrow> owned n"
    using get(1,2) whole(2) unfolding owned_def by metis
  show "ver_bound m \<Longrightarrow> ver_bound n"
    using get(1,3) whole(1) unfolding ver_bound_alt by metis
  assume "live m"
  show "live n" unfolding live_def
  proof (intro allI impI)
    fix p b st assume b: "slash_free p" "slash_free b" "bm_get n (branch_state_key p b) = Some (SBranch st)"
    then have keep: "\<not> starts_with (branch_state_key p b) q" "bm_get m (branch_state_key p b) = Some (SBranch st)"
      using get(1) by (auto split: if_splits)
    have "bm_get n k = bm_get m k" if "ver_key p b i k" for i k
      using get(3) [OF b(1,2) that] whole(1) [OF b(1,2) that] keep(1) by simp
    then have "readable n p b v = readable m p b v" for v
      by (intro readable_ver_keys)
    then show "readable n p b (active_version st)"
      using \<open>live m\<close> keep(2) b(1,2) by (simp add: live_def)
  qed
qed

lemma project_delete_prefix:
  assumes "apply_project_delete p s = Inr (t, ev)" "sm_pending s = []" "store_wf (view s)"
  shows "prefix_deleted (project_key p) (view s) (view t)" "slash_free p"
proof -
  have "project_delete_area s p k \<longleftrightarrow> starts_with k (project_key p)" if "version_data k" for k
  proof -
    have "\<not> pa_area u k" "\<not> token_area k" "k \<noteq> idx_pname p" for u
      using outside_projects version_data_project [OF that] by (blast, blast, auto simp: key_defs)
    then show ?thesis by (auto simp: project_delete_area_def)
  qed
  then show "prefix_deleted (project_key p) (view s) (view t)"
    unfolding prefix_deleted_def project_delete_view [OF assms] by simp
  show "slash_free p" using project_delete_steps [OF assms] by blast
qed

lemma branch_delete_prefix:
  assumes "apply_branch_delete p b s = Inr (t, ev)" "store_wf (view s)"
  shows "prefix_deleted (branch_prefix p b) (view s) (view t)" "slash_free p" "slash_free b"
proof -
  obtain st where st: "bm_get (view s) (branch_state_key p b) = Some (SBranch st)"
    and t: "t = delete_rows (get_prefix_merged s (branch_prefix p b)) s"
    using assms(1) by (auto simp: apply_branch_delete_def split: if_splits)
  show "prefix_deleted (branch_prefix p b) (view s) (view t)"
    by (simp add: prefix_deleted_def t view_delete_prefix)
  show "slash_free p" "slash_free b" using branch_found [OF assms(2) st] by simp_all
qed

lemma deletion_prefix:
  assumes "apply_inner E c now s = (t, Inr ev)" "sm_pending s = []" "store_wf (view s)" "deletes_branches c"
  obtains q where "prefix_deleted q (view s) (view t)" "whole_branches q" "ev = []"
proof (cases c)
  case (ProjectDelete p op)
  then have "apply_project_delete p s = Inr (t, ev)" using assms(1) by simp
  moreover from this have "ev = []" by (auto simp: apply_project_delete_def Let_def)
  ultimately show thesis
    using that project_delete_prefix [OF _ assms(2,3)] whole_branches_project by blast
next
  case (BranchDelete p b op)
  then have "apply_branch_delete p b s = Inr (t, ev)" using assms(1) by simp
  moreover from this have "ev = []" by (auto simp: apply_branch_delete_def split: if_splits)
  ultimately show thesis
    using that branch_delete_prefix [OF _ assms(3)] whole_branches_branch by blast
qed (use assms(4) in simp_all)

text \<open>The prefix has no separator at its end: a deletion also takes what belongs to every longer name.\<close>

lemma branch_delete_wipes_longer_names:
  assumes "apply_branch_delete p b s = Inr (t, ev)" "store_wf (view s)" "slash_free x"
  shows "bm_get (view t) (branch_state_key p (b @ x)) = None" "bm_get (view t) (version_key p (b @ x) n) = None"
    "bm_get (view t) (snapshot_key p (b @ x) n) = None" "bm_get (view t) (diff_key p (b @ x) n) = None"
proof -
  note del = branch_delete_prefix [OF assms(1,2)]
  have names: "slash_free p" "slash_free (b @ x)" using del(2,3) assms(3) by auto
  note get = prefix_deleted_get [OF del(1) names]
  show "bm_get (view t) (branch_state_key p (b @ x)) = None" unfolding get(1) by (simp add: key_defs starts_with_iff)
  show "bm_get (view t) (version_key p (b @ x) n) = None" "bm_get (view t) (snapshot_key p (b @ x) n) = None"
    "bm_get (view t) (diff_key p (b @ x) n) = None"
    using get(3) [of n] by (simp_all add: ver_key_def) (auto simp: key_defs starts_with_iff)
qed

lemma project_delete_wipes_longer_names:
  assumes "apply_project_delete p s = Inr (t, ev)" "sm_pending s = []" "store_wf (view s)" "slash_free x" "slash_free b"
  shows "bm_get (view t) (project_key (p @ x)) = None" "bm_get (view t) (branch_state_key (p @ x) b) = None"
    "bm_get (view t) (snapshot_key (p @ x) b n) = None"
proof -
  note del = project_delete_prefix [OF assms(1-3)]
  have names: "slash_free (p @ x)" using del(2) assms(4) by auto
  note get = prefix_deleted_get [OF del(1) names assms(5)]
  show "bm_get (view t) (project_key (p @ x)) = None" "bm_get (view t) (branch_state_key (p @ x) b) = None"
    unfolding get(1,2) by (simp_all add: key_defs starts_with_iff)
  show "bm_get (view t) (snapshot_key (p @ x) b n) = None"
    using get(3) [of n] by (simp add: ver_key_def) (auto simp: key_defs starts_with_iff)
qed

section \<open>Pruning\<close>

text \<open>What pruning drops: versions below a checkpoint that is not above the active version.\<close>

lemma prune_versions_steps:
  assumes "prune_versions p b keep s = Inr (n, t)" "store_wf (view s)" "ver_bound (view s)"
  shows "t = s \<or> (\<exists>st kf gone. bm_get (view s) (branch_state_key p b) = Some (SBranch st) \<and> slash_free p \<and> slash_free b \<and>
    t = fold (\<lambda>r. drop_version p b (vr_no r)) gone s \<and> 0 < kf \<and> kf \<le> active_version st \<and> is_checkpoint kf \<and>
    gone = filter (\<lambda>r. \<not> (vr_no r \<ge> kf \<or> vr_no r = active_version st)) (version_history s p b))"
proof -
  obtain st where st: "bm_get (view s) (branch_state_key p b) = Some (SBranch st)"
    using assms(1) by (auto simp: prune_versions_def)
  have names: "slash_free p" "slash_free b" using branch_found [OF assms(2) st] by auto
  let ?hist = "version_history s p b"
  have hist: "0 < vr_no r \<and> vr_no r \<le> active_version st" if "r \<in> set ?hist" for r
  proof -
    have "bm_get (view s) (version_key p b (vr_no r)) \<noteq> None"
      using that set_version_history [OF assms(2) names] by simp
    then show ?thesis using ver_boundD [OF assms(3) names, of "version_key p b (vr_no r)" "vr_no r"] st by force
  qed
  show ?thesis
  proof (cases "length ?hist \<le> keep")
    case True
    then show ?thesis using assms(1) st by (simp add: prune_versions_def Let_def)
  next
    case False
    define kf where "kf = keep_from (vr_no (?hist ! (length ?hist - keep - 1)))"
    define gone where "gone = filter (\<lambda>r. \<not> (vr_no r \<ge> kf \<or> vr_no r = active_version st)) ?hist"
    have "t = fold (\<lambda>r. drop_version p b (vr_no r)) gone s"
      using assms(1) st False by (simp add: prune_versions_def Let_def gone_def kf_def)
    moreover have "?hist ! (length ?hist - keep - 1) \<in> set ?hist" using False by (intro nth_mem) linarith
    then have "0 < kf" "kf \<le> active_version st" "is_checkpoint kf"
      using hist keep_from_props unfolding kf_def by (blast, meson le_trans, blast)
    ultimately show ?thesis using st names gone_def
      by (intro disjI2 exI [of _ st] exI [of _ kf] exI [of _ gone]) simp
  qed
qed

lemma prune_versions_store:
  assumes "prune_versions p b keep s = Inr (n, t)" "sm_pending s = []" "store_wf (view s)" "ver_bound (view s)"
  shows "sm_pending t = [] \<and> store_wf (view t) \<and> ver_bound (view t) \<and> (owned (view s) \<longrightarrow> owned (view t)) \<and>
    (live (view s) \<longrightarrow> live (view t))"
proof -
  from prune_versions_steps [OF assms(1,3,4)] show ?thesis
  proof (elim disjE exE conjE)
    assume "t = s"
    then show ?thesis using assms by simp
  next
    fix st kf gone
    assume st: "bm_get (view s) (branch_state_key p b) = Some (SBranch st)" and names: "slash_free p" "slash_free b"
      and t: "t = fold (\<lambda>r. drop_version p b (vr_no r)) gone s"
      and kf: "0 < kf" "kf \<le> active_version st" "is_checkpoint kf"
      and gone_def: "gone = filter (\<lambda>r. \<not> (vr_no r \<ge> kf \<or> vr_no r = active_version st)) (version_history s p b)"
    have pend: "sm_pending t = []"
      unfolding t using assms(2) by (induction gone arbitrary: s) simp_all
    note get = drop_versions_get [OF assms(2), of p b gone, folded t]
    have sub: "bm_get (view t) k = Some v \<Longrightarrow> bm_get (view s) k = Some v" for k v
      unfolding get by (simp split: if_splits)
    have states: "bm_get (view t) k = bm_get (view s) k"
      if "k = branch_state_key q c \<or> k = project_key q \<or> ver_key q c i k \<and> (q, c) \<noteq> (p, b)" "slash_free q" "slash_free c" for q c i k
      unfolding get using that names by (auto simp: key_eq ver_key_def)
    have "store_wf (view t)" using assms(3) sub by (rule store_wf_subset)
    moreover have "owned (view s) \<Longrightarrow> owned (view t)"
      using states unfolding owned_def by metis
    moreover have "ver_bound (view t)"
      using assms(4) sub states(1) unfolding ver_bound_alt by (metis not_Some_eq)
    moreover have "live (view t)" if "live (view s)"
      unfolding live_def
    proof (intro allI impI)
      fix q c st1 assume q: "slash_free q" "slash_free c" "bm_get (view t) (branch_state_key q c) = Some (SBranch st1)"
      then have st1: "bm_get (view s) (branch_state_key q c) = Some (SBranch st1)" by (intro sub)
      show "readable (view t) q c (active_version st1)"
      proof (cases "(q, c) = (p, b)")
        case True
        then have "active_version st1 = active_version st" using st st1 by simp
        moreover have "content (view t) p b (active_version st) = content (view s) p b (active_version st)"
          unfolding t by (rule drop_versions_content [OF assms(2) names kf(3,1,2)]) (auto simp: gone_def)
        ultimately show ?thesis using that True st names by (simp add: live_def readable_def)
      next
        case False
        then have "readable (view t) q c v = readable (view s) q c v" for v
          using states q(1,2) by (intro readable_ver_keys) blast
        then show ?thesis using that st1 q(1,2) by (simp add: live_def)
      qed
    qed
    ultimately show ?thesis using pend by blast
  qed
qed

lemma prune_audit_agree:
  assumes "prune_audit keep s = (n, t)" "sm_pending s = []"
  shows "sm_pending t = [] \<and> agree (view s) (view t) \<and> (store_wf (view s) \<longrightarrow> store_wf (view t))"
proof -
  let ?f = "\<lambda>seq t. t\<lparr>sm_store := ms_delete (sm_store t) (audit_key seq)\<rparr>"
  have "sm_pending (fold ?f gone s) = [] \<and> agree (view s) (view (fold ?f gone s)) \<and>
    (store_wf (view s) \<longrightarrow> store_wf (view (fold ?f gone s)))" for gone
  proof (induction gone rule: rev_induct)
    case (snoc i gone)
    let ?u = "fold ?f gone s"
    have "view (?f i ?u) = bm_remove (audit_key i) (view ?u)"
      using snoc by (simp add: view_def ms_delete_def)
    moreover have "\<not> version_data (audit_key i)"
      by (auto dest!: version_data_project simp: key_defs)
    ultimately show ?case using snoc by (simp add: agree_remove store_wf_remove)
  qed (use assms(2) in simp)
  then show ?thesis using assms by (auto simp: prune_audit_def Let_def split: if_splits)
qed

section \<open>Reachable machines\<close>

inductive reach :: "bool \<Rightarrow> ext \<Rightarrow> sm \<Rightarrow> bool" for tame E where
  empty: "reach tame E (sm_new bm_empty)"
| cmd: "reach tame E s \<Longrightarrow> cmd_ok c \<Longrightarrow> (tame \<Longrightarrow> cmd_tame (sm_store s) c) \<Longrightarrow>
    apply_command E c now s = (t, r) \<Longrightarrow> reach tame E t"
| prune: "reach tame E s \<Longrightarrow> prune_versions p b keep s = Inr (n, t) \<Longrightarrow> reach tame E t"
| audit: "reach tame E s \<Longrightarrow> prune_audit keep s = (n, t) \<Longrightarrow> reach tame E t"

text \<open>The state between two steps.\<close>

definition rest_ok :: "sm \<Rightarrow> bool" where
  "rest_ok s \<longleftrightarrow> sm_pending s = [] \<and> store_wf (sm_store s) \<and> owned (sm_store s) \<and> ver_bound (sm_store s)"

lemma rest_ok_view: "rest_ok s \<Longrightarrow> view s = sm_store s"
  by (simp add: rest_ok_def view_start)

lemma rest_okI: "sm_pending s = [] \<Longrightarrow> store_wf (view s) \<Longrightarrow> owned (view s) \<Longrightarrow> ver_bound (view s) \<Longrightarrow> rest_ok s"
  by (simp add: rest_ok_def view_start)

lemma rest_ok_empty: "rest_ok (sm_new bm_empty)"
  by (intro rest_okI) (simp_all add: sm_new_def owned_def ver_bound_def view_def buf_view_def)

text \<open>One command, seen from the stores before and after it.\<close>

lemma failed_keeps:
  assumes "apply_command E c now s = (t, Inl e)"
  shows "keeps_all_but_drafts s t" "sm_pending t = []"
proof -
  obtain u where u: "apply_inner E c now (clear_pending s) = (u, Inl e)" "t = clear_pending u"
    using assms by (auto simp: apply_command_Inl)
  then show "keeps_all_but_drafts s t" "sm_pending t = []"
    using apply_inner_failed [OF u(1)] by (auto simp: keeps_all_but_drafts_def)
qed

lemma command_failed_agree:
  assumes "apply_command E c now s = (t, Inl e)"
  shows "agree (sm_store s) (sm_store t)"
proof -
  have "keeps_all_but_drafts s t" by (rule failed_keeps [OF assms])
  moreover have "\<not> starts_with k K_SHARED_DRAFT" if "version_data k" for k
    using version_data_project [OF that] by (auto simp: key_defs starts_with_iff)
  ultimately show ?thesis unfolding agree_def keeps_all_but_drafts_def by blast
qed

lemma command_vsteps:
  assumes "apply_command E c now s = (t, Inr ev)" "rest_ok s" "cmd_ok c" "\<not> deletes_branches c"
  shows "vsteps (cmd_tame (sm_store s) c) (sm_store s) ev (sm_store t)"
proof -
  have wf: "store_wf (sm_store s)" using assms(2) by (simp add: rest_ok_def)
  obtain u where u: "apply_inner E c now (clear_pending s) = (u, Inr ev)" "sm_store t = view u"
    using apply_command_done [OF assms(1) wf assms(3)] by metis
  then show ?thesis
    using apply_inner_vsteps [OF u(1)] assms by (simp add: rest_ok_def)
qed

lemma command_deletes:
  assumes "apply_command E c now s = (t, Inr ev)" "rest_ok s" "cmd_ok c" "deletes_branches c"
  obtains q where "prefix_deleted q (sm_store s) (sm_store t)" "whole_branches q" "ev = []"
proof -
  have wf: "store_wf (sm_store s)" using assms(2) by (simp add: rest_ok_def)
  obtain u where u: "apply_inner E c now (clear_pending s) = (u, Inr ev)" "sm_store t = view u"
    using apply_command_done [OF assms(1) wf assms(3)] by metis
  show thesis
    using deletion_prefix [OF u(1) _ _ assms(4)] that u(2) wf by (metis clear_pending_simps(1,3))
qed

lemma command_rest_ok:
  assumes "apply_command E c now s = (t, r)" "rest_ok s" "cmd_ok c"
  shows "rest_ok t"
proof (cases r)
  case (Inl e)
  note fail = assms(1) [unfolded Inl]
  note agree = command_failed_agree [OF fail]
  have "keeps_all_but_drafts s t" "sm_pending t = []" using failed_keeps [OF fail] by simp_all
  moreover from this have "store_wf (sm_store t)"
    using assms(2) store_wf_subset [of "sm_store s" "sm_store t"]
    unfolding rest_ok_def keeps_all_but_drafts_def by (metis option.distinct(1))
  moreover have "owned (sm_store t)" "ver_bound (sm_store t)"
    using vsteps_owned [OF vsteps.other [OF vsteps.start agree]] agree_bound [OF agree] assms(2)
    by (simp_all add: rest_ok_def)
  ultimately show ?thesis by (simp add: rest_ok_def)
next
  case (Inr ev)
  note ok = assms(1) [unfolded Inr]
  have "store_wf (sm_store s)" using assms(2) by (simp add: rest_ok_def)
  then have "sm_pending t = []" "store_wf (sm_store t)"
    using apply_command_done [OF ok _ assms(3)] by metis+
  moreover have "owned (sm_store t) \<and> ver_bound (sm_store t)"
  proof (cases "deletes_branches c")
    case True
    then show ?thesis
      using command_deletes [OF ok assms(2,3)] prefix_deleted_keeps assms(2) by (metis rest_ok_def)
  next
    case False
    then show ?thesis
      using command_vsteps [OF ok assms(2,3)] vsteps_owned vsteps_bound assms(2) by (metis rest_ok_def)
  qed
  ultimately show ?thesis by (simp add: rest_ok_def)
qed

lemma reach_rest_ok: "reach tame E s \<Longrightarrow> rest_ok s"
proof (induction rule: reach.induct)
  case (prune s p b keep n t)
  then show ?case
    using prune_versions_store [OF prune.hyps(2)] by (auto simp: rest_ok_def view_start)
next
  case (audit s keep n t)
  have a: "sm_pending t = []" "agree (view s) (view t)" "store_wf (view t)"
    using prune_audit_agree [OF audit.hyps(2)] rest_ok_view [OF audit.IH] audit.IH by (auto simp: rest_ok_def)
  then show ?case
    using vsteps_owned [OF vsteps.other [OF vsteps.start a(2)]] agree_bound [OF a(2)] audit.IH rest_ok_view [OF audit.IH]
    by (auto simp: rest_ok_def view_start)
qed (auto intro: rest_ok_empty command_rest_ok)

lemma reach_live: "reach True E s \<Longrightarrow> live (sm_store s)"
proof (induction rule: reach.induct)
  case empty
  then show ?case by (simp add: live_def sm_new_def)
next
  case (cmd s c now t r)
  have ok: "rest_ok s" using reach_rest_ok cmd.hyps(1) by blast
  show ?case
  proof (cases r)
    case (Inl e)
    then show ?thesis
      using vsteps_live [OF vsteps.other [OF vsteps.start command_failed_agree]] cmd by blast
  next
    case (Inr ev)
    then show ?thesis
      using command_deletes [OF _ ok cmd.hyps(2)] command_vsteps [OF _ ok cmd.hyps(2)] prefix_deleted_keeps(3)
        vsteps_live vsteps_weaken cmd by (metis (full_types))
  qed
next
  case (prune s p b keep n t)
  note ok = reach_rest_ok [OF prune.hyps(1)]
  then show ?case
    using prune_versions_store [OF prune.hyps(2)] prune.IH by (auto simp: rest_ok_def view_start)
next
  case (audit s keep n t)
  note ok = reach_rest_ok [OF audit.hyps(1)]
  then have "sm_pending t = []" "agree (sm_store s) (sm_store t)"
    using prune_audit_agree [OF audit.hyps(2)] by (auto simp: rest_ok_def view_start)
  then show ?case using vsteps_live [OF vsteps.other [OF vsteps.start]] audit.IH by blast
qed

section \<open>Properties of every run\<close>

text \<open>
  C8: In every reachable state the buffer is empty, every record has the type its key announces and
  repeats the names in it, every branch belongs to an existing project, and the versions, snapshots
  and differences stored for a branch are numbered from 1 to its active version.
\<close>
theorem reachable_invariant:
  assumes "reach tame E s"
  shows "sm_pending s = [] \<and> store_wf (sm_store s) \<and>
    (\<forall>p b st. slash_free p \<longrightarrow> slash_free b \<longrightarrow> get_branch_state s p b = Inr (Some st) \<longrightarrow>
       (\<exists>x. get_project s p = Inr (Some x))) \<and>
    (\<forall>p b n k. slash_free p \<longrightarrow> slash_free b \<longrightarrow>
       k \<in> {version_key p b n, snapshot_key p b n, diff_key p b n} \<longrightarrow> bm_get (sm_store s) k \<noteq> None \<longrightarrow>
       (\<exists>st. get_branch_state s p b = Inr (Some st) \<and> 0 < n \<and> n \<le> active_version st))"
proof -
  note ok = reach_rest_ok [OF assms]
  have view: "view s = sm_store s" by (rule rest_ok_view [OF ok])
  have "\<exists>x. bm_get (sm_store s) (project_key p) = Some (SProject x)"
    if "slash_free p" "slash_free b" "bm_get (sm_store s) (branch_state_key p b) = Some v" for p b v
  proof -
    have "owned (sm_store s)" using ok by (simp add: rest_ok_def)
    then have "bm_get (sm_store s) (project_key p) \<noteq> None"
      using that unfolding owned_def by blast
    then obtain w where w: "bm_get (sm_store s) (project_key p) = Some w" by blast
    moreover have "typed (KProject p) w"
      using ok that(1) w by (intro store_wfD [of "sm_store s"]) (simp_all add: rest_ok_def key_string.simps)
    ultimately show ?thesis using typed_cases(1) by blast
  qed
  then show ?thesis
    using ok unfolding rest_ok_def ver_bound_def get_branch_state_Some get_project_Some view by blast
qed

text \<open>
  C9: A published version is immutable. Whatever command is applied to a reachable state, and whether
  it succeeds or not, a stored version record, snapshot or difference stays as it is, unless the
  command deletes the whole branch.
\<close>
theorem versions_immutable:
  assumes "reach tame E s" "cmd_ok c" "apply_command E c now s = (t, r)" "slash_free p" "slash_free b"
    and "k \<in> {version_key p b n, snapshot_key p b n, diff_key p b n}" "bm_get (sm_store s) k = Some v"
  shows "bm_get (sm_store t) k = Some v \<or>
    (deletes_branches c \<and> bm_get (sm_store t) k = None \<and> bm_get (sm_store t) (branch_state_key p b) = None)"
proof -
  note ok = reach_rest_ok [OF assms(1)]
  have key: "ver_key p b n k" using assms(6) by (simp add: ver_key_def)
  have bound: "ver_bound (sm_store s)" using ok by (simp add: rest_ok_def)
  show ?thesis
  proof (cases r)
    case (Inl e)
    then show ?thesis
      using agree_bound(2) [OF command_failed_agree bound] assms(3-5,7) key unfolding ver_kept_alt by fastforce
  next
    case (Inr ev)
    note run = assms(3) [unfolded Inr]
    show ?thesis
    proof (cases "deletes_branches c")
      case True
      then obtain q where q: "prefix_deleted q (sm_store s) (sm_store t)" "whole_branches q"
        using command_deletes [OF run ok assms(2)] by metis
      note get = prefix_deleted_get [OF q(1) assms(4,5)]
      have "starts_with k q = starts_with (branch_state_key p b) q"
        using q(2) assms(4,5) key unfolding whole_branches_def by blast
      then show ?thesis using get(1) get(3) [OF key] assms(7) True by auto
    next
      case False
      then have "ver_kept (sm_store s) (sm_store t)"
        using command_vsteps [OF run ok assms(2)] vsteps_bound bound by blast
      then show ?thesis using assms(4,5,7) key unfolding ver_kept_alt by fastforce
    qed
  qed
qed

text \<open>
  C10: Availability: as long as no command skips a version number, the current configuration of every
  branch that has published anything can be read in every reachable state, also after pruning.
\<close>
theorem config_always_readable:
  assumes "reach True E s" "slash_free p" "slash_free b" "get_branch_state s p b = Inr (Some st)"
    and "0 < active_version st"
  shows "\<exists>c. get_config s p b 0 = Inr c \<and> cs_version c = active_version st \<and>
    (\<forall>ctx. instance_id ctx = [] \<longrightarrow> get_config_resolved s p b 0 ctx = Inr c)"
proof -
  note ok = reach_rest_ok [OF assms(1)]
  have view: "view s = sm_store s" by (rule rest_ok_view [OF ok])
  have st: "bm_get (view s) (branch_state_key p b) = Some (SBranch st)" using assms(4) by simp
  then obtain x where x: "content (view s) p b (active_version st) = Some x"
    using reach_live [OF assms(1)] assms(2,3,5) unfolding live_def view readable_def by fastforce
  have "\<exists>str. structure_or_empty s p = Inr str"
  proof (cases "bm_get (view s) (struct_key p)")
    case None
    then show ?thesis by (simp add: structure_or_empty_def)
  next
    case (Some w)
    then have "typed (KStruct p) w"
      using ok assms(2) by (intro store_wfD [of "sm_store s"]) (simp_all add: rest_ok_def view key_string.simps)
    then obtain str where "w = SStruct str" using typed_cases(2) by blast
    then show ?thesis using Some by (simp add: structure_or_empty_def)
  qed
  then show ?thesis
    using st assms(5) snapshot_of_content [OF x] resolve_version_cases [OF st]
    by (auto simp: get_config_def get_config_resolved_def Let_def)
qed

text \<open>
  C11: The events of a command tell what happened: in a run that skips no version number, each event
  that is not a notice about a gray release carries the number of a version that can be read now,
  and its changes turn the content of the version before it (empty before the first) into that of
  the version, so that a client that replays the events follows the branch.
\<close>
theorem events_describe_versions:
  assumes "reach True E s" "cmd_ok c" "cmd_tame (sm_store s) c" "apply_command E c now s = (t, Inr ev)"
    and "e \<in> set ev" "\<not> ev_gray e"
  shows "\<exists>old x. snapshot_of t (ev_project e) (ev_branch e) (ev_version e) = Inr x \<and>
    (ev_version e = 1 \<and> old = bm_empty \<or>
     snapshot_of t (ev_project e) (ev_branch e) (ev_version e - 1) = Inr old) \<and>
    snap_sim (sm_apply_diff old (ev_changes e)) x"
proof -
  note ok = reach_rest_ok [OF assms(1)]
  have live: "live (sm_store s)" by (rule reach_live [OF assms(1)])
  have "\<not> deletes_branches c"
    using command_deletes [OF assms(4) ok assms(2)] assms(5) by (metis empty_iff list.set(1))
  then have "vsteps True (sm_store s) ev (sm_store t)"
    using command_vsteps [OF assms(4) ok assms(2)] assms(3) by simp
  then have "describes (sm_store t) e"
    using vsteps_live [OF _ live] assms(5,6) by (auto simp: told_def)
  moreover have "view t = sm_store t"
    using rest_ok_view command_rest_ok [OF assms(4) ok assms(2)] by blast
  ultimately have d: "describes (view t) e" by simp
  then obtain x where x: "0 < ev_version e"
     "content (view t) (ev_project e) (ev_branch e) (ev_version e) = Some x"
     "readable (view t) (ev_project e) (ev_branch e) (ev_version e - 1)"
     "snap_sim (sm_apply_diff (content_of (view t) (ev_project e) (ev_branch e) (ev_version e - 1)) (ev_changes e)) x"
    by (auto simp: describes_def)
  show ?thesis
  proof (cases "ev_version e = 1")
    case True
    then show ?thesis using x snapshot_of_content [OF x(2)] by (auto simp: content_of_def)
  next
    case False
    then obtain y where y: "content (view t) (ev_project e) (ev_branch e) (ev_version e - 1) = Some y"
      using x(1,3) by (auto simp: readable_def)
    then show ?thesis using x(4) snapshot_of_content [OF x(2)] snapshot_of_content [OF y]
      by (auto simp: content_of_def)
  qed
qed

section \<open>An example run\<close>

definition run :: "ext \<Rightarrow> command list \<Rightarrow> sm" where
  "run E cs = fold (\<lambda>c s. fst (apply_command E c 0 s)) cs (sm_new bm_empty)"

text \<open>A project, an empty structure draft, and its publication on the three default branches.\<close>

definition sample_start :: "command list" where
  "sample_start = [ProjectCreate ''shop'' ''root'' 5 None, StructureDraftSet ''shop'' 1 [] ''root'']"

definition sample_publish :: command where
  "sample_publish = PublishStructure ''shop'' ''first'' ''r1'' ''root'' 7 Block"

lemma run_append: "run E (cs @ [c]) = fst (apply_command E c 0 (run E cs))"
  by (simp add: run_def)

text \<open>A check that evaluates: no branch of the store has a gray number above its active version.\<close>

definition low_rows :: "sval mem_store \<Rightarrow> bool" where
  "low_rows m = list_all (\<lambda>(k, v). case v of SBranch st \<Rightarrow> gray_seq st \<le> active_version st | _ \<Rightarrow> True) (bm_entries m)"

lemma low_rows_gray: "low_rows m \<Longrightarrow> gray_low m p b"
  by (force simp: low_rows_def gray_low_def list_all_iff bm_entries_get [symmetric])

lemma reach_next:
  assumes "reach tame E s" "cmd_ok c" "tame \<Longrightarrow> cmd_tame (sm_store s) c"
  shows "reach tame E (fst (apply_command E c now s))"
  by (rule reach.cmd [OF assms prod.collapse [symmetric]])

lemma sample_start_reach: "reach True sample_ext (run sample_ext sample_start)"
  unfolding run_def sample_start_def by (simp add: reach_next reach.empty)

lemma sample_publish_tame: "cmd_tame (sm_store (run sample_ext sample_start)) sample_publish"
proof -
  have "low_rows (sm_store (run sample_ext sample_start))" by code_simp
  then show ?thesis unfolding sample_publish_def cmd_tame.simps by (blast intro: low_rows_gray)
qed

abbreviation "sample_done \<equiv> apply_command sample_ext sample_publish 0 (run sample_ext sample_start)"

lemma sample_done_reach: "reach True sample_ext (fst sample_done)"
  by (rule reach_next [OF sample_start_reach _ sample_publish_tame]) (simp add: sample_publish_def)

lemma sample_done_state:
  "\<exists>st. get_branch_state (fst sample_done) ''shop'' ''dev'' = Inr (Some st) \<and> active_version st = 1"
proof -
  have "(case get_branch_state (fst sample_done) ''shop'' ''dev'' of
      Inr (Some st) \<Rightarrow> active_version st = 1 | _ \<Rightarrow> False)" by code_simp
  then show ?thesis by (auto split: sum.splits option.splits)
qed

theorem reachable_invariant_witness:
  "store_wf (sm_store (fst sample_done)) \<and> (\<exists>x. get_project (fst sample_done) ''shop'' = Inr (Some x))"
proof -
  obtain st where "get_branch_state (fst sample_done) ''shop'' ''dev'' = Inr (Some st)"
    using sample_done_state by blast
  moreover have "slash_free ''shop''" "slash_free ''dev''" by simp_all
  ultimately show ?thesis using reachable_invariant [OF sample_done_reach] by blast
qed

theorem config_always_readable_witness:
  "\<exists>c. get_config (fst sample_done) ''shop'' ''dev'' 0 = Inr c \<and> cs_version c = 1"
proof -
  obtain st where "get_branch_state (fst sample_done) ''shop'' ''dev'' = Inr (Some st)" "active_version st = 1"
    using sample_done_state by blast
  then show ?thesis using config_always_readable [OF sample_done_reach, of "''shop''" "''dev''" st] by auto
qed

theorem versions_immutable_witness:
  "bm_get (sm_store (fst (apply_command sample_ext (Publish ''shop'' ''dev'' ''again'' ''r2'' ''root'' 9 Block) 0
       (fst sample_done)))) (snapshot_key ''shop'' ''dev'' 1) = Some (SSnap bm_empty)"
proof -
  let ?c = "Publish ''shop'' ''dev'' ''again'' ''r2'' ''root'' 9 Block"
  have "(case bm_get (sm_store (fst sample_done)) (snapshot_key ''shop'' ''dev'' 1) of
      Some (SSnap x) \<Rightarrow> bm_is_empty x | _ \<Rightarrow> False)" by code_simp
  then have v: "bm_get (sm_store (fst sample_done)) (snapshot_key ''shop'' ''dev'' 1) = Some (SSnap bm_empty)"
    by (auto simp: bm_is_empty_eq split: option.splits sval.splits)
  have "apply_command sample_ext ?c 0 (fst sample_done) = (fst (apply_command sample_ext ?c 0 (fst sample_done)),
      snd (apply_command sample_ext ?c 0 (fst sample_done)))" by simp
  then show ?thesis
    using versions_immutable [OF sample_done_reach _ _ _ _ _ v, where c = ?c and p = "''shop''" and b = "''dev''" and n = 1]
    by fastforce
qed

theorem events_describe_versions_witness:
  "\<exists>t ev e x. sample_done = (t, Inr ev) \<and> e \<in> set ev \<and> ev_version e = 1 \<and>
     snapshot_of t (ev_project e) (ev_branch e) 1 = Inr x"
proof -
  have "(case snd sample_done of Inr ev \<Rightarrow> ev \<noteq> [] \<and> \<not> ev_gray (hd ev) \<and> ev_version (hd ev) = 1 | _ \<Rightarrow> False)"
    by code_simp
  then obtain ev where ev: "snd sample_done = Inr ev" "ev \<noteq> []" "\<not> ev_gray (hd ev)" "ev_version (hd ev) = 1"
    by (auto split: sum.splits)
  then have run: "sample_done = (fst sample_done, Inr ev)" by (metis prod.collapse)
  have "cmd_ok sample_publish" by (simp add: sample_publish_def)
  then show ?thesis
    using events_describe_versions [OF sample_start_reach _ sample_publish_tame run, of "hd ev"] ev run
    by (metis hd_in_set)
qed

end
