(* ===== verification/Struct_Inv.thy ===== *)
theory Struct_Inv
  imports Reach "HOL-Library.Code_Target_Nat"
begin

text \<open>
  Every structure that a reachable state holds, published or drafted, has passed \<open>validate_structure\<close>; a structure
  publish need not look again. So a blocking publish is complete: what a branch publishes fits its structure, item by
  item (\<open>state.rs\<close>: \<open>apply_publish\<close>, \<open>materialize_resolved\<close>).
\<close>

section \<open>The structures in a store\<close>

definition struct_place :: "string \<Rightarrow> bool" where
  "struct_place k \<longleftrightarrow> (\<exists>p. slash_free p \<and> (k = struct_key p \<or> k = struct_draft_key p))"

fun stored_struct_ok :: "sval \<Rightarrow> bool" where
  "stored_struct_ok (SStruct x) = struct_ok x"
| "stored_struct_ok (SStructDraft d) = struct_ok \<lparr>s_version = sd_base_version d, s_groups = sd_groups d\<rparr>"
| "stored_struct_ok _ = True"

definition structs_ok :: "sval mem_store \<Rightarrow> bool" where
  "structs_ok m \<longleftrightarrow> (\<forall>k v. struct_place k \<longrightarrow> bm_get m k = Some v \<longrightarrow> stored_struct_ok v)"

lemma structs_ok_frame:
  "structs_ok m \<Longrightarrow> (\<And>k. struct_place k \<Longrightarrow> bm_get n k = None \<or> bm_get n k = bm_get m k) \<Longrightarrow> structs_ok n"
  unfolding structs_ok_def by (metis option.distinct(1))

lemma structs_ok_insert: "structs_ok m \<Longrightarrow> stored_struct_ok v \<Longrightarrow> structs_ok (bm_insert k v m)"
  by (simp add: structs_ok_def)

lemma structs_ok_remove: "structs_ok m \<Longrightarrow> structs_ok (bm_remove k m)"
  by (simp add: structs_ok_def)

section \<open>The commands on structures\<close>

lemma project_create_structs:
  assumes "apply_project_create name now clone s = Inr (t, ev)" "structs_ok (view s)"
  shows "structs_ok (view t)"
proof -
  obtain gs where gs: "clone_groups name clone s = Inr gs"
    and t: "t = fold (\<lambda>b. save_pending (branch_state_key name b) (SBranch (branch_new 1)))
               [BRANCH_DEV, BRANCH_TEST, BRANCH_PROD]
               (save_pending (struct_key name) (SStruct \<lparr>s_version = 1, s_groups = gs\<rparr>)
               (save_pending (idx_pname name) (SStr ''1'')
               (save_pending (project_key name) (SProject \<lparr>p_id = name, p_name = name, p_created_at = now\<rparr>) s)))"
    using assms(1) by (auto simp: apply_project_create_def Let_def split: if_splits)
  have "struct_ok \<lparr>s_version = 1, s_groups = gs\<rparr>"
  proof (cases clone)
    case None
    then show ?thesis using gs by (simp add: clone_groups_def struct_ok_def total_items_def)
  next
    case (Some src)
    then obtain x where "validate_structure x = []" "gs = s_groups x"
      using gs by (auto simp: clone_groups_def Let_def split: if_splits)
    then show ?thesis by (simp add: validate_structure_Nil struct_ok_def total_items_def)
  qed
  then show ?thesis using assms(2) by (simp add: t structs_ok_insert)
qed

lemma structure_draft_set_structs:
  assumes "apply_structure_draft_set p base groups s = Inr (t, ev)" "structs_ok (view s)"
  shows "structs_ok (view t)"
  using assms
  by (auto simp: apply_structure_draft_set_def Let_def validate_structure_Nil intro!: structs_ok_insert split: if_splits)

lemma struct_place_outside:
  assumes "struct_place k"
  shows "\<not> branch_area q b k" "starts_with k K_PROJECT"
proof -
  obtain p where p: "slash_free p" "k = struct_key p \<or> k = struct_draft_key p"
    using assms by (auto simp: struct_place_def)
  then show "starts_with k K_PROJECT" by (auto simp: key_defs)
  show "\<not> branch_area q b k" using p by (auto simp: branch_area_def in_dir_def key_fold segs_key_string)
qed

lemma publish_structure_structs:
  assumes "apply_publish_structure p comment rid now operator policy s = Inr (t, ev)"
    and "sm_pending s = []" "store_wf (view s)" "structs_ok (view s)"
  shows "structs_ok (view t)"
proof -
  obtain st d u ev' where st: "bm_get (view s) (struct_key p) = Some (SStruct st)"
    and d: "bm_get (view s) (struct_draft_key p) = Some (SStructDraft d)"
    and fold: "foldE (publish_structure_branch p comment rid now operator \<lparr>s_version = s_version st + 1, s_groups = sd_groups d\<rparr>)
        (list_branches s p) (s, []) = Inr (u, ev')"
    and t: "t = delete_pending (struct_draft_key p)
        (save_pending (struct_key p) (SStruct \<lparr>s_version = s_version st + 1, s_groups = sd_groups d\<rparr>) u)"
    using assms(1) by (auto simp: apply_publish_structure_def Let_def split: if_splits)
  have p: "slash_free p" using store_wf_get [OF assms(3) st] entry_ok_struct by blast
  have "edits (\<lambda>k. \<exists>b \<in> set (list_branches s p). branch_area p b k) s u"
    using list_branches_props put_keys_start [OF assms(2)]
    by (intro structure_branches_edits [OF fold p]) auto
  then have "bm_get (view u) k = bm_get (view s) k" if "struct_place k" for k
    using struct_place_outside(1) [OF that] by (intro edits_frame) auto
  then have "structs_ok (view u)" by (intro structs_ok_frame [OF assms(4)]) simp
  moreover have "struct_place (struct_draft_key p)" using p by (auto simp: struct_place_def)
  then have "stored_struct_ok (SStructDraft d)" using assms(4) d unfolding structs_ok_def by blast
  then have "struct_ok \<lparr>s_version = s_version st + 1, s_groups = sd_groups d\<rparr>"
    by (simp add: struct_ok_def total_items_def)
  ultimately show ?thesis by (simp add: t structs_ok_insert structs_ok_remove)
qed

section \<open>Every other command leaves the structures alone or deletes them\<close>

fun writes_structs :: "command \<Rightarrow> bool" where
  "writes_structs (ProjectCreate _ _ _ _) = True"
| "writes_structs (StructureDraftSet _ _ _ _) = True"
| "writes_structs (PublishStructure _ _ _ _ _ _) = True"
| "writes_structs _ = False"

lemma struct_frame:
  assumes "apply_inner E c now s = (t, Inr ev)" "store_wf (view s)" "sm_pending s = []" "cmd_ok c"
    and "\<not> writes_structs c" "struct_place k"
  shows "bm_get (view t) k = None \<or> bm_get (view t) k = bm_get (view s) k"
proof (cases "deletes_branches c")
  case True
  then show ?thesis
  proof (cases c)
    case (ProjectDelete p op)
    then show ?thesis using assms(1) project_delete_view [OF _ assms(3,2)] by simp
  next
    case (BranchDelete p b op)
    then show ?thesis using assms(1)
      by (auto simp: apply_branch_delete_def view_delete_rows split: if_splits)
  qed simp_all
next
  case False
  have "\<not> cmd_area s c k"
  proof (cases "outside_branches c")
    case True
    then show ?thesis using outside_area struct_place_outside(2) [OF assms(6)] by blast
  next
    case inside: False
    have "\<not> shared_publish_area k"
      using struct_place_outside [OF assms(6)] outside_projects(6) by (auto simp: shared_publish_area_def)
    then show ?thesis using False inside assms(5) struct_place_outside(1) [OF assms(6)] by (cases c) simp_all
  qed
  then show ?thesis using edits_frame [OF apply_inner_edits [OF assms(1-4)]] by simp
qed

lemma inner_structs:
  assumes "apply_inner E c now s = (t, Inr ev)" "store_wf (view s)" "sm_pending s = []" "cmd_ok c" "structs_ok (view s)"
  shows "structs_ok (view t)"
proof (cases "writes_structs c")
  case True
  then show ?thesis
    using assms project_create_structs structure_draft_set_structs publish_structure_structs by (cases c) auto
next
  case False
  then show ?thesis using structs_ok_frame [OF assms(5)] struct_frame [OF assms(1-4)] by blast
qed

lemma reach_structs: "reach tame E s \<Longrightarrow> structs_ok (sm_store s)"
proof (induction rule: reach.induct)
  case empty
  then show ?case by (simp add: structs_ok_def sm_new_def)
next
  case (cmd s c now t r)
  have wf: "store_wf (sm_store s)" using reach_rest_ok [OF cmd.hyps(1)] by (simp add: rest_ok_def)
  show ?case
  proof (cases r)
    case (Inl e)
    then have "keeps_all_but_drafts s t" using failed_keeps cmd.hyps(4) by blast
    moreover have "\<not> starts_with k K_SHARED_DRAFT" if "struct_place k" for k
      using that by (auto simp: struct_place_def key_defs starts_with_iff)
    ultimately show ?thesis
      using structs_ok_frame [OF cmd.IH] unfolding keeps_all_but_drafts_def by blast
  next
    case (Inr ev)
    then obtain u where u: "apply_inner E c now (clear_pending s) = (u, Inr ev)" "sm_store t = view u"
      using apply_command_done [OF _ wf cmd.hyps(2)] cmd.hyps(4) by metis
    show ?thesis
      unfolding u(2) by (rule inner_structs [OF u(1) _ _ cmd.hyps(2)]) (use wf cmd.IH in simp_all)
  qed
next
  case (prune s p b keep n t)
  have ok: "rest_ok s" by (rule reach_rest_ok [OF prune.hyps(1)])
  then have wf: "sm_pending s = []" "store_wf (view s)" "ver_bound (view s)" by (simp_all add: rest_ok_def rest_ok_view)
  have view: "view s = sm_store s" "view t = sm_store t"
    using prune_versions_store [OF prune.hyps(2) wf] ok by (simp_all add: view_start rest_ok_view)
  from prune_versions_steps [OF prune.hyps(2) wf(2,3)] have "bm_get (view t) k = None \<or> bm_get (view t) k = bm_get (view s) k" for k
    by (elim disjE exE conjE) (simp, simp only: drop_versions_get [OF wf(1)] split: if_splits, blast)
  then show ?case using structs_ok_frame [OF prune.IH] view by metis
next
  case (audit s keep n t)
  let ?f = "\<lambda>seq t. t\<lparr>sm_store := ms_delete (sm_store t) (audit_key seq)\<rparr>"
  have "structs_ok (sm_store (fold ?f gone s))" for gone
    using audit.IH by (induction gone arbitrary: s) (simp_all add: ms_delete_def structs_ok_remove)
  then show ?case using audit.hyps(2) audit.IH by (auto simp: prune_audit_def Let_def split: if_splits)
qed

section \<open>What a blocking publish lets through\<close>

text \<open>
  C6: A blocking publish only goes through on a complete and consistent draft. In a reachable state, a publish that is
  not a repetition, on a branch whose active version can be read, that succeeds under the policy \<open>Block\<close>: the
  content clients then read under the next version has, for every item of the project's structure, up to the
  equality of values: if the item is taken from the shared library, the value of the published shared item it is
  bound to, of its type; else its draft value, or the old value if it is a secret without one, and that is there
  if the item is required, and fits the type and the limits of the item.
\<close>
theorem blocking_publish_is_complete:
  assumes "reach tame E s" "get_branch_state s p b = Inr (Some st)" "last_request_id st \<noteq> Some rid"
    and "readable (sm_store s) p b (active_version st)"
    and "apply_command E (Publish p b comment rid operator ts Block) now s = (t, Inr ev)"
  shows "\<exists>str old x. get_structure s p = Inr (Some str) \<and> active_snapshot s p b st = Inr old \<and>
    (\<exists>st'. get_branch_state t p b = Inr (Some st') \<and> active_version st' = active_version st + 1) \<and>
    snapshot_of t p b (active_version st + 1) = Inr x \<and>
    (\<forall>(g, it) \<in> set (struct_items str).
      if it_shared it then \<exists>v. bound_to s (shared_bindings st) g it v \<and> val_sim (tree_get x g (it_key it)) (Some v)
      else val_sim (tree_get x g (it_key it)) (item_value st old g it) \<and>
        (it_required it \<longrightarrow> item_value st old g it \<noteq> None) \<and>
        (\<forall>v. item_value st old g it = Some v \<longrightarrow> value_fits E it v))"
proof -
  have ok: "rest_ok s" by (rule reach_rest_ok [OF assms(1)])
  then have clear: "clear_pending s = s" and wf: "store_wf (view s)" and view: "view s = sm_store s"
    by (simp_all add: clear_pending_def rest_ok_def rest_ok_view)
  obtain u where u: "apply_publish E p b comment rid (eff_ts ts now) operator Block s = Inr (u, ev)"
    and t: "sm_store t = view u" "sm_pending t = []"
    using apply_command_done [OF assms(5)] wf clear view by (metis apply_inner.simps(8) buffered_Inr cmd_ok.simps(8))
  have st: "bm_get (view s) (branch_state_key p b) = Some (SBranch st)" using assms(2) by (simp add: get_branch_state_Some)
  have readable: "readable (view s) p b (active_version st)" using assms(4) view by simp
  obtain str old resolved warnings where steps: "get_structure s p = Inr (Some str)" "active_snapshot s p b st = Inr old"
    "materialize_resolved E s st str old Block = Inr (resolved, warnings)"
    and wrote: "u = save_pending (branch_state_key p b) (SBranch (st\<lparr>active_version := active_version st + 1,
        last_request_id := Some rid, b_value_draft := bm_empty, bindings_dirty := False\<rparr>))
      (write_version_snapshot p b (active_version st + 1) old resolved
        (new_record (active_version st + 1) (s_version str) (eff_ts ts now) (operator_id operator) comment None
           ValuePublish False) s)"
    using publish_steps [OF u st assms(3)] by metis
  have names: "slash_free p" "slash_free b" using branch_found [OF wf st] by auto
  note old = active_snapshot_old [OF steps(2) readable]
  have str: "bm_get (view s) (struct_key p) = Some (SStruct str)" using steps(1) by simp
  obtain x where x: "content (view u) p b (active_version st + 1) = Some x" "snap_sim x resolved"
    using write_next_readable(1) [OF names readable old wrote] by blast
  have "snapshot_of t p b (active_version st + 1) = Inr x"
    using snapshot_of_content [of t p b "active_version st + 1" x] x(1) t by (simp add: view_start)
  moreover have "\<exists>st'. get_branch_state t p b = Inr (Some st') \<and> active_version st' = active_version st + 1"
    using t by (simp add: view_start wrote)
  moreover have "struct_ok str"
    using reach_structs [OF assms(1)] str view names(1) unfolding structs_ok_def struct_place_def
    by (metis stored_struct_ok.simps(1))
  note item = materialized_is_complete [OF steps(3) \<open>struct_ok str\<close>]
  have sim: "val_sim (tree_get x g k) (tree_get resolved g k)" for g k using x(2) by (simp add: snap_sim_def)
  have "case gi of (g, it) \<Rightarrow>
      if it_shared it then \<exists>v. bound_to s (shared_bindings st) g it v \<and> val_sim (tree_get x g (it_key it)) (Some v)
      else val_sim (tree_get x g (it_key it)) (item_value st old g it) \<and>
        (it_required it \<longrightarrow> item_value st old g it \<noteq> None) \<and>
        (\<forall>v. item_value st old g it = Some v \<longrightarrow> value_fits E it v)" if "gi \<in> set (struct_items str)" for gi
    using item [of "fst gi" "snd gi"] that sim [of "fst gi" "it_key (snd gi)"] by (cases gi) (auto split: if_splits)
  ultimately show ?thesis using steps(1,2) by blast
qed

text \<open>A project with one required item, published, and a draft that gives the item a value.\<close>

definition shop_start :: "command list" where
  "shop_start = [ProjectCreate ''shop'' ''root'' 5 None, StructureDraftSet ''shop'' 1 (s_groups sample_struct) ''root'',
     PublishStructure ''shop'' ''first'' ''r1'' ''root'' 7 Block,
     DraftUpdate ''shop'' ''dev'' [\<lparr>du_group = ''db'', du_key = ''port'', du_value = VInt 5432\<rparr>] [] [] ''root'' 8 None]"

abbreviation "shop \<equiv> run sample_ext shop_start"

abbreviation "shop_publish \<equiv> Publish ''shop'' ''dev'' ''note'' ''r2'' ''root'' 9 Block"

lemma shop_reach: "reach False sample_ext shop"
  unfolding run_def shop_start_def by (simp add: reach_next reach.empty)

lemma shop_state:
  "\<exists>st. get_branch_state shop ''shop'' ''dev'' = Inr (Some st) \<and> active_version st = 1 \<and> last_request_id st \<noteq> Some ''r2'' \<and>
     tree_get (b_value_draft st) ''db'' ''port'' = Some \<lparr>dv_value = VInt 5432, dv_updated_at = 8\<rparr>"
proof -
  have "(case get_branch_state shop ''shop'' ''dev'' of
      Inr (Some st) \<Rightarrow> active_version st = 1 \<and> last_request_id st \<noteq> Some ''r2'' \<and>
        tree_get (b_value_draft st) ''db'' ''port'' = Some \<lparr>dv_value = VInt 5432, dv_updated_at = 8\<rparr>
    | _ \<Rightarrow> False)" by code_simp
  then show ?thesis by (auto split: sum.splits option.splits)
qed

theorem blocking_publish_is_complete_witness:
  "\<exists>x. snapshot_of (fst (apply_command sample_ext shop_publish 0 shop)) ''shop'' ''dev'' 2 = Inr x \<and>
     val_sim (tree_get x ''db'' ''port'') (Some (VInt 5432))"
proof -
  let ?r = "apply_command sample_ext shop_publish 0 shop"
  have "(case snd ?r of Inl e \<Rightarrow> False | Inr ev \<Rightarrow> True)" by code_simp
  then obtain ev where run: "?r = (fst ?r, Inr ev)" by (cases ?r; cases "snd ?r") auto
  obtain st where st: "get_branch_state shop ''shop'' ''dev'' = Inr (Some st)" "active_version st = 1"
    "last_request_id st \<noteq> Some ''r2''"
    "tree_get (b_value_draft st) ''db'' ''port'' = Some \<lparr>dv_value = VInt 5432, dv_updated_at = 8\<rparr>"
    using shop_state by blast
  have "(case bm_get (sm_store shop) (snapshot_key ''shop'' ''dev'' 1) of Some (SSnap x) \<Rightarrow> True | _ \<Rightarrow> False)" by code_simp
  then obtain y where "bm_get (sm_store shop) (snapshot_key ''shop'' ''dev'' 1) = Some (SSnap y)"
    by (auto split: option.splits sval.splits)
  then have "content (sm_store shop) ''shop'' ''dev'' 1 = Some y"
    by (simp add: content_def full_at_Some is_checkpoint_def)
  then have "readable (sm_store shop) ''shop'' ''dev'' (active_version st)"
    using st(2) by (simp add: readable_def)
  from blocking_publish_is_complete [OF shop_reach st(1,3) this run] obtain str old x where
    x: "get_structure shop ''shop'' = Inr (Some str)"
      "snapshot_of (fst ?r) ''shop'' ''dev'' (active_version st + 1) = Inr x"
      "\<And>g it. (g, it) \<in> set (struct_items str) \<Longrightarrow> \<not> it_shared it \<Longrightarrow>
        val_sim (tree_get x g (it_key it)) (item_value st old g it)" by fastforce
  have "(case get_structure shop ''shop'' of
      Inr (Some str) \<Rightarrow> map (\<lambda>(g, it). (g, it_key it, it_shared it)) (struct_items str) = [(''db'', ''port'', False)]
    | _ \<Rightarrow> False)" by code_simp
  then obtain it where it: "(''db'', it) \<in> set (struct_items str)" "it_key it = ''port''" "\<not> it_shared it"
    using x(1) by (auto simp: map_eq_Cons_conv)
  show ?thesis
    using x(2) x(3) [OF it(1,3)] st(2,4) it(2) by (auto simp: item_value_def numeral_2_eq_2)
qed

end
