(* ===== verification/Crc.thy ===== *)
theory Crc
  imports Prelude "HOL-Library.Word"
begin

unbundle bit_operations_syntax

text \<open>
  Bytes on the wire and in the snapshot files (dsh-raft): big-endian and little-endian numbers, and
  the CRC-32 of \<open>snapshot_stream.rs\<close> with its 256-entry table. The lemmas give the bit-by-bit
  register that the table computes, and that the register forgets nothing: two byte sequences that
  differ in one byte have different checksums.
\<close>

type_synonym byte = "8 word"

type_synonym bytes = "byte list"

lemma xor_cancel [simp]:
  fixes x :: "'a::len word"
  shows "x XOR z = y XOR z \<longleftrightarrow> x = y" "z XOR x = z XOR y \<longleftrightarrow> x = y"
proof -
  have *: "x = y" if "x XOR z = y XOR z" for x y z :: "'a word"
    using arg_cong [OF that, of "\<lambda>w. w XOR z"] by (simp add: xor.assoc)
  then show "x XOR z = y XOR z \<longleftrightarrow> x = y" "z XOR x = z XOR y \<longleftrightarrow> x = y" by (auto simp: xor.commute [of z])
qed

section \<open>Numbers as bytes\<close>

text \<open>The four shifts of \<open>encode_frame\<close>, and those of \<open>next_frame\<close> that read them back.\<close>

definition be32 :: "32 word \<Rightarrow> bytes" where
  "be32 n = [ucast (drop_bit 24 n AND 0xFF), ucast (drop_bit 16 n AND 0xFF),
     ucast (drop_bit 8 n AND 0xFF), ucast (n AND 0xFF)]"

definition of_be32 :: "byte \<Rightarrow> byte \<Rightarrow> byte \<Rightarrow> byte \<Rightarrow> 32 word" where
  "of_be32 a b c d = push_bit 24 (ucast a) OR push_bit 16 (ucast b) OR push_bit 8 (ucast c) OR ucast d"

text \<open>\<open>to_le_bytes\<close> and \<open>to_be_bytes\<close> of the standard library, least significant byte first and last.\<close>

definition le_bytes :: "nat \<Rightarrow> 'a::len word \<Rightarrow> bytes" where
  "le_bytes n w = map (\<lambda>i. ucast (drop_bit (8 * i) w)) [0..<n]"

fun of_le_bytes :: "bytes \<Rightarrow> 'a::len word" where
  "of_le_bytes [] = 0"
| "of_le_bytes (b # bs) = ucast b OR push_bit 8 (of_le_bytes bs)"

abbreviation "be_bytes n w \<equiv> rev (le_bytes n w)"

abbreviation "of_be_bytes bs \<equiv> of_le_bytes (rev bs)"

lemma be32_length [simp]: "length (be32 n) = 4"
  by (simp add: be32_def)

lemma of_be32_be32: "be32 n = [a, b, c, d] \<Longrightarrow> of_be32 a b c d = n"
proof -
  assume *: "be32 n = [a, b, c, d]"
  have "(0xFF :: 32 word) = mask 8" by (simp add: mask_eq_exp_minus_1)
  with * have **: "a = ucast (drop_bit 24 n AND mask 8)" "b = ucast (drop_bit 16 n AND mask 8)"
    "c = ucast (drop_bit 8 n AND mask 8)" "d = ucast (n AND mask 8)" by (simp_all add: be32_def)
  show ?thesis unfolding of_be32_def **
  proof (rule bit_word_eqI)
    fix i assume "i < LENGTH(32)"
    then consider "i < 8" | "8 \<le> i" "i < 16" | "16 \<le> i" "i < 24" | "24 \<le> i" "i < 32" by force
    then show "bit (push_bit 24 (ucast (ucast (drop_bit 24 n AND mask 8) :: byte) :: 32 word)
        OR push_bit 16 (ucast (ucast (drop_bit 16 n AND mask 8) :: byte))
        OR push_bit 8 (ucast (ucast (drop_bit 8 n AND mask 8) :: byte))
        OR ucast (ucast (n AND mask 8) :: byte)) i = bit n i"
      by cases (auto simp: bit_simps)
  qed
qed

lemma le_bytes_length [simp]: "length (le_bytes n w) = n"
  by (simp add: le_bytes_def)

lemma le_bytes_Suc: "le_bytes (Suc n) w = ucast w # le_bytes n (drop_bit 8 w)"
proof -
  have "[0..<Suc n] = 0 # map Suc [0..<n]" by (simp add: map_Suc_upt upt_conv_Cons)
  then show ?thesis by (simp add: le_bytes_def ac_simps comp_def)
qed

lemma bit_of_le_bytes:
  "bit (of_le_bytes (le_bytes n w) :: 'a::len word) i \<longleftrightarrow> i < LENGTH('a) \<and> i < 8 * n \<and> bit (w :: 'a word) i"
proof (induction n arbitrary: w i)
  case 0
  then show ?case by (simp add: le_bytes_def)
next
  case (Suc n)
  show ?case
    using Suc.IH [of "drop_bit 8 w" "i - 8"] by (cases "i < 8") (auto simp: le_bytes_Suc bit_simps)
qed

lemma of_le_bytes_le_bytes [simp]: "LENGTH('a) \<le> 8 * n \<Longrightarrow> of_le_bytes (le_bytes n w) = (w :: 'a::len word)"
  by (rule bit_word_eqI) (auto simp: bit_of_le_bytes)

section \<open>The checksum\<close>

definition crc_step :: "32 word \<Rightarrow> 32 word" where
  "crc_step r = (if r AND 1 \<noteq> 0 then drop_bit 1 r XOR 0xEDB88320 else drop_bit 1 r)"

definition crc_entry :: "nat \<Rightarrow> 32 word" where
  "crc_entry i = (crc_step ^^ 8) (of_nat i)"

record crc32 =
  crc_table :: "32 word list"
  crc_reg :: "32 word"

definition crc_init :: crc32 where
  "crc_init = \<lparr>crc_table = map crc_entry [0..<256], crc_reg = 0xFFFFFFFF\<rparr>"

definition crc_byte :: "byte \<Rightarrow> crc32 \<Rightarrow> crc32" where
  "crc_byte b c = c\<lparr>crc_reg := crc_table c ! unat ((ucast (crc_reg c) :: byte) XOR b) XOR drop_bit 8 (crc_reg c)\<rparr>"

definition crc_update :: "bytes \<Rightarrow> crc32 \<Rightarrow> crc32" where
  "crc_update data c = fold crc_byte data c"

definition crc_finish :: "crc32 \<Rightarrow> 32 word" where
  "crc_finish c = crc_reg c XOR 0xFFFFFFFF"

text \<open>The checksum of a whole byte sequence.\<close>

definition crc_of :: "bytes \<Rightarrow> 32 word" where
  "crc_of data = crc_finish (crc_update data crc_init)"

lemma crc_update_append: "crc_update (xs @ ys) c = crc_update ys (crc_update xs c)"
  by (simp add: crc_update_def)

lemma crc_update_Nil [simp]: "crc_update [] c = c"
  by (simp add: crc_update_def)

section \<open>What the table computes\<close>

text \<open>The reference: the byte enters the low end of the register, which then takes eight steps.\<close>

definition crc_bitwise :: "byte \<Rightarrow> 32 word \<Rightarrow> 32 word" where
  "crc_bitwise b r = (crc_step ^^ 8) (r XOR ucast b)"

lemma crc_step_alt: "crc_step r = drop_bit 1 r XOR (if bit r 0 then 0xEDB88320 else 0)"
  by (auto simp: crc_step_def and_one_eq mod_2_eq_odd bit_0)

text \<open>A step is linear, and loses no information: the top bit tells which branch it took.\<close>

lemma crc_step_xor: "crc_step (x XOR y) = crc_step x XOR crc_step y"
  by (auto simp: crc_step_alt bit_simps intro!: bit_word_eqI)

lemma crc_step_top: "bit (crc_step r) 31 \<longleftrightarrow> bit r 0"
proof -
  have "\<not> bit r 32" using bit_imp_le_length [of r 32] by auto
  then show ?thesis by (simp add: crc_step_alt bit_simps)
qed

lemma crc_step_inject: "crc_step x = crc_step y \<longleftrightarrow> x = y"
proof
  assume eq: "crc_step x = crc_step y"
  then have b0: "bit x 0 = bit y 0" by (metis crc_step_top)
  then have "drop_bit 1 x = drop_bit 1 y"
    using eq by (simp only: crc_step_alt xor_cancel)
  then have "bit x (Suc n) = bit y (Suc n)" for n by (metis bit_drop_bit_eq plus_1_eq_Suc comp_apply)
  with b0 show "x = y" by (intro bit_word_eqI) (metis not0_implies_Suc)
qed simp

lemma crc_steps_xor: "(crc_step ^^ n) (x XOR y) = (crc_step ^^ n) x XOR (crc_step ^^ n) y"
  by (induction n) (simp_all add: crc_step_xor)

lemma crc_steps_inject: "(crc_step ^^ n) x = (crc_step ^^ n) y \<longleftrightarrow> x = y"
  by (induction n) (simp_all add: crc_step_inject)

lemma crc_steps_shift: "take_bit n r = 0 \<Longrightarrow> (crc_step ^^ n) r = drop_bit n r"
proof (induction n arbitrary: r)
  case (Suc n)
  have "\<not> bit r 0" using Suc.prems by (metis bit_take_bit_iff bit_0_eq bot_apply zero_less_Suc bot_bool_def)
  then have "crc_step r = drop_bit 1 r" by (simp only: crc_step_alt if_False xor.right_neutral)
  moreover have "take_bit n (drop_bit 1 r) = 0"
    using Suc.prems by (metis drop_bit_take_bit drop_bit_of_0 diff_Suc_1 One_nat_def)
  ultimately have "(crc_step ^^ n) (crc_step r) = drop_bit n (drop_bit 1 r)" using Suc.IH by (simp only:)
  also have "drop_bit n (drop_bit 1 r) = drop_bit (Suc n) r" by simp
  finally show ?case by (simp only: funpow_Suc_right comp_apply)
qed simp

text \<open>A register and its successor, with the table of \<open>crc_init\<close>.\<close>

abbreviation "crc_ok c \<equiv> crc_table c = map crc_entry [0..<256]"

lemma crc_byte_ok [simp]: "crc_table (crc_byte b c) = crc_table c"
  by (simp add: crc_byte_def)

lemma crc_update_ok [simp]: "crc_table (crc_update data c) = crc_table c"
  by (induction data arbitrary: c) (simp_all add: crc_update_def)

lemma crc_entry_byte: "crc_entry (unat (b :: byte)) = (crc_step ^^ 8) (ucast b)"
  by (simp add: crc_entry_def)

lemma crc_byte_bitwise:
  assumes "crc_ok c"
  shows "crc_reg (crc_byte b c) = crc_bitwise b (crc_reg c)"
proof -
  let ?r = "crc_reg c"
  let ?low = "(ucast ?r :: byte) XOR b"
  have "?r XOR ucast b = ucast ?low XOR push_bit 8 (drop_bit 8 ?r)"
    by (rule bit_word_eqI) (auto simp: bit_simps)
  then have "crc_bitwise b ?r = (crc_step ^^ 8) (ucast ?low) XOR drop_bit 8 (push_bit 8 (drop_bit 8 ?r))"
    by (simp only: crc_bitwise_def crc_steps_xor) (subst crc_steps_shift, auto intro!: bit_eqI simp: bit_simps)
  moreover have "drop_bit 8 (push_bit 8 (drop_bit 8 ?r)) = drop_bit 8 ?r"
    by (rule bit_word_eqI) (use bit_imp_le_length [of ?r] in \<open>force simp: bit_simps\<close>)
  moreover have "unat ?low < 256" using unsigned_less [of ?low] by simp
  then have "crc_reg (crc_byte b c) = crc_entry (unat ?low) XOR drop_bit 8 ?r"
    using assms by (simp only: crc_byte_def crc32.simps crc32.update_convs nth_map length_upt) simp
  ultimately show ?thesis by (simp only: crc_entry_byte)
qed

lemma crc_update_bitwise: "crc_ok c \<Longrightarrow> crc_reg (crc_update data c) = fold crc_bitwise data (crc_reg c)"
  by (induction data arbitrary: c) (simp_all add: crc_update_def crc_byte_bitwise)

lemma crc_bitwise_inject: "crc_bitwise b x = crc_bitwise b y \<longleftrightarrow> x = y"
  by (simp add: crc_bitwise_def crc_steps_inject)

lemma crc_bitwise_byte: "crc_bitwise a x = crc_bitwise b x \<longleftrightarrow> a = b"
proof -
  have "(ucast a :: 32 word) = ucast b \<longleftrightarrow> a = b" using bit_imp_le_length [of a] bit_imp_le_length [of b] by (auto simp: bit_eq_iff bit_simps) force+
  then show ?thesis by (simp add: crc_bitwise_def crc_steps_inject)
qed

lemma fold_crc_inject: "fold crc_bitwise data x = fold crc_bitwise data y \<longleftrightarrow> x = y"
  by (induction data arbitrary: x y) (simp_all add: crc_bitwise_inject)

lemma crc_of_bitwise: "crc_of data = fold crc_bitwise data 0xFFFFFFFF XOR 0xFFFFFFFF"
  using crc_update_bitwise [of crc_init data] by (simp add: crc_of_def crc_finish_def crc_init_def)

text \<open>
  C30: The table-driven checksum, fed with the data in any pieces one after the other, is the bit-by-bit CRC-32 of the
  whole data, and a change of one byte always changes it.
\<close>
theorem crc_is_bitwise_and_detects:
  "crc_finish (fold crc_update ds crc_init) = fold crc_bitwise (concat ds) 0xFFFFFFFF XOR 0xFFFFFFFF \<and>
   crc_of (concat ds) = crc_finish (fold crc_update ds crc_init) \<and>
   (crc_of (xs @ a # ys) = crc_of (xs @ b # ys) \<longleftrightarrow> a = b)"
proof -
  have "crc_update (concat ds) c = fold crc_update ds c" for c
    by (induction ds arbitrary: c) (simp_all add: crc_update_append)
  then have "crc_of (concat ds) = crc_finish (fold crc_update ds crc_init)" by (simp add: crc_of_def)
  moreover have "crc_of (xs @ a # ys) = crc_of (xs @ b # ys) \<longleftrightarrow> a = b"
    by (auto simp: crc_of_bitwise fold_crc_inject crc_bitwise_byte)
  ultimately show ?thesis using crc_of_bitwise [of "concat ds"] by simp
qed

end
