(* ===== verification/Frames.thy ===== *)
theory Frames
  imports Crc
begin

text \<open>
  The snapshot transport of dsh-raft (\<open>snapshot_stream.rs\<close>): frames with a length prefix, the
  decoder that takes them out of a byte stream cut at arbitrary places, and the pump that turns a
  payload file into frames. The body of a frame is msgpack (package rmp_serde): its encoder and
  decoder are the parameter \<open>codec\<close> of the definitions.
\<close>

section \<open>Frames\<close>

definition MAX_CHUNK_BYTES :: nat where "MAX_CHUNK_BYTES = 1024 * 1024"
definition MAX_FRAME_BYTES :: nat where "MAX_FRAME_BYTES = MAX_CHUNK_BYTES + 4096"
definition MAX_SNAPSHOT_BYTES :: nat where "MAX_SNAPSHOT_BYTES = 2 * 1024 * 1024 * 1024"

text \<open>The vote and the snapshot metadata are types of openraft.\<close>

datatype ('vote, 'meta) frame =
    Header 'vote 'meta
  | Chunk "64 word" bytes
  | End "64 word" "32 word"

datatype proto_error = Encode | Decode | FrameTooLarge "32 word" | SnapshotTooLarge "64 word"

record ('vote, 'meta) codec =
  ser :: "('vote, 'meta) frame \<Rightarrow> bytes option"
  de :: "bytes \<Rightarrow> ('vote, 'meta) frame option"

definition encode_frame :: "('v, 'm) codec \<Rightarrow> ('v, 'm) frame \<Rightarrow> proto_error + bytes" where
  "encode_frame c f = (case ser c f of
     None \<Rightarrow> Inl Encode
   | Some wr \<Rightarrow> Inr (be32 (of_nat (length wr)) @ wr))"

definition decode_frame :: "('v, 'm) codec \<Rightarrow> bytes \<Rightarrow> proto_error + ('v, 'm) frame" where
  "decode_frame c body = (case de c body of None \<Rightarrow> Inl Decode | Some f \<Rightarrow> Inr f)"

definition check_total :: "64 word \<Rightarrow> proto_error + unit" where
  "check_total n = (if n > of_nat MAX_SNAPSHOT_BYTES then Inl (SnapshotTooLarge n) else Inr ())"

section \<open>The decoder\<close>

text \<open>The state is the buffer. On an error it is cleared.\<close>

definition frame_len :: "bytes \<Rightarrow> 32 word" where
  "frame_len buf = of_be32 (buf ! 0) (buf ! 1) (buf ! 2) (buf ! 3)"

definition next_frame :: "('v, 'm) codec \<Rightarrow> bytes \<Rightarrow> bytes \<times> (proto_error + ('v, 'm) frame option)" where
  "next_frame c buf =
     (if length buf < 4 then (buf, Inr None)
      else let n = frame_len buf in
        if n > of_nat MAX_FRAME_BYTES then ([], Inl (FrameTooLarge n))
        else if length buf < 4 + unat n then (buf, Inr None)
        else case decode_frame c (take (unat n) (drop 4 buf)) of
            Inr f \<Rightarrow> (drop (4 + unat n) buf, Inr (Some f))
          | Inl e \<Rightarrow> ([], Inl e))"

section \<open>The pump\<close>

text \<open>
  \<open>em_reads\<close> is what the reads of the file will return, one after the other: the bytes of a read, or
  None for an error; after the last one the file is at its end. A read that is not ready leaves the
  state as it is and is polled again, so it does not show.
\<close>

record emitter =
  em_reads :: "bytes option list"
  em_header :: bytes
  em_queue :: "bytes list"
  em_chunk :: nat
  em_carry :: bytes
  em_seq :: "64 word"
  em_total :: "64 word"
  em_crc :: crc32
  em_header_sent :: bool
  em_eof :: bool
  em_end_sent :: bool
  em_fatal :: bool

definition emitter_open ::
  "('v, 'm) codec \<Rightarrow> bytes option list \<Rightarrow> 'v \<Rightarrow> 'm \<Rightarrow> nat \<Rightarrow> proto_error + emitter" where
  "emitter_open c reads vote meta chunk_size = bindE (encode_frame c (Header vote meta)) (\<lambda>header.
     Inr \<lparr>em_reads = reads, em_header = header, em_queue = [],
       em_chunk = (if chunk_size = 0 \<or> chunk_size > MAX_CHUNK_BYTES then MAX_CHUNK_BYTES else chunk_size),
       em_carry = [], em_seq = 0, em_total = 0, em_crc = crc_init, em_header_sent = False,
       em_eof = False, em_end_sent = False, em_fatal = False\<rparr>)"

text \<open>One chunk of \<open>n\<close> bytes of the carry: numbered, added to the checksum and queued.\<close>

definition emit_chunk :: "('v, 'm) codec \<Rightarrow> nat \<Rightarrow> emitter \<Rightarrow> emitter \<times> proto_error option" where
  "emit_chunk c n e =
     (let part = take n (em_carry e);
          e' = e\<lparr>em_seq := em_seq e + 1, em_carry := drop n (em_carry e),
                 em_crc := crc_update part (em_crc e), em_total := em_total e + of_nat (length part)\<rparr>
      in case encode_frame c (Chunk (em_seq e') part) of
          Inr v \<Rightarrow> (e'\<lparr>em_queue := em_queue e' @ [v]\<rparr>, None)
        | Inl err \<Rightarrow> (e'\<lparr>em_fatal := True\<rparr>, Some err))"

text \<open>
  The loop over full chunks. \<open>emitter_open\<close> never makes a chunk size of 0, for which the loop of
  the code would not end.
\<close>

lemma emit_chunk_carry: "em_carry (fst (emit_chunk c n e)) = drop n (em_carry e)"
  by (simp add: emit_chunk_def Let_def split: sum.splits)

lemma emit_chunk_size: "em_chunk (fst (emit_chunk c n e)) = em_chunk e"
  by (simp add: emit_chunk_def Let_def split: sum.splits)

function emit_chunks :: "('v, 'm) codec \<Rightarrow> emitter \<Rightarrow> emitter \<times> proto_error option" where
  "emit_chunks c e =
     (if em_chunk e = 0 \<or> length (em_carry e) < em_chunk e then (e, None)
      else case snd (emit_chunk c (em_chunk e) e) of
          Some err \<Rightarrow> emit_chunk c (em_chunk e) e
        | None \<Rightarrow> emit_chunks c (fst (emit_chunk c (em_chunk e) e)))"
  by auto
termination
  by (relation "measure (\<lambda>(c, e). length (em_carry e))") (auto simp: emit_chunk_carry)

declare emit_chunks.simps [simp del]

text \<open>One turn of the loop of \<open>poll_next\<close>: it continues, or returns an item or the end.\<close>

datatype poll = Continue | Item bytes | Failed | Finished

definition poll_turn :: "('v, 'm) codec \<Rightarrow> emitter \<Rightarrow> emitter \<times> poll" where
  "poll_turn c e =
     (if em_queue e \<noteq> [] then (e\<lparr>em_queue := tl (em_queue e)\<rparr>, Item (hd (em_queue e)))
      else if em_fatal e then (e, Finished)
      else if \<not> em_header_sent e then
        (e\<lparr>em_header_sent := True, em_queue := em_queue e @ [em_header e]\<rparr>, Continue)
      else if em_eof e \<and> em_end_sent e then (e, Finished)
      else if em_eof e then
        (case if em_carry e \<noteq> [] then emit_chunk c (length (em_carry e)) e else (e, None) of
           (e', Some err) \<Rightarrow> (e', Failed)
         | (e', None) \<Rightarrow>
             (case encode_frame c (End (em_total e') (crc_finish (em_crc e'))) of
                Inr v \<Rightarrow> (e'\<lparr>em_end_sent := True, em_queue := em_queue e' @ [v]\<rparr>, Continue)
              | Inl err \<Rightarrow> (e'\<lparr>em_fatal := True\<rparr>, Failed)))
      else case em_reads e of
          [] \<Rightarrow> (e\<lparr>em_eof := True\<rparr>, Continue)
        | None # rs \<Rightarrow> (e\<lparr>em_reads := rs, em_fatal := True\<rparr>, Failed)
        | Some bs # rs \<Rightarrow>
            let e' = e\<lparr>em_reads := rs, em_carry := em_carry e @ bs\<rparr> in
            if bs = [] then (e'\<lparr>em_eof := True\<rparr>, Continue)
            else if em_total e' + of_nat (length (em_carry e')) > of_nat MAX_SNAPSHOT_BYTES
              then (e'\<lparr>em_fatal := True\<rparr>, Failed)
            else case emit_chunks c e' of
                (e'', Some err) \<Rightarrow> (e'', Failed)
              | (e'', None) \<Rightarrow> (e'', Continue))"

lemma emit_chunk_same [simp]:
  "em_reads (fst (emit_chunk c n e)) = em_reads e"
  "em_header_sent (fst (emit_chunk c n e)) = em_header_sent e"
  "em_eof (fst (emit_chunk c n e)) = em_eof e"
  "em_end_sent (fst (emit_chunk c n e)) = em_end_sent e"
  "snd (emit_chunk c n e) = None \<Longrightarrow> em_fatal (fst (emit_chunk c n e)) = em_fatal e"
  "snd (emit_chunk c n e) \<noteq> None \<Longrightarrow> em_fatal (fst (emit_chunk c n e))"
  by (auto simp: emit_chunk_def Let_def split: sum.splits)

lemma emit_chunks_same:
  "em_reads (fst (emit_chunks c e)) = em_reads e \<and> em_header_sent (fst (emit_chunks c e)) = em_header_sent e \<and>
   em_eof (fst (emit_chunks c e)) = em_eof e \<and> em_end_sent (fst (emit_chunks c e)) = em_end_sent e \<and>
   (em_fatal e \<longrightarrow> em_fatal (fst (emit_chunks c e)))"
proof (induction c e rule: emit_chunks.induct)
  case (1 c e)
  show ?case
    by (subst (1 2 3 4 5) emit_chunks.simps) (use 1 in \<open>auto split: option.splits\<close>)
qed

text \<open>What is left to do shrinks at every turn, in this order.\<close>

abbreviation "em_measures \<equiv> measures
  [\<lambda>e. if em_fatal e then 0 else 1, \<lambda>e. if em_header_sent e then 0 else 1,
   \<lambda>e. length (em_reads e) + (if em_eof e then 0 else 1), \<lambda>e. if em_end_sent e then 0 else 1,
   \<lambda>e. length (em_queue e)]"

lemma emit_chunks_error: "snd (emit_chunks c e) \<noteq> None \<Longrightarrow> em_fatal (fst (emit_chunks c e))"
proof (induction c e rule: emit_chunks.induct)
  case (1 c e)
  from 1(2) show ?case
    by (subst (asm) emit_chunks.simps, subst emit_chunks.simps) (use 1(1) in \<open>auto split: option.splits if_splits\<close>)
qed

lemma poll_turn_decreases:
  assumes "poll_turn c e = (e', r)" "r \<noteq> Finished"
  shows "(e', e) \<in> em_measures"
proof (cases "em_queue e = [] \<and> \<not> em_fatal e \<and> em_header_sent e")
  case False
  then show ?thesis using assms by (auto simp: poll_turn_def split: if_splits)
next
  case True
  show ?thesis
  proof (cases "em_eof e")
    case eof: True
    let ?e = "if em_carry e \<noteq> [] then emit_chunk c (length (em_carry e)) e else (e, None)"
    have "em_reads (fst ?e) = em_reads e" "em_header_sent (fst ?e) = em_header_sent e" "em_eof (fst ?e) = em_eof e"
      "em_end_sent (fst ?e) = em_end_sent e" "snd ?e \<noteq> None \<Longrightarrow> em_fatal (fst ?e)" by auto
    then show ?thesis using assms True eof
      by (cases ?e) (auto simp: poll_turn_def split: if_splits option.splits sum.splits)
  next
    case more: False
    have step: "em_reads (fst (emit_chunks c e1)) = em_reads e1 \<and> em_header_sent (fst (emit_chunks c e1)) = em_header_sent e1
        \<and> em_eof (fst (emit_chunks c e1)) = em_eof e1 \<and> (snd (emit_chunks c e1) \<noteq> None \<longrightarrow> em_fatal (fst (emit_chunks c e1)))" for e1
      using emit_chunks_same emit_chunks_error by blast
    show ?thesis
    proof (cases "em_reads e")
      case Nil
      then show ?thesis using assms True more by (auto simp: poll_turn_def)
    next
      case (Cons r rs)
      then show ?thesis
        using assms True more step [of "e\<lparr>em_reads := rs, em_carry := em_carry e @ the r\<rparr>"]
        by (cases "emit_chunks c (e\<lparr>em_reads := rs, em_carry := em_carry e @ the r\<rparr>)")
          (auto simp: poll_turn_def Let_def split: if_splits option.splits)
    qed
  qed
qed

text \<open>The stream: the items of the polls up to the end, None for an error.\<close>

function emit_stream :: "('v, 'm) codec \<Rightarrow> emitter \<Rightarrow> bytes option list" where
  "emit_stream c e = (case poll_turn c e of
     (e', Continue) \<Rightarrow> emit_stream c e'
   | (e', Item b) \<Rightarrow> Some b # emit_stream c e'
   | (e', Failed) \<Rightarrow> None # emit_stream c e'
   | (e', Finished) \<Rightarrow> [])"
  by auto
termination
proof (relation "inv_image em_measures snd", goal_cases)
  case 1
  then show ?case by (intro wf_inv_image wf_measures)
qed (simp_all only: in_inv_image snd_conv, (rule poll_turn_decreases [OF sym], assumption, simp)+)

declare emit_stream.simps [simp del]

section \<open>What the pump emits\<close>

text \<open>
  What the code relies on of the msgpack package: a frame it encodes it decodes to the same frame, and a chunk with
  at most a megabyte of payload and an end frame are encoded within the frame limit (binary payloads have a few
  bytes of envelope, for which the limit leaves 4096). Nothing is said of the header, whose metadata have no bound:
  where it matters, \<open>frame_fits\<close> says it of the header at hand.
\<close>

definition small :: "('v, 'm) frame \<Rightarrow> bool" where
  "small f \<longleftrightarrow> (case f of Header v m \<Rightarrow> False | Chunk s d \<Rightarrow> length d \<le> MAX_CHUNK_BYTES | End t r \<Rightarrow> True)"

definition frame_fits :: "('v, 'm) codec \<Rightarrow> ('v, 'm) frame \<Rightarrow> bool" where
  "frame_fits c f \<longleftrightarrow> (\<exists>w. ser c f = Some w \<and> length w \<le> MAX_FRAME_BYTES)"

definition codec_ok :: "('v, 'm) codec \<Rightarrow> bool" where
  "codec_ok c \<longleftrightarrow> (\<forall>f w. ser c f = Some w \<longrightarrow> de c w = Some f) \<and> (\<forall>f. small f \<longrightarrow> frame_fits c f)"

definition enc :: "('v, 'm) codec \<Rightarrow> ('v, 'm) frame \<Rightarrow> bytes" where
  "enc c f = (case encode_frame c f of Inr b \<Rightarrow> b | Inl e \<Rightarrow> [])"

lemma small_simps [simp]:
  "\<not> small (Header v m)" "small (End t r)" "small (Chunk s d) \<longleftrightarrow> length d \<le> MAX_CHUNK_BYTES"
  by (simp_all add: small_def)

lemma small_fits: "codec_ok c \<Longrightarrow> small f \<Longrightarrow> frame_fits c f"
  by (simp add: codec_ok_def)

lemma codec_okD:
  assumes "codec_ok c" "frame_fits c f"
  obtains w where "ser c f = Some w" "de c w = Some f" "length w \<le> MAX_FRAME_BYTES"
    "encode_frame c f = Inr (enc c f)" "enc c f = be32 (of_nat (length w)) @ w"
proof -
  obtain w where w: "ser c f = Some w" "length w \<le> MAX_FRAME_BYTES"
    using assms unfolding frame_fits_def by blast
  then have "encode_frame c f = Inr (be32 (of_nat (length w)) @ w)" by (simp add: encode_frame_def)
  then show ?thesis using that [OF w(1) _ w(2)] w(1) assms(1) by (simp add: enc_def codec_ok_def)
qed

lemma encode_small: "codec_ok c \<Longrightarrow> small f \<Longrightarrow> encode_frame c f = Inr (enc c f)"
  by (metis codec_okD small_fits)

text \<open>The chunk frames of a list of payload pieces, numbered from the one after \<open>s\<close>.\<close>

fun chunk_frames :: "64 word \<Rightarrow> bytes list \<Rightarrow> ('v, 'm) frame list" where
  "chunk_frames s [] = []"
| "chunk_frames s (d # ds) = Chunk (s + 1) d # chunk_frames (s + 1) ds"

lemma chunk_frames_append:
  "chunk_frames s (xs @ ys) = chunk_frames s xs @ chunk_frames (s + of_nat (length xs)) ys"
  by (induction xs arbitrary: s) (simp_all add: ac_simps)

text \<open>The emitter after it has queued the chunks \<open>ds\<close>, with \<open>rest\<close> in the carry.\<close>

definition emitted :: "('v, 'm) codec \<Rightarrow> bytes list \<Rightarrow> bytes \<Rightarrow> emitter \<Rightarrow> emitter" where
  "emitted c ds rest e = e\<lparr>em_seq := em_seq e + of_nat (length ds), em_carry := rest,
     em_crc := crc_update (concat ds) (em_crc e), em_total := em_total e + of_nat (length (concat ds)),
     em_queue := em_queue e @ map (enc c) (chunk_frames (em_seq e) ds)\<rparr>"

lemma emitted_Nil: "emitted c [] (em_carry e) e = e"
  by (simp add: emitted_def)

lemma emitted_twice: "emitted c ys rest (emitted c xs r e) = emitted c (xs @ ys) rest e"
  by (simp add: emitted_def chunk_frames_append crc_update_append ac_simps)

lemma emit_chunk_emitted:
  assumes "codec_ok c" "length (take n (em_carry e)) \<le> MAX_CHUNK_BYTES"
  shows "emit_chunk c n e = (emitted c [take n (em_carry e)] (drop n (em_carry e)) e, None)"
proof -
  have "encode_frame c (Chunk s (take n (em_carry e))) = Inr (enc c (Chunk s (take n (em_carry e))))" for s
    using assms by (intro encode_small) simp_all
  then show ?thesis by (simp only: emit_chunk_def Let_def emitter.simps emitter.update_convs sum.case) (simp add: emitted_def)
qed

lemma emit_chunks_emitted:
  assumes "codec_ok c" "0 < em_chunk e" "em_chunk e \<le> MAX_CHUNK_BYTES"
  shows "\<exists>ds rest. emit_chunks c e = (emitted c ds rest e, None) \<and> em_carry e = concat ds @ rest \<and>
    length rest < em_chunk e \<and> (\<forall>d \<in> set ds. length d = em_chunk e)"
  using assms
proof (induction c e rule: emit_chunks.induct)
  case (1 c e)
  show ?case
  proof (cases "length (em_carry e) < em_chunk e")
    case True
    then show ?thesis
      by (intro exI [of _ "[]"] exI [of _ "em_carry e"]) (simp add: emit_chunks.simps emitted_Nil)
  next
    case False
    let ?d = "take (em_chunk e) (em_carry e)"
    have one: "emit_chunk c (em_chunk e) e = (emitted c [?d] (drop (em_chunk e) (em_carry e)) e, None)"
      using 1 by (intro emit_chunk_emitted) simp_all
    then obtain ds rest where more: "emit_chunks c (emitted c [?d] (drop (em_chunk e) (em_carry e)) e)
        = (emitted c ds rest (emitted c [?d] (drop (em_chunk e) (em_carry e)) e), None)"
      "drop (em_chunk e) (em_carry e) = concat ds @ rest" "length rest < em_chunk e"
      "\<forall>d \<in> set ds. length d = em_chunk e"
      using 1 False by (force simp: emitted_def)
    have "emit_chunks c e = (emitted c (?d # ds) rest e, None)"
      by (subst emit_chunks.simps) (use False 1(3) one more(1) in \<open>simp add: emitted_twice\<close>)
    moreover have "em_carry e = concat (?d # ds) @ rest"
      using more(2) by (metis append.assoc append_take_drop_id concat.simps(2))
    ultimately show ?thesis using more(3,4) False by (intro exI [of _ "?d # ds"] exI [of _ rest]) simp
  qed
qed

lemma emit_queue: "emit_stream c e = map Some (em_queue e) @ emit_stream c (e\<lparr>em_queue := []\<rparr>)"
proof (induction "em_queue e" arbitrary: e)
  case Nil
  have "e\<lparr>em_queue := []\<rparr> = e" using Nil by (cases e) simp
  then show ?case unfolding Nil [symmetric] by (simp only: list.map append_Nil)
next
  case (Cons b q)
  have "emit_stream c e = Some b # emit_stream c (e\<lparr>em_queue := q\<rparr>)"
    by (subst emit_stream.simps) (simp add: poll_turn_def Cons(2) [symmetric])
  also have "emit_stream c (e\<lparr>em_queue := q\<rparr>) = map Some q @ emit_stream c (e\<lparr>em_queue := []\<rparr>)"
    using Cons(1) [of "e\<lparr>em_queue := q\<rparr>"] by simp
  finally show ?case by (simp add: Cons(2) [symmetric])
qed

text \<open>One turn of each kind, in a state that has no error, has sent the header, and has an empty queue.\<close>

lemma emit_read:
  assumes "em_queue e = []" "\<not> em_fatal e" "em_header_sent e" "\<not> em_eof e" "em_reads e = Some bs # rs" "bs \<noteq> []"
    and "\<not> em_total e + of_nat (length (em_carry e @ bs)) > of_nat MAX_SNAPSHOT_BYTES"
    and "emit_chunks c (e\<lparr>em_reads := rs, em_carry := em_carry e @ bs\<rparr>) = (e', None)"
  shows "emit_stream c e = emit_stream c e'"
  using assms by (subst emit_stream.simps) (simp add: poll_turn_def Let_def)

lemma emit_eof:
  assumes "em_queue e = []" "\<not> em_fatal e" "em_header_sent e" "\<not> em_eof e" "em_reads e = []"
  shows "emit_stream c e = emit_stream c (e\<lparr>em_eof := True\<rparr>)"
  using assms by (subst emit_stream.simps) (simp add: poll_turn_def)

text \<open>At the end of the file the rest of the carry becomes the last chunk, and the end frame follows.\<close>

lemma emit_end:
  assumes "codec_ok c" "em_queue e = []" "\<not> em_fatal e" "em_header_sent e" "em_eof e" "\<not> em_end_sent e"
    and "length (em_carry e) \<le> MAX_CHUNK_BYTES"
  defines "ds \<equiv> if em_carry e = [] then [] else [em_carry e]"
  shows "emit_stream c e = map Some (map (enc c) (chunk_frames (em_seq e) ds) @
    [enc c (End (em_total e + of_nat (length (em_carry e))) (crc_finish (crc_update (em_carry e) (em_crc e))))])"
proof -
  let ?e = "emitted c ds [] e"
  have carry: "(if em_carry e \<noteq> [] then emit_chunk c (length (em_carry e)) e else (e, None)) = (?e, None)"
    using emit_chunk_emitted [OF assms(1), of "length (em_carry e)" e] assms(7) emitted_Nil [of c e]
    by (auto simp: ds_def)
  define v where "v = enc c (End (em_total ?e) (crc_finish (em_crc ?e)))"
  have end_frame: "encode_frame c (End (em_total ?e) (crc_finish (em_crc ?e))) = Inr v"
    unfolding v_def by (rule encode_small [OF assms(1)]) simp
  let ?f = "?e\<lparr>em_end_sent := True, em_queue := em_queue ?e @ [v]\<rparr>"
  have "poll_turn c e = (?f, Continue)"
    unfolding poll_turn_def using assms(2-6) by (simp only: if_True if_False not_True_eq_False not_False_eq_True
        simp_thms carry prod.case option.case end_frame sum.case)
  then have "emit_stream c e = emit_stream c ?f" by (subst emit_stream.simps) simp
  also have "\<dots> = map Some (em_queue ?f) @ emit_stream c (?f\<lparr>em_queue := []\<rparr>)" by (rule emit_queue)
  also have "emit_stream c (?f\<lparr>em_queue := []\<rparr>) = []"
    using assms(3-5) by (subst emit_stream.simps) (simp add: poll_turn_def emitted_def)
  finally show ?thesis using assms(2) by (simp add: emitted_def v_def ds_def)
qed

lemma of_nat_not_above:
  assumes "n \<le> MAX_SNAPSHOT_BYTES"
  shows "\<not> of_nat n > (of_nat MAX_SNAPSHOT_BYTES :: 64 word)" "unat (of_nat n :: 64 word) = n"
proof -
  have "n < 2 ^ 64" using assms by (simp add: MAX_SNAPSHOT_BYTES_def)
  then show "unat (of_nat n :: 64 word) = n" by (simp add: unat_of_nat)
  moreover have "unat (of_nat MAX_SNAPSHOT_BYTES :: 64 word) = MAX_SNAPSHOT_BYTES"
    by (simp add: unat_of_nat MAX_SNAPSHOT_BYTES_def)
  ultimately show "\<not> of_nat n > (of_nat MAX_SNAPSHOT_BYTES :: 64 word)"
    using assms by (simp add: word_less_nat_alt)
qed

lemma emit_from:
  assumes "codec_ok c" "0 < em_chunk e" "em_chunk e \<le> MAX_CHUNK_BYTES"
    and "\<not> em_fatal e" "em_header_sent e" "\<not> em_eof e" "\<not> em_end_sent e" "em_queue e = []"
    and "em_reads e = map Some rs" "[] \<notin> set rs" "length (em_carry e) < em_chunk e"
    and "em_total e = of_nat t" "t + length (em_carry e) + length (concat rs) \<le> MAX_SNAPSHOT_BYTES"
  shows "\<exists>ds. concat ds = em_carry e @ concat rs \<and> (\<forall>d \<in> set ds. d \<noteq> [] \<and> length d \<le> em_chunk e) \<and>
    emit_stream c e = map Some (map (enc c) (chunk_frames (em_seq e) ds) @
      [enc c (End (of_nat (t + length (concat ds))) (crc_finish (crc_update (concat ds) (em_crc e))))])"
  using assms
proof (induction rs arbitrary: e t)
  case Nil
  let ?ds = "if em_carry e = [] then [] else [em_carry e]"
  have "emit_stream c e = emit_stream c (e\<lparr>em_eof := True\<rparr>)"
    using Nil by (intro emit_eof) simp_all
  also have "\<dots> = map Some (map (enc c) (chunk_frames (em_seq e) ?ds) @
      [enc c (End (of_nat t + of_nat (length (em_carry e))) (crc_finish (crc_update (em_carry e) (em_crc e))))])"
    using emit_end [OF Nil(1), of "e\<lparr>em_eof := True\<rparr>"] Nil by simp
  finally show ?case using Nil by (intro exI [of _ ?ds]) simp
next
  case (Cons r rs)
  let ?e = "e\<lparr>em_reads := map Some rs, em_carry := em_carry e @ r\<rparr>"
  obtain ds rest where loop: "emit_chunks c ?e = (emitted c ds rest ?e, None)" "em_carry e @ r = concat ds @ rest"
      "length rest < em_chunk e" "\<forall>d \<in> set ds. length d = em_chunk e"
    using emit_chunks_emitted [of c ?e] Cons(2-4) by auto
  have len: "length (em_carry e) + length r = length (concat ds) + length rest"
    using loop(2) by (metis length_append)
  have fits: "t + length (em_carry e @ r) \<le> MAX_SNAPSHOT_BYTES"
    "t + length (concat ds) + length rest + length (concat rs) \<le> MAX_SNAPSHOT_BYTES"
    using Cons.prems(13) len by simp_all
  have "em_total e + of_nat (length (em_carry e @ r)) = (of_nat (t + length (em_carry e @ r)) :: 64 word)"
    using Cons.prems(12) by simp
  then have "\<not> em_total e + of_nat (length (em_carry e @ r)) > (of_nat MAX_SNAPSHOT_BYTES :: 64 word)"
    using of_nat_not_above(1) [OF fits(1)] by simp
  then have "emit_stream c e = emit_stream c (emitted c ds rest ?e)"
    using Cons.prems loop(1) by (intro emit_read [where bs = r]) auto
  also have "\<dots> = map Some (map (enc c) (chunk_frames (em_seq e) ds)) @
      emit_stream c ((emitted c ds rest ?e)\<lparr>em_queue := []\<rparr>)"
    by (subst emit_queue) (use Cons.prems(8) in \<open>simp add: emitted_def\<close>)
  finally have step: "emit_stream c e = map Some (map (enc c) (chunk_frames (em_seq e) ds)) @
      emit_stream c ((emitted c ds rest ?e)\<lparr>em_queue := []\<rparr>)" .
  let ?f = "(emitted c ds rest ?e)\<lparr>em_queue := []\<rparr>"
  obtain ds' where more: "concat ds' = rest @ concat rs" "\<forall>d \<in> set ds'. d \<noteq> [] \<and> length d \<le> em_chunk e"
    "emit_stream c ?f = map Some (map (enc c) (chunk_frames (em_seq ?f) ds') @
      [enc c (End (of_nat (t + length (concat ds) + length (concat ds'))) (crc_finish (crc_update (concat ds') (em_crc ?f))))])"
    using Cons.IH [of ?f "t + length (concat ds)"] Cons.prems loop(3) fits(2) by (auto simp: emitted_def)
  have "concat (ds @ ds') = em_carry e @ concat (r # rs)" using loop(2) more(1) by simp
  moreover have "\<forall>d \<in> set (ds @ ds'). d \<noteq> [] \<and> length d \<le> em_chunk e"
    using more(2) loop(4) Cons.prems(2) by auto
  moreover have "emit_stream c e = map Some (map (enc c) (chunk_frames (em_seq e) (ds @ ds')) @
      [enc c (End (of_nat (t + length (concat (ds @ ds')))) (crc_finish (crc_update (concat (ds @ ds')) (em_crc e))))])"
    unfolding step more(3) by (simp add: emitted_def chunk_frames_append crc_update_append ac_simps)
  ultimately show ?case by blast
qed

text \<open>
  The pump on a file read in any pieces: header, chunks of at most the chunk size in order, end frame
  with the length and the checksum of the file.
\<close>

lemma emit_all:
  assumes "codec_ok c" "[] \<notin> set rs" "length (concat rs) \<le> MAX_SNAPSHOT_BYTES"
    and "emitter_open c (map Some rs) vote meta n = Inr e"
  shows "\<exists>ds. concat ds = concat rs \<and> (\<forall>d \<in> set ds. d \<noteq> [] \<and> length d \<le> MAX_CHUNK_BYTES) \<and>
    emit_stream c e = map Some (enc c (Header vote meta) # map (enc c) (chunk_frames 0 ds) @
      [enc c (End (of_nat (length (concat rs))) (crc_of (concat rs)))])"
proof -
  have header: "encode_frame c (Header vote meta) = Inr (enc c (Header vote meta))"
    using assms(4) by (auto simp: emitter_open_def enc_def)
  with assms(4) have e: "em_header e = enc c (Header vote meta)" "em_queue e = []" "\<not> em_fatal e" "\<not> em_header_sent e"
      "\<not> em_eof e" "\<not> em_end_sent e" "em_reads e = map Some rs" "em_carry e = []" "em_total e = 0" "em_seq e = 0"
      "em_crc e = crc_init" "0 < em_chunk e" "em_chunk e \<le> MAX_CHUNK_BYTES"
    by (auto simp: emitter_open_def MAX_CHUNK_BYTES_def)
  let ?e = "e\<lparr>em_header_sent := True\<rparr>"
  have "emit_stream c e = emit_stream c (e\<lparr>em_header_sent := True, em_queue := [em_header e]\<rparr>)"
    using e by (subst emit_stream.simps) (simp add: poll_turn_def)
  also have "\<dots> = Some (em_header e) # emit_stream c (e\<lparr>em_header_sent := True, em_queue := []\<rparr>)"
    by (subst emit_queue) simp
  also have "e\<lparr>em_header_sent := True, em_queue := []\<rparr> = ?e" using e(2) by (cases e) simp
  finally have "emit_stream c e = Some (em_header e) # emit_stream c ?e" .
  moreover obtain ds where "concat ds = concat rs" "\<forall>d \<in> set ds. d \<noteq> [] \<and> length d \<le> em_chunk e"
    "emit_stream c ?e = map Some (map (enc c) (chunk_frames 0 ds) @
      [enc c (End (of_nat (length (concat ds))) (crc_finish (crc_update (concat ds) crc_init)))])"
    using emit_from [OF assms(1), of ?e rs 0] e assms(2,3) by auto
  ultimately show ?thesis using e(1,13) by (intro exI [of _ ds]) (auto simp: crc_of_def)
qed

end
