(* ===== verification/Receiver.thy ===== *)
theory Receiver
  imports Frames
begin

text \<open>
  The receiving end of the snapshot transport of dsh-raft: \<open>full_snapshot\<close> of
  \<open>raft_http_server.rs\<close> with the \<open>ChunkWriter\<close> of \<open>snapshot_stream.rs\<close>. The directory of the
  node is a map from file names to contents. What the operating system does (how many bytes a write
  takes, whether a file can be created, flushed, renamed), the name minted for the file and what the
  Raft core does with the finished snapshot are the parameter \<open>host\<close>.

  The lemmas show that the result does not depend on how the body is cut into parts, that the
  decoder never holds more than one frame and its length prefix, that only complete and checked
  transfers reach the Raft core, and that what the pump of \<open>Frames\<close> sends arrives.
\<close>

section \<open>The handler\<close>

datatype http_status = BAD_REQUEST | UNAUTHORIZED | UNSUPPORTED_MEDIA_TYPE | PAYLOAD_TOO_LARGE | INTERNAL_SERVER_ERROR

datatype reason = Body_Stream | Protocol proto_error | Header_Twice | Part_Create | Header_First | Empty_Chunk
  | Chunk_Too_Large | Out_Of_Order "64 word" "64 word" | Part_Write | No_Writer | End_Twice | Truncated
  | Total_Mismatch | Crc_Mismatch | Part_Flush | Rename | Header_Missing | Install_Failed | Bad_Token | Not_Msgpack

type_synonym directory = "string \<Rightarrow> bytes option"

text \<open>
  \<open>poll_write content data\<close> is what one write of \<open>data\<close> to a file with that content accepts: None for an
  error, otherwise the number of bytes.
\<close>

record ('vote, 'meta, 'r) host =
  file_name :: "'meta \<Rightarrow> string"
  can_create :: bool
  poll_write :: "bytes \<Rightarrow> bytes \<Rightarrow> nat option"
  can_flush :: bool
  can_rename :: bool
  install :: "'vote \<Rightarrow> 'meta \<Rightarrow> bytes \<Rightarrow> 'r option"

definition part_path :: "string \<Rightarrow> string" where
  "part_path name = name @ ''.part''"

text \<open>\<open>ChunkWriter::write\<close>: writes until all is accepted; a write of 0 bytes is an error.\<close>

function chunk_write :: "(bytes \<Rightarrow> bytes \<Rightarrow> nat option) \<Rightarrow> bytes \<Rightarrow> bytes \<Rightarrow> bytes \<times> bool" where
  "chunk_write w content data =
     (if data = [] then (content, True)
      else case w content data of
          None \<Rightarrow> (content, False)
        | Some 0 \<Rightarrow> (content, False)
        | Some (Suc n) \<Rightarrow> chunk_write w (content @ take (Suc n) data) (drop (Suc n) data))"
  by auto
termination by (relation "measure (\<lambda>(w, content, data). length data)") auto

declare chunk_write.simps [simp del]

record ('vote, 'meta) rx =
  rx_buf :: bytes
  rx_crc :: crc32
  rx_total :: "64 word"
  rx_seq :: "64 word"
  rx_header :: "('vote \<times> 'meta) option"
  rx_end :: "(64 word \<times> 32 word) option"
  rx_part :: "string option"
  rx_writer :: bool
  rx_dir :: directory
  rx_fail :: "(http_status \<times> reason) option"

definition rx_init :: "directory \<Rightarrow> ('v, 'm) rx" where
  "rx_init dir = \<lparr>rx_buf = [], rx_crc = crc_init, rx_total = 0, rx_seq = 0, rx_header = None, rx_end = None,
     rx_part = None, rx_writer = False, rx_dir = dir, rx_fail = None\<rparr>"

abbreviation "failed st why s \<equiv> s\<lparr>rx_fail := Some (st, why)\<rparr>"

definition on_header :: "('v, 'm, 'r) host \<Rightarrow> 'v \<Rightarrow> 'm \<Rightarrow> ('v, 'm) rx \<Rightarrow> ('v, 'm) rx" where
  "on_header h vote meta s =
     (if rx_header s \<noteq> None then failed BAD_REQUEST Header_Twice s
      else let s' = s\<lparr>rx_header := Some (vote, meta), rx_part := Some (file_name h meta)\<rparr> in
        if can_create h then s'\<lparr>rx_writer := True, rx_dir := (rx_dir s)(part_path (file_name h meta) \<mapsto> [])\<rparr>
        else failed INTERNAL_SERVER_ERROR Part_Create s')"

text \<open>A failed write leaves what was written before the error in the file.\<close>

definition write_part :: "('v, 'm, 'r) host \<Rightarrow> bytes \<Rightarrow> ('v, 'm) rx \<Rightarrow> ('v, 'm) rx" where
  "write_part h data s =
     (case rx_part s of
        Some name \<Rightarrow> if rx_writer s then
            let (content, ok) = chunk_write (poll_write h) (the (rx_dir s (part_path name))) data;
                s' = s\<lparr>rx_dir := (rx_dir s)(part_path name \<mapsto> content)\<rparr>
            in if ok then s' else failed INTERNAL_SERVER_ERROR Part_Write s'
          else failed INTERNAL_SERVER_ERROR No_Writer s
      | None \<Rightarrow> failed INTERNAL_SERVER_ERROR No_Writer s)"

definition on_chunk :: "('v, 'm, 'r) host \<Rightarrow> 64 word \<Rightarrow> bytes \<Rightarrow> ('v, 'm) rx \<Rightarrow> ('v, 'm) rx" where
  "on_chunk h seq data s =
     (if rx_header s = None then failed BAD_REQUEST Header_First s
      else if data = [] then failed BAD_REQUEST Empty_Chunk s
      else if length data > MAX_CHUNK_BYTES then failed BAD_REQUEST Chunk_Too_Large s
      else if seq \<noteq> rx_seq s + 1 then failed BAD_REQUEST (Out_Of_Order seq (rx_seq s + 1)) s
      else let s' = s\<lparr>rx_seq := seq, rx_total := rx_total s + of_nat (length data)\<rparr> in
        case check_total (rx_total s') of
          Inl e \<Rightarrow> failed PAYLOAD_TOO_LARGE (Protocol e) s'
        | Inr u \<Rightarrow> write_part h data (s'\<lparr>rx_crc := crc_update data (rx_crc s')\<rparr>))"

definition on_end :: "64 word \<Rightarrow> 32 word \<Rightarrow> ('v, 'm) rx \<Rightarrow> ('v, 'm) rx" where
  "on_end total_len crc s =
     (if rx_end s \<noteq> None then failed BAD_REQUEST End_Twice s
      else if rx_header s = None then failed BAD_REQUEST Header_First s
      else s\<lparr>rx_end := Some (total_len, crc)\<rparr>)"

definition on_frame :: "('v, 'm, 'r) host \<Rightarrow> ('v, 'm) frame \<Rightarrow> ('v, 'm) rx \<Rightarrow> ('v, 'm) rx" where
  "on_frame h f s = (case f of
     Header vote meta \<Rightarrow> on_header h vote meta s
   | Chunk seq data \<Rightarrow> on_chunk h seq data s
   | End total_len crc \<Rightarrow> on_end total_len crc s)"

lemma write_part_buf [simp]: "rx_buf (write_part h data s) = rx_buf s"
  by (simp add: write_part_def Let_def split: option.splits prod.splits)

lemma on_frame_buf [simp]: "rx_buf (on_frame h f s) = rx_buf s"
  by (simp add: on_frame_def on_header_def on_chunk_def on_end_def Let_def split: frame.splits sum.splits)

lemma next_frame_shorter: "next_frame c buf = (buf', Inr (Some f)) \<Longrightarrow> length buf' < length buf"
  by (auto simp: next_frame_def Let_def split: if_splits sum.splits)

text \<open>The inner loop: every complete frame in the buffer, until a failure.\<close>

function drain :: "('v, 'm) codec \<Rightarrow> ('v, 'm, 'r) host \<Rightarrow> ('v, 'm) rx \<Rightarrow> ('v, 'm) rx" where
  "drain c h s =
     (if rx_fail s \<noteq> None then s
      else case next_frame c (rx_buf s) of
          (buf, Inl e) \<Rightarrow> failed BAD_REQUEST (Protocol e) (s\<lparr>rx_buf := buf\<rparr>)
        | (buf, Inr None) \<Rightarrow> s\<lparr>rx_buf := buf\<rparr>
        | (buf, Inr (Some f)) \<Rightarrow> drain c h (on_frame h f (s\<lparr>rx_buf := buf\<rparr>)))"
  by auto
termination
  by (relation "measure (\<lambda>(c, h, s). length (rx_buf s))") (auto dest: next_frame_shorter [OF sym])

declare drain.simps [simp del]

text \<open>One turn of the outer loop: a part of the body, or an error of the stream.\<close>

definition on_part :: "('v, 'm) codec \<Rightarrow> ('v, 'm, 'r) host \<Rightarrow> bytes option \<Rightarrow> ('v, 'm) rx \<Rightarrow> ('v, 'm) rx" where
  "on_part c h part s =
     (if rx_fail s \<noteq> None then s
      else case part of
          None \<Rightarrow> failed BAD_REQUEST Body_Stream s
        | Some bs \<Rightarrow> drain c h (s\<lparr>rx_buf := rx_buf s @ bs\<rparr>))"

text \<open>The checks after the stream, in order.\<close>

definition rx_check :: "('v, 'm) rx \<Rightarrow> ('v, 'm) rx" where
  "rx_check s =
     (if rx_fail s \<noteq> None then s
      else case rx_end s of
          None \<Rightarrow> failed BAD_REQUEST Truncated s
        | Some (len, crc) \<Rightarrow>
            if rx_total s \<noteq> len then failed BAD_REQUEST Total_Mismatch s
            else if crc_finish (rx_crc s) \<noteq> crc then failed BAD_REQUEST Crc_Mismatch s
            else s)"

text \<open>Flush, rename to the final name, hand over, remove; a failure removes the part file.\<close>

definition rx_finish ::
  "('v, 'm, 'r) host \<Rightarrow> ('v, 'm) rx \<Rightarrow> directory \<times> ((http_status \<times> reason) + 'r)" where
  "rx_finish h s =
     (let abort = (\<lambda>f. (case rx_part s of None \<Rightarrow> rx_dir s | Some name \<Rightarrow> (rx_dir s)(part_path name := None), Inl f))
      in case rx_fail s of
        Some f \<Rightarrow> abort f
      | None \<Rightarrow>
          (case (rx_writer s, rx_part s, rx_header s) of
             (True, Some name, Some (vote, meta)) \<Rightarrow>
               if \<not> can_flush h then abort (INTERNAL_SERVER_ERROR, Part_Flush)
               else if \<not> can_rename h then abort (INTERNAL_SERVER_ERROR, Rename)
               else let content = the (rx_dir s (part_path name));
                        dir = (rx_dir s)(part_path name := None, name := None)
                    in (dir, case install h vote meta content of
                          None \<Rightarrow> Inl (INTERNAL_SERVER_ERROR, Install_Failed)
                        | Some r \<Rightarrow> Inr r)
           | _ \<Rightarrow> abort (BAD_REQUEST, Header_Missing)))"

definition receive ::
  "('v, 'm) codec \<Rightarrow> ('v, 'm, 'r) host \<Rightarrow> directory \<Rightarrow> bytes option list \<Rightarrow>
     directory \<times> ((http_status \<times> reason) + 'r)" where
  "receive c h dir parts = rx_finish h (rx_check (fold (on_part c h) parts (rx_init dir)))"

text \<open>The bearer token and the content type are checked first.\<close>

definition authed :: "string option \<Rightarrow> string option \<Rightarrow> bool" where
  "authed token authorization = (case token of
     None \<Rightarrow> True
   | Some t \<Rightarrow> authorization = Some (''Bearer '' @ t))"

definition is_msgpack :: "string option \<Rightarrow> bool" where
  "is_msgpack content_type = (case content_type of
     None \<Rightarrow> False
   | Some v \<Rightarrow> starts_with v ''application/msgpack'')"

definition full_snapshot ::
  "('v, 'm) codec \<Rightarrow> ('v, 'm, 'r) host \<Rightarrow> string option \<Rightarrow> string option \<Rightarrow> string option \<Rightarrow> directory \<Rightarrow>
     bytes option list \<Rightarrow> directory \<times> ((http_status \<times> reason) + 'r)" where
  "full_snapshot c h token authorization content_type dir parts =
     (if \<not> authed token authorization then (dir, Inl (UNAUTHORIZED, Bad_Token))
      else if \<not> is_msgpack content_type then (dir, Inl (UNSUPPORTED_MEDIA_TYPE, Not_Msgpack))
      else receive c h dir parts)"

section \<open>Where the body is cut\<close>

text \<open>Two receiver states with the same future: the buffer of a failed one does not matter.\<close>

definition same_rx :: "('v, 'm) rx \<Rightarrow> ('v, 'm) rx \<Rightarrow> bool" where
  "same_rx s t \<longleftrightarrow> s\<lparr>rx_buf := []\<rparr> = t\<lparr>rx_buf := []\<rparr> \<and> (rx_fail s = None \<longrightarrow> s = t)"

lemma same_rx_refl [simp]: "same_rx s s"
  by (simp add: same_rx_def)

lemma same_rx_fail: "same_rx s t \<Longrightarrow> rx_fail s = rx_fail t"
  unfolding same_rx_def by (metis rx.ext_inject rx.surjective rx.update_convs(1))

lemma same_rx_failed: "rx_fail s \<noteq> None \<Longrightarrow> same_rx (s\<lparr>rx_buf := b\<rparr>) s"
  by (auto simp: same_rx_def)

lemma next_frame_None: "next_frame c buf = (buf', Inr None) \<Longrightarrow> buf' = buf"
  by (auto simp: next_frame_def Let_def split: if_splits sum.splits)

lemma next_frame_append:
  assumes "next_frame c buf = (buf', r)" "r \<noteq> Inr None"
  shows "next_frame c (buf @ x) = (case r of Inl e \<Rightarrow> buf' | _ \<Rightarrow> buf' @ x, r)"
proof -
  have "length buf \<ge> 4" using assms by (auto simp: next_frame_def split: if_splits)
  then have "frame_len (buf @ x) = frame_len buf" by (cases buf) (auto simp: frame_len_def nth_append)
  then show ?thesis using assms by (auto simp: next_frame_def Let_def split: if_splits sum.splits)
qed

lemma drain_append:
  "same_rx (drain c h (s\<lparr>rx_buf := rx_buf s @ x\<rparr>)) (on_part c h (Some x) (drain c h s))"
proof (induction c h s rule: drain.induct)
  case (1 c h s)
  show ?case
  proof (cases "rx_fail s")
    case (Some f)
    then show ?thesis by (simp add: drain.simps [of _ _ s] drain.simps [of _ _ "s\<lparr>rx_buf := _\<rparr>"] on_part_def same_rx_failed)
  next
    case None
    obtain buf r where next_eq: "next_frame c (rx_buf s) = (buf, r)" by (cases "next_frame c (rx_buf s)")
    show ?thesis
    proof (cases r)
      case (Inl e)
      then show ?thesis
        using None next_eq next_frame_append [OF next_eq, of x]
        by (simp add: drain.simps [of _ _ s] drain.simps [of _ _ "s\<lparr>rx_buf := _\<rparr>"] on_part_def)
    next
      case (Inr g)
      show ?thesis
      proof (cases g)
        case None: None
        then have "drain c h s = s"
          using Inr next_eq \<open>rx_fail s = None\<close> next_frame_None [of c "rx_buf s" buf] by (simp add: drain.simps [of _ _ s])
        then show ?thesis using \<open>rx_fail s = None\<close> by (simp add: on_part_def)
      next
        case (Some f)
        have "drain c h (s\<lparr>rx_buf := rx_buf s @ x\<rparr>) = drain c h (on_frame h f (s\<lparr>rx_buf := buf @ x\<rparr>))"
          using Some Inr next_eq None next_frame_append [OF next_eq, of x] by (subst drain.simps) simp
        also have "on_frame h f (s\<lparr>rx_buf := buf @ x\<rparr>) =
            (on_frame h f (s\<lparr>rx_buf := buf\<rparr>))\<lparr>rx_buf := rx_buf (on_frame h f (s\<lparr>rx_buf := buf\<rparr>)) @ x\<rparr>"
          by (simp add: on_frame_def on_header_def on_chunk_def on_end_def write_part_def Let_def check_total_def
              split: frame.splits sum.splits option.splits prod.splits)
        finally have "drain c h (s\<lparr>rx_buf := rx_buf s @ x\<rparr>) =
            drain c h ((on_frame h f (s\<lparr>rx_buf := buf\<rparr>))\<lparr>rx_buf := rx_buf (on_frame h f (s\<lparr>rx_buf := buf\<rparr>)) @ x\<rparr>)" .
        moreover have "drain c h s = drain c h (on_frame h f (s\<lparr>rx_buf := buf\<rparr>))"
          using Some Inr next_eq None by (subst drain.simps) simp
        ultimately show ?thesis using 1 [OF _ next_eq [symmetric] Inr Some] None by simp
      qed
    qed
  qed
qed

lemma on_part_same:
  assumes "same_rx s t"
  shows "same_rx (on_part c h p s) (on_part c h p t)"
proof (cases "rx_fail s = None")
  case True
  then show ?thesis using assms by (simp add: same_rx_def)
next
  case False
  then show ?thesis using assms same_rx_fail [OF assms] by (simp add: on_part_def)
qed

lemma same_rx_trans: "same_rx s t \<Longrightarrow> same_rx t u \<Longrightarrow> same_rx s u"
  unfolding same_rx_def by (metis same_rx_def same_rx_fail)

lemma same_rx_sym: "same_rx s t \<Longrightarrow> same_rx t s"
  unfolding same_rx_def by (metis same_rx_def same_rx_fail)

lemma fold_parts: "same_rx (fold (on_part c h) (map Some ps) (rx_init dir)) (drain c h ((rx_init dir)\<lparr>rx_buf := concat ps\<rparr>))"
proof (induction ps rule: rev_induct)
  case Nil
  then show ?case by (simp add: drain.simps rx_init_def next_frame_def)
next
  case (snoc p ps)
  let ?s = "(rx_init dir)\<lparr>rx_buf := concat ps\<rparr> :: ('a, 'b) rx"
  have "same_rx (fold (on_part c h) (map Some (ps @ [p])) (rx_init dir)) (on_part c h (Some p) (drain c h ?s))"
    using on_part_same [OF snoc] by simp
  moreover have "same_rx (drain c h (?s\<lparr>rx_buf := rx_buf ?s @ p\<rparr>)) (on_part c h (Some p) (drain c h ?s))"
    by (rule drain_append)
  ultimately show ?case using same_rx_trans same_rx_sym by fastforce
qed

lemma finish_same:
  assumes "same_rx s t"
  shows "rx_finish h (rx_check s) = rx_finish h (rx_check t)"
proof (cases "rx_fail s = None")
  case True
  then show ?thesis using assms by (simp add: same_rx_def)
next
  case False
  have *: "rx_dir s = rx_dir t" "rx_part s = rx_part t"
    using assms unfolding same_rx_def by (metis rx.ext_inject rx.surjective rx.update_convs(1))+
  show ?thesis using False * same_rx_fail [OF assms] by (auto simp: rx_check_def rx_finish_def Let_def split: option.splits)
qed

text \<open>What the handler does depends on the body only, not on how the transport cuts it into parts.\<close>

lemma receive_any_cut: "concat ps = concat qs \<Longrightarrow> receive c h dir (map Some ps) = receive c h dir (map Some qs)"
  unfolding receive_def by (metis finish_same fold_parts)

section \<open>Bounds\<close>

lemma max_frame: "unat (of_nat MAX_FRAME_BYTES :: 32 word) = MAX_FRAME_BYTES"
  by (simp add: unat_of_nat MAX_FRAME_BYTES_def MAX_CHUNK_BYTES_def)

lemma drain_bounded:
  "rx_fail (drain c h s) = None \<Longrightarrow> length (rx_buf (drain c h s)) < 4 + MAX_FRAME_BYTES"
proof (induction c h s rule: drain.induct)
  case (1 c h s)
  have none: "rx_fail s = None"
  proof (rule ccontr)
    assume "rx_fail s \<noteq> None"
    then have "drain c h s = s" by (subst drain.simps) simp
    with 1(2) \<open>rx_fail s \<noteq> None\<close> show False by simp
  qed
  obtain buf r where next_eq: "next_frame c (rx_buf s) = (buf, r)" by (cases "next_frame c (rx_buf s)")
  show ?case
  proof (cases r)
    case (Inl e)
    then show ?thesis using 1(2) none next_eq by (subst (asm) drain.simps) simp
  next
    case (Inr g)
    show ?thesis
    proof (cases g)
      case None
      have "length buf < 4 + MAX_FRAME_BYTES"
        using next_eq Inr None max_frame
        by (auto simp: next_frame_def Let_def word_less_nat_alt not_less split: if_splits sum.splits)
      then show ?thesis using none next_eq Inr None by (subst drain.simps) simp
    next
      case (Some f)
      have "drain c h s = drain c h (on_frame h f (s\<lparr>rx_buf := buf\<rparr>))"
        using Some Inr next_eq none by (subst drain.simps) simp
      then show ?thesis using 1(1) [OF _ next_eq [symmetric] Inr Some] none 1(2) by simp
    qed
  qed
qed

section \<open>What an accepted body holds\<close>

text \<open>The frames of a body, as far as it decodes.\<close>

function frames_of :: "('v, 'm) codec \<Rightarrow> bytes \<Rightarrow> ('v, 'm) frame list" where
  "frames_of c buf = (case next_frame c buf of
     (buf', Inr (Some f)) \<Rightarrow> f # frames_of c buf'
   | (buf', Inr None) \<Rightarrow> []
   | (buf', Inl e) \<Rightarrow> [])"
  by auto
termination
  by (relation "measure (\<lambda>(c, buf). length buf)") (auto dest: next_frame_shorter [OF sym])

declare frames_of.simps [simp del]

lemma drain_frames:
  "rx_fail (drain c h s) = None \<Longrightarrow> \<exists>b. drain c h s = (fold (on_frame h) (frames_of c (rx_buf s)) s)\<lparr>rx_buf := b\<rparr> \<and>
     (\<forall>n. rx_fail (fold (on_frame h) (take n (frames_of c (rx_buf s))) s) = None)"
proof (induction c h s rule: drain.induct)
  case (1 c h s)
  have none: "rx_fail s = None"
  proof (rule ccontr)
    assume "rx_fail s \<noteq> None"
    then have "drain c h s = s" by (subst drain.simps) simp
    with 1(2) \<open>rx_fail s \<noteq> None\<close> show False by simp
  qed
  obtain buf r where next_eq: "next_frame c (rx_buf s) = (buf, r)" by (cases "next_frame c (rx_buf s)")
  show ?case
  proof (cases r)
    case (Inl e)
    then show ?thesis using 1(2) none next_eq by (subst (asm) drain.simps) simp
  next
    case (Inr g)
    show ?thesis
    proof (cases g)
      case None
      have "drain c h s = s\<lparr>rx_buf := buf\<rparr>"
        using none next_eq Inr None by (subst drain.simps) simp
      moreover have "frames_of c (rx_buf s) = []"
        using next_eq Inr None by (subst frames_of.simps) simp
      ultimately show ?thesis using none by auto
    next
      case (Some f)
      let ?t = "on_frame h f (s\<lparr>rx_buf := buf\<rparr>)"
      have frames: "frames_of c (rx_buf s) = f # frames_of c buf"
        using next_eq Inr Some by (subst frames_of.simps) simp
      have "drain c h s = drain c h ?t"
        using Some Inr next_eq none by (subst drain.simps) simp
      then obtain b where b: "drain c h s = (fold (on_frame h) (frames_of c buf) ?t)\<lparr>rx_buf := b\<rparr>"
        "\<forall>n. rx_fail (fold (on_frame h) (take n (frames_of c buf)) ?t) = None"
        using 1(1) [OF _ next_eq [symmetric] Inr Some] none 1(2) by auto
      have swap: "on_frame h f (u\<lparr>rx_buf := x\<rparr>) = (on_frame h f u)\<lparr>rx_buf := x\<rparr>" for f u x
        by (simp add: on_frame_def on_header_def on_chunk_def on_end_def write_part_def Let_def check_total_def
            split: frame.splits sum.splits option.splits prod.splits)
      have swaps: "fold (on_frame h) fs (u\<lparr>rx_buf := x\<rparr>) = (fold (on_frame h) fs u)\<lparr>rx_buf := x\<rparr>" for fs u x
        by (induction fs arbitrary: u) (simp_all add: swap)
      have "drain c h s = (fold (on_frame h) (frames_of c (rx_buf s)) s)\<lparr>rx_buf := b\<rparr>"
        using b(1) by (simp add: frames swap swaps)
      moreover have "rx_fail (fold (on_frame h) (take n (frames_of c (rx_buf s))) s) = None" for n
        using b(2) none by (cases n) (simp_all add: frames swap swaps)
      ultimately show ?thesis by blast
    qed
  qed
qed

lemma chunk_write_ok: "snd (chunk_write w content data) \<Longrightarrow> fst (chunk_write w content data) = content @ data"
proof (induction w content data rule: chunk_write.induct)
  case (1 w content data)
  show ?case
  proof (cases "data = []")
    case True
    then show ?thesis by (simp add: chunk_write.simps)
  next
    case False
    then obtain n where n: "w content data = Some (Suc n)"
      using 1(2) by (subst (asm) chunk_write.simps) (auto split: option.splits nat.splits)
    then have "chunk_write w content data = chunk_write w (content @ take (Suc n) data) (drop (Suc n) data)"
      using False by (subst chunk_write.simps) simp
    then show ?thesis using 1(1) [OF False n refl] 1(2) by simp
  qed
qed

fun is_end :: "('v, 'm) frame \<Rightarrow> bool" where
  "is_end (End t c) = True"
| "is_end f = False"

text \<open>
  The state after a run of frames without a failure: nothing yet, or a header and the chunks after it,
  numbered from 1, with their bytes in the part file.
\<close>

definition rx_got :: "('v, 'm, 'r) host \<Rightarrow> directory \<Rightarrow> ('v, 'm) frame list \<Rightarrow> ('v, 'm) rx \<Rightarrow> bool" where
  "rx_got h dir fs s \<longleftrightarrow>
     (rx_header s = None \<and> fs = [] \<and> rx_seq s = 0 \<and> rx_total s = 0 \<and> rx_crc s = crc_init \<and> rx_end s = None \<and>
        rx_part s = None \<and> \<not> rx_writer s \<and> rx_dir s = dir) \<or>
     (\<exists>v m ds. rx_header s = Some (v, m) \<and> filter (\<lambda>f. \<not> is_end f) fs = Header v m # chunk_frames 0 ds \<and>
        rx_seq s = of_nat (length ds) \<and> length (concat ds) \<le> MAX_SNAPSHOT_BYTES \<and>
        rx_total s = of_nat (length (concat ds)) \<and> rx_crc s = crc_update (concat ds) crc_init \<and>
        rx_part s = Some (file_name h m) \<and> rx_writer s \<and> rx_dir s = dir(part_path (file_name h m) \<mapsto> concat ds) \<and>
        filter is_end fs = (case rx_end s of None \<Rightarrow> [] | Some (t, c) \<Rightarrow> [End t c]))"

lemma check_total_iff:
  assumes "n \<le> MAX_SNAPSHOT_BYTES" "k \<le> MAX_CHUNK_BYTES"
  shows "check_total (of_nat n + of_nat k) = Inr u \<longleftrightarrow> n + k \<le> MAX_SNAPSHOT_BYTES"
proof -
  have "n + k < 2 ^ 64" using assms by (simp add: MAX_SNAPSHOT_BYTES_def MAX_CHUNK_BYTES_def)
  then have "unat (of_nat (n + k) :: 64 word) = n + k" by (simp add: unat_of_nat del: of_nat_add)
  then show ?thesis
    using of_nat_not_above(2) [of MAX_SNAPSHOT_BYTES] by (auto simp: check_total_def word_less_nat_alt)
qed

lemma on_frame_got:
  assumes got: "rx_got h dir fs s" and "rx_fail s = None" and ok: "rx_fail (on_frame h f s) = None"
  shows "rx_got h dir (fs @ [f]) (on_frame h f s)"
proof (cases f)
  case (Header v m)
  then show ?thesis
    using got ok unfolding rx_got_def
    by (auto simp: on_frame_def on_header_def Let_def split: if_splits intro!: exI [of _ "[]"])
next
  case (End t c)
  then show ?thesis
  proof -
    have "rx_end s = None" "rx_header s \<noteq> None"
      using ok End by (cases "rx_end s"; auto simp: on_frame_def on_end_def split: if_splits)+
    moreover from this have "on_frame h f s = s\<lparr>rx_end := Some (t, c)\<rparr>"
      using End by (auto simp: on_frame_def on_end_def)
    ultimately show ?thesis using got End unfolding rx_got_def by auto
  qed
next
  case (Chunk seq data)
  have header: "rx_header s \<noteq> None" using ok Chunk by (cases "rx_header s") (simp_all add: on_frame_def on_chunk_def)
  then obtain v m ds where s: "rx_header s = Some (v, m)"
    "filter (\<lambda>f. \<not> is_end f) fs = Header v m # chunk_frames 0 ds" "rx_seq s = of_nat (length ds)"
    "length (concat ds) \<le> MAX_SNAPSHOT_BYTES" "rx_total s = of_nat (length (concat ds))"
    "rx_crc s = crc_update (concat ds) crc_init" "rx_part s = Some (file_name h m)" "rx_writer s"
    "rx_dir s = dir(part_path (file_name h m) \<mapsto> concat ds)"
    "filter is_end fs = (case rx_end s of None \<Rightarrow> [] | Some (t, c) \<Rightarrow> [End t c])"
    using got unfolding rx_got_def by auto
  have data: "data \<noteq> []" "length data \<le> MAX_CHUNK_BYTES" "seq = of_nat (length ds) + 1"
    using ok Chunk header s(3) by (auto simp: on_frame_def on_chunk_def split: if_splits)
  have total: "check_total (of_nat (length (concat ds)) + of_nat (length data)) = Inr ()"
    using ok Chunk data header s(3,5) by (auto simp: on_frame_def on_chunk_def Let_def split: sum.splits if_splits)
  then have fits: "length (concat ds) + length data \<le> MAX_SNAPSHOT_BYTES"
    using check_total_iff [OF s(4) data(2)] by blast
  let ?t = "s\<lparr>rx_seq := seq, rx_total := of_nat (length (concat ds)) + of_nat (length data),
    rx_crc := crc_update data (crc_update (concat ds) crc_init)\<rparr>"
  have on: "on_frame h f s = write_part h data ?t"
    using Chunk data s(1,3,5,6) total by (simp add: on_frame_def on_chunk_def Let_def)
  then have "rx_fail (write_part h data ?t) = None" using ok by simp
  then have "snd (chunk_write (poll_write h) (concat ds) data)"
    using s(7-9) by (auto simp: write_part_def Let_def split: prod.splits if_splits)
  then have "chunk_write (poll_write h) (concat ds) data = (concat ds @ data, True)"
    using chunk_write_ok by (metis prod.collapse)
  then have "on_frame h f s = ?t\<lparr>rx_dir := dir(part_path (file_name h m) \<mapsto> concat ds @ data)\<rparr>"
    using on s(7-9) by (simp add: write_part_def)
  then show ?thesis
    using s data fits Chunk unfolding rx_got_def
    by (intro disjI2 exI [of _ v] exI [of _ m] exI [of _ "ds @ [data]"])
      (simp add: chunk_frames_append crc_update_append ac_simps)
qed

lemma fold_got:
  assumes "\<forall>n. rx_fail (fold (on_frame h) (take n fs) (rx_init dir)) = None"
  shows "rx_got h dir fs (fold (on_frame h) fs (rx_init dir))"
proof -
  have "rx_got h dir (take n fs) (fold (on_frame h) (take n fs) (rx_init dir))" for n
  proof (induction n)
    case 0
    then show ?case by (simp add: rx_got_def rx_init_def)
  next
    case (Suc n)
    show ?case
    proof (cases "n < length fs")
      case True
      then have take_Suc: "take (Suc n) fs = take n fs @ [fs ! n]" by (rule take_Suc_conv_app_nth)
      have "rx_fail (fold (on_frame h) (take n fs) (rx_init dir)) = None"
        "rx_fail (on_frame h (fs ! n) (fold (on_frame h) (take n fs) (rx_init dir))) = None"
        using assms [rule_format, of n] assms [rule_format, of "Suc n"] by (simp_all add: take_Suc)
      then show ?thesis using on_frame_got [OF Suc.IH] by (simp add: take_Suc)
    qed (use Suc in simp)
  qed
  from this [of "length fs"] show ?thesis by simp
qed

lemma rx_got_buf: "rx_got h dir fs (s\<lparr>rx_buf := b\<rparr>) \<longleftrightarrow> rx_got h dir fs s"
  by (simp add: rx_got_def)

lemma parts_got:
  assumes "rx_fail (fold (on_part c h) (map Some ps) (rx_init dir)) = None"
  shows "rx_got h dir (frames_of c (concat ps)) (fold (on_part c h) (map Some ps) (rx_init dir))"
proof -
  let ?s = "(rx_init dir)\<lparr>rx_buf := concat ps\<rparr>"
  have same: "fold (on_part c h) (map Some ps) (rx_init dir) = drain c h ?s"
    using fold_parts assms unfolding same_rx_def by blast
  then obtain b where b: "drain c h ?s = (fold (on_frame h) (frames_of c (concat ps)) ?s)\<lparr>rx_buf := b\<rparr>"
    "\<forall>n. rx_fail (fold (on_frame h) (take n (frames_of c (concat ps))) ?s) = None"
    using drain_frames [of c h ?s] assms by auto
  have swap: "on_frame h f (u\<lparr>rx_buf := x\<rparr>) = (on_frame h f u)\<lparr>rx_buf := x\<rparr>" for f u x
    by (simp add: on_frame_def on_header_def on_chunk_def on_end_def write_part_def Let_def check_total_def
        split: frame.splits sum.splits option.splits prod.splits)
  have swaps: "fold (on_frame h) fs (u\<lparr>rx_buf := x\<rparr>) = (fold (on_frame h) fs u)\<lparr>rx_buf := x\<rparr>" for fs u x
    by (induction fs arbitrary: u) (simp_all add: swap)
  show ?thesis
    unfolding same b(1) swaps rx_got_buf by (rule fold_got) (use b(2) in \<open>simp add: swaps\<close>)
qed

text \<open>
  C24: Only a complete and checked transfer reaches the Raft core: when the handler answers with its
  result, the body held one header, chunks numbered 1, 2, and so on, and one end frame with the
  length and the checksum of the chunks, and the core got exactly the bytes of the chunks.
\<close>
theorem accepted_transfer_is_checked:
  assumes "snd (receive c h dir (map Some ps)) = Inr r"
  shows "\<exists>v m ds. filter (\<lambda>f. \<not> is_end f) (frames_of c (concat ps)) = Header v m # chunk_frames 0 ds \<and>
    filter is_end (frames_of c (concat ps)) = [End (of_nat (length (concat ds))) (crc_of (concat ds))] \<and>
    length (concat ds) \<le> MAX_SNAPSHOT_BYTES \<and> install h v m (concat ds) = Some r"
proof -
  let ?s = "fold (on_part c h) (map Some ps) (rx_init dir)"
  have none: "rx_fail (rx_check ?s) = None"
    using assms by (auto simp: receive_def rx_finish_def Let_def split: option.splits)
  then have none': "rx_fail ?s = None" by (metis rx_check_def)
  obtain len crc where e: "rx_end ?s = Some (len, crc)" "rx_total ?s = len" "crc_finish (rx_crc ?s) = crc"
    using none none' by (auto simp: rx_check_def split: option.splits if_splits)
  then have check: "rx_check ?s = ?s" using none' by (simp add: rx_check_def)
  obtain v m ds where got: "rx_header ?s = Some (v, m)"
    "filter (\<lambda>f. \<not> is_end f) (frames_of c (concat ps)) = Header v m # chunk_frames 0 ds"
    "length (concat ds) \<le> MAX_SNAPSHOT_BYTES" "rx_total ?s = of_nat (length (concat ds))"
    "rx_crc ?s = crc_update (concat ds) crc_init" "rx_part ?s = Some (file_name h m)" "rx_writer ?s"
    "rx_dir ?s = dir(part_path (file_name h m) \<mapsto> concat ds)"
    "filter is_end (frames_of c (concat ps)) = [End len crc]"
    using parts_got [OF none'] e(1) unfolding rx_got_def by auto
  have "install h v m (concat ds) = Some r"
    using assms none' got by (auto simp: receive_def check rx_finish_def Let_def split: if_splits option.splits)
  then show ?thesis using got e by (intro exI [of _ v] exI [of _ m] exI [of _ ds]) (simp add: crc_of_def)
qed

text \<open>
  C26: The memory of the receiver is bounded and its counter does not wrap: after each part, unless the
  transfer has failed, the decoder holds less than one frame of the largest size with its length
  prefix, and the number of bytes accepted is at most the snapshot limit.
\<close>
theorem receiver_bounded:
  fixes c :: "('v, 'm) codec" and h :: "('v, 'm, 'r) host"
  assumes "rx_fail (fold (on_part c h) (map Some ps) (rx_init dir)) = None"
  shows "length (rx_buf (fold (on_part c h) (map Some ps) (rx_init dir))) < 4 + MAX_FRAME_BYTES \<and>
    unat (rx_total (fold (on_part c h) (map Some ps) (rx_init dir))) \<le> MAX_SNAPSHOT_BYTES"
proof
  let ?s = "fold (on_part c h) (map Some ps) (rx_init dir)"
  have "?s = drain c h ((rx_init dir)\<lparr>rx_buf := concat ps\<rparr>)"
    using fold_parts assms unfolding same_rx_def by blast
  then show "length (rx_buf ?s) < 4 + MAX_FRAME_BYTES" using drain_bounded assms by metis
  have "rx_total ?s = 0 \<or> (\<exists>n. n \<le> MAX_SNAPSHOT_BYTES \<and> rx_total ?s = of_nat n)"
    using parts_got [OF assms] unfolding rx_got_def by blast
  then show "unat (rx_total ?s) \<le> MAX_SNAPSHOT_BYTES" using of_nat_not_above(2) by auto
qed

section \<open>What is sent arrives\<close>

text \<open>A host on which every file operation succeeds, whatever the sizes of the single writes.\<close>

definition host_ok :: "('v, 'm, 'r) host \<Rightarrow> bool" where
  "host_ok h \<longleftrightarrow> can_create h \<and> can_flush h \<and> can_rename h \<and>
     (\<forall>content data. data \<noteq> [] \<longrightarrow> (\<exists>n. poll_write h content data = Some (Suc n)))"

lemma chunk_write_all: "host_ok h \<Longrightarrow> chunk_write (poll_write h) content data = (content @ data, True)"
proof (induction "poll_write h" content data rule: chunk_write.induct)
  case (1 content data)
  show ?case
  proof (cases "data = []")
    case True
    then show ?thesis by (simp add: chunk_write.simps)
  next
    case False
    then obtain n where n: "poll_write h content data = Some (Suc n)" using 1(2) by (auto simp: host_ok_def)
    then show ?thesis using 1(1) [OF False n refl 1(2)] False by (subst chunk_write.simps) simp
  qed
qed

lemma next_frame_enc:
  assumes "codec_ok c" "frame_fits c f"
  shows "next_frame c (enc c f @ rest) = (rest, Inr (Some f))"
proof -
  obtain w where w: "de c w = Some f" "length w \<le> MAX_FRAME_BYTES" "enc c f = be32 (of_nat (length w)) @ w"
    by (rule codec_okD [OF assms])
  obtain x0 x1 x2 x3 where b: "be32 (of_nat (length w)) = [x0, x1, x2, x3]" by (simp add: be32_def)
  then have len: "of_be32 x0 x1 x2 x3 = of_nat (length w)" by (rule of_be32_be32)
  have "length w < 2 ^ 32" using w(2) by (simp add: MAX_FRAME_BYTES_def MAX_CHUNK_BYTES_def)
  then have n: "unat (of_nat (length w) :: 32 word) = length w" by (simp add: unat_of_nat)
  then have "\<not> of_nat (length w) > (of_nat MAX_FRAME_BYTES :: 32 word)"
    using w(2) max_frame by (simp add: word_less_nat_alt)
  moreover have "drop (4 + length w) (x0 # x1 # x2 # x3 # w @ rest) = rest" by (simp add: eval_nat_numeral)
  ultimately show ?thesis
    using w(1) n unfolding next_frame_def w(3) b by (simp add: frame_len_def len decode_frame_def Let_def)
qed

lemma drain_enc:
  assumes "codec_ok c" "frame_fits c f" "rx_fail s = None" "rx_buf s = enc c f @ rest"
  shows "drain c h s = drain c h (on_frame h f (s\<lparr>rx_buf := rest\<rparr>))"
  using assms by (subst drain.simps) (simp add: next_frame_enc)

text \<open>The state after the header and the chunks \<open>ds\<close> of a transfer.\<close>

definition rx_mid :: "('v, 'm, 'r) host \<Rightarrow> directory \<Rightarrow> 'v \<Rightarrow> 'm \<Rightarrow> bytes list \<Rightarrow> bytes \<Rightarrow> ('v, 'm) rx" where
  "rx_mid h dir v m ds buf = \<lparr>rx_buf = buf, rx_crc = crc_update (concat ds) crc_init,
     rx_total = of_nat (length (concat ds)), rx_seq = of_nat (length ds), rx_header = Some (v, m), rx_end = None,
     rx_part = Some (file_name h m), rx_writer = True,
     rx_dir = dir(part_path (file_name h m) \<mapsto> concat ds), rx_fail = None\<rparr>"

lemma drain_chunks:
  assumes "codec_ok c" "host_ok h" "\<forall>d \<in> set es. d \<noteq> [] \<and> length d \<le> MAX_CHUNK_BYTES"
    and "length (concat ds) + length (concat es) \<le> MAX_SNAPSHOT_BYTES"
  shows "drain c h (rx_mid h dir v m ds (concat (map (enc c) (chunk_frames (of_nat (length ds)) es)) @ rest)) =
    drain c h (rx_mid h dir v m (ds @ es) rest)"
  using assms
proof (induction es arbitrary: ds)
  case (Cons d es)
  let ?more = "concat (map (enc c) (chunk_frames (of_nat (length (ds @ [d]))) es)) @ rest"
  have total: "check_total (of_nat (length (concat ds)) + of_nat (length d)) = Inr ()"
    using Cons.prems by (subst check_total_iff) auto
  have chunk: "on_frame h (Chunk (of_nat (length ds) + 1) d) (rx_mid h dir v m ds ?more) = rx_mid h dir v m (ds @ [d]) ?more"
    using Cons.prems(2,3) total
    by (simp add: on_frame_def on_chunk_def rx_mid_def Let_def write_part_def chunk_write_all crc_update_append)
  have "drain c h (rx_mid h dir v m ds (concat (map (enc c) (chunk_frames (of_nat (length ds)) (d # es))) @ rest)) =
      drain c h (on_frame h (Chunk (of_nat (length ds) + 1) d) (rx_mid h dir v m ds ?more))"
    by (subst drain_enc [OF Cons.prems(1), of "Chunk (of_nat (length ds) + 1) d" _ ?more])
      (use Cons.prems(3) small_fits [OF Cons.prems(1)] in \<open>simp_all add: rx_mid_def ac_simps\<close>)
  also have "\<dots> = drain c h (rx_mid h dir v m (ds @ [d] @ es) rest)"
    unfolding chunk using Cons.IH [of "ds @ [d]"] Cons.prems by simp
  finally show ?case by simp
qed (simp add: rx_mid_def)

lemma drain_transfer:
  assumes "codec_ok c" "host_ok h" "\<forall>d \<in> set ds. d \<noteq> [] \<and> length d \<le> MAX_CHUNK_BYTES"
    and "length (concat ds) \<le> MAX_SNAPSHOT_BYTES" "frame_fits c (Header v m)"
  shows "drain c h ((rx_init dir)\<lparr>rx_buf := enc c (Header v m) @ concat (map (enc c) (chunk_frames 0 ds)) @
      enc c (End (of_nat (length (concat ds))) (crc_of (concat ds)))\<rparr>) =
    (rx_mid h dir v m ds [])\<lparr>rx_end := Some (of_nat (length (concat ds)), crc_of (concat ds))\<rparr>"
proof -
  let ?last = "End (of_nat (length (concat ds))) (crc_of (concat ds)) :: ('a, 'b) frame"
  let ?chunks = "concat (map (enc c) (chunk_frames 0 ds))"
  have "drain c h ((rx_init dir)\<lparr>rx_buf := enc c (Header v m) @ ?chunks @ enc c ?last\<rparr>) =
      drain c h (on_frame h (Header v m) ((rx_init dir)\<lparr>rx_buf := ?chunks @ enc c ?last\<rparr>))"
    by (subst drain_enc [OF assms(1), of "Header v m"]) (use assms in \<open>simp_all add: rx_init_def\<close>)
  also have "on_frame h (Header v m) ((rx_init dir)\<lparr>rx_buf := ?chunks @ enc c ?last\<rparr>) =
      rx_mid h dir v m [] (?chunks @ enc c ?last)"
    using assms(2) by (simp add: on_frame_def on_header_def rx_init_def rx_mid_def Let_def host_ok_def)
  also have "drain c h \<dots> = drain c h (rx_mid h dir v m ds (enc c ?last))"
    using drain_chunks [OF assms(1-3), of "[]"] assms(4) by simp
  also have "\<dots> = drain c h (on_frame h ?last (rx_mid h dir v m ds []))"
    by (subst drain_enc [OF assms(1), of ?last _ "[]"]) (simp_all add: rx_mid_def small_fits [OF assms(1)])
  also have "\<dots> = (rx_mid h dir v m ds [])\<lparr>rx_end := Some (of_nat (length (concat ds)), crc_of (concat ds))\<rparr>"
    by (subst drain.simps) (simp add: on_frame_def on_end_def rx_mid_def next_frame_def)
  finally show ?thesis .
qed


lemma receive_transfer:
  assumes "codec_ok c" "host_ok h" "\<forall>d \<in> set ds. d \<noteq> [] \<and> length d \<le> MAX_CHUNK_BYTES"
    and "length (concat ds) \<le> MAX_SNAPSHOT_BYTES" "frame_fits c (Header v m)"
    and "concat ps = enc c (Header v m) @ concat (map (enc c) (chunk_frames 0 ds)) @
      enc c (End (of_nat (length (concat ds))) (crc_of (concat ds)))"
  shows "receive c h dir (map Some ps) = (dir(part_path (file_name h m) := None, file_name h m := None),
      case install h v m (concat ds) of None \<Rightarrow> Inl (INTERNAL_SERVER_ERROR, Install_Failed) | Some r \<Rightarrow> Inr r)"
proof -
  let ?t = "(rx_mid h dir v m ds [])\<lparr>rx_end := Some (of_nat (length (concat ds)), crc_of (concat ds))\<rparr>"
  have "drain c h ((rx_init dir)\<lparr>rx_buf := concat ps\<rparr>) = ?t"
    unfolding assms(6) by (rule drain_transfer [OF assms(1-5)])
  moreover have "rx_fail ?t = None" by (simp add: rx_mid_def)
  ultimately have "fold (on_part c h) (map Some ps) (rx_init dir) = ?t"
    using fold_parts [of c h ps dir] same_rx_sym unfolding same_rx_def by metis
  moreover have "rx_check ?t = ?t" by (simp add: rx_check_def rx_mid_def crc_of_def)
  ultimately show ?thesis
    using assms(2) by (simp add: receive_def rx_finish_def rx_mid_def Let_def host_ok_def)
qed

text \<open>
  C25: What the pump sends arrives: for every payload within the limit, however its file is read, however
  the transport cuts the stream, and however the writes at the other end come out, the Raft core of the
  receiver gets the payload with its vote and metadata, and no file is left behind. The metadata are to fit a
  frame; \<open>oversized_header_refused\<close> is the other case.
\<close>
theorem transfer_roundtrip:
  assumes "codec_ok c" "host_ok h" "[] \<notin> set rs" "length (concat rs) \<le> MAX_SNAPSHOT_BYTES"
    and "frame_fits c (Header v m)" "emitter_open c (map Some rs) v m n = Inr e"
    and "concat ps = concat (map the (emit_stream c e))"
  shows "None \<notin> set (emit_stream c e) \<and>
    receive c h dir (map Some ps) = (dir(part_path (file_name h m) := None, file_name h m := None),
      case install h v m (concat rs) of None \<Rightarrow> Inl (INTERNAL_SERVER_ERROR, Install_Failed) | Some r \<Rightarrow> Inr r)"
proof -
  obtain ds where ds: "concat ds = concat rs" "\<forall>d \<in> set ds. d \<noteq> [] \<and> length d \<le> MAX_CHUNK_BYTES"
    "emit_stream c e = map Some (enc c (Header v m) # map (enc c) (chunk_frames 0 ds) @
      [enc c (End (of_nat (length (concat rs))) (crc_of (concat rs)))])"
    using emit_all [OF assms(1,3,4,6)] by blast
  then have "concat ps = enc c (Header v m) @ concat (map (enc c) (chunk_frames 0 ds)) @
      enc c (End (of_nat (length (concat ds))) (crc_of (concat ds)))"
    using assms(7) by (simp add: comp_def)
  from receive_transfer [OF assms(1,2) ds(2) _ assms(5) this] assms(4) ds show ?thesis by auto
qed

text \<open>
  The sender does not compare the header with the limit of a frame. One that is longer is sent and refused, so that
  a snapshot with such metadata never arrives.
\<close>

lemma oversized_header_refused:
  assumes "ser c (Header v m) = Some w" "MAX_FRAME_BYTES < length w" "length w < 2 ^ 32"
    and "emitter_open c (map Some rs) v m n = Inr e" "concat ps = em_header e @ rest"
  shows "snd (receive c h dir (map Some ps)) = Inl (BAD_REQUEST, Protocol (FrameTooLarge (of_nat (length w))))"
proof -
  have header: "em_header e = be32 (of_nat (length w)) @ w"
    using assms(1,4) by (auto simp: emitter_open_def encode_frame_def)
  obtain x0 x1 x2 x3 where b: "be32 (of_nat (length w)) = [x0, x1, x2, x3]" by (simp add: be32_def)
  then have len: "of_be32 x0 x1 x2 x3 = of_nat (length w)" by (rule of_be32_be32)
  have "unat (of_nat (length w) :: 32 word) = length w" using assms(3) by (simp add: unat_of_nat)
  then have "of_nat (length w) > (of_nat MAX_FRAME_BYTES :: 32 word)"
    using assms(2) max_frame by (simp add: word_less_nat_alt)
  then have "next_frame c (concat ps) = ([], Inl (FrameTooLarge (of_nat (length w))))"
    unfolding assms(5) header b by (simp add: next_frame_def frame_len_def len Let_def)
  then have "rx_fail (drain c h ((rx_init dir)\<lparr>rx_buf := concat ps\<rparr>)) = Some (BAD_REQUEST, Protocol (FrameTooLarge (of_nat (length w))))"
    by (subst drain.simps) (simp add: rx_init_def drain.simps)
  then have "rx_fail (fold (on_part c h) (map Some ps) (rx_init dir)) = Some (BAD_REQUEST, Protocol (FrameTooLarge (of_nat (length w))))"
    using same_rx_fail [OF fold_parts [of c h ps dir]] by simp
  then show ?thesis by (simp add: receive_def rx_check_def rx_finish_def Let_def)
qed

section \<open>A sample transfer\<close>

text \<open>A codec that keeps what the code relies on, with metadata of any length: a tag byte and the fields one after the other.\<close>

definition sample_codec :: "(unit, bytes) codec" where
  "sample_codec = \<lparr>ser = (\<lambda>f. case f of
       Header v m \<Rightarrow> Some (1 # m)
     | Chunk s d \<Rightarrow> Some (2 # le_bytes 8 s @ d)
     | End t r \<Rightarrow> Some (3 # le_bytes 8 t @ le_bytes 4 r)),
   de = (\<lambda>b. if b \<noteq> [] \<and> hd b = 1 then Some (Header () (tl b))
     else if length b \<ge> 9 \<and> hd b = 2 then Some (Chunk (of_le_bytes (take 8 (tl b))) (drop 9 b))
     else if length b \<ge> 13 \<and> hd b = 3 then Some (End (of_le_bytes (take 8 (tl b))) (of_le_bytes (drop 9 b)))
     else None)\<rparr>"

definition sample_host :: "(unit, bytes, bytes) host" where
  "sample_host = \<lparr>file_name = (\<lambda>m. ''snap''), can_create = True,
     poll_write = (\<lambda>content data. Some (min 2 (length data))), can_flush = True, can_rename = True,
     install = (\<lambda>v m content. Some content)\<rparr>"

lemma sample_codec_ok: "codec_ok sample_codec"
proof -
  have "de sample_codec w = Some f" if "ser sample_codec f = Some w" for f w
  proof (cases f)
    case (Chunk s d)
    then show ?thesis using that by (auto simp: sample_codec_def)
  next
    case (End t r)
    have "drop 9 (3 # le_bytes 8 t @ le_bytes 4 r) = le_bytes 4 r" by (simp add: eval_nat_numeral)
    then show ?thesis using that End by (auto simp: sample_codec_def)
  qed (use that in \<open>auto simp: sample_codec_def\<close>)
  moreover have "frame_fits sample_codec f" if "small f" for f
    using that by (auto simp: frame_fits_def small_def sample_codec_def MAX_FRAME_BYTES_def split: frame.splits)
  ultimately show ?thesis unfolding codec_ok_def by blast
qed

lemma sample_header_fits: "frame_fits sample_codec (Header () [9])"
  by (simp add: frame_fits_def sample_codec_def MAX_FRAME_BYTES_def)

lemma sample_host_ok: "host_ok sample_host"
proof -
  have "\<exists>n. min 2 (length data) = Suc n" if "data \<noteq> []" for data :: bytes
    using that by (cases data) (auto simp: min_def intro: exI [of _ "length (tl data)"])
  then show ?thesis by (simp add: host_ok_def sample_host_def)
qed

theorem transfer_roundtrip_witness:
  "\<exists>e. emitter_open sample_codec (map Some [[1, 2, 3], [4]]) () [9] 2 = Inr e \<and>
     snd (receive sample_codec sample_host Map.empty (emit_stream sample_codec e)) = Inr [1, 2, 3, 4]"
proof -
  obtain e where e: "emitter_open sample_codec (map Some [[1, 2, 3], [4]]) () [9] 2 = Inr e"
    by (auto simp: emitter_open_def encode_frame_def sample_codec_def)
  let ?ps = "map the (emit_stream sample_codec e)"
  have sent: "None \<notin> set (emit_stream sample_codec e)"
    and got: "snd (receive sample_codec sample_host Map.empty (map Some ?ps)) = Inr [1, 2, 3, 4]"
    using transfer_roundtrip [OF sample_codec_ok sample_host_ok _ _ sample_header_fits e refl, of Map.empty]
    by (simp_all add: MAX_SNAPSHOT_BYTES_def sample_host_def)
  have "map Some ?ps = emit_stream sample_codec e"
    using sent by (simp, intro map_idI) (metis comp_apply option.exhaust_sel)
  then show ?thesis using e got by auto
qed

lemma sample_received:
  "snd (receive sample_codec sample_host Map.empty (map Some [enc sample_codec (Header () [9]) @
     enc sample_codec (Chunk 1 [7]) @ enc sample_codec (End 1 (crc_of [7]))])) = Inr [7]"
  using receive_transfer [OF sample_codec_ok sample_host_ok, of "[[7]]" "()" "[9]"
      "[enc sample_codec (Header () [9]) @ enc sample_codec (Chunk 1 [7]) @ enc sample_codec (End 1 (crc_of [7]))]" Map.empty] sample_header_fits
  by (simp add: MAX_CHUNK_BYTES_def MAX_SNAPSHOT_BYTES_def sample_host_def)

theorem accepted_transfer_is_checked_witness:
  "\<exists>v m ds. install sample_host v m (concat ds) = Some [7] \<and> length (concat ds) \<le> MAX_SNAPSHOT_BYTES"
  using accepted_transfer_is_checked [OF sample_received] by blast

theorem receiver_bounded_witness:
  "length (rx_buf (fold (on_part sample_codec sample_host) (map Some [[0, 0, 1]]) (rx_init Map.empty))) < 4 + MAX_FRAME_BYTES"
proof -
  have "rx_fail (fold (on_part sample_codec sample_host) (map Some [[0, 0, 1]]) (rx_init Map.empty)) = None"
    by (simp add: on_part_def rx_init_def drain.simps next_frame_def)
  from receiver_bounded [OF this] show ?thesis by blast
qed

section \<open>Chunks after the end frame\<close>

text \<open>
  The documentation of the handler has the end frame last. The code does not ask for it: a chunk after the
  end frame is taken like any other, and counts for the length and the checksum.
\<close>

lemma end_before_chunk_accepted:
  assumes "codec_ok c" "host_ok h" "d \<noteq> []" "length d \<le> MAX_CHUNK_BYTES" "install h v m d = Some r"
    and "frame_fits c (Header v m)"
  shows "snd (receive c h dir (map Some
    [enc c (Header v m) @ enc c (End (of_nat (length d)) (crc_of d)) @ enc c (Chunk 1 d)])) = Inr r"
proof -
  let ?last = "End (of_nat (length d)) (crc_of d) :: ('a, 'b) frame"
  let ?s = "\<lambda>b. (rx_mid h dir v m [] b)\<lparr>rx_end := Some (of_nat (length d), crc_of d)\<rparr>"
  let ?t = "(rx_mid h dir v m [d] [])\<lparr>rx_end := Some (of_nat (length d), crc_of d)\<rparr>"
  let ?body = "enc c (Header v m) @ enc c ?last @ enc c (Chunk 1 d)"
  have total: "check_total (of_nat (length d)) = Inr ()"
    using check_total_iff [of 0 "length d"] assms(4) by (simp add: MAX_SNAPSHOT_BYTES_def MAX_CHUNK_BYTES_def)
  have "drain c h ((rx_init dir)\<lparr>rx_buf := ?body\<rparr>) =
      drain c h (on_frame h (Header v m) ((rx_init dir)\<lparr>rx_buf := enc c ?last @ enc c (Chunk 1 d)\<rparr>))"
    by (subst drain_enc [OF assms(1), of "Header v m"]) (use assms in \<open>simp_all add: rx_init_def\<close>)
  also have "on_frame h (Header v m) ((rx_init dir)\<lparr>rx_buf := enc c ?last @ enc c (Chunk 1 d)\<rparr>) =
      rx_mid h dir v m [] (enc c ?last @ enc c (Chunk 1 d))"
    using assms(2) by (simp add: on_frame_def on_header_def rx_init_def rx_mid_def Let_def host_ok_def)
  also have "drain c h \<dots> = drain c h (on_frame h ?last (rx_mid h dir v m [] (enc c (Chunk 1 d))))"
    by (subst drain_enc [OF assms(1), of ?last]) (simp_all add: rx_mid_def small_fits [OF assms(1)])
  also have "on_frame h ?last (rx_mid h dir v m [] (enc c (Chunk 1 d))) = ?s (enc c (Chunk 1 d) @ [])"
    by (simp add: on_frame_def on_end_def rx_mid_def)
  also have "drain c h (?s (enc c (Chunk 1 d) @ [])) = drain c h (on_frame h (Chunk 1 d) (?s []))"
    by (subst drain_enc [OF assms(1), of "Chunk 1 d"]) (use assms(4) in \<open>simp_all add: rx_mid_def small_fits [OF assms(1)]\<close>)
  also have "on_frame h (Chunk 1 d) (?s []) = ?t"
    using assms(2-4) total
    by (simp add: on_frame_def on_chunk_def rx_mid_def Let_def write_part_def chunk_write_all)
  also have "drain c h ?t = ?t" by (subst drain.simps) (simp add: rx_mid_def next_frame_def)
  finally have "fold (on_part c h) (map Some [?body]) (rx_init dir) = ?t"
    by (simp add: on_part_def rx_init_def)
  moreover have "rx_check ?t = ?t" by (simp add: rx_check_def rx_mid_def crc_of_def)
  ultimately show ?thesis
    using assms(2,5) by (simp add: receive_def rx_finish_def rx_mid_def Let_def host_ok_def)
qed

end
