(* ===== verification/Account_Inv.thy ===== *)
theory Account_Inv
  imports Reach
begin

text \<open>
  Invariants of accounts, sessions, tokens and the audit log over the reachable states: a name
  belongs to one kind of administrator, nobody has a session without an account, a project has no
  two tokens of the same name, and the audit log only grows at its end.
\<close>

section \<open>Accounts and sessions\<close>

definition has_pa :: "sval mem_store \<Rightarrow> string \<Rightarrow> bool" where
  "has_pa m u \<longleftrightarrow> bm_get m (project_admin_key u) \<noteq> None"

definition has_ga :: "sval mem_store \<Rightarrow> string \<Rightarrow> bool" where
  "has_ga m u \<longleftrightarrow> bm_get m (global_admin_key u) \<noteq> None"

definition pa_online :: "sval mem_store \<Rightarrow> string \<Rightarrow> bool" where
  "pa_online m u \<longleftrightarrow> (\<exists>k. pa_session_area u k \<and> bm_get m k \<noteq> None)"

definition ga_online :: "sval mem_store \<Rightarrow> string \<Rightarrow> bool" where
  "ga_online m u \<longleftrightarrow> (\<exists>k. ga_session_area u k \<and> bm_get m k \<noteq> None)"

definition acct_inv :: "sval mem_store \<Rightarrow> bool" where
  "acct_inv m \<longleftrightarrow> (\<forall>u w. has_pa m u \<longrightarrow> has_ga m w \<longrightarrow> \<not> eq_ignore_ascii_case u w) \<and>
     (\<forall>u. slash_free u \<longrightarrow> pa_online m u \<longrightarrow> has_pa m u) \<and>
     (\<forall>u. slash_free u \<longrightarrow> ga_online m u \<longrightarrow> has_ga m u)"

definition acct_dom :: "string \<Rightarrow> bool" where
  "acct_dom k \<longleftrightarrow> starts_with k ''adm/'' \<or> starts_with k ''sess/pa/'' \<or> starts_with k ''sess/ga/''"

lemma acct_dom_keys:
  "acct_dom (project_admin_key u)" "acct_dom (global_admin_key u)"
  "pa_session_area u k \<Longrightarrow> acct_dom k" "ga_session_area u k \<Longrightarrow> acct_dom k"
  by (auto simp: acct_dom_def pa_session_area_def ga_session_area_def key_defs starts_with_iff)

lemma session_owner:
  "slash_free u \<Longrightarrow> slash_free w \<Longrightarrow> pa_session_area u k \<Longrightarrow> pa_session_area w k \<Longrightarrow> u = w"
  "slash_free u \<Longrightarrow> slash_free w \<Longrightarrow> ga_session_area u k \<Longrightarrow> ga_session_area w k \<Longrightarrow> u = w"
proof -
  have eq: "u @ CHR ''/'' # x = w @ CHR ''/'' # y \<Longrightarrow> slash_free u \<Longrightarrow> slash_free w \<Longrightarrow> u = w" for x y
    by (metis segs_sep list.inject)
  have no: "u @ CHR ''/'' # x = w \<Longrightarrow> slash_free w \<Longrightarrow> False" for u w x :: string
    by auto
  show "slash_free u \<Longrightarrow> slash_free w \<Longrightarrow> pa_session_area u k \<Longrightarrow> pa_session_area w k \<Longrightarrow> u = w"
    using eq no no [OF sym] by (auto simp: pa_session_area_def key_defs starts_with_iff)
  show "slash_free u \<Longrightarrow> slash_free w \<Longrightarrow> ga_session_area u k \<Longrightarrow> ga_session_area w k \<Longrightarrow> u = w"
    using eq by (auto simp: ga_session_area_def key_defs starts_with_iff)
qed

text \<open>Nothing new, and no account goes without its sessions.\<close>

lemma acct_inv_shrink:
  assumes "acct_inv m" "\<And>k. acct_dom k \<Longrightarrow> bm_get n k \<noteq> None \<Longrightarrow> bm_get m k \<noteq> None"
    and "\<And>u. slash_free u \<Longrightarrow> has_pa m u \<Longrightarrow> \<not> has_pa n u \<Longrightarrow> \<not> pa_online n u"
    and "\<And>u. slash_free u \<Longrightarrow> has_ga m u \<Longrightarrow> \<not> has_ga n u \<Longrightarrow> \<not> ga_online n u"
  shows "acct_inv n"
proof -
  have "has_pa n u \<Longrightarrow> has_pa m u" "has_ga n u \<Longrightarrow> has_ga m u"
    "pa_online n u \<Longrightarrow> pa_online m u" "ga_online n u \<Longrightarrow> ga_online m u" for u
    using assms(2) acct_dom_keys unfolding has_pa_def has_ga_def pa_online_def ga_online_def by meson+
  then show ?thesis using assms(1,3,4) unfolding acct_inv_def by metis
qed

lemma acct_inv_same:
  assumes "acct_inv m" "\<And>k. acct_dom k \<Longrightarrow> bm_get n k = bm_get m k"
  shows "acct_inv n"
proof -
  have "has_pa n u = has_pa m u" "has_ga n u = has_ga m u" for u
    using assms(2) acct_dom_keys by (simp_all add: has_pa_def has_ga_def)
  then show ?thesis using assms by (intro acct_inv_shrink [OF assms(1)]) auto
qed

lemma account_keys:
  "project_admin_key u \<noteq> global_admin_key w" "\<not> pa_session_area u (global_admin_key w)"
  "\<not> ga_session_area u (project_admin_key w)" "pa_session_area u k \<Longrightarrow> \<not> ga_session_area w k"
  by (auto simp: pa_session_area_def ga_session_area_def key_defs starts_with_iff)

lemma account_key_inject [simp]:
  "project_admin_key u = project_admin_key w \<longleftrightarrow> u = w" "global_admin_key u = global_admin_key w \<longleftrightarrow> u = w"
  by (simp_all add: key_defs)

text \<open>A session of an account that exists.\<close>

lemma acct_inv_login:
  assumes "acct_inv m" "slash_free u"
  shows "pa_session_area u k \<Longrightarrow> has_pa m u \<Longrightarrow> acct_inv (bm_insert k v m)"
    and "ga_session_area u k \<Longrightarrow> has_ga m u \<Longrightarrow> acct_inv (bm_insert k v m)"
proof -
  let ?n = "bm_insert k v m"
  {
    assume k: "pa_session_area u k" "has_pa m u"
    have "has_pa ?n w = has_pa m w" "has_ga ?n w = has_ga m w" "ga_online ?n w = ga_online m w" for w
      using k(1) account_not_session(1) account_keys unfolding has_pa_def has_ga_def ga_online_def
      by (auto simp del: not_None_eq) (metis option.distinct(1))
    moreover have "pa_online m w \<or> w = u" if "pa_online ?n w" "slash_free w" for w
      using that k(1) session_owner(1) [OF assms(2) that(2)] unfolding pa_online_def by (metis bm_get_insert)
    ultimately show "acct_inv ?n" using assms(1) k(2) unfolding acct_inv_def by metis
  next
    assume k: "ga_session_area u k" "has_ga m u"
    have "has_pa ?n w = has_pa m w" "has_ga ?n w = has_ga m w" "pa_online ?n w = pa_online m w" for w
      using k(1) account_not_session(2) account_keys unfolding has_pa_def has_ga_def pa_online_def
      by (auto simp del: not_None_eq) (metis option.distinct(1))
    moreover have "ga_online m w \<or> w = u" if "ga_online ?n w" "slash_free w" for w
      using that k(1) session_owner(2) [OF assms(2) that(2)] unfolding ga_online_def by (metis bm_get_insert)
    ultimately show "acct_inv ?n" using assms(1) k(2) unfolding acct_inv_def by metis
  }
qed

section \<open>The commands on accounts\<close>

text \<open>The commands that leave accounts and their sessions alone.\<close>

fun outside_accounts :: "command \<Rightarrow> bool" where
  "outside_accounts (ProjectDelete _ _) = False"
| "outside_accounts (ProjectAdminCreate _ _ _ _ _) = False"
| "outside_accounts (ProjectAdminDelete _) = False"
| "outside_accounts (ProjectAdminSetPassword _ _ _) = False"
| "outside_accounts (PaSessionLogin _ _ _ _ _) = False"
| "outside_accounts (PaSessionLogout _) = False"
| "outside_accounts (PaSessionHeartbeat _ _) = False"
| "outside_accounts (MultiPaSessionLogin _ _ _ _ _ _) = False"
| "outside_accounts (MultiPaSessionLogout _ _) = False"
| "outside_accounts (MultiPaSessionHeartbeat _ _ _) = False"
| "outside_accounts (MultiPaSessionLogoutAll _) = False"
| "outside_accounts (GlobalAdminCreate _ _ _ _) = False"
| "outside_accounts (GlobalAdminDelete _) = False"
| "outside_accounts (GlobalAdminSetPassword _ _ _) = False"
| "outside_accounts (MultiGaSessionLogin _ _ _ _ _ _) = False"
| "outside_accounts (MultiGaSessionLogout _ _) = False"
| "outside_accounts (MultiGaSessionHeartbeat _ _ _) = False"
| "outside_accounts (MultiGaSessionLogoutAll _) = False"
| "outside_accounts GlobalAdminSessionsRevokeAll = False"
| "outside_accounts _ = True"

lemma areas_not_accounts:
  "admin_area k \<Longrightarrow> \<not> acct_dom k" "token_area k \<Longrightarrow> \<not> acct_dom k" "audit_area k \<Longrightarrow> \<not> acct_dom k"
  "shared_area k \<Longrightarrow> \<not> acct_dom k" "starts_with k K_PROJECT \<Longrightarrow> \<not> acct_dom k"
  by (auto simp: acct_dom_def admin_area_def token_area_def audit_area_def shared_area_def key_defs starts_with_iff)

lemma project_area_dirs: "project_area p k \<Longrightarrow> starts_with k K_PROJECT \<or> k = idx_pname p"
proof -
  assume "project_area p k"
  then consider "k = project_key p" | "k = idx_pname p" | "in_dir [''p'', p] k" by (auto simp: project_area_def)
  then show ?thesis
  proof cases
    case 1
    then show ?thesis by (simp add: project_key_def)
  next
    case 3
    then show ?thesis using in_dir_prefix [of "[''p'']" "[p]" k] by (simp add: scan_dirs(1))
  qed simp
qed

lemma areas_not_accounts':
  "project_area p k \<Longrightarrow> \<not> acct_dom k" "branch_area p b k \<Longrightarrow> \<not> acct_dom k"
  "shared_publish_area k \<Longrightarrow> \<not> acct_dom k" "starts_with k (branch_prefix p b) \<Longrightarrow> \<not> acct_dom k"
proof -
  have idx: "\<not> acct_dom (idx_pname p)" for p by (simp add: acct_dom_def key_defs)
  show pa: "project_area p k \<Longrightarrow> \<not> acct_dom k" for p
    using project_area_dirs idx areas_not_accounts(5) by blast
  show "branch_area p b k \<Longrightarrow> \<not> acct_dom k" using pa branch_area_project by blast
  show "shared_publish_area k \<Longrightarrow> \<not> acct_dom k"
    using areas_not_accounts(4,5) by (auto dest!: shared_publish_area_cases)
  show "starts_with k (branch_prefix p b) \<Longrightarrow> \<not> acct_dom k"
    using areas_not_accounts(5) by (auto simp: branch_prefix_def starts_with_iff)
qed

lemma outside_accounts_area: "outside_accounts c \<Longrightarrow> cmd_area s c k \<Longrightarrow> \<not> acct_dom k"
  by (cases c) (auto dest: areas_not_accounts areas_not_accounts')

text \<open>A name that is taken under some spelling is found by the scan.\<close>

lemma username_taken_iff:
  "username_taken q s u \<longleftrightarrow> (\<exists>w. bm_get (view s) (q @ w) \<noteq> None \<and> eq_ignore_ascii_case w u)"
proof -
  have "username_taken q s u \<longleftrightarrow> (\<exists>k v. (k, v) \<in> set (get_prefix_merged s q) \<and>
      (\<exists>w. strip_prefix q k = Some w \<and> eq_ignore_ascii_case w u))"
    unfolding username_taken_def list_ex_iff by (fastforce split: option.splits)
  also have "\<dots> \<longleftrightarrow> (\<exists>k v. bm_get (view s) k = Some v \<and> (\<exists>w. k = q @ w \<and> eq_ignore_ascii_case w u))"
    by (auto simp: get_prefix_merged_view in_ms_get_prefix strip_prefix_def starts_with_iff)
  finally show ?thesis by auto
qed

lemma taken_has:
  "project_admin_username_taken s u \<longleftrightarrow> (\<exists>w. has_pa (view s) w \<and> eq_ignore_ascii_case w u)"
  "global_admin_username_taken s u \<longleftrightarrow> (\<exists>w. has_ga (view s) w \<and> eq_ignore_ascii_case w u)"
  by (simp_all add: project_admin_username_taken_def global_admin_username_taken_def username_taken_iff
      has_pa_def has_ga_def project_admin_key_def global_admin_key_def)

lemma eq_ignore_sym: "eq_ignore_ascii_case a b \<longleftrightarrow> eq_ignore_ascii_case b a"
  by (auto simp: eq_ignore_ascii_case_def)

lemma acct_inv_create:
  assumes "acct_inv m"
  shows "(\<forall>w. has_ga m w \<longrightarrow> \<not> eq_ignore_ascii_case u w) \<Longrightarrow> acct_inv (bm_insert (project_admin_key u) v m)"
    and "(\<forall>w. has_pa m w \<longrightarrow> \<not> eq_ignore_ascii_case w u) \<Longrightarrow> acct_inv (bm_insert (global_admin_key u) v m)"
proof -
  let ?n = "bm_insert (project_admin_key u) v m" and ?g = "bm_insert (global_admin_key u) v m"
  have "has_pa ?n w \<longleftrightarrow> has_pa m w \<or> w = u" "has_ga ?n w = has_ga m w"
    "has_ga ?g w \<longleftrightarrow> has_ga m w \<or> w = u" "has_pa ?g w = has_pa m w" for w
    using account_keys(1) account_keys(1) [symmetric] by (auto simp: has_pa_def has_ga_def)
  moreover have "pa_online ?n w = pa_online m w" "ga_online ?n w = ga_online m w"
    "pa_online ?g w = pa_online m w" "ga_online ?g w = ga_online m w" for w
    using account_not_session account_keys unfolding pa_online_def ga_online_def by (metis bm_get_insert)+
  ultimately show "(\<forall>w. has_ga m w \<longrightarrow> \<not> eq_ignore_ascii_case u w) \<Longrightarrow> acct_inv ?n"
    "(\<forall>w. has_pa m w \<longrightarrow> \<not> eq_ignore_ascii_case w u) \<Longrightarrow> acct_inv ?g"
    using assms unfolding acct_inv_def by metis+
qed

text \<open>Dropping sessions, dropping an account with its sessions, and rewriting what is there.\<close>

lemma acct_inv_drop:
  assumes "acct_inv m" "\<And>k. bm_get n k = (if P k then None else bm_get m k)"
    and "\<And>u. has_pa m u \<Longrightarrow> P (project_admin_key u) \<Longrightarrow> \<forall>k. pa_session_area u k \<longrightarrow> P k"
    and "\<And>u. has_ga m u \<Longrightarrow> P (global_admin_key u) \<Longrightarrow> \<forall>k. ga_session_area u k \<longrightarrow> P k"
  shows "acct_inv n"
proof (rule acct_inv_shrink [OF assms(1)])
  show "bm_get n k \<noteq> None \<Longrightarrow> bm_get m k \<noteq> None" for k by (simp add: assms(2) split: if_splits)
  show "has_pa m u \<Longrightarrow> \<not> has_pa n u \<Longrightarrow> \<not> pa_online n u" for u
    using assms(3) [of u] unfolding has_pa_def pa_online_def assms(2) by (metis (full_types))
  show "has_ga m u \<Longrightarrow> \<not> has_ga n u \<Longrightarrow> \<not> ga_online n u" for u
    using assms(4) [of u] unfolding has_ga_def ga_online_def assms(2) by (metis (full_types))
qed

lemma acct_inv_rewrite:
  assumes "acct_inv m" "bm_get m k \<noteq> None"
  shows "acct_inv (bm_insert k v m)"
proof -
  have "bm_get (bm_insert k v m) x \<noteq> None \<longleftrightarrow> bm_get m x \<noteq> None" for x using assms(2) by auto
  then show ?thesis
    using assms(1) unfolding acct_inv_def has_pa_def has_ga_def pa_online_def ga_online_def by metis
qed

lemma session_inserts:
  assumes "acct_inv m" "store_wf m"
  shows "bm_get m (project_admin_key u) = Some (SPa a) \<Longrightarrow> acct_inv (bm_insert (pa_session_key_with u sid) v m)"
    "bm_get m (project_admin_key u) = Some (SPa a) \<Longrightarrow> acct_inv (bm_insert (pa_session_key u) v m)"
    "bm_get m (global_admin_key u) = Some (SGa g) \<Longrightarrow> acct_inv (bm_insert (ga_session_key_with u sid) v m)"
proof -
  have pa: "slash_free u" if "bm_get m (project_admin_key u) = Some (SPa a)"
    using store_wf_get [OF assms(2) that] entry_ok_pa by blast
  have ga: "slash_free u" if "bm_get m (global_admin_key u) = Some (SGa g)"
    using store_wf_get [OF assms(2) that] entry_ok_ga by blast
  show "bm_get m (project_admin_key u) = Some (SPa a) \<Longrightarrow> acct_inv (bm_insert (pa_session_key_with u sid) v m)"
    "bm_get m (project_admin_key u) = Some (SPa a) \<Longrightarrow> acct_inv (bm_insert (pa_session_key u) v m)"
    by (rule acct_inv_login(1) [OF assms(1) pa]; simp add: areas has_pa_def)+
  show "bm_get m (global_admin_key u) = Some (SGa g) \<Longrightarrow> acct_inv (bm_insert (ga_session_key_with u sid) v m)"
    by (rule acct_inv_login(2) [OF assms(1) ga]; simp add: areas has_ga_def)
qed

lemma heartbeat_acct: "heartbeat k e s = Inr (t, ev) \<Longrightarrow> acct_inv (view s) \<Longrightarrow> acct_inv (view t)"
  by (auto simp: heartbeat_def load_merged_Some intro!: acct_inv_rewrite)

lemma acct_inv_remove_session:
  assumes "acct_inv m" "\<And>u. k \<noteq> project_admin_key u" "\<And>u. k \<noteq> global_admin_key u"
  shows "acct_inv (bm_remove k m)"
  using assms(2,3) by (intro acct_inv_drop [OF assms(1), where P = "\<lambda>x. x = k"]) (auto dest: sym)

lemma session_not_account:
  "pa_session_key u \<noteq> project_admin_key w" "pa_session_key u \<noteq> global_admin_key w"
  "pa_session_key_with u sid \<noteq> project_admin_key w" "pa_session_key_with u sid \<noteq> global_admin_key w"
  "ga_session_key_with u sid \<noteq> project_admin_key w" "ga_session_key_with u sid \<noteq> global_admin_key w"
  by (simp_all add: key_defs)

text \<open>Deleting sessions only.\<close>

lemma acct_inv_logout:
  assumes "acct_inv m" "\<And>k. bm_get n k = (if P k then None else bm_get m k)"
    and "\<And>u. \<not> P (project_admin_key u)" "\<And>u. \<not> P (global_admin_key u)"
  shows "acct_inv n"
  using assms(3,4) by (intro acct_inv_drop [OF assms(1,2)]) auto

lemma delete_sessions_acct:
  "acct_inv (view s) \<Longrightarrow> acct_inv (view (delete_all_pa_sessions u s))"
  "acct_inv (view s) \<Longrightarrow> acct_inv (view (delete_all_ga_sessions u s))"
proof -
  assume inv: "acct_inv (view s)"
  show "acct_inv (view (delete_all_pa_sessions u s))"
    using account_not_session(1) account_keys(2) by (intro acct_inv_logout [OF inv view_delete_pa_sessions])
  show "acct_inv (view (delete_all_ga_sessions u s))"
    using account_not_session(2) account_keys(3) by (intro acct_inv_logout [OF inv view_delete_ga_sessions])
qed

lemma revoke_all_acct:
  "acct_inv (view s) \<Longrightarrow> acct_inv (view (fold (\<lambda>(k, v) t. case strip_prefix K_GA_ACCOUNT k of
      None \<Rightarrow> t | Some u \<Rightarrow> delete_all_ga_sessions u t) rows s))"
  by (induction rows arbitrary: s) (auto simp: delete_sessions_acct split: option.splits)

lemma delete_account_acct:
  assumes "acct_inv (view s)"
  shows "acct_inv (view (delete_pending (project_admin_key u) (delete_all_pa_sessions u s)))"
    and "acct_inv (view (delete_all_ga_sessions u (delete_pending (global_admin_key u) s)))"
proof -
  show "acct_inv (view (delete_pending (project_admin_key u) (delete_all_pa_sessions u s)))"
  proof (rule acct_inv_drop [OF assms, where P = "pa_area u"])
    show "has_pa (view s) w \<Longrightarrow> pa_area u (project_admin_key w) \<Longrightarrow> \<forall>k. pa_session_area w k \<longrightarrow> pa_area u k" for w
      using account_not_session(1) by (auto simp: pa_area_def)
    show "has_ga (view s) w \<Longrightarrow> pa_area u (global_admin_key w) \<Longrightarrow> \<forall>k. ga_session_area w k \<longrightarrow> pa_area u k" for w
      using account_keys by (metis pa_area_def)
  qed (simp add: view_delete_pa_sessions pa_area_def)
  show "acct_inv (view (delete_all_ga_sessions u (delete_pending (global_admin_key u) s)))"
  proof (rule acct_inv_drop [OF assms, where P = "ga_area u"])
    show "has_ga (view s) w \<Longrightarrow> ga_area u (global_admin_key w) \<Longrightarrow> \<forall>k. ga_session_area w k \<longrightarrow> ga_area u k" for w
      using account_not_session(2) by (auto simp: ga_area_def)
    show "has_pa (view s) w \<Longrightarrow> ga_area u (project_admin_key w) \<Longrightarrow> \<forall>k. pa_session_area w k \<longrightarrow> ga_area u k" for w
      using account_keys by (metis ga_area_def)
  qed (simp add: view_delete_ga_sessions ga_area_def)
qed

lemma project_delete_acct:
  assumes "apply_project_delete p s = Inr (t, ev)" "sm_pending s = []" "store_wf (view s)" "acct_inv (view s)"
  shows "acct_inv (view t)"
proof (rule acct_inv_drop [OF assms(4) project_delete_view [OF assms(1-3)]])
  have outside: "\<not> starts_with k (project_key p) \<and> k \<noteq> idx_pname p \<and> \<not> token_area k" if "acct_dom k" for k
    using that areas_not_accounts(2,5) by (auto simp: project_key_def starts_with_iff acct_dom_def key_defs)
  show "\<forall>k. pa_session_area u k \<longrightarrow> project_delete_area s p k"
    if "project_delete_area s p (project_admin_key u)" for u
  proof -
    have "\<exists>a \<in> set (list_project_admins s p). pa_area (pa_username a) (project_admin_key u)"
      using that outside [OF acct_dom_keys(1)] unfolding project_delete_area_def by blast
    then obtain a where a: "a \<in> set (list_project_admins s p)" "pa_area (pa_username a) (project_admin_key u)" ..
    then have "pa_username a = u" using account_not_session(1) by (auto simp: pa_area_def)
    then show ?thesis using a unfolding project_delete_area_def pa_area_def by blast
  qed
  show "\<forall>k. ga_session_area u k \<longrightarrow> project_delete_area s p k"
    if "project_delete_area s p (global_admin_key u)" for u
    using that outside [OF acct_dom_keys(2)] account_keys unfolding project_delete_area_def pa_area_def by metis
qed

lemma command_acct:
  assumes "apply_inner E c now s = (t, Inr ev)" "store_wf (view s)" "sm_pending s = []" "cmd_ok c"
    and "acct_inv (view s)"
  shows "acct_inv (view t)"
proof (cases "outside_accounts c")
  case True
  have "edits (cmd_area s c) s t" using apply_inner_edits assms(1-4) by blast
  then show ?thesis
    using edits_frame outside_accounts_area [OF True] by (intro acct_inv_same [OF assms(5)]) blast
next
  case False
  note read = load_start [OF assms(3)] load_merged_Some load_merged_None get_project_admin_def get_global_admin_def
  have pa_new: "acct_inv (bm_insert (project_admin_key u) v (view s))" if "\<not> global_admin_username_taken s u" for u v
    using that taken_has(2) [of s u] eq_ignore_sym by (intro acct_inv_create(1) [OF assms(5)]) blast
  have ga_new: "acct_inv (bm_insert (global_admin_key u) v (view s))" if "\<not> project_admin_username_taken s u" for u v
    using that taken_has(1) [of s u] by (intro acct_inv_create(2) [OF assms(5)]) blast
  show ?thesis
  proof (cases c)
    case (ProjectDelete p op)
    then show ?thesis using assms(1) project_delete_acct [OF _ assms(3,2,5)] by simp
  next
    case (ProjectAdminCreate p u salt ph ts)
    then show ?thesis using assms(1) by (auto simp: apply_project_admin_create_def read pa_new split: if_splits)
  next
    case (ProjectAdminDelete u)
    then show ?thesis
      using assms(1) delete_account_acct(1) [OF assms(5)]
      by (auto simp: apply_project_admin_delete_def read simp del: view_delete)
  next
    case (ProjectAdminSetPassword u salt ph)
    then show ?thesis
      using assms(1,5)
      by (auto simp: apply_project_admin_set_password_def read intro!: delete_sessions_acct acct_inv_rewrite)
  next
    case (PaSessionLogin u h i e d)
    then show ?thesis
      using assms(1) by (auto simp: apply_pa_session_login_def read intro!: session_inserts(2) [OF assms(5,2)] split: if_splits)
  next
    case (PaSessionLogout u)
    then show ?thesis
      using assms(1,5) session_not_account
      by (auto simp: apply_pa_session_logout_def intro!: acct_inv_remove_session)
  next
    case (PaSessionHeartbeat u e)
    then show ?thesis
      using assms(1,5) by (auto simp: apply_pa_session_heartbeat_def read intro!: acct_inv_rewrite)
  next
    case (MultiPaSessionLogin u h i e d sid)
    then show ?thesis
      using assms(1) by (auto simp: apply_multi_pa_session_login_def read intro: session_inserts(1) [OF assms(5,2)])
  next
    case (MultiPaSessionLogout u sid)
    then show ?thesis
      using assms(1,5) session_not_account
      by (auto simp: apply_multi_pa_session_logout_def intro!: acct_inv_remove_session)
  next
    case (MultiPaSessionHeartbeat u sid e)
    then show ?thesis
      using assms(1,5) heartbeat_acct by (simp add: apply_multi_pa_session_heartbeat_def)
  next
    case (MultiPaSessionLogoutAll u)
    then show ?thesis
      using assms(1,5) by (simp add: apply_multi_pa_session_logout_all_def delete_sessions_acct)
  next
    case (GlobalAdminCreate u salt ph ts)
    then show ?thesis using assms(1) by (auto simp: apply_global_admin_create_def read ga_new split: if_splits)
  next
    case (GlobalAdminDelete u)
    then show ?thesis
      using assms(1) delete_account_acct(2) [OF assms(5)]
      by (auto simp: apply_global_admin_delete_def read simp del: view_delete)
  next
    case (GlobalAdminSetPassword u salt ph)
    then show ?thesis
      using assms(1,5)
      by (auto simp: apply_global_admin_set_password_def read intro!: delete_sessions_acct acct_inv_rewrite)
  next
    case (MultiGaSessionLogin u h i e d sid)
    then show ?thesis
      using assms(1) by (auto simp: apply_multi_ga_session_login_def read intro: session_inserts(3) [OF assms(5,2)])
  next
    case (MultiGaSessionLogout u sid)
    then show ?thesis
      using assms(1,5) session_not_account
      by (auto simp: apply_multi_ga_session_logout_def intro!: acct_inv_remove_session)
  next
    case (MultiGaSessionHeartbeat u sid e)
    then show ?thesis
      using assms(1,5) heartbeat_acct by (simp add: apply_multi_ga_session_heartbeat_def)
  next
    case (MultiGaSessionLogoutAll u)
    then show ?thesis
      using assms(1,5) by (simp add: apply_multi_ga_session_logout_all_def delete_sessions_acct)
  next
    case GlobalAdminSessionsRevokeAll
    then show ?thesis
      using assms(1,5) by (simp add: apply_global_admin_sessions_revoke_all_def revoke_all_acct)
  qed (use False in simp_all)
qed

section \<open>Invariants of records outside the projects\<close>

lemma fold_drop_version_other:
  assumes "sm_pending s = []" "\<not> starts_with k K_PROJECT"
  shows "bm_get (view (fold (\<lambda>r. drop_version p b (vr_no r)) rs s)) k = bm_get (view s) k"
  unfolding drop_versions_get [OF assms(1)] using assms(2) by (auto simp: key_defs)

lemma prune_versions_other:
  assumes "prune_versions p b keep s = Inr (n, t)" "sm_pending s = []" "\<not> starts_with k K_PROJECT"
  shows "bm_get (view t) k = bm_get (view s) k"
  using assms by (auto simp: prune_versions_def Let_def fold_drop_version_other split: if_splits)

text \<open>
  An invariant that depends on keys outside the projects and the shared drafts, holds of the empty
  store, and survives every operation and the loss of old audit entries, holds in every reachable
  state.
\<close>

locale side_invariant =
  fixes I :: "sval mem_store \<Rightarrow> bool" and D :: "string \<Rightarrow> bool"
  assumes start: "I bm_empty"
    and operation: "apply_inner E c now s = (t, Inr ev) \<Longrightarrow> store_wf (view s) \<Longrightarrow> sm_pending s = [] \<Longrightarrow>
      cmd_ok c \<Longrightarrow> I (view s) \<Longrightarrow> I (view t)"
    and depends: "I m \<Longrightarrow> (\<And>k. D k \<Longrightarrow> bm_get n k = bm_get m k) \<Longrightarrow> I n"
    and apart: "D k \<Longrightarrow> \<not> starts_with k K_SHARED_DRAFT \<and> \<not> starts_with k K_PROJECT"
    and forget: "I m \<Longrightarrow> I (bm_remove (audit_key i) m)"
begin

lemma command:
  assumes "apply_command E c now s = (t, r)" "rest_ok s" "cmd_ok c" "I (sm_store s)"
  shows "I (sm_store t)"
proof (cases r)
  case (Inl e)
  have "keeps_all_but_drafts s t" using failed_keeps(1) assms(1) Inl by blast
  then show ?thesis
    using apart by (intro depends [OF assms(4)]) (auto simp: keeps_all_but_drafts_def)
next
  case (Inr ev)
  have wf: "store_wf (sm_store s)" using assms(2) by (simp add: rest_ok_def)
  obtain u where "apply_inner E c now (clear_pending s) = (u, Inr ev)" "sm_store t = view u"
    using apply_command_done [OF assms(1) [unfolded Inr] wf assms(3)] by metis
  then show ?thesis using operation [of E c now "clear_pending s" u ev] wf assms(3,4) by simp
qed

lemma prune_audit:
  assumes "prune_audit keep s = (n, t)" "sm_pending s = []" "I (view s)"
  shows "I (view t)"
proof -
  let ?f = "\<lambda>seq t. t\<lparr>sm_store := ms_delete (sm_store t) (audit_key seq)\<rparr>"
  have "sm_pending (fold ?f gone s) = [] \<and> I (view (fold ?f gone s))" for gone
  proof (induction gone rule: rev_induct)
    case (snoc i gone)
    let ?u = "fold ?f gone s"
    have "view (?f i ?u) = bm_remove (audit_key i) (view ?u)"
      using snoc by (simp add: view_def ms_delete_def)
    then show ?case using snoc forget by simp
  qed (use assms in simp)
  then show ?thesis using assms by (auto simp: prune_audit_def Let_def split: if_splits)
qed

lemma reachable: "reach tame E s \<Longrightarrow> I (sm_store s)"
proof (induction rule: reach.induct)
  case empty
  then show ?case using start by (simp add: sm_new_def)
next
  case (cmd s c now t r)
  then show ?case using command reach_rest_ok by blast
next
  case (prune s p b keep n t)
  have ok: "rest_ok s" "rest_ok t" using prune.hyps reach_rest_ok reach.prune by blast+
  then have "sm_pending s = []" by (simp add: rest_ok_def)
  then show ?case
    using prune.IH prune_versions_other [OF prune.hyps(2)] apart rest_ok_view [OF ok(1)] rest_ok_view [OF ok(2)]
    by (intro depends [OF prune.IH]) metis
next
  case (audit s keep n t)
  have ok: "rest_ok s" "rest_ok t" using audit.hyps reach_rest_ok reach.audit by blast+
  then have "sm_pending s = []" by (simp add: rest_ok_def)
  then show ?case
    using prune_audit [OF audit.hyps(2)] audit.IH rest_ok_view [OF ok(1)] rest_ok_view [OF ok(2)] by simp
qed

end

lemma acct_dom_apart: "acct_dom k \<Longrightarrow> \<not> starts_with k K_SHARED_DRAFT \<and> \<not> starts_with k K_PROJECT"
  by (auto simp: acct_dom_def key_defs starts_with_iff)

lemma acct_inv_empty: "acct_inv bm_empty"
  by (simp add: acct_inv_def has_pa_def has_ga_def pa_online_def ga_online_def)

lemma audit_not_account: "acct_inv m \<Longrightarrow> acct_inv (bm_remove (audit_key i) m)"
  by (erule acct_inv_remove_session) (simp_all add: key_defs)

interpretation accounts: side_invariant acct_inv acct_dom
  by unfold_locales (fact acct_inv_empty, fact command_acct, fact acct_inv_same, fact acct_dom_apart, fact audit_not_account)

section \<open>Tokens\<close>

definition token_inv :: "sval mem_store \<Rightarrow> bool" where
  "token_inv m \<longleftrightarrow> (\<forall>k l t u. token_area k \<longrightarrow> token_area l \<longrightarrow> bm_get m k = Some (SToken t) \<longrightarrow>
     bm_get m l = Some (SToken u) \<longrightarrow> tk_project t = tk_project u \<longrightarrow> tk_name t = tk_name u \<longrightarrow> k = l)"

fun outside_tokens :: "command \<Rightarrow> bool" where
  "outside_tokens (ProjectDelete _ _) = False"
| "outside_tokens (ProjectTokenCreate _ _ _ _ _) = False"
| "outside_tokens (ProjectTokenRevoke _ _) = False"
| "outside_tokens _ = True"

lemma areas_not_tokens:
  "admin_area k \<Longrightarrow> \<not> token_area k" "pa_area u k \<Longrightarrow> \<not> token_area k" "ga_area u k \<Longrightarrow> \<not> token_area k"
  "audit_area k \<Longrightarrow> \<not> token_area k" "shared_area k \<Longrightarrow> \<not> token_area k" "starts_with k K_PROJECT \<Longrightarrow> \<not> token_area k"
  "starts_with k K_GA_SESSION \<Longrightarrow> \<not> token_area k" "\<not> token_area (idx_pname p)"
  by (auto simp: admin_area_def pa_area_def pa_session_area_def ga_area_def ga_session_area_def token_area_def
      audit_area_def shared_area_def key_defs starts_with_iff)

lemma project_areas_not_tokens:
  "project_area p k \<Longrightarrow> \<not> token_area k" "branch_area p b k \<Longrightarrow> \<not> token_area k"
  "shared_publish_area k \<Longrightarrow> \<not> token_area k" "starts_with k (branch_prefix p b) \<Longrightarrow> \<not> token_area k"
proof -
  show pa: "project_area p k \<Longrightarrow> \<not> token_area k" for p
    using project_area_dirs areas_not_tokens(6,8) by blast
  show "branch_area p b k \<Longrightarrow> \<not> token_area k" using pa branch_area_project by blast
  show "shared_publish_area k \<Longrightarrow> \<not> token_area k"
    using areas_not_tokens(5,6) by (auto dest!: shared_publish_area_cases)
  show "starts_with k (branch_prefix p b) \<Longrightarrow> \<not> token_area k"
    using areas_not_tokens(6) by (auto simp: branch_prefix_def starts_with_iff)
qed

lemma outside_tokens_area: "outside_tokens c \<Longrightarrow> cmd_area s c k \<Longrightarrow> \<not> token_area k"
  by (cases c) (auto dest: areas_not_tokens(1-7) project_areas_not_tokens)

lemma token_inv_shrink:
  assumes "token_inv m"
    and "\<And>k t. token_area k \<Longrightarrow> bm_get n k = Some (SToken t) \<Longrightarrow>
      \<exists>u. bm_get m k = Some (SToken u) \<and> tk_project u = tk_project t \<and> tk_name u = tk_name t"
  shows "token_inv n"
  unfolding token_inv_def
proof (intro allI impI)
  fix k l t u assume a: "token_area k" "token_area l" "bm_get n k = Some (SToken t)" "bm_get n l = Some (SToken u)"
    "tk_project t = tk_project u" "tk_name t = tk_name u"
  then show "k = l" using assms(1) assms(2) [OF a(1,3)] assms(2) [OF a(2,4)] unfolding token_inv_def by metis
qed

lemma token_create_inv:
  assumes "apply_project_token_create p name h op now s = Inr (t, ev)" "token_inv (view s)"
  shows "token_inv (view t)"
proof (cases "t = s")
  case False
  then have free: "\<not> list_ex (\<lambda>(k, v). case as_token v of None \<Rightarrow> False
      | Some rec \<Rightarrow> tk_project rec = p \<and> tk_name rec = name) (get_prefix_merged s K_DATA_TOKEN)"
    and t: "view t = bm_insert (data_token_key h) (SToken
       \<lparr>tk_id = utf8_take 16 h, tk_name = name, tk_project = p, tk_hash = h, tk_created_at = nat (max now 0),
        tk_created_by = operator_id op, tk_revoked = False\<rparr>) (view s)"
    using assms(1) by (auto simp: apply_project_token_create_def split: if_splits)
  have "tk_project x \<noteq> p \<or> tk_name x \<noteq> name" if "token_area k" "bm_get (view s) k = Some (SToken x)" for k x
  proof (rule disjCI)
    have "(k, SToken x) \<in> set (get_prefix_merged s K_DATA_TOKEN)"
      using that by (simp add: get_prefix_merged_view in_ms_get_prefix token_area_def)
    moreover assume "\<not> tk_name x \<noteq> name"
    ultimately show "tk_project x \<noteq> p" using free unfolding list_ex_iff by fastforce
  qed
  then show ?thesis
    unfolding token_inv_def t using assms(2) [unfolded token_inv_def] by (auto split: if_splits)
qed (use assms(2) in simp)

lemma token_revoke_inv:
  assumes "apply_project_token_revoke p tid s = Inr (t, ev)" "token_inv (view s)" "sm_pending s = []"
  shows "token_inv (view t)"
proof -
  have "t = s \<or> (\<exists>k x. bm_get (view s) k = Some (SToken x) \<and> t = save_pending k (SToken (x\<lparr>tk_revoked := True\<rparr>)) s)"
    using assms(1) by (auto simp: apply_project_token_revoke_def load_start [OF assms(3)] load_merged_Some
        split: option.splits if_splits)
  then show ?thesis
    using assms(2) by (auto intro!: token_inv_shrink [OF assms(2)] split: if_splits)
qed

lemma command_tokens:
  assumes "apply_inner E c now s = (t, Inr ev)" "store_wf (view s)" "sm_pending s = []" "cmd_ok c" "token_inv (view s)"
  shows "token_inv (view t)"
proof (cases "outside_tokens c")
  case True
  have "edits (cmd_area s c) s t" using apply_inner_edits assms(1-4) by blast
  then show ?thesis
    using edits_frame outside_tokens_area [OF True] by (intro token_inv_shrink [OF assms(5)]) metis
next
  case False
  then show ?thesis
  proof (cases c)
    case (ProjectDelete p op)
    then have "apply_project_delete p s = Inr (t, ev)" using assms(1) by simp
    from project_delete_view [OF this assms(3,2)] show ?thesis
      by (intro token_inv_shrink [OF assms(5)]) (auto split: if_splits)
  qed (use assms token_create_inv token_revoke_inv in auto)
qed

lemma token_inv_empty: "token_inv bm_empty"
  by (simp add: token_inv_def)

lemma token_inv_same: "token_inv m \<Longrightarrow> (\<And>k. token_area k \<Longrightarrow> bm_get n k = bm_get m k) \<Longrightarrow> token_inv n"
  by (erule token_inv_shrink) auto

lemma token_apart: "token_area k \<Longrightarrow> \<not> starts_with k K_SHARED_DRAFT \<and> \<not> starts_with k K_PROJECT"
  by (auto simp: token_area_def key_defs starts_with_iff)

lemma audit_not_token: "token_inv m \<Longrightarrow> token_inv (bm_remove (audit_key i) m)"
  by (erule token_inv_shrink) (auto split: if_splits)

interpretation tokens: side_invariant token_inv token_area
  by unfold_locales (fact token_inv_empty, fact command_tokens, fact token_inv_same, fact token_apart, fact audit_not_token)

section \<open>The audit log\<close>

definition audit_count :: "sval mem_store \<Rightarrow> nat" where
  "audit_count m = (case bm_get m K_AUDIT_SEQ of Some (SNum c) \<Rightarrow> c | _ \<Rightarrow> 0)"

definition audit_inv :: "sval mem_store \<Rightarrow> bool" where
  "audit_inv m \<longleftrightarrow> (\<forall>n. bm_get m (audit_key n) \<noteq> None \<longrightarrow> 0 < n \<and> n \<le> audit_count m)"

fun outside_audit :: "command \<Rightarrow> bool" where
  "outside_audit (AuditAppend _) = False"
| "outside_audit _ = True"

lemma areas_not_audit:
  "admin_area k \<Longrightarrow> \<not> audit_area k" "pa_area u k \<Longrightarrow> \<not> audit_area k" "ga_area u k \<Longrightarrow> \<not> audit_area k"
  "token_area k \<Longrightarrow> \<not> audit_area k" "shared_area k \<Longrightarrow> \<not> audit_area k" "starts_with k K_PROJECT \<Longrightarrow> \<not> audit_area k"
  "starts_with k K_GA_SESSION \<Longrightarrow> \<not> audit_area k" "\<not> audit_area (idx_pname p)"
  by (auto simp: admin_area_def pa_area_def pa_session_area_def ga_area_def ga_session_area_def token_area_def
      audit_area_def shared_area_def key_defs starts_with_iff)

lemma project_areas_not_audit:
  "project_area p k \<Longrightarrow> \<not> audit_area k" "branch_area p b k \<Longrightarrow> \<not> audit_area k"
  "shared_publish_area k \<Longrightarrow> \<not> audit_area k" "starts_with k (branch_prefix p b) \<Longrightarrow> \<not> audit_area k"
  "project_delete_area s p k \<Longrightarrow> \<not> audit_area k"
proof -
  show pa: "project_area p k \<Longrightarrow> \<not> audit_area k" for p
    using project_area_dirs areas_not_audit(6,8) by blast
  show "branch_area p b k \<Longrightarrow> \<not> audit_area k" using pa branch_area_project by blast
  show "shared_publish_area k \<Longrightarrow> \<not> audit_area k"
    using areas_not_audit(5,6) by (auto dest!: shared_publish_area_cases)
  show "starts_with k (branch_prefix p b) \<Longrightarrow> \<not> audit_area k"
    using areas_not_audit(6) by (auto simp: branch_prefix_def starts_with_iff)
  show "project_delete_area s p k \<Longrightarrow> \<not> audit_area k"
    using areas_not_audit(2,4,6,8) by (auto simp: project_delete_area_def project_key_def starts_with_iff)
qed

lemma outside_audit_area: "outside_audit c \<Longrightarrow> cmd_area s c k \<Longrightarrow> \<not> audit_area k"
  by (cases c) (auto dest: areas_not_audit(1-7) project_areas_not_audit)

lemma audit_inv_same:
  assumes "audit_inv m" "\<And>k. audit_area k \<Longrightarrow> bm_get n k = bm_get m k"
  shows "audit_inv n"
  using assms(1) by (simp add: audit_inv_def audit_count_def assms(2) areas)

lemma audit_keys: "audit_key n \<noteq> K_AUDIT_SEQ" "K_AUDIT_SEQ \<noteq> audit_key n" "audit_key i = audit_key n \<longleftrightarrow> i = n"
  using dec_padded_not_seq by (simp_all add: key_defs) metis

lemma audit_append_view:
  assumes "apply_audit_append e s = Inr (t, ev)" "store_wf (view s)"
  shows "view t = bm_insert K_AUDIT_SEQ (SNum (audit_count (view s) + 1))
     (bm_insert (audit_key (audit_count (view s) + 1)) (SAudit (e\<lparr>au_seq := audit_count (view s) + 1\<rparr>)) (view s))"
  using assms(1)
  by (auto simp: apply_audit_append_def Let_def load_merged_eq decode_with_def audit_count_def
      split: option.splits)

lemma command_audit:
  assumes "apply_inner E c now s = (t, Inr ev)" "store_wf (view s)" "sm_pending s = []" "cmd_ok c" "audit_inv (view s)"
  shows "audit_inv (view t)"
proof (cases "outside_audit c")
  case True
  have "edits (cmd_area s c) s t" using apply_inner_edits assms(1-4) by blast
  then show ?thesis
    using edits_frame outside_audit_area [OF True] by (intro audit_inv_same [OF assms(5)]) metis
next
  case False
  then obtain e where "c = AuditAppend e" by (cases c) auto
  then have "apply_audit_append e s = Inr (t, ev)" using assms(1) by simp
  note view = audit_append_view [OF this assms(2)]
  have "audit_count (view t) = audit_count (view s) + 1"
    unfolding view by (subst audit_count_def) simp
  then show ?thesis
    using assms(5) audit_keys unfolding audit_inv_def by (auto simp: view)
qed

lemma audit_inv_empty: "audit_inv bm_empty"
  by (simp add: audit_inv_def)

lemma audit_apart: "audit_area k \<Longrightarrow> \<not> starts_with k K_SHARED_DRAFT \<and> \<not> starts_with k K_PROJECT"
  by (auto simp: audit_area_def key_defs starts_with_iff)

lemma audit_forget: "audit_inv m \<Longrightarrow> audit_inv (bm_remove (audit_key i) m)"
  using audit_keys by (auto simp: audit_inv_def audit_count_def)

interpretation audits: side_invariant audit_inv audit_area
  by unfold_locales (fact audit_inv_empty, fact command_audit, fact audit_inv_same, fact audit_apart, fact audit_forget)

section \<open>Properties\<close>

text \<open>
  C15: In every reachable state, no project administrator and global administrator share a name,
  whatever the case of its letters, and whoever has a session has the account it is for.
\<close>
theorem accounts_are_exclusive:
  assumes "reach tame E s"
  shows "(\<forall>u w a g. get_project_admin s u = Inr (Some a) \<and> get_global_admin s w = Inr (Some g) \<longrightarrow>
      \<not> eq_ignore_ascii_case u w) \<and>
    (\<forall>u sid x. slash_free u \<and> (get_pa_session s u = Inr (Some x) \<or> get_pa_session_with s u sid = Inr (Some x)) \<longrightarrow>
      (\<exists>a. get_project_admin s u = Inr (Some a))) \<and>
    (\<forall>u sid x. slash_free u \<and> get_ga_session_with s u sid = Inr (Some x) \<longrightarrow>
      (\<exists>g. get_global_admin s u = Inr (Some g)))"
proof -
  note ok = reach_rest_ok [OF assms]
  note view = rest_ok_view [OF ok]
  have wf: "store_wf (sm_store s)" using ok by (simp add: rest_ok_def)
  have inv: "acct_inv (sm_store s)" by (rule accounts.reachable [OF assms])
  note defs = get_project_admin_def get_global_admin_def get_pa_session_def get_pa_session_with_def
    get_ga_session_with_def load_merged_Some view
  have pa: "\<exists>a. get_project_admin s u = Inr (Some a)" if "slash_free u" "has_pa (sm_store s) u" for u
  proof -
    from that(2) obtain v where "bm_get (sm_store s) (project_admin_key u) = Some v" by (auto simp: has_pa_def)
    moreover from this have "typed (KPaAccount u) v"
      using wf that(1) by (intro store_wfD [of "sm_store s"]) (simp_all add: key_string.simps)
    ultimately show ?thesis using typed_cases(13) by (auto simp: defs)
  qed
  have ga: "\<exists>a. get_global_admin s u = Inr (Some a)" if "slash_free u" "has_ga (sm_store s) u" for u
  proof -
    from that(2) obtain v where "bm_get (sm_store s) (global_admin_key u) = Some v" by (auto simp: has_ga_def)
    moreover from this have "typed (KGaAccount u) v"
      using wf that(1) by (intro store_wfD [of "sm_store s"]) (simp_all add: key_string.simps)
    ultimately show ?thesis using typed_cases(14) by (auto simp: defs)
  qed
  have "pa_online (sm_store s) u"
    if "get_pa_session s u = Inr (Some x) \<or> get_pa_session_with s u sid = Inr (Some x)" for u sid x
    using that areas(4,5) unfolding pa_online_def by (auto simp: defs)
  moreover have "ga_online (sm_store s) u" if "get_ga_session_with s u sid = Inr (Some x)" for u sid x
    using that areas(9) unfolding ga_online_def by (auto simp: defs)
  moreover have "has_pa (sm_store s) u" if "get_project_admin s u = Inr (Some a)" for u a
    using that by (auto simp: defs has_pa_def)
  moreover have "has_ga (sm_store s) u" if "get_global_admin s u = Inr (Some a)" for u a
    using that by (auto simp: defs has_ga_def)
  ultimately show ?thesis using inv pa ga unfolding acct_inv_def by meson
qed

text \<open>
  C16: A new password, or the end of an account, ends every session of the account at once, and
  touches no key that is not the account or one of its sessions.
\<close>
theorem credentials_change_ends_sessions:
  assumes "sm_pending s = []" "store_wf (view s)"
  shows "((op = apply_project_admin_set_password u salt ph \<or> op = apply_project_admin_delete u) \<and> op s = Inr (t, ev) \<longrightarrow>
      get_pa_session t u = Inr None \<and> (\<forall>sid. get_pa_session_with t u sid = Inr None) \<and>
      (\<forall>k. \<not> pa_area u k \<longrightarrow> bm_get (view t) k = bm_get (view s) k)) \<and>
    ((op = apply_global_admin_set_password u salt ph \<or> op = apply_global_admin_delete u) \<and> op s = Inr (t, ev) \<longrightarrow>
      (\<forall>sid. get_ga_session_with t u sid = Inr None) \<and>
      (\<forall>k. \<not> ga_area u k \<longrightarrow> bm_get (view t) k = bm_get (view s) k))"
    (is "?pa \<and> ?ga")
proof
  show ?pa
  proof (intro impI, elim conjE)
    assume run: "op = apply_project_admin_set_password u salt ph \<or> op = apply_project_admin_delete u" "op s = Inr (t, ev)"
    then have "edits (pa_area u) s t" using pa_edits(6,7) [OF assms(2,1)] by blast
    moreover have "bm_get (view t) k = None" if "pa_session_area u k" for k
      using run that account_not_session
      by (auto simp: apply_project_admin_set_password_def apply_project_admin_delete_def view_delete_pa_sessions
          split: if_splits)
    ultimately show "get_pa_session t u = Inr None \<and> (\<forall>sid. get_pa_session_with t u sid = Inr None) \<and>
      (\<forall>k. \<not> pa_area u k \<longrightarrow> bm_get (view t) k = bm_get (view s) k)"
      using areas(4,5) edits_frame by (simp add: get_pa_session_def get_pa_session_with_def load_merged_None)
  qed
  show ?ga
  proof (intro impI, elim conjE)
    assume run: "op = apply_global_admin_set_password u salt ph \<or> op = apply_global_admin_delete u" "op s = Inr (t, ev)"
    then have "edits (ga_area u) s t" using ga_edits(2,3) [OF assms(2,1)] by blast
    moreover have "bm_get (view t) k = None" if "ga_session_area u k" for k
      using run that account_not_session
      by (auto simp: apply_global_admin_set_password_def apply_global_admin_delete_def view_delete_ga_sessions
          split: if_splits)
    ultimately show "(\<forall>sid. get_ga_session_with t u sid = Inr None) \<and>
      (\<forall>k. \<not> ga_area u k \<longrightarrow> bm_get (view t) k = bm_get (view s) k)"
      using areas(9) edits_frame by (simp add: get_ga_session_with_def load_merged_None)
  qed
qed

text \<open>
  C17: A project never has two tokens of the same name in a reachable state, and a revocation is
  final: whatever command follows, the token stays revoked, or is gone with its project.
\<close>
theorem tokens_are_unique_and_revocation_final:
  assumes "reach tame E s" "slash_free h" "slash_free h'"
    and "get_data_token s h = Inr (Some x)" "get_data_token s h' = Inr (Some y)"
    and "cmd_ok c" "apply_command E c now s = (t, r)"
  shows "(tk_project x = tk_project y \<and> tk_name x = tk_name y \<longrightarrow> h = h') \<and>
    (tk_revoked x \<longrightarrow> get_data_token t h = Inr None \<or>
      (\<exists>z. get_data_token t h = Inr (Some z) \<and> tk_revoked z \<and> tk_project z = tk_project x))"
proof
  note ok = reach_rest_ok [OF assms(1)]
  note view = rest_ok_view [OF ok]
  have x: "bm_get (sm_store s) (data_token_key h) = Some (SToken x)"
    "bm_get (sm_store s) (data_token_key h') = Some (SToken y)"
    using assms(4,5) by (simp_all add: get_data_token_def load_merged_Some view)
  show "tk_project x = tk_project y \<and> tk_name x = tk_name y \<longrightarrow> h = h'"
    using tokens.reachable [OF assms(1)] x areas(12) unfolding token_inv_def
    by (metis data_token_key_def same_append_eq)
  have t: "view t = sm_store t" using rest_ok_view command_rest_ok [OF assms(7) ok assms(6)] by blast
  show "tk_revoked x \<longrightarrow> get_data_token t h = Inr None \<or>
      (\<exists>z. get_data_token t h = Inr (Some z) \<and> tk_revoked z \<and> tk_project z = tk_project x)"
  proof
    assume revoked: "tk_revoked x"
    have "bm_get (sm_store t) (data_token_key h) \<in> {None, Some (SToken x), Some (SToken (x\<lparr>tk_revoked := True\<rparr>))}"
    proof (cases r)
      case (Inl e)
      then have "keeps_all_but_drafts s t" using failed_keeps(1) assms(7) by blast
      then show ?thesis using x(1) unfolding keeps_all_but_drafts_def by (metis insertCI)
    next
      case (Inr ev)
      have wf: "store_wf (sm_store s)" using ok by (simp add: rest_ok_def)
      obtain u where u: "apply_inner E c now (clear_pending s) = (u, Inr ev)" "sm_store t = view u"
        "edits (cmd_area (clear_pending s) c) (clear_pending s) u"
        using apply_command_done [OF assms(7) [unfolded Inr] wf assms(6)] by metis
      show ?thesis
      proof (cases "outside_tokens c")
        case True
        then have "bm_get (view u) (data_token_key h) = bm_get (sm_store s) (data_token_key h)"
          using edits_frame [OF u(3)] outside_tokens_area [OF True] areas(12) by (metis clear_pending_simps(3))
        then show ?thesis using u(2) x(1) by simp
      next
        case False
        then consider (del) p op where "c = ProjectDelete p op" | (create) p n i op ts where "c = ProjectTokenCreate p n i op ts"
          | (revoke) p i where "c = ProjectTokenRevoke p i" by (cases c) auto
        then show ?thesis
        proof cases
          case del
          then have "apply_project_delete p (clear_pending s) = Inr (u, ev)" using u(1) by simp
          then show ?thesis
            using project_delete_view [of p "clear_pending s" u ev "data_token_key h"] wf x(1) u(2) by simp
        next
          case create
          then have "apply_project_token_create p n i op (eff_ts ts now) (clear_pending s) = Inr (u, ev)" using u(1) by simp
          moreover have "i = h \<Longrightarrow> u = clear_pending s"
            using calculation x(1) by (auto simp: apply_project_token_create_def load_start load_merged_Some
                load_merged_None split: if_splits)
          ultimately show ?thesis
            using x(1) u(2)
            by (cases "i = h") (auto simp: apply_project_token_create_def data_token_key_def split: if_splits)
        next
          case revoke
          then have "apply_project_token_revoke p i (clear_pending s) = Inr (u, ev)" using u(1) by simp
          then have "u = clear_pending s \<or> (\<exists>k x. bm_get (sm_store s) k = Some (SToken x) \<and>
              u = save_pending k (SToken (x\<lparr>tk_revoked := True\<rparr>)) (clear_pending s))"
            by (auto simp: apply_project_token_revoke_def load_start load_merged_Some split: option.splits if_splits)
          then show ?thesis using x(1) u(2) by (auto split: if_splits)
        qed
      qed
    qed
    then show "get_data_token t h = Inr None \<or>
      (\<exists>z. get_data_token t h = Inr (Some z) \<and> tk_revoked z \<and> tk_project z = tk_project x)"
      using revoked by (auto simp: get_data_token_def load_merged_Some load_merged_None t)
  qed
qed

text \<open>
  The audit log grows at its end only: in a reachable state an append succeeds, takes the number
  after the counter, which no stored entry has, and keeps every other record as it is.
\<close>
lemma audit_appends:
  assumes "reach tame E s" "apply_command E (AuditAppend e) now s = (t, r)"
  shows "r = Inr [] \<and> audit_count (sm_store t) = audit_count (sm_store s) + 1 \<and>
    bm_get (sm_store s) (audit_key (audit_count (sm_store t))) = None \<and>
    bm_get (sm_store t) (audit_key (audit_count (sm_store t))) = Some (SAudit (e\<lparr>au_seq := audit_count (sm_store t)\<rparr>)) \<and>
    (\<forall>k. k \<noteq> audit_key (audit_count (sm_store t)) \<longrightarrow> k \<noteq> K_AUDIT_SEQ \<longrightarrow>
       bm_get (sm_store t) k = bm_get (sm_store s) k)"
proof -
  note ok = reach_rest_ok [OF assms(1)]
  have wf: "store_wf (sm_store s)" using ok by (simp add: rest_ok_def)
  let ?s = "clear_pending s"
  have "typed KAuditSeq v" if "bm_get (sm_store s) K_AUDIT_SEQ = Some v" for v
    using that wf by (intro store_wfD [of "sm_store s"]) (simp_all add: key_string.simps)
  then have "\<exists>n. load_merged as_num ?s K_AUDIT_SEQ = Inr n"
    using typed_cases(17) by (cases "bm_get (sm_store s) K_AUDIT_SEQ") (fastforce simp: load_merged_eq decode_with_def)+
  then obtain u where append: "apply_audit_append e ?s = Inr (u, [])"
    by (auto simp: apply_audit_append_def done_with_def Let_def)
  then have "apply_inner E (AuditAppend e) now ?s = (u, Inr [])" by simp
  then have run: "apply_command E (AuditAppend e) now s = (flush_pending u, Inr [])"
    by (simp add: apply_command_def append buffered_def)
  then have rt: "r = Inr []" "t = flush_pending u" using assms(2) by simp_all
  have "sm_store t = view u"
    using apply_command_done [OF run wf] \<open>apply_inner E (AuditAppend e) now ?s = (u, Inr [])\<close> rt(2)
    by (metis cmd_ok.simps(39) prod.inject)
  moreover have "view u = bm_insert K_AUDIT_SEQ (SNum (audit_count (sm_store s) + 1))
     (bm_insert (audit_key (audit_count (sm_store s) + 1)) (SAudit (e\<lparr>au_seq := audit_count (sm_store s) + 1\<rparr>)) (sm_store s))"
    using audit_append_view [OF append] wf by simp
  moreover have "bm_get (sm_store s) (audit_key (audit_count (sm_store s) + 1)) = None"
    using audits.reachable [OF assms(1)] unfolding audit_inv_def
    by (metis Suc_eq_plus1 Suc_n_not_le_n)
  moreover have "audit_count (bm_insert K_AUDIT_SEQ (SNum n) m) = n" for n m by (simp add: audit_count_def)
  ultimately show ?thesis using rt(1) audit_keys by simp
qed

section \<open>A sample run\<close>

definition sample_accounts :: "command list" where
  "sample_accounts = [ProjectCreate ''shop'' ''root'' 5 None, ProjectAdminCreate ''shop'' ''Bob'' ''salt'' ''hash'' 6,
     GlobalAdminCreate ''eve'' ''salt'' ''hash'' 7, MultiPaSessionLogin ''Bob'' ''t1'' 8 None ''d1'' ''one'',
     MultiGaSessionLogin ''eve'' ''t2'' 8 None ''d2'' ''two'', ProjectTokenCreate ''shop'' ''ci'' ''abc'' ''root'' 9,
     ProjectTokenRevoke ''shop'' ''abc'', AuditAppend
       \<lparr>au_seq = 0, au_ts = 9, au_operator = ''root'', au_action = ''token'', au_project = Some ''shop'',
        au_branch = None, au_version = None, au_request_id = None, au_detail = []\<rparr>]"

abbreviation "sample_desk \<equiv> run sample_ext sample_accounts"

lemma sample_desk_reach: "reach True sample_ext sample_desk"
  unfolding run_def sample_accounts_def by (simp add: reach_next reach.empty)

lemma sample_desk_facts:
  "\<exists>a. get_project_admin sample_desk ''Bob'' = Inr (Some a)"
  "\<exists>a. get_global_admin sample_desk ''eve'' = Inr (Some a)"
  "\<exists>a. get_pa_session_with sample_desk ''Bob'' ''one'' = Inr (Some a)"
  "\<exists>a. get_data_token sample_desk ''abc'' = Inr (Some a) \<and> tk_revoked a"
  "audit_count (sm_store sample_desk) = 1"
proof -
  have "(case get_project_admin sample_desk ''Bob'' of Inr (Some a) \<Rightarrow> True | _ \<Rightarrow> False)" by code_simp
  then show "\<exists>a. get_project_admin sample_desk ''Bob'' = Inr (Some a)" by (auto split: sum.splits option.splits)
  have "(case get_global_admin sample_desk ''eve'' of Inr (Some a) \<Rightarrow> True | _ \<Rightarrow> False)" by code_simp
  then show "\<exists>a. get_global_admin sample_desk ''eve'' = Inr (Some a)" by (auto split: sum.splits option.splits)
  have "(case get_pa_session_with sample_desk ''Bob'' ''one'' of Inr (Some a) \<Rightarrow> True | _ \<Rightarrow> False)" by code_simp
  then show "\<exists>a. get_pa_session_with sample_desk ''Bob'' ''one'' = Inr (Some a)"
    by (auto split: sum.splits option.splits)
  have "(case get_data_token sample_desk ''abc'' of Inr (Some a) \<Rightarrow> tk_revoked a | _ \<Rightarrow> False)" by code_simp
  then show "\<exists>a. get_data_token sample_desk ''abc'' = Inr (Some a) \<and> tk_revoked a"
    by (auto split: sum.splits option.splits)
  show "audit_count (sm_store sample_desk) = 1" by code_simp
qed

theorem accounts_are_exclusive_witness:
  "(\<exists>a. get_project_admin sample_desk ''Bob'' = Inr (Some a)) \<and>
   (\<exists>x. get_pa_session_with sample_desk ''Bob'' ''one'' = Inr (Some x)) \<and> \<not> eq_ignore_ascii_case ''Bob'' ''eve''"
  using accounts_are_exclusive [OF sample_desk_reach] sample_desk_facts(1,2,3) by blast

theorem tokens_are_unique_and_revocation_final_witness:
  "\<exists>z. get_data_token (fst (apply_command sample_ext (ProjectTokenCreate ''shop'' ''ci'' ''abc'' ''root'' 12) 0 sample_desk))
     ''abc'' = Inr (Some z) \<and> tk_revoked z"
proof -
  let ?c = "ProjectTokenCreate ''shop'' ''ci'' ''abc'' ''root'' 12"
  obtain x where x: "get_data_token sample_desk ''abc'' = Inr (Some x)" "tk_revoked x"
    using sample_desk_facts(4) by blast
  have "(case get_data_token (fst (apply_command sample_ext ?c 0 sample_desk)) ''abc'' of
      Inr None \<Rightarrow> False | _ \<Rightarrow> True)" by code_simp
  then show ?thesis
    using tokens_are_unique_and_revocation_final
      [OF sample_desk_reach _ _ x(1) x(1), of ?c 0 "fst (apply_command sample_ext ?c 0 sample_desk)"
        "snd (apply_command sample_ext ?c 0 sample_desk)"] x(2) by auto
qed

theorem credentials_change_ends_sessions_witness:
  "\<exists>t ev. apply_project_admin_set_password ''Bob'' ''pepper'' ''new'' sample_desk = Inr (t, ev) \<and>
     get_pa_session_with t ''Bob'' ''one'' = Inr None"
proof -
  note ok = reach_rest_ok [OF sample_desk_reach]
  have start: "sm_pending sample_desk = []" "store_wf (view sample_desk)"
    using ok rest_ok_view [OF ok] by (simp_all add: rest_ok_def)
  obtain a where "get_project_admin sample_desk ''Bob'' = Inr (Some a)" using sample_desk_facts(1) by blast
  then have "\<exists>t ev. apply_project_admin_set_password ''Bob'' ''pepper'' ''new'' sample_desk = Inr (t, ev)"
    by (simp add: apply_project_admin_set_password_def load_start [OF start(1)] get_project_admin_def done_with_def)
  then show ?thesis
    using credentials_change_ends_sessions [OF start, of "apply_project_admin_set_password ''Bob'' ''pepper'' ''new''"
        "''Bob''" "''pepper''" "''new''"] by blast
qed

end
