(* ===== verification/Writes.thy ===== *)
theory Writes
  imports Command
begin

text \<open>
  What a command writes to the store, in the order it does (\<open>state.rs\<close>): the shared drafts that a shared publish
  deletes one by one in the store itself, and the one batch of the buffer at the end. Every other command only reads
  the store until then.
\<close>

section \<open>Deletions past the buffer\<close>

definition delete_keys :: "string list \<Rightarrow> sval mem_store \<Rightarrow> sval mem_store" where
  "delete_keys ks st = fold (\<lambda>k st. ms_delete st k) ks st"

lemma delete_keys_simps [simp]:
  "delete_keys [] st = st" "delete_keys (k # ks) st = delete_keys ks (ms_delete st k)"
  "delete_keys (ks @ ls) st = delete_keys ls (delete_keys ks st)"
  by (simp_all add: delete_keys_def)

text \<open>A draft is deleted once its published item is in the buffer; an error of the cascade comes too late for it.\<close>

fun published_drafts ::
  "string \<Rightarrow> string \<Rightarrow> int \<Rightarrow> cascade_mode \<Rightarrow> shared_item list \<Rightarrow> sm \<times> publish_event list \<Rightarrow> string list" where
  "published_drafts comment request_id now_ms cascade [] acc = []"
| "published_drafts comment request_id now_ms cascade (item # items) acc =
     (case get_shared (fst acc) (si_key item) of
        Inl e \<Rightarrow> []
      | Inr prev \<Rightarrow> shared_draft_key (si_key item) #
          (case snd (shared_publish_item comment request_id now_ms cascade item acc) of
             Inl e \<Rightarrow> []
           | Inr acc' \<Rightarrow> published_drafts comment request_id now_ms cascade items acc'))"

definition direct_deletes :: "command \<Rightarrow> int \<Rightarrow> sm \<Rightarrow> string list" where
  "direct_deletes c now_ms s = (case c of
     SharedPublish comment request_id operator ts cascade policy \<Rightarrow>
       published_drafts comment request_id (eff_ts ts now_ms) cascade (list_shared_drafts s) (s, [])
   | _ \<Rightarrow> [])"

lemma item_store:
  assumes "shared_publish_item comment rid now cascade item (s, ev) = (t, r)"
  shows "sm_store t = (case get_shared s (si_key item) of Inl e \<Rightarrow> sm_store s
      | Inr prev \<Rightarrow> ms_delete (sm_store s) (shared_draft_key (si_key item)))"
    and "r = Inr (u, ev') \<Longrightarrow> sm_store u = sm_store t"
  using assms cascades_store
  by (auto simp: shared_publish_item_def store_delete_def Let_def split: sum.splits if_splits)

lemma publish_loop_deletes:
  "shared_publish_loop comment rid now cascade items (s, ev) = (t, r) \<Longrightarrow>
     sm_store t = delete_keys (published_drafts comment rid now cascade items (s, ev)) (sm_store s)"
proof (induction items arbitrary: s ev)
  case (Cons i items)
  obtain u r1 where one: "shared_publish_item comment rid now cascade i (s, ev) = (u, r1)" by fastforce
  note st = item_store [OF one]
  show ?case
  proof (cases "get_shared s (si_key i)")
    case (Inl e)
    then have "u = s" "r1 = Inl e" using one by (simp_all add: shared_publish_item_def)
    then show ?thesis using Cons.prems one Inl by simp
  next
    case (Inr prev)
    show ?thesis
    proof (cases r1)
      case (Inl e)
      then show ?thesis using Cons.prems one st(1) \<open>get_shared s (si_key i) = Inr prev\<close> by simp
    next
      case (Inr acc)
      obtain v ev' where acc: "acc = (v, ev')" by fastforce
      have "sm_store v = sm_store u" using st(2) [of v ev'] Inr acc by simp
      then show ?thesis
        using Cons.prems Cons.IH [of v ev'] one st(1) Inr acc \<open>get_shared s (si_key i) = Inr prev\<close> by simp
    qed
  qed
qed simp

section \<open>The other commands leave the store to the flush\<close>

named_theorems keeps_store \<open>operations that only write to the buffer\<close>

lemma fold_store: "(\<And>x s. sm_store (f x s) = sm_store s) \<Longrightarrow> sm_store (fold f xs s) = sm_store s"
  by (induction xs arbitrary: s) simp_all

lemma foldE_store:
  "(\<And>x s a t b. f x (s, a) = Inr (t, b) \<Longrightarrow> sm_store t = sm_store s) \<Longrightarrow> foldE f xs (s, a) = Inr (t, b) \<Longrightarrow> sm_store t = sm_store s"
proof (induction xs arbitrary: s a)
  case (Cons x xs)
  then obtain u c where "f x (s, a) = Inr (u, c)" "foldE f xs (u, c) = Inr (t, b)" by fastforce
  then show ?case using Cons.IH [of u c] Cons.prems(1) by metis
qed simp

lemma session_stores [simp]:
  "sm_store (delete_all_admin_sessions s) = sm_store s" "sm_store (delete_all_pa_sessions u s) = sm_store s"
  "sm_store (delete_all_ga_sessions u s) = sm_store s"
  by (simp_all add: delete_all_admin_sessions_def delete_all_pa_sessions_def delete_all_ga_sessions_def Let_def)

lemma admin_store [keeps_store]:
  "apply_session_login h i e s = Inr (t, ev) \<Longrightarrow> sm_store t = sm_store s"
  "apply_session_logout s = Inr (t, ev) \<Longrightarrow> sm_store t = sm_store s"
  "apply_session_heartbeat e s = Inr (t, ev) \<Longrightarrow> sm_store t = sm_store s"
  "apply_multi_session_login h i e sid s = Inr (t, ev) \<Longrightarrow> sm_store t = sm_store s"
  "apply_multi_session_logout sid s = Inr (t, ev) \<Longrightarrow> sm_store t = sm_store s"
  "apply_multi_session_heartbeat sid e s = Inr (t, ev) \<Longrightarrow> sm_store t = sm_store s"
  "apply_multi_session_logout_all s = Inr (t, ev) \<Longrightarrow> sm_store t = sm_store s"
  "apply_admin_set_password h s = Inr (t, ev) \<Longrightarrow> sm_store t = sm_store s"
  by (auto simp: apply_session_login_def apply_session_logout_def apply_session_heartbeat_def apply_multi_session_login_def
      apply_multi_session_logout_def apply_multi_session_heartbeat_def apply_multi_session_logout_all_def
      apply_admin_set_password_def heartbeat_def done_with_def Let_def split: if_splits option.splits)

lemma project_admin_store [keeps_store]:
  "apply_project_admin_create p u salt h now s = Inr (t, ev) \<Longrightarrow> sm_store t = sm_store s"
  "apply_project_admin_delete u s = Inr (t, ev) \<Longrightarrow> sm_store t = sm_store s"
  "apply_project_admin_set_password u salt h s = Inr (t, ev) \<Longrightarrow> sm_store t = sm_store s"
  "apply_pa_session_login u h i e d s = Inr (t, ev) \<Longrightarrow> sm_store t = sm_store s"
  "apply_pa_session_logout u s = Inr (t, ev) \<Longrightarrow> sm_store t = sm_store s"
  "apply_pa_session_heartbeat u e s = Inr (t, ev) \<Longrightarrow> sm_store t = sm_store s"
  "apply_multi_pa_session_login u h i e d sid s = Inr (t, ev) \<Longrightarrow> sm_store t = sm_store s"
  "apply_multi_pa_session_logout u sid s = Inr (t, ev) \<Longrightarrow> sm_store t = sm_store s"
  "apply_multi_pa_session_heartbeat u sid e s = Inr (t, ev) \<Longrightarrow> sm_store t = sm_store s"
  "apply_multi_pa_session_logout_all u s = Inr (t, ev) \<Longrightarrow> sm_store t = sm_store s"
  by (auto simp: apply_project_admin_create_def apply_project_admin_delete_def apply_project_admin_set_password_def
      apply_pa_session_login_def apply_pa_session_logout_def apply_pa_session_heartbeat_def apply_multi_pa_session_login_def
      apply_multi_pa_session_logout_def apply_multi_pa_session_heartbeat_def apply_multi_pa_session_logout_all_def
      heartbeat_def done_with_def Let_def split: if_splits option.splits)

lemma revoke_all_store: "sm_store (fold (\<lambda>(k, v) t. case strip_prefix K_GA_ACCOUNT k of
    None \<Rightarrow> t | Some u \<Rightarrow> delete_all_ga_sessions u t) rows s) = sm_store s"
  by (rule fold_store) (simp split: prod.splits option.splits)

lemma global_admin_store [keeps_store]:
  "apply_global_admin_create u salt h now s = Inr (t, ev) \<Longrightarrow> sm_store t = sm_store s"
  "apply_global_admin_delete u s = Inr (t, ev) \<Longrightarrow> sm_store t = sm_store s"
  "apply_global_admin_set_password u salt h s = Inr (t, ev) \<Longrightarrow> sm_store t = sm_store s"
  "apply_multi_ga_session_login u h i e d sid s = Inr (t, ev) \<Longrightarrow> sm_store t = sm_store s"
  "apply_multi_ga_session_logout u sid s = Inr (t, ev) \<Longrightarrow> sm_store t = sm_store s"
  "apply_multi_ga_session_heartbeat u sid e s = Inr (t, ev) \<Longrightarrow> sm_store t = sm_store s"
  "apply_multi_ga_session_logout_all u s = Inr (t, ev) \<Longrightarrow> sm_store t = sm_store s"
  "apply_global_admin_sessions_revoke_all s = Inr (t, ev) \<Longrightarrow> sm_store t = sm_store s"
  by (auto simp: apply_global_admin_create_def apply_global_admin_delete_def apply_global_admin_set_password_def
      apply_multi_ga_session_login_def apply_multi_ga_session_logout_def apply_multi_ga_session_heartbeat_def
      apply_multi_ga_session_logout_all_def apply_global_admin_sessions_revoke_all_def revoke_all_store
      heartbeat_def done_with_def Let_def split: if_splits option.splits)

lemma other_store [keeps_store]:
  "apply_project_token_create p name h who now s = Inr (t, ev) \<Longrightarrow> sm_store t = sm_store s"
  "apply_project_token_revoke p tid s = Inr (t, ev) \<Longrightarrow> sm_store t = sm_store s"
  "apply_audit_append e s = Inr (t, ev) \<Longrightarrow> sm_store t = sm_store s"
  "apply_rotate_master_key s = Inr (t, ev) \<Longrightarrow> sm_store t = sm_store s"
  "apply_shared_draft_update E item s = Inr (t, ev) \<Longrightarrow> sm_store t = sm_store s"
  "apply_shared_delete key s = Inr (t, ev) \<Longrightarrow> sm_store t = sm_store s"
  by (auto simp: apply_project_token_create_def apply_project_token_revoke_def apply_audit_append_def
      apply_rotate_master_key_def apply_shared_draft_update_def apply_shared_delete_def
      done_with_def Let_def split: if_splits option.splits prod.splits)

lemma versioning_store [keeps_store]:
  "apply_publish E p b comment rid now who policy s = Inr (t, ev) \<Longrightarrow> sm_store t = sm_store s"
  "apply_rollback p b v comment rid now who s = Inr (t, ev) \<Longrightarrow> sm_store t = sm_store s"
  "apply_gray_publish E p b rule comment rid policy s = Inr (t, ev) \<Longrightarrow> sm_store t = sm_store s"
  "apply_gray_promote p b comment rid now who s = Inr (t, ev) \<Longrightarrow> sm_store t = sm_store s"
  "apply_gray_abort p b comment rid s = Inr (t, ev) \<Longrightarrow> sm_store t = sm_store s"
  "apply_draft_update E p b us ds bs now expected s = Inr (t, ev) \<Longrightarrow> sm_store t = sm_store s"
  by (auto simp: apply_publish_def apply_rollback_def apply_gray_publish_def apply_gray_promote_def apply_gray_abort_def
      apply_draft_update_def done_with_def Let_def split: if_splits option.splits)

lemma structure_branch_store:
  "publish_structure_branch p comment rid now who new b (s, ev) = Inr (t, ev') \<Longrightarrow> sm_store t = sm_store s"
  by (auto simp: publish_structure_branch_def Let_def split: if_splits option.splits)

lemma project_store [keeps_store]:
  "apply_project_create name now clone s = Inr (t, ev) \<Longrightarrow> sm_store t = sm_store s"
  "apply_project_delete p s = Inr (t, ev) \<Longrightarrow> sm_store t = sm_store s"
  "apply_branch_create p name source now s = Inr (t, ev) \<Longrightarrow> sm_store t = sm_store s"
  "apply_branch_delete p name s = Inr (t, ev) \<Longrightarrow> sm_store t = sm_store s"
  "apply_structure_draft_set p base groups s = Inr (t, ev) \<Longrightarrow> sm_store t = sm_store s"
  "apply_publish_structure p comment rid now who policy s = Inr (t, ev) \<Longrightarrow> sm_store t = sm_store s"
  by (auto simp: apply_project_create_def apply_project_delete_def apply_branch_create_def apply_branch_delete_def
      apply_structure_draft_set_def apply_publish_structure_def done_with_def Let_def fold_store
      dest!: foldE_store [rotated] structure_branch_store split: if_splits option.splits)

text \<open>So the deletions are all that a command does to the store before its flush, and the flush is one batch.\<close>

lemma inner_store: "sm_store (fst (apply_inner E c now s)) = delete_keys (direct_deletes c now s) (sm_store s)"
proof (cases "direct_writer c")
  case True
  then show ?thesis
    using publish_loop_deletes [OF prod.collapse [symmetric]]
    by (cases c) (simp_all add: apply_shared_publish_def direct_deletes_def Let_def)
next
  case False
  obtain t r where run: "apply_inner E c now s = (t, r)" by fastforce
  have none: "direct_deletes c now s = []" using False by (cases c) (simp_all add: direct_deletes_def)
  show ?thesis
  proof (cases r)
    case (Inl e)
    then show ?thesis using apply_inner_failed [of E c now s t e] run False none by simp
  next
    case (Inr ev)
    then have "sm_store t = sm_store s" using run False by (cases c) (auto dest: keeps_store)
    then show ?thesis using run none by simp
  qed
qed

text \<open>\<open>flush_pending\<close> writes nothing for an empty buffer.\<close>

definition flushes :: "ext \<Rightarrow> command \<Rightarrow> int \<Rightarrow> sm \<Rightarrow> bool" where
  "flushes E c now_ms s = (case apply_inner E c now_ms s of
     (t, Inr events) \<Rightarrow> sm_pending t \<noteq> []
   | (t, Inl e) \<Rightarrow> False)"

lemma no_flush_store:
  assumes "\<not> flushes E c now (clear_pending s)"
  shows "sm_store (fst (apply_command E c now s)) = delete_keys (direct_deletes c now (clear_pending s)) (sm_store s)"
proof -
  obtain t r where run: "apply_inner E c now (clear_pending s) = (t, r)" by fastforce
  have "sm_store t = delete_keys (direct_deletes c now (clear_pending s)) (sm_store s)"
    using inner_store [of E c now "clear_pending s"] run by simp
  then show ?thesis
    using assms run
    by (cases r) (auto simp: apply_command_def flushes_def flush_pending_def buf_flush_def op_puts_def op_dels_def ms_write_batch_def)
qed

end
