(* ===== verification/Payload.thy ===== *)
theory Payload
  imports Crc
begin

text \<open>
  The payload files of snapshots (dsh-raft \<open>store.rs\<close>): the 20-byte header with length and checksum of
  the body, the body of key-value pairs, its verification, and the reader that hands the pairs out in
  batches under a byte budget. The primitives of the msgpack package (rmp) and the JSON parser of
  serde_json are the parameter \<open>formats\<close>. A file is its content.
\<close>

section \<open>The header\<close>

definition PAYLOAD_MAGIC :: bytes where
  "PAYLOAD_MAGIC = [0x44, 0x53, 0x48, 0x53, 0x4E, 0x50]"

definition PAYLOAD_HEADER_LEN :: nat where "PAYLOAD_HEADER_LEN = 20"
definition PAYLOAD_VERSION_JSON :: byte where "PAYLOAD_VERSION_JSON = 1"
definition PAYLOAD_VERSION_MSGPACK :: byte where "PAYLOAD_VERSION_MSGPACK = 2"

datatype payload_error = Bad_Magic | Header_Truncated | Bad_Flags byte | Bad_Version byte | Body_Length | Body_Crc
  | Array_Header | Item_Header | Item_Fields "32 word" | Bin_Length | Bin_Truncated | Json | Too_Many | Too_Long

definition encode_payload_header :: "byte \<Rightarrow> byte \<Rightarrow> 64 word \<Rightarrow> 32 word \<Rightarrow> bytes" where
  "encode_payload_header version flags total_len crc =
     PAYLOAD_MAGIC @ [version, flags] @ le_bytes 8 total_len @ le_bytes 4 crc"

definition decode_payload_header :: "bytes \<Rightarrow> payload_error + (byte \<times> byte \<times> 64 word \<times> 32 word)" where
  "decode_payload_header head =
     (if take 6 head \<noteq> PAYLOAD_MAGIC then Inl Bad_Magic
      else Inr (head ! 6, head ! 7, of_le_bytes (take 8 (drop 8 head)), of_le_bytes (take 4 (drop 16 head))))"

text \<open>\<open>read_upto\<close>: the buffer is filled, or the file is at its end.\<close>

definition read_upto :: "nat \<Rightarrow> bytes \<Rightarrow> bytes" where
  "read_upto n file = take n file"

text \<open>What the readers decide on the head of a file: it has no header, or a whole one, or is cut short.\<close>

definition has_magic :: "bytes \<Rightarrow> bool" where
  "has_magic head \<longleftrightarrow> length head \<ge> length PAYLOAD_MAGIC \<and> take (length PAYLOAD_MAGIC) head = PAYLOAD_MAGIC"

text \<open>The length and the checksum of the body, counted while it is read to the end.\<close>

definition check_body :: "64 word \<Rightarrow> 32 word \<Rightarrow> bytes \<Rightarrow> payload_error + unit" where
  "check_body total_len crc body =
     (if of_nat (length body) \<noteq> total_len then Inl Body_Length
      else if crc_of body \<noteq> crc then Inl Body_Crc
      else Inr ())"

definition verify_payload_file :: "bytes \<Rightarrow> payload_error + unit" where
  "verify_payload_file file = (let head = read_upto PAYLOAD_HEADER_LEN file in
     if \<not> has_magic head then Inr ()
     else if length head < PAYLOAD_HEADER_LEN then Inl Header_Truncated
     else bindE (decode_payload_header head) (\<lambda>(version, flags, total_len, crc).
       if version \<noteq> PAYLOAD_VERSION_JSON \<and> version \<noteq> PAYLOAD_VERSION_MSGPACK then Inl (Bad_Version version)
       else check_body total_len crc (drop PAYLOAD_HEADER_LEN file)))"

section \<open>Pairs\<close>

type_synonym pairs = "(bytes \<times> bytes) list"

record formats =
  write_array_len :: "32 word \<Rightarrow> bytes"
  read_array_len :: "bytes \<Rightarrow> (32 word \<times> bytes) option"
  write_bin :: "bytes \<Rightarrow> bytes"
  read_bin_len :: "bytes \<Rightarrow> (32 word \<times> bytes) option"
  from_json :: "bytes \<Rightarrow> pairs option"

definition write_msgpack_pair :: "formats \<Rightarrow> bytes \<times> bytes \<Rightarrow> payload_error + bytes" where
  "write_msgpack_pair m p =
     (if length (fst p) > 2 ^ 32 - 1 \<or> length (snd p) > 2 ^ 32 - 1 then Inl Too_Long
      else Inr (write_array_len m 2 @ write_bin m (fst p) @ write_bin m (snd p)))"

text \<open>The loop over the pages of the dump.\<close>

definition write_pairs :: "formats \<Rightarrow> pairs \<Rightarrow> bytes \<Rightarrow> payload_error + bytes" where
  "write_pairs m ps out = foldE (\<lambda>p out. bindE (write_msgpack_pair m p) (\<lambda>b. Inr (out @ b))) ps out"

definition write_body :: "formats \<Rightarrow> nat \<Rightarrow> pairs list \<Rightarrow> payload_error + bytes" where
  "write_body m count pages =
     (if count > 2 ^ 32 - 1 then Inl Too_Many
      else foldE (write_pairs m) pages (write_array_len m (of_nat count)))"

definition write_payload_v2_streamed :: "(payload_error + bytes) \<Rightarrow> payload_error + bytes" where
  "write_payload_v2_streamed body = bindE body (\<lambda>b.
     Inr (encode_payload_header PAYLOAD_VERSION_MSGPACK 0 (of_nat (length b)) (crc_of b) @ b))"

definition decode_slot :: "formats \<Rightarrow> bytes \<Rightarrow> payload_error + (bytes \<times> bytes)" where
  "decode_slot m r = (case read_bin_len m r of
     None \<Rightarrow> Inl Bin_Length
   | Some (len, r) \<Rightarrow> let slot = take (unat len) r in
       if length slot \<noteq> unat len then Inl Bin_Truncated else Inr (slot, drop (unat len) r))"

definition decode_msgpack_pair :: "formats \<Rightarrow> bytes \<Rightarrow> payload_error + ((bytes \<times> bytes) \<times> bytes)" where
  "decode_msgpack_pair m r = (case read_array_len m r of
     None \<Rightarrow> Inl Item_Header
   | Some (nf, r) \<Rightarrow>
       if nf \<noteq> 2 then Inl (Item_Fields nf)
       else bindE (decode_slot m r) (\<lambda>(k, r). bindE (decode_slot m r) (\<lambda>(v, r). Inr ((k, v), r))))"

fun decode_items :: "formats \<Rightarrow> nat \<Rightarrow> bytes \<Rightarrow> payload_error + pairs" where
  "decode_items m 0 r = Inr []"
| "decode_items m (Suc n) r =
     bindE (decode_msgpack_pair m r) (\<lambda>(p, r). bindE (decode_items m n r) (\<lambda>ps. Inr (p # ps)))"

definition decode_msgpack_pairs :: "formats \<Rightarrow> bytes \<Rightarrow> payload_error + pairs" where
  "decode_msgpack_pairs m r = (case read_array_len m r of
     None \<Rightarrow> Inl Array_Header
   | Some (n, r) \<Rightarrow> decode_items m (unat n) r)"

text \<open>
  \<open>read_payload_pairs\<close>: the body is parsed and then read to its end, so that length and checksum
  cover all of it. A file without a header is JSON from its first byte on.
\<close>

definition read_payload_pairs :: "formats \<Rightarrow> bytes \<Rightarrow> payload_error + pairs" where
  "read_payload_pairs m file = (let head = read_upto PAYLOAD_HEADER_LEN file in
     if has_magic head then
       if length head < PAYLOAD_HEADER_LEN then Inl Header_Truncated
       else bindE (decode_payload_header head) (\<lambda>(version, flags, total_len, crc).
         if flags \<noteq> 0 then Inl (Bad_Flags flags)
         else let body = drop PAYLOAD_HEADER_LEN file in
           bindE (if version = PAYLOAD_VERSION_JSON then ok_or Json (from_json m body)
                  else if version = PAYLOAD_VERSION_MSGPACK then decode_msgpack_pairs m body
                  else Inl (Bad_Version version)) (\<lambda>ps.
             bindE (check_body total_len crc body) (\<lambda>u. Inr ps)))
     else ok_or Json (from_json m file))"

section \<open>Batches\<close>

datatype payload_source = Msgpack bytes nat | Whole pairs

definition pair_len :: "bytes \<times> bytes \<Rightarrow> nat" where
  "pair_len p = length (fst p) + length (snd p)"

fun whole_batch :: "nat \<Rightarrow> nat \<Rightarrow> pairs \<Rightarrow> pairs \<times> pairs" where
  "whole_batch budget b [] = ([], [])"
| "whole_batch budget b (p # ps) =
     (if b + pair_len p \<ge> budget then ([p], ps)
      else let (batch, rest) = whole_batch budget (b + pair_len p) ps in (p # batch, rest))"

text \<open>The loop of the msgpack source: \<open>first\<close> is that the batch is empty.\<close>

fun msgpack_batch ::
  "formats \<Rightarrow> nat \<Rightarrow> bool \<Rightarrow> nat \<Rightarrow> bytes \<Rightarrow> nat \<Rightarrow> payload_error + (pairs \<times> bytes \<times> nat)" where
  "msgpack_batch m budget first b r 0 = Inr ([], r, 0)"
| "msgpack_batch m budget first b r (Suc n) =
     (if b < budget \<or> first then
        bindE (decode_msgpack_pair m r) (\<lambda>(p, r).
          bindE (msgpack_batch m budget False (b + pair_len p) r n) (\<lambda>(batch, r, n). Inr (p # batch, r, n)))
      else Inr ([], r, Suc n))"

definition next_batch ::
  "formats \<Rightarrow> nat \<Rightarrow> payload_source \<Rightarrow> (payload_error + (pairs \<times> payload_source)) option" where
  "next_batch m budget s = (case s of
     Whole ps \<Rightarrow>
       let (batch, rest) = whole_batch budget 0 ps in if batch = [] then None else Some (Inr (batch, Whole rest))
   | Msgpack r n \<Rightarrow>
       if n = 0 then None
       else Some (bindE (msgpack_batch m budget True 0 r n) (\<lambda>(batch, r, n). Inr (batch, Msgpack r n))))"

definition read_payload_batches :: "formats \<Rightarrow> bytes \<Rightarrow> nat \<Rightarrow> payload_error + (nat \<times> payload_source)" where
  "read_payload_batches m file budget = (let head = read_upto PAYLOAD_HEADER_LEN file in
     if has_magic head then
       if length head < PAYLOAD_HEADER_LEN then Inl Header_Truncated
       else bindE (decode_payload_header head) (\<lambda>(version, flags, total_len, crc).
         if flags \<noteq> 0 then Inl (Bad_Flags flags)
         else if version = PAYLOAD_VERSION_MSGPACK then
           bindE (verify_payload_file file) (\<lambda>u.
             if of_nat (length file) \<noteq> of_nat PAYLOAD_HEADER_LEN + total_len then Inl Body_Length
             else case read_array_len m (drop PAYLOAD_HEADER_LEN file) of
                 None \<Rightarrow> Inl Array_Header
               | Some (n, r) \<Rightarrow> Inr (max budget 1, Msgpack r (unat n)))
         else if version = PAYLOAD_VERSION_JSON then
           bindE (read_payload_pairs m file) (\<lambda>ps. Inr (max budget 1, Whole ps))
         else Inl (Bad_Version version))
     else bindE (read_payload_pairs m file) (\<lambda>ps. Inr (max budget 1, Whole ps)))"

text \<open>All batches, up to the first error: what the restore that drives the iterator gets.\<close>

definition source_size :: "payload_source \<Rightarrow> nat" where
  "source_size s = (case s of Msgpack r n \<Rightarrow> n | Whole ps \<Rightarrow> length ps)"

lemma whole_batch_append: "whole_batch budget b ps = (batch, rest) \<Longrightarrow> batch @ rest = ps \<and> (ps \<noteq> [] \<longrightarrow> batch \<noteq> [])"
  by (induction budget b ps arbitrary: batch rest rule: whole_batch.induct) (force split: if_splits prod.splits)+

lemma msgpack_batch_size:
  "msgpack_batch m budget first b r n = Inr (batch, r', n') \<Longrightarrow> length batch + n' = n \<and> (first \<longrightarrow> n > 0 \<longrightarrow> batch \<noteq> [])"
  by (induction m budget first b r n arbitrary: batch r' n' rule: msgpack_batch.induct) (force split: if_splits prod.splits)+

lemma next_batch_smaller:
  "next_batch m budget s = Some (Inr (batch, s')) \<Longrightarrow> source_size s' < source_size s \<and> batch \<noteq> []"
  by (auto simp: next_batch_def source_size_def Let_def split: payload_source.splits prod.splits if_splits
      dest!: whole_batch_append msgpack_batch_size)

function all_batches :: "formats \<Rightarrow> nat \<Rightarrow> payload_source \<Rightarrow> (payload_error + pairs) list" where
  "all_batches m budget s = (case next_batch m budget s of
     None \<Rightarrow> []
   | Some (Inl e) \<Rightarrow> [Inl e]
   | Some (Inr (batch, s')) \<Rightarrow> Inr batch # all_batches m budget s')"
  by auto
termination
  by (relation "measure (\<lambda>(m, budget, s). source_size s)") (auto dest: next_batch_smaller)

declare all_batches.simps [simp del]

section \<open>Writing and reading back\<close>

text \<open>
  What the code relies on of the msgpack primitives: what is written is read back, from the front of
  whatever follows.
\<close>

definition formats_ok :: "formats \<Rightarrow> bool" where
  "formats_ok m \<longleftrightarrow> (\<forall>n x. read_array_len m (write_array_len m n @ x) = Some (n, x)) \<and>
     (\<forall>b x. length b < 2 ^ 32 \<longrightarrow> read_bin_len m (write_bin m b @ x) = Some (of_nat (length b), b @ x))"

definition short_pair :: "bytes \<times> bytes \<Rightarrow> bool" where
  "short_pair p \<longleftrightarrow> length (fst p) < 2 ^ 32 \<and> length (snd p) < 2 ^ 32"

text \<open>The body of a list of pairs without its length.\<close>

definition pair_bytes :: "formats \<Rightarrow> bytes \<times> bytes \<Rightarrow> bytes" where
  "pair_bytes m p = write_array_len m 2 @ write_bin m (fst p) @ write_bin m (snd p)"

lemma unat_small: "n < 2 ^ 32 \<Longrightarrow> unat (of_nat n :: 32 word) = n"
  by (simp add: unat_of_nat)

lemma of_nat64_eq: "i < 2 ^ 64 \<Longrightarrow> n < 2 ^ 64 \<Longrightarrow> of_nat i = (of_nat n :: 64 word) \<longleftrightarrow> i = n"
proof -
  have "unat (of_nat k :: 64 word) = k" if "k < 2 ^ 64" for k using that by (simp add: unat_of_nat)
  then show "i < 2 ^ 64 \<Longrightarrow> n < 2 ^ 64 \<Longrightarrow> of_nat i = (of_nat n :: 64 word) \<longleftrightarrow> i = n" by metis
qed

lemma decode_slot_bin: "formats_ok m \<Longrightarrow> length b < 2 ^ 32 \<Longrightarrow> decode_slot m (write_bin m b @ x) = Inr (b, x)"
  by (simp add: decode_slot_def formats_ok_def unat_small)

lemma decode_pair_bytes:
  "formats_ok m \<Longrightarrow> short_pair p \<Longrightarrow> decode_msgpack_pair m (pair_bytes m p @ x) = Inr (p, x)"
  by (simp add: decode_msgpack_pair_def pair_bytes_def decode_slot_bin short_pair_def formats_ok_def)

lemma write_msgpack_pair_iff: "write_msgpack_pair m p = Inr b \<longleftrightarrow> short_pair p \<and> b = pair_bytes m p"
  by (auto simp: write_msgpack_pair_def short_pair_def pair_bytes_def)

lemma write_pairs_iff:
  "write_pairs m ps out = Inr b \<longleftrightarrow> (\<forall>p \<in> set ps. short_pair p) \<and> b = out @ concat (map (pair_bytes m) ps)"
  unfolding write_pairs_def
  by (induction ps arbitrary: out) (auto simp: bindE_Inr_iff write_msgpack_pair_iff)

lemma write_pages_iff:
  "foldE (write_pairs m) pages out = Inr b \<longleftrightarrow>
     (\<forall>p \<in> set (concat pages). short_pair p) \<and> b = out @ concat (map (pair_bytes m) (concat pages))"
  by (induction pages arbitrary: out) (auto simp: bindE_Inr_iff write_pairs_iff)

lemma write_body_iff:
  "write_body m n pages = Inr b \<longleftrightarrow> n < 2 ^ 32 \<and> (\<forall>p \<in> set (concat pages). short_pair p) \<and>
     b = write_array_len m (of_nat n) @ concat (map (pair_bytes m) (concat pages))"
  by (auto simp: write_body_def write_pages_iff)

lemma magic_length [simp]: "length PAYLOAD_MAGIC = 6"
  by (simp add: PAYLOAD_MAGIC_def)

lemma header_length: "length (encode_payload_header v f t c) = PAYLOAD_HEADER_LEN"
  by (simp add: encode_payload_header_def PAYLOAD_HEADER_LEN_def)

lemma header_magic: "has_magic (encode_payload_header v f t c)"
  by (simp add: has_magic_def encode_payload_header_def)

text \<open>The header is read back.\<close>

lemma decode_encode_header: "decode_payload_header (encode_payload_header v f t c) = Inr (v, f, t, c)"
proof -
  have "encode_payload_header v f t c ! 6 = v" "encode_payload_header v f t c ! 7 = f"
    "drop 8 (encode_payload_header v f t c) = le_bytes 8 t @ le_bytes 4 c"
    "drop 16 (encode_payload_header v f t c) = le_bytes 4 c"
    by (simp_all add: encode_payload_header_def PAYLOAD_MAGIC_def eval_nat_numeral)
  then show ?thesis
    by (simp add: decode_payload_header_def encode_payload_header_def)
qed

lemma file_header:
  assumes "file = encode_payload_header v f t c @ body"
  shows "read_upto PAYLOAD_HEADER_LEN file = encode_payload_header v f t c" "drop PAYLOAD_HEADER_LEN file = body"
  using assms by (simp_all add: read_upto_def flip: header_length [of v f t c])

lemma verify_v2:
  "verify_payload_file (encode_payload_header PAYLOAD_VERSION_MSGPACK 0 t c @ body) = check_body t c body"
  by (simp add: verify_payload_file_def file_header [OF refl] header_magic header_length decode_encode_header
      Let_def)

lemma msgpack_batch_pairs:
  assumes "formats_ok m" "\<forall>p \<in> set ps. short_pair p"
  shows "\<exists>batch rest. msgpack_batch m budget first b (concat (map (pair_bytes m) ps)) (length ps) =
      Inr (batch, concat (map (pair_bytes m) rest), length rest) \<and> ps = batch @ rest"
  using assms(2)
proof (induction ps arbitrary: first b)
  case (Cons p ps)
  show ?case
  proof (cases "b < budget \<or> first")
    case True
    obtain batch rest where "msgpack_batch m budget False (b + pair_len p) (concat (map (pair_bytes m) ps)) (length ps) =
      Inr (batch, concat (map (pair_bytes m) rest), length rest)" "ps = batch @ rest"
      using Cons by fastforce
    then show ?thesis
      using True Cons.prems decode_pair_bytes [OF assms(1)]
      by (intro exI [of _ "p # batch"] exI [of _ rest]) simp
  next
    case False
    then show ?thesis by (intro exI [of _ "[]"] exI [of _ "p # ps"]) simp
  qed
qed simp

lemma all_batches_pairs:
  assumes "formats_ok m" "\<forall>p \<in> set ps. short_pair p"
  shows "\<exists>bs. all_batches m budget (Msgpack (concat (map (pair_bytes m) ps)) (length ps)) = map Inr bs \<and>
    concat bs = ps \<and> [] \<notin> set bs"
  using assms(2)
proof (induction ps rule: length_induct)
  case (1 ps)
  show ?case
  proof (cases "ps = []")
    case True
    then show ?thesis by (subst all_batches.simps) (simp add: next_batch_def)
  next
    case False
    obtain batch rest where b: "msgpack_batch m budget True 0 (concat (map (pair_bytes m) ps)) (length ps) =
      Inr (batch, concat (map (pair_bytes m) rest), length rest)" "ps = batch @ rest"
      using msgpack_batch_pairs [OF assms(1) 1(2)] by blast
    have "batch \<noteq> []" using msgpack_batch_size [OF b(1)] False by (meson length_greater_0_conv)
    obtain bs where bs: "all_batches m budget (Msgpack (concat (map (pair_bytes m) rest)) (length rest)) = map Inr bs"
      "concat bs = rest" "[] \<notin> set bs"
    proof -
      have "length rest < length ps" "\<forall>p \<in> set rest. short_pair p" using b(2) \<open>batch \<noteq> []\<close> 1(2) by auto
      with 1(1) show ?thesis using that by blast
    qed
    have "all_batches m budget (Msgpack (concat (map (pair_bytes m) ps)) (length ps)) = Inr batch # map Inr bs"
      using b(1) bs(1) False by (subst all_batches.simps) (simp add: next_batch_def)
    then show ?thesis using b(2) bs(2,3) \<open>batch \<noteq> []\<close> by (intro exI [of _ "batch # bs"]) simp
  qed
qed

text \<open>
  C28: A payload file that the streamed writer made is verified, and read back in batches of any budget
  it yields the pairs of the dump in order, in batches that are never empty.
\<close>
theorem payload_roundtrip:
  assumes "formats_ok m" "write_payload_v2_streamed (write_body m (length (concat pages)) pages) = Inr file"
    and "length file < 2 ^ 64"
  shows "verify_payload_file file = Inr () \<and>
    (\<exists>src bs. read_payload_batches m file budget = Inr (max budget 1, src) \<and>
       all_batches m (max budget 1) src = map Inr bs \<and> concat bs = concat pages \<and> [] \<notin> set bs)"
proof -
  let ?ps = "concat pages"
  let ?body = "write_array_len m (of_nat (length ?ps)) @ concat (map (pair_bytes m) ?ps)"
  let ?len = "of_nat (length ?body) :: 64 word"
  have body: "length ?ps < 2 ^ 32" "\<forall>p \<in> set ?ps. short_pair p"
    and whole: "file = encode_payload_header PAYLOAD_VERSION_MSGPACK 0 ?len (crc_of ?body) @ ?body"
    using assms(2) by (auto simp: write_payload_v2_streamed_def write_body_iff)
  have verified: "verify_payload_file file = Inr ()"
    unfolding whole verify_v2 by (simp add: check_body_def)
  have "of_nat (length file) = (of_nat PAYLOAD_HEADER_LEN :: 64 word) + ?len"
    unfolding whole length_append header_length by simp
  then have "read_payload_batches m file budget =
      Inr (max budget 1, Msgpack (concat (map (pair_bytes m) ?ps)) (length ?ps))"
    using assms(1) verified unat_small [OF body(1)]
    by (simp add: read_payload_batches_def file_header [OF whole] header_magic header_length decode_encode_header
        formats_ok_def Let_def)
  then show ?thesis using verified all_batches_pairs [OF assms(1) body(2)] by blast
qed

text \<open>
  C29: Damage is refused before anything is read from the body: a file with a payload header whose body
  differs from the written one in one byte, or is cut or extended, fails the verification and gives
  no batches.
\<close>
theorem damaged_payload_refused:
  assumes "file = encode_payload_header PAYLOAD_VERSION_MSGPACK 0 (of_nat (length body)) (crc_of body) @ body'"
    and "length body < 2 ^ 64" "length body' < 2 ^ 64"
    and "length body' \<noteq> length body \<or> (\<exists>xs ys a b. body = xs @ a # ys \<and> body' = xs @ b # ys \<and> a \<noteq> b)"
  shows "verify_payload_file file \<in> {Inl Body_Length, Inl Body_Crc} \<and>
    read_payload_batches m file budget \<in> {Inl Body_Length, Inl Body_Crc}"
proof -
  have "crc_of (xs @ a # ys) = crc_of (xs @ b # ys) \<longleftrightarrow> a = b" for xs ys a b
    by (auto simp: crc_of_bitwise fold_crc_inject crc_bitwise_byte)
  then have "length body' \<noteq> length body \<or> crc_of body' \<noteq> crc_of body" using assms(4) by auto
  moreover have "of_nat (length body') = (of_nat (length body) :: 64 word) \<longleftrightarrow> length body' = length body"
    using assms(2,3) by (rule of_nat64_eq [rotated])
  ultimately have bad: "check_body (of_nat (length body)) (crc_of body) body' \<in> {Inl Body_Length, Inl Body_Crc}"
    by (auto simp: check_body_def)
  then have refused: "verify_payload_file file \<in> {Inl Body_Length, Inl Body_Crc}"
    unfolding assms(1) verify_v2 .
  moreover have "read_payload_batches m file budget = bindE (verify_payload_file file) (\<lambda>u.
      if of_nat (length file) \<noteq> of_nat PAYLOAD_HEADER_LEN + (of_nat (length body) :: 64 word) then Inl Body_Length
      else case read_array_len m body' of None \<Rightarrow> Inl Array_Header | Some (n, r) \<Rightarrow> Inr (max budget 1, Msgpack r (unat n)))"
    by (simp add: read_payload_batches_def file_header [OF assms(1)] header_magic header_length decode_encode_header Let_def)
  ultimately show ?thesis by (auto simp del: One_nat_def)
qed

section \<open>A sample file\<close>

text \<open>Formats that keep what the code relies on: four little-endian bytes for a length.\<close>

definition sample_formats :: formats where
  "sample_formats = \<lparr>write_array_len = le_bytes 4,
     read_array_len = (\<lambda>b. if length b < 4 then None else Some (of_le_bytes (take 4 b), drop 4 b)),
     write_bin = (\<lambda>b. le_bytes 4 (of_nat (length b) :: 32 word) @ b),
     read_bin_len = (\<lambda>b. if length b < 4 then None else Some (of_le_bytes (take 4 b), drop 4 b)),
     from_json = (\<lambda>b. None)\<rparr>"

lemma sample_formats_ok: "formats_ok sample_formats"
  by (simp add: formats_ok_def sample_formats_def)

theorem payload_roundtrip_witness:
  "\<exists>file src bs. write_payload_v2_streamed (write_body sample_formats 2 [[([1], [2])], [([3], [])]]) = Inr file \<and>
     read_payload_batches sample_formats file 0 = Inr (1, src) \<and> all_batches sample_formats 1 src = map Inr bs \<and>
     concat bs = [([1], [2]), ([3], [])]"
proof -
  let ?pages = "[[([1], [2])], [([3], [])]] :: pairs list"
  let ?b = "write_array_len sample_formats 2 @ concat (map (pair_bytes sample_formats) (concat ?pages))"
  have two: "length (concat ?pages) = 2" by simp
  have body: "write_body sample_formats 2 ?pages = Inr ?b" by (simp add: write_body_iff short_pair_def)
  have w: "write_payload_v2_streamed (write_body sample_formats (length (concat ?pages)) ?pages) =
      Inr (encode_payload_header PAYLOAD_VERSION_MSGPACK 0 (of_nat (length ?b)) (crc_of ?b) @ ?b)"
    unfolding two body write_payload_v2_streamed_def by (simp only: bindE_simps)
  have "length ?b = 31" by (simp add: sample_formats_def pair_bytes_def)
  then have "length (encode_payload_header PAYLOAD_VERSION_MSGPACK 0 (of_nat (length ?b)) (crc_of ?b) @ ?b) < 2 ^ 64"
    unfolding length_append header_length by (simp add: PAYLOAD_HEADER_LEN_def)
  from payload_roundtrip [OF sample_formats_ok w this, of 0] obtain src bs where
    r: "read_payload_batches sample_formats (encode_payload_header PAYLOAD_VERSION_MSGPACK 0 (of_nat (length ?b))
      (crc_of ?b) @ ?b) 0 = Inr (max 0 1, src)"
    "all_batches sample_formats (max 0 1) src = map Inr bs" "concat bs = concat ?pages" by blast
  have "max 0 1 = (1 :: nat)" "concat ?pages = [([1], [2]), ([3], [])]" by simp_all
  with r w [unfolded two] show ?thesis by metis
qed

theorem damaged_payload_refused_witness:
  "verify_payload_file (encode_payload_header PAYLOAD_VERSION_MSGPACK 0 2 (crc_of [1, 2]) @ [1, 3])
     \<in> {Inl Body_Length, Inl Body_Crc}"
proof -
  have "\<exists>xs ys a b. [1, 2 :: byte] = xs @ a # ys \<and> [1, 3] = xs @ b # ys \<and> a \<noteq> b"
    by (rule exI [of _ "[1]"], rule exI [of _ "[]"], rule exI [of _ 2], rule exI [of _ 3]) simp
  then show ?thesis
    using damaged_payload_refused [of _ "[1, 2]" "[1, 3]", OF refl] by simp
qed

end
