(* ===== verification/Durable.thy ===== *)
theory Durable
  imports Prelude
begin

text \<open>
  Programs that write to durable storage, with every way they can be interrupted. A program reads a
  state, makes a sequence of durable writes (a committed transaction, a file operation) and ends in a
  value, in an error, or in a crash of the process. A list of faults says what happens at each write:
  it is made, it fails without effect, or the process dies before it; past the end of the list every
  write is made. A theorem about all fault lists is a theorem about a crash and about input/output
  errors at every point.

  The triples below are the rules of a Hoare logic with three postconditions.
\<close>

datatype fault = Fine | Fails | Crashes

datatype ('e, 'a) ending = Done 'a | Err 'e | Crashed

type_synonym ('n, 'e, 'a) program = "fault list \<Rightarrow> 'n \<Rightarrow> fault list \<times> 'n \<times> ('e, 'a) ending"

definition ret :: "'a \<Rightarrow> ('n, 'e, 'a) program" where
  "ret x = (\<lambda>fs n. (fs, n, Done x))"

definition raise :: "'e \<Rightarrow> ('n, 'e, 'a) program" where
  "raise e = (\<lambda>fs n. (fs, n, Err e))"

definition reads :: "('n \<Rightarrow> 'a) \<Rightarrow> ('n, 'e, 'a) program" where
  "reads g = (\<lambda>fs n. (fs, n, Done (g n)))"

text \<open>A change of the memory of the process only.\<close>

definition modify :: "('n \<Rightarrow> 'n) \<Rightarrow> ('n, 'e, unit) program" where
  "modify f = (\<lambda>fs n. (fs, f n, Done ()))"

text \<open>A durable write, with the error it gives when it fails.\<close>

definition durably :: "'e \<Rightarrow> ('n \<Rightarrow> 'n) \<Rightarrow> ('n, 'e, unit) program" where
  "durably e f = (\<lambda>fs n. case fs of
     [] \<Rightarrow> ([], f n, Done ())
   | Fine # fs \<Rightarrow> (fs, f n, Done ())
   | Fails # fs \<Rightarrow> (fs, n, Err e)
   | Crashes # fs \<Rightarrow> (fs, n, Crashed))"

definition seq :: "('n, 'e, 'a) program \<Rightarrow> ('a \<Rightarrow> ('n, 'e, 'b) program) \<Rightarrow> ('n, 'e, 'b) program" where
  "seq p f = (\<lambda>fs n. case p fs n of
     (fs, n, Done x) \<Rightarrow> f x fs n
   | (fs, n, Err e) \<Rightarrow> (fs, n, Err e)
   | (fs, n, Crashed) \<Rightarrow> (fs, n, Crashed))"

definition catch :: "('n, 'e, 'a) program \<Rightarrow> ('e \<Rightarrow> ('n, 'e, 'a) program) \<Rightarrow> ('n, 'e, 'a) program" where
  "catch p h = (\<lambda>fs n. case p fs n of
     (fs, n, Done x) \<Rightarrow> (fs, n, Done x)
   | (fs, n, Err e) \<Rightarrow> h e fs n
   | (fs, n, Crashed) \<Rightarrow> (fs, n, Crashed))"

text \<open>A best-effort write: a failure is ignored, a crash is not.\<close>

definition try_durably :: "('n \<Rightarrow> 'n) \<Rightarrow> ('n, 'e, unit) program" where
  "try_durably f = (\<lambda>fs n. case fs of
     [] \<Rightarrow> ([], f n, Done ())
   | Fine # fs \<Rightarrow> (fs, f n, Done ())
   | Fails # fs \<Rightarrow> (fs, n, Done ())
   | Crashes # fs \<Rightarrow> (fs, n, Crashed))"

definition lift_res :: "'e + 'a \<Rightarrow> ('n, 'e, 'a) program" where
  "lift_res r = (case r of Inl e \<Rightarrow> raise e | Inr x \<Rightarrow> ret x)"

section \<open>Triples\<close>

definition triple ::
  "('n \<Rightarrow> bool) \<Rightarrow> ('n, 'e, 'a) program \<Rightarrow> ('a \<Rightarrow> 'n \<Rightarrow> bool) \<Rightarrow> ('n \<Rightarrow> bool) \<Rightarrow> ('n \<Rightarrow> bool) \<Rightarrow> bool" where
  "triple P p Q F C \<longleftrightarrow> (\<forall>fs n. P n \<longrightarrow> (case p fs n of
     (fs', n', Done x) \<Rightarrow> Q x n'
   | (fs', n', Err e) \<Rightarrow> F n'
   | (fs', n', Crashed) \<Rightarrow> C n'))"

named_theorems triples \<open>rules of the triples\<close>

lemma triple_ret [triples]: "(\<And>n. P n \<Longrightarrow> Q x n) \<Longrightarrow> triple P (ret x) Q F C"
  by (simp add: triple_def ret_def)

lemma triple_raise [triples]: "(\<And>n. P n \<Longrightarrow> F n) \<Longrightarrow> triple P (raise e) Q F C"
  by (simp add: triple_def raise_def)

lemma triple_reads [triples]: "(\<And>n. P n \<Longrightarrow> Q (g n) n) \<Longrightarrow> triple P (reads g) Q F C"
  by (simp add: triple_def reads_def)

lemma triple_modify [triples]: "(\<And>n. P n \<Longrightarrow> Q () (f n)) \<Longrightarrow> triple P (modify f) Q F C"
  by (simp add: triple_def modify_def)

lemma triple_durably [triples]:
  assumes "\<And>n. P n \<Longrightarrow> Q () (f n)" "\<And>n. P n \<Longrightarrow> F n" "\<And>n. P n \<Longrightarrow> C n"
  shows "triple P (durably e f) Q F C"
  using assms by (auto simp: triple_def durably_def split: list.splits fault.splits)

lemma triple_seq [triples]:
  assumes "triple P p R F C" "\<And>x. triple (R x) (f x) Q F C"
  shows "triple P (seq p f) Q F C"
  unfolding triple_def
proof (intro allI impI)
  fix fs n assume "P n"
  obtain fs' n' r where p: "p fs n = (fs', n', r)" by (cases "p fs n") auto
  then show "case seq p f fs n of (fs', n', Done x) \<Rightarrow> Q x n' | (fs', n', Err e) \<Rightarrow> F n' | (fs', n', Crashed) \<Rightarrow> C n'"
    using assms(1)[unfolded triple_def, rule_format, of n fs] \<open>P n\<close>
      assms(2)[unfolded triple_def, rule_format] by (cases r) (auto simp: seq_def)
qed

lemma triple_catch [triples]:
  assumes "triple P p Q G C" "\<And>e. triple G (h e) Q F C"
  shows "triple P (catch p h) Q F C"
  unfolding triple_def
proof (intro allI impI)
  fix fs n assume "P n"
  obtain fs' n' r where p: "p fs n = (fs', n', r)" by (cases "p fs n") auto
  then show "case catch p h fs n of (fs', n', Done x) \<Rightarrow> Q x n' | (fs', n', Err e) \<Rightarrow> F n' | (fs', n', Crashed) \<Rightarrow> C n'"
    using assms(1)[unfolded triple_def, rule_format, of n fs] \<open>P n\<close>
      assms(2)[unfolded triple_def, rule_format] by (cases r) (auto simp: catch_def)
qed

lemma triple_lift_res [triples]:
  assumes "\<And>x n. P n \<Longrightarrow> r = Inr x \<Longrightarrow> Q x n" "\<And>e n. P n \<Longrightarrow> r = Inl e \<Longrightarrow> F n"
  shows "triple P (lift_res r) Q F C"
  using assms by (auto simp: triple_def lift_res_def ret_def raise_def split: sum.splits)

lemma triple_try_durably [triples]:
  assumes "\<And>n. P n \<Longrightarrow> Q () (f n)" "\<And>n. P n \<Longrightarrow> Q () n" "\<And>n. P n \<Longrightarrow> C n"
  shows "triple P (try_durably f) Q F C"
  using assms by (auto simp: triple_def try_durably_def split: list.splits fault.splits)

lemma triple_conseq:
  assumes "triple P p Q F C" "\<And>n. P' n \<Longrightarrow> P n" "\<And>x n. Q x n \<Longrightarrow> Q' x n" "\<And>n. F n \<Longrightarrow> F' n" "\<And>n. C n \<Longrightarrow> C' n"
  shows "triple P' p Q' F' C'"
  unfolding triple_def
proof (intro allI impI)
  fix fs n assume "P' n"
  obtain fs' n' r where p: "p fs n = (fs', n', r)" by (cases "p fs n") auto
  then show "case p fs n of (fs', n', Done x) \<Rightarrow> Q' x n' | (fs', n', Err e) \<Rightarrow> F' n' | (fs', n', Crashed) \<Rightarrow> C' n'"
    using assms(1)[unfolded triple_def, rule_format, OF assms(2) [OF \<open>P' n\<close>], of fs] assms(3-5)
    by (cases r) auto
qed

lemma triple_conj:
  assumes "triple P p Q F C" "triple P' p Q' F' C'"
  shows "triple (\<lambda>n. P n \<and> P' n) p (\<lambda>x n. Q x n \<and> Q' x n) (\<lambda>n. F n \<and> F' n) (\<lambda>n. C n \<and> C' n)"
  unfolding triple_def
proof (intro allI impI)
  fix fs n assume "P n \<and> P' n"
  obtain fs' n' r where p: "p fs n = (fs', n', r)" by (cases "p fs n") auto
  then show "case p fs n of (fs', n', Done x) \<Rightarrow> Q x n' \<and> Q' x n' | (fs', n', Err e) \<Rightarrow> F n' \<and> F' n'
      | (fs', n', Crashed) \<Rightarrow> C n' \<and> C' n'"
    using assms(1)[unfolded triple_def, rule_format, of n fs] assms(2)[unfolded triple_def, rule_format, of n fs]
      \<open>P n \<and> P' n\<close> by (cases r) auto
qed

lemma triple_pre: "(\<And>n. P n \<Longrightarrow> False) \<Longrightarrow> triple P p Q F C"
  by (auto simp: triple_def)

lemma triple_cases: "(b \<Longrightarrow> triple P p Q F C) \<Longrightarrow> (\<not> b \<Longrightarrow> triple P q Q F C) \<Longrightarrow> triple P (if b then p else q) Q F C"
  by simp

lemma tripleD:
  assumes "triple P p Q F C" "P n" "p fs n = (fs', n', r)"
  shows "case r of Done x \<Rightarrow> Q x n' | Err e \<Rightarrow> F n' | Crashed \<Rightarrow> C n'"
  using assms(1)[unfolded triple_def, rule_format, OF assms(2), of fs] assms(3) by (cases r) auto

end
