(* ===== verification/Install.thy ===== *)
theory Install
  imports Account_Inv Writes Payload Durable
begin

text \<open>
  The state machine store of dsh-raft (\<open>store.rs\<close>): applying log entries, building and installing
  snapshots, starting after a crash. The durable state is the key-value table, the raft-meta table, the
  snapshot registry and the files of the snapshots directory; each transaction of the database and each
  file operation is one durable write of \<open>Durable\<close>. In memory are the poison flag and the current
  snapshot.

  An entry counts by its index in the log. Applying a command flushes the buffer of the state machine in
  one transaction, after the deletions of a shared publish, each in its own (\<open>Writes\<close>); the position \<open>last_applied\<close> is
  written in a last one.

  A value of a key is a record of the model: reading and writing the bytes of a payload file with their
  values is the parameter \<open>disk\<close>, for which \<open>Payload\<close> has the header and the batches.
\<close>

section \<open>State\<close>

record log_id =
  li_term :: nat
  li_node :: nat
  li_index :: nat

record 'mb snap_meta =
  last_log_id :: "log_id option"
  last_membership :: 'mb

datatype 'mb payload = Blank | Normal command | Membership 'mb

record 'mb disk =
  verify :: "bytes \<Rightarrow> payload_error + unit"
  open_batches :: "bytes \<Rightarrow> payload_error + (payload_error + rows) list"
  encode_rows :: "rows \<Rightarrow> bytes"
  newer :: "log_id \<Rightarrow> log_id \<Rightarrow> bool"

text \<open>The value of the restore marker is None where it cannot be decoded.\<close>

record 'mb node =
  kv :: "sval mem_store"
  applied :: "log_id option"
  membership :: "'mb option"
  reg_meta :: "'mb snap_meta option"
  reg_file :: "string option"
  marker :: "('mb snap_meta \<times> string) option option"
  poison :: bool
  files :: "string \<Rightarrow> bytes option"
  poisoned :: bool
  current :: "('mb snap_meta \<times> string) option"

datatype fault_reason = Io | Payload_Err payload_error | Poisoned | Marker_Corrupt | Payload_Missing

type_synonym ('mb, 'a) act = "('mb node, fault_reason, 'a) program"

definition part_of :: "string \<Rightarrow> string" where
  "part_of path = path @ ''.part''"

section \<open>Files\<close>

text \<open>\<open>copy_payload_file\<close> and the writers: into the part file, then renamed; the part file is removed on errors.\<close>

definition put_file :: "string \<Rightarrow> bytes \<Rightarrow> ('mb, unit) act" where
  "put_file path data = catch
     (seq (durably Io (\<lambda>n. n\<lparr>files := (files n)(part_of path \<mapsto> data)\<rparr>)) (\<lambda>u.
        durably Io (\<lambda>n. n\<lparr>files := (files n)(path \<mapsto> data, part_of path := None)\<rparr>)))
     (\<lambda>e. seq (try_durably (\<lambda>n. n\<lparr>files := (files n)(part_of path := None)\<rparr>)) (\<lambda>u. raise e))"

definition delete_old_snapshot_file :: "string option \<Rightarrow> ('mb, unit) act" where
  "delete_old_snapshot_file old = (case old of
     None \<Rightarrow> ret ()
   | Some p \<Rightarrow> try_durably (\<lambda>n. n\<lparr>files := (files n)(p := None)\<rparr>))"

text \<open>\<open>sweep_snapshot_payloads\<close>: part files and unreferenced snapshots go; a corrupt marker stops it.\<close>

definition keep_set :: "'mb node \<Rightarrow> string set" where
  "keep_set n = set_option (reg_file n) \<union> (case marker n of Some (Some (m, p)) \<Rightarrow> {p} | _ \<Rightarrow> {})"

definition swept :: "'mb node \<Rightarrow> string \<Rightarrow> bool" where
  "swept n p \<longleftrightarrow> ends_with p ''.part'' \<or> ends_with p ''.snap'' \<and> p \<notin> keep_set n"

definition sweep :: "('mb, unit) act" where
  "sweep = seq (reads id) (\<lambda>n.
     if marker n = Some None then ret ()
     else try_durably (\<lambda>n. n\<lparr>files := (\<lambda>p. if swept n p then None else files n p)\<rparr>))"

definition reset_registry_if_file_missing :: "('mb, unit) act" where
  "reset_registry_if_file_missing = seq (reads id) (\<lambda>n. case reg_file n of
     None \<Rightarrow> ret ()
   | Some p \<Rightarrow> if files n p \<noteq> None then ret ()
       else try_durably (\<lambda>n. n\<lparr>reg_file := None, reg_meta := None\<rparr>))"

section \<open>Poison\<close>

text \<open>\<open>poison\<close>: the flag in memory always, the durable one if it can be written.\<close>

definition set_poison :: "('mb, unit) act" where
  "set_poison = seq (modify (\<lambda>n. n\<lparr>poisoned := True\<rparr>)) (\<lambda>u. try_durably (\<lambda>n. n\<lparr>poison := True\<rparr>))"

section \<open>Applying an entry\<close>

text \<open>
  The durable writes of a command: the shared drafts that a shared publish deletes, each in a transaction of its own,
  then the batch of the buffer. A write that fails ends the command with an error; \<open>apply_entry\<close> takes it for a
  refused command, and the position advances.
\<close>

definition entry_store :: "ext \<Rightarrow> nat \<Rightarrow> 'mb payload \<Rightarrow> sval mem_store \<Rightarrow> sval mem_store" where
  "entry_store E i pl st = (case pl of
     Normal c \<Rightarrow> sm_store (fst (apply_command E c (int i) (sm_new st)))
   | _ \<Rightarrow> st)"

primrec delete_each :: "string list \<Rightarrow> ('mb, unit) act" where
  "delete_each [] = ret ()"
| "delete_each (k # ks) = seq (durably Io (\<lambda>n. n\<lparr>kv := ms_delete (kv n) k\<rparr>)) (\<lambda>u. delete_each ks)"

definition entry_deletes :: "nat \<Rightarrow> command \<Rightarrow> sval mem_store \<Rightarrow> string list" where
  "entry_deletes i c st = direct_deletes c (int i) (clear_pending (sm_new st))"

definition entry_flushes :: "ext \<Rightarrow> nat \<Rightarrow> command \<Rightarrow> sval mem_store \<Rightarrow> bool" where
  "entry_flushes E i c st = flushes E c (int i) (clear_pending (sm_new st))"

definition entry_writes :: "ext \<Rightarrow> nat \<Rightarrow> command \<Rightarrow> ('mb, publish_event list res) act" where
  "entry_writes E i c = seq (reads kv) (\<lambda>st.
     seq (delete_each (entry_deletes i c st)) (\<lambda>u.
     seq (if entry_flushes E i c st then durably Io (\<lambda>n. n\<lparr>kv := entry_store E i (Normal c :: 'mb payload) st\<rparr>) else ret ()) (\<lambda>u.
     ret (snd (apply_command E c (int i) (sm_new st))))))"

definition apply_log_entry :: "ext \<Rightarrow> log_id \<Rightarrow> 'mb payload \<Rightarrow> ('mb, unit) act" where
  "apply_log_entry E lid pl = seq (reads poisoned) (\<lambda>p.
     if p then raise Poisoned
     else seq (case pl of
         Membership m \<Rightarrow> durably Io (\<lambda>n. n\<lparr>membership := Some m\<rparr>)
       | Blank \<Rightarrow> ret ()
       | Normal c \<Rightarrow> catch (seq (entry_writes E (li_index lid) c) (\<lambda>r. ret ())) (\<lambda>e. ret ())) (\<lambda>u.
       durably Io (\<lambda>n. n\<lparr>applied := Some lid\<rparr>)))"

section \<open>Restoring\<close>

text \<open>\<open>restore_stream\<close>, one transaction per batch; the first one clears the old keys.\<close>

fun restore_batches :: "(payload_error + rows) list \<Rightarrow> bool \<Rightarrow> ('mb, bool) act" where
  "restore_batches [] first = ret first"
| "restore_batches (Inl e # bs) first = raise (Payload_Err e)"
| "restore_batches (Inr batch # bs) first = seq
     (if first then durably Io (\<lambda>n. n\<lparr>kv := ms_write_batch (kv n) batch (ms_get_prefix_keys (kv n) [])\<rparr>)
      else if batch \<noteq> [] then durably Io (\<lambda>n. n\<lparr>kv := ms_write_batch (kv n) batch []\<rparr>)
      else ret ())
     (\<lambda>u. restore_batches bs False)"

definition restore_state :: "(payload_error + rows) list \<Rightarrow> ('mb, unit) act" where
  "restore_state bs = seq (restore_batches bs True) (\<lambda>first.
     if first then seq (reads kv) (\<lambda>st.
       if ms_get_prefix_keys st [] \<noteq> [] then durably Io (\<lambda>n. n\<lparr>kv := ms_write_batch (kv n) [] (ms_get_prefix_keys (kv n) [])\<rparr>)
       else ret ())
     else ret ())"

text \<open>\<open>persist_snapshot_registry\<close> answers the file that was registered before.\<close>

definition persist_registry :: "'mb snap_meta \<Rightarrow> string \<Rightarrow> ('mb, string option) act" where
  "persist_registry m path = seq (reads reg_file) (\<lambda>old.
     seq (durably Io (\<lambda>n. n\<lparr>reg_meta := Some m, reg_file := Some path\<rparr>)) (\<lambda>u. ret old))"

text \<open>The position and the members of the snapshot, without a position for the initial one.\<close>

definition restore_and_persist :: "'mb snap_meta \<Rightarrow> (payload_error + rows) list \<Rightarrow> string \<Rightarrow> ('mb, string option) act" where
  "restore_and_persist m bs path = seq (restore_state bs) (\<lambda>u.
     seq (durably Io (\<lambda>n. n\<lparr>applied := last_log_id m\<rparr>)) (\<lambda>u.
     seq (durably Io (\<lambda>n. n\<lparr>membership := Some (last_membership m)\<rparr>)) (\<lambda>u.
     persist_registry m path)))"

definition remove_old :: "string option \<Rightarrow> string \<Rightarrow> ('mb, unit) act" where
  "remove_old old path = (if old \<noteq> Some path then delete_old_snapshot_file old else ret ())"

text \<open>Marker and durable poison go in one transaction.\<close>

definition clear_marker :: "('mb, unit) act" where
  "clear_marker = durably Io (\<lambda>n. n\<lparr>poison := False, marker := None\<rparr>)"

definition install_snapshot :: "'mb disk \<Rightarrow> bool \<Rightarrow> 'mb snap_meta \<Rightarrow> bytes \<Rightarrow> string \<Rightarrow> ('mb, unit) act" where
  "install_snapshot D write_marker m data path =
     seq (lift_res (map_sum Payload_Err id (verify D data))) (\<lambda>u.
     seq (put_file path data) (\<lambda>u.
     seq (lift_res (map_sum Payload_Err id (open_batches D data))) (\<lambda>bs.
     seq (if write_marker then durably Io (\<lambda>n. n\<lparr>marker := Some (Some (m, path))\<rparr>) else ret ()) (\<lambda>u.
     seq (catch (restore_and_persist m bs path) (\<lambda>e. seq set_poison (\<lambda>u. raise e))) (\<lambda>old.
     seq (remove_old old path) (\<lambda>u.
     seq (catch clear_marker (\<lambda>e. seq set_poison (\<lambda>u. raise e))) (\<lambda>u.
     modify (\<lambda>n. n\<lparr>poisoned := False, current := Some (m, path)\<rparr>))))))))"

section \<open>Building\<close>

definition snapshot_meta_newer :: "'mb disk \<Rightarrow> 'mb snap_meta \<Rightarrow> 'mb snap_meta \<Rightarrow> bool" where
  "snapshot_meta_newer D built reg = (case (last_log_id built, last_log_id reg) of
     (Some b, Some r) \<Rightarrow> newer D b r
   | (Some b, None) \<Rightarrow> True
   | _ \<Rightarrow> False)"

text \<open>A registry whose file is missing is as none.\<close>

definition load_registry :: "'mb node \<Rightarrow> ('mb snap_meta \<times> string) option" where
  "load_registry n = (case (reg_meta n, reg_file n) of
     (Some m, Some p) \<Rightarrow> if files n p \<noteq> None then Some (m, p) else None
   | _ \<Rightarrow> None)"

definition build_snapshot :: "'mb disk \<Rightarrow> 'mb \<Rightarrow> string \<Rightarrow> ('mb, 'mb snap_meta \<times> string) act" where
  "build_snapshot D members path = seq (reads id) (\<lambda>n.
     if poisoned n then raise Poisoned
     else let m = \<lparr>last_log_id = applied n,
                   last_membership = (case membership n of None \<Rightarrow> members | Some x \<Rightarrow> x)\<rparr> in
       seq (put_file path (encode_rows D (ms_get_prefix (kv n) []))) (\<lambda>u.
       seq (reads load_registry) (\<lambda>reg.
         if reg \<noteq> None \<and> \<not> snapshot_meta_newer D m (fst (the reg)) then ret (m, path)
         else seq (persist_registry m path) (\<lambda>old.
           seq (delete_old_snapshot_file old) (\<lambda>u.
           seq (modify (\<lambda>n. n\<lparr>current := Some (m, path)\<rparr>)) (\<lambda>u. ret (m, path)))))))"

definition get_current_snapshot :: "'mb node \<Rightarrow> ('mb snap_meta \<times> string) option" where
  "get_current_snapshot n =
     (if poisoned n then None
      else case current n of Some x \<Rightarrow> Some x | None \<Rightarrow> load_registry n)"

section \<open>Starting\<close>

text \<open>The memory of a new process, the sweep, the self-healing of the registry, the durable poison flag.\<close>

definition open_store :: "('mb, unit) act" where
  "open_store = seq (modify (\<lambda>n. n\<lparr>poisoned := False, current := None\<rparr>)) (\<lambda>u.
     seq sweep (\<lambda>u. seq reset_registry_if_file_missing (\<lambda>u.
     modify (\<lambda>n. n\<lparr>poisoned := poison n\<rparr>))))"

definition stale_marker :: "'mb snap_meta \<Rightarrow> 'mb node \<Rightarrow> bool" where
  "stale_marker m n = (case (last_log_id m, applied n) of
     (Some i, Some a) \<Rightarrow> li_index i < li_index a
   | _ \<Rightarrow> False)"

definition recover_interrupted_restore_with :: "'mb disk \<Rightarrow> bool \<Rightarrow> ('mb, 'mb snap_meta option) act" where
  "recover_interrupted_restore_with D force = seq (reads id) (\<lambda>n. case marker n of
     None \<Rightarrow> ret None
   | Some None \<Rightarrow> raise Marker_Corrupt
   | Some (Some (m, path)) \<Rightarrow>
       if stale_marker m n then seq (durably Io (\<lambda>n. n\<lparr>marker := None\<rparr>)) (\<lambda>u. ret None)
       else if force then seq set_poison (\<lambda>u. ret None)
       else case files n path of
           None \<Rightarrow> raise Payload_Missing
         | Some data \<Rightarrow>
             seq (lift_res (map_sum Payload_Err id (open_batches D data))) (\<lambda>bs.
             seq (restore_and_persist m bs path) (\<lambda>old.
             seq (remove_old old path) (\<lambda>u.
             seq clear_marker (\<lambda>u.
             seq (modify (\<lambda>n. n\<lparr>poisoned := False\<rparr>)) (\<lambda>u.
             seq sweep (\<lambda>u. ret (Some m))))))))"

definition boot :: "'mb disk \<Rightarrow> bool \<Rightarrow> ('mb, 'mb snap_meta option) act" where
  "boot D force = seq open_store (\<lambda>u. recover_interrupted_restore_with D force)"

section \<open>What a state means\<close>

text \<open>
  The log as the Raft core committed it: \<open>L i\<close> is the entry of index \<open>i\<close>. A store is built from the entries below \<open>k\<close>
  if they were applied in order, each at least once: an entry whose position was not recorded is applied again, and so
  is one that was cut off after some of its deletions (only a shared publish has any).
\<close>

definition cut_entry :: "nat \<Rightarrow> 'mb payload \<Rightarrow> sval mem_store \<Rightarrow> nat \<Rightarrow> sval mem_store" where
  "cut_entry i pl st j = (case pl of
     Normal c \<Rightarrow> delete_keys (take j (entry_deletes i c st)) st
   | _ \<Rightarrow> st)"

inductive built :: "ext \<Rightarrow> (nat \<Rightarrow> 'mb payload) \<Rightarrow> nat \<Rightarrow> sval mem_store \<Rightarrow> bool" for E L where
  empty: "built E L 0 bm_empty"
| once: "built E L k st \<Longrightarrow> built E L (Suc k) (entry_store E k (L k) st)"
| again: "built E L k st \<Longrightarrow> built E L k (entry_store E k (L k) st)"
| cut: "built E L k st \<Longrightarrow> built E L k (cut_entry k (L k) st j)"

definition next_index :: "log_id option \<Rightarrow> nat" where
  "next_index a = (case a of None \<Rightarrow> 0 | Some i \<Rightarrow> Suc (li_index i))"

text \<open>
  A store is good for a position if it is built from every entry up to it; the next one, which is still to be applied,
  may have been begun.
\<close>

definition good :: "ext \<Rightarrow> (nat \<Rightarrow> 'mb payload) \<Rightarrow> log_id option \<Rightarrow> sval mem_store \<Rightarrow> bool" where
  "good E L a st \<longleftrightarrow> built E L (next_index a) st"

text \<open>Without shared publishes: the store after the entries of a sorted list of indices that has every one, and perhaps the next.\<close>

definition run_log :: "ext \<Rightarrow> (nat \<Rightarrow> 'mb payload) \<Rightarrow> nat list \<Rightarrow> sval mem_store" where
  "run_log E L is = fold (\<lambda>i st. entry_store E i (L i) st) is bm_empty"

lemma run_log_snoc: "run_log E L (is @ [i]) = entry_store E i (L i) (run_log E L is)"
  by (simp add: run_log_def)

lemma built_runs:
  assumes "built E L k st" "\<And>i c. L i = Normal c \<Longrightarrow> \<not> direct_writer c"
  shows "\<exists>is m. sorted is \<and> set is = {0..<k} \<and> st = run_log E L (is @ replicate m k)"
  using assms(1)
proof induction
  case empty
  then show ?case by (intro exI [of _ "[]"] exI [of _ 0]) (simp add: run_log_def)
next
  case (once k st)
  then obtain "is" m where g: "sorted is" "set is = {0..<k}" "st = run_log E L (is @ replicate m k)" by blast
  have same: "(is @ replicate m k) @ [k] = (is @ replicate (Suc m) k) @ replicate 0 (Suc k)" by (simp add: replicate_append_same)
  have "entry_store E k (L k) st = run_log E L ((is @ replicate (Suc m) k) @ replicate 0 (Suc k))"
    using run_log_snoc [of E L "is @ replicate m k" k] unfolding same g(3) [symmetric] by (rule sym)
  moreover have "sorted (is @ replicate (Suc m) k)" using g(1,2) by (auto simp: sorted_append sorted_replicate)
  moreover have "set (is @ replicate (Suc m) k) = {0..<Suc k}" unfolding set_append g(2) by auto
  ultimately show ?case by blast
next
  case (again k st)
  then obtain "is" m where g: "sorted is" "set is = {0..<k}" "st = run_log E L (is @ replicate m k)" by blast
  have same: "(is @ replicate m k) @ [k] = is @ replicate (Suc m) k" by (simp add: replicate_append_same)
  have "entry_store E k (L k) st = run_log E L (is @ replicate (Suc m) k)"
    using run_log_snoc [of E L "is @ replicate m k" k] unfolding same g(3) [symmetric] by (rule sym)
  then show ?case using g(1,2) by blast
next
  case (cut k st j)
  have "cut_entry k (L k) st j = st"
    using assms(2) [of k] by (auto simp: cut_entry_def entry_deletes_def direct_deletes_def split: payload.splits command.splits)
  then show ?case using cut.IH by simp
qed

text \<open>A payload that decodes as a whole holds a good store for its metadata.\<close>

definition legit :: "ext \<Rightarrow> (nat \<Rightarrow> 'mb payload) \<Rightarrow> 'mb disk \<Rightarrow> 'mb snap_meta \<Rightarrow> bytes \<Rightarrow> bool" where
  "legit E L D m data \<longleftrightarrow> (\<forall>bs. open_batches D data = Inr (map Inr bs) \<longrightarrow>
     good E L (last_log_id m) (bm_of_list (concat bs)))"

lemma good_empty: "good E L None bm_empty"
  by (simp add: good_def next_index_def built.empty)

lemma good_ahead:
  "good E L a st \<Longrightarrow> good E L a (entry_store E (next_index a) (L (next_index a)) st)"
  "good E L a st \<Longrightarrow> good E L a (cut_entry (next_index a) (L (next_index a)) st j)"
  unfolding good_def by (fact built.again, fact built.cut)

lemma good_next:
  assumes "good E L a st" "li_index lid = next_index a"
  shows "good E L (Some lid) (entry_store E (li_index lid) (L (li_index lid)) st)"
  using built.once [of E L "next_index a" st] assms by (simp add: good_def next_index_def [of "Some lid"])

section \<open>The durable invariant\<close>

definition snapfile ::
  "ext \<Rightarrow> (nat \<Rightarrow> 'mb payload) \<Rightarrow> 'mb disk \<Rightarrow> 'mb node \<Rightarrow> 'mb snap_meta \<Rightarrow> string \<Rightarrow> bool" where
  "snapfile E L D n m p \<longleftrightarrow> ends_with p ''.snap'' \<and> (\<exists>data. files n p = Some data \<and> legit E L D m data)"

text \<open>
  Without a marker the store is good for the position and nothing is poisoned; a marker names a whole
  snapshot that is not behind the position; the registry names a whole snapshot.
\<close>

definition durable_inv :: "ext \<Rightarrow> (nat \<Rightarrow> 'mb payload) \<Rightarrow> 'mb disk \<Rightarrow> 'mb node \<Rightarrow> bool" where
  "durable_inv E L D n \<longleftrightarrow>
     (marker n = None \<longrightarrow> good E L (applied n) (kv n) \<and> \<not> poison n) \<and>
     marker n \<noteq> Some None \<and>
     (\<forall>m p. marker n = Some (Some (m, p)) \<longrightarrow> snapfile E L D n m p \<and> \<not> stale_marker m n) \<and>
     (\<forall>p. reg_file n = Some p \<longrightarrow> (\<exists>m. reg_meta n = Some m \<and> snapfile E L D n m p))"

text \<open>A process that is not poisoned has no marker behind it and offers a whole snapshot.\<close>

definition live_inv :: "ext \<Rightarrow> (nat \<Rightarrow> 'mb payload) \<Rightarrow> 'mb disk \<Rightarrow> 'mb node \<Rightarrow> bool" where
  "live_inv E L D n \<longleftrightarrow> durable_inv E L D n \<and> (\<not> poisoned n \<longrightarrow> marker n = None \<and>
     (\<forall>m p. current n = Some (m, p) \<longrightarrow> snapfile E L D n m p))"

lemma part_not_snap: "\<not> ends_with (part_of p) ''.snap''"
  by (simp add: part_of_def ends_with_def starts_with_def)

lemma part_is_part: "ends_with (part_of p) ''.part''"
  by (simp add: part_of_def ends_with_def starts_with_def)

lemma snap_not_part: "ends_with p ''.snap'' \<Longrightarrow> \<not> ends_with p ''.part''"
  by (auto simp: ends_with_def starts_with_def)

lemma snapfile_cong:
  "files n p = files n' p \<Longrightarrow> snapfile E L D n m p = snapfile E L D n' m p"
  by (simp add: snapfile_def)

text \<open>Whatever changes only files that are no snapshot, or one that nothing names, keeps the invariants.\<close>

definition same_files :: "'mb node \<Rightarrow> 'mb node \<Rightarrow> bool" where
  "same_files n n' \<longleftrightarrow> (\<forall>p. ends_with p ''.snap'' \<longrightarrow> files n p \<noteq> None \<longrightarrow> files n' p = files n p)"

lemma snapfile_same: "same_files n n' \<Longrightarrow> snapfile E L D n m p \<Longrightarrow> snapfile E L D n' m p"
  by (auto simp: snapfile_def same_files_def)

lemma durable_inv_files:
  assumes "durable_inv E L D n" "same_files n (n\<lparr>files := f\<rparr>)"
  shows "durable_inv E L D (n\<lparr>files := f\<rparr>)"
  using assms(1) snapfile_same [OF assms(2)] unfolding durable_inv_def
  by (auto simp: stale_marker_def)

lemma live_inv_files:
  assumes "live_inv E L D n" "same_files n (n\<lparr>files := f\<rparr>)"
  shows "live_inv E L D (n\<lparr>files := f\<rparr>)"
  using assms(1) snapfile_same [OF assms(2)] durable_inv_files [OF _ assms(2)] unfolding live_inv_def by auto

lemma put_file_triple:
  assumes "\<And>n f. I n \<Longrightarrow> same_files n (n\<lparr>files := f\<rparr>) \<Longrightarrow> I (n\<lparr>files := f\<rparr>)"
    and "ends_with path ''.snap''" "\<And>n. I n \<Longrightarrow> J n"
  shows "triple (\<lambda>n. I n \<and> files n path = None) (put_file path data)
    (\<lambda>u n. I n \<and> files n path = Some data) I J"
  unfolding put_file_def
proof (rule triple_catch [where G = "\<lambda>n. I n"], rule triple_seq [where R = "\<lambda>u n. I n \<and> files n path = None"])
  have ne: "path \<noteq> part_of path" using assms(2) part_not_snap by metis
  show "triple (\<lambda>n. I n \<and> files n path = None) (durably Io (\<lambda>n. n\<lparr>files := (files n)(part_of path \<mapsto> data)\<rparr>))
      (\<lambda>u n. I n \<and> files n path = None) I J"
    using ne assms(3) part_not_snap by (intro triple_durably conjI assms(1)) (auto simp: same_files_def)
  show "triple (\<lambda>n. I n \<and> files n path = None)
      (durably Io (\<lambda>n. n\<lparr>files := (files n)(path \<mapsto> data, part_of path := None)\<rparr>))
      (\<lambda>u n. I n \<and> files n path = Some data) I J" for u :: unit
    using ne assms(3) part_not_snap by (intro triple_durably conjI assms(1)) (auto simp: same_files_def)
  show "triple I (seq (try_durably (\<lambda>n. n\<lparr>files := (files n)(part_of path := None)\<rparr>)) (\<lambda>u. raise e))
      (\<lambda>u n. I n \<and> files n path = Some data) I J" for e
    using assms(3) part_not_snap
    by (intro triple_seq [where R = "\<lambda>u. I"] triple_try_durably triple_raise assms(1)) (auto simp: same_files_def)
qed

text \<open>Restoring a whole payload leaves exactly its rows, whatever was there.\<close>

lemma restore_batches_triple:
  assumes "\<And>n st. I n \<Longrightarrow> I (n\<lparr>kv := st\<rparr>)"
  shows "triple (\<lambda>n. I n \<and> (\<not> first \<longrightarrow> kv n = bm_of_list done)) (restore_batches bs first)
    (\<lambda>f n. I n \<and> (\<exists>rows. bs = map Inr rows \<and>
       (f \<longrightarrow> first \<and> bs = []) \<and> (\<not> f \<longrightarrow> kv n = bm_of_list ((if first then [] else done) @ concat rows)))) I I"
proof (induction bs arbitrary: first "done")
  case Nil
  then show ?case by (auto intro!: triple_ret)
next
  case (Cons b bs)
  show ?case
  proof (cases b)
    case (Inl e)
    then show ?thesis by (auto intro!: triple_raise)
  next
    case (Inr batch)
    let ?done = "(if first then [] else done) @ batch"
    have "triple (\<lambda>n. I n \<and> (\<not> first \<longrightarrow> kv n = bm_of_list done))
        (if first then durably Io (\<lambda>n. n\<lparr>kv := ms_write_batch (kv n) batch (ms_get_prefix_keys (kv n) [])\<rparr>)
         else if batch \<noteq> [] then durably Io (\<lambda>n. n\<lparr>kv := ms_write_batch (kv n) batch []\<rparr>) else ret ())
        (\<lambda>u n. I n \<and> (\<not> False \<longrightarrow> kv n = bm_of_list ?done)) I I"
      by (auto intro!: triple_durably triple_ret assms simp: write_batch_clears ms_write_batch_fold bm_of_list_def)
    then show ?thesis
      unfolding Inr restore_batches.simps
      by (rule triple_seq) (rule triple_conseq [OF Cons.IH [of False ?done]], auto simp: Cons_eq_map_conv)
  qed
qed

lemma restore_state_triple:
  assumes "\<And>n st. I n \<Longrightarrow> I (n\<lparr>kv := st\<rparr>)"
  shows "triple I (restore_state bs) (\<lambda>u n. I n \<and> (\<exists>rows. bs = map Inr rows \<and> kv n = bm_of_list (concat rows))) I I"
  unfolding restore_state_def
proof (rule triple_seq)
  show "triple I (restore_batches bs True) (\<lambda>f n. I n \<and> (\<exists>rows. bs = map Inr rows \<and>
       (f \<longrightarrow> bs = []) \<and> (\<not> f \<longrightarrow> kv n = bm_of_list (concat rows)))) I I"
    by (rule triple_conseq [OF restore_batches_triple [of I True "[]"]]) (use assms in auto)
  have empty: "ms_get_prefix_keys st [] = [] \<longleftrightarrow> st = bm_empty" for st :: "sval mem_store"
    using write_batch_clears [of st "[]"] by (auto simp: ms_write_batch_def bm_of_list_def ms_get_prefix_keys_def ms_get_prefix_all)
  show "triple (\<lambda>n. I n \<and> (\<exists>rows. bs = map Inr rows \<and> (f \<longrightarrow> bs = []) \<and> (\<not> f \<longrightarrow> kv n = bm_of_list (concat rows))))
      (if f then seq (reads kv) (\<lambda>st. if ms_get_prefix_keys st [] \<noteq> []
         then durably Io (\<lambda>n. n\<lparr>kv := ms_write_batch (kv n) [] (ms_get_prefix_keys (kv n) [])\<rparr>) else ret ()) else ret ())
      (\<lambda>u n. I n \<and> (\<exists>rows. bs = map Inr rows \<and> kv n = bm_of_list (concat rows))) I I" for f
    by (auto intro!: triple_seq [where R = "\<lambda>st n. I n \<and> bs = [] \<and> kv n = st"] triple_reads triple_durably triple_ret assms
        simp: write_batch_clears bm_of_list_def empty)
qed

section \<open>Every operation keeps the invariants\<close>

text \<open>Between the marker and its end, an install is at some point of this.\<close>

definition installing ::
  "ext \<Rightarrow> (nat \<Rightarrow> 'mb payload) \<Rightarrow> 'mb disk \<Rightarrow> 'mb snap_meta \<Rightarrow> string \<Rightarrow> bytes \<Rightarrow> 'mb node \<Rightarrow> bool" where
  "installing E L D m path data n \<longleftrightarrow> durable_inv E L D n \<and> marker n = Some (Some (m, path)) \<and>
     files n path = Some data \<and> legit E L D m data"

definition installed ::
  "ext \<Rightarrow> (nat \<Rightarrow> 'mb payload) \<Rightarrow> 'mb disk \<Rightarrow> 'mb snap_meta \<Rightarrow> string \<Rightarrow> bytes \<Rightarrow> 'mb node \<Rightarrow> bool" where
  "installed E L D m path data n \<longleftrightarrow> installing E L D m path data n \<and> good E L (applied n) (kv n) \<and>
     reg_file n = Some path \<and> reg_meta n = Some m"

lemma installing_snapfile: "installing E L D m path data n \<Longrightarrow> snapfile E L D n m path"
  by (auto simp: installing_def durable_inv_def)

lemma installing_kv: "installing E L D m path data n \<Longrightarrow> installing E L D m path data (n\<lparr>kv := st\<rparr>)"
  by (auto simp: installing_def durable_inv_def snapfile_def stale_marker_def)

lemma set_poison_triple:
  assumes "\<And>n. I n \<Longrightarrow> durable_inv E L D n \<and> marker n \<noteq> None"
  shows "triple I set_poison (\<lambda>u. live_inv E L D) (live_inv E L D) (durable_inv E L D)"
  unfolding set_poison_def
proof (rule triple_seq)
  show "triple I (modify (\<lambda>n. n\<lparr>poisoned := True\<rparr>))
      (\<lambda>u n. durable_inv E L D n \<and> marker n \<noteq> None \<and> poisoned n) (live_inv E L D) (durable_inv E L D)"
    by (rule triple_modify) (use assms in \<open>auto simp: durable_inv_def snapfile_def stale_marker_def\<close>)
  show "triple (\<lambda>n. durable_inv E L D n \<and> marker n \<noteq> None \<and> poisoned n) (try_durably (\<lambda>n. n\<lparr>poison := True\<rparr>))
      (\<lambda>u. live_inv E L D) (live_inv E L D) (durable_inv E L D)" for u
    by (rule triple_try_durably) (auto simp: live_inv_def durable_inv_def snapfile_def stale_marker_def)
qed

lemma restore_and_persist_triple:
  assumes "open_batches D data = Inr bs"
  shows "triple (installing E L D m path data) (restore_and_persist m bs path)
    (\<lambda>old. installed E L D m path data) (installing E L D m path data) (installing E L D m path data)"
  unfolding restore_and_persist_def persist_registry_def
proof (intro triple_seq)
  let ?I = "installing E L D m path data"
  show "triple ?I (restore_state bs) (\<lambda>u n. ?I n \<and> good E L (last_log_id m) (kv n)) ?I ?I"
    by (rule triple_conseq [OF restore_state_triple [of ?I bs, OF installing_kv]])
      (use assms in \<open>auto simp: installing_def legit_def\<close>)
  show "triple (\<lambda>n. ?I n \<and> good E L (last_log_id m) (kv n)) (durably Io (\<lambda>n. n\<lparr>applied := last_log_id m\<rparr>))
      (\<lambda>u n. ?I n \<and> good E L (applied n) (kv n)) ?I ?I" for u :: unit
    by (rule triple_durably)
      (auto simp: installing_def durable_inv_def snapfile_def stale_marker_def split: option.splits)
  show "triple (\<lambda>n. ?I n \<and> good E L (applied n) (kv n)) (durably Io (\<lambda>n. n\<lparr>membership := Some (last_membership m)\<rparr>))
      (\<lambda>u n. ?I n \<and> good E L (applied n) (kv n)) ?I ?I" for u :: unit
    by (rule triple_durably) (auto simp: installing_def durable_inv_def snapfile_def stale_marker_def)
  show "triple (\<lambda>n. ?I n \<and> good E L (applied n) (kv n)) (reads reg_file)
      (\<lambda>old n. ?I n \<and> good E L (applied n) (kv n)) ?I ?I" for u :: unit
    by (rule triple_reads) simp
  show "triple (\<lambda>n. ?I n \<and> good E L (applied n) (kv n)) (durably Io (\<lambda>n. n\<lparr>reg_meta := Some m, reg_file := Some path\<rparr>))
      (\<lambda>u. installed E L D m path data) ?I ?I" for old :: "string option"
    by (rule triple_durably)
      (auto simp: installed_def installing_def durable_inv_def snapfile_def stale_marker_def)
  show "triple (installed E L D m path data) (ret old) (\<lambda>old. installed E L D m path data) ?I ?I"
    for old :: "string option" and u :: unit
    by (rule triple_ret)
qed

lemma remove_old_triple:
  "triple (installed E L D m path data) (remove_old old path) (\<lambda>u. installed E L D m path data)
     (\<lambda>n. False) (installed E L D m path data)"
proof (cases "old = None \<or> old = Some path")
  case True
  then show ?thesis by (auto simp: remove_old_def delete_old_snapshot_file_def intro: triple_ret)
next
  case False
  then obtain p where p: "old = Some p" "p \<noteq> path" by auto
  have "installed E L D m path data (n\<lparr>files := (files n)(p := None)\<rparr>)" if "installed E L D m path data n" for n
    using that p(2) by (auto simp: installed_def installing_def durable_inv_def snapfile_def stale_marker_def)
  then show ?thesis
    using p by (auto simp: remove_old_def delete_old_snapshot_file_def intro: triple_try_durably)
qed

lemma clear_marker_triple:
  "triple (installed E L D m path data) clear_marker
     (\<lambda>u n. durable_inv E L D n \<and> marker n = None \<and> snapfile E L D n m path)
     (installed E L D m path data) (installed E L D m path data)"
  unfolding clear_marker_def
  by (rule triple_durably) (auto simp: installed_def installing_def durable_inv_def snapfile_def stale_marker_def)

lemma restore_keeps_current:
  "triple (\<lambda>n. current n = c) (restore_and_persist m bs path) (\<lambda>r n. current n = c) (\<lambda>n. current n = c) (\<lambda>n. current n = c)"
proof -
  have "triple (\<lambda>n. current n = c) (restore_state bs) (\<lambda>r n. current n = c) (\<lambda>n. current n = c) (\<lambda>n. current n = c)"
    by (rule triple_conseq [OF restore_state_triple [of "\<lambda>n. current n = c"]]) auto
  then show ?thesis
    unfolding restore_and_persist_def persist_registry_def
    by (intro triple_seq [where R = "\<lambda>x n. current n = c"] triple_durably triple_reads triple_ret) auto
qed

lemma remove_keeps_current:
  "triple (\<lambda>n. current n = c) (remove_old old path) (\<lambda>r n. current n = c) (\<lambda>n. False) (\<lambda>n. current n = c)"
  by (auto simp: remove_old_def delete_old_snapshot_file_def intro!: triple_ret triple_try_durably split: option.splits)

lemma clear_keeps_current:
  "triple (\<lambda>n. current n = c) clear_marker (\<lambda>r n. current n = c) (\<lambda>n. current n = c) (\<lambda>n. current n = c)"
  unfolding clear_marker_def by (rule triple_durably) auto

text \<open>An install that is not behind the position, of a whole or of a damaged payload, with any faults.\<close>

lemma install_triple:
  assumes "ends_with path ''.snap''" "legit E L D m data"
  shows "triple (\<lambda>n. live_inv E L D n \<and> files n path = None \<and> \<not> stale_marker m n)
    (install_snapshot D True m data path) (\<lambda>u. live_inv E L D) (live_inv E L D) (durable_inv E L D)"
  unfolding install_snapshot_def if_True
proof (intro triple_seq)
  let ?V = "live_inv E L D" and ?J = "durable_inv E L D"
  let ?P = "\<lambda>n. ?V n \<and> \<not> stale_marker m n"
  let ?I = "installing E L D m path data"
  have J: "?V n \<Longrightarrow> ?J n" "?I n \<Longrightarrow> ?J n" "installed E L D m path data n \<Longrightarrow> ?I n" for n
    by (auto simp: live_inv_def installing_def installed_def)
  show "triple (\<lambda>n. ?V n \<and> files n path = None \<and> \<not> stale_marker m n) (lift_res (map_sum Payload_Err id (verify D data)))
      (\<lambda>u n. ?P n \<and> files n path = None) ?V ?J"
    by (rule triple_lift_res) auto
  show "triple (\<lambda>n. ?P n \<and> files n path = None) (put_file path data) (\<lambda>u n. ?P n \<and> files n path = Some data) ?V ?J" for u :: unit
    by (rule triple_conseq [OF put_file_triple [of ?P path ?J]])
      (use assms(1) J in \<open>auto intro: live_inv_files simp: stale_marker_def\<close>)
  show "triple (\<lambda>n. ?P n \<and> files n path = Some data) (lift_res (map_sum Payload_Err id (open_batches D data)))
      (\<lambda>bs n. ?P n \<and> files n path = Some data \<and> open_batches D data = Inr bs) ?V ?J" for u :: unit
    by (rule triple_lift_res) (auto simp: map_sum_def split: sum.splits)
  show "triple (\<lambda>n. ?P n \<and> files n path = Some data \<and> open_batches D data = Inr bs)
      (durably Io (\<lambda>n. n\<lparr>marker := Some (Some (m, path))\<rparr>)) (\<lambda>u n. ?I n \<and> open_batches D data = Inr bs) ?V ?J" for bs
    by (rule triple_durably)
      (use assms in \<open>auto simp: live_inv_def installing_def durable_inv_def snapfile_def stale_marker_def\<close>)
  show "triple (\<lambda>n. ?I n \<and> open_batches D data = Inr bs)
      (catch (restore_and_persist m bs path) (\<lambda>e. seq set_poison (\<lambda>u. raise e)))
      (\<lambda>old. installed E L D m path data) ?V ?J" for bs and u :: unit
  proof (cases "open_batches D data = Inr bs")
    case True
    show ?thesis
    proof (rule triple_catch)
      show "triple (\<lambda>n. ?I n \<and> open_batches D data = Inr bs) (restore_and_persist m bs path)
          (\<lambda>old. installed E L D m path data) ?I ?J"
        by (rule triple_conseq [OF restore_and_persist_triple [OF True]]) (auto intro: J)
      show "triple ?I (seq set_poison (\<lambda>u. raise e)) (\<lambda>old. installed E L D m path data) ?V ?J" for e
        by (rule triple_seq, rule set_poison_triple, auto simp: installing_def intro: triple_raise)
    qed
  qed (auto intro: triple_pre)
  show "triple (installed E L D m path data) (remove_old old path) (\<lambda>u. installed E L D m path data) ?V ?J" for old
    by (rule triple_conseq [OF remove_old_triple]) (auto intro: J)
  show "triple (installed E L D m path data) (catch clear_marker (\<lambda>e. seq set_poison (\<lambda>u. raise e)))
      (\<lambda>u n. ?J n \<and> marker n = None \<and> snapfile E L D n m path) ?V ?J" for u :: unit
  proof (rule triple_catch)
    show "triple (installed E L D m path data) clear_marker (\<lambda>u n. ?J n \<and> marker n = None \<and> snapfile E L D n m path) ?I ?J"
      by (rule triple_conseq [OF clear_marker_triple]) (auto intro: J)
    show "triple ?I (seq set_poison (\<lambda>u. raise e)) (\<lambda>u n. ?J n \<and> marker n = None \<and> snapfile E L D n m path) ?V ?J" for e
      by (rule triple_seq, rule set_poison_triple, auto simp: installing_def intro: triple_raise)
  qed
  show "triple (\<lambda>n. ?J n \<and> marker n = None \<and> snapfile E L D n m path)
      (modify (\<lambda>n. n\<lparr>poisoned := False, current := Some (m, path)\<rparr>)) (\<lambda>u. ?V) ?V ?J" for u :: unit
    by (rule triple_modify) (auto simp: live_inv_def durable_inv_def snapfile_def stale_marker_def)
qed

lemma sweep_triple:
  assumes "\<And>n f. I n \<Longrightarrow> (\<And>p. \<not> swept n p \<Longrightarrow> f p = files n p) \<Longrightarrow> I (n\<lparr>files := f\<rparr>)"
  shows "triple I sweep (\<lambda>u. I) F I"
  unfolding sweep_def
  by (rule triple_seq [where R = "\<lambda>x. I"])
    (auto intro!: triple_reads triple_ret triple_try_durably assms)

lemma durable_inv_swept:
  assumes "durable_inv E L D n" "\<And>p. \<not> swept n p \<Longrightarrow> f p = files n p"
  shows "durable_inv E L D (n\<lparr>files := f\<rparr>)"
proof -
  have "snapfile E L D (n\<lparr>files := f\<rparr>) m p" if "snapfile E L D n m p" "p \<in> keep_set n" for m p
    using that assms(2) [of p] snap_not_part by (auto simp: snapfile_def swept_def)
  then show ?thesis
    using assms(1) unfolding durable_inv_def keep_set_def stale_marker_def
    by (auto split: option.splits)
qed

lemma open_store_triple:
  "triple (durable_inv E L D) open_store
     (\<lambda>u n. durable_inv E L D n \<and> current n = None \<and> poisoned n = poison n) F (durable_inv E L D)"
  unfolding open_store_def
proof (intro triple_seq)
  let ?I = "\<lambda>n. durable_inv E L D n \<and> current n = None"
  show "triple (durable_inv E L D) (modify (\<lambda>n. n\<lparr>poisoned := False, current := None\<rparr>)) (\<lambda>u. ?I) F (durable_inv E L D)"
    by (rule triple_modify) (auto simp: durable_inv_def snapfile_def stale_marker_def)
  show "triple ?I sweep (\<lambda>u. ?I) F (durable_inv E L D)" for u :: unit
    by (rule triple_conseq [OF sweep_triple [of ?I F]]) (auto intro: durable_inv_swept)
  have "triple ?I (case reg_file n of None \<Rightarrow> ret () | Some p \<Rightarrow> if files n p \<noteq> None then ret ()
      else try_durably (\<lambda>n. n\<lparr>reg_file := None, reg_meta := None\<rparr>)) (\<lambda>u. ?I) F (durable_inv E L D)" for n
    by (auto intro!: triple_ret triple_try_durably simp: durable_inv_def snapfile_def stale_marker_def split: option.splits)
  then show "triple ?I reset_registry_if_file_missing (\<lambda>u. ?I) F (durable_inv E L D)" for u :: unit
    unfolding reset_registry_if_file_missing_def
    by (intro triple_seq [where R = "\<lambda>n. ?I"] triple_reads) auto
  show "triple ?I (modify (\<lambda>n. n\<lparr>poisoned := poison n\<rparr>))
      (\<lambda>u n. durable_inv E L D n \<and> current n = None \<and> poisoned n = poison n) F (durable_inv E L D)" for u :: unit
    by (rule triple_modify) (auto simp: durable_inv_def snapfile_def stale_marker_def)
qed

text \<open>A start recovers, or stays poisoned, or refuses; whatever happens, the next start can try again.\<close>

lemma recover_triple:
  "triple (\<lambda>n. durable_inv E L D n \<and> current n = None \<and> poisoned n = poison n)
     (recover_interrupted_restore_with D force) (\<lambda>r. live_inv E L D) (durable_inv E L D) (durable_inv E L D)"
  unfolding recover_interrupted_restore_with_def
proof (rule triple_seq)
  let ?J = "durable_inv E L D"
  let ?P = "\<lambda>n. ?J n \<and> current n = None \<and> poisoned n = poison n"
  show "triple ?P (reads id) (\<lambda>x n. ?P n \<and> n = x) ?J ?J" by (rule triple_reads) auto
  fix x :: "'a node"
  show "triple (\<lambda>n. ?P n \<and> n = x) (case marker x of None \<Rightarrow> ret None | Some None \<Rightarrow> raise Marker_Corrupt
     | Some (Some (m, path)) \<Rightarrow>
       if stale_marker m x then seq (durably Io (\<lambda>n. n\<lparr>marker := None\<rparr>)) (\<lambda>u. ret None)
       else if force then seq set_poison (\<lambda>u. ret None)
       else case files x path of None \<Rightarrow> raise Payload_Missing
         | Some data \<Rightarrow> seq (lift_res (map_sum Payload_Err id (open_batches D data))) (\<lambda>bs.
             seq (restore_and_persist m bs path) (\<lambda>old. seq (remove_old old path) (\<lambda>u. seq clear_marker (\<lambda>u.
             seq (modify (\<lambda>n. n\<lparr>poisoned := False\<rparr>)) (\<lambda>u. seq sweep (\<lambda>u. ret (Some m)))))))) (\<lambda>r. live_inv E L D) ?J ?J"
  proof (cases "?P x")
    case False
    then show ?thesis by (auto intro: triple_pre)
  next
    case True
    show ?thesis
    proof (cases "marker x")
      case None
      then show ?thesis using True by (auto intro!: triple_ret simp: live_inv_def durable_inv_def)
    next
      case (Some mk)
      then obtain m path where mk: "marker x = Some (Some (m, path))" using True by (cases mk) (auto simp: durable_inv_def)
      then obtain data where data: "files x path = Some data" "legit E L D m data" "\<not> stale_marker m x"
        using True by (auto simp: durable_inv_def snapfile_def)
      let ?I = "installing E L D m path data"
      have I: "?I x" using True mk data by (simp add: installing_def)
      have J: "?I n \<Longrightarrow> ?J n" "installed E L D m path data n \<Longrightarrow> ?J n" for n
        by (auto simp: installing_def installed_def)
      show ?thesis
      proof (cases force)
        case True
        have "triple ?I set_poison (\<lambda>u. live_inv E L D) (live_inv E L D) ?J"
          by (rule set_poison_triple) (auto simp: installing_def)
        then have "triple ?I (seq set_poison (\<lambda>u. ret None)) (\<lambda>r. live_inv E L D) ?J ?J"
          by (intro triple_seq triple_ret, rule triple_conseq) (auto simp: live_inv_def)
        then have "triple (\<lambda>n. ?P n \<and> n = x) (seq set_poison (\<lambda>u. ret None)) (\<lambda>r. live_inv E L D) ?J ?J"
          by (rule triple_conseq) (use I in auto)
        then show ?thesis using mk data(3) True by simp
      next
        case False
        let ?I = "\<lambda>n. installing E L D m path data n \<and> current n = None"
        have "triple ?I (seq (lift_res (map_sum Payload_Err id (open_batches D data))) (\<lambda>bs.
             seq (restore_and_persist m bs path) (\<lambda>old. seq (remove_old old path) (\<lambda>u. seq clear_marker (\<lambda>u.
             seq (modify (\<lambda>n. n\<lparr>poisoned := False\<rparr>)) (\<lambda>u. seq sweep (\<lambda>u. ret (Some m)))))))) (\<lambda>r. live_inv E L D) ?J ?J"
        proof (intro triple_seq)
          let ?C = "\<lambda>n. ?J n \<and> marker n = None \<and> current n = None"
          show "triple ?I (lift_res (map_sum Payload_Err id (open_batches D data)))
              (\<lambda>bs n. ?I n \<and> open_batches D data = Inr bs) ?J ?J"
            by (rule triple_lift_res) (auto simp: map_sum_def J split: sum.splits)
          show "triple (\<lambda>n. ?I n \<and> open_batches D data = Inr bs) (restore_and_persist m bs path)
              (\<lambda>old n. installed E L D m path data n \<and> current n = None) ?J ?J" for bs
          proof (cases "open_batches D data = Inr bs")
            case True
            show ?thesis
              by (rule triple_conseq [OF triple_conj [OF restore_and_persist_triple [OF True] restore_keeps_current]])
                (auto intro: J)
          qed (auto intro: triple_pre)
          show "triple (\<lambda>n. installed E L D m path data n \<and> current n = None) (remove_old old path)
              (\<lambda>u n. installed E L D m path data n \<and> current n = None) ?J ?J" for old
            by (rule triple_conseq [OF triple_conj [OF remove_old_triple remove_keeps_current]]) (auto intro: J)
          show "triple (\<lambda>n. installed E L D m path data n \<and> current n = None) clear_marker (\<lambda>u. ?C) ?J ?J" for u :: unit
            by (rule triple_conseq [OF triple_conj [OF clear_marker_triple clear_keeps_current]]) (auto intro: J)
          show "triple ?C (modify (\<lambda>n. n\<lparr>poisoned := False\<rparr>)) (\<lambda>u. ?C) ?J ?J" for u :: unit
            by (rule triple_modify) (auto simp: durable_inv_def snapfile_def stale_marker_def)
          show "triple ?C sweep (\<lambda>u. ?C) ?J ?J" for u :: unit
            by (rule triple_conseq [OF sweep_triple [of ?C ?J]]) (auto intro: durable_inv_swept)
          show "triple ?C (ret (Some m)) (\<lambda>r. live_inv E L D) ?J ?J" for u :: unit
            by (rule triple_ret) (auto simp: live_inv_def)
        qed
        then have "triple (\<lambda>n. ?P n \<and> n = x) (seq (lift_res (map_sum Payload_Err id (open_batches D data))) (\<lambda>bs.
             seq (restore_and_persist m bs path) (\<lambda>old. seq (remove_old old path) (\<lambda>u. seq clear_marker (\<lambda>u.
             seq (modify (\<lambda>n. n\<lparr>poisoned := False\<rparr>)) (\<lambda>u. seq sweep (\<lambda>u. ret (Some m)))))))) (\<lambda>r. live_inv E L D) ?J ?J"
          by (rule triple_conseq) (use I in auto)
        then show ?thesis using mk data False by simp
      qed
    qed
  qed
qed

text \<open>What the code relies on of the payload format: the rows that were written are read back.\<close>

definition disk_ok :: "'mb disk \<Rightarrow> bool" where
  "disk_ok D \<longleftrightarrow> (\<forall>rows bs. open_batches D (encode_rows D rows) = Inr (map Inr bs) \<longrightarrow> concat bs = rows)"

lemma build_triple:
  assumes "disk_ok D" "ends_with path ''.snap''"
  shows "triple (\<lambda>n. live_inv E L D n \<and> files n path = None) (build_snapshot D members path)
    (\<lambda>r. live_inv E L D) (live_inv E L D) (durable_inv E L D)"
  unfolding build_snapshot_def
proof (rule triple_seq)
  let ?V = "live_inv E L D" and ?J = "durable_inv E L D"
  have J: "?V n \<Longrightarrow> ?J n" for n by (simp add: live_inv_def)
  show "triple (\<lambda>n. ?V n \<and> files n path = None) (reads id) (\<lambda>x n. ?V n \<and> files n path = None \<and> n = x) ?V ?J"
    by (rule triple_reads) auto
  fix x :: "'a node"
  let ?m = "\<lparr>last_log_id = applied x, last_membership = (case membership x of None \<Rightarrow> members | Some x \<Rightarrow> x)\<rparr>"
  let ?data = "encode_rows D (ms_get_prefix (kv x) [])"
  let ?body = "seq (put_file path ?data) (\<lambda>u. seq (reads load_registry) (\<lambda>reg.
         if reg \<noteq> None \<and> \<not> snapshot_meta_newer D ?m (fst (the reg)) then ret (?m, path)
         else seq (persist_registry ?m path) (\<lambda>old.
           seq (delete_old_snapshot_file old) (\<lambda>u.
           seq (modify (\<lambda>n. n\<lparr>current := Some (?m, path)\<rparr>)) (\<lambda>u. ret (?m, path))))))"
  show "triple (\<lambda>n. ?V n \<and> files n path = None \<and> n = x)
      (if poisoned x then raise Poisoned else let m = ?m in
       seq (put_file path ?data) (\<lambda>u. seq (reads load_registry) (\<lambda>reg.
         if reg \<noteq> None \<and> \<not> snapshot_meta_newer D m (fst (the reg)) then ret (m, path)
         else seq (persist_registry m path) (\<lambda>old.
           seq (delete_old_snapshot_file old) (\<lambda>u.
           seq (modify (\<lambda>n. n\<lparr>current := Some (m, path)\<rparr>)) (\<lambda>u. ret (m, path))))))) (\<lambda>r. ?V) ?V ?J"
  proof (cases "?V x \<and> \<not> poisoned x")
    case False
    then show ?thesis by (auto intro: triple_pre triple_raise)
  next
    case True
    then have x: "marker x = None" "good E L (applied x) (kv x)" by (auto simp: live_inv_def durable_inv_def)
    have legit: "legit E L D ?m ?data"
      unfolding legit_def
    proof (intro allI impI)
      fix bs assume "open_batches D ?data = Inr (map Inr bs)"
      then have "concat bs = ms_get_prefix (kv x) []" using assms(1) by (simp add: disk_ok_def)
      then show "good E L (last_log_id ?m) (bm_of_list (concat bs))" using x(2) by (simp add: ms_get_prefix_all)
    qed
    let ?W = "\<lambda>n. ?V n \<and> \<not> poisoned n"
    let ?old = "\<lambda>n. reg_file n \<noteq> Some path"
    let ?Done = "\<lambda>n. ?J n \<and> marker n = None \<and> reg_file n = Some path \<and> snapfile E L D n ?m path"
    have "triple (\<lambda>n. (?W n \<and> ?old n) \<and> files n path = None) ?body (\<lambda>r. ?V) ?V ?J"
    proof (rule triple_seq)
      show "triple (\<lambda>n. (?W n \<and> ?old n) \<and> files n path = None) (put_file path ?data)
          (\<lambda>u n. (?W n \<and> ?old n) \<and> files n path = Some ?data) ?V ?J"
        by (rule triple_conseq [OF put_file_triple [of "\<lambda>n. ?W n \<and> ?old n" path ?J]])
          (use assms(2) J in \<open>auto intro: live_inv_files\<close>)
      have commit: "triple (\<lambda>n. (?W n \<and> ?old n) \<and> files n path = Some ?data) (seq (persist_registry ?m path) (\<lambda>old.
           seq (delete_old_snapshot_file old) (\<lambda>u.
           seq (modify (\<lambda>n. n\<lparr>current := Some (?m, path)\<rparr>)) (\<lambda>u. ret (?m, path))))) (\<lambda>r. ?V) ?V ?J"
        unfolding persist_registry_def
      proof (intro triple_seq)
        show "triple (\<lambda>n. (?W n \<and> ?old n) \<and> files n path = Some ?data) (reads reg_file)
            (\<lambda>old n. ?W n \<and> files n path = Some ?data \<and> old \<noteq> Some path) ?V ?J"
          by (rule triple_reads) auto
        show "triple (\<lambda>n. ?W n \<and> files n path = Some ?data \<and> old \<noteq> Some path)
            (durably Io (\<lambda>n. n\<lparr>reg_meta := Some ?m, reg_file := Some path\<rparr>)) (\<lambda>u n. ?Done n \<and> old \<noteq> Some path) ?V ?J"
          for old
          by (rule triple_durably)
            (use assms(2) legit in \<open>auto simp: live_inv_def durable_inv_def snapfile_def stale_marker_def\<close>)
        show "triple (\<lambda>n. ?Done n \<and> old \<noteq> Some path) (ret old) (\<lambda>old n. ?Done n \<and> old \<noteq> Some path) ?V ?J"
          for old :: "string option" and u :: unit
          by (rule triple_ret)
        show "triple (\<lambda>n. ?Done n \<and> old \<noteq> Some path) (delete_old_snapshot_file old) (\<lambda>u. ?Done) ?V ?J" for old
          unfolding delete_old_snapshot_file_def
          by (cases old) (auto intro!: triple_ret triple_try_durably simp: durable_inv_def snapfile_def stale_marker_def)
        show "triple ?Done (modify (\<lambda>n. n\<lparr>current := Some (?m, path)\<rparr>)) (\<lambda>u. ?V) ?V ?J" for u :: unit
          by (rule triple_modify) (auto simp: live_inv_def durable_inv_def snapfile_def stale_marker_def)
        show "triple ?V (ret (?m, path)) (\<lambda>r. ?V) ?V ?J" for u :: unit by (rule triple_ret)
      qed
      show "triple (\<lambda>n. (?W n \<and> ?old n) \<and> files n path = Some ?data) (seq (reads load_registry) (\<lambda>reg.
         if reg \<noteq> None \<and> \<not> snapshot_meta_newer D ?m (fst (the reg)) then ret (?m, path)
         else seq (persist_registry ?m path) (\<lambda>old.
           seq (delete_old_snapshot_file old) (\<lambda>u.
           seq (modify (\<lambda>n. n\<lparr>current := Some (?m, path)\<rparr>)) (\<lambda>u. ret (?m, path)))))) (\<lambda>r. ?V) ?V ?J" for u :: unit
        by (rule triple_seq [where R = "\<lambda>r n. (?W n \<and> ?old n) \<and> files n path = Some ?data"], rule triple_reads, simp,
            rule triple_cases, rule triple_ret, simp, rule commit)
    qed
    moreover have "reg_file x \<noteq> Some path" if "files x path = None"
      using True that by (auto simp: live_inv_def durable_inv_def snapfile_def)
    ultimately show ?thesis
      using True by (auto simp: Let_def elim!: triple_conseq)
  qed
qed

text \<open>The writes of a command that do not fail: all are made, or the process dies between two of them.\<close>

definition write_count :: "ext \<Rightarrow> nat \<Rightarrow> 'mb payload \<Rightarrow> sval mem_store \<Rightarrow> nat" where
  "write_count E i pl st = (case pl of
     Normal c \<Rightarrow> length (entry_deletes i c st) + (if entry_flushes E i c st then 1 else 0)
   | _ \<Rightarrow> 0)"

lemma delete_each_run:
  assumes "Fails \<notin> set (take (length ks) fs)" "delete_each ks fs n = (fs', n', r)"
  shows "r = Done () \<and> n' = n\<lparr>kv := delete_keys ks (kv n)\<rparr> \<and> fs' = drop (length ks) fs \<or>
    r = Crashed \<and> (\<exists>j. n' = n\<lparr>kv := delete_keys (take j ks) (kv n)\<rparr>)"
  using assms
proof (induction ks arbitrary: fs n)
  case Nil
  then show ?case by (simp add: ret_def)
next
  case (Cons k ks)
  let ?n = "n\<lparr>kv := ms_delete (kv n) k\<rparr>"
  consider "fs = [] \<or> hd fs = Fine" | gs where "fs = Crashes # gs"
    using Cons.prems(1) by (cases fs; cases "hd fs") auto
  then show ?case
  proof cases
    case 1
    then have "delete_each ks (tl fs) ?n = (fs', n', r)" "Fails \<notin> set (take (length ks) (tl fs))"
      using Cons.prems by (cases fs; auto simp: seq_def durably_def)+
    from Cons.IH [OF this(2,1)] show ?thesis
    proof (elim disjE exE conjE)
      fix j assume "r = Crashed" "n' = ?n\<lparr>kv := delete_keys (take j ks) (kv ?n)\<rparr>"
      then have "n' = n\<lparr>kv := delete_keys (take (Suc j) (k # ks)) (kv n)\<rparr>" by simp
      then show ?thesis using \<open>r = Crashed\<close> by blast
    qed (simp add: drop_Suc)
  next
    case (2 gs)
    then have "r = Crashed" "n' = n\<lparr>kv := delete_keys (take 0 (k # ks)) (kv n)\<rparr>"
      using Cons.prems(2) by (auto simp: seq_def durably_def)
    then show ?thesis by blast
  qed
qed

lemma entry_writes_run:
  fixes n :: "'mb node"
  assumes "Fails \<notin> set (take (write_count E i (Normal c :: 'mb payload) (kv n)) fs)" "entry_writes E i c fs n = (fs', n', r)"
  shows "(\<exists>x. r = Done x) \<and> n' = n\<lparr>kv := entry_store E i (Normal c :: 'mb payload) (kv n)\<rparr> \<or>
    r = Crashed \<and> (\<exists>j. n' = n\<lparr>kv := cut_entry i (Normal c :: 'mb payload) (kv n) j\<rparr>)"
proof -
  let ?ks = "entry_deletes i c (kv n)"
  obtain fs1 n1 r1 where dels: "delete_each ?ks fs n = (fs1, n1, r1)" by (cases "delete_each ?ks fs n") auto
  have "set (take (length ?ks) fs) \<subseteq> set (take (write_count E i (Normal c :: 'mb payload) (kv n)) fs)"
    by (rule set_take_subset_set_take) (simp add: write_count_def)
  then have "Fails \<notin> set (take (length ?ks) fs)" using assms(1) by blast
  from delete_each_run [OF this dels] show ?thesis
  proof (elim disjE exE conjE)
    fix j assume "r1 = Crashed" "n1 = n\<lparr>kv := delete_keys (take j ?ks) (kv n)\<rparr>"
    then show ?thesis using assms(2) dels by (auto simp: entry_writes_def seq_def reads_def cut_entry_def)
  next
    assume d: "r1 = Done ()" "n1 = n\<lparr>kv := delete_keys ?ks (kv n)\<rparr>" "fs1 = drop (length ?ks) fs"
    show ?thesis
    proof (cases "entry_flushes E i c (kv n)")
      case False
      then have "delete_keys ?ks (kv n) = entry_store E i (Normal c :: 'mb payload) (kv n)"
        using no_flush_store [of E c "int i" "sm_new (kv n)"]
        by (simp add: entry_flushes_def entry_deletes_def entry_store_def) (simp add: sm_new_def)
      then show ?thesis using False assms(2) dels d by (auto simp: entry_writes_def seq_def reads_def ret_def)
    next
      case True
      have "\<nexists>gs. fs1 = Fails # gs"
      proof
        assume "\<exists>gs. fs1 = Fails # gs"
        then obtain gs where "drop (length ?ks) fs = Fails # gs" using d(3) by auto
        then have "Fails \<in> set (take (length ?ks + 1) fs)" unfolding take_add by simp
        then show False using assms(1) True by (simp add: write_count_def)
      qed
      moreover have "delete_keys ?ks (kv n) = cut_entry i (Normal c :: 'mb payload) (kv n) (length ?ks)"
        by (simp add: cut_entry_def)
      then have "\<exists>j. n1 = n\<lparr>kv := cut_entry i (Normal c :: 'mb payload) (kv n) j\<rparr>" using d(2) by metis
      moreover note assms(2) [unfolded entry_writes_def seq_def reads_def prod.case ending.case dels d(1)] d(2)
      ultimately show ?thesis using True
        by (cases fs1; cases "hd fs1") (auto simp: seq_def ret_def durably_def)
    qed
  qed
qed

lemma apply_log_entry_live:
  assumes "live_inv E L D n" "li_index lid = next_index (applied n)"
    and "Fails \<notin> set (take (write_count E (li_index lid) (L (li_index lid)) (kv n)) fs)"
    and "apply_log_entry E lid (L (li_index lid)) fs n = (fs', n', r)"
  shows "durable_inv E L D n' \<and> (r \<noteq> Crashed \<longrightarrow> live_inv E L D n')"
proof (cases "poisoned n")
  case True
  then show ?thesis using assms(1,4) by (auto simp: apply_log_entry_def seq_def reads_def raise_def live_inv_def)
next
  case False
  then have n: "marker n = None" "good E L (applied n) (kv n)" "durable_inv E L D n"
    using assms(1) by (auto simp: live_inv_def durable_inv_def)
  have done_ok: "live_inv E L D (n\<lparr>kv := entry_store E (li_index lid) (L (li_index lid)) (kv n), applied := Some lid\<rparr>)"
    using assms(1) False n good_next [OF n(2) assms(2)]
    by (auto simp: live_inv_def durable_inv_def snapfile_def stale_marker_def)
  have ahead: "live_inv E L D (n\<lparr>kv := st\<rparr>)" if "good E L (applied n) st" for st
    using assms(1) False n that by (auto simp: live_inv_def durable_inv_def snapfile_def stale_marker_def)
  have J: "live_inv E L D n \<Longrightarrow> durable_inv E L D n" for n by (simp add: live_inv_def)
  show ?thesis
  proof (cases "L (li_index lid)")
    case (Normal c)
    note half = ahead [OF good_ahead(1) [OF n(2)], folded assms(2), unfolded Normal]
      and cut = ahead [OF good_ahead(2) [OF n(2)], folded assms(2), unfolded Normal]
    obtain fs1 n1 r1 where w: "entry_writes E (li_index lid) c fs n = (fs1, n1, r1)"
      by (cases "entry_writes E (li_index lid) c fs n") auto
    from entry_writes_run [OF assms(3) [unfolded Normal] w] show ?thesis
    proof (elim disjE exE conjE)
      fix x assume "r1 = Done x" "n1 = n\<lparr>kv := entry_store E (li_index lid) (Normal c :: 'a payload) (kv n)\<rparr>"
      then show ?thesis using assms(4) Normal False w half done_ok J
        by (auto simp: apply_log_entry_def seq_def reads_def catch_def ret_def durably_def split: list.splits fault.splits)
    next
      fix j assume "r1 = Crashed" "n1 = n\<lparr>kv := cut_entry (li_index lid) (Normal c :: 'a payload) (kv n) j\<rparr>"
      then show ?thesis using assms(4) Normal False w cut J
        by (auto simp: apply_log_entry_def seq_def reads_def catch_def)
    qed
  next
    case Blank
    then have "live_inv E L D (n\<lparr>applied := Some lid\<rparr>)" using done_ok by (simp add: entry_store_def)
    then show ?thesis
      using Blank assms(1,4) False J
      by (auto simp: apply_log_entry_def seq_def reads_def ret_def durably_def split: list.splits fault.splits)
  next
    case (Membership mb)
    then have "live_inv E L D (n\<lparr>applied := Some lid\<rparr>)" using done_ok by (simp add: entry_store_def)
    then have "live_inv E L D (n\<lparr>membership := Some mb\<rparr>)" "live_inv E L D (n\<lparr>membership := Some mb, applied := Some lid\<rparr>)"
      using assms(1) by (auto simp: live_inv_def durable_inv_def snapfile_def stale_marker_def)
    then show ?thesis
      using Membership assms(1,4) False J
      by (auto simp: apply_log_entry_def seq_def reads_def durably_def split: list.splits fault.splits)
  qed
qed

section \<open>The life of a node\<close>

definition fresh_node :: "'mb node" where
  "fresh_node = \<lparr>kv = bm_empty, applied = None, membership = None, reg_meta = None, reg_file = None, marker = None,
     poison = False, files = Map.empty, poisoned = False, current = None\<rparr>"

definition up_after :: "('e, 'a) ending \<Rightarrow> bool" where
  "up_after r = (case r of Crashed \<Rightarrow> False | _ \<Rightarrow> True)"

text \<open>
  A node is down or up. It starts, with any faults; up, it applies the next entry, installs a snapshot
  that is not behind its position, builds one, each with any faults; and it can die at any time. The files
  of new snapshots have fresh names. The writes of a command do not fail with an error (they may be cut off
  by a crash): \<open>failed_flush_loses_entry\<close> says what happens otherwise.
\<close>

inductive life :: "ext \<Rightarrow> (nat \<Rightarrow> 'mb payload) \<Rightarrow> 'mb disk \<Rightarrow> 'mb node \<Rightarrow> bool \<Rightarrow> bool"
  for E :: ext and L :: "nat \<Rightarrow> 'mb payload" and D :: "'mb disk"
where
  fresh: "life E L D fresh_node False"
| start: "life E L D n False \<Longrightarrow> boot D force fs n = (fs', n', Done r) \<Longrightarrow> life E L D n' True"
| refuse: "life E L D n False \<Longrightarrow> boot D force fs n = (fs', n', r) \<Longrightarrow> (\<nexists>x. r = Done x) \<Longrightarrow> life E L D n' False"
| entry: "life E L D n True \<Longrightarrow> li_index lid = next_index (applied n) \<Longrightarrow>
    Fails \<notin> set (take (write_count E (li_index lid) (L (li_index lid)) (kv n)) fs) \<Longrightarrow>
    apply_log_entry E lid (L (li_index lid)) fs n = (fs', n', r) \<Longrightarrow> life E L D n' (up_after r)"
| install: "life E L D n True \<Longrightarrow> ends_with path ''.snap'' \<Longrightarrow> files n path = None \<Longrightarrow> legit E L D m data \<Longrightarrow>
    \<not> stale_marker m n \<Longrightarrow> install_snapshot D True m data path fs n = (fs', n', r) \<Longrightarrow> life E L D n' (up_after r)"
| build: "life E L D n True \<Longrightarrow> ends_with path ''.snap'' \<Longrightarrow> files n path = None \<Longrightarrow>
    build_snapshot D members path fs n = (fs', n', r) \<Longrightarrow> life E L D n' (up_after r)"
| die: "life E L D n True \<Longrightarrow> life E L D n False"

lemma boot_triple: "triple (durable_inv E L D) (boot D force) (\<lambda>r. live_inv E L D) (durable_inv E L D) (durable_inv E L D)"
  unfolding boot_def by (rule triple_seq [OF open_store_triple recover_triple])

lemma ending_inv:
  assumes "triple P p (\<lambda>x. live_inv E L D) (live_inv E L D) (durable_inv E L D)" "P n" "p fs n = (fs', n', r)"
  shows "durable_inv E L D n' \<and> (up_after r \<longrightarrow> live_inv E L D n')"
  using tripleD [OF assms] by (cases r) (auto simp: up_after_def live_inv_def)

lemma life_inv: "life E L D n up \<Longrightarrow> disk_ok D \<Longrightarrow> durable_inv E L D n \<and> (up \<longrightarrow> live_inv E L D n)"
proof (induction n up rule: life.induct)
  case fresh
  then show ?case using good_empty by (simp add: durable_inv_def fresh_node_def)
next
  case (start n force fs fs' n' r)
  then show ?case using tripleD [OF boot_triple _ start.hyps(2), of E L] by (simp add: live_inv_def)
next
  case (refuse n force fs fs' n' r)
  then show ?case using tripleD [OF boot_triple _ refuse.hyps(2), of E L] by (cases r) auto
next
  case (entry n lid fs fs' n' r)
  then show ?case using apply_log_entry_live [where D = D and L = L, OF _ entry.hyps(2,3,4)] by (cases r) (auto simp: up_after_def)
next
  case (install n path m data fs fs' n' r)
  then show ?case using ending_inv [OF install_triple [OF install.hyps(2,4)] _ install.hyps(6)] by simp
next
  case (build n path members fs fs' n' r)
  then show ?case using ending_inv [OF build_triple [OF _ build.hyps(2)] _ build.hyps(4)] by simp
next
  case (die n)
  then show ?case by simp
qed

text \<open>
  C18: Whatever crashes at any durable write a node has lived through, and whatever input/output errors outside the
  writes of a command (\<open>failed_flush_loses_entry\<close>), when it serves (it is up and not poisoned) its store is built from
  every log entry up to its position, in order, each applied at least once, and at most the next one besides; an
  application may be repeated, and one of a shared publish may have been cut off among its deletions
  (\<open>interrupted_shared_publish_lost\<close>). It is never a mix of an old state and a snapshot. The snapshot it offers is a
  file that exists and holds such a state.
\<close>
theorem serving_node_is_consistent:
  assumes "life E L D n True" "disk_ok D" "\<not> poisoned n"
  shows "good E L (applied n) (kv n) \<and> marker n = None \<and>
    (\<forall>m p. get_current_snapshot n = Some (m, p) \<longrightarrow> (\<exists>data. files n p = Some data \<and> legit E L D m data))"
proof -
  have live: "live_inv E L D n" using life_inv [OF assms(1,2)] by simp
  have "snapfile E L D n m p" if "get_current_snapshot n = Some (m, p)" for m p
    using that live assms(3)
    by (auto simp: get_current_snapshot_def load_registry_def live_inv_def durable_inv_def split: option.splits if_splits)
  then show ?thesis using live assms(3) by (auto simp: live_inv_def durable_inv_def snapfile_def)
qed

section \<open>A start without faults ends the interruption\<close>

definition succeeds :: "('n \<Rightarrow> bool) \<Rightarrow> ('n, 'e, 'a) program \<Rightarrow> ('a \<Rightarrow> 'n \<Rightarrow> bool) \<Rightarrow> bool" where
  "succeeds P p Q \<longleftrightarrow> (\<forall>n. P n \<longrightarrow> (\<exists>x n'. p [] n = ([], n', Done x) \<and> Q x n'))"

lemma succeeds_basic:
  "(\<And>n. P n \<Longrightarrow> Q x n) \<Longrightarrow> succeeds P (ret x) Q"
  "(\<And>n. P n \<Longrightarrow> Q' (g n) n) \<Longrightarrow> succeeds P (reads g) Q'"
  "(\<And>n. P n \<Longrightarrow> Q'' () (f n)) \<Longrightarrow> succeeds P (modify f) Q''"
  "(\<And>n. P n \<Longrightarrow> Q'' () (f n)) \<Longrightarrow> succeeds P (durably e f) Q''"
  "(\<And>n. P n \<Longrightarrow> Q'' () (f n)) \<Longrightarrow> succeeds P (try_durably f) Q''"
  by (auto simp: succeeds_def ret_def reads_def modify_def durably_def try_durably_def)

lemma succeeds_seq:
  assumes "succeeds P p R" "\<And>x. succeeds (R x) (f x) Q"
  shows "succeeds P (seq p f) Q"
  using assms unfolding succeeds_def by (fastforce simp: seq_def)

lemma succeeds_conseq: "succeeds P p Q \<Longrightarrow> (\<And>n. P' n \<Longrightarrow> P n) \<Longrightarrow> (\<And>x n. Q x n \<Longrightarrow> Q' x n) \<Longrightarrow> succeeds P' p Q'"
  unfolding succeeds_def by blast

lemma succeeds_triple:
  assumes "succeeds P p (\<lambda>x n. True)" "triple P p Q F C"
  shows "succeeds P p Q"
  unfolding succeeds_def
proof (intro allI impI)
  fix n assume "P n"
  then obtain x n' where p: "p [] n = ([], n', Done x)" using assms(1) by (auto simp: succeeds_def)
  then show "\<exists>x n'. p [] n = ([], n', Done x) \<and> Q x n'" using tripleD [OF assms(2) \<open>P n\<close> p] by auto
qed

lemma restore_succeeds: "succeeds (\<lambda>n. True) (restore_batches (map Inr rows) first) (\<lambda>x n. True)"
  by (induction rows arbitrary: first)
    (auto intro!: succeeds_basic succeeds_seq [where R = "\<lambda>x n. True"])

lemma sweep_succeeds: "succeeds (\<lambda>n. True) sweep (\<lambda>x n. True)"
  unfolding sweep_def by (rule succeeds_seq [where R = "\<lambda>x n. True"]) (auto intro!: succeeds_basic)

lemma restore_and_persist_succeeds: "succeeds (\<lambda>n. True) (restore_and_persist m (map Inr rows) path) (\<lambda>x n. True)"
  unfolding restore_and_persist_def restore_state_def persist_registry_def
  by (auto intro!: succeeds_seq [where R = "\<lambda>x n. True"] succeeds_basic restore_succeeds)

lemma remove_old_succeeds: "succeeds (\<lambda>n. True) (remove_old old path) (\<lambda>x n. True)"
  by (auto simp: remove_old_def delete_old_snapshot_file_def intro!: succeeds_basic split: option.splits)

text \<open>
  C20: A start without input/output errors ends the interruption: from every state in which a node that is down can be
  left, if the payload its marker names decodes (otherwise the code refuses to start), the process comes up, is
  not poisoned, and its store is built from the entries up to its position, as \<open>good\<close> says; a second interruption on
  the way only repeats the start.
\<close>
theorem start_recovers:
  assumes "life E L D n False" "disk_ok D"
    and "\<And>m p data. marker n = Some (Some (m, p)) \<Longrightarrow> files n p = Some data \<Longrightarrow> \<exists>bs. open_batches D data = Inr (map Inr bs)"
  shows "\<exists>r n'. boot D False [] n = ([], n', Done r) \<and> life E L D n' True \<and> \<not> poisoned n' \<and>
    good E L (applied n') (kv n')"
proof -
  have J: "durable_inv E L D n" using life_inv [OF assms(1,2)] by simp
  have "succeeds (\<lambda>x. x = n) (open_store :: ('a, unit) act) (\<lambda>u x. True)"
    unfolding open_store_def reset_registry_if_file_missing_def
    by (rule succeeds_conseq [where P = "\<lambda>n. True" and Q = "\<lambda>u n. True"])
      (auto intro!: succeeds_seq [where R = "\<lambda>x n. True"] succeeds_basic sweep_succeeds split: option.splits)
  then obtain n1 where n1: "open_store [] n = ([], n1, Done ())" by (auto simp: succeeds_def)
  have o: "durable_inv E L D n1 \<and> current n1 = None \<and> poisoned n1 = poison n1"
    using tripleD [OF open_store_triple J n1] by simp
  have "marker n1 = marker n \<and> (\<forall>p. p \<in> keep_set n \<longrightarrow> ends_with p ''.snap'' \<longrightarrow> files n1 p = files n p)"
    using n1 snap_not_part
    by (auto simp: open_store_def reset_registry_if_file_missing_def sweep_def seq_def modify_def reads_def
        try_durably_def ret_def keep_set_def swept_def split: if_splits option.splits)
  then have keep: "marker n1 = marker n" "\<And>m p. marker n = Some (Some (m, p)) \<Longrightarrow> ends_with p ''.snap'' \<Longrightarrow> files n1 p = files n p"
    by (auto simp: keep_set_def)
  have "\<exists>r n'. recover_interrupted_restore_with D False [] n1 = ([], n', Done r) \<and> \<not> poisoned n'"
  proof (cases "marker n1")
    case None
    then have "\<not> poisoned n1" using o by (auto simp: durable_inv_def)
    then show ?thesis using None by (simp add: recover_interrupted_restore_with_def seq_def reads_def ret_def)
  next
    case (Some mk)
    then obtain m p data where mk: "marker n1 = Some (Some (m, p))" "files n1 p = Some data" "\<not> stale_marker m n1"
      "ends_with p ''.snap''"
      using o by (cases mk) (auto simp: durable_inv_def snapfile_def)
    then obtain bs where bs: "open_batches D data = Inr (map Inr bs)"
      using assms(3) [of m p data] keep by auto
    have "succeeds (\<lambda>x. x = n1) (recover_interrupted_restore_with D False) (\<lambda>r x. \<not> poisoned x)"
      unfolding recover_interrupted_restore_with_def
    proof (rule succeeds_seq [where R = "\<lambda>x y. x = n1"])
      show "succeeds (\<lambda>x. x = n1) (reads id) (\<lambda>x y. x = n1)" by (rule succeeds_basic) simp
      have "succeeds (\<lambda>y. True) (seq (lift_res (map_sum Payload_Err id (open_batches D data))) (\<lambda>bs.
             seq (restore_and_persist m bs p) (\<lambda>old. seq (remove_old old p) (\<lambda>u. seq clear_marker (\<lambda>u.
             seq (modify (\<lambda>n. n\<lparr>poisoned := False\<rparr>)) (\<lambda>u. seq sweep (\<lambda>u. ret (Some m)))))))) (\<lambda>r x. \<not> poisoned x)"
      proof (rule succeeds_seq [where R = "\<lambda>x y. x = map Inr bs"])
        show "succeeds (\<lambda>y. True) (lift_res (map_sum Payload_Err id (open_batches D data))) (\<lambda>x y. x = map Inr bs)"
          by (simp add: bs lift_res_def succeeds_basic)
        have sw: "succeeds (\<lambda>y. \<not> poisoned y) sweep (\<lambda>u y. \<not> poisoned y)"
          unfolding sweep_def by (rule succeeds_seq [where R = "\<lambda>x y. \<not> poisoned y"]) (auto intro!: succeeds_basic)
        have "succeeds (\<lambda>y. True) (seq (restore_and_persist m (map Inr bs) p) (\<lambda>old. seq (remove_old old p) (\<lambda>u.
            seq clear_marker (\<lambda>u. seq (modify (\<lambda>n. n\<lparr>poisoned := False\<rparr>)) (\<lambda>u. seq sweep (\<lambda>u. ret (Some m)))))))
            (\<lambda>r x. \<not> poisoned x)"
          unfolding clear_marker_def
          by (rule succeeds_seq [OF restore_and_persist_succeeds], rule succeeds_seq [OF remove_old_succeeds],
              rule succeeds_seq [where R = "\<lambda>u y. True"], rule succeeds_basic, simp,
              rule succeeds_seq [where R = "\<lambda>u y. \<not> poisoned y"], rule succeeds_basic, simp,
              rule succeeds_seq [OF sw], rule succeeds_basic)
        then show "succeeds (\<lambda>y. x = map Inr bs) (seq (restore_and_persist m x p) (\<lambda>old. seq (remove_old old p) (\<lambda>u.
            seq clear_marker (\<lambda>u. seq (modify (\<lambda>n. n\<lparr>poisoned := False\<rparr>)) (\<lambda>u. seq sweep (\<lambda>u. ret (Some m)))))))
            (\<lambda>r x. \<not> poisoned x)" for x
          by (auto simp: succeeds_def)
      qed
      then show "succeeds (\<lambda>y. x = n1) (case marker x of None \<Rightarrow> ret None | Some None \<Rightarrow> raise Marker_Corrupt
        | Some (Some (m, path)) \<Rightarrow>
          if stale_marker m x then seq (durably Io (\<lambda>n. n\<lparr>marker := None\<rparr>)) (\<lambda>u. ret None)
          else if False then seq set_poison (\<lambda>u. ret None)
          else case files x path of None \<Rightarrow> raise Payload_Missing
            | Some data \<Rightarrow> seq (lift_res (map_sum Payload_Err id (open_batches D data))) (\<lambda>bs.
               seq (restore_and_persist m bs path) (\<lambda>old. seq (remove_old old path) (\<lambda>u. seq clear_marker (\<lambda>u.
               seq (modify (\<lambda>n. n\<lparr>poisoned := False\<rparr>)) (\<lambda>u. seq sweep (\<lambda>u. ret (Some m)))))))) (\<lambda>r x. \<not> poisoned x)" for x
        using mk by (cases "x = n1") (auto simp: succeeds_def)
    qed
    then show ?thesis by (auto simp: succeeds_def)
  qed
  then obtain r n' where r: "recover_interrupted_restore_with D False [] n1 = ([], n', Done r)" "\<not> poisoned n'" by blast
  have run: "boot D False [] n = ([], n', Done r)" using n1 r(1) by (simp add: boot_def seq_def)
  have up: "life E L D n' True" by (rule life.start [OF assms(1) run])
  have "live_inv E L D n'" using life_inv [OF up assms(2)] by simp
  then show ?thesis using run up r(2) by (auto simp: live_inv_def durable_inv_def)
qed

section \<open>What the transactions of an entry leave open\<close>

text \<open>
  A failed flush of a command is taken for a refused command: the position advances and the entry is lost
  on this node, which goes on serving.
\<close>

lemma single_write_entry:
  fixes n :: "'mb node"
  assumes "\<not> poisoned n" "entry_deletes (li_index lid) c (kv n) = []" "entry_flushes E (li_index lid) c (kv n)"
  shows "apply_log_entry E lid (Normal c) fs n =
    seq (try_durably (\<lambda>x. x\<lparr>kv := entry_store E (li_index lid) (Normal c :: 'mb payload) (kv n)\<rparr>))
      (\<lambda>u. durably Io (\<lambda>n. n\<lparr>applied := Some lid\<rparr>)) fs n"
  using assms by (cases fs; cases "hd fs")
    (simp_all add: apply_log_entry_def entry_writes_def seq_def catch_def reads_def ret_def try_durably_def durably_def)

lemma failed_flush_loses_entry:
  assumes "\<not> poisoned n" "entry_deletes (li_index lid) c (kv n) = []" "entry_flushes E (li_index lid) c (kv n)"
  shows "apply_log_entry E lid (Normal c) [Fails] n = ([], n\<lparr>applied := Some lid\<rparr>, Done ())"
  using single_write_entry [OF assms] by (simp add: seq_def try_durably_def durably_def)

lemma audit_store:
  assumes "bm_get st K_AUDIT_SEQ = (if k = 0 then None else Some (SNum k))"
  shows "bm_get (entry_store E i (Normal (AuditAppend e) :: 'mb payload) st) K_AUDIT_SEQ = Some (SNum (k + 1))"
    and "entry_deletes i (AuditAppend e) st = []" "entry_flushes E i (AuditAppend e) st"
proof -
  let ?s = "clear_pending (sm_new st)"
  have "load_merged as_num ?s K_AUDIT_SEQ = Inr (if k = 0 then None else Some k)"
    using assms by (simp add: load_merged_def get_merged_def buf_get_def ms_get_def decode_with_def sm_new_def)
  then obtain u where append: "apply_audit_append e ?s = Inr (u, [])"
    and u: "u = save_pending K_AUDIT_SEQ (SNum (k + 1)) (save_pending (audit_key (k + 1)) (SAudit (e\<lparr>au_seq := k + 1\<rparr>)) ?s)"
    by (simp add: apply_audit_append_def done_with_def Let_def)
  have "apply_command E (AuditAppend e) (int i) (sm_new st) = (flush_pending u, Inr [])"
    by (simp add: apply_command_def append buffered_def)
  then show "bm_get (entry_store E i (Normal (AuditAppend e) :: 'mb payload) st) K_AUDIT_SEQ = Some (SNum (k + 1))"
    using u by (simp add: entry_store_def flush_pending_def buf_flush_def save_pending_def put_pending_def
        sm_new_def ms_write_batch_def op_puts_def op_dels_def)
  show "entry_deletes i (AuditAppend e) st = []" by (simp add: entry_deletes_def direct_deletes_def)
  show "entry_flushes E i (AuditAppend e) st"
    using append u by (simp add: entry_flushes_def flushes_def buffered_def save_pending_def put_pending_def)
qed

text \<open>
  A process that dies between the flush and the position applies the entry again after the restart. For a command
  that is not idempotent the node is then different from the others for good: here an audit entry is there
  twice.
\<close>

lemma interrupted_entry_applied_twice:
  fixes D :: "'mb disk" and E :: ext and lid :: log_id and e :: audit_entry
  defines "n1 \<equiv> fst (snd (apply_log_entry E lid (Normal (AuditAppend e)) [Fine, Crashes] (fresh_node :: 'mb node)))"
  shows "\<exists>n2 n3. boot D False [] n1 = ([], n2, Done None) \<and> applied n2 = None \<and>
     apply_log_entry E lid (Normal (AuditAppend e)) [] n2 = ([], n3, Done ()) \<and>
     bm_get (kv n3) K_AUDIT_SEQ = Some (SNum 2) \<and>
     bm_get (kv (fst (snd (apply_log_entry E lid (Normal (AuditAppend e)) [] (fresh_node :: 'mb node))))) K_AUDIT_SEQ = Some (SNum 1)"
proof -
  let ?step = "entry_store E (li_index lid) (Normal (AuditAppend e) :: 'mb payload) :: sval mem_store \<Rightarrow> sval mem_store"
  have one: "bm_get (?step bm_empty) K_AUDIT_SEQ = Some (SNum 1)"
    using audit_store(1) [where 'mb = 'mb, of bm_empty 0 E "li_index lid" e] by simp
  have two: "bm_get (?step (?step bm_empty)) K_AUDIT_SEQ = Some (SNum 2)"
    using audit_store(1) [where 'mb = 'mb, of "?step bm_empty" 1 E "li_index lid" e] one by (simp add: numeral_2_eq_2)
  note first = single_write_entry [of "fresh_node :: 'mb node" lid "AuditAppend e" E]
  have facts: "\<not> poisoned (fresh_node :: 'mb node)" "kv (fresh_node :: 'mb node) = bm_empty"
    "entry_deletes (li_index lid) (AuditAppend e) bm_empty = []" "entry_flushes E (li_index lid) (AuditAppend e) bm_empty"
    "entry_deletes (li_index lid) (AuditAppend e) (?step bm_empty) = []"
    "entry_flushes E (li_index lid) (AuditAppend e) (?step bm_empty)"
    using audit_store(2,3) [of bm_empty 0] audit_store(2,3) [of "?step bm_empty" 1] one by (simp_all add: fresh_node_def)
  have n1: "n1 = fresh_node\<lparr>kv := ?step bm_empty\<rparr>"
    unfolding n1_def using first facts by (simp add: seq_def try_durably_def durably_def)
  let ?n2 = "fresh_node\<lparr>kv := ?step bm_empty\<rparr> :: 'mb node"
  have "boot D False [] n1 = ([], ?n2, Done None)"
    unfolding n1 by (simp add: boot_def open_store_def sweep_def reset_registry_if_file_missing_def seq_def modify_def
        reads_def try_durably_def ret_def recover_interrupted_restore_with_def fresh_node_def fun_eq_iff)
  moreover have "apply_log_entry E lid (Normal (AuditAppend e)) [] ?n2 =
      ([], ?n2\<lparr>kv := ?step (?step bm_empty), applied := Some lid\<rparr>, Done ())"
    using single_write_entry [of ?n2 lid "AuditAppend e" E "[]"] facts by (simp add: seq_def try_durably_def durably_def)
  moreover have "kv (fst (snd (apply_log_entry E lid (Normal (AuditAppend e)) [] (fresh_node :: 'mb node)))) = ?step bm_empty"
    using first facts by (simp add: seq_def try_durably_def durably_def)
  ultimately show ?thesis using one two by (auto simp: fresh_node_def)
qed

text \<open>
  A process that dies between the deletion of a shared draft and the flush of the publish: after the restart the entry
  is applied again, finds no draft and is refused. The draft is gone, the item is not published, and the node is
  different from the others for good.
\<close>

definition one_draft :: shared_item where
  "one_draft = \<lparr>si_key = ''a'', si_ty = TString, si_secret = False, si_required = False, si_value = VString ''x'', si_version = 0,
     si_description = None\<rparr>"

definition draft_store :: "sval mem_store" where
  "draft_store = ms_put bm_empty (shared_draft_key ''a'') (SShared one_draft)"

abbreviation "publish_it \<equiv> SharedPublish ''note'' ''r1'' ''root'' 5 Manual Block"

lemma one_draft_published:
  "direct_deletes publish_it i (clear_pending (sm_new draft_store)) = [shared_draft_key ''a'']"
  "ms_delete draft_store (shared_draft_key ''a'') = bm_empty"
  "flushes sample_ext publish_it i (clear_pending (sm_new draft_store))"
  "apply_command sample_ext publish_it i (sm_new draft_store) =
     (sm_new (ms_put bm_empty (shared_key ''a'') (SShared (one_draft\<lparr>si_version := 1\<rparr>))), Inr [])"
  "direct_deletes publish_it i (clear_pending (sm_new bm_empty)) = []"
  "\<not> flushes sample_ext publish_it i (clear_pending (sm_new bm_empty))"
  "apply_command sample_ext publish_it i (sm_new bm_empty) = (sm_new bm_empty, Inl (err NoDraft))"
  by code_simp+

lemma interrupted_shared_publish_lost:
  fixes D :: "'mb disk" and lid :: log_id
  defines "n \<equiv> (fresh_node :: 'mb node)\<lparr>kv := draft_store\<rparr>"
  shows "\<exists>n1 n2 n3. apply_log_entry sample_ext lid (Normal publish_it) [Fine, Crashes] n = ([], n1, Crashed) \<and>
     boot D False [] n1 = ([], n2, Done None) \<and>
     apply_log_entry sample_ext lid (Normal publish_it) [] n2 = ([], n3, Done ()) \<and> kv n3 = bm_empty \<and>
     bm_get (kv (fst (snd (apply_log_entry sample_ext lid (Normal publish_it) [] n)))) (shared_key ''a'') =
       Some (SShared (one_draft\<lparr>si_version := 1\<rparr>))"
proof -
  note facts = one_draft_published
  note defs = apply_log_entry_def entry_writes_def entry_deletes_def entry_flushes_def seq_def catch_def reads_def ret_def
    durably_def
  have cut: "apply_log_entry sample_ext lid (Normal publish_it) [Fine, Crashes] n = ([], fresh_node, Crashed)"
    by (simp add: n_def defs facts) (simp add: fresh_node_def)
  have restart: "boot D False [] (fresh_node :: 'mb node) = ([], fresh_node, Done None)"
    by (simp add: boot_def open_store_def sweep_def reset_registry_if_file_missing_def seq_def modify_def
        reads_def try_durably_def ret_def recover_interrupted_restore_with_def fresh_node_def fun_eq_iff)
  have "apply_log_entry sample_ext lid (Normal publish_it) [] (fresh_node :: 'mb node) =
      ([], fresh_node\<lparr>applied := Some lid\<rparr>, Done ())"
    using facts(5-7) by (simp add: defs fresh_node_def)
  moreover have "bm_get (kv (fst (snd (apply_log_entry sample_ext lid (Normal publish_it) [] n)))) (shared_key ''a'') =
      Some (SShared (one_draft\<lparr>si_version := 1\<rparr>))"
    by (simp add: n_def defs facts entry_store_def) (simp add: fresh_node_def facts sm_new_def ms_put_def)
  ultimately show ?thesis using cut restart by (auto simp: fresh_node_def)
qed

section \<open>A sample life\<close>

definition sample_disk :: "nat disk" where
  "sample_disk = \<lparr>verify = (\<lambda>data. Inr ()), open_batches = (\<lambda>data. if data = [0] then Inr [] else Inl Json),
     encode_rows = (\<lambda>rows. if rows = [] then [0] else [1]), newer = (\<lambda>a b. li_index a > li_index b)\<rparr>"

definition sample_meta :: "nat snap_meta" where
  "sample_meta = \<lparr>last_log_id = Some \<lparr>li_term = 1, li_node = 1, li_index = 3\<rparr>, last_membership = 7\<rparr>"

abbreviation "blank_log \<equiv> (\<lambda>i. Blank) :: nat \<Rightarrow> nat payload"

lemma sample_disk_ok: "disk_ok sample_disk"
  by (simp add: disk_ok_def sample_disk_def)

lemma built_blank: "built E blank_log k bm_empty"
proof (induction k)
  case (Suc k)
  then show ?case using built.once [of E blank_log k bm_empty] by (simp add: entry_store_def)
qed (fact built.empty)

lemma sample_legit: "legit E blank_log sample_disk sample_meta [0]"
  by (simp add: legit_def good_def built_blank sample_disk_def sample_meta_def bm_of_list_def)

lemma sample_up: "life E blank_log sample_disk fresh_node True"
proof -
  have "boot sample_disk False [] fresh_node = ([], fresh_node, Done None)"
    by (simp add: boot_def open_store_def sweep_def reset_registry_if_file_missing_def seq_def modify_def
        reads_def try_durably_def ret_def recover_interrupted_restore_with_def fresh_node_def fun_eq_iff)
  then show ?thesis by (rule life.start [OF life.fresh])
qed

theorem serving_node_is_consistent_witness:
  "good sample_ext blank_log (applied fresh_node) (kv (fresh_node :: nat node)) \<and> marker (fresh_node :: nat node) = None"
  using serving_node_is_consistent [OF sample_up sample_disk_ok] by (simp add: fresh_node_def)

text \<open>An install that dies after the marker is on the disk.\<close>

abbreviation "sample_cut \<equiv> fst (snd (install_snapshot sample_disk True sample_meta [0] ''a.snap''
  [Fine, Fine, Fine, Crashes] fresh_node))"

lemma sample_cut_eq: "install_snapshot sample_disk True sample_meta [0] ''a.snap'' [Fine, Fine, Fine, Crashes] fresh_node =
  ([], sample_cut, Crashed)" "marker sample_cut = Some (Some (sample_meta, ''a.snap''))"
  "files sample_cut ''a.snap'' = Some [0]"
  by (simp_all add: install_snapshot_def put_file_def restore_and_persist_def restore_state_def seq_def catch_def lift_res_def
      sample_disk_def durably_def ret_def reads_def fresh_node_def part_of_def ms_get_prefix_keys_def ms_get_prefix_all)

theorem start_recovers_witness:
  "\<exists>r n'. boot sample_disk False [] sample_cut = ([], n', Done r) \<and> \<not> poisoned n' \<and>
     good sample_ext blank_log (applied n') (kv n')"
proof -
  have "life sample_ext blank_log sample_disk sample_cut (up_after (Crashed :: (fault_reason, unit) ending))"
    by (rule life.install [OF sample_up _ _ sample_legit _ sample_cut_eq(1)])
      (simp_all add: fresh_node_def stale_marker_def sample_meta_def ends_with_def starts_with_def)
  then have "life sample_ext blank_log sample_disk sample_cut False" by (simp add: up_after_def)
  moreover have "\<exists>bs. open_batches sample_disk data = Inr (map Inr bs)"
    if "marker sample_cut = Some (Some (m, p))" "files sample_cut p = Some data" for m p data
  proof -
    have "p = ''a.snap''" "data = [0]" using that sample_cut_eq(2,3) by auto
    then show ?thesis by (auto simp: sample_disk_def)
  qed
  ultimately show ?thesis using start_recovers [OF _ sample_disk_ok] by blast
qed

end
