(* ===== verification/Raft_Log.thy ===== *)
theory Raft_Log
  imports Crc
begin

text \<open>
  The Raft log store of dsh-raft (\<open>store.rs\<close>, \<open>LogStore\<close> and \<open>LogReader\<close>): a table from
  8-byte big-endian indices to encoded entries, and the purge position in the raft-meta table. A table is
  an ordered map, and each function that writes is one transaction: an error leaves it as it was. The JSON
  encoding of entries and positions (serde_json) is the parameter \<open>codec\<close> of the definitions.
\<close>

section \<open>Keys\<close>

type_synonym index = "64 word"

definition log_key :: "index \<Rightarrow> bytes" where
  "log_key i = be_bytes 8 i"

definition log_index_from_key :: "bytes \<Rightarrow> index" where
  "log_index_from_key k = of_be_bytes (take 8 k)"

lemma log_key_length [simp]: "length (log_key i) = 8"
  by (simp add: log_key_def)

lemma log_index_log_key [simp]: "log_index_from_key (log_key i) = i"
  by (simp add: log_index_from_key_def log_key_def)

text \<open>The order of the keys is the order of the indices.\<close>

lemma snoc_less:
  "length xs = length ys \<Longrightarrow> xs @ [a] < ys @ [b] \<longleftrightarrow> xs < ys \<or> xs = ys \<and> a < (b :: 'a::linorder)"
  by (induction xs ys rule: list_induct2) auto

lemma unat_drop_byte: "unat (drop_bit 8 (w :: index)) = unat w div 256"
  by (simp add: drop_bit_eq_div unat_div)

lemma unat_low_byte: "unat (ucast (w :: index) :: byte) = unat w mod 256"
  by (simp add: unsigned_ucast_eq take_bit_eq_mod)

lemma digits_less: "m div 256 < n div 256 \<or> m div 256 = n div 256 \<and> m mod 256 < n mod 256 \<longleftrightarrow> m < (n :: nat)"
proof -
  have "m = 256 * (m div 256) + m mod 256" "n = 256 * (n div 256) + n mod 256" "m mod 256 < 256" "n mod 256 < 256"
    by simp_all
  then show ?thesis by linarith
qed

lemma be_bytes_less:
  "unat (x :: index) < 256 ^ n \<Longrightarrow> unat y < 256 ^ n \<Longrightarrow> be_bytes n x < be_bytes n y \<longleftrightarrow> x < y"
proof (induction n arbitrary: x y)
  case 0
  then show ?case by (simp add: le_bytes_def word_less_nat_alt)
next
  case (Suc n)
  have small: "unat (drop_bit 8 x) < 256 ^ n" "unat (drop_bit 8 y) < 256 ^ n"
    using Suc.prems by (simp_all only: unat_drop_byte div_less_iff_less_mult power_Suc zero_less_numeral mult.commute)
  have eq: "be_bytes n (drop_bit 8 x) = be_bytes n (drop_bit 8 y) \<longleftrightarrow> drop_bit 8 x = drop_bit 8 y"
    using Suc.IH [OF small] Suc.IH [OF small(2,1)] by (metis less_irrefl linorder_neqE)
  have "be_bytes (Suc n) x < be_bytes (Suc n) y \<longleftrightarrow> drop_bit 8 x < drop_bit 8 y \<or>
      drop_bit 8 x = drop_bit 8 y \<and> (ucast x :: byte) < ucast y"
    unfolding le_bytes_Suc rev.simps by (subst snoc_less) (simp_all only: length_rev le_bytes_length Suc.IH [OF small] eq)
  also have "\<dots> \<longleftrightarrow> unat x div 256 < unat y div 256 \<or> unat x div 256 = unat y div 256 \<and> unat x mod 256 < unat y mod 256"
    by (simp only: word_less_nat_alt unat_drop_byte unat_low_byte word_unat_eq_iff)
  also have "\<dots> \<longleftrightarrow> unat x < unat y" by (rule digits_less)
  finally show ?case by (simp only: word_less_nat_alt)
qed

lemma log_key_less [simp]: "log_key i < log_key j \<longleftrightarrow> i < j"
proof -
  have "unat k < 256 ^ 8" for k :: index using unsigned_less [of k] by simp
  from this [of i] this [of j] show ?thesis unfolding log_key_def by (rule be_bytes_less)
qed

lemma log_key_le [simp]: "log_key i \<le> log_key j \<longleftrightarrow> i \<le> j"
  by (metis log_key_less not_less)

lemma log_key_eq [simp]: "log_key i = log_key j \<longleftrightarrow> i = j"
  by (metis log_index_log_key)

section \<open>Reading\<close>

datatype log_error = Hole index index | Decode | Encode

record ('e, 'id) log_codec =
  ser_entry :: "'e \<Rightarrow> bytes option"
  de_entry :: "bytes \<Rightarrow> 'e option"
  entry_id :: "'e \<Rightarrow> 'id"
  id_index :: "'id \<Rightarrow> index"

text \<open>
  The purge position as it is stored: a whole log id, or only the index in the format of earlier
  versions, or bytes that are neither.
\<close>

datatype 'id stored_purged = Full 'id | Index_Only index | Bad

record 'id log_table =
  rows :: "(bytes, bytes) bmap"
  purged :: "'id stored_purged option"
  vote :: "bytes option"

definition first_expected :: "('e, 'id) log_codec \<Rightarrow> 'id log_table \<Rightarrow> index \<Rightarrow> log_error + index" where
  "first_expected c t from_index = (case purged t of
     None \<Rightarrow> Inr (max from_index from_index)
   | Some (Full i) \<Rightarrow> Inr (max (id_index c i + 1) from_index)
   | Some (Index_Only i) \<Rightarrow> Inr (max (i + 1) from_index)
   | Some Bad \<Rightarrow> Inl Decode)"

definition rows_from :: "'id log_table \<Rightarrow> index \<Rightarrow> (bytes \<times> bytes) list" where
  "rows_from t i = filter (\<lambda>(k, v). log_key i \<le> k) (bm_entries (rows t))"

fun scan_entries :: "('e, 'id) log_codec \<Rightarrow> index \<Rightarrow> index \<Rightarrow> (bytes \<times> bytes) list \<Rightarrow> log_error + 'e list" where
  "scan_entries c hi expected [] = Inr []"
| "scan_entries c hi expected ((k, v) # xs) = (let idx = log_index_from_key k in
     if idx > hi then Inr []
     else if idx \<noteq> expected then Inl (Hole expected idx)
     else bindE (ok_or Decode (de_entry c v)) (\<lambda>e.
       bindE (scan_entries c hi (idx + 1) xs) (\<lambda>es. Inr (e # es))))"

definition read_entries :: "('e, 'id) log_codec \<Rightarrow> 'id log_table \<Rightarrow> index \<Rightarrow> index \<Rightarrow> log_error + 'e list" where
  "read_entries c t from_index hi =
     bindE (first_expected c t from_index) (\<lambda>expected. scan_entries c hi expected (rows_from t from_index))"

text \<open>With a cap on the stored bytes: \<open>first\<close> is that nothing has been taken yet.\<close>

fun scan_limited ::
  "('e, 'id) log_codec \<Rightarrow> index \<Rightarrow> nat \<Rightarrow> index \<Rightarrow> bool \<Rightarrow> nat \<Rightarrow> (bytes \<times> bytes) list \<Rightarrow> log_error + 'e list" where
  "scan_limited c hi cap expected first acc [] = Inr []"
| "scan_limited c hi cap expected first acc ((k, v) # xs) = (let idx = log_index_from_key k in
     if idx > hi then Inr []
     else if idx \<noteq> expected then Inl (Hole expected idx)
     else if \<not> first \<and> acc + length v > cap then Inr []
     else bindE (ok_or Decode (de_entry c v)) (\<lambda>e.
       bindE (scan_limited c hi cap (idx + 1) False (acc + length v) xs) (\<lambda>es. Inr (e # es))))"

definition read_entries_limited ::
  "('e, 'id) log_codec \<Rightarrow> 'id log_table \<Rightarrow> index \<Rightarrow> index \<Rightarrow> nat \<Rightarrow> log_error + 'e list" where
  "read_entries_limited c t from_index hi cap =
     bindE (first_expected c t from_index) (\<lambda>expected. scan_limited c hi cap expected True 0 (rows_from t from_index))"

definition MAX_BATCH_BYTES :: nat where "MAX_BATCH_BYTES = 6 * 2 ^ 20"

definition limited_get_log_entries ::
  "('e, 'id) log_codec \<Rightarrow> 'id log_table \<Rightarrow> index \<Rightarrow> index \<Rightarrow> log_error + 'e list" where
  "limited_get_log_entries c t from_index to_index =
     (if from_index \<ge> to_index then Inr []
      else read_entries_limited c t from_index (to_index - 1) MAX_BATCH_BYTES)"

text \<open>The bounds of a range; the arithmetic wraps as in a release build.\<close>

datatype bound = Included index | Excluded index | Unbounded

definition try_get_log_entries ::
  "('e, 'id) log_codec \<Rightarrow> 'id log_table \<Rightarrow> bound \<Rightarrow> bound \<Rightarrow> log_error + 'e list" where
  "try_get_log_entries c t lo hi = read_entries c t
     (case lo of Included i \<Rightarrow> i | Excluded i \<Rightarrow> i + 1 | Unbounded \<Rightarrow> 0)
     (case hi of Included i \<Rightarrow> i | Excluded i \<Rightarrow> i - 1 | Unbounded \<Rightarrow> - 1)"

definition last_log_entry :: "('e, 'id) log_codec \<Rightarrow> 'id log_table \<Rightarrow> log_error + 'e option" where
  "last_log_entry c t = (case bm_entries (rows t) of
     [] \<Rightarrow> Inr None
   | xs \<Rightarrow> bindE (ok_or Decode (de_entry c (snd (last xs)))) (\<lambda>e. Inr (Some e)))"

section \<open>Writing\<close>

definition log_append :: "('e, 'id) log_codec \<Rightarrow> 'e list \<Rightarrow> 'id log_table \<Rightarrow> log_error + 'id log_table" where
  "log_append c es t = bindE
     (foldE (\<lambda>e m. bindE (ok_or Encode (ser_entry c e)) (\<lambda>raw.
        Inr (bm_insert (log_key (id_index c (entry_id c e))) raw m))) es (rows t))
     (\<lambda>m. Inr (t\<lparr>rows := m\<rparr>))"

definition collect_log_indexes :: "(bytes \<Rightarrow> bool) \<Rightarrow> 'id log_table \<Rightarrow> index list" where
  "collect_log_indexes in_range t = map (\<lambda>(k, v). log_index_from_key k) (filter (\<lambda>(k, v). in_range k) (bm_entries (rows t)))"

definition remove_log_indexes :: "index list \<Rightarrow> 'id log_table \<Rightarrow> 'id log_table" where
  "remove_log_indexes is t = t\<lparr>rows := fold (\<lambda>i m. bm_remove (log_key i) m) is (rows t)\<rparr>"

definition truncate_after :: "('e, 'id) log_codec \<Rightarrow> 'id option \<Rightarrow> 'id log_table \<Rightarrow> 'id log_table" where
  "truncate_after c last_id t =
     (let from_index = (case last_id of None \<Rightarrow> 0 | Some i \<Rightarrow> id_index c i + 1)
      in remove_log_indexes (collect_log_indexes (\<lambda>k. log_key from_index \<le> k) t) t)"

definition log_purge :: "('e, 'id) log_codec \<Rightarrow> 'id \<Rightarrow> 'id log_table \<Rightarrow> 'id log_table" where
  "log_purge c i t =
     (remove_log_indexes (collect_log_indexes (\<lambda>k. k \<le> log_key (id_index c i)) t) t)\<lparr>purged := Some (Full i)\<rparr>"

definition save_vote :: "('v \<Rightarrow> bytes option) \<Rightarrow> 'v \<Rightarrow> 'id log_table \<Rightarrow> log_error + 'id log_table" where
  "save_vote ser v t = bindE (ok_or Encode (ser v)) (\<lambda>raw. Inr (t\<lparr>vote := Some raw\<rparr>))"

definition read_vote :: "(bytes \<Rightarrow> 'v option) \<Rightarrow> 'id log_table \<Rightarrow> log_error + 'v option" where
  "read_vote de t = (case vote t of
     None \<Rightarrow> Inr None
   | Some raw \<Rightarrow> bindE (ok_or Decode (de raw)) (\<lambda>v. Inr (Some v)))"

text \<open>
  \<open>get_log_state\<close>: the last id and the purge position. \<open>applied_id\<close> is what the reading of the applied
  position answers, and \<open>make_id\<close> builds the id of a purge position that was stored as an index only.
\<close>

definition get_log_state ::
  "('e, 'id) log_codec \<Rightarrow> (index \<Rightarrow> 'id) \<Rightarrow> (log_error + 'id option) \<Rightarrow> 'id log_table \<Rightarrow>
     log_error + ('id option \<times> 'id option)" where
  "get_log_state c make_id applied_id t = bindE applied_id (\<lambda>last_applied.
     bindE (case purged t of
         None \<Rightarrow> Inr None
       | Some (Full i) \<Rightarrow> Inr (Some i)
       | Some (Index_Only idx) \<Rightarrow> Inr (Some (case last_applied of
             Some a \<Rightarrow> if id_index c a = idx then a else make_id idx
           | None \<Rightarrow> make_id idx))
       | Some Bad \<Rightarrow> Inl Decode) (\<lambda>last_purged.
     bindE (last_log_entry c t) (\<lambda>last.
       Inr (case map_option (entry_id c) last of None \<Rightarrow> last_purged | Some i \<Rightarrow> Some i, last_purged))))"

section \<open>The log as a list\<close>

text \<open>What serde_json promises: an encoded entry is decoded to itself.\<close>

definition codec_law :: "('e, 'id) log_codec \<Rightarrow> bool" where
  "codec_law c \<longleftrightarrow> (\<forall>e raw. ser_entry c e = Some raw \<longrightarrow> de_entry c raw = Some e)"

abbreviation idx :: "('e, 'id) log_codec \<Rightarrow> 'e \<Rightarrow> index" where
  "idx c e \<equiv> id_index c (entry_id c e)"

text \<open>Entries with consecutive indices from \<open>i\<close> on, below the last index there is.\<close>

fun consecutive :: "('e, 'id) log_codec \<Rightarrow> index \<Rightarrow> 'e list \<Rightarrow> bool" where
  "consecutive c i [] = True"
| "consecutive c i (e # es) = (idx c e = i \<and> i \<noteq> - 1 \<and> consecutive c (i + 1) es)"

definition row_of :: "('e, 'id) log_codec \<Rightarrow> 'e \<Rightarrow> bytes \<times> bytes \<Rightarrow> bool" where
  "row_of c e r \<longleftrightarrow> fst r = log_key (idx c e) \<and> ser_entry c e = Some (snd r)"

text \<open>
  The abstract log: the id of the last purged entry and the entries after it. The table stores it if its
  rows are those of the entries and its position is that id.
\<close>

type_synonym ('e, 'id) alog = "'id option \<times> 'e list"

definition next_free :: "('e, 'id) log_codec \<Rightarrow> 'id option \<Rightarrow> index" where
  "next_free c p = (case p of None \<Rightarrow> 0 | Some i \<Rightarrow> id_index c i + 1)"

definition stores :: "('e, 'id) log_codec \<Rightarrow> ('e, 'id) alog \<Rightarrow> 'id log_table \<Rightarrow> bool" where
  "stores c a t \<longleftrightarrow> purged t = map_option Full (fst a) \<and> consecutive c (next_free c (fst a)) (snd a) \<and>
     list_all2 (row_of c) (snd a) (bm_entries (rows t))"

lemma less_plus_1: "(i :: index) < i + 1 \<longleftrightarrow> i \<noteq> - 1"
proof (cases "i = - 1")
  case False
  then have "1 + i \<noteq> 0" by (metis add_eq_0_iff)
  then have "unat (i + 1) = Suc (unat i)" using unatSuc [of i] by (metis add.commute)
  with False show ?thesis by (simp add: word_less_nat_alt)
qed simp

lemma plus_1_le: "(i :: index) \<noteq> - 1 \<Longrightarrow> i + 1 \<le> j \<longleftrightarrow> i < j"
  using inc_le [of i j] less_plus_1 [of i] by (auto intro: less_le_trans)

lemma consecutive_above: "consecutive c i es \<Longrightarrow> e \<in> set es \<Longrightarrow> i \<le> idx c e"
proof (induction es arbitrary: i)
  case (Cons a es)
  then show ?case using less_plus_1 [of i] by (auto dest!: Cons.IH)
qed simp

lemma consecutive_append:
  "consecutive c i (es @ fs) \<longleftrightarrow> consecutive c i es \<and> consecutive c (i + of_nat (length es)) fs"
  by (induction es arbitrary: i) (auto simp: algebra_simps)

text \<open>The scan of the readers on rows that store consecutive entries: those up to the last index.\<close>

lemma scan_stored:
  assumes "codec_law c"
  shows "list_all2 (row_of c) es xs \<Longrightarrow> consecutive c i es \<Longrightarrow>
    scan_entries c hi i xs = Inr (filter (\<lambda>e. idx c e \<le> hi) es)"
proof (induction es xs arbitrary: i rule: list_all2_induct)
  case (Cons e es r xs)
  obtain k v where r: "r = (k, v)" by (cases r)
  from Cons.hyps(1) r have kv: "log_index_from_key k = i" "de_entry c v = Some e"
    using assms Cons.prems by (auto simp: row_of_def codec_law_def)
  have rest: "filter (\<lambda>e. idx c e \<le> hi) es = []" if "hi < i"
    using consecutive_above [of c "i + 1" es] less_plus_1 [of i] Cons.prems that by (force simp: filter_empty_conv)
  show ?case using Cons.IH [of "i + 1"] Cons.prems kv rest by (auto simp: r Let_def not_le)
qed simp

lemma list_all2_filter:
  "list_all2 R es xs \<Longrightarrow> (\<And>e x. R e x \<Longrightarrow> P e = Q x) \<Longrightarrow> list_all2 R (filter P es) (filter Q xs)"
  by (induction es xs rule: list_all2_induct) auto

lemma consecutive_from: "consecutive c i es \<Longrightarrow> consecutive c (max i lo) (filter (\<lambda>e. lo \<le> idx c e) es)"
proof (induction es arbitrary: i)
  case (Cons e es)
  show ?case
  proof (cases "lo \<le> i")
    case True
    then have "filter (\<lambda>e. lo \<le> idx c e) (e # es) = e # es"
      using consecutive_above [OF Cons.prems] by (auto intro: order_trans simp: filter_id_conv)
    with True Cons.prems show ?thesis by (simp only: max.absorb1)
  next
    case False
    then have "max (i + 1) lo = max i lo" using inc_le [of i lo] by (simp add: max.absorb2 not_le less_imp_le)
    moreover have "consecutive c (max (i + 1) lo) (filter (\<lambda>e. lo \<le> idx c e) es)"
      using Cons.prems by (intro Cons.IH) simp
    moreover have "filter (\<lambda>e. lo \<le> idx c e) (e # es) = filter (\<lambda>e. lo \<le> idx c e) es"
      using False Cons.prems by simp
    ultimately show ?thesis by (simp only:)
  qed
qed simp

lemma consecutive_upto: "consecutive c i es \<Longrightarrow> consecutive c i (filter (\<lambda>e. idx c e < f) es)"
proof (induction es arbitrary: i)
  case (Cons e es)
  have "filter (\<lambda>e. idx c e < f) es = []" if "\<not> i < f"
    using consecutive_above [of c "i + 1" es] less_plus_1 [of i] Cons.prems that
    by (force simp: filter_empty_conv)
  then show ?case using Cons by auto
qed simp

lemma first_expected_stored:
  assumes "stores c a t"
  shows "first_expected c t lo = Inr (max (next_free c (fst a)) lo)"
  using assms by (cases "fst a") (auto simp: stores_def first_expected_def next_free_def)

lemma read_stored:
  assumes "codec_law c" "stores c a t"
  shows "read_entries c t lo hi = Inr (filter (\<lambda>e. lo \<le> idx c e \<and> idx c e \<le> hi) (snd a))"
proof -
  have "list_all2 (row_of c) (filter (\<lambda>e. lo \<le> idx c e) (snd a)) (rows_from t lo)"
    unfolding rows_from_def
    by (rule list_all2_filter) (use assms(2) in \<open>auto simp: stores_def row_of_def\<close>)
  moreover have "consecutive c (max (next_free c (fst a)) lo) (filter (\<lambda>e. lo \<le> idx c e) (snd a))"
    using assms(2) by (simp add: stores_def consecutive_from)
  ultimately show ?thesis
    by (simp add: read_entries_def first_expected_stored [OF assms(2)] scan_stored [OF assms(1)] conj_commute)
qed

section \<open>The writers on the list\<close>

lemma al_insert_end: "\<forall>q \<in> set xs. fst q < k \<Longrightarrow> al_insert k v xs = xs @ [(k, v)]"
  by (induction k v xs rule: al_insert.induct) auto

lemma bm_entries_insert_end: "\<forall>q \<in> set (bm_entries m). fst q < k \<Longrightarrow> bm_entries (bm_insert k v m) = bm_entries m @ [(k, v)]"
  by transfer (rule al_insert_end)

lemma row_keys: "list_all2 (row_of c) es xs \<Longrightarrow> q \<in> set xs \<Longrightarrow> \<exists>e \<in> set es. fst q = log_key (idx c e)"
  by (induction es xs rule: list_all2_induct) (auto simp: row_of_def)

lemma consecutive_below: "consecutive c i (es @ e # fs) \<Longrightarrow> a \<in> set es \<Longrightarrow> idx c a < idx c e"
proof (induction es arbitrary: i)
  case (Cons b es)
  have "i < idx c e"
    using consecutive_above [of c "i + 1" "es @ e # fs" e] less_plus_1 [of i] Cons.prems(1) by force
  with Cons show ?case by auto
qed simp

lemma append_stored:
  assumes "list_all2 (row_of c) es (bm_entries m)" "consecutive c i (es @ new)" "\<forall>e \<in> set new. ser_entry c e \<noteq> None"
  shows "\<exists>m'. foldE (\<lambda>e m. bindE (ok_or Encode (ser_entry c e)) (\<lambda>raw.
      Inr (bm_insert (log_key (id_index c (entry_id c e))) raw m))) new m = Inr m' \<and>
    list_all2 (row_of c) (es @ new) (bm_entries m')"
  using assms
proof (induction new arbitrary: es m)
  case (Cons e new)
  obtain raw where raw: "ser_entry c e = Some raw" using Cons.prems(3) by auto
  have "\<forall>q \<in> set (bm_entries m). fst q < log_key (idx c e)"
    using row_keys [OF Cons.prems(1)] consecutive_below [OF Cons.prems(2)] by fastforce
  then have "bm_entries (bm_insert (log_key (idx c e)) raw m) = bm_entries m @ [(log_key (idx c e), raw)]"
    by (rule bm_entries_insert_end)
  moreover have "row_of c e (log_key (idx c e), raw)" using raw by (simp add: row_of_def)
  ultimately have "list_all2 (row_of c) (es @ [e]) (bm_entries (bm_insert (log_key (idx c e)) raw m))"
    using Cons.prems(1) by (simp add: list_all2_appendI)
  from Cons.IH [OF this] Cons.prems(2,3) show ?case by (simp add: raw)
qed simp

lemma removed_rows:
  assumes "list_all2 (row_of c) es (bm_entries (rows t))"
  shows "rows (remove_log_indexes (collect_log_indexes P t) t) = bm_retain (\<lambda>k v. \<not> P k) (rows t)"
proof -
  have *: "bm_get (fold (\<lambda>i m. bm_remove (log_key i) m) is m) k = (if k \<in> log_key ` set is then None else bm_get m k)" for "is" m k
    by (induction "is" arbitrary: m) auto
  have "log_key ` set (collect_log_indexes P t) = {k \<in> fst ` set (bm_entries (rows t)). P k}"
    using row_keys [OF assms] by (force simp: collect_log_indexes_def image_image)
  then show ?thesis
    by (intro bmap_eqI) (auto simp: remove_log_indexes_def * bm_keys_get split: option.splits)
qed

lemma removed_stored:
  assumes "list_all2 (row_of c) es (bm_entries (rows t))"
  shows "list_all2 (row_of c) (filter (\<lambda>e. \<not> P (log_key (idx c e))) es)
    (bm_entries (rows (remove_log_indexes (collect_log_indexes P t) t)))"
  unfolding removed_rows [OF assms] bm_entries_retain
  by (rule list_all2_filter [OF assms]) (auto simp: row_of_def)

lemma last_stored:
  assumes "codec_law c" "list_all2 (row_of c) es (bm_entries (rows t))"
  shows "last_log_entry c t = Inr (if es = [] then None else Some (last es))"
proof (cases es rule: rev_cases)
  case (snoc fs e)
  then obtain xs r where "bm_entries (rows t) = xs @ [r]" "row_of c e r"
    using assms(2) by (auto simp: list_all2_append1 list_all2_Cons1)
  then have "last (bm_entries (rows t)) = r" "bm_entries (rows t) \<noteq> []" "de_entry c (snd r) = Some e"
    using assms(1) by (simp_all add: row_of_def codec_law_def)
  with snoc show ?thesis
    by (cases "bm_entries (rows t)") (simp_all add: last_log_entry_def del: last.simps)
qed (use assms in \<open>simp add: last_log_entry_def\<close>)

text \<open>The calls that write, on the table and on the abstract log, and when the Raft core makes them.\<close>

datatype ('e, 'id) log_op = Append "'e list" | Truncate "'id option" | Purge 'id

fun run_op :: "('e, 'id) log_codec \<Rightarrow> ('e, 'id) log_op \<Rightarrow> 'id log_table \<Rightarrow> log_error + 'id log_table" where
  "run_op c (Append es) t = log_append c es t"
| "run_op c (Truncate i) t = Inr (truncate_after c i t)"
| "run_op c (Purge i) t = Inr (log_purge c i t)"

fun spec_op :: "('e, 'id) log_codec \<Rightarrow> ('e, 'id) log_op \<Rightarrow> ('e, 'id) alog \<Rightarrow> ('e, 'id) alog" where
  "spec_op c (Append new) (p, es) = (p, es @ new)"
| "spec_op c (Truncate i) (p, es) = (p, filter (\<lambda>e. idx c e < next_free c i) es)"
| "spec_op c (Purge i) (p, es) = (Some i, filter (\<lambda>e. id_index c i < idx c e) es)"

fun legal :: "('e, 'id) log_codec \<Rightarrow> ('e, 'id) log_op \<Rightarrow> ('e, 'id) alog \<Rightarrow> bool" where
  "legal c (Append new) (p, es) \<longleftrightarrow>
     consecutive c (next_free c p + of_nat (length es)) new \<and> (\<forall>e \<in> set new. ser_entry c e \<noteq> None)"
| "legal c (Truncate i) (p, es) \<longleftrightarrow> True"
| "legal c (Purge i) (p, es) \<longleftrightarrow> next_free c p \<le> id_index c i + 1 \<and> id_index c i \<noteq> - 1"

fun legal_run :: "('e, 'id) log_codec \<Rightarrow> ('e, 'id) log_op list \<Rightarrow> ('e, 'id) alog \<Rightarrow> bool" where
  "legal_run c [] a \<longleftrightarrow> True"
| "legal_run c (op # ops) a \<longleftrightarrow> legal c op a \<and> legal_run c ops (spec_op c op a)"

lemma op_stored:
  assumes "stores c a t" "legal c op a"
  shows "\<exists>t'. run_op c op t = Inr t' \<and> stores c (spec_op c op a) t'"
proof (cases a)
  case a: (Pair p es)
  note st = assms(1) [unfolded stores_def a fst_conv snd_conv]
  show ?thesis
  proof (cases op)
    case (Append new)
    then obtain m where "foldE (\<lambda>e m. bindE (ok_or Encode (ser_entry c e)) (\<lambda>raw.
        Inr (bm_insert (log_key (id_index c (entry_id c e))) raw m))) new (rows t) = Inr m"
      "list_all2 (row_of c) (es @ new) (bm_entries m)"
      using append_stored [of c es "rows t" "next_free c p" new] st assms(2) by (auto simp: a consecutive_append)
    with Append st assms(2) show ?thesis
      by (auto simp: a stores_def log_append_def consecutive_append)
  next
    case (Truncate i)
    have "list_all2 (row_of c) (filter (\<lambda>e. idx c e < next_free c i) es) (bm_entries (rows (truncate_after c i t)))"
      using removed_stored [of c es t "\<lambda>k. log_key (next_free c i) \<le> k"] st
      by (simp add: truncate_after_def next_free_def not_le)
    with Truncate st show ?thesis
      by (auto simp: a stores_def consecutive_upto truncate_after_def remove_log_indexes_def Let_def)
  next
    case (Purge i)
    have "list_all2 (row_of c) (filter (\<lambda>e. id_index c i < idx c e) es) (bm_entries (rows (log_purge c i t)))"
      using removed_stored [of c es t "\<lambda>k. k \<le> log_key (id_index c i)"] st by (simp add: log_purge_def not_le)
    moreover have "consecutive c (id_index c i + 1) (filter (\<lambda>e. id_index c i < idx c e) es)"
      using consecutive_from [of c "next_free c p" es "id_index c i + 1"] st Purge assms(2)
      by (simp add: a max.absorb2 plus_1_le)
    ultimately show ?thesis using Purge by (simp add: a stores_def log_purge_def next_free_def)
  qed
qed

lemma run_stored:
  "stores c a t \<Longrightarrow> legal_run c ops a \<Longrightarrow>
     \<exists>t'. foldE (run_op c) ops t = Inr t' \<and> stores c (fold (spec_op c) ops a) t'"
proof (induction ops arbitrary: a t)
  case (Cons op ops)
  then obtain t' where "run_op c op t = Inr t'" "stores c (spec_op c op a) t'"
    using op_stored [of c a t op] by auto
  with Cons show ?case by auto
qed auto

definition new_log :: "'id log_table" where
  "new_log = \<lparr>rows = bm_empty, purged = None, vote = None\<rparr>"

lemma new_log_stores: "stores c (None, []) new_log"
  by (simp add: stores_def new_log_def)

text \<open>
  C22: The log store implements a list of entries after a purge position: after any sequence of appends,
  truncations and purges that the Raft core may make from an empty store, none of which fails, reading a
  range answers exactly the entries of the list in the range, in order, and the log state is the id of the
  last entry, or the purge position when the log is empty.
\<close>

theorem log_refines_list:
  assumes "codec_law c" "legal_run c ops (None, [])" "fold (spec_op c) ops (None, []) = (p, es)"
  shows "\<exists>t. foldE (run_op c) ops new_log = Inr t \<and>
    (\<forall>i j. try_get_log_entries c t (Included i) (Included j) = Inr (filter (\<lambda>e. i \<le> idx c e \<and> idx c e \<le> j) es)) \<and>
    (\<forall>i j. j \<noteq> 0 \<longrightarrow>
      try_get_log_entries c t (Included i) (Excluded j) = Inr (filter (\<lambda>e. i \<le> idx c e \<and> idx c e < j) es)) \<and>
    (\<forall>mk a. get_log_state c mk (Inr a) t = Inr (if es = [] then p else Some (entry_id c (last es)), p))"
proof -
  obtain t where t: "foldE (run_op c) ops new_log = Inr t" "stores c (p, es) t"
    using run_stored [OF new_log_stores assms(2)] assms(3) by auto
  have pred: "k \<le> j - 1 \<longleftrightarrow> k < j" if "j \<noteq> 0" for j k :: index
  proof -
    have "j - 1 \<noteq> - 1" using that by (simp add: diff_eq_eq)
    then have "j - 1 + 1 \<le> k \<longleftrightarrow> j - 1 < k" by (rule plus_1_le)
    then have "j \<le> k \<longleftrightarrow> j - 1 < k" by (simp only: diff_add_cancel)
    then show ?thesis by (simp add: not_le [symmetric])
  qed
  have "last_log_entry c t = Inr (if es = [] then None else Some (last es))"
    using t(2) by (intro last_stored assms(1)) (simp add: stores_def)
  then have "get_log_state c mk (Inr a) t = Inr (if es = [] then p else Some (entry_id c (last es)), p)" for mk a
    using t(2) by (cases p) (auto simp: get_log_state_def stores_def)
  with t read_stored [OF assms(1) t(2)] show ?thesis
    by (auto simp: try_get_log_entries_def pred)
qed

text \<open>Entries of an index and a few bytes, written as the eight bytes of the index and the rest.\<close>

definition sample_log_codec :: "(index \<times> bytes, index) log_codec" where
  "sample_log_codec = \<lparr>ser_entry = \<lambda>(i, b). Some (be_bytes 8 i @ b),
     de_entry = \<lambda>r. Some (of_be_bytes (take 8 r), drop 8 r), entry_id = fst, id_index = id\<rparr>"

lemma sample_log_codec_law: "codec_law sample_log_codec"
  by (auto simp: codec_law_def sample_log_codec_def)

theorem log_refines_list_witness:
  "\<exists>t. foldE (run_op sample_log_codec)
      [Append [(0, [1]), (1, [2]), (2, [3])], Truncate (Some 1), Append [(2, [4]), (3, [5])], Purge 1] new_log = Inr t \<and>
    try_get_log_entries sample_log_codec t (Included 0) (Excluded 3) = Inr [(2, [4])] \<and>
    get_log_state sample_log_codec id (Inr None) t = Inr (Some 3, Some 1)"
proof -
  let ?ops = "[Append [(0, [1]), (1, [2]), (2, [3])], Truncate (Some 1), Append [(2, [4]), (3, [5])], Purge 1]
    :: (index \<times> bytes, index) log_op list"
  have "legal_run sample_log_codec ?ops (None, [])"
    "fold (spec_op sample_log_codec) ?ops (None, []) = (Some 1, [(2, [4]), (3, [5])])"
    by (simp_all add: sample_log_codec_def next_free_def)
  from log_refines_list [OF sample_log_codec_law this] obtain t where
    "foldE (run_op sample_log_codec) ?ops new_log = Inr t"
    "try_get_log_entries sample_log_codec t (Included 0) (Excluded 3) =
       Inr (filter (\<lambda>e. 0 \<le> idx sample_log_codec e \<and> idx sample_log_codec e < 3) [(2, [4]), (3, [5])])"
    "get_log_state sample_log_codec id (Inr None) t = Inr (Some 3, Some 1)"
    by (auto simp: sample_log_codec_def)
  then show ?thesis by (auto simp: sample_log_codec_def)
qed

section \<open>Any table\<close>

text \<open>Every key of the table is the key of an index: the writers insert no other.\<close>

definition well_keyed :: "'id log_table \<Rightarrow> bool" where
  "well_keyed t \<longleftrightarrow> (\<forall>k. bm_get (rows t) k \<noteq> None \<longrightarrow> (\<exists>i. k = log_key i))"

text \<open>
  A scan that succeeds has taken the rows up to the last index, whose indices are consecutive.
\<close>

lemma scan_takes:
  assumes "scan_entries c hi x xs = Inr es" "ksorted xs" "\<forall>q \<in> set xs. \<exists>i. fst q = log_key i"
  shows "\<exists>ys zs. xs = ys @ zs \<and> list_all2 (\<lambda>e q. de_entry c (snd q) = Some e) es ys \<and>
    map fst ys = map (\<lambda>n. log_key (x + of_nat n)) [0..<length es] \<and>
    (\<forall>q \<in> set ys. log_index_from_key (fst q) \<le> hi) \<and> (\<forall>q \<in> set zs. log_index_from_key (fst q) > hi)"
  using assms
proof (induction c hi x xs arbitrary: es rule: scan_entries.induct)
  case (2 c hi x k v xs)
  obtain i where i: "k = log_key i" using "2.prems"(3) by auto
  show ?case
  proof (cases "hi < i")
    case True
    have "hi < log_index_from_key (fst q)" if "q \<in> set ((k, v) # xs)" for q
      using that True "2.prems"(2,3) by (fastforce simp: i)
    moreover have "es = []" using "2.prems"(1) True by (simp add: i)
    ultimately show ?thesis by (intro exI [of _ "[]"] exI [of _ "(k, v) # xs"]) auto
  next
    case False
    with "2.prems"(1) obtain e es' where e: "i = x" "de_entry c v = Some e" "es = e # es'"
      "scan_entries c hi (i + 1) xs = Inr es'"
      by (auto simp: i Let_def split: if_splits)
    from "2.IH" [OF refl, of e es'] False e "2.prems"(2,3) obtain ys zs where
      "xs = ys @ zs" "list_all2 (\<lambda>e q. de_entry c (snd q) = Some e) es' ys"
      "map fst ys = map (\<lambda>n. log_key (i + 1 + of_nat n)) [0..<length es']"
      "\<forall>q \<in> set ys. log_index_from_key (fst q) \<le> hi" "\<forall>q \<in> set zs. log_index_from_key (fst q) > hi"
      by (auto simp: i)
    with e False show ?thesis
      by (intro exI [of _ "(k, v) # ys"] exI [of _ zs])
        (auto simp: i not_less map_upt_Suc algebra_simps simp del: upt_Suc)
  qed
qed (auto intro: exI [of _ "[]"])

text \<open>
  C23: A read never skips an entry, whatever the table holds: when it succeeds, the entries it answers are
  those of consecutive indices from the first one after the purge position, each decoded from the row of its
  index, and no row of the range is left out; with a gap in the rows it fails.
\<close>

theorem reads_never_skip:
  assumes "well_keyed t" "read_entries c t lo hi = Inr es"
  shows "\<exists>x. first_expected c t lo = Inr x \<and> lo \<le> x \<and>
    (\<forall>n < length es. \<exists>raw. bm_get (rows t) (log_key (x + of_nat n)) = Some raw \<and> de_entry c raw = Some (es ! n)) \<and>
    (\<forall>i. lo \<le> i \<and> i \<le> hi \<and> bm_get (rows t) (log_key i) \<noteq> None \<longrightarrow> (\<exists>n < length es. i = x + of_nat n))"
proof -
  obtain x where x: "first_expected c t lo = Inr x" "scan_entries c hi x (rows_from t lo) = Inr es"
    using assms(2) by (auto simp: read_entries_def)
  have keys: "q \<in> set (rows_from t lo) \<longleftrightarrow> bm_get (rows t) (fst q) = Some (snd q) \<and> log_key lo \<le> fst q" for q
    by (cases q) (auto simp: rows_from_def bm_entries_get)
  have sorted: "ksorted (rows_from t lo)" by (simp add: rows_from_def ksorted_filter)
  have keyed: "\<forall>q \<in> set (rows_from t lo). \<exists>i. fst q = log_key i" using assms(1) keys by (auto simp: well_keyed_def)
  obtain ys zs where split: "rows_from t lo = ys @ zs" and
    all: "list_all2 (\<lambda>e q. de_entry c (snd q) = Some e) es ys"
    and fst: "map fst ys = map (\<lambda>n. log_key (x + of_nat n)) [0..<length es]"
    and zs: "\<forall>q \<in> set zs. log_index_from_key (fst q) > hi"
    using scan_takes [OF x(2) sorted keyed] by blast
  have len: "length ys = length es" using all by (simp add: list_all2_lengthD)
  have nth: "fst (ys ! n) = log_key (x + of_nat n)" if "n < length es" for n
    using arg_cong [OF fst, of "\<lambda>ks. ks ! n"] that len by simp
  have "\<exists>raw. bm_get (rows t) (log_key (x + of_nat n)) = Some raw \<and> de_entry c raw = Some (es ! n)" if "n < length es" for n
  proof -
    have "ys ! n \<in> set (rows_from t lo)" using that len by (simp add: split)
    with list_all2_nthD [OF all that] nth [OF that] show ?thesis by (simp add: keys)
  qed
  moreover have "\<exists>n < length es. i = x + of_nat n"
    if "lo \<le> i" "i \<le> hi" "bm_get (rows t) (log_key i) = Some raw" for i raw
  proof -
    have "(log_key i, raw) \<in> set (ys @ zs)" using that by (simp add: keys flip: split)
    moreover have "(log_key i, raw) \<notin> set zs" using zs that(2) by auto
    ultimately have "log_key i \<in> set (map fst ys)" by force
    then show ?thesis unfolding fst by auto
  qed
  moreover have "lo \<le> x"
    using x(1) by (auto simp: first_expected_def split: option.splits stored_purged.splits)
  ultimately show ?thesis using x(1) by blast
qed

lemma sample_de: "de_entry sample_log_codec (log_key i @ b) = Some (i, b)"
  by (simp add: sample_log_codec_def log_key_def)

definition sample_log :: "index log_table" where
  "sample_log = \<lparr>rows = bm_of_list [(log_key 4, log_key 4 @ [7])], purged = None, vote = None\<rparr>"

lemma sample_log_keyed: "well_keyed sample_log"
  by (auto simp: well_keyed_def sample_log_def bm_get_of_list split: if_splits)

lemma sample_log_read: "read_entries sample_log_codec sample_log 4 9 = Inr [(4, [7])]"
proof -
  have "bm_entries (rows sample_log) = [(log_key 4, log_key 4 @ [7])]"
    by (simp add: sample_log_def bm_of_list_ksorted)
  then show ?thesis
    by (simp add: read_entries_def first_expected_def rows_from_def Let_def) (simp add: sample_log_def sample_de)
qed

theorem reads_never_skip_witness:
  "\<exists>x. first_expected sample_log_codec sample_log 4 = Inr x \<and> 4 \<le> x \<and>
    (\<forall>n < length [(4 :: index, [7 :: byte])].
      \<exists>raw. bm_get (rows sample_log) (log_key (x + of_nat n)) = Some raw \<and>
        de_entry sample_log_codec raw = Some ([(4, [7])] ! n)) \<and>
    (\<forall>i. 4 \<le> i \<and> i \<le> 9 \<and> bm_get (rows sample_log) (log_key i) \<noteq> None \<longrightarrow>
      (\<exists>n < length [(4 :: index, [7 :: byte])]. i = x + of_nat n))"
  by (rule reads_never_skip [OF sample_log_keyed sample_log_read])

text \<open>The stored size of the first rows of a read.\<close>

definition stored_bytes :: "'id log_table \<Rightarrow> index \<Rightarrow> nat \<Rightarrow> nat" where
  "stored_bytes t lo n = (\<Sum>(k, v) \<leftarrow> take n (rows_from t lo). length v)"

lemma scan_limited_prefix:
  assumes "scan_entries c hi x xs = Inr es" "fresh \<longrightarrow> acc = 0"
  shows "\<exists>n \<le> length es. scan_limited c hi cap x fresh acc xs = Inr (take n es) \<and>
    (fresh \<and> es \<noteq> [] \<longrightarrow> n > 0) \<and>
    (acc + (\<Sum>(k, v) \<leftarrow> take n xs. length v) \<le> cap \<or> n = 0 \<or> fresh \<and> n = 1) \<and>
    (n < length es \<longrightarrow> acc + (\<Sum>(k, v) \<leftarrow> take (Suc n) xs. length v) > cap)"
  using assms
proof (induction c hi x xs arbitrary: es fresh acc rule: scan_entries.induct)
  case (2 c hi x k v xs)
  let ?i = "log_index_from_key k"
  show ?case
  proof (cases "hi < ?i \<or> \<not> fresh \<and> acc + length v > cap")
    case True
    with 2 show ?thesis by (intro exI [of _ 0]) (auto simp: Let_def split: if_splits)
  next
    case False
    with "2.prems"(1) obtain e es' where e: "?i = x" "de_entry c v = Some e" "es = e # es'"
      "scan_entries c hi (?i + 1) xs = Inr es'"
      by (auto simp: Let_def split: if_splits)
    from "2.IH" [OF refl, of e es' False "acc + length v"] False e obtain n where
      "n \<le> length es'" "scan_limited c hi cap (?i + 1) False (acc + length v) xs = Inr (take n es')"
      "acc + length v + (\<Sum>(k, v) \<leftarrow> take n xs. length v) \<le> cap \<or> n = 0"
      "n < length es' \<longrightarrow> acc + length v + (\<Sum>(k, v) \<leftarrow> take (Suc n) xs. length v) > cap"
      by auto
    with False e "2.prems"(2) show ?thesis
      by (intro exI [of _ "Suc n"]) (auto simp: Let_def split: if_splits)
  qed
qed (auto intro: exI [of _ 0])

text \<open>
  C27: A capped read is a prefix of the uncapped one that respects the cap: it answers the first entries
  that an uncapped read would, at least one of them when there is one, with stored rows of at most 6 MiB
  together or a single entry, and stops only where one more row would exceed the cap.
\<close>

theorem limited_read_prefix:
  assumes "i < j" "read_entries c t i (j - 1) = Inr es"
  shows "\<exists>n \<le> length es. limited_get_log_entries c t i j = Inr (take n es) \<and> (es \<noteq> [] \<longrightarrow> n > 0) \<and>
    (stored_bytes t i n \<le> 6 * 1024 * 1024 \<or> n \<le> 1) \<and>
    (n < length es \<longrightarrow> stored_bytes t i (Suc n) > 6 * 1024 * 1024)"
proof -
  have cap: "MAX_BATCH_BYTES = 6 * 1024 * 1024" by (simp add: MAX_BATCH_BYTES_def)
  obtain x where x: "first_expected c t i = Inr x" "scan_entries c (j - 1) x (rows_from t i) = Inr es"
    using assms(2) by (auto simp: read_entries_def)
  from scan_limited_prefix [OF x(2), of True 0 MAX_BATCH_BYTES] obtain n where
    "n \<le> length es" "scan_limited c (j - 1) MAX_BATCH_BYTES x True 0 (rows_from t i) = Inr (take n es)"
    "es \<noteq> [] \<longrightarrow> n > 0" "stored_bytes t i n \<le> MAX_BATCH_BYTES \<or> n \<le> 1"
    "n < length es \<longrightarrow> stored_bytes t i (Suc n) > MAX_BATCH_BYTES"
    unfolding stored_bytes_def by auto
  then show ?thesis
    using assms(1) x(1) unfolding cap [symmetric]
    by (intro exI [of _ n]) (auto simp add: limited_get_log_entries_def read_entries_limited_def)
qed

theorem limited_read_prefix_witness:
  "\<exists>n \<le> length [(4 :: index, [7 :: byte])].
    limited_get_log_entries sample_log_codec sample_log 4 10 =
      Inr (take n [(4, [7])]) \<and> ([(4 :: index, [7 :: byte])] \<noteq> [] \<longrightarrow> n > 0) \<and>
    (stored_bytes sample_log 4 n \<le> 6 * 1024 * 1024 \<or> n \<le> 1) \<and>
    (n < length [(4 :: index, [7 :: byte])] \<longrightarrow>
      stored_bytes sample_log 4 (Suc n) > 6 * 1024 * 1024)"
  using limited_read_prefix [of 4 10 sample_log_codec sample_log "[(4, [7])]"] sample_log_read by simp

section \<open>A range that ends before index 0\<close>

text \<open>
  The end of an exclusive range is decremented without a check, so that in a release build a range that
  ends before index 0 is read to the end of the log instead of being empty.
\<close>

lemma empty_range_reads_all:
  assumes "codec_law c" "stores c (None, es) t"
  shows "try_get_log_entries c t (Included 0) (Excluded 0) = Inr es"
  using read_stored [OF assms, of 0 "- 1"] by (simp add: try_get_log_entries_def)

end
