(* ===== verification/Api_Auth.thy ===== *)
theory Api_Auth
  imports Account_Inv
begin

text \<open>
  Who may do what over HTTP (dsh-api \<open>lib.rs\<close>): the principal of a session token, the authorization
  matrix of the three kinds of administrators, the access tokens of the data plane, the middleware in front
  of every handler and the route table. Paths and methods are texts; the hash of tokens (SHA-256), the clock
  and the dispatch of the web framework (axum) are parameters.
\<close>

section \<open>Requests\<close>

text \<open>The \<open>Authorization\<close> header is absent or a text; the query is the part after the question mark.\<close>

record request =
  rq_method :: string
  rq_path :: string
  rq_query :: "string option"
  rq_auth :: "string option"

record server =
  sv_sm :: sm
  sv_now :: int
  sv_hash :: "string \<Rightarrow> string"
  sv_dev_token :: "string option"

section \<open>Sessions\<close>

definition bearer :: "string option \<Rightarrow> string option" where
  "bearer auth = Option.bind auth (\<lambda>v. strip_prefix ''Bearer '' v)"

definition found :: "'a option res \<Rightarrow> 'a option" where
  "found r = (case r of Inr v \<Rightarrow> v | Inl e \<Rightarrow> None)"

text \<open>The session that a token names, by its prefix and its parts; the older forms have no session id.\<close>

definition token_session :: "sm \<Rightarrow> string \<Rightarrow> admin_session option" where
  "token_session s token = (case strip_prefix ''pa.'' token of
     Some rest \<Rightarrow> let parts = split_all CHR ''.'' rest; username = hd parts in
       if length parts \<ge> 3 then found (get_pa_session_with s username (parts ! 1))
       else found (get_pa_session s username)
   | None \<Rightarrow> (case strip_prefix ''ga.'' token of
     Some rest \<Rightarrow> let parts = split_all CHR ''.'' rest in
       if length parts \<ge> 3 then found (get_ga_session_with s (parts ! 0) (parts ! 1)) else None
   | None \<Rightarrow> (case strip_prefix ''adm.'' token of
     Some rest \<Rightarrow> let parts = split_all CHR ''.'' rest in
       if length parts \<ge> 2 then found (get_session_with s (parts ! 0)) else found (get_session s)
   | None \<Rightarrow> found (get_session s))))"

definition unexpired :: "int \<Rightarrow> admin_session \<Rightarrow> bool" where
  "unexpired now x = (case as_expires_at x of None \<Rightarrow> True | Some e \<Rightarrow> now < e)"

text \<open>The principal is the one stored with the session, never read off the token.\<close>

definition resolve_principal :: "server \<Rightarrow> string option \<Rightarrow> principal option" where
  "resolve_principal sv auth = (case bearer auth of
     None \<Rightarrow> None
   | Some token \<Rightarrow> (case token_session (sv_sm sv) token of
       None \<Rightarrow> None
     | Some x \<Rightarrow> if as_token_hash x = sv_hash sv token \<and> unexpired (sv_now sv) x then Some (as_principal x) else None))"

definition token_session_id :: "string option \<Rightarrow> string option" where
  "token_session_id auth = (case bearer auth of
     None \<Rightarrow> None
   | Some token \<Rightarrow> (case strip_prefix ''pa.'' token of
       Some rest \<Rightarrow> let parts = split_all CHR ''.'' rest in if length parts \<ge> 3 then Some (parts ! 1) else None
     | None \<Rightarrow> (case strip_prefix ''ga.'' token of
       Some rest \<Rightarrow> let parts = split_all CHR ''.'' rest in if length parts \<ge> 3 then Some (parts ! 1) else None
     | None \<Rightarrow> (case strip_prefix ''adm.'' token of
       Some rest \<Rightarrow> let parts = split_all CHR ''.'' rest in if length parts \<ge> 2 then Some (parts ! 0) else None
     | None \<Rightarrow> None))))"

section \<open>The project of a path\<close>

definition plain_segment :: "string \<Rightarrow> bool" where
  "plain_segment seg = (seg \<noteq> [] \<and> list_all (\<lambda>c. is_lower c \<or> is_digit c \<or> c = CHR ''-'') seg)"

definition segment_after :: "string \<Rightarrow> string \<Rightarrow> string option" where
  "segment_after pre path = (case strip_prefix pre path of
     None \<Rightarrow> None
   | Some rest \<Rightarrow> let seg = hd (split_all CHR ''/'' rest) in if plain_segment seg then Some seg else None)"

definition project_segment :: "string \<Rightarrow> string option" where
  "project_segment path = segment_after ''/api/v1/projects/'' path"

definition data_plane_project_segment :: "string \<Rightarrow> string option" where
  "data_plane_project_segment path = segment_after ''/v1/projects/'' path"

section \<open>Access tokens of the data plane\<close>

text \<open>The header comes first; then the first part of the query that starts with \<open>token=\<close>.\<close>

definition extract_data_token :: "request \<Rightarrow> string option" where
  "extract_data_token rq = (case bearer (rq_auth rq) of
     Some t \<Rightarrow> Some t
   | None \<Rightarrow> (case rq_query rq of
       None \<Rightarrow> None
     | Some q \<Rightarrow> Option.bind (find (\<lambda>kv. starts_with kv ''token='') (split_all CHR ''&'' q)) (strip_prefix ''token='')))"

definition data_plane_authorized :: "server \<Rightarrow> request \<Rightarrow> bool" where
  "data_plane_authorized sv rq = (case extract_data_token rq of
     None \<Rightarrow> False
   | Some raw \<Rightarrow>
       if sv_dev_token sv = Some raw then True
       else (case data_plane_project_segment (rq_path rq) of
         None \<Rightarrow> False
       | Some pid \<Rightarrow> (case found (get_data_token (sv_sm sv) (sv_hash sv raw)) of
           Some rec \<Rightarrow> \<not> tk_revoked rec \<and> tk_project rec = pid
         | None \<Rightarrow> False)))"

definition data_plane_operator :: "server \<Rightarrow> request \<Rightarrow> string" where
  "data_plane_operator sv rq = (case extract_data_token rq of
     None \<Rightarrow> ''data-plane''
   | Some raw \<Rightarrow>
       if sv_dev_token sv = Some raw then ''data-plane:dev-single''
       else (case found (get_data_token (sv_sm sv) (sv_hash sv raw)) of
           Some rec \<Rightarrow> ''data-plane:'' @ tk_name rec
         | None \<Rightarrow> ''data-plane''))"

section \<open>The authorization matrix\<close>

definition is_super :: "principal \<Rightarrow> bool" where
  "is_super p = (p = Admin)"

definition own_session :: "string \<Rightarrow> string \<Rightarrow> bool" where
  "own_session method path = (method = ''POST'' \<and>
     (path = ''/api/v1/logout'' \<or> path = ''/api/v1/heartbeat'' \<or> path = ''/api/v1/me/password''))"

definition read_lists :: "string \<Rightarrow> string \<Rightarrow> bool" where
  "read_lists method path = (method = ''GET'' \<and>
     (path = ''/api/v1/projects'' \<or> path = ''/api/v1/audit'' \<or> path = ''/api/v1/cluster/members''))"

definition ga_allowed :: "string \<Rightarrow> string \<Rightarrow> bool" where
  "ga_allowed method path =
     (if own_session method path then True
      else if read_lists method path then True
      else if path = ''/api/v1/shared'' \<or> path = ''/api/v1/shared-draft'' \<or> path = ''/api/v1/shared/publish'' \<or>
          starts_with path ''/api/v1/shared/'' \<and> method = ''DELETE'' \<or>
          starts_with path ''/api/v1/shared-draft/'' \<and> method = ''DELETE'' then True
      else (case project_segment path of
          None \<Rightarrow> False
        | Some p \<Rightarrow>
            let rest = (case strip_prefix (''/api/v1/projects/'' @ p) path of None \<Rightarrow> [] | Some r \<Rightarrow> r) in
            if rest = [] then method = ''GET''
            else if \<not> starts_with rest ''/'' \<or>
              list_ex (\<lambda>s. s = [] \<or> s = ''.'' \<or> s = ''..'') (split_all CHR ''/'' (tl rest)) then False
            else if starts_with rest ''/admins'' \<or> starts_with rest ''/tokens'' then False
            else True))"

definition pa_allowed :: "principal \<Rightarrow> string \<Rightarrow> string \<Rightarrow> bool" where
  "pa_allowed who method path = (case who of
     ProjectAdmin u pid \<Rightarrow>
       if own_session method path then True
       else if read_lists method path then True
       else if method = ''GET'' \<and> (path = ''/api/v1/shared'' \<or> path = ''/api/v1/shared-draft'') then True
       else (case project_segment path of
           None \<Rightarrow> False
         | Some p \<Rightarrow>
             if p \<noteq> pid then False
             else if (case strip_prefix (''/api/v1/projects/'' @ pid) path of None \<Rightarrow> False
                 | Some r \<Rightarrow> starts_with r ''/admins'' \<or> starts_with r ''/tokens'') then False
             else if method = ''DELETE'' \<and> path = ''/api/v1/projects/'' @ pid then False
             else True)
   | _ \<Rightarrow> True)"

definition authorize :: "principal \<Rightarrow> string \<Rightarrow> string \<Rightarrow> bool" where
  "authorize who method path = (case who of
     Admin \<Rightarrow> True
   | GlobalAdmin u \<Rightarrow> ga_allowed method path
   | ProjectAdmin u p \<Rightarrow> pa_allowed who method path)"

section \<open>The middleware\<close>

datatype verdict = Pass "principal option" | Session_Expired | Forbidden_Resource | Token_Required

definition exempt_path :: "string \<Rightarrow> bool" where
  "exempt_path path = (path = ''/api/v1/login'' \<or> path = ''/healthz'' \<or> path = ''/readyz'' \<or>
     path = ''/api/v1/cluster/join'' \<or> path = ''/api/v1/admin/reset-password'')"

definition is_render :: "request \<Rightarrow> bool" where
  "is_render rq = ends_with (rq_path rq) ''/config''"

definition reveal_render :: "request \<Rightarrow> bool" where
  "reveal_render rq = (is_render rq \<and> (case rq_query rq of
     None \<Rightarrow> False
   | Some q \<Rightarrow> list_ex (\<lambda>kv. kv = ''reveal=true'') (split_all CHR ''&'' q)))"

definition session_allowed :: "server \<Rightarrow> request \<Rightarrow> bool" where
  "session_allowed sv rq =
     (if is_render rq \<and> \<not> reveal_render rq
      then (case resolve_principal sv (rq_auth rq) of
          Some (ProjectAdmin u project) \<Rightarrow> data_plane_project_segment (rq_path rq) = Some project
        | Some p \<Rightarrow> True
        | None \<Rightarrow> False)
      else False)"

definition auth_middleware :: "server \<Rightarrow> request \<Rightarrow> verdict" where
  "auth_middleware sv rq =
     (if exempt_path (rq_path rq) then Pass None
      else if starts_with (rq_path rq) ''/api/v1/'' then
        (case resolve_principal sv (rq_auth rq) of
           None \<Rightarrow> Session_Expired
         | Some p \<Rightarrow> if authorize p (rq_method rq) (rq_path rq) then Pass (Some p) else Forbidden_Resource)
      else if starts_with (rq_path rq) ''/v1/'' then
        (if \<not> reveal_render rq \<and> \<not> session_allowed sv rq \<and> \<not> data_plane_authorized sv rq then Token_Required
         else Pass None)
      else Pass None)"

section \<open>Routes\<close>

text \<open>
  The table of \<open>build_router\<close>, in its order; a segment in braces is a parameter. A handler is named as its
  function is.
\<close>

type_synonym handler = string

definition routes :: "(string \<times> (string \<times> handler) list) list" where
  "routes =
  [(''/healthz'', [(''GET'', ''health'')]),
   (''/readyz'', [(''GET'', ''readyz'')]),
   (''/metrics'', [(''GET'', ''metrics'')]),
   (''/admin'', [(''GET'', ''admin_index'')]),
   (''/admin/{*path}'', [(''GET'', ''admin_static'')]),
   (''/api/v1/login'', [(''POST'', ''login'')]),
   (''/api/v1/logout'', [(''POST'', ''logout'')]),
   (''/api/v1/heartbeat'', [(''POST'', ''heartbeat'')]),
   (''/api/v1/me/password'', [(''POST'', ''change_my_password'')]),
   (''/api/v1/audit'', [(''GET'', ''audit_list'')]),
   (''/api/v1/admin/rotate-master-key'', [(''POST'', ''rotate_master_key'')]),
   (''/api/v1/admin/force-logout'', [(''POST'', ''admin_force_logout'')]),
   (''/api/v1/admin/set-password'', [(''POST'', ''admin_set_password'')]),
   (''/api/v1/admin/reset-password'', [(''POST'', ''admin_reset_password'')]),
   (''/api/v1/admin/snapshot'', [(''GET'', ''admin_snapshot'')]),
   (''/api/v1/admin/retention-status'', [(''GET'', ''admin_retention_status'')]),
   (''/api/v1/admins'', [(''GET'', ''list_global_admins''), (''POST'', ''create_global_admin'')]),
   (''/api/v1/admins/{u}'', [(''DELETE'', ''delete_global_admin''), (''PUT'', ''set_global_admin_password'')]),
   (''/api/v1/projects'', [(''GET'', ''list_projects''), (''POST'', ''create_project'')]),
   (''/api/v1/projects/{p}/admins'', [(''GET'', ''list_project_admins''), (''POST'', ''create_project_admin'')]),
   (''/api/v1/projects/{p}/tokens'', [(''GET'', ''list_project_tokens''), (''POST'', ''create_project_token'')]),
   (''/api/v1/projects/{p}/tokens/{id}'', [(''DELETE'', ''delete_project_token'')]),
   (''/api/v1/projects/{p}/admins/{u}'', [(''DELETE'', ''delete_project_admin''), (''PUT'', ''set_project_admin_password'')]),
   (''/api/v1/projects/{p}'', [(''GET'', ''project_detail''), (''DELETE'', ''delete_project'')]),
   (''/api/v1/projects/{p}/branches'', [(''GET'', ''list_branches''), (''POST'', ''create_branch'')]),
   (''/api/v1/projects/{p}/branches/{b}'', [(''GET'', ''branch_detail''), (''DELETE'', ''delete_branch'')]),
   (''/api/v1/projects/{p}/diff'', [(''GET'', ''branch_diff'')]),
   (''/api/v1/projects/{p}/promote'', [(''POST'', ''promote'')]),
   (''/api/v1/projects/{p}/branches/{b}/gray-publish'', [(''POST'', ''gray_publish_branch'')]),
   (''/api/v1/projects/{p}/branches/{b}/gray-promote'', [(''POST'', ''gray_promote_branch'')]),
   (''/api/v1/projects/{p}/branches/{b}/gray-abort'', [(''POST'', ''gray_abort_branch'')]),
   (''/api/v1/projects/{p}/branches/{b}/gray-status'', [(''GET'', ''gray_status'')]),
   (''/api/v1/shared'', [(''GET'', ''list_shared''), (''POST'', ''create_shared'')]),
   (''/api/v1/shared-draft'', [(''GET'', ''list_shared_drafts''), (''PUT'', ''update_shared_draft'')]),
   (''/api/v1/shared/publish'', [(''POST'', ''publish_shared'')]),
   (''/api/v1/shared/{key}'', [(''DELETE'', ''delete_shared'')]),
   (''/api/v1/shared-draft/{key}'', [(''DELETE'', ''delete_shared_draft'')]),
   (''/api/v1/projects/{p}/structure-draft'', [(''GET'', ''get_structure_draft''), (''PUT'', ''set_structure_draft'')]),
   (''/api/v1/projects/{p}/structure-draft/publish'', [(''POST'', ''publish_structure'')]),
   (''/api/v1/projects/{p}/structure'', [(''GET'', ''get_published_structure'')]),
   (''/api/v1/projects/{p}/branches/{b}/draft'', [(''PUT'', ''update_draft'')]),
   (''/api/v1/projects/{p}/branches/{b}/publish'', [(''POST'', ''publish'')]),
   (''/api/v1/projects/{p}/branches/{b}/rollback'', [(''POST'', ''rollback'')]),
   (''/api/v1/projects/{p}/branches/{b}/config'', [(''GET'', ''admin_config'')]),
   (''/api/v1/projects/{p}/branches/{b}/versions'', [(''GET'', ''version_history'')]),
   (''/v1/projects/{p}/branches/{b}/snapshot'', [(''GET'', ''snapshot'')]),
   (''/v1/projects/{p}/branches/{b}/config'', [(''GET'', ''render_config'')]),
   (''/v1/projects/{p}/branches/{b}/watch'', [(''GET'', ''watch_branch'')])]"

definition cluster_routes :: "(string \<times> (string \<times> handler) list) list" where
  "cluster_routes =
  [(''/api/v1/cluster/members'', [(''GET'', ''cluster_members'')]),
   (''/api/v1/cluster/join'', [(''POST'', ''cluster_join'')]),
   (''/api/v1/cluster/promote'', [(''POST'', ''cluster_promote'')]),
   (''/api/v1/cluster/remove'', [(''POST'', ''cluster_remove'')])]"

text \<open>\<open>clustered\<close>: the server runs with a Raft node.\<close>

definition build_router :: "bool \<Rightarrow> (string \<times> (string \<times> handler) list) list" where
  "build_router clustered = routes @ (if clustered then cluster_routes else [])"

text \<open>
  What the documentation of the web framework says of its dispatch. A template fits a path segment by
  segment: a literal is itself, a parameter is any non-empty segment, \<open>{*...}\<close> is a non-empty rest. A GET
  handler also answers HEAD. The parameters are percent-decoded, which leaves a text without a percent sign as
  it is.
\<close>

fun fit :: "string list \<Rightarrow> string list \<Rightarrow> string list option" where
  "fit [] [] = Some []"
| "fit (t # ts) (x # xs) =
     (if starts_with t ''{*'' then (if x # xs = [[]] then None else Some [join_all CHR ''/'' (x # xs)])
      else if starts_with t ''{'' then (if x = [] then None else map_option ((#) x) (fit ts xs))
      else if t = x then fit ts xs else None)"
| "fit _ _ = None"

definition path_params :: "string \<Rightarrow> string \<Rightarrow> string list option" where
  "path_params template path = fit (segs template) (segs path)"

definition dispatch_law ::
  "(string \<Rightarrow> string) \<Rightarrow> bool \<Rightarrow> (string \<Rightarrow> string \<Rightarrow> (handler \<times> string list) option) \<Rightarrow> bool" where
  "dispatch_law decode clustered dispatch \<longleftrightarrow>
     (\<forall>x. CHR ''%'' \<notin> set x \<longrightarrow> decode x = x) \<and>
     (\<forall>m path h ps. dispatch m path = Some (h, ps) \<longrightarrow>
        (\<exists>template hs raw. (template, hs) \<in> set (build_router clustered) \<and>
           ((m, h) \<in> set hs \<or> m = ''HEAD'' \<and> (''GET'', h) \<in> set hs) \<and>
           path_params template path = Some raw \<and> ps = map decode raw))"

section \<open>The matrix over the routes\<close>

text \<open>
  The matrix as the design states it, over the handlers: the own session and the lists for everybody, the
  shared library for a global administrator (reading it also for a project administrator), and the handlers
  of a project, for a project administrator those of the own project. Deleting and creating projects, the
  accounts, the access tokens, the cluster and the node are for the super administrator.
\<close>

definition open_handlers :: "handler list" where
  "open_handlers = [''logout'', ''heartbeat'', ''change_my_password'', ''list_projects'', ''audit_list'', ''cluster_members'']"

definition shared_readers :: "handler list" where
  "shared_readers = [''list_shared'', ''list_shared_drafts'']"

definition shared_writers :: "handler list" where
  "shared_writers = [''create_shared'', ''update_shared_draft'', ''publish_shared'', ''delete_shared'', ''delete_shared_draft'']"

definition project_handlers :: "handler list" where
  "project_handlers = [''project_detail'', ''list_branches'', ''create_branch'', ''branch_detail'', ''delete_branch'',
     ''branch_diff'', ''promote'', ''gray_publish_branch'', ''gray_promote_branch'', ''gray_abort_branch'', ''gray_status'',
     ''get_structure_draft'', ''set_structure_draft'', ''publish_structure'', ''get_published_structure'', ''update_draft'',
     ''publish'', ''rollback'', ''admin_config'', ''version_history'']"

text \<open>What needs no session: signing in, the probes, the console's files, and the two calls that check a token
  of their own.\<close>

definition public_handlers :: "handler list" where
  "public_handlers = [''login'', ''health'', ''readyz'', ''cluster_join'', ''admin_reset_password'', ''metrics'',
     ''admin_index'', ''admin_static'']"

definition may_reach :: "principal \<Rightarrow> handler \<Rightarrow> string list \<Rightarrow> bool" where
  "may_reach who h ps = (case who of
     Admin \<Rightarrow> True
   | GlobalAdmin u \<Rightarrow> h \<in> set (open_handlers @ shared_readers @ shared_writers @ project_handlers)
   | ProjectAdmin u p \<Rightarrow> h \<in> set (open_handlers @ shared_readers) \<or>
       h \<in> set project_handlers \<and> ps \<noteq> [] \<and> hd ps = p)"

lemma path_eq: "path = q \<longleftrightarrow> segs path = segs q"
  by (metis join_split segs_def)

abbreviation is_param :: "string \<Rightarrow> bool" where "is_param t \<equiv> starts_with t ''{''"

lemma star_is_param: "starts_with t ''{*'' \<Longrightarrow> is_param t"
  by (cases t) auto

lemma fit_Nil: "fit [] xs = Some raw \<longleftrightarrow> xs = [] \<and> raw = []"
  by (cases xs) auto

lemma fit_literal: "\<not> is_param t \<Longrightarrow> fit (t # ts) xs = Some raw \<longleftrightarrow> (\<exists>ys. xs = t # ys \<and> fit ts ys = Some raw)"
  using star_is_param by (cases xs) auto

lemma fit_param:
  "is_param t \<Longrightarrow> \<not> starts_with t ''{*'' \<Longrightarrow>
     fit (t # ts) xs = Some raw \<longleftrightarrow> (\<exists>y ys r. xs = y # ys \<and> y \<noteq> [] \<and> raw = y # r \<and> fit ts ys = Some r)"
  by (cases xs) auto

lemma fit_literals: "list_all (\<lambda>t. \<not> is_param t) ts \<Longrightarrow> fit ts xs = Some raw \<Longrightarrow> xs = ts"
  by (induction ts arbitrary: xs) (auto simp: fit_Nil fit_literal)

text \<open>What the matrix answers for a path below a project, by the segments of the path.\<close>

lemma strip_below:
  assumes "segs path = segs pre @ rest" "rest \<noteq> []"
  shows "strip_prefix (pre @ ''/'') path = Some (join_all CHR ''/'' rest)"
proof -
  have "path = join_all CHR ''/'' (segs pre @ rest)" using assms(1) by (metis join_split segs_def)
  also have "\<dots> = (pre @ ''/'') @ join_all CHR ''/'' rest"
    using assms(2) by (simp add: join_all_append segs_def join_split)
  finally show ?thesis by (simp only: strip_prefix_append)
qed

lemma segs_slash_free_all: "x \<in> set (segs s) \<Longrightarrow> slash_free x"
  unfolding segs_def by (induction s arbitrary: x) (auto split: list.splits if_splits)

lemma split_join: "xs \<noteq> [] \<Longrightarrow> list_all slash_free xs \<Longrightarrow> segs (join_all CHR ''/'' xs) = xs"
  by (induction "CHR ''/''" xs rule: join_all.induct) (auto simp: segs_free segs_sep)

lemma starts_with_sep_free:
  "CHR ''/'' \<notin> set q \<Longrightarrow> starts_with (x @ CHR ''/'' # y) q \<longleftrightarrow> starts_with x q"
proof (induction q arbitrary: x)
  case (Cons c q)
  then show ?case by (cases x) auto
qed simp

abbreviation "project_segs x rest \<equiv> [] # ''api'' # ''v1'' # ''projects'' # x # rest"

lemma project_path:
  assumes "segs path = project_segs x rest"
  shows project_segment_segs: "project_segment path = (if plain_segment x then Some x else None)"
    and below_project: "strip_prefix (''/api/v1/projects/'' @ x) path = Some (concat (map ((#) CHR ''/'') rest))"
proof -
  have free: "list_all slash_free (x # rest)" using segs_slash_free_all [of _ path] assms by (auto simp: list_all_iff)
  have "strip_prefix (''/api/v1/projects'' @ ''/'') path = Some (join_all CHR ''/'' (x # rest))"
    by (rule strip_below) (simp_all add: assms, simp add: segs_def)
  then have strip: "path = ''/api/v1/projects/'' @ join_all CHR ''/'' (x # rest)"
    by (simp add: strip_prefix_Some)
  have "hd (split_all CHR ''/'' (join_all CHR ''/'' (x # rest))) = x"
    using split_join [OF _ free] by (simp add: segs_def)
  then show "project_segment path = (if plain_segment x then Some x else None)"
    unfolding project_segment_def segment_after_def strip strip_prefix_append option.case Let_def by (simp only:)
  have "join_all CHR ''/'' (x # rest) = x @ concat (map ((#) CHR ''/'') rest)"
    by (induction rest arbitrary: x) auto
  then show "strip_prefix (''/api/v1/projects/'' @ x) path = Some (concat (map ((#) CHR ''/'') rest))"
    unfolding strip by (simp add: strip_prefix_Some)
qed

lemma no_fixed_path:
  assumes "segs path = project_segs x rest"
  shows "\<not> own_session m path" "\<not> read_lists m path" "path \<noteq> ''/api/v1/shared''" "path \<noteq> ''/api/v1/shared-draft''"
    "path \<noteq> ''/api/v1/shared/publish''" "\<not> starts_with path ''/api/v1/shared/''" "\<not> starts_with path ''/api/v1/shared-draft/''"
proof -
  show "\<not> own_session m path" "\<not> read_lists m path" "path \<noteq> ''/api/v1/shared''" "path \<noteq> ''/api/v1/shared-draft''"
    "path \<noteq> ''/api/v1/shared/publish''"
    unfolding own_session_def read_lists_def path_eq [of path] assms by (simp_all add: segs_def)
  show "\<not> starts_with path ''/api/v1/shared/''" "\<not> starts_with path ''/api/v1/shared-draft/''"
    using starts_with_dir [of path "''/api/v1/shared''"] starts_with_dir [of path "''/api/v1/shared-draft''"] assms
    by (simp_all add: segs_def)
qed

lemma rest_starts: "list_all slash_free rest \<Longrightarrow> CHR ''/'' \<notin> set q \<Longrightarrow>
    starts_with (concat (map ((#) CHR ''/'') rest)) (CHR ''/'' # q) \<longleftrightarrow> rest \<noteq> [] \<and> starts_with (hd rest) q"
proof (cases rest)
  case (Cons y ys)
  assume "CHR ''/'' \<notin> set q"
  with Cons show ?thesis by (cases ys) (auto simp: starts_with_sep_free)
qed simp

definition closed_area :: "string list \<Rightarrow> bool" where
  "closed_area rest \<longleftrightarrow> rest \<noteq> [] \<and> (starts_with (hd rest) ''admins'' \<or> starts_with (hd rest) ''tokens'')"


lemma concat_join: "xs \<noteq> [] \<Longrightarrow> concat (map ((#) c) xs) = c # join_all c xs"
  by (induction c xs rule: join_all.induct) auto

lemma below_parts:
  assumes "segs path = project_segs x rest"
  obtains r where "strip_prefix (''/api/v1/projects/'' @ x) path = Some r" "r = [] \<longleftrightarrow> rest = []"
    "starts_with r ''/admins'' \<or> starts_with r ''/tokens'' \<longleftrightarrow> closed_area rest"
    "rest \<noteq> [] \<Longrightarrow> starts_with r ''/'' \<and> split_all CHR ''/'' (tl r) = rest"
proof
  have free: "list_all slash_free rest" using segs_slash_free_all [of _ path] assms by (auto simp: list_all_iff)
  let ?r = "concat (map ((#) CHR ''/'') rest)"
  show "strip_prefix (''/api/v1/projects/'' @ x) path = Some ?r" by (rule below_project [OF assms])
  show "?r = [] \<longleftrightarrow> rest = []" by (cases rest) auto
  show "starts_with ?r ''/admins'' \<or> starts_with ?r ''/tokens'' \<longleftrightarrow> closed_area rest"
    using rest_starts [OF free, of "''admins''"] rest_starts [OF free, of "''tokens''"] by (auto simp: closed_area_def)
  have "tl ?r = join_all CHR ''/'' rest" if "rest \<noteq> []" using that by (simp add: concat_join)
  moreover have "starts_with ?r ''/''" if "rest \<noteq> []" using that by (cases rest) auto
  ultimately show "rest \<noteq> [] \<Longrightarrow> starts_with ?r ''/'' \<and> split_all CHR ''/'' (tl ?r) = rest"
    using split_join [OF _ free] by (simp add: segs_def)
qed

lemma project_matrix:
  assumes "segs path = project_segs x rest"
  shows "authorize (ProjectAdmin u p) m path \<longleftrightarrow>
      plain_segment x \<and> x = p \<and> \<not> closed_area rest \<and> \<not> (m = ''DELETE'' \<and> rest = [])"
    and "authorize (GlobalAdmin u) m path \<longleftrightarrow> plain_segment x \<and> (rest = [] \<longrightarrow> m = ''GET'') \<and>
      \<not> closed_area rest \<and> list_all (\<lambda>s. s \<notin> {[], ''.'', ''..''}) rest"
proof -
  obtain r where r: "strip_prefix (''/api/v1/projects/'' @ x) path = Some r" "r = [] \<longleftrightarrow> rest = []"
    "starts_with r ''/admins'' \<or> starts_with r ''/tokens'' \<longleftrightarrow> closed_area rest"
    "rest \<noteq> [] \<Longrightarrow> starts_with r ''/'' \<and> split_all CHR ''/'' (tl r) = rest"
    using below_parts [OF assms] by blast
  have "path = (''/api/v1/projects/'' @ x) @ r" using r(1) by (simp only: strip_prefix_Some)
  then have whole: "path = ''/api/v1/projects/'' @ x \<longleftrightarrow> rest = []"
    using r(2) by (simp only: append_self_conv)
  have none: "closed_area [] = False" by (simp add: closed_area_def)
  note fixed = no_fixed_path [OF assms]
  have "authorize (ProjectAdmin u p) m path \<longleftrightarrow> (if \<not> plain_segment x then False else if x \<noteq> p then False
      else if closed_area rest then False else if m = ''DELETE'' \<and> rest = [] then False else True)"
    unfolding authorize_def pa_allowed_def principal.case project_segment_segs [OF assms]
    using fixed r(1,3) whole by (cases "x = p") simp_all
  then show "authorize (ProjectAdmin u p) m path \<longleftrightarrow>
      plain_segment x \<and> x = p \<and> \<not> closed_area rest \<and> \<not> (m = ''DELETE'' \<and> rest = [])" by simp
  have "authorize (GlobalAdmin u) m path \<longleftrightarrow> (if \<not> plain_segment x then False else if rest = [] then m = ''GET''
      else if list_ex (\<lambda>s. s = [] \<or> s = ''.'' \<or> s = ''..'') rest then False
      else if closed_area rest then False else True)"
    unfolding authorize_def ga_allowed_def principal.case project_segment_segs [OF assms]
    using fixed r by (cases "rest = []") simp_all
  then show "authorize (GlobalAdmin u) m path \<longleftrightarrow> plain_segment x \<and> (rest = [] \<longrightarrow> m = ''GET'') \<and>
      \<not> closed_area rest \<and> list_all (\<lambda>s. s \<notin> {[], ''.'', ''..''}) rest"
    by (cases "rest = []") (auto simp: list_ex_iff list_all_iff none)
qed

text \<open>What the table says of each route, checked on the table itself.\<close>

abbreviation "ga_handlers \<equiv> open_handlers @ shared_readers @ shared_writers @ project_handlers"

definition pa_fixed :: "string \<Rightarrow> string \<Rightarrow> bool" where
  "pa_fixed m path = (own_session m path \<or> read_lists m path \<or>
     m = ''GET'' \<and> (path = ''/api/v1/shared'' \<or> path = ''/api/v1/shared-draft''))"

definition project_template :: "string \<Rightarrow> bool" where
  "project_template t = (take 5 (segs t) = project_segs ''{p}'' [])"

definition key_templates :: "string list" where
  "key_templates = [''/api/v1/admins/{u}'', ''/api/v1/shared/{key}'', ''/api/v1/shared-draft/{key}'']"

definition other_templates :: "string list" where
  "other_templates = [''/admin/{*path}'', ''/v1/projects/{p}/branches/{b}/snapshot'',
     ''/v1/projects/{p}/branches/{b}/config'', ''/v1/projects/{p}/branches/{b}/watch'']"

definition fixed_template :: "string \<Rightarrow> bool" where
  "fixed_template t = (list_all (\<lambda>x. \<not> is_param x) (segs t) \<and> project_segment t = None)"

lemma table_kinds:
  "list_all (\<lambda>(t, hs). project_template t \<or> t \<in> set key_templates \<or> fixed_template t \<or>
     t \<in> set other_templates) (build_router True)"
  by code_simp

lemma table_projects:
  "list_all (\<lambda>(t, hs). project_template t \<longrightarrow> (let rest = drop 5 (segs t) in
     list_all (\<lambda>x. \<not> starts_with x ''{*'' \<and> x \<notin> {[], ''.'', ''..''}) rest \<and>
     list_all (\<lambda>(m, h). if rest = [] then (m, h) \<in> {(''GET'', ''project_detail''), (''DELETE'', ''delete_project'')}
        else \<not> is_param (hd rest) \<and> (h \<in> set project_handlers \<longleftrightarrow> \<not> closed_area rest)) hs)) (build_router True)"
  by code_simp

lemma table_fixed:
  "list_all (\<lambda>(t, hs). fixed_template t \<longrightarrow> list_all (\<lambda>(m, h).
     (ga_allowed m t \<longleftrightarrow> h \<in> set ga_handlers) \<and> (pa_fixed m t \<longleftrightarrow> h \<in> set (open_handlers @ shared_readers)) \<and>
     (ga_allowed ''HEAD'' t \<longrightarrow> h \<in> set ga_handlers) \<and> \<not> pa_fixed ''HEAD'' t \<and> h \<notin> set project_handlers) hs) (build_router True)"
  by code_simp

lemma in_router: "(t, hs) \<in> set (build_router clustered) \<Longrightarrow> (t, hs) \<in> set (build_router True)"
  by (auto simp: build_router_def split: if_splits)

lemma list_all_mem: "list_all P xs \<Longrightarrow> x \<in> set xs \<Longrightarrow> P x"
  by (simp add: list_all_iff)

text \<open>A path that fits the template of a project route.\<close>

lemma fit_project:
  assumes "project_template t" "path_params t path = Some raw"
  obtains x rest raw' where "segs path = project_segs x rest" "x \<noteq> []" "raw = x # raw'"
    "fit (drop 5 (segs t)) rest = Some raw'"
proof -
  have "segs t = take 5 (segs t) @ drop 5 (segs t)" by simp
  then have t: "segs t = project_segs ''{p}'' (drop 5 (segs t))"
    using assms(1) by (simp only: project_template_def append.simps)
  obtain ys where "fit (segs t) (segs path) = Some raw" using assms(2) by (simp add: path_params_def)
  then have "fit (project_segs ''{p}'' (drop 5 (segs t))) (segs path) = Some raw" using t by simp
  then show thesis using that by (auto simp: fit_literal fit_param)
qed

lemma project_route:
  assumes "(t, hs) \<in> set (build_router clustered)" "project_template t" "path_params t path = Some raw"
  shows "\<exists>x rest raw'. segs path = project_segs x rest \<and> x \<noteq> [] \<and> raw = x # raw' \<and>
    (\<forall>(m, h) \<in> set hs. (rest = [] \<longrightarrow> (m, h) \<in> {(''GET'', ''project_detail''), (''DELETE'', ''delete_project'')}) \<and>
       (rest \<noteq> [] \<longrightarrow> (h \<in> set project_handlers \<longleftrightarrow> \<not> closed_area rest)))"
proof -
  define T where "T = drop 5 (segs t)"
  from fit_project [OF assms(2,3)] obtain x rest raw' where
    p: "segs path = project_segs x rest" "x \<noteq> []" "raw = x # raw'" "fit T rest = Some raw'"
    unfolding T_def by blast
  note row = list_all_mem [OF table_projects in_router [OF assms(1)], unfolded prod.case Let_def, folded T_def, rule_format, OF assms(2)]
  have lits: "list_all (\<lambda>x. \<not> starts_with x ''{*'' \<and> x \<notin> {[], ''.'', ''..''}) T"
    by (rule conjunct1 [OF row])
  have all: "list_all (\<lambda>(m, h). if T = [] then (m, h) \<in> {(''GET'', ''project_detail''), (''DELETE'', ''delete_project'')}
        else \<not> is_param (hd T) \<and> (h \<in> set project_handlers \<longleftrightarrow> \<not> closed_area T)) hs"
    by (rule conjunct2 [OF row])
  have empty: "T = [] \<longleftrightarrow> rest = []" using p(4) by (cases T; cases rest) auto
  have same: "closed_area rest = closed_area T" if "T \<noteq> []" "\<not> is_param (hd T)"
    using that p(4) empty by (cases T) (auto simp: closed_area_def fit_literal)
  have "\<forall>(m, h) \<in> set hs. (rest = [] \<longrightarrow> (m, h) \<in> {(''GET'', ''project_detail''), (''DELETE'', ''delete_project'')}) \<and>
       (rest \<noteq> [] \<longrightarrow> (h \<in> set project_handlers \<longleftrightarrow> \<not> closed_area rest))"
    using all same by (cases "rest = []") (auto simp: empty list_all_iff)
  then show ?thesis using p by blast
qed

text \<open>The two routes whose last segment is the name of a shared item, and the one of the global administrators.\<close>

lemma starts_with_segs: "starts_with path (pre @ ''/'') \<longleftrightarrow> take (length (segs pre)) (segs path) = segs pre \<and>
    length (segs pre) < length (segs path)"
  by (auto simp: starts_with_dir) (metis append_take_drop_id drop_eq_Nil not_less)

lemma no_project_segment: "segs path = a # b # c # y # ys \<Longrightarrow> y \<noteq> ''projects'' \<Longrightarrow> project_segment path = None"
  using starts_with_segs [of path "''/api/v1/projects''"]
  by (simp add: project_segment_def segment_after_def strip_prefix_def segs_def)

lemma key_matrix:
  assumes "segs path = [[], ''api'', ''v1'', y, x]" "y \<in> {''admins'', ''shared'', ''shared-draft''}"
  shows "\<not> authorize (ProjectAdmin u p) m path"
    and "y = ''admins'' \<Longrightarrow> \<not> authorize (GlobalAdmin u) m path"
    and "y \<noteq> ''admins'' \<Longrightarrow> m = ''DELETE'' \<Longrightarrow> authorize (GlobalAdmin u) m path"
proof -
  have none: "project_segment path = None" using assms by (intro no_project_segment) auto
  have fixed: "\<not> own_session m path" "\<not> read_lists m path" "path \<noteq> ''/api/v1/shared''" "path \<noteq> ''/api/v1/shared-draft''"
    unfolding own_session_def read_lists_def path_eq [of path] using assms by (auto simp: segs_def)
  have shared: "starts_with path ''/api/v1/shared/'' \<longleftrightarrow> y = ''shared''"
    "starts_with path ''/api/v1/shared-draft/'' \<longleftrightarrow> y = ''shared-draft''"
    using assms starts_with_segs [of path "''/api/v1/shared''"] starts_with_segs [of path "''/api/v1/shared-draft''"]
    by (auto simp: segs_def)
  have publish: "path = ''/api/v1/shared/publish'' \<Longrightarrow> y = ''shared''"
    unfolding path_eq [of path] using assms by (simp add: segs_def)
  show "\<not> authorize (ProjectAdmin u p) m path"
    using fixed none by (simp add: authorize_def pa_allowed_def)
  show "y = ''admins'' \<Longrightarrow> \<not> authorize (GlobalAdmin u) m path"
    using fixed none shared publish by (auto simp: authorize_def ga_allowed_def)
  show "y \<noteq> ''admins'' \<Longrightarrow> m = ''DELETE'' \<Longrightarrow> authorize (GlobalAdmin u) m path"
    using fixed none shared assms(2) by (auto simp: authorize_def ga_allowed_def)
qed

lemma key_rows: "filter (\<lambda>(t, hs). t \<in> set key_templates) (build_router True) =
  [(''/api/v1/admins/{u}'', [(''DELETE'', ''delete_global_admin''), (''PUT'', ''set_global_admin_password'')]),
   (''/api/v1/shared/{key}'', [(''DELETE'', ''delete_shared'')]),
   (''/api/v1/shared-draft/{key}'', [(''DELETE'', ''delete_shared_draft'')])]"
  by code_simp

lemma key_segs:
  "segs ''/api/v1/admins/{u}'' = [[], ''api'', ''v1'', ''admins'', ''{u}'']"
  "segs ''/api/v1/shared/{key}'' = [[], ''api'', ''v1'', ''shared'', ''{key}'']"
  "segs ''/api/v1/shared-draft/{key}'' = [[], ''api'', ''v1'', ''shared-draft'', ''{key}'']"
  by (simp_all add: segs_def)

definition key_handlers :: "string \<Rightarrow> (string \<times> handler) list \<Rightarrow> bool" where
  "key_handlers y hs \<longleftrightarrow> list_all (\<lambda>(m, h). if y = ''admins'' then h \<notin> set ga_handlers
     else m = ''DELETE'' \<and> h \<in> set shared_writers \<and> h \<notin> set (open_handlers @ shared_readers @ project_handlers)) hs"

lemma key_handlers_rows:
  "key_handlers ''admins'' [(''DELETE'', ''delete_global_admin''), (''PUT'', ''set_global_admin_password'')]"
  "key_handlers ''shared'' [(''DELETE'', ''delete_shared'')]"
  "key_handlers ''shared-draft'' [(''DELETE'', ''delete_shared_draft'')]"
  by code_simp+

lemma key_route:
  assumes "(t, hs) \<in> set (build_router clustered)" "t \<in> set key_templates" "path_params t path = Some raw"
  obtains y x where "segs path = [[], ''api'', ''v1'', y, x]" "y \<in> {''admins'', ''shared'', ''shared-draft''}"
    "key_handlers y hs"
proof -
  have "(t, hs) \<in> set (filter (\<lambda>(t, hs). t \<in> set key_templates) (build_router True))"
    using in_router [OF assms(1)] assms(2) by simp
  then obtain y k where y: "y \<in> {''admins'', ''shared'', ''shared-draft''}" "segs t = [[], ''api'', ''v1'', y, k]"
    "k \<in> {''{u}'', ''{key}''}" "key_handlers y hs"
    unfolding key_rows using key_segs key_handlers_rows by fastforce
  have "fit [[], ''api'', ''v1'', y, k] (segs path) = Some raw" using assms(3) y(2) by (simp add: path_params_def)
  then obtain x where "segs path = [[], ''api'', ''v1'', y, x]"
    using y(1,3) by (auto simp: fit_literal fit_param fit_Nil)
  then show thesis using that y(1,4) by blast
qed

lemma other_rows: "filter (\<lambda>(t, hs). t \<in> set other_templates) (build_router True) =
  [(''/admin/{*path}'', [(''GET'', ''admin_static'')]),
   (''/v1/projects/{p}/branches/{b}/snapshot'', [(''GET'', ''snapshot'')]),
   (''/v1/projects/{p}/branches/{b}/config'', [(''GET'', ''render_config'')]),
   (''/v1/projects/{p}/branches/{b}/watch'', [(''GET'', ''watch_branch'')])]"
  by code_simp

lemma other_route:
  assumes "(t, hs) \<in> set (build_router clustered)" "t \<in> set other_templates" "path_params t path = Some raw"
  shows "\<not> starts_with path ''/api/v1/''" "\<not> exempt_path path"
    "starts_with path ''/v1/'' \<or> hs = [(''GET'', ''admin_static'')]"
proof -
  have "(t, hs) \<in> set (filter (\<lambda>(t, hs). t \<in> set other_templates) (build_router True))"
    using in_router [OF assms(1)] assms(2) by simp
  then consider "t = ''/admin/{*path}'' \<and> hs = [(''GET'', ''admin_static'')]"
    | z where "segs t = [[], ''v1'', ''projects'', ''{p}'', ''branches'', ''{b}'', z]"
    unfolding other_rows by (auto simp: segs_def)
  then have "\<not> starts_with path ''/api/v1/'' \<and> \<not> exempt_path path \<and> (starts_with path ''/v1/'' \<or> hs = [(''GET'', ''admin_static'')])"
  proof cases
    case 1
    then have "segs t = [[], ''admin'', ''{*path}'']" by (simp add: segs_def)
    then obtain y ys where "segs path = [] # ''admin'' # y # ys"
      using assms(3) by (cases "drop 2 (segs path)") (auto simp: path_params_def fit_literal split: if_splits)
    then show ?thesis using 1 starts_with_segs [of path "''/api/v1''"]
      unfolding exempt_path_def path_eq [of path] by (simp add: segs_def)
  next
    case 2
    then obtain xs where "segs path = [] # ''v1'' # ''projects'' # xs"
      using assms(3) by (auto simp: path_params_def fit_literal)
    then show ?thesis using starts_with_segs [of path "''/api/v1''"] starts_with_segs [of path "''/v1''"]
      unfolding exempt_path_def path_eq [of path] by (simp add: segs_def)
  qed
  then show "\<not> starts_with path ''/api/v1/''" "\<not> exempt_path path"
    "starts_with path ''/v1/'' \<or> hs = [(''GET'', ''admin_static'')]" by blast+
qed

lemma table_public:
  "list_all (\<lambda>(t, hs). fixed_template t \<longrightarrow> (exempt_path t \<or> \<not> starts_with t ''/api/v1/'' \<longrightarrow>
     list_all (\<lambda>(m, h). h \<in> set public_handlers) hs)) (build_router True)"
  by code_simp

text \<open>The four kinds of routes, and what the matrix answers on each.\<close>

lemma fixed_route:
  assumes "(t, hs) \<in> set (build_router clustered)" "fixed_template t" "path_params t path = Some raw"
  shows "path = t" "authorize (GlobalAdmin u) m path \<longleftrightarrow> ga_allowed m t"
    "authorize (ProjectAdmin u p) m path \<longleftrightarrow> pa_fixed m t"
proof -
  show "path = t" using assms(2,3) fit_literals by (auto simp: path_eq fixed_template_def path_params_def)
  then show "authorize (GlobalAdmin u) m path \<longleftrightarrow> ga_allowed m t"
    "authorize (ProjectAdmin u p) m path \<longleftrightarrow> pa_fixed m t"
    using assms(2) by (simp_all add: authorize_def pa_allowed_def pa_fixed_def fixed_template_def)
qed

lemma api_path:
  assumes "segs path = [] # ''api'' # ''v1'' # y # ys" "y \<notin> {''login'', ''cluster'', ''admin''}"
  shows "starts_with path ''/api/v1/''" "\<not> exempt_path path"
  using assms starts_with_segs [of path "''/api/v1''"]
  unfolding exempt_path_def path_eq [of path] by (auto simp: segs_def)

lemma may_reach_simps:
  "may_reach Admin h ps"
  "may_reach (GlobalAdmin u) h ps \<longleftrightarrow> h \<in> set ga_handlers"
  "may_reach (ProjectAdmin u p) h ps \<longleftrightarrow> h \<in> set (open_handlers @ shared_readers) \<or> h \<in> set project_handlers \<and> ps \<noteq> [] \<and> hd ps = p"
  by (simp_all only: may_reach_def principal.case)

lemma fixed_may_reach:
  assumes "(t, hs) \<in> set (build_router clustered)" "fixed_template t" "path_params t path = Some raw"
    "(m, h) \<in> set hs \<or> m = ''HEAD'' \<and> (''GET'', h) \<in> set hs"
  shows "authorize who m path \<Longrightarrow> may_reach who h ps"
    and "m \<noteq> ''HEAD'' \<Longrightarrow> may_reach who h ps \<Longrightarrow> authorize who m path"
proof -
  note row = list_all_mem [OF table_fixed in_router [OF assms(1)], unfolded prod.case, rule_format, OF assms(2)]
  have sound: "(ga_allowed m t \<longrightarrow> h \<in> set ga_handlers) \<and> (pa_fixed m t \<longrightarrow> h \<in> set (open_handlers @ shared_readers)) \<and>
      h \<notin> set project_handlers"
    using assms(4) list_all_mem [OF row] by fast
  have complete: "(h \<in> set ga_handlers \<longrightarrow> ga_allowed m t) \<and> (h \<in> set (open_handlers @ shared_readers) \<longrightarrow> pa_fixed m t)"
    if "m \<noteq> ''HEAD''"
    using assms(4) that list_all_mem [OF row] by fast
  note f = fixed_route [OF assms(1-3)]
  show "authorize who m path \<Longrightarrow> may_reach who h ps"
    by (cases who) (use sound f may_reach_simps in blast)+
  show "m \<noteq> ''HEAD'' \<Longrightarrow> may_reach who h ps \<Longrightarrow> authorize who m path"
  proof (cases who)
    case Admin
    then show ?thesis by (simp add: authorize_def)
  qed (use complete sound f may_reach_simps in blast)+
qed

lemma key_may_reach:
  assumes "(t, hs) \<in> set (build_router clustered)" "t \<in> set key_templates" "path_params t path = Some raw"
    "(m, h) \<in> set hs \<or> m = ''HEAD'' \<and> (''GET'', h) \<in> set hs"
  shows "authorize who m path \<longleftrightarrow> may_reach who h ps"
proof -
  from key_route [OF assms(1-3)] obtain y x where
    k: "segs path = [[], ''api'', ''v1'', y, x]" "y \<in> {''admins'', ''shared'', ''shared-draft''}" "key_handlers y hs" .
  note row = list_all_mem [OF k(3) [unfolded key_handlers_def], unfolded prod.case]
  have h: "if y = ''admins'' then h \<notin> set ga_handlers
     else m = ''DELETE'' \<and> h \<in> set shared_writers \<and> h \<notin> set (open_handlers @ shared_readers @ project_handlers)"
    using assms(4) row [of "(m, h)"] row [of "(''GET'', h)"] by (auto split: if_splits)
  show ?thesis
  proof (cases who)
    case Admin
    then show ?thesis by (simp add: authorize_def may_reach_simps)
  next
    case (GlobalAdmin u)
    show ?thesis unfolding GlobalAdmin may_reach_simps using key_matrix(2,3) [OF k(1,2)] h
      by (cases "y = ''admins''") (simp_all only: if_True if_False simp_thms, auto)
  next
    case (ProjectAdmin u p)
    show ?thesis unfolding ProjectAdmin may_reach_simps using key_matrix(1) [OF k(1,2)] h
      by (cases "y = ''admins''") (simp_all only: if_True if_False simp_thms, auto)
  qed
qed

lemma project_handler_lists:
  "''project_detail'' \<in> set project_handlers" "''delete_project'' \<notin> set ga_handlers"
  "list_all (\<lambda>(t, hs). project_template t \<longrightarrow>
     list_all (\<lambda>(m, h). h \<notin> set (open_handlers @ shared_readers @ shared_writers)) hs) (build_router True)"
  by code_simp+

lemma plain_no_percent: "plain_segment x \<Longrightarrow> CHR ''%'' \<notin> set x"
  by (auto simp: plain_segment_def list_all_iff is_lower_def is_digit_def dest!: bspec [of _ _ "CHR ''%''"])

lemma plain_decode: "dispatch_law decode clustered dispatch \<Longrightarrow> plain_segment x \<Longrightarrow> decode x = x"
  using plain_no_percent unfolding dispatch_law_def by blast

lemma project_may_reach:
  assumes "dispatch_law decode clustered dispatch"
    "(t, hs) \<in> set (build_router clustered)" "project_template t" "path_params t path = Some raw"
    "(m, h) \<in> set hs \<or> m = ''HEAD'' \<and> (''GET'', h) \<in> set hs" "ps = map decode raw"
  shows "authorize who m path \<Longrightarrow> may_reach who h ps"
    and "m \<noteq> ''HEAD'' \<Longrightarrow> CHR ''%'' \<notin> set path \<Longrightarrow> list_all (\<lambda>s. s \<notin> {[], ''.'', ''..''}) (tl (segs path)) \<Longrightarrow>
      plain_segment (hd ps) \<Longrightarrow> may_reach who h ps \<Longrightarrow> authorize who m path"
proof -
  from project_route [OF assms(2-4)] obtain x rest raw' where
    p: "segs path = project_segs x rest" "raw = x # raw'"
      "\<forall>(m, h) \<in> set hs. (rest = [] \<longrightarrow> (m, h) \<in> {(''GET'', ''project_detail''), (''DELETE'', ''delete_project'')}) \<and>
       (rest \<noteq> [] \<longrightarrow> (h \<in> set project_handlers \<longleftrightarrow> \<not> closed_area rest))" by blast
  note row = list_all_mem [OF project_handler_lists(3) in_router [OF assms(2)], unfolded prod.case, rule_format, OF assms(3)]
  obtain m' where m': "(m', h) \<in> set hs" "m' = m \<or> m = ''HEAD'' \<and> m' = ''GET''" using assms(5) by blast
  have here: "rest = [] \<Longrightarrow> (m', h) \<in> {(''GET'', ''project_detail''), (''DELETE'', ''delete_project'')}"
    "rest \<noteq> [] \<Longrightarrow> h \<in> set project_handlers \<longleftrightarrow> \<not> closed_area rest" using p(3) m'(1) by fast+
  have only: "h \<in> set ga_handlers \<longleftrightarrow> h \<in> set project_handlers" "h \<notin> set (open_handlers @ shared_readers)"
    using list_all_mem [OF row m'(1)] by simp_all
  have dp: "''delete_project'' \<notin> set project_handlers" using project_handler_lists(2) by simp
  have none: "\<not> closed_area []" by (simp add: closed_area_def)
  have hd: "ps \<noteq> []" "hd ps = decode x" using p(2) assms(6) by auto
  note dec = plain_decode [OF assms(1)]
  note mat = project_matrix [OF p(1)]
  show "authorize who m path \<Longrightarrow> may_reach who h ps"
  proof (cases who)
    case (GlobalAdmin u)
    show "authorize who m path \<Longrightarrow> ?thesis" unfolding GlobalAdmin may_reach_simps mat only(1)
      using here m'(2) project_handler_lists(1) by (cases "rest = []") auto
  next
    case (ProjectAdmin u q)
    show "authorize who m path \<Longrightarrow> ?thesis" unfolding ProjectAdmin may_reach_simps mat
      using here m'(2) project_handler_lists(1) hd dec by (cases "rest = []") auto
  qed (simp add: may_reach_simps)
  assume a: "m \<noteq> ''HEAD''" "CHR ''%'' \<notin> set path" "list_all (\<lambda>s. s \<notin> {[], ''.'', ''..''}) (tl (segs path))"
    "plain_segment (hd ps)" "may_reach who h ps"
  have "CHR ''%'' \<notin> set x"
  proof
    assume "CHR ''%'' \<in> set x"
    then have "CHR ''%'' \<in> set (join_all CHR ''/'' (segs path))" unfolding p(1)
      by (cases rest) auto
    then show False using a(2) by (simp add: segs_def join_split)
  qed
  then have x: "decode x = x" using assms(1) unfolding dispatch_law_def by blast
  have plain: "plain_segment x" using a(4) hd x by simp
  have dots: "list_all (\<lambda>s. s \<notin> {[], ''.'', ''..''}) rest" using a(3) p(1) by simp
  have m: "m' = m" using m'(2) a(1) by blast
  show "authorize who m path" using a(5)
  proof (cases who)
    case (GlobalAdmin u)
    show "may_reach who h ps \<Longrightarrow> ?thesis" unfolding GlobalAdmin may_reach_simps mat only(1)
      using here m plain dots dp none by (cases "rest = []") auto
  next
    case (ProjectAdmin u q)
    show "may_reach who h ps \<Longrightarrow> ?thesis" unfolding ProjectAdmin may_reach_simps mat
      using here m plain only(2) dp none hd x by (cases "rest = []") auto
  qed (simp add: authorize_def)
qed

lemma route_of:
  assumes "dispatch_law decode clustered dispatch" "dispatch m path = Some (h, ps)"
  obtains t hs raw where "(t, hs) \<in> set (build_router clustered)" "path_params t path = Some raw"
    "(m, h) \<in> set hs \<or> m = ''HEAD'' \<and> (''GET'', h) \<in> set hs" "ps = map decode raw"
    "project_template t \<or> t \<in> set key_templates \<or> fixed_template t \<or> t \<in> set other_templates"
proof -
  obtain t hs raw where t: "(t, hs) \<in> set (build_router clustered)"
    "(m, h) \<in> set hs \<or> m = ''HEAD'' \<and> (''GET'', h) \<in> set hs" "path_params t path = Some raw" "ps = map decode raw"
    using assms(1,2) unfolding dispatch_law_def by blast
  have "project_template t \<or> t \<in> set key_templates \<or> fixed_template t \<or> t \<in> set other_templates"
    using list_all_mem [OF table_kinds in_router [OF t(1)]] by simp
  with that t show thesis by blast
qed

lemma authorize_sound:
  assumes "dispatch_law decode clustered dispatch" "dispatch m path = Some (h, ps)"
    "starts_with path ''/api/v1/''" "authorize who m path"
  shows "may_reach who h ps"
  using assms(3,4)
  by (rule_tac route_of [OF assms(1,2)])
    (blast dest: fixed_may_reach(1) key_may_reach project_may_reach(1) [OF assms(1)] other_route(1))

lemma authorize_complete:
  assumes "dispatch_law decode clustered dispatch" "dispatch m path = Some (h, ps)"
    "starts_with path ''/api/v1/''" "may_reach who h ps" "m \<noteq> ''HEAD''" "CHR ''%'' \<notin> set path"
    "list_all (\<lambda>s. s \<notin> {[], ''.'', ''..''}) (tl (segs path))" "h \<in> set project_handlers \<longrightarrow> plain_segment (hd ps)"
  shows "authorize who m path"
proof -
  obtain t hs raw where t: "(t, hs) \<in> set (build_router clustered)" "path_params t path = Some raw"
    "(m, h) \<in> set hs \<or> m = ''HEAD'' \<and> (''GET'', h) \<in> set hs" "ps = map decode raw"
    "project_template t \<or> t \<in> set key_templates \<or> fixed_template t \<or> t \<in> set other_templates"
    using route_of [OF assms(1,2)] .
  show ?thesis
  proof (cases "project_template t")
    case True
    have "who = Admin \<or> h \<in> set project_handlers"
      using assms(4) list_all_mem [OF list_all_mem [OF project_handler_lists(3) in_router [OF t(1)],
          unfolded prod.case, rule_format, OF True], of "(m, h)"] t(3) assms(5)
      by (cases who) (simp_all add: may_reach_simps)
    then show ?thesis
      using project_may_reach(2) [OF assms(1) t(1) True t(2-4) assms(5-7)] assms(4,8) by (auto simp: authorize_def)
  next
    case False
    then show ?thesis
      using t(5) fixed_may_reach(2) [OF t(1) _ t(2,3) assms(5,4)] key_may_reach [OF t(1) _ t(2,3)] assms(4)
        other_route(1) [OF t(1) _ t(2)] assms(3) by blast
  qed
qed

lemma open_routes:
  assumes "dispatch_law decode clustered dispatch" "dispatch m path = Some (h, ps)"
    "exempt_path path \<or> \<not> starts_with path ''/api/v1/''"
  shows "h \<in> set public_handlers \<or> starts_with path ''/v1/'' \<and> \<not> exempt_path path"
proof -
  obtain t hs raw where t: "(t, hs) \<in> set (build_router clustered)" "path_params t path = Some raw"
    "(m, h) \<in> set hs \<or> m = ''HEAD'' \<and> (''GET'', h) \<in> set hs" "ps = map decode raw"
    "project_template t \<or> t \<in> set key_templates \<or> fixed_template t \<or> t \<in> set other_templates"
    using route_of [OF assms(1,2)] .
  have project: False if "project_template t"
  proof -
    from fit_project [OF that t(2)] obtain x rest where "segs path = project_segs x rest" by blast
    then show False using api_path assms(3) by auto
  qed
  have key: False if "t \<in> set key_templates"
  proof -
    from key_route [OF t(1) that t(2)] obtain y x where
      "segs path = [[], ''api'', ''v1'', y, x]" "y \<in> {''admins'', ''shared'', ''shared-draft''}" .
    then show False using api_path assms(3) by auto
  qed
  have fixed: "h \<in> set public_handlers" if "fixed_template t"
  proof -
    have "list_all (\<lambda>(m, h). h \<in> set public_handlers) hs"
      using list_all_mem [OF table_public in_router [OF t(1)]] that assms(3) fixed_route(1) [OF t(1) that t(2)] by simp blast
    then show ?thesis using t(3) by (auto simp: list_all_iff)
  qed
  have other: "h \<in> set public_handlers \<or> starts_with path ''/v1/'' \<and> \<not> exempt_path path" if "t \<in> set other_templates"
    using other_route(2,3) [OF t(1) that t(2)] t(3) by (auto simp: public_handlers_def)
  show ?thesis using t(5) project key fixed other by blast
qed

text \<open>
  C31: Authorization is the matrix of the design, route by route. What passes the middleware as a principal
  reaches only handlers the matrix gives to it (a project administrator only those of the own project, with the
  project the handler itself is given); what passes without one reaches a public handler, or the data plane
  with an access token, a session or an explicit request to reveal, whose handler checks the session itself.
  Conversely a live session whose principal may reach the handler passes, when the path has no percent sign
  and no empty or dotted segment.
\<close>

theorem authorization_is_the_matrix:
  assumes law: "dispatch_law decode clustered dispatch"
    and disp: "dispatch (rq_method rq) (rq_path rq) = Some (h, ps)"
  shows "(\<forall>who. auth_middleware sv rq = Pass (Some who) \<longrightarrow>
        resolve_principal sv (rq_auth rq) = Some who \<and> may_reach who h ps) \<and>
    (auth_middleware sv rq = Pass None \<longrightarrow> h \<in> set public_handlers \<or>
        starts_with (rq_path rq) ''/v1/'' \<and>
          (reveal_render rq \<or> session_allowed sv rq \<or> data_plane_authorized sv rq)) \<and>
    (\<forall>who. resolve_principal sv (rq_auth rq) = Some who \<longrightarrow> may_reach who h ps \<longrightarrow>
        starts_with (rq_path rq) ''/api/v1/'' \<longrightarrow> \<not> exempt_path (rq_path rq) \<longrightarrow>
        rq_method rq \<noteq> ''HEAD'' \<longrightarrow> CHR ''%'' \<notin> set (rq_path rq) \<longrightarrow>
        list_all (\<lambda>s. s \<notin> {[], ''.'', ''..''}) (tl (segs (rq_path rq))) \<longrightarrow>
        (h \<in> set project_handlers \<longrightarrow> plain_segment (hd ps)) \<longrightarrow>
        auth_middleware sv rq = Pass (Some who))"
proof (intro conjI allI impI)
  fix who
  assume pass: "auth_middleware sv rq = Pass (Some who)"
  then have "starts_with (rq_path rq) ''/api/v1/''" "authorize who (rq_method rq) (rq_path rq)"
    "resolve_principal sv (rq_auth rq) = Some who"
    by (auto simp: auth_middleware_def split: if_splits option.splits)
  then show "resolve_principal sv (rq_auth rq) = Some who" "may_reach who h ps"
    using authorize_sound [OF law disp] by blast+
next
  assume pass: "auth_middleware sv rq = Pass None"
  then have "exempt_path (rq_path rq) \<or> \<not> starts_with (rq_path rq) ''/api/v1/''"
    "\<not> exempt_path (rq_path rq) \<Longrightarrow> starts_with (rq_path rq) ''/v1/'' \<Longrightarrow>
       reveal_render rq \<or> session_allowed sv rq \<or> data_plane_authorized sv rq"
    by (auto simp: auth_middleware_def split: if_splits option.splits)
  then show "h \<in> set public_handlers \<or> starts_with (rq_path rq) ''/v1/'' \<and>
      (reveal_render rq \<or> session_allowed sv rq \<or> data_plane_authorized sv rq)"
    using open_routes [OF law disp] by blast
next
  fix who
  assume "resolve_principal sv (rq_auth rq) = Some who" "may_reach who h ps"
    "starts_with (rq_path rq) ''/api/v1/''" "\<not> exempt_path (rq_path rq)" "rq_method rq \<noteq> ''HEAD''"
    "CHR ''%'' \<notin> set (rq_path rq)" "list_all (\<lambda>s. s \<notin> {[], ''.'', ''..''}) (tl (segs (rq_path rq)))"
    "h \<in> set project_handlers \<longrightarrow> plain_segment (hd ps)"
  then show "auth_middleware sv rq = Pass (Some who)"
    using authorize_complete [OF law disp] by (simp add: auth_middleware_def)
qed

text \<open>A project administrator signed in from one device, who publishes in the own project.\<close>

definition sample_session :: admin_session where
  "sample_session = \<lparr>as_token_hash = ''pa.bob.s1.x'', as_issued_at = 0, as_expires_at = Some 100,
     as_device_id = ''s1'', as_principal = ProjectAdmin ''bob'' ''shop''\<rparr>"

definition sample_server :: server where
  "sample_server = \<lparr>sv_sm = sm_new (bm_insert (pa_session_key_with ''bob'' ''s1'') (SSession sample_session) bm_empty),
     sv_now = 50, sv_hash = (\<lambda>t. t), sv_dev_token = None\<rparr>"

definition sample_request :: request where
  "sample_request = \<lparr>rq_method = ''POST'', rq_path = ''/api/v1/projects/shop/branches/dev/publish'', rq_query = None,
     rq_auth = Some ''Bearer pa.bob.s1.x''\<rparr>"

definition sample_dispatch :: "string \<Rightarrow> string \<Rightarrow> (handler \<times> string list) option" where
  "sample_dispatch m path = (if m = ''POST'' then
     map_option (\<lambda>ps. (''publish'', ps)) (path_params ''/api/v1/projects/{p}/branches/{b}/publish'' path) else None)"

lemma sample_dispatch_law: "dispatch_law (\<lambda>x. x) False sample_dispatch"
proof -
  have "(''/api/v1/projects/{p}/branches/{b}/publish'', [(''POST'', ''publish'')]) \<in> set (build_router False)"
    by code_simp
  then show ?thesis unfolding dispatch_law_def sample_dispatch_def
    by (auto split: if_splits) (use list.set_intros(1) in fast)
qed

theorem authorization_is_the_matrix_witness:
  "sample_dispatch (rq_method sample_request) (rq_path sample_request) = Some (''publish'', [''shop'', ''dev'']) \<and>
   auth_middleware sample_server sample_request = Pass (Some (ProjectAdmin ''bob'' ''shop'')) \<and>
   may_reach (ProjectAdmin ''bob'' ''shop'') ''publish'' [''shop'', ''dev'']"
proof -
  have d: "sample_dispatch (rq_method sample_request) (rq_path sample_request) = Some (''publish'', [''shop'', ''dev''])"
    by code_simp
  have p: "auth_middleware sample_server sample_request = Pass (Some (ProjectAdmin ''bob'' ''shop''))"
    by code_simp
  from authorization_is_the_matrix [OF sample_dispatch_law d] p d show ?thesis by blast
qed

end
