(* ===== verification/Api_Data.thy ===== *)
theory Api_Data
  imports Api_Auth
begin

text \<open>
  The answers of the data plane (dsh-api \<open>lib.rs\<close> and dsh-render): the errors as status codes, the identity of
  a client from its headers, the policy on secrets, the plain form of values, the rendered formats, and the
  three handlers that read a configuration. Decryption and the text forms of JSON, YAML and TOML are
  parameters. A handler answers its reply and the audit entries it has written.
\<close>

section \<open>Replies\<close>

text \<open>An error reply is its status and code; the messages are left out.\<close>

datatype reject = Reject nat string

definition status_of :: "error_kind \<Rightarrow> nat" where
  "status_of k = (case k of
     NotFound \<Rightarrow> 404
   | Conflict \<Rightarrow> 409 | NoDraft \<Rightarrow> 409 | SessionInUse \<Rightarrow> 409
   | SessionExpired \<Rightarrow> 401
   | Forbidden \<Rightarrow> 403
   | Validation \<Rightarrow> 422 | PublishBlocked \<Rightarrow> 422 | CycleRef \<Rightarrow> 422
   | LimitExceeded \<Rightarrow> 429
   | LeaderRedirect \<Rightarrow> 428
   | _ \<Rightarrow> 500)"

definition api_error :: "error \<Rightarrow> reject" where
  "api_error e = Reject (status_of (e_kind e)) (error_code (e_kind e))"

definition map_error :: "('e \<Rightarrow> 'f) \<Rightarrow> 'e + 'a \<Rightarrow> 'f + 'a" where
  "map_error f r = (case r of Inl e \<Rightarrow> Inl (f e) | Inr x \<Rightarrow> Inr x)"

text \<open>
  A linear read asks the Raft node first; \<open>gate_raft\<close> is what the node answers (\<open>None\<close>: the server runs
  without one).
\<close>

datatype read_index = Linearizable | Forward_To "string option" | Read_Index_Failed

record read_gate =
  gate_poisoned :: bool
  gate_linear :: bool
  gate_raft :: "read_index option"

definition linearized_read :: "read_gate \<Rightarrow> unit res" where
  "linearized_read g =
     (if gate_poisoned g then Inl (err Internal)
      else if \<not> gate_linear g then Inr ()
      else (case gate_raft g of
          None \<Rightarrow> Inr ()
        | Some Linearizable \<Rightarrow> Inr ()
        | Some (Forward_To (Some hint)) \<Rightarrow> Inl (err LeaderRedirect)
        | Some _ \<Rightarrow> Inl (err Internal)))"

definition principal_op :: "principal \<Rightarrow> string" where
  "principal_op p = (case p of
     Admin \<Rightarrow> ''admin''
   | GlobalAdmin u \<Rightarrow> ''ga:'' @ u
   | ProjectAdmin u pid \<Rightarrow> ''pa:'' @ u)"

text \<open>What the audit log is asked to append; writing it is best effort.\<close>

definition audit_cmd ::
  "int \<Rightarrow> string \<Rightarrow> string option \<Rightarrow> string option \<Rightarrow> nat option \<Rightarrow> string option \<Rightarrow> string \<Rightarrow> string \<Rightarrow> command" where
  "audit_cmd now action pid branch version request_id detail operator =
     AuditAppend \<lparr>au_seq = 0, au_ts = now, au_operator = (if operator = [] then ''admin'' else operator),
       au_action = action, au_project = pid, au_branch = branch, au_version = version,
       au_request_id = request_id, au_detail = detail\<rparr>"

section \<open>The client of a request\<close>

definition is_space :: "char \<Rightarrow> bool" where
  "is_space c \<longleftrightarrow> c \<in> {CHR '' '', CHR 0x09, CHR 0x0A, CHR 0x0B, CHR 0x0C, CHR 0x0D}"

definition trim :: "string \<Rightarrow> string" where
  "trim s = rev (dropWhile is_space (rev (dropWhile is_space s)))"

definition add_label :: "string \<Rightarrow> (string, string) bmap \<Rightarrow> (string, string) bmap" where
  "add_label part ls =
     (let pair = trim part in
      if pair = [] then ls
      else (case split_once CHR ''='' pair of
          None \<Rightarrow> ls
        | Some (k, v) \<Rightarrow> if trim k = [] then ls else bm_insert (trim k) (trim v) ls))"

text \<open>The headers \<open>X-Dsh-Instance\<close> and \<open>X-Dsh-Labels\<close> and the address of the peer.\<close>

definition client_ctx_from_headers :: "string option \<Rightarrow> string option \<Rightarrow> ip_addr option \<Rightarrow> client_ctx" where
  "client_ctx_from_headers instance_header labels_header peer =
     \<lparr>instance_id = trim (case instance_header of None \<Rightarrow> [] | Some v \<Rightarrow> v),
      labels = (case labels_header of None \<Rightarrow> bm_empty
        | Some raw \<Rightarrow> fold add_label (split_all CHR '','' raw) bm_empty),
      client_ip = peer\<rparr>"

section \<open>Values\<close>

type_synonym decrypt = "(ciphertext \<Rightarrow> string option) option"

definition reveal_secret :: "decrypt \<Rightarrow> bool \<Rightarrow> val \<Rightarrow> val" where
  "reveal_secret D reveal v = (case v of
     VSecret ct \<Rightarrow>
       if reveal then (case Option.bind D (\<lambda>d. d ct) of Some p \<Rightarrow> VString p | None \<Rightarrow> VString ''***'')
       else VString ''***''
   | _ \<Rightarrow> v)"

definition apply_secret_policy :: "decrypt \<Rightarrow> bool \<Rightarrow> snapshot \<Rightarrow> snapshot" where
  "apply_secret_policy D reveal groups = bm_map (\<lambda>g items. bm_map (\<lambda>k v. reveal_secret D reveal v) items) groups"

datatype json = JNull | JBool bool | JInt int | JFloat f64 | JStr string | JArr "json list" | JObj "(string \<times> json) list"

text \<open>\<open>serde\<close>: \<open>from_str\<close>, \<open>to_string\<close>, \<open>to_string_pretty\<close> of \<open>serde_json\<close>, and the YAML and TOML writers.\<close>

record serde =
  json_parse :: "string \<Rightarrow> json option"
  json_text :: "json \<Rightarrow> string"
  json_pretty :: "json \<Rightarrow> string option"
  yaml_text :: "json \<Rightarrow> string option"
  toml_text :: "json \<Rightarrow> string option"

definition f64_finite :: "f64 \<Rightarrow> bool" where
  "f64_finite x \<longleftrightarrow> f64_abs x < 2047 * 2 ^ 52"

definition plain_value :: "serde \<Rightarrow> val \<Rightarrow> json" where
  "plain_value T v = (case v of
     VString s \<Rightarrow> JStr s
   | VInt i \<Rightarrow> JInt i
   | VFloat f \<Rightarrow> if f64_finite f then JFloat f else JNull
   | VBool b \<Rightarrow> JBool b
   | VJson s \<Rightarrow> (case json_parse T s of Some j \<Rightarrow> j | None \<Rightarrow> JStr s)
   | VArray items \<Rightarrow> JArr (map JStr items)
   | VSecret ct \<Rightarrow> JStr ''***'')"

type_synonym plain_rows = "(string \<times> (string \<times> json) list) list"

definition plain_tree :: "serde \<Rightarrow> snapshot \<Rightarrow> plain_rows" where
  "plain_tree T groups =
     map (\<lambda>(g, items). (g, map (\<lambda>(k, v). (k, plain_value T v)) (bm_entries items))) (bm_entries groups)"

definition plain_groups :: "serde \<Rightarrow> snapshot \<Rightarrow> json" where
  "plain_groups T groups = JObj (map (\<lambda>(g, items). (g, JObj items)) (plain_tree T groups))"

section \<open>Rendering\<close>

datatype format = Yaml | Toml | Json | Env

definition format_parse :: "string \<Rightarrow> format res" where
  "format_parse s =
     (if s = ''yaml'' then Inr Yaml else if s = ''toml'' then Inr Toml
      else if s = ''json'' then Inr Json else if s = ''env'' then Inr Env
      else Inl (err Validation))"

definition to_uppercase :: "string \<Rightarrow> string" where
  "to_uppercase s = map (\<lambda>c. if is_lower c then char_of ((of_char c :: nat) - 32) else c) s"

definition replace_char :: "char \<Rightarrow> string \<Rightarrow> string \<Rightarrow> string" where
  "replace_char c r s = concat (map (\<lambda>x. if x = c then r else [x]) s)"

definition needs_quotes :: "string \<Rightarrow> bool" where
  "needs_quotes s \<longleftrightarrow>
     s = [] \<or> list_ex (\<lambda>c. c \<in> {CHR '' '', CHR ''#'', CHR 0x22, CHR 0x5C, CHR 0x0A, CHR 0x0D}) s"

definition env_value :: "serde \<Rightarrow> json \<Rightarrow> string" where
  "env_value T v = (case v of
     JStr s \<Rightarrow>
       if needs_quotes s
       then [CHR 0x22] @ replace_char (CHR 0x22) [CHR 0x5C, CHR 0x22] (replace_char (CHR 0x5C) [CHR 0x5C, CHR 0x5C] s) @ [CHR 0x22]
       else s
   | JArr items \<Rightarrow> join_all CHR '','' (map (\<lambda>x. case x of JStr s \<Rightarrow> s | _ \<Rightarrow> []) items)
   | other \<Rightarrow> json_text T other)"

definition render_env :: "serde \<Rightarrow> plain_rows \<Rightarrow> string" where
  "render_env T tree =
     concat (map (\<lambda>(g, items). concat (map (\<lambda>(k, v). to_uppercase k @ ''='' @ env_value T v @ [CHR 0x0A]) items)) tree)"

definition tree_json :: "plain_rows \<Rightarrow> json" where
  "tree_json t = JObj (map (\<lambda>(g, items). (g, JObj items)) t)"

definition render_text :: "serde \<Rightarrow> snapshot \<Rightarrow> format \<Rightarrow> string res" where
  "render_text T groups f =
     (let t = plain_tree T groups in
      case f of
        Yaml \<Rightarrow> ok_or (err Validation) (yaml_text T (tree_json t))
      | Json \<Rightarrow> ok_or (err Validation) (json_pretty T (tree_json t))
      | Toml \<Rightarrow> ok_or (err Validation) (toml_text T (tree_json t))
      | Env \<Rightarrow> Inr (render_env T t))"

definition mime_of :: "format \<Rightarrow> string" where
  "mime_of f = (case f of Yaml \<Rightarrow> ''application/yaml'' | Toml \<Rightarrow> ''application/toml''
     | Json \<Rightarrow> ''application/json'' | Env \<Rightarrow> ''text/plain'')"

section \<open>Handlers\<close>

record config_resp =
  cr_project :: string
  cr_branch :: string
  cr_version :: nat
  cr_resolved_version :: nat
  cr_structure_version :: nat
  cr_groups :: json
  cr_gray :: bool

text \<open>The reply of the two handlers that answer a configuration, from what the machine answered.\<close>

definition snapshot_reply :: "decrypt \<Rightarrow> serde \<Rightarrow> config_snapshot res \<Rightarrow> reject + config_resp" where
  "snapshot_reply D T read = map_error api_error (bindE read (\<lambda>snap.
     Inr \<lparr>cr_project = cs_project snap, cr_branch = cs_branch snap, cr_version = cs_version snap,
       cr_resolved_version = cs_resolved_version snap, cr_structure_version = cs_structure_version snap,
       cr_groups = plain_groups T (apply_secret_policy D False (cs_groups snap)), cr_gray = cs_gray snap\<rparr>))"

definition snapshot_handler ::
  "read_gate \<Rightarrow> decrypt \<Rightarrow> serde \<Rightarrow> sm \<Rightarrow> string option \<Rightarrow> string option \<Rightarrow> ip_addr option \<Rightarrow> string \<Rightarrow> string \<Rightarrow>
     reject + config_resp" where
  "snapshot_handler G D T s instance_header labels_header peer pid branch =
     (case linearized_read G of
        Inl e \<Rightarrow> Inl (api_error e)
      | Inr u \<Rightarrow> snapshot_reply D T
          (get_config_resolved s pid branch 0 (client_ctx_from_headers instance_header labels_header peer)))"

definition config_reply ::
  "decrypt \<Rightarrow> serde \<Rightarrow> int \<Rightarrow> principal \<Rightarrow> string \<Rightarrow> string \<Rightarrow> bool \<Rightarrow> config_snapshot res \<Rightarrow>
     (reject + config_resp) \<times> command list" where
  "config_reply D T now who pid branch reveal read = (case read of
     Inl e \<Rightarrow> (Inl (api_error e), [])
   | Inr snap \<Rightarrow>
       (Inr \<lparr>cr_project = cs_project snap, cr_branch = cs_branch snap, cr_version = cs_version snap,
          cr_resolved_version = cs_version snap, cr_structure_version = cs_structure_version snap,
          cr_groups = plain_groups T (apply_secret_policy D reveal (cs_groups snap)), cr_gray = False\<rparr>,
        if reveal then [audit_cmd now ''config_reveal'' (Some pid) (Some branch) (Some (cs_version snap)) None
            (json_text T (JObj [])) (principal_op who)] else []))"

definition admin_config ::
  "read_gate \<Rightarrow> decrypt \<Rightarrow> serde \<Rightarrow> sm \<Rightarrow> int \<Rightarrow> principal \<Rightarrow> string \<Rightarrow> string \<Rightarrow> bool \<Rightarrow>
     (reject + config_resp) \<times> command list" where
  "admin_config G D T s now who pid branch reveal =
     (case linearized_read G of
        Inl e \<Rightarrow> (Inl (api_error e), [])
      | Inr u \<Rightarrow> config_reply D T now who pid branch reveal (get_config s pid branch 0))"

record render_query =
  q_format :: string
  q_version :: nat
  q_reveal :: bool

definition session_ok :: "principal option \<Rightarrow> string \<Rightarrow> bool" where
  "session_ok who pid = (case who of
     Some (ProjectAdmin u p) \<Rightarrow> p = pid
   | Some _ \<Rightarrow> True
   | None \<Rightarrow> False)"

definition render_reply ::
  "decrypt \<Rightarrow> serde \<Rightarrow> server \<Rightarrow> request \<Rightarrow> string \<Rightarrow> string \<Rightarrow> render_query \<Rightarrow> config_snapshot res \<Rightarrow>
     (reject + string \<times> string) \<times> command list" where
  "render_reply D T sv rq pid branch q read =
     (let who = resolve_principal sv (rq_auth rq); data_ok = data_plane_authorized sv rq in
      if q_reveal q \<and> \<not> data_ok \<and> who = None then (Inl (Reject 401 ''ERR_SESSION_EXPIRED''), [])
      else if q_reveal q \<and> \<not> data_ok \<and> \<not> session_ok who pid then (Inl (Reject 403 ''ERR_FORBIDDEN''), [])
      else
        (let reveal = (q_reveal q \<or> data_ok) in
         case read of
           Inl e \<Rightarrow> (Inl (api_error e), [])
         | Inr snap \<Rightarrow>
             (map_error api_error (bindE (format_parse (q_format q)) (\<lambda>f.
                bindE (render_text T (apply_secret_policy D reveal (cs_groups snap)) f) (\<lambda>body. Inr (mime_of f, body)))),
              if reveal then [audit_cmd (sv_now sv) ''config_reveal'' (Some pid) (Some branch) (Some (cs_version snap)) None
                  (json_text T (JObj [(''format'', JStr (q_format q)),
                     (''via'', JStr (if data_ok then ''data-plane'' else ''session''))]))
                  (case who of Some p \<Rightarrow> principal_op p | None \<Rightarrow> data_plane_operator sv rq)]
              else [])))"

definition render_config ::
  "read_gate \<Rightarrow> decrypt \<Rightarrow> serde \<Rightarrow> server \<Rightarrow> request \<Rightarrow> string \<Rightarrow> string \<Rightarrow> render_query \<Rightarrow>
     (reject + string \<times> string) \<times> command list" where
  "render_config G D T sv rq pid branch q =
     (case linearized_read G of
        Inl e \<Rightarrow> (Inl (Reject 503 ''ERR_LINEAR_READ''), [])
      | Inr u \<Rightarrow> render_reply D T sv rq pid branch q (get_config (sv_sm sv) pid branch (q_version q)))"

section \<open>What a reply tells of the secrets\<close>

text \<open>Two answers of the machine that differ at most in what their secrets hold.\<close>

definition without_secrets :: "snapshot \<Rightarrow> val option tree" where
  "without_secrets groups = bm_map (\<lambda>g items. bm_map (\<lambda>k v. case v of VSecret ct \<Rightarrow> None | _ \<Rightarrow> Some v) items) groups"

definition twin_reads :: "config_snapshot res \<Rightarrow> config_snapshot res \<Rightarrow> bool" where
  "twin_reads r r' \<longleftrightarrow> (case (r, r') of
     (Inl e, Inl e') \<Rightarrow> e = e'
   | (Inr snap, Inr snap') \<Rightarrow> snap' = snap\<lparr>cs_groups := cs_groups snap'\<rparr> \<and>
       without_secrets (cs_groups snap) = without_secrets (cs_groups snap')
   | _ \<Rightarrow> False)"

text \<open>
  Who is entitled to the secrets of a project: a session of a super or global administrator or of an
  administrator of the project, the development token, and an access token of the project that is not revoked.
\<close>

definition entitled :: "server \<Rightarrow> request \<Rightarrow> string \<Rightarrow> bool" where
  "entitled sv rq pid \<longleftrightarrow> session_ok (resolve_principal sv (rq_auth rq)) pid \<or>
     (case extract_data_token rq of
        None \<Rightarrow> False
      | Some raw \<Rightarrow> sv_dev_token sv = Some raw \<or>
          (case found (get_data_token (sv_sm sv) (sv_hash sv raw)) of
             Some rec \<Rightarrow> \<not> tk_revoked rec \<and> tk_project rec = pid
           | None \<Rightarrow> False))"

lemma bm_map_map: "bm_map f (bm_map g m) = bm_map (\<lambda>k v. f k (g k v)) m"
  by transfer (auto simp: case_prod_beta)

lemma policy_hides:
  assumes "without_secrets g = without_secrets h"
  shows "apply_secret_policy D False g = apply_secret_policy D' False h"
proof -
  have "apply_secret_policy D False g =
      bm_map (\<lambda>_ items. bm_map (\<lambda>_ v. case v of None \<Rightarrow> VString ''***'' | Some v \<Rightarrow> v) items) (without_secrets g)" for D g
    unfolding apply_secret_policy_def without_secrets_def bm_map_map reveal_secret_def
    by (intro arg_cong2 [where f = bm_map] refl ext) (simp split: val.split)
  then show ?thesis using assms by metis
qed

lemma twin_cases:
  assumes "twin_reads r r'"
  obtains e where "r = Inl e" "r' = Inl e"
  | snap g where "r = Inr snap" "r' = Inr (snap\<lparr>cs_groups := g\<rparr>)" "without_secrets (cs_groups snap) = without_secrets g"
proof (cases r)
  case (Inl e)
  then show thesis using assms that(1) by (cases r') (simp_all add: twin_reads_def)
next
  case (Inr snap)
  then obtain snap' where s: "r' = Inr snap'" "snap' = snap\<lparr>cs_groups := cs_groups snap'\<rparr>"
    "without_secrets (cs_groups snap) = without_secrets (cs_groups snap')"
    using assms by (cases r') (simp_all add: twin_reads_def)
  then show thesis using that(2) Inr by metis
qed

lemma config_template:
  assumes "dispatch_law decode clustered dispatch" "dispatch m path = Some (''render_config'', [pid, branch])"
    "data_plane_project_segment path = Some p"
  shows "p = pid"
proof -
  have table: "list_all (\<lambda>(t, hs). list_all (\<lambda>(m, h). h = ''render_config'' \<longrightarrow>
      segs t = [[], ''v1'', ''projects'', ''{p}'', ''branches'', ''{b}'', ''config'']) hs) (build_router True)"
    by code_simp
  obtain t hs raw where t: "(t, hs) \<in> set (build_router clustered)" "path_params t path = Some raw"
    "(m, ''render_config'') \<in> set hs \<or> m = ''HEAD'' \<and> (''GET'', ''render_config'') \<in> set hs" "[pid, branch] = map decode raw"
    using route_of [OF assms(1,2)] by metis
  have "segs t = [[], ''v1'', ''projects'', ''{p}'', ''branches'', ''{b}'', ''config'']"
    using list_all_mem [OF table in_router [OF t(1)]] t(3) by (auto simp: list_all_iff)
  then obtain x b where x: "segs path = [[], ''v1'', ''projects'', x, ''branches'', b, ''config'']" "raw = [x, b]"
    using t(2) by (auto simp: path_params_def fit_literal fit_param fit_Nil)
  define rest where "rest = [x, ''branches'', b, ''config'']"
  have below: "segs path = segs ''/v1/projects'' @ rest" using x(1) by (simp add: segs_def rest_def)
  have "list_all slash_free rest" using segs_slash_free_all [of _ path] x(1) by (auto simp: list_all_iff rest_def)
  then have "hd (split_all CHR ''/'' (join_all CHR ''/'' rest)) = x"
    using split_join [of rest] by (simp add: segs_def rest_def)
  moreover have "strip_prefix ''/v1/projects/'' path = Some (join_all CHR ''/'' rest)"
    using strip_below [OF below] by (simp add: rest_def)
  ultimately have "p = x \<and> plain_segment x"
    using assms(3) by (simp add: data_plane_project_segment_def segment_after_def Let_def split: if_splits)
  then show ?thesis using plain_decode [OF assms(1)] t(4) x(2) by simp
qed

lemma authorized_is_entitled:
  assumes "dispatch_law decode clustered dispatch"
    "dispatch m (rq_path rq) = Some (''render_config'', [pid, branch])" "data_plane_authorized sv rq"
  shows "entitled sv rq pid"
  using assms(3) config_template [OF assms(1,2)]
  by (auto simp: data_plane_authorized_def entitled_def split: option.splits if_splits)

text \<open>
  C32: Secrets are for the entitled. The reply of the snapshot handler never depends on what a secret holds or
  on the keys of the node. The rendered document depends on it only for a requester who is entitled to the
  project of the path, through whatever route the framework found; and whenever it does depend on it, the
  handler has written an audit entry that names the project, the branch and the version.
\<close>

theorem secrets_only_to_the_entitled:
  assumes law: "dispatch_law decode clustered dispatch"
    and disp: "dispatch (rq_method rq) (rq_path rq) = Some (''render_config'', [pid, branch])"
    and twin: "twin_reads read read'"
  shows "snapshot_reply D T read = snapshot_reply D' T read' \<and>
    (\<not> entitled sv rq pid \<longrightarrow>
       render_reply D T sv rq pid branch q read = render_reply D' T sv rq pid branch q read') \<and>
    (render_reply D T sv rq pid branch q read \<noteq> render_reply D' T sv rq pid branch q read' \<longrightarrow>
       (\<exists>snap entry. read = Inr snap \<and> snd (render_reply D T sv rq pid branch q read) = [AuditAppend entry] \<and>
          au_action entry = ''config_reveal'' \<and> au_project entry = Some pid \<and> au_branch entry = Some branch \<and>
          au_version entry = Some (cs_version snap) \<and> au_operator entry \<noteq> []))"
  using twin
proof (cases rule: twin_cases)
  case (2 snap g)
  note hides = policy_hides [OF 2(3), of D D']
  have same: "render_reply D T sv rq pid branch q read = render_reply D' T sv rq pid branch q read'"
    if "\<not> (q_reveal q \<or> data_plane_authorized sv rq)"
    using that hides by (simp add: render_reply_def 2)
  have rejected: "render_reply D T sv rq pid branch q read = render_reply D' T sv rq pid branch q read'"
    if "q_reveal q" "\<not> data_plane_authorized sv rq" "\<not> session_ok (resolve_principal sv (rq_auth rq)) pid"
    using that by (simp add: render_reply_def Let_def)
  show ?thesis
  proof (intro conjI impI)
    show "snapshot_reply D T read = snapshot_reply D' T read'"
      using hides by (simp add: snapshot_reply_def 2)
    show "render_reply D T sv rq pid branch q read = render_reply D' T sv rq pid branch q read'" if "\<not> entitled sv rq pid"
    proof (cases "q_reveal q")
      case True
      have "\<not> data_plane_authorized sv rq" "\<not> session_ok (resolve_principal sv (rq_auth rq)) pid"
        using that authorized_is_entitled [OF law disp] by (auto simp: entitled_def)
      with True show ?thesis by (intro rejected)
    next
      case False
      with that authorized_is_entitled [OF law disp] show ?thesis by (intro same) auto
    qed
    show "\<exists>snap entry. read = Inr snap \<and> snd (render_reply D T sv rq pid branch q read) = [AuditAppend entry] \<and>
        au_action entry = ''config_reveal'' \<and> au_project entry = Some pid \<and> au_branch entry = Some branch \<and>
        au_version entry = Some (cs_version snap) \<and> au_operator entry \<noteq> []"
      if "render_reply D T sv rq pid branch q read \<noteq> render_reply D' T sv rq pid branch q read'"
    proof -
      have "q_reveal q \<or> data_plane_authorized sv rq"
        "\<not> (q_reveal q \<and> \<not> data_plane_authorized sv rq \<and> \<not> session_ok (resolve_principal sv (rq_auth rq)) pid)"
        using that same rejected by blast+
      moreover have "session_ok (resolve_principal sv (rq_auth rq)) pid \<Longrightarrow> resolve_principal sv (rq_auth rq) \<noteq> None"
        by (auto simp: session_ok_def split: option.splits)
      ultimately show ?thesis by (auto simp: render_reply_def 2(1) audit_cmd_def Let_def)
    qed
  qed
qed (auto simp: snapshot_reply_def render_reply_def Let_def)

text \<open>A secret, the same with another content, and a requester without a token.\<close>

definition sample_secret :: "string \<Rightarrow> config_snapshot" where
  "sample_secret ct = \<lparr>cs_project = ''shop'', cs_branch = ''dev'', cs_version = 1, cs_resolved_version = 1,
     cs_structure_version = 1, cs_groups = tree_insert ''db'' ''password''
       (VSecret \<lparr>ct_enc = ''aes'', ct_v = 1, ct_dek_v = 1, ct_nonce = [], ct_ct = ct, ct_edek = [], ct_edek_nonce = []\<rparr>) bm_empty,
     cs_gray = False\<rparr>"

definition sample_serde :: serde where
  "sample_serde = \<lparr>json_parse = (\<lambda>s. None), json_text = (\<lambda>j. []), json_pretty = (\<lambda>j. None),
     yaml_text = (\<lambda>j. None), toml_text = (\<lambda>j. None)\<rparr>"

definition render_request :: request where
  "render_request = \<lparr>rq_method = ''GET'', rq_path = ''/v1/projects/shop/branches/dev/config'', rq_query = None, rq_auth = None\<rparr>"

definition render_dispatch :: "string \<Rightarrow> string \<Rightarrow> (handler \<times> string list) option" where
  "render_dispatch m path = (if m = ''GET'' then
     map_option (\<lambda>ps. (''render_config'', ps)) (path_params ''/v1/projects/{p}/branches/{b}/config'' path) else None)"

definition sample_keys :: decrypt where
  "sample_keys = Some (\<lambda>ct. Some (ct_ct ct))"

definition sample_env :: render_query where
  "sample_env = \<lparr>q_format = ''env'', q_version = 0, q_reveal = False\<rparr>"

lemma render_dispatch_law: "dispatch_law (\<lambda>x. x) False render_dispatch"
proof -
  have "(''/v1/projects/{p}/branches/{b}/config'', [(''GET'', ''render_config'')]) \<in> set (build_router False)"
    by code_simp
  then show ?thesis unfolding dispatch_law_def render_dispatch_def
    by (auto split: if_splits) (use list.set_intros(1) in fast)
qed

theorem secrets_only_to_the_entitled_witness:
  "render_reply sample_keys sample_serde sample_server render_request ''shop'' ''dev'' sample_env (Inr (sample_secret ''hunter2'')) =
   render_reply None sample_serde sample_server render_request ''shop'' ''dev'' sample_env (Inr (sample_secret ''other''))"
proof -
  have d: "render_dispatch (rq_method render_request) (rq_path render_request) = Some (''render_config'', [''shop'', ''dev''])"
    by code_simp
  have t: "twin_reads (Inr (sample_secret ''hunter2'')) (Inr (sample_secret ''other''))"
    by code_simp
  have e: "\<not> entitled sample_server render_request ''shop''"
    by code_simp
  from secrets_only_to_the_entitled [OF render_dispatch_law d t] e show ?thesis by blast
qed

end
