(* ===== verification/Publish_Service.thy ===== *)
theory Publish_Service
  imports Account_Inv
begin

text \<open>
  The service between the handlers and the machine (dsh-publish): the encryption of the secrets of a draft
  update before it becomes a command, the commands of publishing, rollback and gray release, and what the
  service answers; and the write path of dsh-raft \<open>raft.rs\<close>. Encryption is a parameter: it answers a
  ciphertext or an error for the position of the update (it draws a fresh key each time).
\<close>

section \<open>The write path\<close>

text \<open>
  An attempt to write applies the command at this node, meets another leader (whose address may be unknown), or
  loses the answer, when the command may have been applied all the same. A server without Raft only commits.
\<close>

datatype write_try = Commit | Forward string | Lost bool

type_synonym route = "write_try list"
type_synonym write_outcome = "nat \<times> publish_event list"

abbreviation Here :: route where "Here \<equiv> [Commit]"

definition outcome_of :: "publish_event list \<Rightarrow> write_outcome" where
  "outcome_of events = (case events of [] \<Rightarrow> 0 | e # _ \<Rightarrow> ev_version e, events)"

text \<open>The attempts end with an answer or when the deadline has passed after a lost one.\<close>

fun write_command :: "ext \<Rightarrow> route \<Rightarrow> command \<Rightarrow> int \<Rightarrow> sm \<Rightarrow> sm \<times> write_outcome res" where
  "write_command E [] cmd now s = (s, Inl (err Internal))"
| "write_command E (Commit # r) cmd now s =
     (case apply_command E cmd now s of (t, Inr ev) \<Rightarrow> (t, Inr (outcome_of ev)) | (t, Inl e) \<Rightarrow> (t, Inl e))"
| "write_command E (Forward hint # r) cmd now s = (s, Inl (err LeaderRedirect))"
| "write_command E (Lost applied # r) cmd now s =
     write_command E r cmd now (if applied then fst (apply_command E cmd now s) else s)"

text \<open>The address of the leader in the answer.\<close>

fun leader_hint :: "route \<Rightarrow> string option" where
  "leader_hint [] = None"
| "leader_hint (Commit # r) = None"
| "leader_hint (Forward hint # r) = Some hint"
| "leader_hint (Lost applied # r) = leader_hint r"

section \<open>Encryption of a draft update\<close>

type_synonym encrypt = "(nat \<Rightarrow> string \<Rightarrow> ciphertext option) option"

record publish_service =
  ps_encrypt :: encrypt
  ps_policy :: publish_policy
  ps_cascade :: cascade_mode

definition secret_keys :: "struct option \<Rightarrow> (string \<times> string) set" where
  "secret_keys structure = (case structure of
     None \<Rightarrow> {}
   | Some st \<Rightarrow> set (concat (map (\<lambda>g. map (\<lambda>it. (g_name g, it_key it))
        (filter (\<lambda>it. it_ty it = TSecret) (g_items g))) (s_groups st))))"

definition encrypt_update ::
  "(nat \<Rightarrow> string \<Rightarrow> ciphertext option) \<Rightarrow> (string \<times> string) set \<Rightarrow> nat \<Rightarrow> draft_update_item \<Rightarrow> draft_update_item res" where
  "encrypt_update enc keys i u =
     (if (du_group u, du_key u) \<in> keys then
        (case du_value u of
           VString plain \<Rightarrow> (case enc i plain of
               Some ct \<Rightarrow> Inr (u\<lparr>du_value := VSecret ct\<rparr>)
             | None \<Rightarrow> Inl (err Internal))
         | _ \<Rightarrow> Inr u)
      else Inr u)"

fun encrypt_updates ::
  "(nat \<Rightarrow> string \<Rightarrow> ciphertext option) \<Rightarrow> (string \<times> string) set \<Rightarrow> nat \<Rightarrow> draft_update_item list \<Rightarrow> draft_update_item list res" where
  "encrypt_updates enc keys i [] = Inr []"
| "encrypt_updates enc keys i (u # us) =
     bindE (encrypt_update enc keys i u) (\<lambda>v. bindE (encrypt_updates enc keys (i + 1) us) (\<lambda>vs. Inr (v # vs)))"

definition encrypt_secret_updates ::
  "publish_service \<Rightarrow> sm \<Rightarrow> project_id \<Rightarrow> draft_update_item list \<Rightarrow> draft_update_item list res" where
  "encrypt_secret_updates S s p updates = (case ps_encrypt S of
     None \<Rightarrow> Inr updates
   | Some enc \<Rightarrow> bindE (get_structure s p) (\<lambda>structure. encrypt_updates enc (secret_keys structure) 0 updates))"

section \<open>Operations\<close>

definition update_draft ::
  "ext \<Rightarrow> publish_service \<Rightarrow> route \<Rightarrow> project_id \<Rightarrow> branch_name \<Rightarrow> draft_update_item list \<Rightarrow> (string \<times> string) list \<Rightarrow>
     shared_binding list \<Rightarrow> nat option \<Rightarrow> string \<Rightarrow> int \<Rightarrow> sm \<Rightarrow> sm \<times> unit res" where
  "update_draft E S r p b updates deletes bindings expected operator now s =
     (case encrypt_secret_updates S s p updates of
        Inl e \<Rightarrow> (s, Inl e)
      | Inr us \<Rightarrow> (case write_command E r (DraftUpdate p b us deletes bindings operator now expected) now s of
          (t, Inl e) \<Rightarrow> (t, Inl e)
        | (t, Inr w) \<Rightarrow> (t, Inr ())))"

text \<open>The version a write has made, or the active one when it was a repetition.\<close>

definition version_or_active :: "project_id \<Rightarrow> branch_name \<Rightarrow> nat \<Rightarrow> sm \<Rightarrow> nat res" where
  "version_or_active p b version s =
     (if version > 0 then Inr version
      else bindE (get_branch_state s p b) (\<lambda>st. Inr (case st of None \<Rightarrow> 0 | Some x \<Rightarrow> active_version x)))"

record publish_outcome =
  po_version :: nat
  po_changes :: "diff_entry list"
  po_warnings :: "verr list"

definition publish_warnings :: "ext \<Rightarrow> publish_service \<Rightarrow> project_id \<Rightarrow> branch_name \<Rightarrow> sm \<Rightarrow> verr list res" where
  "publish_warnings E S p b s =
     (if ps_policy S = Warn then
        bindE (get_branch_state s p b) (\<lambda>st.
        bindE (get_structure s p) (\<lambda>structure.
          Inr (validate_publish E (case st of None \<Rightarrow> bm_empty | Some x \<Rightarrow> b_value_draft x)
            (case structure of None \<Rightarrow> \<lparr>s_version = 0, s_groups = []\<rparr> | Some x \<Rightarrow> x))))
      else Inr [])"

definition service_publish ::
  "ext \<Rightarrow> publish_service \<Rightarrow> route \<Rightarrow> project_id \<Rightarrow> branch_name \<Rightarrow> string \<Rightarrow> string \<Rightarrow> string \<Rightarrow> int \<Rightarrow> sm \<Rightarrow>
     sm \<times> publish_outcome res" where
  "service_publish E S r p b comment request_id operator now s =
     (case write_command E r (Publish p b comment request_id operator now (ps_policy S)) now s of
        (t, Inl e) \<Rightarrow> (t, Inl e)
      | (t, Inr (version, events)) \<Rightarrow>
          (t, bindE (version_or_active p b version t) (\<lambda>v.
              bindE (publish_warnings E S p b t) (\<lambda>ws.
                Inr \<lparr>po_version = v, po_changes = (case events of [] \<Rightarrow> [] | e # _ \<Rightarrow> ev_changes e), po_warnings = ws\<rparr>))))"

definition service_rollback ::
  "ext \<Rightarrow> route \<Rightarrow> project_id \<Rightarrow> branch_name \<Rightarrow> nat \<Rightarrow> string \<Rightarrow> string \<Rightarrow> string \<Rightarrow> int \<Rightarrow> sm \<Rightarrow> sm \<times> nat res" where
  "service_rollback E r p b to_version comment request_id operator now s =
     (case write_command E r (RollbackTo p b to_version comment request_id operator now) now s of
        (t, Inl e) \<Rightarrow> (t, Inl e)
      | (t, Inr (version, events)) \<Rightarrow> (t, version_or_active p b version t))"

definition service_publish_structure ::
  "ext \<Rightarrow> publish_service \<Rightarrow> route \<Rightarrow> project_id \<Rightarrow> string \<Rightarrow> string \<Rightarrow> string \<Rightarrow> int \<Rightarrow> sm \<Rightarrow>
     sm \<times> (branch_name \<times> nat) list res" where
  "service_publish_structure E S r p comment request_id operator now s =
     (case write_command E r (PublishStructure p comment request_id operator now (ps_policy S)) now s of
        (t, Inl e) \<Rightarrow> (t, Inl e)
      | (t, Inr (version, events)) \<Rightarrow> (t, Inr (map (\<lambda>e. (ev_branch e, ev_version e)) events)))"

definition service_gray_publish ::
  "ext \<Rightarrow> publish_service \<Rightarrow> route \<Rightarrow> project_id \<Rightarrow> branch_name \<Rightarrow> gray_rule \<Rightarrow> string \<Rightarrow> string \<Rightarrow> string \<Rightarrow> int \<Rightarrow> sm \<Rightarrow>
     sm \<times> (publish_event list) res" where
  "service_gray_publish E S r p b rule comment request_id operator now s =
     (case write_command E r (GrayPublish p b rule comment request_id operator now (ps_policy S)) now s of
        (t, Inl e) \<Rightarrow> (t, Inl e)
      | (t, Inr (version, events)) \<Rightarrow> (t, Inr events))"

definition service_gray_promote ::
  "ext \<Rightarrow> route \<Rightarrow> project_id \<Rightarrow> branch_name \<Rightarrow> string \<Rightarrow> string \<Rightarrow> string \<Rightarrow> int \<Rightarrow> sm \<Rightarrow> sm \<times> (publish_event list) res" where
  "service_gray_promote E r p b comment request_id operator now s =
     (case write_command E r (GrayPromote p b comment request_id operator now) now s of
        (t, Inl e) \<Rightarrow> (t, Inl e)
      | (t, Inr (version, events)) \<Rightarrow> (t, Inr events))"

definition service_gray_abort ::
  "ext \<Rightarrow> route \<Rightarrow> project_id \<Rightarrow> branch_name \<Rightarrow> string \<Rightarrow> string \<Rightarrow> string \<Rightarrow> int \<Rightarrow> sm \<Rightarrow> sm \<times> (publish_event list) res" where
  "service_gray_abort E r p b comment request_id operator now s =
     (case write_command E r (GrayAbort p b comment request_id operator now) now s of
        (t, Inl e) \<Rightarrow> (t, Inl e)
      | (t, Inr (version, events)) \<Rightarrow> (t, Inr events))"

section \<open>What reaches the log and the store\<close>

lemma encrypt_updates_all:
  "encrypt_updates enc keys i us = Inr vs \<Longrightarrow>
     length vs = length us \<and> (\<forall>j < length us. encrypt_update enc keys (i + j) (us ! j) = Inr (vs ! j))"
proof (induction us arbitrary: i vs)
  case (Cons u us)
  then obtain v vs' where v: "encrypt_update enc keys i u = Inr v" "encrypt_updates enc keys (i + 1) us = Inr vs'" "vs = v # vs'"
    by auto
  have "encrypt_update enc keys (i + j) ((u # us) ! j) = Inr ((v # vs') ! j)" if "j < length (u # us)" for j
    using Cons.IH [OF v(2)] v(1) that by (cases j) auto
  then show ?case using Cons.IH [OF v(2)] v(3) by auto
qed simp

text \<open>How an encrypted update comes from the one of the request, place by place.\<close>

definition sealed :: "publish_service \<Rightarrow> draft_update_item list \<Rightarrow> string \<Rightarrow> string \<Rightarrow> val \<Rightarrow> bool" where
  "sealed S updates g k v \<longleftrightarrow> (\<exists>i < length updates. du_group (updates ! i) = g \<and> du_key (updates ! i) = k \<and>
     (v = du_value (updates ! i) \<or> (\<exists>enc plain ct. ps_encrypt S = Some enc \<and> du_value (updates ! i) = VString plain \<and>
        enc i plain = Some ct \<and> v = VSecret ct)))"

lemma encrypted_sealed:
  assumes "encrypt_secret_updates S s p updates = Inr us" "u \<in> set us"
  shows "sealed S updates (du_group u) (du_key u) (du_value u)"
proof (cases "ps_encrypt S")
  case None
  then show ?thesis using assms by (auto simp: encrypt_secret_updates_def sealed_def in_set_conv_nth)
next
  case (Some enc)
  then obtain str where e: "encrypt_updates enc (secret_keys str) 0 updates = Inr us"
    using assms(1) by (auto simp: encrypt_secret_updates_def)
  obtain j where j: "j < length us" "us ! j = u" using assms(2) by (auto simp: in_set_conv_nth)
  have "j < length updates \<and> encrypt_update enc (secret_keys str) j (updates ! j) = Inr u"
    using encrypt_updates_all [OF e] j by auto
  then show ?thesis unfolding sealed_def
    by (intro exI [of _ j]) (auto simp: encrypt_update_def Some split: if_splits val.splits option.splits)
qed

text \<open>The encryption keeps every update at its place.\<close>

definition update_place :: "draft_update_item \<Rightarrow> string \<times> string" where
  "update_place u = (du_group u, du_key u)"

lemma encrypted_place: "encrypt_update enc keys i u = Inr v \<Longrightarrow> update_place v = update_place u"
  by (auto simp: encrypt_update_def update_place_def split: if_splits val.splits option.splits)

lemma encrypted_places:
  assumes "encrypt_secret_updates S s p updates = Inr us"
  shows "map update_place updates = map update_place us"
proof (cases "ps_encrypt S")
  case (Some enc)
  then obtain str where e: "encrypt_updates enc (secret_keys str) 0 updates = Inr us"
    using assms by (auto simp: encrypt_secret_updates_def)
  show ?thesis
  proof (rule nth_equalityI)
    fix j assume "j < length (map update_place updates)"
    then have "encrypt_update enc (secret_keys str) j (updates ! j) = Inr (us ! j)" "j < length us"
      using encrypt_updates_all [OF e] by auto
    then show "map update_place updates ! j = map update_place us ! j"
      using \<open>j < length (map update_place updates)\<close> by (simp add: encrypted_place)
  qed (use encrypt_updates_all [OF e] in simp)
qed (use assms in \<open>simp add: encrypt_secret_updates_def\<close>)

lemma encrypted_no_plain:
  assumes "encrypt_secret_updates S s p updates = Inr us" "u \<in> set us" "ps_encrypt S = Some enc"
    "get_structure s p = Inr str" "(du_group u, du_key u) \<in> secret_keys str"
  shows "du_value u \<noteq> VString plain"
proof -
  have e: "encrypt_updates enc (secret_keys str) 0 updates = Inr us"
    using assms(1,3,4) by (auto simp: encrypt_secret_updates_def)
  obtain j where "j < length us" "us ! j = u" using assms(2) by (auto simp: in_set_conv_nth)
  then have "encrypt_update enc (secret_keys str) j (updates ! j) = Inr u"
    using encrypt_updates_all [OF e] by auto
  then show ?thesis using assms(5)
    by (auto simp: encrypt_update_def split: if_splits val.splits option.splits)
qed

lemma clear_nothing: "sm_pending s = [] \<Longrightarrow> clear_pending s = s"
  by (simp add: clear_pending_def)

text \<open>
  C36: Secrets are encrypted before they leave the service. When a draft update goes through, every item of type
  secret that the request writes has a ciphertext in the new draft: one that the request brought itself, or the
  encryption of a plain text of the request at its own place. An item that the request does not write keeps the draft
  value it had (which may be of another type, when the structure has changed since; a blocking publish refuses it).
  With a key, the command that is written to the log has no plain text at an item of type secret.
\<close>

theorem secrets_leave_encrypted:
  assumes "sm_pending s = []" "store_wf (sm_store s)" "get_branch_state s p b = Inr (Some st)" "get_structure s p = Inr (Some str)"
    and "update_draft E S Here p b updates deletes bindings expected operator now s = (t, Inr ())"
  shows "\<exists>us st'. encrypt_secret_updates S s p updates = Inr us \<and> get_branch_state t p b = Inr (Some st') \<and>
    (\<forall>g k item dv. tree_get (item_index str) g k = Some item \<longrightarrow> it_ty item = TSecret \<longrightarrow>
       tree_get (b_value_draft st') g k = Some dv \<longrightarrow>
       (if (g, k) \<in> set (map update_place updates)
        then \<exists>ct. dv_value dv = VSecret ct \<and> sealed S updates g k (VSecret ct)
        else tree_get (b_value_draft st) g k = Some dv \<and> (g, k) \<notin> set deletes)) \<and>
    (ps_encrypt S \<noteq> None \<longrightarrow> (\<forall>u \<in> set us. \<forall>plain.
       update_place u \<in> secret_keys (Some str) \<longrightarrow> du_value u \<noteq> VString plain))"
proof -
  note ok = assms(1,2)
  obtain us w where us: "encrypt_secret_updates S s p updates = Inr us"
    "write_command E Here (DraftUpdate p b us deletes bindings operator now expected) now s = (t, Inr w)"
    using assms(5) by (auto simp: update_draft_def split: sum.splits prod.splits)
  then obtain ev where "apply_command E (DraftUpdate p b us deletes bindings operator now expected) now s = (t, Inr ev)"
    by (auto simp: split: sum.splits prod.splits)
  from apply_command_done [OF this ok(2)] obtain u where u:
    "apply_draft_update E p b us deletes bindings (eff_ts now now) expected s = Inr (u, ev)"
    "sm_store t = view u" "sm_pending t = []"
    by (auto simp: clear_nothing [OF ok(1)])
  have st: "bm_get (view s) (branch_state_key p b) = Some (SBranch st)" using assms(3) by simp
  obtain c bs changed where checks:
      "foldE (check_update E (item_index str) (b_value_draft st)) us (draft_size (b_value_draft st)) = Inr c"
    and t: "u = save_pending (branch_state_key p b) (SBranch (st\<lparr>b_value_draft :=
        fold (set_draft_item (eff_ts now now)) us (fold delete_draft_item deletes (b_value_draft st)),
        draft_rev := draft_rev st + 1, shared_bindings := bs, bindings_dirty := bindings_dirty st \<or> changed\<rparr>)) s"
    using u(1) st assms(4) by (auto simp: apply_draft_update_def done_with_def Let_def split: if_splits option.splits)
  let ?st = "st\<lparr>b_value_draft := fold (set_draft_item (eff_ts now now)) us (fold delete_draft_item deletes (b_value_draft st)),
        draft_rev := draft_rev st + 1, shared_bindings := bs, bindings_dirty := bindings_dirty st \<or> changed\<rparr>"
  have read: "get_branch_state t p b = Inr (Some ?st)" using u(2,3) t by (simp add: view_start)
  have draft: "if (g, k) \<in> set (map update_place updates)
        then \<exists>ct. dv_value dv = VSecret ct \<and> sealed S updates g k (VSecret ct)
        else tree_get (b_value_draft st) g k = Some dv \<and> (g, k) \<notin> set deletes"
    if a: "tree_get (item_index str) g k = Some item" "it_ty item = TSecret" "tree_get (b_value_draft ?st) g k = Some dv"
    for g k item dv
  proof (cases "map_of (rev (update_entries (eff_ts now now) us)) (g, k)")
    case None
    then have "(g, k) \<notin> set (map update_place us)"
      by (auto simp: map_of_eq_None_iff update_entries_def update_place_def image_iff)
    then have "(g, k) \<notin> set (map update_place updates)" unfolding encrypted_places [OF us(1)] .
    then show ?thesis using a(3) None by (auto simp: fold_set_draft fold_delete_draft split: if_splits)
  next
    case (Some v)
    then have "((g, k), dv) \<in> set (update_entries (eff_ts now now) us)"
      using a(3) map_of_SomeD [OF Some] by (simp add: fold_set_draft)
    then obtain x where x: "x \<in> set us" "du_group x = g" "du_key x = k" "dv_value dv = du_value x"
      by (auto simp: update_entries_def)
    have "value_fits E item (du_value x)"
      using foldE_all [OF checks] check_update_ok x a(1) by fastforce
    then obtain ct where "du_value x = VSecret ct" using a(2) by (cases "du_value x") (auto simp: value_fits_def)
    moreover have "(g, k) \<in> set (map update_place us)" using x by (force simp: update_place_def)
    then have "(g, k) \<in> set (map update_place updates)" unfolding encrypted_places [OF us(1)] .
    ultimately show ?thesis using encrypted_sealed [OF us(1) x(1)] x by auto
  qed
  have plain: "du_value x \<noteq> VString pl" if "ps_encrypt S \<noteq> None" "x \<in> set us" "update_place x \<in> secret_keys (Some str)" for x pl
    using that encrypted_no_plain [OF us(1) that(2) _ assms(4)] by (auto simp: update_place_def)
  show ?thesis using us(1) read draft plain by blast
qed

text \<open>A branch of a project with a password, and an update that sets it in plain text.\<close>

definition secret_struct :: struct where
  "secret_struct = \<lparr>s_version = 1, s_groups = [\<lparr>g_name = ''db'', g_items = [sample_item ''pw'' TSecret]\<rparr>]\<rparr>"

definition secret_store :: "sval mem_store" where
  "secret_store = bm_insert (branch_state_key ''shop'' ''dev'') (SBranch (branch_new 1))
     (bm_insert (struct_key ''shop'') (SStruct secret_struct)
       (bm_insert (project_key ''shop'') (SProject \<lparr>p_id = ''shop'', p_name = ''shop'', p_created_at = 0\<rparr>) bm_empty))"

definition sample_ct :: "string \<Rightarrow> ciphertext" where
  "sample_ct plain = \<lparr>ct_enc = ''aes'', ct_v = 1, ct_dek_v = 1, ct_nonce = [], ct_ct = rev plain, ct_edek = [], ct_edek_nonce = []\<rparr>"

definition sample_service :: publish_service where
  "sample_service = \<lparr>ps_encrypt = Some (\<lambda>i plain. Some (sample_ct plain)), ps_policy = Block, ps_cascade = Auto\<rparr>"

definition plain_update :: draft_update_item where
  "plain_update = \<lparr>du_group = ''db'', du_key = ''pw'', du_value = VString ''hunter2''\<rparr>"

abbreviation "secret_sm \<equiv> sm_new secret_store"

lemma secret_facts:
  "sm_pending secret_sm = []" "store_wf (sm_store secret_sm)"
  "get_branch_state secret_sm ''shop'' ''dev'' = Inr (Some (branch_new 1))"
  "get_structure secret_sm ''shop'' = Inr (Some secret_struct)"
  "tree_get (item_index secret_struct) ''db'' ''pw'' = Some (sample_item ''pw'' TSecret)"
proof -
  show p: "sm_pending secret_sm = []" by (simp add: sm_new_def)
  have store: "sm_store secret_sm = secret_store" by (simp add: sm_new_def)
  have g: "bm_get secret_store (branch_state_key ''shop'' ''dev'') = Some (SBranch (branch_new 1))"
    "bm_get secret_store (struct_key ''shop'') = Some (SStruct secret_struct)"
    by (simp_all add: secret_store_def key_eq)
  show "store_wf (sm_store secret_sm)" unfolding store by (simp add: secret_store_def key_fold store_wf_insert)
  show "get_branch_state secret_sm ''shop'' ''dev'' = Inr (Some (branch_new 1))"
    "get_structure secret_sm ''shop'' = Inr (Some secret_struct)"
    using g p store by (simp_all add: view_start)
  show "tree_get (item_index secret_struct) ''db'' ''pw'' = Some (sample_item ''pw'' TSecret)"
    by (simp add: item_index_def secret_struct_def sample_item_def)
qed

lemma secret_update_runs:
  "\<exists>t. update_draft sample_ext sample_service Here ''shop'' ''dev'' [plain_update] [] [] None ''root'' 5 secret_sm = (t, Inr ())"
proof -
  let ?u = "plain_update\<lparr>du_value := VSecret (sample_ct ''hunter2'')\<rparr>"
  have "secret_keys (Some secret_struct) = {(''db'', ''pw'')}"
    by (simp add: secret_keys_def secret_struct_def sample_item_def)
  then have enc: "encrypt_secret_updates sample_service secret_sm ''shop'' [plain_update] = Inr [?u]"
    by (simp add: encrypt_secret_updates_def sample_service_def secret_facts(4) encrypt_update_def plain_update_def)
  have "\<exists>n. check_update sample_ext (item_index secret_struct) d ?u 0 = Inr n" if "d = b_value_draft (branch_new 1)" for d
    using that secret_facts(5)
    by (simp add: check_update_def plain_update_def sample_item_def validate_value_def sample_ext_def MAX_VALUE_BYTES_def
        branch_new_def MAX_ITEMS_PER_PROJECT_def)
  then obtain n where "check_update sample_ext (item_index secret_struct) (b_value_draft (branch_new 1)) ?u 0 = Inr n" by blast
  moreover have "draft_size (b_value_draft (branch_new 1)) = 0" by (simp add: draft_size_def branch_new_def)
  ultimately have "succeeds (apply_draft_update sample_ext ''shop'' ''dev'' [?u] [] [] (eff_ts 5 5) None secret_sm)"
    by (simp add: succeeds_def apply_draft_update_def done_with_def Let_def secret_facts)
  then obtain t ev where "apply_draft_update sample_ext ''shop'' ''dev'' [?u] [] [] (eff_ts 5 5) None secret_sm = Inr (t, ev)"
    by (rule succeedsE)
  then show ?thesis
    by (simp add: update_draft_def enc apply_command_def clear_nothing [OF secret_facts(1)] buffered_def)
qed

theorem secrets_leave_encrypted_witness:
  "\<exists>t st. update_draft sample_ext sample_service Here ''shop'' ''dev'' [plain_update] [] [] None ''root'' 5 secret_sm = (t, Inr ()) \<and>
     get_branch_state t ''shop'' ''dev'' = Inr (Some st) \<and>
     (\<forall>dv. tree_get (b_value_draft st) ''db'' ''pw'' = Some dv \<longrightarrow> (\<exists>ct. dv_value dv = VSecret ct))"
proof -
  obtain t where run: "update_draft sample_ext sample_service Here ''shop'' ''dev'' [plain_update] [] [] None ''root'' 5 secret_sm = (t, Inr ())"
    using secret_update_runs by blast
  have "tree_get (b_value_draft (branch_new 1)) ''db'' ''pw'' = None" "it_ty (sample_item ''pw'' TSecret) = TSecret"
    by (simp_all add: branch_new_def sample_item_def)
  then show ?thesis
    using secrets_leave_encrypted [OF secret_facts(1-4) run] secret_facts(5) run by (metis option.distinct(1))
qed

section \<open>The warnings of a publish\<close>

text \<open>
  In the mode that only warns, the service validates the draft after the publish has cleared it: the warnings
  it answers are those of an empty draft, whatever was published.
\<close>

lemma warnings_are_of_the_empty_draft:
  assumes "sm_pending s = []" "store_wf (sm_store s)" "get_branch_state s p b = Inr (Some st)" "last_request_id st \<noteq> Some rid"
    "ps_policy S = Warn" "service_publish E S Here p b comment rid operator now s = (t, Inr r)"
  shows "\<exists>str. get_structure s p = Inr (Some str) \<and> po_warnings r = validate_publish E bm_empty str"
proof -
  obtain ev where run: "apply_command E (Publish p b comment rid operator now Warn) now s = (t, Inr ev)"
    and pub: "publish_warnings E S p b t = Inr (po_warnings r)"
    using assms(5,6) by (auto simp: service_publish_def split: sum.splits prod.splits)
  from apply_command_done [OF run assms(2)] obtain u where u: "apply_publish E p b comment rid (eff_ts now now) operator Warn s = Inr (u, ev)"
    "sm_store t = view u" "sm_pending t = []"
    by (auto simp: clear_nothing [OF assms(1)])
  have st: "bm_get (view s) (branch_state_key p b) = Some (SBranch st)" using assms(3) by simp
  obtain str old resolved warnings where str: "get_structure s p = Inr (Some str)" and
    t: "u = save_pending (branch_state_key p b) (SBranch (st\<lparr>active_version := active_version st + 1,
        last_request_id := Some rid, b_value_draft := bm_empty, bindings_dirty := False\<rparr>))
      (write_version_snapshot p b (active_version st + 1) old resolved
        (new_record (active_version st + 1) (s_version str) (eff_ts now now) (operator_id operator) comment None
           ValuePublish False) s)"
    using publish_steps [OF u(1) st assms(4)] by metis
  have "slash_free p" "slash_free b" using store_wf_get [OF assms(2)] st entry_ok_state by (force simp: view_start [OF assms(1)])+
  then have "bm_get (view u) (struct_key p) = bm_get (view s) (struct_key p)"
    using t write_version_other [of p b "active_version st + 1" "struct_key p"] by (simp add: key_eq)
  then have "get_structure t p = Inr (Some str)"
    using str u(2,3) by (simp add: view_start)
  moreover have "\<exists>x. get_branch_state t p b = Inr (Some x) \<and> b_value_draft x = bm_empty"
    using u(2,3) t by (simp add: view_start)
  ultimately show ?thesis using pub str assms(5) by (auto simp: publish_warnings_def)
qed

end
