(* ===== verification/Api_Login.thy ===== *)
theory Api_Login
  imports Api_Data Publish_Service
begin

text \<open>
  Signing in (dsh-api \<open>lib.rs\<close>): the throttle of failed logins and its key behind trusted proxies, the check of
  passwords, the login of the three kinds of administrators with its retries at the leader, logout and
  heartbeat, the join token, and the gate of a poisoned node. The argon2 check, the hash of tokens, the random
  parts of a token, the clocks and what the network answers are parameters.
\<close>

unbundle bit_operations_syntax

section \<open>Throttle\<close>

text \<open>A key has the number of failures of its window and the instant the window began, in milliseconds.\<close>

type_synonym throttle = "(string, nat \<times> nat) bmap"

definition THROTTLE_WINDOW :: nat where "THROTTLE_WINDOW = 600000"
definition MAX_FAILURES :: nat where "MAX_FAILURES = 5"

definition throttle_blocked :: "nat \<Rightarrow> string \<Rightarrow> throttle \<Rightarrow> bool \<times> throttle" where
  "throttle_blocked now key th = (case bm_get th key of
     Some (count, begun) \<Rightarrow>
       if now - begun \<ge> THROTTLE_WINDOW then (False, bm_remove key th)
       else (count \<ge> MAX_FAILURES, th)
   | None \<Rightarrow> (False, th))"

definition record_failure :: "nat \<Rightarrow> string \<Rightarrow> throttle \<Rightarrow> throttle" where
  "record_failure now key th = (case bm_get th key of
     Some (count, begun) \<Rightarrow>
       if now - begun \<ge> THROTTLE_WINDOW then bm_insert key (1, now) th
       else bm_insert key (count + 1, begun) th
   | None \<Rightarrow> bm_insert key (1, now) th)"

definition throttle_reset :: "string \<Rightarrow> throttle \<Rightarrow> throttle" where
  "throttle_reset key th = bm_remove key th"

section \<open>Trusted proxies\<close>

type_synonym proxies = "(ip_addr \<times> nat) list"

definition max_prefix :: "ip_addr \<Rightarrow> nat" where
  "max_prefix ip = (case ip of V4 a \<Rightarrow> 32 | V6 a \<Rightarrow> 128)"

definition parse_net :: "string \<Rightarrow> (ip_addr \<times> nat) option" where
  "parse_net part =
     (case split_once CHR ''/'' part of
        Some (ip_s, p) \<Rightarrow> Option.bind (parse_unsigned 255 p) (\<lambda>n.
          Option.bind (parse_ip ip_s) (\<lambda>ip. if n > max_prefix ip then None else Some (ip, n)))
      | None \<Rightarrow> map_option (\<lambda>ip. (ip, max_prefix ip)) (parse_ip part))"

definition parse_proxies :: "string \<Rightarrow> proxies option" where
  "parse_proxies s =
     those (map parse_net (filter (\<lambda>p. p \<noteq> []) (map trim (split_all CHR '','' s))))"

definition proxies_contain :: "proxies \<Rightarrow> ip_addr \<Rightarrow> bool" where
  "proxies_contain nets ip = list_ex (\<lambda>(net, prefix). case (ip, net) of
       (V4 a, V4 b) \<Rightarrow> (a XOR b) AND mask32 prefix = 0
     | (V6 a, V6 b) \<Rightarrow> (a XOR b) AND mask128 prefix = 0
     | _ \<Rightarrow> False) nets"

text \<open>The key is the first entry of \<open>X-Forwarded-For\<close> behind a trusted proxy, and the peer otherwise.\<close>

definition login_throttle_key ::
  "(ip_addr \<Rightarrow> string) \<Rightarrow> proxies \<Rightarrow> string option \<Rightarrow> ip_addr option \<Rightarrow> string" where
  "login_throttle_key ip_text nets xff peer = (case peer of
     None \<Rightarrow> ''direct''
   | Some ip \<Rightarrow>
       if nets \<noteq> [] \<and> proxies_contain nets ip then
         (case xff of
            Some s \<Rightarrow> let c = trim (hd (split_all CHR '','' s)) in if c = [] then ip_text ip else c
          | None \<Rightarrow> ip_text ip)
       else ip_text ip)"

section \<open>Sessions at the leader\<close>

record login_env =
  le_hash :: "string \<Rightarrow> string"
  le_argon :: "string \<Rightarrow> string \<Rightarrow> bool"
  le_admin_password :: string
  le_ttl :: nat
  le_poisoned :: bool
  le_ext :: ext
  le_serde :: serde

text \<open>
  What a turn of the retry loop meets: the clock, the random parts of the token, the attempts of the write, the
  answer to the forwarded login if there was one, and whether the deadline has passed after it.
\<close>

record forwarded =
  fw_status :: nat
  fw_token :: "string option"
  fw_role :: "string option"
  fw_project :: "string option"
  fw_username :: "string option"
  fw_code :: "string option"

record turn =
  tn_now :: int
  tn_sid :: string
  tn_secret :: string
  tn_route :: route
  tn_answer :: "forwarded option"
  tn_late :: bool

definition app_write :: "login_env \<Rightarrow> route \<Rightarrow> command \<Rightarrow> int \<Rightarrow> sm \<Rightarrow> sm \<times> write_outcome res" where
  "app_write L r cmd now s =
     (if le_poisoned L then (s, Inl (err Internal)) else write_command (le_ext L) r cmd now s)"

record login_resp =
  lp_token :: string
  lp_role :: "string option"
  lp_project :: "string option"
  lp_username :: "string option"

type_synonym login_state = "sm \<times> throttle"
type_synonym login_reply = "login_state \<times> command list \<times> (reject + login_resp) option"

definition session_expiry :: "login_env \<Rightarrow> int \<Rightarrow> int option" where
  "session_expiry L now = (if le_ttl L div 1000 > 0 then Some (now + int (le_ttl L)) else None)"

definition leader_answer :: "turn \<Rightarrow> forwarded option" where
  "leader_answer tn = (case leader_hint (tn_route tn) of
     None \<Rightarrow> None
   | Some hint \<Rightarrow> if hint = [] then None else tn_answer tn)"

definition or_empty :: "string option \<Rightarrow> string" where
  "or_empty v = (case v of None \<Rightarrow> [] | Some s \<Rightarrow> s)"

definition forwarded_reply :: "forwarded \<Rightarrow> reject + login_resp" where
  "forwarded_reply a =
     (if 200 \<le> fw_status a \<and> fw_status a < 300
      then Inr \<lparr>lp_token = or_empty (fw_token a), lp_role = fw_role a, lp_project = fw_project a, lp_username = fw_username a\<rparr>
      else Inl (Reject (fw_status a) (case fw_code a of None \<Rightarrow> ''ERR_INTERNAL'' | Some c \<Rightarrow> c)))"

definition bad_credentials :: reject where
  "bad_credentials = Reject 401 ''ERR_BAD_CREDENTIALS''"

text \<open>
  The loop that issues a session; with no turn left the request is still waiting. \<open>hides_missing\<close>: an account
  that has gone since the password was checked is answered like a wrong password.
\<close>

fun session_loop ::
  "login_env \<Rightarrow> (string \<Rightarrow> string \<Rightarrow> string) \<Rightarrow> (string \<Rightarrow> int \<Rightarrow> int option \<Rightarrow> string \<Rightarrow> command) \<Rightarrow>
     (string \<Rightarrow> login_resp) \<Rightarrow> bool \<Rightarrow> (int \<Rightarrow> command) \<Rightarrow> string \<Rightarrow> turn list \<Rightarrow> login_state \<Rightarrow> login_reply" where
  "session_loop L mk_token mk_cmd done hides_missing audit key [] (s, th) = ((s, th), [], None)"
| "session_loop L mk_token mk_cmd done hides_missing audit key (tn # tns) (s, th) =
     (let token = mk_token (tn_sid tn) (tn_secret tn); now = tn_now tn in
      case app_write L (tn_route tn) (mk_cmd (le_hash L token) now (session_expiry L now) (tn_sid tn)) now s of
        (t, Inr u) \<Rightarrow> ((t, throttle_reset key th), [audit now], Some (Inr (done token)))
      | (t, Inl e) \<Rightarrow>
          if e_kind e = LeaderRedirect then
            (case leader_answer tn of
               Some a \<Rightarrow> (case forwarded_reply a of
                   Inr r \<Rightarrow> ((t, throttle_reset key th), [], Some (Inr r))
                 | Inl x \<Rightarrow> ((t, th), [], Some (Inl x)))
             | None \<Rightarrow>
                 if tn_late tn then ((t, th), [], Some (Inl (Reject 504 ''ERR_LEADER_REDIRECT'')))
                 else session_loop L mk_token mk_cmd done hides_missing audit key tns (t, th))
          else if hides_missing \<and> e_kind e = NotFound then ((t, th), [], Some (Inl bad_credentials))
          else ((t, th), [], Some (Inl (api_error e))))"

section \<open>Login\<close>

record login_req =
  lr_password :: string
  lr_username :: "string option"

definition verify_password :: "login_env \<Rightarrow> string \<Rightarrow> string \<Rightarrow> string \<Rightarrow> bool" where
  "verify_password L password stored legacy_salt =
     (if starts_with stored ''$argon2'' then le_argon L password stored
      else le_hash L (legacy_salt @ password) = stored)"

definition new_admin_token :: "string \<Rightarrow> string \<Rightarrow> string" where
  "new_admin_token sid secret = ''adm.'' @ sid @ ''.'' @ secret"

definition new_pa_token :: "string \<Rightarrow> string \<Rightarrow> string \<Rightarrow> string" where
  "new_pa_token u sid secret = ''pa.'' @ u @ ''.'' @ sid @ ''.'' @ secret"

definition new_ga_token :: "string \<Rightarrow> string \<Rightarrow> string \<Rightarrow> string" where
  "new_ga_token u sid secret = ''ga.'' @ u @ ''.'' @ sid @ ''.'' @ secret"

definition user_detail :: "login_env \<Rightarrow> string \<Rightarrow> string" where
  "user_detail L u = json_text (le_serde L) (JObj [(''username'', JStr u)])"

definition no_detail :: "login_env \<Rightarrow> string" where
  "no_detail L = json_text (le_serde L) (JObj [])"

text \<open>A wrong password: the failure is counted and audited, and the answer does not tell why.\<close>

definition refuse_login ::
  "nat \<Rightarrow> int \<Rightarrow> string \<Rightarrow> string \<Rightarrow> string \<Rightarrow> login_state \<Rightarrow> login_reply" where
  "refuse_login inst wall key detail operator st =
     ((fst st, record_failure inst key (snd st)),
      [audit_cmd wall ''login_failed'' None None None None detail operator], Some (Inl bad_credentials))"

definition pa_login ::
  "login_env \<Rightarrow> nat \<Rightarrow> int \<Rightarrow> string \<Rightarrow> login_req \<Rightarrow> string \<Rightarrow> turn list \<Rightarrow> login_state \<Rightarrow> login_reply" where
  "pa_login L inst wall key req u turns st =
     (let account = found (get_project_admin (fst st) u);
          ok = (case account of
              Some a \<Rightarrow> verify_password L (lr_password req) (pa_password_hash a) (pa_salt a)
            | None \<Rightarrow> False) in
      if \<not> ok then refuse_login inst wall key (user_detail L u) (''pa:'' @ u) st
      else
        (let pid = (case account of Some a \<Rightarrow> pa_project a | None \<Rightarrow> []) in
         session_loop L (new_pa_token u)
           (\<lambda>h now expires sid. MultiPaSessionLogin u h now expires ''cli'' sid)
           (\<lambda>token. \<lparr>lp_token = token, lp_role = Some ''project_admin'', lp_project = Some pid, lp_username = Some u\<rparr>)
           True (\<lambda>now. audit_cmd now ''login'' (Some pid) None None None (user_detail L u) (''pa:'' @ u)) key turns st))"

definition ga_login ::
  "login_env \<Rightarrow> nat \<Rightarrow> int \<Rightarrow> string \<Rightarrow> login_req \<Rightarrow> string \<Rightarrow> turn list \<Rightarrow> login_state \<Rightarrow> login_reply" where
  "ga_login L inst wall key req u turns st =
     (let ok = (case found (get_global_admin (fst st) u) of
              Some a \<Rightarrow> verify_password L (lr_password req) (ga_password_hash a) (ga_salt a)
            | None \<Rightarrow> False) in
      if \<not> ok then refuse_login inst wall key (user_detail L u) (''ga:'' @ u) st
      else session_loop L (new_ga_token u)
           (\<lambda>h now expires sid. MultiGaSessionLogin u h now expires ''cli'' sid)
           (\<lambda>token. \<lparr>lp_token = token, lp_role = Some ''global_admin'', lp_project = None, lp_username = Some u\<rparr>)
           True (\<lambda>now. audit_cmd now ''login'' None None None None (user_detail L u) (''ga:'' @ u)) key turns st)"

definition admin_password_ok :: "login_env \<Rightarrow> string \<Rightarrow> sm \<Rightarrow> bool" where
  "admin_password_ok L password s = (case found (get_admin_password_hash s) of
     Some stored \<Rightarrow> verify_password L password stored []
   | None \<Rightarrow> password = le_admin_password L)"

definition admin_login ::
  "login_env \<Rightarrow> nat \<Rightarrow> int \<Rightarrow> string \<Rightarrow> login_req \<Rightarrow> turn list \<Rightarrow> login_state \<Rightarrow> login_reply" where
  "admin_login L inst wall key req turns st =
     (if \<not> admin_password_ok L (lr_password req) (fst st)
      then refuse_login inst wall key (no_detail L) ''admin'' st
      else session_loop L new_admin_token
           (\<lambda>h now expires sid. MultiSessionLogin h now expires sid)
           (\<lambda>token. \<lparr>lp_token = token, lp_role = Some ''admin'', lp_project = None, lp_username = None\<rparr>)
           False (\<lambda>now. audit_cmd now ''login'' None None None None (no_detail L) ''admin'') key turns st)"

definition account_username :: "login_req \<Rightarrow> string option" where
  "account_username req = (case lr_username req of
     None \<Rightarrow> None
   | Some u \<Rightarrow> if trim u = [] then None else Some (trim u))"

definition login ::
  "login_env \<Rightarrow> nat \<Rightarrow> int \<Rightarrow> string \<Rightarrow> login_req \<Rightarrow> turn list \<Rightarrow> login_state \<Rightarrow> login_reply" where
  "login L inst wall key req turns st =
     (let (blocked, th) = throttle_blocked inst key (snd st); s = fst st in
      if blocked then ((s, th), [], Some (Inl (Reject 429 ''ERR_TOO_MANY_ATTEMPTS'')))
      else (case account_username req of
          Some u \<Rightarrow>
            if found (get_global_admin s u) \<noteq> None then ga_login L inst wall key req u turns (s, th)
            else pa_login L inst wall key req u turns (s, th)
        | None \<Rightarrow> admin_login L inst wall key req turns (s, th)))"

section \<open>Logout and heartbeat\<close>

text \<open>The command that ends the own session: by its id when the token has one.\<close>

definition session_expired :: reject where
  "session_expired = Reject 401 ''ERR_SESSION_EXPIRED''"

definition logout_command :: "principal \<Rightarrow> string option \<Rightarrow> reject + command" where
  "logout_command who sid = (case who of
     Admin \<Rightarrow> (case sid of Some x \<Rightarrow> Inr (MultiSessionLogout x) | None \<Rightarrow> Inr SessionLogout)
   | ProjectAdmin u p \<Rightarrow> (case sid of Some x \<Rightarrow> Inr (MultiPaSessionLogout u x) | None \<Rightarrow> Inr (PaSessionLogout u))
   | GlobalAdmin u \<Rightarrow> (case sid of Some x \<Rightarrow> Inr (MultiGaSessionLogout u x) | None \<Rightarrow> Inl session_expired))"

definition logout ::
  "login_env \<Rightarrow> route \<Rightarrow> int \<Rightarrow> string option \<Rightarrow> principal \<Rightarrow> sm \<Rightarrow> sm \<times> command list \<times> (reject + unit)" where
  "logout L r now auth who s = (case logout_command who (token_session_id auth) of
     Inl x \<Rightarrow> (s, [], Inl x)
   | Inr c \<Rightarrow> (case app_write L r c now s of
       (t, Inl e) \<Rightarrow> (t, [], Inl (api_error e))
     | (t, Inr u) \<Rightarrow> (t, [audit_cmd now ''logout'' None None None None (no_detail L) (principal_op who)], Inr ())))"

definition heartbeat_command :: "principal \<Rightarrow> string option \<Rightarrow> int option \<Rightarrow> reject + command" where
  "heartbeat_command who sid expires = (case who of
     Admin \<Rightarrow> (case sid of Some x \<Rightarrow> Inr (MultiSessionHeartbeat x expires) | None \<Rightarrow> Inr (SessionHeartbeat expires))
   | ProjectAdmin u p \<Rightarrow> (case sid of
        Some x \<Rightarrow> Inr (MultiPaSessionHeartbeat u x expires) | None \<Rightarrow> Inr (PaSessionHeartbeat u expires))
   | GlobalAdmin u \<Rightarrow> (case sid of Some x \<Rightarrow> Inr (MultiGaSessionHeartbeat u x expires) | None \<Rightarrow> Inl session_expired))"

definition heartbeat_handler ::
  "login_env \<Rightarrow> route \<Rightarrow> int \<Rightarrow> string option \<Rightarrow> principal \<Rightarrow> sm \<Rightarrow> sm \<times> (reject + int option)" where
  "heartbeat_handler L r now auth who s =
     (let expires = session_expiry L now in
      case heartbeat_command who (token_session_id auth) expires of
        Inl x \<Rightarrow> (s, Inl x)
      | Inr c \<Rightarrow> (case app_write L r c now s of
          (t, Inl e) \<Rightarrow> (t, Inl (api_error e))
        | (t, Inr u) \<Rightarrow> (t, Inr expires)))"

section \<open>The operator's token and the gate of a poisoned node\<close>

definition join_token_ok :: "string option \<Rightarrow> string option \<Rightarrow> bool" where
  "join_token_ok join_token auth = (case join_token of None \<Rightarrow> True | Some expected \<Rightarrow> bearer auth = Some expected)"

definition ops_token_ok :: "string option \<Rightarrow> string option \<Rightarrow> bool" where
  "ops_token_ok join_token auth = (case join_token of None \<Rightarrow> False | Some expected \<Rightarrow> bearer auth = Some expected)"

definition poison_gate :: "bool \<Rightarrow> string \<Rightarrow> reject option" where
  "poison_gate poisoned path =
     (if poisoned \<and> \<not> (path = ''/healthz'' \<or> path = ''/metrics'' \<or> starts_with path ''/admin'')
      then Some (Reject 503 ''ERR_RESTORE_POISONED'') else None)"

text \<open>\<open>is_ready\<close>: a node of a cluster has a log; \<open>None\<close> is a server without Raft.\<close>

definition is_ready :: "nat option option \<Rightarrow> bool" where
  "is_ready last_log = (case last_log of None \<Rightarrow> True | Some l \<Rightarrow> l \<noteq> None)"

definition readyz :: "bool \<Rightarrow> nat option option \<Rightarrow> bool" where
  "readyz poisoned last_log = (\<not> (poisoned \<or> \<not> is_ready last_log))"

section \<open>Lemmas on tokens\<close>

lemma split_dot: "CHR ''.'' \<notin> set u \<Longrightarrow> split_all CHR ''.'' (u @ CHR ''.'' # r) = u # split_all CHR ''.'' r"
  by (rule split_all_sep)

lemma bearer_token: "bearer (Some (''Bearer '' @ t)) = Some t"
  by (simp add: bearer_def strip_prefix_def)

lemma token_parts:
  assumes "CHR ''.'' \<notin> set u" "CHR ''.'' \<notin> set sid"
  shows "token_session s (new_pa_token u sid secret) = found (get_pa_session_with s u sid)"
    "token_session s (new_ga_token u sid secret) = found (get_ga_session_with s u sid)"
    "token_session s (new_admin_token sid secret) = found (get_session_with s sid)"
    "token_session_id (Some (''Bearer '' @ new_pa_token u sid secret)) = Some sid"
    "token_session_id (Some (''Bearer '' @ new_ga_token u sid secret)) = Some sid"
    "token_session_id (Some (''Bearer '' @ new_admin_token sid secret)) = Some sid"
proof -
  have two: "split_all CHR ''.'' (sid @ CHR ''.'' # secret) = sid # split_all CHR ''.'' secret"
    "split_all CHR ''.'' (u @ CHR ''.'' # sid @ CHR ''.'' # secret) = u # sid # split_all CHR ''.'' secret"
    using assms by (simp_all add: split_dot)
  have more: "0 < length (split_all CHR ''.'' secret)" by simp
  show "token_session s (new_pa_token u sid secret) = found (get_pa_session_with s u sid)"
    "token_session s (new_ga_token u sid secret) = found (get_ga_session_with s u sid)"
    "token_session s (new_admin_token sid secret) = found (get_session_with s sid)"
    "token_session_id (Some (''Bearer '' @ new_pa_token u sid secret)) = Some sid"
    "token_session_id (Some (''Bearer '' @ new_ga_token u sid secret)) = Some sid"
    "token_session_id (Some (''Bearer '' @ new_admin_token sid secret)) = Some sid"
    unfolding token_session_def token_session_id_def bearer_token option.case
    using two more by (simp_all add: new_pa_token_def new_ga_token_def new_admin_token_def strip_prefix_def Let_def Suc_le_eq)
qed

section \<open>Lemmas on sessions\<close>

lemma flush_one:
  "flush_pending (save_pending k v (clear_pending s)) = sm_new (bm_insert k v (sm_store s))"
  "flush_pending (delete_pending k (clear_pending s)) = sm_new (bm_remove k (sm_store s))"
proof -
  have start: "buf_safe (clear_pending s)" by (simp add: buf_safe_start)
  have "buf_safe (delete_pending k (clear_pending s))"
    by (rule buf_safe_delete [OF start]) (simp add: put_keys_start)
  then have "sm_store (flush_pending (delete_pending k (clear_pending s))) = bm_remove k (sm_store s)"
    by (subst view_flush) (simp_all add: buf_safe_def)
  moreover have "sm_store (flush_pending (save_pending k v (clear_pending s))) = bm_insert k v (sm_store s)"
    using buf_safe_save [OF start, of k v] by (subst view_flush) (simp_all add: buf_safe_def)
  ultimately show "flush_pending (save_pending k v (clear_pending s)) = sm_new (bm_insert k v (sm_store s))"
    "flush_pending (delete_pending k (clear_pending s)) = sm_new (bm_remove k (sm_store s))"
    by (intro sm.equality; simp add: sm_new_def)+
qed

lemma login_commands:
  assumes "sm_pending s = []"
  shows "apply_command E (MultiSessionLogin h i e sid) now s =
      (sm_new (bm_insert (session_key_with sid) (SSession
        \<lparr>as_token_hash = h, as_issued_at = i, as_expires_at = e, as_device_id = ''cli'', as_principal = Admin\<rparr>) (sm_store s)), Inr [])"
    and "get_project_admin s u = Inr (Some a) \<Longrightarrow> apply_command E (MultiPaSessionLogin u h i e d sid) now s =
      (sm_new (bm_insert (pa_session_key_with u sid) (SSession
        \<lparr>as_token_hash = h, as_issued_at = i, as_expires_at = e, as_device_id = d,
         as_principal = ProjectAdmin u (pa_project a)\<rparr>) (sm_store s)), Inr [])"
    and "get_global_admin s u = Inr (Some g) \<Longrightarrow> apply_command E (MultiGaSessionLogin u h i e d sid) now s =
      (sm_new (bm_insert (ga_session_key_with u sid) (SSession
        \<lparr>as_token_hash = h, as_issued_at = i, as_expires_at = e, as_device_id = d,
         as_principal = GlobalAdmin (ga_username g)\<rparr>) (sm_store s)), Inr [])"
  using flush_one(1) [of _ _ s]
  by (simp_all add: apply_command_def clear_nothing [OF assms] buffered_def done_with_def ok_or_simps
      apply_multi_session_login_def apply_multi_pa_session_login_def apply_multi_ga_session_login_def)

lemma logout_commands:
  "apply_command E (MultiSessionLogout sid) now s = (sm_new (bm_remove (session_key_with sid) (sm_store s)), Inr [])"
  "apply_command E (MultiPaSessionLogout u sid) now s = (sm_new (bm_remove (pa_session_key_with u sid) (sm_store s)), Inr [])"
  "apply_command E (MultiGaSessionLogout u sid) now s = (sm_new (bm_remove (ga_session_key_with u sid) (sm_store s)), Inr [])"
  by (simp_all add: apply_command_def buffered_def done_with_def flush_one
      apply_multi_session_logout_def apply_multi_pa_session_logout_def apply_multi_ga_session_logout_def)

lemma found_session:
  "found (load_merged as_session (sm_new (bm_insert k (SSession x) m)) k) = Some x"
  "found (load_merged as_session (sm_new (bm_remove k m)) k) = None"
  by (simp_all add: load_merged_eq decode_with_def found_def)

lemma found_Some: "found r = Some x \<longleftrightarrow> r = Inr (Some x)"
  by (auto simp: found_def split: sum.splits)

text \<open>A session stored under the key a token names, and gone again.\<close>

definition session_key_of :: "principal \<Rightarrow> string \<Rightarrow> string" where
  "session_key_of who sid = (case who of
     Admin \<Rightarrow> session_key_with sid
   | GlobalAdmin u \<Rightarrow> ga_session_key_with u sid
   | ProjectAdmin u p \<Rightarrow> pa_session_key_with u sid)"

definition token_of :: "principal \<Rightarrow> string \<Rightarrow> string \<Rightarrow> string" where
  "token_of who sid secret = (case who of
     Admin \<Rightarrow> new_admin_token sid secret
   | GlobalAdmin u \<Rightarrow> new_ga_token u sid secret
   | ProjectAdmin u p \<Rightarrow> new_pa_token u sid secret)"

definition dot_free_name :: "principal \<Rightarrow> bool" where
  "dot_free_name who = (case who of Admin \<Rightarrow> True | GlobalAdmin u \<Rightarrow> CHR ''.'' \<notin> set u | ProjectAdmin u p \<Rightarrow> CHR ''.'' \<notin> set u)"

lemma token_names_session:
  assumes "dot_free_name who" "CHR ''.'' \<notin> set sid"
  shows "token_session s (token_of who sid secret) = found (load_merged as_session s (session_key_of who sid))"
    and "token_session_id (Some (''Bearer '' @ token_of who sid secret)) = Some sid"
  using assms token_parts [of _ sid]
  by (cases who; simp add: token_of_def session_key_of_def dot_free_name_def get_session_with_def
      get_pa_session_with_def get_ga_session_with_def)+

lemma token_works:
  assumes "dot_free_name who" "CHR ''.'' \<notin> set sid"
    "as_token_hash x = h (token_of who sid secret)" "unexpired clock x"
  shows "resolve_principal \<lparr>sv_sm = sm_new (bm_insert (session_key_of who sid) (SSession x) m), sv_now = clock,
      sv_hash = h, sv_dev_token = dev\<rparr> (Some (''Bearer '' @ token_of who sid secret)) = Some (as_principal x)"
  using token_names_session(1) [OF assms(1,2)] found_session(1) assms(3,4)
  by (simp add: resolve_principal_def bearer_token del: append.simps)

lemma token_ends:
  assumes "dot_free_name who" "CHR ''.'' \<notin> set sid"
  shows "resolve_principal \<lparr>sv_sm = sm_new (bm_remove (session_key_of who sid) m), sv_now = clock,
      sv_hash = h, sv_dev_token = dev\<rparr> (Some (''Bearer '' @ token_of who sid secret)) = None"
  using token_names_session(1) [OF assms] found_session(2)
  by (simp add: resolve_principal_def bearer_token del: append.simps)

lemma logout_done:
  assumes "\<not> le_poisoned L" "dot_free_name who" "CHR ''.'' \<notin> set sid"
  shows "logout L Here now (Some (''Bearer '' @ token_of who sid secret)) who s =
    (sm_new (bm_remove (session_key_of who sid) (sm_store s)),
     [audit_cmd now ''logout'' None None None None (no_detail L) (principal_op who)], Inr ())"
  unfolding logout_def token_names_session(2) [OF assms(2,3)]
  by (cases who) (simp_all add: logout_command_def app_write_def assms(1) logout_commands session_key_of_def)

section \<open>A session from login to logout\<close>

text \<open>Whose password a request gives.\<close>

definition proves_identity :: "login_env \<Rightarrow> login_req \<Rightarrow> sm \<Rightarrow> principal \<Rightarrow> bool" where
  "proves_identity L req s who \<longleftrightarrow> (case account_username req of
     None \<Rightarrow> who = Admin \<and> admin_password_ok L (lr_password req) s
   | Some u \<Rightarrow> (case found (get_global_admin s u) of
       Some g \<Rightarrow> who = GlobalAdmin u \<and> verify_password L (lr_password req) (ga_password_hash g) (ga_salt g)
     | None \<Rightarrow> (case found (get_project_admin s u) of
         Some a \<Rightarrow> who = ProjectAdmin u (pa_project a) \<and>
           verify_password L (lr_password req) (pa_password_hash a) (pa_salt a)
       | None \<Rightarrow> False)))"

lemma valid_username_dot: "valid_account_username u \<Longrightarrow> CHR ''.'' \<notin> set u"
  by (auto simp: valid_account_username_def list_all_iff is_alnum_def is_lower_def is_upper_def is_digit_def
      dest!: bspec [of _ _ "CHR ''.''"])

text \<open>One turn of the loop at a node that applies the command itself.\<close>

lemma session_turn:
  assumes "session_loop L mk_token mk_cmd done hides audit key [tn] (s, th) = ((s1, th1), cmds, Some (Inr resp))"
    "tn_route tn = Here"
  shows "\<not> le_poisoned L" "resp = done (mk_token (tn_sid tn) (tn_secret tn))"
    "\<exists>ev. apply_command (le_ext L) (mk_cmd (le_hash L (mk_token (tn_sid tn) (tn_secret tn))) (tn_now tn)
        (session_expiry L (tn_now tn)) (tn_sid tn)) (tn_now tn) s = (s1, Inr ev)"
  using assms
  by (auto simp: app_write_def leader_answer_def Let_def split: prod.splits sum.splits if_splits)

text \<open>The session that a login has stored, under the key its token names.\<close>

definition issues :: "login_env \<Rightarrow> principal \<Rightarrow> turn \<Rightarrow> login_resp \<Rightarrow> sm \<Rightarrow> sm \<Rightarrow> bool" where
  "issues L who tn resp s s1 \<longleftrightarrow> \<not> le_poisoned L \<and> lp_token resp = token_of who (tn_sid tn) (tn_secret tn) \<and>
     (\<exists>x. s1 = sm_new (bm_insert (session_key_of who (tn_sid tn)) (SSession x) (sm_store s)) \<and>
        as_token_hash x = le_hash L (lp_token resp) \<and> as_expires_at x = session_expiry L (tn_now tn) \<and> as_principal x = who)"

lemma admin_login_issues:
  assumes "admin_login L inst wall key req [tn] (s, th) = ((s1, th1), cmds, Some (Inr resp))" "tn_route tn = Here"
    "sm_pending s = []"
  shows "admin_password_ok L (lr_password req) s \<and> issues L Admin tn resp s s1"
proof -
  have pw: "admin_password_ok L (lr_password req) s"
    using assms(1) by (auto simp: admin_login_def refuse_login_def split: if_splits)
  have "admin_login L inst wall key req [tn] (s, th) = session_loop L new_admin_token
      (\<lambda>h now expires sid. MultiSessionLogin h now expires sid)
      (\<lambda>token. \<lparr>lp_token = token, lp_role = Some ''admin'', lp_project = None, lp_username = None\<rparr>)
      False (\<lambda>now. audit_cmd now ''login'' None None None None (no_detail L) ''admin'') key [tn] (s, th)"
    using pw by (simp add: admin_login_def)
  note turn = session_turn [OF trans [OF this [symmetric] assms(1)] assms(2)]
  from pw turn show ?thesis
    by (simp add: issues_def token_of_def session_key_of_def login_commands(1) [OF assms(3)]) auto
qed

lemma ga_login_issues:
  assumes "ga_login L inst wall key req u [tn] (s, th) = ((s1, th1), cmds, Some (Inr resp))" "tn_route tn = Here"
    "sm_pending s = []" "store_wf (sm_store s)"
  shows "\<exists>g. found (get_global_admin s u) = Some g \<and>
    verify_password L (lr_password req) (ga_password_hash g) (ga_salt g) \<and> issues L (GlobalAdmin u) tn resp s s1"
proof -
  obtain g where g: "found (get_global_admin s u) = Some g"
    "verify_password L (lr_password req) (ga_password_hash g) (ga_salt g)"
    using assms(1) by (auto simp: ga_login_def refuse_login_def split: if_splits option.splits)
  then have "bm_get (sm_store s) (global_admin_key u) = Some (SGa g)"
    by (simp add: found_Some get_global_admin_def load_merged_Some view_start [OF assms(3)])
  then have u: "ga_username g = u" using store_wf_get [OF assms(4)] entry_ok_ga by blast
  have "ga_login L inst wall key req u [tn] (s, th) = session_loop L (new_ga_token u)
      (\<lambda>h now expires sid. MultiGaSessionLogin u h now expires ''cli'' sid)
      (\<lambda>token. \<lparr>lp_token = token, lp_role = Some ''global_admin'', lp_project = None, lp_username = Some u\<rparr>)
      True (\<lambda>now. audit_cmd now ''login'' None None None None (user_detail L u) (''ga:'' @ u)) key [tn] (s, th)"
    using g by (simp add: ga_login_def Let_def)
  note turn = session_turn [OF trans [OF this [symmetric] assms(1)] assms(2)]
  from g u turn show ?thesis
    by (simp add: issues_def token_of_def session_key_of_def login_commands(3) [OF assms(3)] found_Some) auto
qed

lemma pa_login_issues:
  assumes "pa_login L inst wall key req u [tn] (s, th) = ((s1, th1), cmds, Some (Inr resp))" "tn_route tn = Here"
    "sm_pending s = []"
  shows "\<exists>a. found (get_project_admin s u) = Some a \<and>
    verify_password L (lr_password req) (pa_password_hash a) (pa_salt a) \<and>
    issues L (ProjectAdmin u (pa_project a)) tn resp s s1"
proof -
  obtain a where a: "found (get_project_admin s u) = Some a"
    "verify_password L (lr_password req) (pa_password_hash a) (pa_salt a)"
    using assms(1) by (auto simp: pa_login_def refuse_login_def Let_def split: if_splits option.splits)
  have "pa_login L inst wall key req u [tn] (s, th) = session_loop L (new_pa_token u)
      (\<lambda>h now expires sid. MultiPaSessionLogin u h now expires ''cli'' sid)
      (\<lambda>token. \<lparr>lp_token = token, lp_role = Some ''project_admin'', lp_project = Some (pa_project a), lp_username = Some u\<rparr>)
      True (\<lambda>now. audit_cmd now ''login'' (Some (pa_project a)) None None None (user_detail L u) (''pa:'' @ u)) key [tn] (s, th)"
    using a by (simp add: pa_login_def Let_def)
  note turn = session_turn [OF trans [OF this [symmetric] assms(1)] assms(2)]
  from a turn show ?thesis
    by (simp add: issues_def token_of_def session_key_of_def login_commands(2) [OF assms(3)] found_Some) auto
qed

lemma login_issues:
  assumes "login L inst wall key req [tn] (s, th) = ((s1, th1), cmds, Some (Inr resp))" "tn_route tn = Here"
    "sm_pending s = []" "store_wf (sm_store s)" "\<forall>u. account_username req = Some u \<longrightarrow> valid_account_username u"
  obtains who where "proves_identity L req s who" "issues L who tn resp s s1" "dot_free_name who"
proof -
  obtain b th0 where b: "throttle_blocked inst key th = (b, th0)" by (cases "throttle_blocked inst key th") auto
  have log: "(case account_username req of
          Some u \<Rightarrow>
            if found (get_global_admin s u) \<noteq> None then ga_login L inst wall key req u [tn] (s, th0)
            else pa_login L inst wall key req u [tn] (s, th0)
        | None \<Rightarrow> admin_login L inst wall key req [tn] (s, th0)) = ((s1, th1), cmds, Some (Inr resp))"
    using assms(1) b by (auto simp: login_def split: if_splits)
  show thesis
  proof (cases "account_username req")
    case None
    then show thesis
      using log admin_login_issues [OF _ assms(2,3)] that [of Admin] by (simp add: proves_identity_def dot_free_name_def)
  next
    case (Some u)
    note name = this
    then have u: "CHR ''.'' \<notin> set u" using assms(5) valid_username_dot by blast
    show thesis
    proof (cases "found (get_global_admin s u)")
      case None
      then have "pa_login L inst wall key req u [tn] (s, th0) = ((s1, th1), cmds, Some (Inr resp))"
        using log Some by simp
      from pa_login_issues [OF this assms(2,3)] obtain a where a: "found (get_project_admin s u) = Some a"
        "verify_password L (lr_password req) (pa_password_hash a) (pa_salt a)"
        "issues L (ProjectAdmin u (pa_project a)) tn resp s s1" by blast
      show thesis
        by (rule that [OF _ a(3)]) (simp_all add: proves_identity_def dot_free_name_def Some None a(1,2) u)
    next
      case (Some g)
      then have "ga_login L inst wall key req u [tn] (s, th0) = ((s1, th1), cmds, Some (Inr resp))"
        using log name by simp
      from ga_login_issues [OF this assms(2-4)] have g:
        "verify_password L (lr_password req) (ga_password_hash g) (ga_salt g)" "issues L (GlobalAdmin u) tn resp s s1"
        using Some by auto
      show thesis
        by (rule that [OF _ g(2)]) (simp_all add: proves_identity_def dot_free_name_def name Some g(1) u)
    qed
  qed
qed

text \<open>
  C33: A session from login to logout. When a node that applies commands itself answers a login with a token,
  the request has given the password of the super administrator, or of the global or else the project
  administrator of that name; the token names exactly this principal until the session expires; and after the
  logout with this token nobody is named by it, while every other record is what it was before the login.
\<close>

theorem session_roundtrip:
  assumes "reach tame E s"
    and "login L inst wall key req [tn] (s, th) = ((s1, th1), cmds, Some (Inr resp))" "tn_route tn = Here"
    and "CHR ''.'' \<notin> set (tn_sid tn)" "\<forall>u. account_username req = Some u \<longrightarrow> valid_account_username u"
  shows "\<exists>who. proves_identity L req s who \<and>
    (\<forall>clock dev. (\<forall>e. session_expiry L (tn_now tn) = Some e \<longrightarrow> clock < e) \<longrightarrow>
       resolve_principal \<lparr>sv_sm = s1, sv_now = clock, sv_hash = le_hash L, sv_dev_token = dev\<rparr>
         (Some (''Bearer '' @ lp_token resp)) = Some who) \<and>
    (\<exists>s2 trail. logout L Here wall (Some (''Bearer '' @ lp_token resp)) who s1 = (s2, trail, Inr ()) \<and>
       (\<forall>clock dev. resolve_principal \<lparr>sv_sm = s2, sv_now = clock, sv_hash = le_hash L, sv_dev_token = dev\<rparr>
         (Some (''Bearer '' @ lp_token resp)) = None) \<and>
       (\<forall>k. k \<noteq> session_key_of who (tn_sid tn) \<longrightarrow> bm_get (sm_store s2) k = bm_get (sm_store s) k))"
proof -
  have ok: "sm_pending s = []" "store_wf (sm_store s)" using reach_rest_ok [OF assms(1)] by (simp_all add: rest_ok_def)
  obtain who where who: "proves_identity L req s who" "issues L who tn resp s s1" "dot_free_name who"
    using login_issues [OF assms(2,3) ok assms(5)] .
  let ?k = "session_key_of who (tn_sid tn)"
  obtain x where x: "\<not> le_poisoned L" "lp_token resp = token_of who (tn_sid tn) (tn_secret tn)"
    "s1 = sm_new (bm_insert ?k (SSession x) (sm_store s))" "as_token_hash x = le_hash L (lp_token resp)"
    "as_expires_at x = session_expiry L (tn_now tn)" "as_principal x = who"
    using who(2) unfolding issues_def by blast
  have live: "unexpired clock x" if "\<forall>e. session_expiry L (tn_now tn) = Some e \<longrightarrow> clock < e" for clock
    using that x(5) by (simp add: unexpired_def split: option.splits)
  define s2 where "s2 = sm_new (bm_remove ?k (bm_insert ?k (SSession x) (sm_store s)))"
  have out: "logout L Here wall (Some (''Bearer '' @ lp_token resp)) who s1 =
      (s2, [audit_cmd wall ''logout'' None None None None (no_detail L) (principal_op who)], Inr ())"
    unfolding x(2) s2_def by (subst logout_done [OF x(1) who(3) assms(4)]) (simp add: x(3) sm_new_def)
  have rest: "bm_get (sm_store s2) k = bm_get (sm_store s) k" if "k \<noteq> ?k" for k
    using that by (simp add: s2_def sm_new_def)
  have works: "resolve_principal \<lparr>sv_sm = s1, sv_now = clock, sv_hash = le_hash L, sv_dev_token = dev\<rparr>
      (Some (''Bearer '' @ lp_token resp)) = Some who"
    if "\<forall>e. session_expiry L (tn_now tn) = Some e \<longrightarrow> clock < e" for clock dev
    using token_works [OF who(3) assms(4), of x "le_hash L" "tn_secret tn" clock "sm_store s" dev] live [OF that] x(4)
    unfolding x(2,3,6) by blast
  have ends: "resolve_principal \<lparr>sv_sm = s2, sv_now = clock, sv_hash = le_hash L, sv_dev_token = dev\<rparr>
      (Some (''Bearer '' @ lp_token resp)) = None" for clock dev
    unfolding s2_def x(2) by (rule token_ends [OF who(3) assms(4)])
  show ?thesis using who(1) works ends out rest by blast
qed

section \<open>How many guesses a key has\<close>

text \<open>
  Attempts one after the other, each with the state of the machine it meets; only the throttle is carried
  from one to the next.
\<close>

record attempt =
  at_inst :: nat
  at_wall :: int
  at_key :: string
  at_req :: login_req
  at_turns :: "turn list"
  at_sm :: sm

definition attempt_login :: "login_env \<Rightarrow> attempt \<Rightarrow> throttle \<Rightarrow> login_reply" where
  "attempt_login L a th = login L (at_inst a) (at_wall a) (at_key a) (at_req a) (at_turns a) (at_sm a, th)"

fun run_logins :: "login_env \<Rightarrow> attempt list \<Rightarrow> throttle \<Rightarrow> (attempt \<times> login_reply) list" where
  "run_logins L [] th = []"
| "run_logins L (a # as) th = (let r = attempt_login L a th in (a, r) # run_logins L as (snd (fst r)))"

text \<open>A wrong guess is told by its audit entry: the password has been looked at and was wrong.\<close>

definition wrong_guess :: "login_reply \<Rightarrow> bool" where
  "wrong_guess r \<longleftrightarrow> list_ex (\<lambda>c. case c of AuditAppend e \<Rightarrow> au_action e = ''login_failed'' | _ \<Rightarrow> False) (fst (snd r))"

definition signed_in :: "login_reply \<Rightarrow> bool" where
  "signed_in r \<longleftrightarrow> (case snd (snd r) of Some (Inr resp) \<Rightarrow> True | _ \<Rightarrow> False)"

definition wrong_guesses :: "string \<Rightarrow> (attempt \<times> login_reply) list \<Rightarrow> nat" where
  "wrong_guesses key rs = length (filter (\<lambda>(a, r). at_key a = key \<and> wrong_guess r) rs)"

lemma audit_not_failed: "wrong_guess (st, [audit_cmd now ''login'' p b v i d op], x) \<longleftrightarrow> False"
  "wrong_guess (st, [audit_cmd now ''login_failed'' p b v i d op], x)" "\<not> wrong_guess (st, [], x)"
  by (simp_all add: wrong_guess_def audit_cmd_def)

text \<open>What an attempt does to the throttle, once it is not blocked.\<close>

definition throttled :: "nat \<Rightarrow> string \<Rightarrow> throttle \<Rightarrow> login_reply \<Rightarrow> bool" where
  "throttled inst key th r \<longleftrightarrow>
     (if wrong_guess r then snd (fst r) = record_failure inst key th
      else snd (fst r) = (if signed_in r then throttle_reset key th else th))"

lemma session_loop_throttled:
  assumes "\<And>now. \<not> wrong_guess (st, [audit now], x)"
  shows "throttled inst key th (session_loop L mk_token mk_cmd done hides audit key tns (s, th))"
proof (induction tns arbitrary: s)
  case Nil
  then show ?case by (simp add: throttled_def signed_in_def audit_not_failed)
next
  case (Cons tn tns)
  have no: "\<not> wrong_guess (st, [audit now], x)" for st x now
    using assms by (simp add: wrong_guess_def)
  show ?case
    using Cons by (auto simp: Let_def throttled_def signed_in_def audit_not_failed no split: prod.split sum.split option.split)
qed

lemma refuse_throttled: "throttled inst key (snd st) (refuse_login inst wall key d op st)"
  by (simp add: throttled_def refuse_login_def audit_not_failed)

lemma login_throttled:
  assumes "throttle_blocked inst key th = (b, th0)"
  shows "if b then snd (fst (login L inst wall key req tns (s, th))) = th0 \<and> \<not> wrong_guess (login L inst wall key req tns (s, th))
    else throttled inst key th0 (login L inst wall key req tns (s, th))"
proof (cases b)
  case True
  then show ?thesis using assms by (simp add: login_def audit_not_failed)
next
  case False
  note loop = session_loop_throttled [where st = undefined and x = undefined] audit_not_failed(1)
  have "throttled inst key th0 (ga_login L inst wall key req u tns (s, th0))"
    "throttled inst key th0 (pa_login L inst wall key req u tns (s, th0))"
    "throttled inst key th0 (admin_login L inst wall key req tns (s, th0))" for u
    using refuse_throttled [of inst key "(s, th0)"] loop
    by (simp_all add: ga_login_def pa_login_def admin_login_def Let_def)
  then show ?thesis using False assms by (simp add: login_def split: option.split)
qed

text \<open>The count of a key, against the windows that have begun since \<open>t0\<close>.\<close>

definition window_count :: "nat \<Rightarrow> nat \<Rightarrow> nat \<Rightarrow> (nat \<times> nat) option \<Rightarrow> bool" where
  "window_count t0 now n e \<longleftrightarrow> (case e of
     None \<Rightarrow> (\<exists>w. n \<le> MAX_FAILURES * w \<and> t0 + w * THROTTLE_WINDOW \<le> now)
   | Some (c, begun) \<Rightarrow> c \<le> MAX_FAILURES \<and> begun \<le> now \<and> (\<exists>w. n \<le> MAX_FAILURES * w + c \<and> t0 + w * THROTTLE_WINDOW \<le> begun))"

lemma window_count_later: "window_count t0 now n e \<Longrightarrow> now \<le> later \<Longrightarrow> window_count t0 later n e"
  by (force simp: window_count_def split: option.splits)

lemma window_count_bound:
  assumes "window_count t0 now n e"
  shows "n \<le> MAX_FAILURES * ((now - t0) div THROTTLE_WINDOW + 1)"
proof -
  obtain w where w: "n \<le> MAX_FAILURES * (w + 1)" "t0 + w * THROTTLE_WINDOW \<le> now"
  proof (cases e)
    case None
    then obtain w where "n \<le> MAX_FAILURES * w" "t0 + w * THROTTLE_WINDOW \<le> now"
      using assms by (auto simp: window_count_def)
    then show ?thesis using that [of w] by simp
  next
    case (Some p)
    then obtain c begun w where "c \<le> MAX_FAILURES" "begun \<le> now" "n \<le> MAX_FAILURES * w + c" "t0 + w * THROTTLE_WINDOW \<le> begun"
      using assms by (cases p) (auto simp: window_count_def)
    then show ?thesis using that [of w] by simp
  qed
  then have "w * THROTTLE_WINDOW \<le> now - t0" by simp
  then have "w \<le> (now - t0) div THROTTLE_WINDOW" by (simp add: less_eq_div_iff_mult_less_eq THROTTLE_WINDOW_def)
  then show ?thesis using w(1) by (meson add_le_mono1 le_trans mult_le_mono2)
qed

lemma blocked_count:
  assumes "throttle_blocked now key th = (b, th0)" "window_count t0 now n (bm_get th key)"
  shows "window_count t0 now n (bm_get th0 key)"
    and "\<not> b \<Longrightarrow> window_count t0 now (n + 1) (bm_get (record_failure now key th0) key)"
    and "k \<noteq> key \<Longrightarrow> bm_get th0 k = bm_get th k"
proof -
  consider "bm_get th key = None" "th0 = th" "\<not> b"
    | c begun where "bm_get th key = Some (c, begun)" "now - begun \<ge> THROTTLE_WINDOW" "th0 = bm_remove key th" "\<not> b"
    | c begun where "bm_get th key = Some (c, begun)" "\<not> now - begun \<ge> THROTTLE_WINDOW" "th0 = th" "b \<longleftrightarrow> c \<ge> MAX_FAILURES"
    using assms(1) by (auto simp: throttle_blocked_def split: option.splits if_splits)
  then have "window_count t0 now n (bm_get th0 key) \<and>
      (\<not> b \<longrightarrow> window_count t0 now (n + 1) (bm_get (record_failure now key th0) key)) \<and> (k \<noteq> key \<longrightarrow> bm_get th0 k = bm_get th k)"
  proof cases
    case 1
    then show ?thesis using assms(2) by (auto simp: window_count_def record_failure_def MAX_FAILURES_def)
  next
    case 2
    obtain w where w: "n \<le> MAX_FAILURES * w + c" "c \<le> MAX_FAILURES" "t0 + w * THROTTLE_WINDOW \<le> begun" "begun \<le> now"
      using assms(2) 2(1) by (auto simp: window_count_def)
    have "n \<le> MAX_FAILURES * (w + 1)" "t0 + (w + 1) * THROTTLE_WINDOW \<le> now" using w 2(2) by simp_all
    then have "\<exists>w. n \<le> MAX_FAILURES * w \<and> t0 + w * THROTTLE_WINDOW \<le> now" by blast
    then show ?thesis using 2 by (auto simp: window_count_def record_failure_def MAX_FAILURES_def)
  next
    case 3
    then show ?thesis using assms(2) by (auto simp: window_count_def record_failure_def)
  qed
  then show "window_count t0 now n (bm_get th0 key)"
    "\<not> b \<Longrightarrow> window_count t0 now (n + 1) (bm_get (record_failure now key th0) key)"
    "k \<noteq> key \<Longrightarrow> bm_get th0 k = bm_get th k" by blast+
qed

lemma record_other: "k \<noteq> key \<Longrightarrow> bm_get (record_failure now key th) k = bm_get th k"
  by (auto simp: record_failure_def split: option.splits)

text \<open>One attempt.\<close>

lemma attempt_count:
  assumes "window_count t0 (at_inst a) n (bm_get th key)" "at_key a = key \<Longrightarrow> \<not> signed_in (attempt_login L a th)"
  shows "window_count t0 (at_inst a) (n + (if at_key a = key \<and> wrong_guess (attempt_login L a th) then 1 else 0))
    (bm_get (snd (fst (attempt_login L a th))) key)"
proof -
  obtain b th0 where b: "throttle_blocked (at_inst a) (at_key a) th = (b, th0)"
    by (cases "throttle_blocked (at_inst a) (at_key a) th") auto
  note r = login_throttled [OF b, of L "at_wall a" "at_req a" "at_turns a" "at_sm a", folded attempt_login_def]
  show ?thesis
  proof (cases "at_key a = key")
    case True
    note count = blocked_count(1,2) [OF b] assms(1)
    show ?thesis using r assms(2) [OF True] count True
      by (cases b) (auto simp: throttled_def split: if_splits)
  next
    case False
    have "bm_get (snd (fst (attempt_login L a th))) key = bm_get th0 key"
      using r False by (cases b) (auto simp: throttled_def record_other throttle_reset_def split: if_splits)
    moreover have "bm_get th0 key = bm_get th key"
      using b False by (auto simp: throttle_blocked_def split: option.splits if_splits)
    ultimately show ?thesis using False assms(1) by simp
  qed
qed

lemma run_count:
  assumes "sorted (map at_inst as)" "\<forall>(a, r) \<in> set (run_logins L as th). at_key a = key \<longrightarrow> \<not> signed_in r"
    "as \<noteq> []" "window_count t0 (at_inst (hd as)) n (bm_get th key)"
  shows "\<exists>e. window_count t0 (at_inst (last as)) (n + wrong_guesses key (run_logins L as th)) e"
  using assms
proof (induction as arbitrary: th n)
  case (Cons a as)
  define th1 where "th1 = snd (fst (attempt_login L a th))"
  define m where "m = n + (if at_key a = key \<and> wrong_guess (attempt_login L a th) then 1 else 0)"
  have next_count: "window_count t0 (at_inst a) m (bm_get th1 key)"
    unfolding m_def th1_def using Cons.prems by (intro attempt_count) (auto simp: Let_def)
  have total: "n + wrong_guesses key (run_logins L (a # as) th) = m + wrong_guesses key (run_logins L as th1)"
    by (simp add: wrong_guesses_def Let_def m_def th1_def)
  show ?case
  proof (cases "as = []")
    case True
    then show ?thesis using next_count total by (auto simp: wrong_guesses_def)
  next
    case False
    have "at_inst a \<le> at_inst (hd as)" using Cons.prems(1) False by (cases as) auto
    then have "\<exists>e. window_count t0 (at_inst (last as)) (m + wrong_guesses key (run_logins L as th1)) e"
      using Cons.prems False window_count_later [OF next_count]
      by (intro Cons.IH) (auto simp: Let_def th1_def)
    then show ?thesis using False total by simp
  qed
qed simp

text \<open>
  C34: The guesses at passwords are bounded. Whatever attempts arrive one after the other, for whatever
  accounts, with whatever states of the machine in between and mixed with attempts from elsewhere: in a run that
  starts without a record of the throttle key and in which nobody signs in under it (that would reset its counter),
  the node checks at most five wrong passwords for the key in each full or begun ten minutes of the time between
  the first and the last attempt.
\<close>

theorem guesses_bounded:
  assumes "sorted (map at_inst as)" "as \<noteq> []" "bm_get th key = None"
    and "\<forall>(a, r) \<in> set (run_logins L as th). at_key a = key \<longrightarrow> \<not> signed_in r"
  shows "wrong_guesses key (run_logins L as th) \<le> 5 * ((at_inst (last as) - at_inst (hd as)) div 600000 + 1)"
proof -
  have "window_count (at_inst (hd as)) (at_inst (hd as)) 0 (bm_get th key)"
    using assms(3) by (simp add: window_count_def)
  from run_count [OF assms(1,4,2) this] window_count_bound
  show ?thesis unfolding MAX_FAILURES_def THROTTLE_WINDOW_def by fastforce
qed

text \<open>A node with the password \<open>root\<close>, a login from one address, and seven wrong guesses from another.\<close>

definition sample_login :: login_env where
  "sample_login = \<lparr>le_hash = (\<lambda>t. t), le_argon = (\<lambda>p h. False), le_admin_password = ''root'', le_ttl = 60000,
     le_poisoned = False, le_ext = sample_ext, le_serde = sample_serde\<rparr>"

definition sample_turn :: turn where
  "sample_turn = \<lparr>tn_now = 10, tn_sid = ''s1'', tn_secret = ''x'', tn_route = Here, tn_answer = None, tn_late = False\<rparr>"

definition sample_login_req :: login_req where
  "sample_login_req = \<lparr>lr_password = ''root'', lr_username = None\<rparr>"

definition sample_resp :: login_resp where
  "sample_resp = \<lparr>lp_token = ''adm.s1.x'', lp_role = Some ''admin'', lp_project = None, lp_username = None\<rparr>"

definition sample_reply :: login_reply where
  "sample_reply = login sample_login 0 10 ''10.0.0.1'' sample_login_req [sample_turn] (sm_new bm_empty, bm_empty)"

lemma sample_unpoisoned: "\<not> le_poisoned sample_login" "sm_pending (sm_new m) = []"
  by (simp_all add: sample_login_def sm_new_def)

lemma sample_reply_eq:
  "login sample_login 0 10 ''10.0.0.1'' sample_login_req [sample_turn] (sm_new bm_empty, bm_empty) =
     ((fst (fst sample_reply), snd (fst sample_reply)), fst (snd sample_reply), Some (Inr sample_resp))"
proof -
  have "found (get_admin_password_hash (sm_new bm_empty)) = None"
    by (simp add: get_admin_password_hash_def load_merged_eq found_def)
  then have pw: "admin_password_ok sample_login (lr_password sample_login_req) (sm_new bm_empty)"
    by (simp add: admin_password_ok_def sample_login_def sample_login_req_def)
  have "throttle_blocked 0 ''10.0.0.1'' bm_empty = (False, bm_empty)" by (simp add: throttle_blocked_def)
  then have "sample_reply = admin_login sample_login 0 10 ''10.0.0.1'' sample_login_req [sample_turn] (sm_new bm_empty, bm_empty)"
    by (simp add: sample_reply_def login_def account_username_def sample_login_req_def)
  moreover have "snd (snd (admin_login sample_login 0 10 ''10.0.0.1'' sample_login_req [sample_turn] (sm_new bm_empty, bm_empty)))
      = Some (Inr sample_resp)"
    using pw
    by (simp add: admin_login_def sample_turn_def app_write_def sample_resp_def new_admin_token_def Let_def
        login_commands(1) sample_unpoisoned)
  ultimately have "snd (snd sample_reply) = Some (Inr sample_resp)" by simp
  then show ?thesis by (simp add: sample_reply_def prod_eq_iff)
qed

theorem session_roundtrip_witness:
  "\<exists>who. proves_identity sample_login sample_login_req (sm_new bm_empty) who \<and>
    resolve_principal \<lparr>sv_sm = fst (fst sample_reply), sv_now = 60000, sv_hash = (\<lambda>t. t), sv_dev_token = None\<rparr>
      (Some ''Bearer adm.s1.x'') = Some who"
proof -
  have facts: "tn_route sample_turn = Here" "CHR ''.'' \<notin> set (tn_sid sample_turn)"
    "\<forall>u. account_username sample_login_req = Some u \<longrightarrow> valid_account_username u"
    "session_expiry sample_login (tn_now sample_turn) = Some 60010" "lp_token sample_resp = ''adm.s1.x''"
    "le_hash sample_login = (\<lambda>t. t)"
    by (simp_all add: sample_turn_def account_username_def sample_login_req_def session_expiry_def sample_login_def sample_resp_def)
  from session_roundtrip [OF reach.empty [of False sample_ext] sample_reply_eq facts(1-3)] obtain who where
    who: "proves_identity sample_login sample_login_req (sm_new bm_empty) who"
    "\<forall>clock dev. (\<forall>e. session_expiry sample_login (tn_now sample_turn) = Some e \<longrightarrow> clock < e) \<longrightarrow>
       resolve_principal \<lparr>sv_sm = fst (fst sample_reply), sv_now = clock, sv_hash = le_hash sample_login, sv_dev_token = dev\<rparr>
         (Some (''Bearer '' @ lp_token sample_resp)) = Some who" by blast
  from who(2) [rule_format, of 60000 None] who(1) show ?thesis by (auto simp: facts)
qed

definition sample_guess :: "nat \<Rightarrow> attempt" where
  "sample_guess i = \<lparr>at_inst = 1000 * i, at_wall = 0, at_key = ''10.0.0.2'',
     at_req = \<lparr>lr_password = ''guess'', lr_username = None\<rparr>, at_turns = [], at_sm = sm_new bm_empty\<rparr>"

definition seven_guesses :: "attempt list" where
  "seven_guesses = map sample_guess [0, 1, 2, 3, 4, 5, 6]"

lemma sample_attempt:
  "attempt_login sample_login (sample_guess i) th = (
     if fst (throttle_blocked (1000 * i) ''10.0.0.2'' th)
     then ((sm_new bm_empty, snd (throttle_blocked (1000 * i) ''10.0.0.2'' th)), [], Some (Inl (Reject 429 ''ERR_TOO_MANY_ATTEMPTS'')))
     else refuse_login (1000 * i) 0 ''10.0.0.2'' [] ''admin'' (sm_new bm_empty, snd (throttle_blocked (1000 * i) ''10.0.0.2'' th)))"
proof -
  have "found (get_admin_password_hash (sm_new bm_empty)) = None"
    by (simp add: get_admin_password_hash_def load_merged_eq found_def)
  then have "\<not> admin_password_ok sample_login ''guess'' (sm_new bm_empty)"
    by (simp add: admin_password_ok_def sample_login_def)
  then show ?thesis
    by (simp add: attempt_login_def sample_guess_def login_def account_username_def admin_login_def case_prod_beta Let_def)
      (simp add: no_detail_def sample_login_def sample_serde_def)
qed

definition sample_refused :: "nat \<Rightarrow> login_reply" where
  "sample_refused c = ((sm_new bm_empty, bm_insert ''10.0.0.2'' (c, 0) bm_empty),
     [audit_cmd 0 ''login_failed'' None None None None [] ''admin''], Some (Inl bad_credentials))"

lemma bm_insert_twice: "bm_insert k v (bm_insert k w m) = bm_insert k v m"
  by (rule bmap_eqI) simp

lemma sample_step:
  "attempt_login sample_login (sample_guess 0) bm_empty = sample_refused 1"
  "i < 600 \<Longrightarrow> 0 < c \<Longrightarrow> c < 5 \<Longrightarrow>
     attempt_login sample_login (sample_guess i) (bm_insert ''10.0.0.2'' (c, 0) bm_empty) = sample_refused (c + 1)"
  "i < 600 \<Longrightarrow> attempt_login sample_login (sample_guess i) (bm_insert ''10.0.0.2'' (5, 0) bm_empty) =
     ((sm_new bm_empty, bm_insert ''10.0.0.2'' (5, 0) bm_empty), [], Some (Inl (Reject 429 ''ERR_TOO_MANY_ATTEMPTS'')))"
  by (simp_all add: sample_attempt sample_refused_def refuse_login_def throttle_blocked_def record_failure_def
      THROTTLE_WINDOW_def MAX_FAILURES_def bm_insert_twice)

lemma sample_run:
  "run_logins sample_login seven_guesses bm_empty =
     map (\<lambda>i. (sample_guess i, sample_refused (i + 1))) [0, 1, 2, 3, 4] @
     map (\<lambda>i. (sample_guess i, ((sm_new bm_empty, bm_insert ''10.0.0.2'' (5, 0) bm_empty), [],
       Some (Inl (Reject 429 ''ERR_TOO_MANY_ATTEMPTS''))))) [5, 6]"
proof -
  have th: "snd (fst (sample_refused c)) = bm_insert ''10.0.0.2'' (c, 0) bm_empty" for c
    by (simp add: sample_refused_def)
  note steps = sample_step(2) [of 1 1] sample_step(2) [of 2 2] sample_step(2) [of 3 3] sample_step(2) [of 4 4]
  show ?thesis
    unfolding seven_guesses_def using steps by (simp add: sample_step(1,3) th Let_def del: One_nat_def)
qed

theorem guesses_bounded_witness:
  "wrong_guesses ''10.0.0.2'' (run_logins sample_login seven_guesses bm_empty) = 5 \<and>
   wrong_guesses ''10.0.0.2'' (run_logins sample_login seven_guesses bm_empty) \<le>
     5 * ((at_inst (last seven_guesses) - at_inst (hd seven_guesses)) div 600000 + 1)"
proof -
  have a: "sorted (map at_inst seven_guesses)" "seven_guesses \<noteq> []" "bm_get bm_empty ''10.0.0.2'' = (None :: (nat \<times> nat) option)"
    by (simp_all add: seven_guesses_def sample_guess_def)
  have b: "\<forall>(a, r) \<in> set (run_logins sample_login seven_guesses bm_empty). at_key a = ''10.0.0.2'' \<longrightarrow> \<not> signed_in r"
    by (simp add: sample_run signed_in_def sample_refused_def)
  have c: "wrong_guesses ''10.0.0.2'' (run_logins sample_login seven_guesses bm_empty) = 5"
    by (simp add: sample_run wrong_guesses_def wrong_guess_def audit_cmd_def sample_guess_def sample_refused_def)
  from c guesses_bounded [OF a b] show ?thesis by blast
qed

end
