(* ===== verification/Watch.thy ===== *)
theory Watch
  imports Account_Inv
begin

text \<open>
  The watch stream: the replay of missed versions (\<open>watch_branch\<close> of dsh-api) and the stream of server-sent
  events behind it (dsh-watch). The broadcast channel is a parameter: what a subscriber receives after it
  has subscribed, in order, up to the point where it lags behind or the channel closes. A locale states what a
  client relies on, that an event held back does not matter to it; a client that keeps a copy of the
  configuration and patches it with every event then follows the branch.
\<close>

section \<open>Replay\<close>

definition replay_type :: "version_record \<Rightarrow> event_type" where
  "replay_type r = (case vr_event_ty r of
     Some ty \<Rightarrow> ty
   | None \<Rightarrow> if vr_rollback_of r \<noteq> None then Rollback else ValuePublish)"

definition replay_event :: "project_id \<Rightarrow> branch_name \<Rightarrow> version_record \<Rightarrow> diff_entry list \<Rightarrow> publish_event" where
  "replay_event p b r changes =
     \<lparr>ev_project = p, ev_branch = b, ev_version = vr_no r, ev_ty = replay_type r,
      ev_structure_version = vr_structure_version r, ev_comment = vr_comment r, ev_request_id = [],
      ev_changes = changes, ev_gray = vr_gray r\<rparr>"

text \<open>The versions behind the one the client has; one that cannot be read is left out.\<close>

fun replay_events :: "sm \<Rightarrow> project_id \<Rightarrow> branch_name \<Rightarrow> nat \<Rightarrow> snapshot \<Rightarrow> version_record list \<Rightarrow> publish_event list" where
  "replay_events s p b after prev [] = []"
| "replay_events s p b after prev (r # rs) =
     (if vr_no r \<le> after then replay_events s p b after prev rs
      else (case snapshot_of s p b (vr_no r) of
          Inl e \<Rightarrow> replay_events s p b after prev rs
        | Inr cur \<Rightarrow> replay_event p b r (compute_diff prev cur) # replay_events s p b after cur rs))"

text \<open>The client's version was pruned: a full snapshot is required.\<close>

definition start_pruned :: "nat \<Rightarrow> version_record list \<Rightarrow> bool" where
  "start_pruned after hist = (hist \<noteq> [] \<and> after < vr_no (hd hist) \<and> after < vr_no (last hist))"

definition watch_replay :: "sm \<Rightarrow> project_id \<Rightarrow> branch_name \<Rightarrow> nat \<Rightarrow> publish_event list \<times> bool" where
  "watch_replay s p b after =
     (if after > 0 then
        let hist = version_history s p b in (replay_events s p b after bm_empty hist, start_pruned after hist)
      else ([], False))"

section \<open>The stream\<close>

text \<open>What the subscriber meets: an event, or the notice that it was too slow. The list ends with the channel.\<close>

datatype received = Got publish_event | Lagged

datatype sse_item = Sse_Event publish_event | Sse_Snapshot_Required string string nat

fun sse_live :: "string \<Rightarrow> string \<Rightarrow> nat \<Rightarrow> received list \<Rightarrow> sse_item list" where
  "sse_live p b shown [] = []"
| "sse_live p b shown (Lagged # rs) = []"
| "sse_live p b shown (Got e # rs) =
     (if ev_project e = p \<and> ev_branch e = b \<and> (ev_gray e \<or> ev_version e > shown)
      then Sse_Event (mask_event_for_wire e) # sse_live p b shown rs
      else sse_live p b shown rs)"

definition sse_stream :: "received list \<Rightarrow> string \<Rightarrow> string \<Rightarrow> publish_event list \<Rightarrow> bool \<Rightarrow> sse_item list" where
  "sse_stream rs p b missed force_snapshot =
     (let shown = fold (\<lambda>e n. max n (ev_version e)) missed 0 in
      map (\<lambda>e. Sse_Event (mask_event_for_wire e)) missed @
      (if force_snapshot then [Sse_Snapshot_Required p b shown] else sse_live p b shown rs))"

definition watch_branch :: "sm \<Rightarrow> project_id \<Rightarrow> branch_name \<Rightarrow> nat \<Rightarrow> received list \<Rightarrow> sse_item list" where
  "watch_branch s p b after rs =
     (let (missed, force) = watch_replay s p b after in sse_stream rs p b missed force)"

section \<open>A client that patches its copy\<close>

text \<open>A change as the client sees it, and its copy of the configuration with the version it has.\<close>

record 'v change =
  ch_group :: string
  ch_key :: string
  ch_kind :: change_kind
  ch_new_value :: "'v option"

definition wire_change :: "(val \<Rightarrow> 'v) \<Rightarrow> diff_entry \<Rightarrow> 'v change" where
  "wire_change enc d = \<lparr>ch_group = de_group d, ch_key = de_key d, ch_kind = de_kind d,
     ch_new_value = map_option enc (de_new_value d)\<rparr>"

definition patch_copy :: "'v tree \<Rightarrow> 'v change \<Rightarrow> 'v tree" where
  "patch_copy y c = (case ch_kind c of
     Upsert \<Rightarrow> (case ch_new_value c of None \<Rightarrow> y | Some v \<Rightarrow> tree_insert (ch_group c) (ch_key c) v y)
   | Delete \<Rightarrow> tree_delete (ch_group c) (ch_key c) y)"

type_synonym 'v notice = "nat \<times> 'v change list"
type_synonym 'v copy = "nat \<times> 'v tree"

definition follow :: "'v copy \<Rightarrow> 'v notice \<Rightarrow> 'v copy" where
  "follow c n = (if fst n > fst c then (fst n, foldl patch_copy (snd c) (snd n)) else c)"

definition notice_of :: "(val \<Rightarrow> 'v) \<Rightarrow> publish_event \<Rightarrow> 'v notice" where
  "notice_of enc e = (ev_version e, map (wire_change enc) (ev_changes e))"

definition concerns :: "project_id \<Rightarrow> branch_name \<Rightarrow> publish_event \<Rightarrow> bool" where
  "concerns p b e \<longleftrightarrow> ev_project e = p \<and> ev_branch e = b"

text \<open>The copy mirrors a snapshot: every value is the encoding of an equal one.\<close>

definition mirrors :: "(val \<Rightarrow> 'v) \<Rightarrow> 'v tree \<Rightarrow> snapshot \<Rightarrow> bool" where
  "mirrors enc y x \<longleftrightarrow> (\<forall>g k. \<exists>z. tree_get y g k = map_option enc z \<and> val_sim z (tree_get x g k))"

lemma mirrors_sim: "mirrors enc y x \<Longrightarrow> snap_sim x x' \<Longrightarrow> mirrors enc y x'"
  unfolding mirrors_def snap_sim_def by (meson val_sim_trans)

lemma mirrors_empty [simp]: "mirrors enc bm_empty bm_empty"
  by (simp add: mirrors_def tree_get_def)

text \<open>What an entry does at a place, to the snapshot and to the copy.\<close>

definition place_effect :: "string \<Rightarrow> string \<Rightarrow> val option \<Rightarrow> diff_entry \<Rightarrow> val option" where
  "place_effect g k z d =
     (if de_group d = g \<and> de_key d = k then
        (case de_kind d of Upsert \<Rightarrow> (case de_new_value d of None \<Rightarrow> z | Some v \<Rightarrow> Some v) | Delete \<Rightarrow> None)
      else z)"

lemma get_apply_entry: "tree_get (apply_entry x d) g k = place_effect g k (tree_get x g k) d"
  by (auto simp: apply_entry_def place_effect_def split: change_kind.splits option.splits)

lemma get_patch_copy:
  "tree_get y g k = map_option enc z \<Longrightarrow>
     tree_get (patch_copy y (wire_change enc d)) g k = map_option enc (place_effect g k z d)"
  by (auto simp: patch_copy_def wire_change_def place_effect_def split: change_kind.splits option.splits)

lemma place_effect_sim: "val_sim z w \<Longrightarrow> val_sim (place_effect g k z d) (place_effect g k w d)"
  by (auto simp: place_effect_def split: change_kind.splits option.splits)

lemma mirrors_entry: "mirrors enc y x \<Longrightarrow> mirrors enc (patch_copy y (wire_change enc d)) (apply_entry x d)"
  unfolding mirrors_def get_apply_entry using get_patch_copy place_effect_sim by metis

lemma mirrors_patch:
  "mirrors enc y x \<Longrightarrow> mirrors enc (foldl patch_copy y (map (wire_change enc) ds)) (sm_apply_diff x ds)"
  by (induction ds arbitrary: y x) (simp_all add: mirrors_entry)

lemma follow_patch:
  "mirrors enc y x \<Longrightarrow> snap_sim (sm_apply_diff x (ev_changes e)) new \<Longrightarrow> v < ev_version e \<Longrightarrow>
     \<exists>y'. follow (v, y) (notice_of enc e) = (ev_version e, y') \<and> mirrors enc y' new"
  using mirrors_sim [OF mirrors_patch] by (simp add: follow_def notice_of_def)

lemma follow_old: "fst n \<le> v \<Longrightarrow> follow (v, y) n = (v, y)"
  by (simp add: follow_def)

lemma follow_grows: "v \<le> fst (follow (v, y) n)"
  by (simp add: follow_def)

section \<open>Following the steps of a run\<close>

text \<open>The client has the configuration of the active version.\<close>

definition current :: "(val \<Rightarrow> 'v) \<Rightarrow> project_id \<Rightarrow> branch_name \<Rightarrow> sval mem_store \<Rightarrow> 'v copy \<Rightarrow> bool" where
  "current enc p b m c \<longleftrightarrow> (\<exists>st. bm_get m (branch_state_key p b) = Some (SBranch st) \<and>
     fst c = active_version st \<and> mirrors enc (snd c) (content_of m p b (active_version st)))"

lemma current_cong:
  assumes "current enc p b m c"
    and "\<And>st. bm_get m (branch_state_key p b) = Some (SBranch st) \<Longrightarrow>
      \<exists>st'. bm_get n (branch_state_key p b) = Some (SBranch st') \<and> active_version st' = active_version st \<and>
        content n p b (active_version st) = content m p b (active_version st)"
  shows "current enc p b n c"
  using assms unfolding current_def content_of_def by force

lemma steps_followed:
  assumes "vsteps True m evs n" "live m" "slash_free p" "slash_free b" "current enc p b m c"
  shows "current enc p b n (foldl follow c (map (notice_of enc) (filter (concerns p b) evs)))"
  using assms
proof (induction rule: vsteps.induct)
  case (other evs n n')
  have "current enc p b n (foldl follow c (map (notice_of enc) (filter (concerns p b) evs)))"
    using other.IH other.prems by blast
  then show ?case
    by (rule current_cong)
      (simp add: agree_get(1) [OF other.hyps(2) other.prems(2,3)] agree_content [OF other.hyps(2) other.prems(2,3)])
next
  case (state evs n q d st st')
  have "current enc p b n (foldl follow c (map (notice_of enc) (filter (concerns p b) evs)))"
    using state.IH state.prems by blast
  then show ?case
    by (rule current_cong)
      (use state.hyps state.prems in \<open>auto simp: state_key_eq state_content\<close>)
next
  case (branch evs n q d st)
  have "current enc p b n (foldl follow c (map (notice_of enc) (filter (concerns p b) evs)))"
    using branch.IH branch.prems by blast
  then show ?case
    by (rule current_cong)
      (use branch.hyps branch.prems in \<open>auto simp: state_key_eq state_content\<close>)
next
  case (proj evs n q v)
  have "current enc p b n (foldl follow c (map (notice_of enc) (filter (concerns p b) evs)))"
    using proj.IH proj.prems by blast
  then show ?case
    by (rule current_cong)
      (use proj.hyps proj.prems in \<open>auto simp: key_eq intro!: content_keys_cong\<close>)
next
  case (notice evs n e st)
  let ?c = "foldl follow c (map (notice_of enc) (filter (concerns p b) evs))"
  have cur: "current enc p b n ?c" using notice by simp
  have "follow ?c (notice_of enc e) = ?c" if "concerns p b e"
    using cur that notice.hyps(4,5) by (simp add: current_def concerns_def follow_def notice_of_def)
  then show ?case using cur by auto
next
  case (wrote evs n q d st vno old st' e new rec)
  let ?c = "foldl follow c (map (notice_of enc) (filter (concerns p b) evs))"
  let ?n = "bm_insert (branch_state_key q d) (SBranch st') (write_view q d vno old new rec n)"
  have cur: "current enc p b n ?c" using wrote by simp
  have vno: "vno = active_version st + 1" using wrote.hyps(6) by simp
  have read: "readable n q d (active_version st)"
    using vsteps_live [OF wrote.hyps(1) wrote.prems(1)] wrote.hyps(2-4) by (auto simp: live_def)
  have other: "bm_get ?n (branch_state_key p b) = bm_get n (branch_state_key p b)" "content ?n p b v = content n p b v"
    if "(p, b) \<noteq> (q, d)" for v
  proof -
    have "branch_state_key p b \<notin> {version_key q d vno, snapshot_key q d vno, diff_key q d vno}"
      using wrote.hyps(2,3) wrote.prems(2,3) by (simp add: key_eq)
    then show "bm_get ?n (branch_state_key p b) = bm_get n (branch_state_key p b)"
      using that wrote.hyps(2,3) wrote.prems(2,3) by (auto simp: state_key_eq write_view_other)
    show "content ?n p b v = content n p b v"
      using that wrote.hyps(2,3) wrote.prems(2,3) by (simp add: state_content write_content_other)
  qed
  show ?case
  proof (cases "(p, b) = (q, d)")
    case False
    then have "\<not> concerns p b e" using wrote.hyps(9,10) by (auto simp: concerns_def)
    then show ?thesis using cur other [OF False] by (auto intro: current_cong)
  next
    case True
    then have c: "concerns p b e" using wrote.hyps(9,10) by (simp add: concerns_def)
    obtain v y where vy: "?c = (v, y)" by (cases ?c)
    have v: "v = active_version st" "mirrors enc y (content_of n q d (active_version st))"
      using cur wrote.hyps(4) True by (auto simp: current_def vy)
    obtain x where x: "content ?n q d vno = Some x" "snap_sim (sm_apply_diff old (ev_changes e)) x"
      using tame_write [OF wrote.hyps(2,3) read wrote.hyps(7) [OF read] wrote.hyps(12)] vno by metis
    have "mirrors enc y old" using v(2) wrote.hyps(7) [OF read] by simp
    from follow_patch [OF this x(2), of v] obtain y' where
      "follow (v, y) (notice_of enc e) = (vno, y')" "mirrors enc y' x"
      using v(1) wrote.hyps(11) vno by auto
    then show ?thesis using c vy x(1) wrote.hyps(8) True by (auto simp: current_def content_of_def)
  qed
qed simp

section \<open>Every record is readable\<close>

text \<open>The active version has a record, and every version with a record can be read.\<close>

definition recorded :: "sval mem_store \<Rightarrow> bool" where
  "recorded m \<longleftrightarrow> (\<forall>p b. slash_free p \<longrightarrow> slash_free b \<longrightarrow>
     (\<forall>st. bm_get m (branch_state_key p b) = Some (SBranch st) \<longrightarrow> 0 < active_version st \<longrightarrow>
        bm_get m (version_key p b (active_version st)) \<noteq> None) \<and>
     (\<forall>n. bm_get m (version_key p b n) \<noteq> None \<longrightarrow> content m p b n \<noteq> None))"

text \<open>A step that keeps the contents up to the active versions keeps this, if it treats what is new like that.\<close>

lemma recorded_keep:
  assumes "recorded m" "ver_bound m" "steady m n"
    and "\<And>p b i. slash_free p \<Longrightarrow> slash_free b \<Longrightarrow> bm_get n (version_key p b i) \<noteq> None \<Longrightarrow>
      bm_get m (version_key p b i) \<noteq> None \<or> content n p b i \<noteq> None"
    and "\<And>p b st. slash_free p \<Longrightarrow> slash_free b \<Longrightarrow> bm_get n (branch_state_key p b) = Some (SBranch st) \<Longrightarrow>
      0 < active_version st \<Longrightarrow> bm_get n (version_key p b (active_version st)) \<noteq> None"
  shows "recorded n"
proof -
  have "content n p b i \<noteq> None" if r: "slash_free p" "slash_free b" "bm_get n (version_key p b i) \<noteq> None" for p b i
  proof (cases "bm_get m (version_key p b i) = None")
    case True
    then show ?thesis using assms(4) [OF r] by blast
  next
    case False
    then obtain st where "bm_get m (branch_state_key p b) = Some (SBranch st)" "i \<le> active_version st"
      using ver_boundD [OF assms(2) r(1,2), of "version_key p b i" i] by auto
    then have "content n p b i = content m p b i" using assms(3) r(1,2) unfolding steady_def by blast
    then show ?thesis using assms(1) r(1,2) False unfolding recorded_def by simp
  qed
  then show ?thesis using assms(5) unfolding recorded_def by blast
qed

lemma vsteps_recorded:
  "vsteps True m evs n \<Longrightarrow> live m \<Longrightarrow> ver_bound m \<Longrightarrow> recorded m \<Longrightarrow> recorded n"
proof (induction rule: vsteps.induct)
  case (other evs n n')
  then have "recorded n" "ver_bound n" using vsteps_bound by blast+
  then show ?case
    by (rule recorded_keep [OF _ _ steady_agree [OF other.hyps(2)]])
      (use agree_get(1,3) [OF other.hyps(2)] \<open>recorded n\<close> in \<open>simp_all add: recorded_def\<close>)
next
  case (state evs n p b st st')
  let ?n = "bm_insert (branch_state_key p b) (SBranch st') n"
  have n: "recorded n" "ver_bound n" using state vsteps_bound by blast+
  have s: "steady n ?n" using state.hyps by (intro steady_state) auto
  have get: "bm_get ?n (version_key q c i) = bm_get n (version_key q c i)" if "slash_free q" "slash_free c" for q c i
    using that state.hyps(2,3) by (simp add: key_eq)
  have "bm_get ?n (version_key q c (active_version st1)) \<noteq> None"
    if "slash_free q" "slash_free c" "bm_get ?n (branch_state_key q c) = Some (SBranch st1)" "0 < active_version st1" for q c st1
    using that n(1) state.hyps unfolding get [OF that(1,2)] recorded_def by (auto simp: state_key_eq split: if_splits)
  then show ?case using get by (intro recorded_keep [OF n s]) simp_all
next
  case (branch evs n p b st)
  let ?n = "bm_insert (branch_state_key p b) (SBranch st) n"
  have n: "recorded n" "ver_bound n" using branch vsteps_bound by blast+
  have s: "steady n ?n" using branch.hyps by (intro steady_state) auto
  have get: "bm_get ?n (version_key q c i) = bm_get n (version_key q c i)" if "slash_free q" "slash_free c" for q c i
    using that branch.hyps(2,3) by (simp add: key_eq)
  have "bm_get ?n (version_key q c (active_version st1)) \<noteq> None"
    if "slash_free q" "slash_free c" "bm_get ?n (branch_state_key q c) = Some (SBranch st1)" "0 < active_version st1" for q c st1
    using that n(1) branch.hyps unfolding get [OF that(1,2)] recorded_def by (auto simp: state_key_eq split: if_splits)
  then show ?case using get by (intro recorded_keep [OF n s]) simp_all
next
  case (proj evs n p v)
  have n: "recorded n" "ver_bound n" using proj vsteps_bound by blast+
  then show ?case
    by (rule recorded_keep [OF _ _ steady_project [OF proj.hyps(2)]])
      (use n(1) proj.hyps in \<open>simp_all add: recorded_def key_eq\<close>)
next
  case (wrote evs n p b st vno old st' e new rec)
  let ?n = "bm_insert (branch_state_key p b) (SBranch st') (write_view p b vno old new rec n)"
  have n: "recorded n" "ver_bound n" "live n" using wrote vsteps_bound vsteps_live by blast+
  have s: "steady n ?n" by (rule steady_write [OF wrote.hyps(2-5,8)])
  have vno: "vno = active_version st + 1" using wrote.hyps(6) by simp
  have read: "readable n p b (active_version st)" using n(3) wrote.hyps(2-4) by (auto simp: live_def)
  have x: "content ?n p b vno \<noteq> None"
    using tame_write [OF wrote.hyps(2,3) read wrote.hyps(7) [OF read] wrote.hyps(12)] vno by (metis option.distinct(1))
  have here: "bm_get ?n (version_key p b vno) \<noteq> None"
    using wrote.hyps(2,3) by (simp add: key_eq write_view_def view_write_version del: view_write)
  have get: "bm_get ?n (version_key q c i) = bm_get n (version_key q c i)"
    if "slash_free q" "slash_free c" "(q, c, i) \<noteq> (p, b, vno)" for q c i
    using that wrote.hyps(2,3) by (auto simp: key_eq write_view_other)
  have state: "bm_get ?n (branch_state_key q c) = bm_get n (branch_state_key q c)"
    if "slash_free q" "slash_free c" "(q, c) \<noteq> (p, b)" for q c
    using that wrote.hyps(2,3) by (auto simp: state_key_eq key_eq write_view_other)
  have "bm_get n (version_key q c i) \<noteq> None \<or> content ?n q c i \<noteq> None"
    if "slash_free q" "slash_free c" "bm_get ?n (version_key q c i) \<noteq> None" for q c i
    using that get [OF that(1,2)] x by (cases "(q, c, i) = (p, b, vno)") auto
  moreover have "bm_get ?n (version_key q c (active_version st1)) \<noteq> None"
    if "slash_free q" "slash_free c" "bm_get ?n (branch_state_key q c) = Some (SBranch st1)" "0 < active_version st1" for q c st1
  proof (cases "(q, c) = (p, b)")
    case True
    then show ?thesis using that(3) here wrote.hyps(8) by auto
  next
    case False
    have "bm_get n (branch_state_key q c) = Some (SBranch st1)" using state [OF that(1,2) False] that(3) by simp
    then have "bm_get n (version_key q c (active_version st1)) \<noteq> None"
      using n(1) that(1,2,4) unfolding recorded_def by blast
    then show ?thesis using get [OF that(1,2)] False by (metis prod.inject)
  qed
  ultimately show ?case by (intro recorded_keep [OF n(1,2) s])
qed simp_all

text \<open>A deletion of whole branches takes the records with them.\<close>

lemma kept_branch:
  assumes "prefix_deleted q m n" "whole_branches q" "slash_free p" "slash_free b" "\<not> starts_with (branch_state_key p b) q"
  shows "bm_get n (branch_state_key p b) = bm_get m (branch_state_key p b)"
    "bm_get n (version_key p b i) = bm_get m (version_key p b i)" "content n p b i = content m p b i"
proof -
  have "\<not> starts_with k q" if "ver_key p b j k" for j k
    using assms(2-5) that unfolding whole_branches_def by blast
  then have ver: "bm_get n k = bm_get m k" if "ver_key p b j k" for j k
    using prefix_deleted_get(3) [OF assms(1,3,4) that] that by simp
  show "bm_get n (version_key p b i) = bm_get m (version_key p b i)"
    by (rule ver [OF ver_key_simps(1)])
  show "content n p b i = content m p b i"
    by (intro content_keys_cong ver [OF ver_key_simps(2)] ver [OF ver_key_simps(3)])
  show "bm_get n (branch_state_key p b) = bm_get m (branch_state_key p b)"
    using prefix_deleted_get(1) [OF assms(1,3,4)] assms(5) by simp
qed

lemma deleted_recorded:
  assumes "prefix_deleted q m n" "whole_branches q" "recorded m"
  shows "recorded n"
proof -
  have gone: "bm_get n (branch_state_key p b) = None" "bm_get n (version_key p b i) = None"
    if "slash_free p" "slash_free b" "starts_with (branch_state_key p b) q" for p b i
  proof -
    show "bm_get n (branch_state_key p b) = None"
      using prefix_deleted_get(1) [OF assms(1) that(1,2)] that(3) by simp
    have "starts_with (version_key p b i) q"
      using assms(2) that ver_key_simps(1) unfolding whole_branches_def by blast
    then show "bm_get n (version_key p b i) = None"
      using prefix_deleted_get(3) [OF assms(1) that(1,2) ver_key_simps(1)] by simp
  qed
  show ?thesis
    unfolding recorded_def
  proof (intro allI impI)
    fix p b assume names: "slash_free p" "slash_free b"
    show "(\<forall>st. bm_get n (branch_state_key p b) = Some (SBranch st) \<longrightarrow> 0 < active_version st \<longrightarrow>
        bm_get n (version_key p b (active_version st)) \<noteq> None) \<and>
      (\<forall>i. bm_get n (version_key p b i) \<noteq> None \<longrightarrow> content n p b i \<noteq> None)"
    proof (cases "starts_with (branch_state_key p b) q")
      case True
      then show ?thesis using gone [OF names] by simp
    next
      case False
      then show ?thesis
        using assms(3) names unfolding recorded_def kept_branch [OF assms(1,2) names False] by blast
    qed
  qed
qed

lemma record_at:
  assumes "store_wf m" "slash_free p" "slash_free b" "bm_get m (version_key p b i) \<noteq> None"
  obtains r where "bm_get m (version_key p b i) = Some (SVersion r)" "vr_no r = i"
proof -
  obtain v where v: "bm_get m (version_key p b i) = Some v" using assms(4) by blast
  then have "typed (KVersion p b i) v"
    using assms(2,3) by (intro store_wfD [OF assms(1)]) (simp_all add: key_string.simps)
  then show thesis using that v by (cases v) auto
qed

lemma prune_recorded:
  assumes "prune_versions p b keep s = Inr (n, t)" "sm_pending s = []" "store_wf (view s)" "ver_bound (view s)"
    and "recorded (view s)"
  shows "recorded (view t)"
proof -
  from prune_versions_steps [OF assms(1,3,4)] show ?thesis
  proof (elim disjE exE conjE)
    fix st kf gone
    assume 2: "bm_get (view s) (branch_state_key p b) = Some (SBranch st)" "slash_free p" "slash_free b"
      "t = fold (\<lambda>r. drop_version p b (vr_no r)) gone s" "0 < kf" "kf \<le> active_version st" "is_checkpoint kf"
      "gone = filter (\<lambda>r. \<not> (vr_no r \<ge> kf \<or> vr_no r = active_version st)) (version_history s p b)"
    note get = drop_versions_get [OF assms(2), of p b gone, folded 2(4)]
    have state: "bm_get (view t) (branch_state_key q c) = bm_get (view s) (branch_state_key q c)"
      if "slash_free q" "slash_free c" for q c
      using that 2(2,3) unfolding get by (simp add: key_eq)
    have other: "bm_get (view t) k = bm_get (view s) k"
      if "slash_free q" "slash_free c" "(q, c) \<noteq> (p, b)" "ver_key q c i k" for q c i k
      using that 2(2,3) unfolding get ver_key_def by (auto simp: key_eq)
    have here: "bm_get (view t) (version_key p b i) = (if \<exists>r \<in> set gone. vr_no r = i then None else bm_get (view s) (version_key p b i))" for i
      using 2(2,3) unfolding get by (auto simp: key_eq)
    have kept: "content (view t) p b i = content (view s) p b i" if "kf \<le> i" for i
      unfolding 2(4) by (rule drop_versions_content [OF assms(2) 2(2,3,7,5) that]) (auto simp: 2(8))
    show ?thesis
      unfolding recorded_def
    proof (intro allI impI)
      fix q c assume names: "slash_free q" "slash_free c"
      show "(\<forall>st. bm_get (view t) (branch_state_key q c) = Some (SBranch st) \<longrightarrow> 0 < active_version st \<longrightarrow>
          bm_get (view t) (version_key q c (active_version st)) \<noteq> None) \<and>
        (\<forall>i. bm_get (view t) (version_key q c i) \<noteq> None \<longrightarrow> content (view t) q c i \<noteq> None)"
      proof (cases "(q, c) = (p, b)")
        case True
        note q = True
        have r: "\<forall>i. bm_get (view s) (version_key p b i) \<noteq> None \<longrightarrow> content (view s) p b i \<noteq> None"
          "0 < active_version st \<longrightarrow> bm_get (view s) (version_key p b (active_version st)) \<noteq> None"
          using assms(5) 2(1-3) unfolding recorded_def by blast+
        have above: "kf \<le> i" if "bm_get (view t) (version_key p b i) \<noteq> None" for i
        proof (rule ccontr)
          assume low: "\<not> kf \<le> i"
          have "bm_get (view s) (version_key p b i) \<noteq> None" using that here by (simp split: if_splits)
          then obtain r where "bm_get (view s) (version_key p b i) = Some (SVersion r)" "vr_no r = i"
            using record_at [OF assms(3) 2(2,3)] by blast
          then have "r \<in> set gone"
            using set_version_history [OF assms(3) 2(2,3)] low 2(6,8) by auto
          then show False using that here \<open>vr_no r = i\<close> by (auto split: if_splits)
        qed
        have "bm_get (view t) (version_key p b (active_version st)) = bm_get (view s) (version_key p b (active_version st))"
          using here 2(8) by auto
        then show ?thesis
          using True r above kept here 2(1) state [OF 2(2,3)] by (auto split: if_splits)
      next
        case False
        note same = other [OF names False]
        have "bm_get (view t) (version_key q c i) = bm_get (view s) (version_key q c i)" for i
          by (rule same [OF ver_key_simps(1)])
        moreover have "content (view t) q c i = content (view s) q c i" for i
          by (intro content_keys_cong same [OF ver_key_simps(2)] same [OF ver_key_simps(3)])
        ultimately show ?thesis using assms(5) names state [OF names] unfolding recorded_def by simp
      qed
    qed
  qed (use assms(5) in simp)
qed

lemma reach_recorded: "reach True E s \<Longrightarrow> recorded (sm_store s)"
proof (induction rule: reach.induct)
  case empty
  then show ?case by (simp add: recorded_def sm_new_def)
next
  case (cmd s c now t r)
  have ok: "rest_ok s" "live (sm_store s)" "ver_bound (sm_store s)"
    using reach_rest_ok reach_live cmd.hyps(1) rest_ok_def by blast+
  show ?case
  proof (cases r)
    case (Inl e)
    then show ?thesis
      using vsteps_recorded [OF vsteps.other [OF vsteps.start command_failed_agree] ok(2,3) cmd.IH] cmd.hyps(4) by blast
  next
    case (Inr ev)
    note run = cmd.hyps(4) [unfolded Inr]
    show ?thesis
    proof (cases "deletes_branches c")
      case True
      then show ?thesis
        using command_deletes [OF run ok(1) cmd.hyps(2)] deleted_recorded cmd.IH by metis
    next
      case False
      then have "vsteps True (sm_store s) ev (sm_store t)"
        using command_vsteps [OF run ok(1) cmd.hyps(2)] cmd.hyps(3) by simp
      then show ?thesis using vsteps_recorded ok(2,3) cmd.IH by blast
    qed
  qed
next
  case (prune s p b keep n t)
  note ok = reach_rest_ok [OF prune.hyps(1)]
  have "sm_pending t = []" using prune_versions_store [OF prune.hyps(2)] ok by (auto simp: rest_ok_def view_start)
  then show ?case
    using prune_recorded [OF prune.hyps(2)] prune.IH ok by (auto simp: rest_ok_def view_start)
next
  case (audit s keep n t)
  note ok = reach_rest_ok [OF audit.hyps(1)]
  have "agree (sm_store s) (sm_store t)"
    using prune_audit_agree [OF audit.hyps(2)] ok by (auto simp: rest_ok_def view_start)
  then show ?case
    using vsteps_recorded [OF vsteps.other [OF vsteps.start]] audit.IH reach_live [OF audit.hyps(1)] ok
    by (metis rest_ok_def)
qed

section \<open>A run of commands and its events\<close>

text \<open>The commands of a log applied one after the other; a failed one has no events.\<close>

fun run_log :: "ext \<Rightarrow> (command \<times> int) list \<Rightarrow> sm \<Rightarrow> sm \<times> publish_event list" where
  "run_log E [] s = (s, [])"
| "run_log E ((c, now) # cs) s = (case apply_command E c now s of
     (t, Inl e) \<Rightarrow> run_log E cs t
   | (t, Inr ev) \<Rightarrow> (let (u, evs) = run_log E cs t in (u, ev @ evs)))"

text \<open>The commands are well-formed, skip no version number, and leave the branch.\<close>

fun calm_log :: "ext \<Rightarrow> project_id \<Rightarrow> branch_name \<Rightarrow> (command \<times> int) list \<Rightarrow> sm \<Rightarrow> bool" where
  "calm_log E p b [] s = True"
| "calm_log E p b ((c, now) # cs) s = (let t = fst (apply_command E c now s) in
     cmd_ok c \<and> cmd_tame (sm_store s) c \<and> bm_get (sm_store t) (branch_state_key p b) \<noteq> None \<and> calm_log E p b cs t)"

lemma command_followed:
  assumes "reach True E s" "slash_free p" "slash_free b" "cmd_ok c" "cmd_tame (sm_store s) c"
    and "apply_command E c now s = (t, r)" "bm_get (sm_store t) (branch_state_key p b) \<noteq> None"
    and "current enc p b (sm_store s) copy"
  shows "current enc p b (sm_store t)
    (foldl follow copy (map (notice_of enc) (filter (concerns p b) (case r of Inl e \<Rightarrow> [] | Inr ev \<Rightarrow> ev))))"
proof -
  have ok: "rest_ok s" "live (sm_store s)" using reach_rest_ok reach_live assms(1) by blast+
  show ?thesis
  proof (cases r)
    case (Inl e)
    then show ?thesis
      using steps_followed [OF vsteps.other [OF vsteps.start command_failed_agree] ok(2) assms(2,3,8)] assms(6) by fastforce
  next
    case (Inr ev)
    note run = assms(6) [unfolded Inr]
    show ?thesis
    proof (cases "deletes_branches c")
      case True
      then obtain q where q: "prefix_deleted q (sm_store s) (sm_store t)" "whole_branches q" "ev = []"
        using command_deletes [OF run ok(1) assms(4)] by metis
      have "\<not> starts_with (branch_state_key p b) q"
        using prefix_deleted_get(1) [OF q(1) assms(2,3)] assms(7) by auto
      note kept = kept_branch [OF q(1,2) assms(2,3) this]
      show ?thesis using current_cong [OF assms(8)] kept(1,3) Inr q(3) by simp
    next
      case False
      then have "vsteps True (sm_store s) ev (sm_store t)"
        using command_vsteps [OF run ok(1) assms(4)] assms(5) by simp
      from steps_followed [OF this ok(2) assms(2,3,8)] show ?thesis by (simp add: Inr)
    qed
  qed
qed

lemma log_followed:
  assumes "reach True E s" "slash_free p" "slash_free b" "calm_log E p b cs s" "run_log E cs s = (t, ev)"
    and "current enc p b (sm_store s) copy"
  shows "reach True E t \<and> current enc p b (sm_store t) (foldl follow copy (map (notice_of enc) (filter (concerns p b) ev)))"
  using assms(1,4,5,6)
proof (induction cs arbitrary: s copy ev)
  case (Cons x cs)
  obtain c now where x: "x = (c, now)" by (cases x)
  obtain u r where a: "apply_command E c now s = (u, r)" by (cases "apply_command E c now s")
  define first where "first = (case r of Inl e \<Rightarrow> [] | Inr ev \<Rightarrow> ev)"
  obtain rest where rest: "run_log E cs u = (t, rest)" "ev = first @ rest"
    using Cons.prems(3) by (auto simp: x a first_def split: sum.splits prod.splits)
  have calm: "cmd_ok c" "cmd_tame (sm_store s) c" "bm_get (sm_store u) (branch_state_key p b) \<noteq> None" "calm_log E p b cs u"
    using Cons.prems(2) by (simp_all add: x a Let_def)
  have "reach True E u" by (rule reach.cmd [OF Cons.prems(1) calm(1,2) a])
  from Cons.IH [OF this calm(4) rest(1) command_followed [OF Cons.prems(1) assms(2,3) calm(1,2) a calm(3) Cons.prems(4)]]
  show ?case using rest(2) by (simp add: first_def)
qed simp

section \<open>Following the replay\<close>

lemma replay_behind: "replay_events s p b after prev rs = replay_events s p b after prev (filter (\<lambda>r. after < vr_no r) rs)"
  by (induction rs arbitrary: prev) (auto split: sum.splits)

lemma replay_versions: "e \<in> set (replay_events s p b after prev rs) \<Longrightarrow> \<exists>r \<in> set rs. ev_version e = vr_no r \<and> after < vr_no r"
  by (induction rs arbitrary: prev) (auto simp: replay_event_def split: if_splits sum.splits)

lemma replay_followed:
  assumes "rs \<noteq> []" "sorted (map vr_no rs)" "mirrors enc y prev"
    and "\<forall>r \<in> set rs. after < vr_no r \<and> v \<le> vr_no r \<and> (vr_no r = v \<longrightarrow> snapshot_of s p b v = Inr prev) \<and>
      (\<exists>x. snapshot_of s p b (vr_no r) = Inr x)"
  shows "\<exists>y' x. foldl follow (v, y) (map (notice_of enc) (replay_events s p b after prev rs)) = (vr_no (last rs), y') \<and>
    snapshot_of s p b (vr_no (last rs)) = Inr x \<and> mirrors enc y' x"
  using assms
proof (induction rs arbitrary: v y prev)
  case (Cons r rs)
  obtain cur where cur: "snapshot_of s p b (vr_no r) = Inr cur" using Cons.prems(4) by auto
  let ?e = "replay_event p b r (compute_diff prev cur)"
  obtain y1 where y1: "follow (v, y) (notice_of enc ?e) = (vr_no r, y1)" "mirrors enc y1 cur"
  proof (cases "v < vr_no r")
    case True
    then show thesis
      using that follow_patch [OF Cons.prems(3), of ?e cur v] apply_compute_diff by (auto simp: replay_event_def)
  next
    case False
    then have "vr_no r = v" "cur = prev" using Cons.prems(4) cur by force+
    then show thesis using that Cons.prems(3) by (simp add: follow_old notice_of_def replay_event_def)
  qed
  have step: "foldl follow (v, y) (map (notice_of enc) (replay_events s p b after prev (r # rs))) =
      foldl follow (vr_no r, y1) (map (notice_of enc) (replay_events s p b after cur rs))"
    using Cons.prems(4) cur y1(1) by simp
  show ?case
  proof (cases "rs = []")
    case True
    then show ?thesis using step cur y1(2) by simp
  next
    case False
    have "\<forall>q \<in> set rs. after < vr_no q \<and> vr_no r \<le> vr_no q \<and> (vr_no q = vr_no r \<longrightarrow> snapshot_of s p b (vr_no r) = Inr cur) \<and>
      (\<exists>x. snapshot_of s p b (vr_no q) = Inr x)"
      using Cons.prems(2,4) cur by auto
    from Cons.IH [OF False _ y1(2) this] show ?thesis using Cons.prems(2) False step by auto
  qed
qed simp

lemma sorted_last_max: "sorted (map f xs) \<Longrightarrow> x \<in> set xs \<Longrightarrow> f x \<le> f (last xs)"
  by (induction xs) auto

lemma history_records:
  assumes "reach True E s" "slash_free p" "slash_free b" "get_branch_state s p b = Inr (Some st)"
  shows "r \<in> set (version_history s p b) \<Longrightarrow> vr_no r \<le> active_version st \<and> (\<exists>x. content (sm_store s) p b (vr_no r) = Some x)"
    and "0 < active_version st \<Longrightarrow> \<exists>r \<in> set (version_history s p b). vr_no r = active_version st"
proof -
  note ok = reach_rest_ok [OF assms(1)]
  have view: "view s = sm_store s" and wf: "store_wf (sm_store s)" "ver_bound (sm_store s)"
    using ok rest_ok_view [OF ok] by (simp_all add: rest_ok_def)
  have st: "bm_get (sm_store s) (branch_state_key p b) = Some (SBranch st)" using assms(4) by (simp add: view)
  note rec = reach_recorded [OF assms(1)]
  note hist = set_version_history [of s p b, unfolded view, OF wf(1) assms(2,3)]
  show "r \<in> set (version_history s p b) \<Longrightarrow> vr_no r \<le> active_version st \<and> (\<exists>x. content (sm_store s) p b (vr_no r) = Some x)"
  proof -
    assume r: "r \<in> set (version_history s p b)"
    then have "vr_no r \<le> active_version st"
      using ver_boundD [OF wf(2) assms(2,3), of "version_key p b (vr_no r)" "vr_no r"] st hist by force
    moreover have "content (sm_store s) p b (vr_no r) \<noteq> None"
      using rec assms(2,3) r hist unfolding recorded_def by blast
    ultimately show ?thesis by blast
  qed
  assume "0 < active_version st"
  then have "bm_get (sm_store s) (version_key p b (active_version st)) \<noteq> None"
    using rec assms(2,3) st unfolding recorded_def by blast
  then show "\<exists>r \<in> set (version_history s p b). vr_no r = active_version st"
    using record_at [OF wf(1) assms(2,3)] hist by metis
qed

text \<open>A client that starts the replay with an empty copy has the active configuration at its end.\<close>

lemma replay_current:
  assumes "reach True E s" "slash_free p" "slash_free b" "get_branch_state s p b = Inr (Some st)" "0 < after" "after < active_version st"
  shows "current enc p b (sm_store s) (foldl follow (after, bm_empty) (map (notice_of enc) (fst (watch_replay s p b after))))"
    and "\<forall>e \<in> set (fst (watch_replay s p b after)). ev_version e \<le> active_version st"
proof -
  note ok = reach_rest_ok [OF assms(1)]
  have view: "view s = sm_store s" by (rule rest_ok_view [OF ok])
  let ?hist = "version_history s p b"
  define rs where "rs = filter (\<lambda>r. after < vr_no r) ?hist"
  have replay: "fst (watch_replay s p b after) = replay_events s p b after bm_empty rs"
    using replay_behind assms(5) by (simp add: watch_replay_def Let_def rs_def)
  note hist = history_records [OF assms(1-4)]
  obtain r where r: "r \<in> set rs" "vr_no r = active_version st"
    using hist(2) assms(6) unfolding rs_def by auto
  have sorted: "sorted (map vr_no rs)" unfolding rs_def by (rule sorted_filter [OF sorted_version_history])
  then have last: "vr_no (last rs) = active_version st"
    using sorted_last_max [OF sorted r(1)] r hist(1) [of "last rs"] last_in_set [of rs]
    by (fastforce simp: rs_def intro: le_antisym)
  have read: "\<exists>x. snapshot_of s p b (vr_no q) = Inr x" if "q \<in> set rs" for q
    using that hist(1) snapshot_of_content [of s p b "vr_no q"] unfolding rs_def view by auto
  have rs1: "rs \<noteq> []" using r(1) by auto
  have rs2: "\<forall>q \<in> set rs. after < vr_no q \<and> after \<le> vr_no q \<and> (vr_no q = after \<longrightarrow> snapshot_of s p b after = Inr bm_empty) \<and>
      (\<exists>x. snapshot_of s p b (vr_no q) = Inr x)"
    using read by (auto simp: rs_def)
  obtain y x where yx: "foldl follow (after, bm_empty) (map (notice_of enc) (fst (watch_replay s p b after))) = (active_version st, y)"
    "snapshot_of s p b (active_version st) = Inr x" "mirrors enc y x"
    using replay_followed [OF rs1 sorted mirrors_empty rs2] unfolding replay last by blast
  obtain x' where x': "content (sm_store s) p b (active_version st) = Some x'"
    using hist(1) [of r] r by (auto simp: rs_def)
  then have "x' = x" using snapshot_of_content [of s p b "active_version st"] yx(2) by (simp add: view)
  then show "current enc p b (sm_store s) (foldl follow (after, bm_empty) (map (notice_of enc) (fst (watch_replay s p b after))))"
    using yx x' assms(4) by (simp add: current_def content_of_def view)
  show "\<forall>e \<in> set (fst (watch_replay s p b after)). ev_version e \<le> active_version st"
    using replay_versions hist(1) unfolding replay rs_def by fastforce
qed

section \<open>What a client relies on\<close>

text \<open>
  A channel sends the events of a branch behind a version it has shown; what it holds back does not matter to a
  client that has this version.
\<close>

locale watch_channel =
  fixes enc :: "val \<Rightarrow> 'v"
    and sent :: "project_id \<Rightarrow> branch_name \<Rightarrow> nat \<Rightarrow> publish_event list \<Rightarrow> 'v notice list"
  assumes held_back: "shown \<le> v \<Longrightarrow>
    foldl follow (v, y) (sent p b shown es) = foldl follow (v, y) (map (notice_of enc) (filter (concerns p b) es))"
begin

lemma live_followed:
  assumes "reach True E s" "slash_free p" "slash_free b" "calm_log E p b cs s" "run_log E cs s = (t, ev)"
    and "current enc p b (sm_store s) copy" "shown \<le> fst copy"
  shows "current enc p b (sm_store t) (foldl follow copy (sent p b shown ev))"
  using log_followed [OF assms(1-6)] held_back [OF assms(7), of "snd copy"] by simp

text \<open>A client that resumes behind the active version, and one that has it.\<close>

lemma resumed_followed:
  assumes "reach True E s" "slash_free p" "slash_free b" "calm_log E p b cs s" "run_log E cs s = (t, ev)"
    and "get_branch_state s p b = Inr (Some st)" "0 < after" "after < active_version st" "shown \<le> active_version st"
  shows "current enc p b (sm_store t)
    (foldl follow (after, bm_empty) (map (notice_of enc) (fst (watch_replay s p b after)) @ sent p b shown ev))"
proof -
  note now = replay_current(1) [OF assms(1-3,6-8), of enc]
  have "view s = sm_store s" using rest_ok_view reach_rest_ok assms(1) by blast
  then have "fst (foldl follow (after, bm_empty) (map (notice_of enc) (fst (watch_replay s p b after)))) = active_version st"
    using now assms(6) by (auto simp: current_def)
  then show ?thesis using live_followed [OF assms(1-5) now] assms(9) by simp
qed

end

text \<open>Server-sent events: the copy of the client has the masked values.\<close>

definition sse_notices :: "sse_item list \<Rightarrow> val notice list" where
  "sse_notices items = concat (map (\<lambda>i. case i of
     Sse_Event e \<Rightarrow> [notice_of (\<lambda>v. v) e] | Sse_Snapshot_Required p b n \<Rightarrow> []) items)"

lemma masked_notice: "notice_of (\<lambda>v. v) (mask_event_for_wire e) = notice_of masked_value e"
  by (simp add: notice_of_def mask_event_for_wire_def mask_diff_entry_def wire_change_def option.map_ident)

interpretation sse: watch_channel masked_value "\<lambda>p b shown es. sse_notices (sse_live p b shown (map Got es))"
proof unfold_locales
  fix shown v y p b es
  show "shown \<le> v \<Longrightarrow> foldl follow (v, y) (sse_notices (sse_live p b shown (map Got es))) =
    foldl follow (v, y) (map (notice_of masked_value) (filter (concerns p b) es))"
  proof (induction es arbitrary: v y)
    case (Cons e es)
    have "follow (v, y) (notice_of masked_value e) = (v, y)" if "ev_version e \<le> shown"
      using that Cons.prems by (intro follow_old) (simp add: notice_of_def)
    moreover have "shown \<le> fst (follow (v, y) (notice_of masked_value e))"
      using follow_grows [of v y] Cons.prems by (meson le_trans)
    ultimately show ?case
      using Cons.IH [of v y] Cons.prems
        Cons.IH [of "fst (follow (v, y) (notice_of masked_value e))" "snd (follow (v, y) (notice_of masked_value e))"]
      by (auto simp: sse_notices_def concerns_def masked_notice)
  qed (simp add: sse_notices_def)
qed

end
