(* ===== verification/Grpc.thy ===== *)
theory Grpc
  imports Watch Api_Data
begin

text \<open>
  The gRPC service of the data plane (dsh-api \<open>grpc.rs\<close>): the check of access tokens per call, the conversion
  of values with secrets masked, the four calls, and the watch stream with its replay. The framework (tonic), the
  broadcast channel and the metrics of the Raft node are parameters. Version numbers are the signed ones of the
  protocol; they stay far below the width.
\<close>

section \<open>Access\<close>

text \<open>The codes of \<open>tonic::Status\<close> that occur; the messages are left out.\<close>

datatype status = Unauthenticated | Unavailable | Internal_Failure | Missing | Invalid_Argument | Failed_Precondition

definition metadata_bearer :: "string option \<Rightarrow> string option" where
  "metadata_bearer auth = Option.bind auth (strip_prefix ''Bearer '')"

definition authorize_project :: "server \<Rightarrow> string option \<Rightarrow> string \<Rightarrow> status + unit" where
  "authorize_project sv auth project = (case metadata_bearer auth of
     None \<Rightarrow> Inl Unauthenticated
   | Some raw \<Rightarrow>
       if sv_dev_token sv = Some raw then Inr ()
       else (case get_data_token (sv_sm sv) (sv_hash sv raw) of
           Inr (Some rec) \<Rightarrow> if \<not> tk_revoked rec \<and> tk_project rec = project then Inr () else Inl Unauthenticated
         | _ \<Rightarrow> Inl Unauthenticated))"

definition authorize_data_plane :: "server \<Rightarrow> string option \<Rightarrow> status + unit" where
  "authorize_data_plane sv auth = (case metadata_bearer auth of
     None \<Rightarrow> Inl Unauthenticated
   | Some raw \<Rightarrow>
       if sv_dev_token sv = Some raw then Inr ()
       else (case get_data_token (sv_sm sv) (sv_hash sv raw) of
           Inr (Some rec) \<Rightarrow> if \<not> tk_revoked rec then Inr () else Inl Unauthenticated
         | _ \<Rightarrow> Inl Unauthenticated))"

section \<open>Messages\<close>

datatype grpc_data =
    StrValue string | IntValue int | FloatValue f64 | BoolValue bool | JsonValue string | ListValue "string list"

record grpc_value =
  gv_type :: value_type
  gv_data :: grpc_data
  gv_masked :: bool

definition value_to_proto :: "val \<Rightarrow> grpc_value" where
  "value_to_proto v = \<lparr>gv_type = val_type v,
     gv_data = (case v of
         VString s \<Rightarrow> StrValue s
       | VInt i \<Rightarrow> IntValue i
       | VFloat f \<Rightarrow> FloatValue f
       | VBool b \<Rightarrow> BoolValue b
       | VJson s \<Rightarrow> JsonValue s
       | VArray items \<Rightarrow> ListValue items
       | VSecret ct \<Rightarrow> StrValue ''***''),
     gv_masked = (case v of VSecret ct \<Rightarrow> True | _ \<Rightarrow> False)\<rparr>"

record grpc_snapshot =
  gs_project :: string
  gs_branch :: string
  gs_version :: int
  gs_structure_version :: int
  gs_groups :: "grpc_value tree"
  gs_gray :: bool
  gs_resolved_version :: int

definition snapshot_to_proto :: "string \<Rightarrow> string \<Rightarrow> config_snapshot \<Rightarrow> grpc_snapshot" where
  "snapshot_to_proto p b snap =
     \<lparr>gs_project = p, gs_branch = b, gs_version = int (cs_version snap),
      gs_structure_version = int (cs_structure_version snap),
      gs_groups = bm_map (\<lambda>g items. bm_map (\<lambda>k v. value_to_proto v) items) (cs_groups snap),
      gs_gray = cs_gray snap, gs_resolved_version = int (cs_resolved_version snap)\<rparr>"

definition diff_to_changes :: "diff_entry list \<Rightarrow> grpc_value change list" where
  "diff_to_changes diff = map (wire_change value_to_proto) diff"

definition map_err :: "error \<Rightarrow> status" where
  "map_err e = (case e_kind e of
     NotFound \<Rightarrow> Missing
   | Validation \<Rightarrow> Invalid_Argument
   | SessionInUse \<Rightarrow> Unauthenticated | SessionExpired \<Rightarrow> Unauthenticated
   | _ \<Rightarrow> Internal_Failure)"

section \<open>Reading a configuration\<close>

record config_req =
  cq_project :: string
  cq_branch :: string
  cq_version :: int
  cq_instance :: string
  cq_labels :: "(string, string) bmap"

definition client_of :: "config_req \<Rightarrow> ip_addr option \<Rightarrow> client_ctx" where
  "client_of r peer = \<lparr>instance_id = cq_instance r, labels = cq_labels r, client_ip = peer\<rparr>"

text \<open>The part the two calls share.\<close>

definition resolved_for ::
  "server \<Rightarrow> read_gate \<Rightarrow> string option \<Rightarrow> ip_addr option \<Rightarrow> config_req \<Rightarrow> status + config_snapshot" where
  "resolved_for sv g auth peer r =
     bindE (map_error (\<lambda>e. Unavailable) (linearized_read g)) (\<lambda>u.
     bindE (authorize_project sv auth (cq_project r)) (\<lambda>u.
     map_error map_err
       (get_config_resolved (sv_sm sv) (cq_project r) (cq_branch r) (nat (max (cq_version r) 0)) (client_of r peer))))"

definition grpc_get_config ::
  "server \<Rightarrow> read_gate \<Rightarrow> string option \<Rightarrow> ip_addr option \<Rightarrow> config_req \<Rightarrow> status + grpc_snapshot" where
  "grpc_get_config sv g auth peer r =
     bindE (resolved_for sv g auth peer r) (\<lambda>snap. Inr (snapshot_to_proto (cq_project r) (cq_branch r) snap))"

definition grpc_get_item ::
  "server \<Rightarrow> read_gate \<Rightarrow> string option \<Rightarrow> ip_addr option \<Rightarrow> config_req \<Rightarrow> string \<Rightarrow> string \<Rightarrow> status + grpc_value" where
  "grpc_get_item sv g auth peer r grp key =
     bindE (resolved_for sv g auth peer r) (\<lambda>snap.
       case tree_get (cs_groups snap) grp key of
         None \<Rightarrow> Inl Missing
       | Some v \<Rightarrow> Inr (value_to_proto v))"

section \<open>Watch\<close>

record watch_event =
  we_version :: int
  we_type :: event_type
  we_structure_version :: int
  we_comment :: string
  we_request_id :: string
  we_changes :: "grpc_value change list"
  we_snapshot_required :: bool
  we_gray :: bool

definition grpc_event :: "publish_event \<Rightarrow> watch_event" where
  "grpc_event e = \<lparr>we_version = int (ev_version e), we_type = ev_ty e, we_structure_version = int (ev_structure_version e),
     we_comment = ev_comment e, we_request_id = ev_request_id e, we_changes = diff_to_changes (ev_changes e),
     we_snapshot_required = False, we_gray = ev_gray e\<rparr>"

definition grpc_snapshot_required :: "int \<Rightarrow> string \<Rightarrow> watch_event" where
  "grpc_snapshot_required shown comment = \<lparr>we_version = shown, we_type = ValuePublish, we_structure_version = 0,
     we_comment = comment, we_request_id = [], we_changes = [], we_snapshot_required = True, we_gray = False\<rparr>"

text \<open>An unreadable version ends the call here.\<close>

fun grpc_replay ::
  "sm \<Rightarrow> project_id \<Rightarrow> branch_name \<Rightarrow> int \<Rightarrow> snapshot \<Rightarrow> version_record list \<Rightarrow> status + watch_event list" where
  "grpc_replay s p b after prev [] = Inr []"
| "grpc_replay s p b after prev (r # rs) =
     (if int (vr_no r) \<le> after then grpc_replay s p b after prev rs
      else bindE (map_error (\<lambda>e. Internal_Failure) (snapshot_of s p b (vr_no r))) (\<lambda>cur.
        bindE (grpc_replay s p b after cur rs) (\<lambda>evs.
          Inr (\<lparr>we_version = int (vr_no r), we_type = replay_type r, we_structure_version = int (vr_structure_version r),
                we_comment = vr_comment r, we_request_id = [], we_changes = diff_to_changes (compute_diff prev cur),
                we_snapshot_required = False, we_gray = vr_gray r\<rparr> # evs))))"

text \<open>The last version shown only grows.\<close>

fun grpc_live :: "string \<Rightarrow> string \<Rightarrow> int \<Rightarrow> received list \<Rightarrow> watch_event list" where
  "grpc_live p b shown [] = []"
| "grpc_live p b shown (Lagged # rs) = [grpc_snapshot_required shown ''slow consumer: snapshot required'']"
| "grpc_live p b shown (Got e # rs) =
     (if ev_project e = p \<and> ev_branch e = b \<and> (ev_gray e \<or> int (ev_version e) > shown)
      then grpc_event e # grpc_live p b (if int (ev_version e) > shown then int (ev_version e) else shown) rs
      else grpc_live p b shown rs)"

definition grpc_stream :: "string \<Rightarrow> string \<Rightarrow> int \<Rightarrow> watch_event list \<Rightarrow> bool \<Rightarrow> received list \<Rightarrow> watch_event list" where
  "grpc_stream p b after missed required rs =
     (if required then [grpc_snapshot_required after ''snapshot required (start pruned)'']
      else missed @ grpc_live p b (if missed = [] then after else we_version (last missed)) rs)"

definition grpc_watch ::
  "server \<Rightarrow> read_gate \<Rightarrow> string option \<Rightarrow> string \<Rightarrow> string \<Rightarrow> int \<Rightarrow> received list \<Rightarrow> status + watch_event list" where
  "grpc_watch sv g auth p b after rs =
     (if gate_poisoned g then Inl Unavailable
      else bindE (authorize_project sv auth p) (\<lambda>u.
        if after > 0 then
          (let hist = version_history (sv_sm sv) p b in
           bindE (grpc_replay (sv_sm sv) p b after bm_empty hist) (\<lambda>missed.
             Inr (grpc_stream p b after missed (start_pruned (nat after) hist) rs)))
        else Inr (grpc_stream p b after [] False rs)))"

section \<open>Members\<close>

record raft_node =
  rn_grpc_addr :: string
  rn_http_addr :: string

record raft_metrics =
  mt_leader :: "nat option"
  mt_last_log :: "nat option"
  mt_voters :: "nat list"
  mt_nodes :: "(nat \<times> raft_node) list"

record grpc_member =
  gm_node_id :: string
  gm_grpc_addr :: string
  gm_http_addr :: string
  gm_leader :: bool
  gm_voter :: bool
  gm_committed :: int

definition grpc_list_members :: "server \<Rightarrow> raft_metrics option \<Rightarrow> string option \<Rightarrow> status + grpc_member list" where
  "grpc_list_members sv raft auth =
     bindE (authorize_data_plane sv auth) (\<lambda>u.
     bindE (ok_or Failed_Precondition raft) (\<lambda>m.
       Inr (map (\<lambda>(i, n). \<lparr>gm_node_id = dec_string i, gm_grpc_addr = rn_grpc_addr n, gm_http_addr = rn_http_addr n,
          gm_leader = (Some i = mt_leader m), gm_voter = (i \<in> set (mt_voters m)),
          gm_committed = (case mt_last_log m of None \<Rightarrow> 0 | Some l \<Rightarrow> int l)\<rparr>) (mt_nodes m))))"

section \<open>The two channels agree\<close>

text \<open>A token is good for a project over gRPC exactly when it is in a header over HTTP.\<close>

lemma authorize_agrees:
  assumes "plain_segment p" "rq_auth rq = auth" "rq_query rq = None" "data_plane_project_segment (rq_path rq) = Some p"
  shows "authorize_project sv auth p = Inr () \<longleftrightarrow> data_plane_authorized sv rq"
  using assms
  by (auto simp: authorize_project_def data_plane_authorized_def extract_data_token_def metadata_bearer_def bearer_def found_def
      split: option.splits sum.splits)

text \<open>An item is the one of the configuration.\<close>

lemma item_of_config:
  "grpc_get_item sv g auth peer r grp key = Inr v \<longleftrightarrow>
     (\<exists>snap. grpc_get_config sv g auth peer r = Inr snap \<and> tree_get (gs_groups snap) grp key = Some v)"
proof (cases "resolved_for sv g auth peer r")
  case (Inr snap)
  have "tree_get (bm_map (\<lambda>g items. bm_map (\<lambda>k v. value_to_proto v) items) t) grp key = map_option value_to_proto (tree_get t grp key)" for t
    by (simp add: tree_get_def split: option.splits)
  then show ?thesis
    by (simp add: grpc_get_item_def grpc_get_config_def Inr snapshot_to_proto_def split: option.splits)
qed (simp add: grpc_get_item_def grpc_get_config_def)

text \<open>Where every version can be read, the replay is that of the server-sent events.\<close>

lemma grpc_replay_same:
  "\<forall>r \<in> set rs. \<exists>x. snapshot_of s p b (vr_no r) = Inr x \<Longrightarrow>
     grpc_replay s p b (int after) prev rs = Inr (map grpc_event (replay_events s p b after prev rs))"
  by (induction rs arbitrary: prev) (auto simp: grpc_event_def replay_event_def map_error_def)

definition grpc_notices :: "watch_event list \<Rightarrow> grpc_value notice list" where
  "grpc_notices items = map (\<lambda>e. (nat (we_version e), we_changes e)) items"

lemma grpc_notice [simp]: "grpc_notices (map grpc_event es) = map (notice_of value_to_proto) es"
  by (simp add: grpc_notices_def notice_of_def grpc_event_def diff_to_changes_def)

interpretation grpc: watch_channel value_to_proto "\<lambda>p b shown es. grpc_notices (grpc_live p b (int shown) (map Got es))"
proof unfold_locales
  fix shown v y p b es
  show "shown \<le> v \<Longrightarrow> foldl follow (v, y) (grpc_notices (grpc_live p b (int shown) (map Got es))) =
    foldl follow (v, y) (map (notice_of value_to_proto) (filter (concerns p b) es))"
  proof (induction es arbitrary: shown v y)
    case (Cons e es)
    have one: "grpc_notices (grpc_event e # xs) = notice_of value_to_proto e # grpc_notices xs" for xs
      by (simp add: grpc_notices_def notice_of_def grpc_event_def diff_to_changes_def)
    let ?c = "follow (v, y) (notice_of value_to_proto e)"
    have old: "?c = (v, y)" if "ev_version e \<le> shown"
      using that Cons.prems by (intro follow_old) (simp add: notice_of_def)
    have "max shown (ev_version e) \<le> fst ?c"
      using Cons.prems by (simp add: follow_def notice_of_def)
    then have "shown \<le> fst ?c" "shown < ev_version e \<Longrightarrow> ev_version e \<le> fst ?c" by simp_all
    then show ?case
      using Cons.IH [of shown v y] Cons.IH [of shown "fst ?c" "snd ?c"] Cons.IH [of "ev_version e" "fst ?c" "snd ?c"] Cons.prems old
      by (auto simp: concerns_def one not_less)
  qed (simp add: grpc_notices_def)
qed

section \<open>Watchers follow the branch\<close>

text \<open>A copy is up to date when it has the number and the content of the active version.\<close>

definition up_to_date :: "(val \<Rightarrow> 'v) \<Rightarrow> project_id \<Rightarrow> branch_name \<Rightarrow> sm \<Rightarrow> 'v copy \<Rightarrow> bool" where
  "up_to_date enc p b s c \<longleftrightarrow> (\<exists>st x. get_branch_state s p b = Inr (Some st) \<and> fst c = active_version st \<and>
     (if active_version st = 0 then x = bm_empty else snapshot_of s p b (active_version st) = Inr x) \<and> mirrors enc (snd c) x)"

lemma up_to_date_current:
  assumes "reach True E s" "slash_free p" "slash_free b"
  shows "up_to_date enc p b s c \<longleftrightarrow> current enc p b (sm_store s) c"
proof -
  have view: "view s = sm_store s" using rest_ok_view reach_rest_ok assms(1) by blast
  have read: "readable (sm_store s) p b (active_version st)"
    if "bm_get (sm_store s) (branch_state_key p b) = Some (SBranch st)" for st
    using that reach_live [OF assms(1)] assms(2,3) by (auto simp: live_def)
  have snap: "(if active_version st = 0 then x = bm_empty else snapshot_of s p b (active_version st) = Inr x) \<longleftrightarrow>
      x = content_of (sm_store s) p b (active_version st)"
    if "bm_get (sm_store s) (branch_state_key p b) = Some (SBranch st)" for st x
    using read [OF that] snapshot_of_content [of s p b "active_version st"]
    by (auto simp: readable_def content_of_def view)
  show ?thesis
    unfolding up_to_date_def current_def get_branch_state_Some view using snap by metis
qed

text \<open>
  Where a watcher starts: behind the active version, when the replay fills an empty copy; or with a copy that is up
  to date.
\<close>

definition starts_watch :: "(val \<Rightarrow> 'v) \<Rightarrow> project_id \<Rightarrow> branch_name \<Rightarrow> sm \<Rightarrow> nat \<Rightarrow> 'v copy \<Rightarrow> bool" where
  "starts_watch enc p b s after c \<longleftrightarrow> (\<exists>st. get_branch_state s p b = Inr (Some st) \<and>
     (0 < after \<and> after < active_version st \<and> c = (after, bm_empty) \<or>
      (after = 0 \<or> after = active_version st) \<and> up_to_date enc p b s c))"

lemma replay_at_active:
  assumes "reach True E s" "slash_free p" "slash_free b" "get_branch_state s p b = Inr (Some st)"
    and "after = 0 \<or> after = active_version st"
  shows "fst (watch_replay s p b after) = []"
proof -
  have "replay_events s p b after bm_empty (version_history s p b) = []" if "after = active_version st"
  proof -
    have "filter (\<lambda>r. after < vr_no r) (version_history s p b) = []"
      using history_records(1) [OF assms(1-4)] that by (force simp: filter_empty_conv)
    then show ?thesis using replay_behind [of s p b after bm_empty "version_history s p b"] by simp
  qed
  then show ?thesis using assms(5) by (auto simp: watch_replay_def Let_def)
qed

lemma fold_max_le: "\<forall>e \<in> set es. ev_version e \<le> n \<Longrightarrow> k \<le> n \<Longrightarrow> fold (\<lambda>e n. max n (ev_version e)) es k \<le> (n::nat)"
  by (induction es arbitrary: k) auto

text \<open>The two streams, when the start was not pruned, are the replay and then the live part.\<close>

lemma sse_stream_notices:
  "\<not> snd (watch_replay s p b after) \<Longrightarrow>
     sse_notices (watch_branch s p b after rs) = map (notice_of masked_value) (fst (watch_replay s p b after)) @
       sse_notices (sse_live p b (fold (\<lambda>e n. max n (ev_version e)) (fst (watch_replay s p b after)) 0) rs)"
  by (simp add: watch_branch_def case_prod_beta sse_stream_def Let_def sse_notices_def comp_def masked_notice concat_map_singleton)

lemma grpc_watch_stream:
  assumes "reach True E (sv_sm sv)" "slash_free p" "slash_free b" "get_branch_state (sv_sm sv) p b = Inr (Some st)"
    and "\<not> gate_poisoned g" "authorize_project sv auth p = Inr ()" "\<not> snd (watch_replay (sv_sm sv) p b after)"
  shows "grpc_watch sv g auth p b (int after) rs = Inr (grpc_stream p b (int after)
     (map grpc_event (fst (watch_replay (sv_sm sv) p b after))) False rs)"
proof -
  have view: "view (sv_sm sv) = sm_store (sv_sm sv)" using rest_ok_view reach_rest_ok assms(1) by blast
  have "\<forall>r \<in> set (version_history (sv_sm sv) p b). \<exists>x. snapshot_of (sv_sm sv) p b (vr_no r) = Inr x"
    using history_records(1) [OF assms(1-4)] snapshot_of_content [of "sv_sm sv" p b] by (force simp: view)
  then show ?thesis
    using assms(5-7) grpc_replay_same [of "version_history (sv_sm sv) p b" "sv_sm sv" p b after bm_empty]
    by (simp add: grpc_watch_def watch_replay_def Let_def split: if_splits)
qed

lemma grpc_notices_append: "grpc_notices (xs @ ys) = grpc_notices xs @ grpc_notices ys"
  by (simp add: grpc_notices_def)

text \<open>The last version the gRPC stream has shown before its live part.\<close>

definition grpc_shown :: "sm \<Rightarrow> project_id \<Rightarrow> branch_name \<Rightarrow> nat \<Rightarrow> nat" where
  "grpc_shown s p b after = (let es = fst (watch_replay s p b after) in if es = [] then after else ev_version (last es))"

lemma grpc_stream_notices:
  "grpc_notices (grpc_stream p b (int after) (map grpc_event (fst (watch_replay s p b after))) False rs) =
     map (notice_of value_to_proto) (fst (watch_replay s p b after)) @
     grpc_notices (grpc_live p b (int (grpc_shown s p b after)) rs)"
  by (simp add: grpc_stream_def grpc_notices_append grpc_shown_def Let_def last_map) (simp add: grpc_event_def)

text \<open>What both channels need: the replay brings the client to the active version, and no more than that was shown.\<close>

lemma shown_bounds:
  assumes "reach True E s" "slash_free p" "slash_free b" "get_branch_state s p b = Inr (Some st)"
    and "after \<le> active_version st" "after = 0 \<or> after = active_version st \<or> 0 < after \<and> after < active_version st"
  shows "fold (\<lambda>e n. max n (ev_version e)) (fst (watch_replay s p b after)) 0 \<le> active_version st"
    and "grpc_shown s p b after \<le> active_version st"
proof -
  have le: "\<forall>e \<in> set (fst (watch_replay s p b after)). ev_version e \<le> active_version st"
    using replay_current(2) [OF assms(1-4)] replay_at_active [OF assms(1-4)] assms(6) by fastforce
  show "fold (\<lambda>e n. max n (ev_version e)) (fst (watch_replay s p b after)) 0 \<le> active_version st"
    by (rule fold_max_le [OF le]) simp
  show "grpc_shown s p b after \<le> active_version st"
    using le assms(5) by (auto simp: grpc_shown_def Let_def)
qed

context watch_channel
begin

lemma watcher_follows:
  assumes "reach True E s" "slash_free p" "slash_free b" "calm_log E p b cs s" "run_log E cs s = (t, ev)"
    and "starts_watch enc p b s after c"
    and "\<And>st. get_branch_state s p b = Inr (Some st) \<Longrightarrow> after \<le> active_version st \<Longrightarrow>
      after = 0 \<or> after = active_version st \<or> 0 < after \<and> after < active_version st \<Longrightarrow> shown \<le> active_version st"
  shows "up_to_date enc p b t (foldl follow c (map (notice_of enc) (fst (watch_replay s p b after)) @ sent p b shown ev))"
proof -
  obtain st where st: "get_branch_state s p b = Inr (Some st)" and start:
    "0 < after \<and> after < active_version st \<and> c = (after, bm_empty) \<or> (after = 0 \<or> after = active_version st) \<and> up_to_date enc p b s c"
    using assms(6) by (auto simp: starts_watch_def)
  have shown: "shown \<le> active_version st" using assms(7) [OF st] start by auto
  have t: "reach True E t" if "current enc p b (sm_store s) c'" for c'
    using log_followed [OF assms(1-5) that] by blast
  from start show ?thesis
  proof
    assume "0 < after \<and> after < active_version st \<and> c = (after, bm_empty)"
    then show ?thesis
      using resumed_followed [OF assms(1-5) st _ _ shown] t [OF replay_current(1) [OF assms(1-3) st]] up_to_date_current assms(2,3)
      by blast
  next
    assume "(after = 0 \<or> after = active_version st) \<and> up_to_date enc p b s c"
    then have after: "after = 0 \<or> after = active_version st" and "up_to_date enc p b s c" by simp_all
    then have now: "current enc p b (sm_store s) c" using up_to_date_current [OF assms(1-3)] by blast
    moreover have "fst c = active_version st" using \<open>up_to_date enc p b s c\<close> st by (auto simp: up_to_date_def)
    ultimately show ?thesis
      using live_followed [OF assms(1-5) now, of shown] shown replay_at_active [OF assms(1-3) st after]
      by (simp add: up_to_date_current [OF t [OF now] assms(2,3)])
  qed
qed

end

text \<open>
  C37: Watchers follow the branch. A watcher connects to a node in a reachable state, over server-sent events or
  over gRPC, and the node then applies commands that leave the branch and skip no version number. Unless its version
  was pruned, a client that patches its copy with what it receives - an empty copy when it is behind, its own
  copy when it is up to date - has the active version number and the active configuration of the branch at the
  end, with the secrets masked; no gray notice, replayed event or event held back confuses it. Over gRPC the call
  succeeds whenever the token is good and the node is not poisoned.
\<close>

theorem watchers_follow_the_branch:
  assumes "reach True E (sv_sm sv)" "slash_free p" "slash_free b"
    and "calm_log E p b cs (sv_sm sv)" "run_log E cs (sv_sm sv) = (t, ev)"
    and "\<not> snd (watch_replay (sv_sm sv) p b after)"
    and "starts_watch masked_value p b (sv_sm sv) after c" "starts_watch value_to_proto p b (sv_sm sv) after d"
    and "\<not> gate_poisoned g" "authorize_project sv auth p = Inr ()"
  shows "up_to_date masked_value p b t
      (foldl follow c (sse_notices (watch_branch (sv_sm sv) p b after (map Got ev)))) \<and>
    (\<exists>items. grpc_watch sv g auth p b (int after) (map Got ev) = Inr items \<and>
      up_to_date value_to_proto p b t (foldl follow d (grpc_notices items)))"
proof -
  obtain st where st: "get_branch_state (sv_sm sv) p b = Inr (Some st)"
    using assms(7) by (auto simp: starts_watch_def)
  note bounds = shown_bounds [OF assms(1-3)]
  show ?thesis
    unfolding sse_stream_notices [OF assms(6)] grpc_watch_stream [OF assms(1-3) st assms(9,10,6)] sum.inject ex_simps simp_thms
      grpc_stream_notices
    using sse.watcher_follows [OF assms(1-5,7) bounds(1)] grpc.watcher_follows [OF assms(1-5,8) bounds(2)]
    by (simp add: grpc_stream_notices)
qed

text \<open>A watcher of the branch before its first version, and the structure publish that makes it.\<close>

definition sample_server :: server where
  "sample_server = \<lparr>sv_sm = run sample_ext sample_start, sv_now = 0, sv_hash = (\<lambda>t. t), sv_dev_token = Some ''dev''\<rparr>"

definition open_gate :: read_gate where
  "open_gate = \<lparr>gate_poisoned = False, gate_linear = False, gate_raft = None\<rparr>"

lemma sample_watch_start:
  "starts_watch enc ''shop'' ''dev'' (run sample_ext sample_start) 0 (0, bm_empty)"
proof -
  have "(case get_branch_state (run sample_ext sample_start) ''shop'' ''dev'' of
      Inr (Some st) \<Rightarrow> active_version st = 0 | _ \<Rightarrow> False)" by code_simp
  then show ?thesis by (auto simp: starts_watch_def up_to_date_def split: sum.splits option.splits)
qed

theorem watchers_follow_the_branch_witness:
  "\<exists>items. grpc_watch sample_server open_gate (Some ''Bearer dev'') ''shop'' ''dev'' 0
       (map Got (snd (run_log sample_ext [(sample_publish, 0)] (run sample_ext sample_start)))) = Inr items \<and>
     fst (foldl follow (0, bm_empty) (grpc_notices items)) = 1"
proof -
  let ?s = "run sample_ext sample_start"
  obtain st where st: "get_branch_state (fst sample_done) ''shop'' ''dev'' = Inr (Some st)" "active_version st = 1"
    using sample_done_state by blast
  have sv: "sv_sm sample_server = ?s" by (simp add: sample_server_def)
  have t: "fst (run_log sample_ext [(sample_publish, 0)] ?s) = fst sample_done"
    by (cases sample_done; cases "snd sample_done") auto
  have "sm_pending (fst sample_done) = []" using reach_rest_ok [OF sample_done_reach] by (simp add: rest_ok_def)
  then have "bm_get (sm_store (fst sample_done)) (branch_state_key ''shop'' ''dev'') \<noteq> None"
    using st(1) by (simp add: view_start)
  then have calm: "calm_log sample_ext ''shop'' ''dev'' [(sample_publish, 0)] ?s"
    using sample_publish_tame by (simp add: sample_publish_def Let_def)
  have "\<not> gate_poisoned open_gate" "authorize_project sample_server (Some ''Bearer dev'') ''shop'' = Inr ()"
    "\<not> snd (watch_replay ?s ''shop'' ''dev'' 0)"
    by (simp_all add: open_gate_def authorize_project_def metadata_bearer_def sample_server_def strip_prefix_def watch_replay_def)
  note ready = this [folded sv]
  have reach: "reach True sample_ext (sv_sm sample_server)" unfolding sv by (rule sample_start_reach)
  have names: "slash_free ''shop''" "slash_free ''dev''" by simp_all
  from watchers_follow_the_branch [OF reach names calm [folded sv] prod.collapse [symmetric] ready(3)
      sample_watch_start [folded sv] sample_watch_start [folded sv] ready(1,2)]
  show ?thesis using t st by (auto simp: up_to_date_def sv)
qed

section \<open>A start that was pruned, and what the replay does not tell\<close>

text \<open>Both channels then end with the demand for a full snapshot and deliver nothing else of the live part.\<close>

lemma pruned_start_ends:
  assumes "snd (watch_replay s p b after)"
  shows "\<exists>n. watch_branch s p b after rs =
      map (\<lambda>e. Sse_Event (mask_event_for_wire e)) (fst (watch_replay s p b after)) @ [Sse_Snapshot_Required p b n]"
    and "grpc_stream p b (int after) missed True rs = [grpc_snapshot_required (int after) ''snapshot required (start pruned)'']"
  using assms by (auto simp: watch_branch_def case_prod_beta sse_stream_def Let_def grpc_stream_def)

text \<open>
  The first replayed event is the difference from the empty configuration, not from the version the client has:
  it never tells a deletion, so a client that patches the copy it had keeps what was deleted meanwhile.
\<close>

lemma replay_tells_no_deletion:
  assumes "watch_replay s p b after = (e # es, force)" "d \<in> set (ev_changes e)"
  shows "de_kind d = Upsert"
proof -
  have "de_kind d = Upsert" if "d \<in> set (compute_diff bm_empty cur)" for cur
    using that by (auto simp: in_compute_diff upsert_entry_def tree_get_def)
  moreover have "\<exists>cur. ev_changes e = compute_diff bm_empty cur"
    if "replay_events s p b after bm_empty rs = e # es" for rs
    using that by (induction rs) (auto simp: replay_event_def split: if_splits sum.splits)
  ultimately show ?thesis
    using assms by (force simp: watch_replay_def Let_def split: if_splits)
qed

end
