(* ===== verification/Jobs.thy ===== *)
theory Jobs
  imports Publish_Service Api_Data Watch
begin

text \<open>
  The background jobs of a node (dsh-jobs): the retention of versions and of audit entries, the rewrapping of data
  keys after a rotation, and the automatic abort of gray releases. The timers, the wall clock, the error rate a probe
  gives and the re-encryption of a data key are parameters. The retention jobs write to the local store of the leader
  and not through the log; the lemma at the end shows what that does to the replicas.
\<close>

section \<open>Retention\<close>

text \<open>An error ends the job and keeps what it has pruned so far.\<close>

fun prune_branches :: "project_id \<Rightarrow> nat \<Rightarrow> branch_name list \<Rightarrow> sm \<Rightarrow> sm \<times> unit res" where
  "prune_branches p keep [] s = (s, Inr ())"
| "prune_branches p keep (b # bs) s = (case prune_versions p b keep s of
     Inl e \<Rightarrow> (s, Inl e)
   | Inr (removed, t) \<Rightarrow> prune_branches p keep bs t)"

fun prune_projects :: "nat \<Rightarrow> project list \<Rightarrow> sm \<Rightarrow> sm \<times> unit res" where
  "prune_projects keep [] s = (s, Inr ())"
| "prune_projects keep (p # ps) s = (case prune_branches (p_id p) keep (list_branches s (p_id p)) s of
     (t, Inl e) \<Rightarrow> (t, Inl e)
   | (t, Inr u) \<Rightarrow> prune_projects keep ps t)"

definition version_retention :: "nat \<Rightarrow> sm \<Rightarrow> sm \<times> unit res" where
  "version_retention keep s = prune_projects keep (list_projects s) s"

definition audit_retention :: "nat \<Rightarrow> sm \<Rightarrow> sm \<times> unit res" where
  "audit_retention keep s = (snd (prune_audit keep s), Inr ())"

section \<open>Rewrapping\<close>

record key_cipher =
  kc_generation :: nat
  kc_rewrap :: "ciphertext \<Rightarrow> ciphertext option"

definition rewrap_step :: "key_cipher \<Rightarrow> rewrap" where
  "rewrap_step c ct =
     (if ct_dek_v ct \<ge> kc_generation c then None
      else Some (case kc_rewrap c ct of Some x \<Rightarrow> Inr x | None \<Rightarrow> Inl (err Internal)))"

definition rewrap_job :: "key_cipher \<Rightarrow> sm \<Rightarrow> sm \<times> unit res" where
  "rewrap_job c s = (case rewrap_deks (rewrap_step c) s of
     (t, Inl e) \<Rightarrow> (t, Inl e)
   | (t, Inr n) \<Rightarrow> (t, Inr ()))"

section \<open>The scheduler\<close>

text \<open>One tick of a job: only the leader runs it, and its error is only logged.\<close>

definition job_tick :: "bool \<Rightarrow> (sm \<Rightarrow> sm \<times> unit res) \<Rightarrow> sm \<Rightarrow> sm" where
  "job_tick is_leader job s = (if \<not> is_leader then s else fst (job s))"

section \<open>Automatic abort of gray releases\<close>

text \<open>The rates are floating-point numbers; their division and order are parameters.\<close>

definition error_rate :: "(nat \<Rightarrow> nat \<Rightarrow> 'r) \<Rightarrow> nat \<Rightarrow> nat \<Rightarrow> 'r option" where
  "error_rate fraction reqs errs = (if reqs = 0 then None else Some (fraction errs reqs))"

definition should_rollback :: "('r :: ord) option \<Rightarrow> 'r \<Rightarrow> bool" where
  "should_rollback rate threshold = (case rate of Some r \<Rightarrow> r > threshold | None \<Rightarrow> False)"

definition gray_targets :: "sm \<Rightarrow> (project_id \<times> branch_name) list" where
  "gray_targets s = concat (map (\<lambda>p. map (Pair (p_id p)) (filter (\<lambda>b. case get_branch_state s (p_id p) b of
       Inr (Some st) \<Rightarrow> gray_seq st > 0 | _ \<Rightarrow> False) (list_branches s (p_id p)))) (list_projects s))"

text \<open>The aborts one after the other, each with its clock and its attempts to write; a failed one is only logged.\<close>

fun abort_targets ::
  "ext \<Rightarrow> string \<Rightarrow> (project_id \<times> branch_name) list \<Rightarrow> (nat \<times> route) list \<Rightarrow> sm \<Rightarrow> sm \<times> command list" where
  "abort_targets E comment ((p, b) # ts) ((ts_ms, r) # rs) s =
     (let (t, w) = write_command E r
            (GrayAbort p b comment (''auto-'' @ dec_string ts_ms) ''auto-rollback'' 0) (int ts_ms) s;
          (u, audits) = abort_targets E comment ts rs t
      in (u, (case w of Inr ok \<Rightarrow> [audit_cmd (int ts_ms) ''gray_auto_abort'' (Some p) (Some b) None None comment ''auto-rollback''] | Inl e \<Rightarrow> []) @ audits))"
| "abort_targets E comment ts rs s = (s, [])"

definition gray_auto_rollback ::
  "ext \<Rightarrow> bool \<Rightarrow> ('r :: ord) option \<Rightarrow> 'r \<Rightarrow> string \<Rightarrow> (nat \<times> route) list \<Rightarrow> sm \<Rightarrow> sm \<times> command list" where
  "gray_auto_rollback E is_leader rate threshold comment rs s =
     (if \<not> is_leader \<or> \<not> should_rollback rate threshold then (s, []) else abort_targets E comment (gray_targets s) rs s)"

section \<open>The jobs keep the invariants\<close>

lemma prune_branches_reach: "reach tame E s \<Longrightarrow> reach tame E (fst (prune_branches p keep bs s))"
  by (induction bs arbitrary: s) (auto split: sum.splits intro: reach.prune)

lemma prune_projects_reach: "reach tame E s \<Longrightarrow> reach tame E (fst (prune_projects keep ps s))"
proof (induction ps arbitrary: s)
  case (Cons p ps)
  then show ?case
    using prune_branches_reach [OF Cons.prems, of "p_id p" keep "list_branches s (p_id p)"]
    by (auto split: sum.splits prod.splits)
qed simp

lemma retention_reach:
  assumes "reach tame E s"
  shows "reach tame E (job_tick leader (version_retention keep) s)" "reach tame E (job_tick leader (audit_retention keep) s)"
  using assms prune_projects_reach reach.audit [OF assms prod.collapse [symmetric]]
  by (simp_all add: job_tick_def version_retention_def audit_retention_def)

section \<open>Retention on the leader alone\<close>

lemma replay_missing:
  assumes "v \<in> set vs" "bm_get (view s) (snapshot_key p b v) = None" "bm_get (view s) (diff_key p b v) = None"
    and "\<forall>w \<in> set vs. (\<exists>d. bm_get (view s) (diff_key p b w) = Some (SDiff d)) \<or> bm_get (view s) (snapshot_key p b w) = None"
  shows "\<exists>e. replay s p b vs x = Inl e"
  using assms(1,4)
proof (induction vs arbitrary: x)
  case (Cons w vs)
  have gap: "\<exists>e. read_full s p b u = Inl e" if "bm_get (view s) (snapshot_key p b u) = None" for u
    using that by (simp add: read_full_def load_merged_eq)
  show ?case
  proof (cases "v = w")
    case True
    then obtain e where "read_full s p b w = Inl e" using assms(2) gap by blast
    then show ?thesis using True assms(3) by (simp add: load_merged_eq)
  next
    case False
    then have later: "\<exists>e. replay s p b vs y = Inl e" for y using Cons by auto
    consider d where "bm_get (view s) (diff_key p b w) = Some (SDiff d)" | "bm_get (view s) (snapshot_key p b w) = None"
      using Cons.prems(2) by auto
    then show ?thesis
    proof cases
      case (1 d)
      then show ?thesis using later by (cases "read_full s p b w") (simp_all add: load_merged_eq decode_with_def)
    next
      case 2
      then obtain e where e: "read_full s p b w = Inl e" using gap by blast
      then show ?thesis
        using later by (cases "load_merged as_diff s (diff_key p b w)") (auto split: option.splits)
    qed
  qed
qed simp

lemma dropped_unreadable:
  assumes "0 < v" "bm_get (view s) (snapshot_key p b v) = None" "bm_get (view s) (diff_key p b v) = None"
    and "\<forall>w. base_of v < w \<and> w \<le> v \<longrightarrow>
      (\<exists>d. bm_get (view s) (diff_key p b w) = Some (SDiff d)) \<or> bm_get (view s) (snapshot_key p b w) = None"
  shows "\<exists>e. snapshot_of s p b v = Inl e"
proof (cases "load_merged as_snap s (snapshot_key p b (base_of v))")
  case (Inr r)
  note base = base_of_props [OF assms(1)]
  show ?thesis
  proof (cases r)
    case None
    then show ?thesis using assms Inr by (simp add: snapshot_of_def Let_def read_full_def load_merged_eq)
  next
    case (Some x)
    then have "base_of v \<noteq> v" using Inr assms(2) by (auto simp: load_merged_eq)
    then have "v \<in> set [base_of v + 1..<v + 1]" using base by auto
    moreover have "\<forall>w \<in> set [base_of v + 1..<v + 1]. (\<exists>d. bm_get (view s) (diff_key p b w) = Some (SDiff d)) \<or>
        bm_get (view s) (snapshot_key p b w) = None"
      using assms(4) by (intro ballI) (simp only: set_upt atLeastLessThan_iff, simp)
    ultimately obtain e where "replay s p b [base_of v + 1..<v + 1] x = Inl e"
      using replay_missing [OF _ assms(2,3)] by blast
    then show ?thesis using assms(1) Inr Some by (simp add: snapshot_of_def Let_def del: upt_Suc)
  qed
qed (use assms in \<open>simp add: snapshot_of_def Let_def\<close>)

text \<open>The differences behind a readable version are there.\<close>

lemma chain_diffs:
  assumes "content m p b v = Some x" "base_of v < w" "w \<le> v"
  shows "\<exists>d. bm_get m (diff_key p b w) = Some (SDiff d)"
proof -
  have v: "0 < v" using assms(2,3) by simp
  note base = base_of_props [OF v]
  have "\<exists>y. content m p b w = Some y"
    using assms(1,3) base(4) assms(2) unfolding content_def by (intro chain_content_below [where v = v]) auto
  moreover have "\<not> is_checkpoint w" using base(4) assms(2,3) by blast
  moreover obtain i where "w = Suc i" using assms(2) by (cases w) auto
  ultimately show ?thesis by (auto simp: content_Suc diff_at_Some split: option.splits)
qed

text \<open>
  Two replicas in the same state; the leader has pruned a version that both could read. The next command of the
  log that goes back to this version succeeds where it was kept and is refused where it was dropped: from then
  on the replicas differ in the configuration they serve.
\<close>

lemma pruning_diverges:
  assumes "reach True E s" "prune_versions p b keep s = Inr (n, t)" "get_branch_state s p b = Inr (Some st)"
    and "r \<in> set (version_history s p b)" "get_version_record t p b (vr_no r) = Inr None" "last_request_id st \<noteq> Some rid"
  shows "(\<exists>u ev. apply_rollback p b (vr_no r) comment rid now operator s = Inr (u, ev)) \<and>
    (\<exists>e. apply_rollback p b (vr_no r) comment rid now operator t = Inl e)"
proof -
  note ok = reach_rest_ok [OF assms(1)]
  have view: "view s = sm_store s" and pend: "sm_pending s = []" and wf: "store_wf (view s)" "ver_bound (view s)"
    using ok rest_ok_view [OF ok] by (simp_all add: rest_ok_def)
  have st: "bm_get (view s) (branch_state_key p b) = Some (SBranch st)" using assms(3) by simp
  have names: "slash_free p" "slash_free b" using branch_found [OF wf(1) st] by auto
  have rec: "bm_get (view s) (version_key p b (vr_no r)) = Some (SVersion r)"
    using set_version_history [OF wf(1) names] assms(4) by blast
  have "t \<noteq> s" using rec assms(5) by (auto simp: get_version_record_def load_merged_eq decode_with_def)
  then obtain kf gone where t: "t = fold (\<lambda>r. drop_version p b (vr_no r)) gone s"
    and kf: "0 < kf" "kf \<le> active_version st"
    and gone: "gone = filter (\<lambda>r. \<not> (vr_no r \<ge> kf \<or> vr_no r = active_version st)) (version_history s p b)"
    using prune_versions_steps [OF assms(2) wf] st by auto
  note get = drop_versions_get [OF pend, of p b gone, folded t]
  have dropped: "\<exists>q \<in> set gone. vr_no q = vr_no r"
    using assms(5) rec names unfolding get_version_record_def load_merged_eq get by (auto simp: key_eq decode_with_def split: if_splits)
  then have low: "vr_no r < kf" "vr_no r < active_version st" using gone kf by auto
  have pos: "0 < vr_no r" using ver_boundD [OF wf(2) names, of "version_key p b (vr_no r)" "vr_no r"] rec by auto
  have "readable (view s) p b (vr_no r)" "readable (view s) p b (active_version st)"
    using reach_recorded [OF assms(1)] reach_live [OF assms(1)] names rec st unfolding recorded_def live_def view readable_def
    by fastforce+
  then obtain old where old: "content (view s) p b (vr_no r) = Some old" using pos by (auto simp: readable_def)
  have "\<exists>u ev. apply_rollback p b (vr_no r) comment rid now operator s = Inr (u, ev)"
    using snapshot_of_content [OF old] active_snapshot_content [OF \<open>readable (view s) p b (active_version st)\<close>] st assms(6) pos low(2)
    by (simp add: apply_rollback_def Let_def)
  have state: "bm_get (view t) (branch_state_key p b) = Some (SBranch st)"
    using st names unfolding get by (simp add: key_eq)
  have gone2: "bm_get (view t) (snapshot_key p b (vr_no r)) = None" "bm_get (view t) (diff_key p b (vr_no r)) = None"
    using dropped unfolding get by auto
  have "\<forall>w. base_of (vr_no r) < w \<and> w \<le> vr_no r \<longrightarrow>
      (\<exists>d. bm_get (view t) (diff_key p b w) = Some (SDiff d)) \<or> bm_get (view t) (snapshot_key p b w) = None"
    using chain_diffs [OF old] names unfolding get by (auto simp: key_eq)
  from dropped_unreadable [OF pos gone2 this] obtain e where "snapshot_of t p b (vr_no r) = Inl e" by blast
  then have "apply_rollback p b (vr_no r) comment rid now operator t = Inl e"
    using state assms(6) pos low(2) by (simp add: apply_rollback_def)
  then show ?thesis
    using \<open>\<exists>u ev. apply_rollback p b (vr_no r) comment rid now operator s = Inr (u, ev)\<close> by blast
qed

end
