(* ===== verification/Api_Edit.thy ===== *)
theory Api_Edit
  imports Api_Login
begin

text \<open>
  The handlers that edit projects (dsh-api \<open>lib.rs\<close>): projects, branches, structures, drafts, publishing,
  rollback, gray release, comparison and promotion of values. A handler takes the state, writes through the
  write path or the service, and answers the new state, the audit entries it has asked for, and its reply.
  A reply is what the handler puts into its JSON body. At the end: what a project administrator can change.
\<close>

section \<open>Requests and replies\<close>

text \<open>
  What a handler has at hand: the server, the principal the middleware has put into the request, the attempts of
  the write, the clock, and the identifier \<open>new_request_id\<close> gives. The text of a warning is a parameter.
\<close>

record caller =
  cl_env :: login_env
  cl_service :: publish_service
  cl_warning :: "verr \<Rightarrow> string"
  cl_gate :: read_gate
  cl_who :: principal
  cl_route :: route
  cl_now :: int
  cl_request_id :: string

type_synonym 'a edited = "sm \<times> command list \<times> (reject + 'a)"

text \<open>The identifier has the number of the process and a counter that starts at zero with it.\<close>

definition new_request_id :: "nat \<Rightarrow> nat \<Rightarrow> string" where
  "new_request_id process seq = ''auto-'' @ dec_string process @ ''-'' @ dec_string seq"

definition request_id_of :: "caller \<Rightarrow> string option \<Rightarrow> string" where
  "request_id_of c rid = (case rid of None \<Rightarrow> cl_request_id c | Some r \<Rightarrow> r)"

definition edit_audit ::
  "caller \<Rightarrow> string \<Rightarrow> string option \<Rightarrow> string option \<Rightarrow> nat option \<Rightarrow> string option \<Rightarrow> (string \<times> json) list \<Rightarrow> command" where
  "edit_audit c action pid branch version rid detail =
     audit_cmd (cl_now c) action pid branch version rid (json_text (le_serde (cl_env c)) (JObj detail)) (principal_op (cl_who c))"

definition cl_write :: "caller \<Rightarrow> command \<Rightarrow> sm \<Rightarrow> sm \<times> write_outcome res" where
  "cl_write c cmd s = app_write (cl_env c) (cl_route c) cmd (cl_now c) s"

text \<open>A reply after a write that went through; a read-only reply.\<close>

definition after :: "sm \<times> 'a res \<Rightarrow> ('a \<Rightarrow> sm \<Rightarrow> command list \<times> (reject + 'b)) \<Rightarrow> 'b edited" where
  "after w f = (case w of (t, Inl e) \<Rightarrow> (t, [], Inl (api_error e)) | (t, Inr x) \<Rightarrow> (t, f x t))"

definition answer :: "'a res \<Rightarrow> sm \<Rightarrow> 'a edited" where
  "answer r s = (s, [], map_error api_error r)"

definition refuse :: "error_kind \<Rightarrow> sm \<Rightarrow> 'a edited" where
  "refuse k s = (s, [], Inl (api_error (err k)))"

section \<open>Projects and branches\<close>

record create_project_req =
  cp_name :: string
  cp_clone_from :: "string option"

definition create_project :: "caller \<Rightarrow> create_project_req \<Rightarrow> sm \<Rightarrow> (string \<times> string list) edited" where
  "create_project c req s =
     (let name = cp_name req;
          source = (case cp_clone_from req of None \<Rightarrow> None | Some x \<Rightarrow> if x = [] then None else Some x) in
      after (cl_write c (ProjectCreate name ''admin'' (cl_now c) source) s) (\<lambda>w t.
        ([edit_audit c ''project_create'' (Some name) None None None
            (case source of None \<Rightarrow> [] | Some x \<Rightarrow> [(''clone_from'', JStr x)])],
         Inr (name, [''dev'', ''test'', ''prod'']))))"

definition projects_handler :: "caller \<Rightarrow> sm \<Rightarrow> (string \<times> string) list edited" where
  "projects_handler c s = answer (Inr (map (\<lambda>p. (p_id p, p_name p)) (filter (\<lambda>p. case cl_who c of
       ProjectAdmin u q \<Rightarrow> p_id p = q
     | _ \<Rightarrow> True) (list_projects s)))) s"

definition branches_handler :: "project_id \<Rightarrow> sm \<Rightarrow> (branch_name \<times> nat) list edited" where
  "branches_handler pid s = answer (Inr (map (\<lambda>b. (b,
       case found (get_branch_state s pid b) of None \<Rightarrow> 0 | Some st \<Rightarrow> active_version st)) (list_branches s pid))) s"

record create_branch_req =
  cb_name :: string
  cb_source :: "string option"

definition create_branch :: "caller \<Rightarrow> project_id \<Rightarrow> create_branch_req \<Rightarrow> sm \<Rightarrow> (string \<times> string) edited" where
  "create_branch c pid req s =
     after (cl_write c (BranchCreate pid (cb_name req) (cb_source req) (principal_op (cl_who c)) (cl_now c)) s) (\<lambda>w t.
       ([edit_audit c ''branch_create'' (Some pid) (Some (cb_name req)) None None []], Inr (cb_name req, pid)))"

definition project_detail :: "project_id \<Rightarrow> sm \<Rightarrow> project edited" where
  "project_detail pid s = answer (bindE (get_project s pid) (ok_or (err NotFound))) s"

definition delete_project :: "caller \<Rightarrow> project_id \<Rightarrow> bool \<Rightarrow> sm \<Rightarrow> unit edited" where
  "delete_project c pid force s =
     (if \<not> force then (s, [], Inl (Reject 422 ''ERR_VALIDATION''))
      else after (cl_write c (ProjectDelete pid ''admin'') s) (\<lambda>w t.
        ([edit_audit c ''project_delete'' (Some pid) None None None []], Inr ())))"

definition delete_branch :: "caller \<Rightarrow> project_id \<Rightarrow> branch_name \<Rightarrow> sm \<Rightarrow> unit edited" where
  "delete_branch c pid branch s =
     after (cl_write c (BranchDelete pid branch (principal_op (cl_who c))) s) (\<lambda>w t.
       ([edit_audit c ''branch_delete'' (Some pid) (Some branch) None None []], Inr ()))"

section \<open>Structures\<close>

text \<open>Without a draft the reply is an empty one with no base version.\<close>

definition structure_draft_handler :: "project_id \<Rightarrow> sm \<Rightarrow> structure_draft option edited" where
  "structure_draft_handler pid s = answer (get_structure_draft s pid) s"

definition published_structure_handler :: "project_id \<Rightarrow> sm \<Rightarrow> struct edited" where
  "published_structure_handler pid s = answer (bindE (get_project s pid) (\<lambda>p. case p of
       None \<Rightarrow> Inl (err NotFound)
     | Some q \<Rightarrow> bindE (get_structure s pid) (\<lambda>st. Inr (case st of
           Some x \<Rightarrow> x
         | None \<Rightarrow> \<lparr>s_version = 0, s_groups = []\<rparr>)))) s"

record structure_draft_req =
  sq_base_version :: nat
  sq_groups :: "group_def list"

definition set_structure_draft :: "caller \<Rightarrow> project_id \<Rightarrow> structure_draft_req \<Rightarrow> sm \<Rightarrow> string edited" where
  "set_structure_draft c pid req s =
     after (cl_write c (StructureDraftSet pid (sq_base_version req) (sq_groups req) (principal_op (cl_who c))) s) (\<lambda>w t.
       ([edit_audit c ''draft_update'' (Some pid) None None None [(''kind'', JStr ''structure-draft'')]], Inr pid))"

record publish_req =
  pq_comment :: string
  pq_request_id :: "string option"

definition affected_json :: "(branch_name \<times> nat) list \<Rightarrow> json" where
  "affected_json xs = JArr (map (\<lambda>(b, v). JObj [(''branch'', JStr b), (''version'', JInt (int v))]) xs)"

definition publish_structure_handler ::
  "caller \<Rightarrow> project_id \<Rightarrow> publish_req \<Rightarrow> sm \<Rightarrow> ((branch_name \<times> nat) list \<times> string) edited" where
  "publish_structure_handler c pid req s =
     (let rid = request_id_of c (pq_request_id req) in
      after (service_publish_structure (le_ext (cl_env c)) (cl_service c) (cl_route c) pid (pq_comment req) rid
          (principal_op (cl_who c)) (cl_now c) s) (\<lambda>affected t.
        ([edit_audit c ''structure_publish'' (Some pid) None None (Some rid) [(''affected_branches'', affected_json affected)]],
         Inr (affected, rid))))"

section \<open>Drafts and publishing\<close>

record draft_update_req =
  dq_updates :: "draft_update_item list"
  dq_deletes :: "string list"
  dq_bindings :: "shared_binding list"
  dq_expected :: "nat option"

text \<open>\<open>split_once('/')\<close> on each, the entries without a slash dropped.\<close>

definition group_keys :: "string list \<Rightarrow> (string \<times> string) list" where
  "group_keys xs = List.map_filter (split_once CHR ''/'') xs"

definition draft_handler ::
  "caller \<Rightarrow> project_id \<Rightarrow> branch_name \<Rightarrow> draft_update_req \<Rightarrow> sm \<Rightarrow> (string \<times> string) edited" where
  "draft_handler c pid branch req s =
     (if list_ex (\<lambda>x. CHR ''/'' \<notin> set x) (dq_deletes req) then refuse Validation s
      else (let deletes = group_keys (dq_deletes req) in
        after (update_draft (le_ext (cl_env c)) (cl_service c) (cl_route c) pid branch (dq_updates req) deletes
            (dq_bindings req) (dq_expected req) (principal_op (cl_who c)) (cl_now c) s) (\<lambda>u t.
          ([edit_audit c ''draft_update'' (Some pid) (Some branch) None None
              [(''updates'', JInt (int (length (dq_updates req)))), (''deletes'', JInt (int (length deletes))),
               (''bindings'', JInt (int (length (dq_bindings req))))]],
           Inr (pid, branch)))))"

record publish_resp =
  ps_version :: nat
  ps_changes :: "diff_entry list"
  ps_warnings :: "verr list"
  ps_request_id :: string

definition publish_handler :: "caller \<Rightarrow> project_id \<Rightarrow> branch_name \<Rightarrow> publish_req \<Rightarrow> sm \<Rightarrow> publish_resp edited" where
  "publish_handler c pid branch req s =
     (let rid = request_id_of c (pq_request_id req) in
      after (service_publish (le_ext (cl_env c)) (cl_service c) (cl_route c) pid branch (pq_comment req) rid
          (principal_op (cl_who c)) (cl_now c) s) (\<lambda>w t.
        ([edit_audit c ''publish'' (Some pid) (Some branch) (Some (po_version w)) (Some rid)
            [(''warnings'', JArr (map (\<lambda>e. JStr (cl_warning c e)) (po_warnings w)))]],
         Inr \<lparr>ps_version = po_version w, ps_changes = po_changes w, ps_warnings = po_warnings w, ps_request_id = rid\<rparr>)))"

record rollback_req =
  rq_to_version :: nat
  rq_comment :: string
  rq_request_id :: "string option"

definition rollback_handler :: "caller \<Rightarrow> project_id \<Rightarrow> branch_name \<Rightarrow> rollback_req \<Rightarrow> sm \<Rightarrow> (nat \<times> string) edited" where
  "rollback_handler c pid branch req s =
     (let rid = request_id_of c (rq_request_id req) in
      after (service_rollback (le_ext (cl_env c)) (cl_route c) pid branch (rq_to_version req) (rq_comment req) rid
          (principal_op (cl_who c)) (cl_now c) s) (\<lambda>v t.
        ([edit_audit c ''rollback'' (Some pid) (Some branch) (Some v) (Some rid) [(''to_version'', JInt (int (rq_to_version req)))]],
         Inr (v, rid))))"

definition version_history_handler :: "project_id \<Rightarrow> branch_name \<Rightarrow> sm \<Rightarrow> version_record list edited" where
  "version_history_handler pid branch s = answer (Inr (version_history s pid branch)) s"

section \<open>Gray release\<close>

record gray_publish_req =
  gq_rule :: gray_rule
  gq_comment :: string
  gq_request_id :: "string option"

record gray_publish_resp =
  gp_seq :: nat
  gp_rule :: "gray_rule option"
  gp_active_version :: nat
  gp_event_gray :: bool
  gp_request_id :: string

definition gray_publish_handler ::
  "caller \<Rightarrow> project_id \<Rightarrow> branch_name \<Rightarrow> gray_publish_req \<Rightarrow> sm \<Rightarrow> gray_publish_resp edited" where
  "gray_publish_handler c pid branch req s =
     (let rid = request_id_of c (gq_request_id req) in
      after (service_gray_publish (le_ext (cl_env c)) (cl_service c) (cl_route c) pid branch (gq_rule req) (gq_comment req) rid
          (principal_op (cl_who c)) (cl_now c) s) (\<lambda>events t. case get_branch_state t pid branch of
          Inl e \<Rightarrow> ([], Inl (api_error e))
        | Inr st \<Rightarrow>
            (let seq = (case st of None \<Rightarrow> 0 | Some x \<Rightarrow> gray_seq x) in
             ([edit_audit c ''gray_publish'' (Some pid) (Some branch) None (Some rid) [(''gray_seq'', JInt (int seq))]],
              Inr \<lparr>gp_seq = seq, gp_rule = Option.bind st b_gray_rule,
                gp_active_version = (case st of None \<Rightarrow> 0 | Some x \<Rightarrow> active_version x),
                gp_event_gray = (case events of [] \<Rightarrow> False | e # _ \<Rightarrow> ev_gray e), gp_request_id = rid\<rparr>))))"

record gray_req =
  gr_comment :: string
  gr_request_id :: "string option"

text \<open>The version of the first event, or for a repetition the active one.\<close>

definition promoted_version :: "publish_event list \<Rightarrow> project_id \<Rightarrow> branch_name \<Rightarrow> sm \<Rightarrow> nat" where
  "promoted_version events pid branch t = (case events of
     e # _ \<Rightarrow> ev_version e
   | [] \<Rightarrow> (case found (get_branch_state t pid branch) of None \<Rightarrow> 0 | Some st \<Rightarrow> active_version st))"

definition gray_promote_handler :: "caller \<Rightarrow> project_id \<Rightarrow> branch_name \<Rightarrow> gray_req \<Rightarrow> sm \<Rightarrow> (nat \<times> string) edited" where
  "gray_promote_handler c pid branch req s =
     (let rid = request_id_of c (gr_request_id req) in
      after (service_gray_promote (le_ext (cl_env c)) (cl_route c) pid branch (gr_comment req) rid
          (principal_op (cl_who c)) (cl_now c) s) (\<lambda>events t.
        (let v = promoted_version events pid branch t in
         ([edit_audit c ''gray_promote'' (Some pid) (Some branch) (Some v) (Some rid) []], Inr (v, rid)))))"

definition gray_abort_handler :: "caller \<Rightarrow> project_id \<Rightarrow> branch_name \<Rightarrow> gray_req \<Rightarrow> sm \<Rightarrow> (nat \<times> string) edited" where
  "gray_abort_handler c pid branch req s =
     (let rid = request_id_of c (gr_request_id req) in
      after (service_gray_abort (le_ext (cl_env c)) (cl_route c) pid branch (gr_comment req) rid
          (principal_op (cl_who c)) (cl_now c) s) (\<lambda>events t.
        ([edit_audit c ''gray_abort'' (Some pid) (Some branch) None (Some rid) []],
         Inr (case events of [] \<Rightarrow> 0 | e # _ \<Rightarrow> ev_version e, rid))))"

record gray_status_resp =
  gs_active_version :: nat
  gs_structure_version :: nat
  gs_active :: bool
  gs_seq :: nat
  gs_rule :: "gray_rule option"

definition gray_status :: "project_id \<Rightarrow> branch_name \<Rightarrow> sm \<Rightarrow> gray_status_resp edited" where
  "gray_status pid branch s = answer (bindE (get_branch_state s pid branch) (\<lambda>r. bindE (ok_or (err NotFound) r) (\<lambda>st.
     Inr \<lparr>gs_active_version = active_version st, gs_structure_version = structure_version st,
       gs_active = (gray_seq st > 0), gs_seq = gray_seq st, gs_rule = b_gray_rule st\<rparr>))) s"

section \<open>The page of a branch\<close>

text \<open>A secret is shown as a mask with a flag.\<close>

datatype shown = Masked | Shown val

definition shown_value :: "val \<Rightarrow> shown" where
  "shown_value v = (case v of VSecret ct \<Rightarrow> Masked | _ \<Rightarrow> Shown v)"

definition masked_shared_value :: "shared_item \<Rightarrow> shown" where
  "masked_shared_value item = (if si_secret item then Masked else Shown (si_value item))"

text \<open>An item bound to nothing has the empty key and no value; a bound one whose shared item is gone is left out.\<close>

record shared_ref =
  sr_group :: string
  sr_key :: string
  sr_shared_key :: string
  sr_value :: "(nat \<times> shown) option"

definition item_ref :: "sm \<Rightarrow> branch_state \<Rightarrow> string \<Rightarrow> item_def \<Rightarrow> shared_ref list res" where
  "item_ref s st g item =
     (if \<not> it_shared item then Inr []
      else (case tree_get (shared_bindings st) g (it_key item) of
          None \<Rightarrow> Inr [\<lparr>sr_group = g, sr_key = it_key item, sr_shared_key = [], sr_value = None\<rparr>]
        | Some rk \<Rightarrow> bindE (get_shared s rk) (\<lambda>found_item. case found_item of
              None \<Rightarrow> Inr []
            | Some shared \<Rightarrow> Inr [\<lparr>sr_group = g, sr_key = it_key item, sr_shared_key = rk,
                  sr_value = Some (si_version shared, masked_shared_value shared)\<rparr>])))"

definition branch_refs :: "sm \<Rightarrow> branch_state \<Rightarrow> struct option \<Rightarrow> shared_ref list res" where
  "branch_refs s st structure = (case structure of
     None \<Rightarrow> Inr []
   | Some x \<Rightarrow> foldE (\<lambda>(g, item) refs. bindE (item_ref s st g item) (\<lambda>r. Inr (refs @ r)))
       (concat (map (\<lambda>g. map (Pair (g_name g)) (g_items g)) (s_groups x))) [])"

definition no_client :: client_ctx where
  "no_client = \<lparr>instance_id = [], labels = bm_empty, client_ip = None\<rparr>"

record branch_page =
  bp_name :: string
  bp_active_version :: nat
  bp_structure_version :: nat
  bp_draft_rev :: nat
  bp_draft :: value_draft
  bp_shared_refs :: "shared_ref list"
  bp_active :: "shown tree"

definition branch_detail :: "project_id \<Rightarrow> branch_name \<Rightarrow> sm \<Rightarrow> branch_page edited" where
  "branch_detail pid branch s = answer (
     bindE (get_branch_state s pid branch) (\<lambda>r. bindE (ok_or (err NotFound) r) (\<lambda>st.
     bindE (get_structure s pid) (\<lambda>structure.
     bindE (branch_refs s st structure) (\<lambda>refs.
       Inr \<lparr>bp_name = branch, bp_active_version = active_version st, bp_structure_version = structure_version st,
         bp_draft_rev = draft_rev st, bp_draft = b_value_draft st, bp_shared_refs = refs,
         bp_active = (case get_config_resolved s pid branch 0 no_client of
             Inr snap \<Rightarrow> bm_map (\<lambda>g items. bm_map (\<lambda>k v. shown_value v) items) (cs_groups snap)
           | Inl e \<Rightarrow> bm_empty)\<rparr>))))) s"

section \<open>Comparison and promotion of values\<close>

record value_diff =
  vd_group :: string
  vd_key :: string
  vd_branch_a :: val
  vd_branch_b :: val

definition both_keys :: "snapshot \<Rightarrow> snapshot \<Rightarrow> (string \<times> string) list" where
  "both_keys a b = map (\<lambda>(g, k, u). (g, k)) (tree_entries
     (fold (\<lambda>(g, k, v). tree_insert g k ()) (tree_entries a @ tree_entries b) bm_empty))"

definition value_diffs :: "snapshot \<Rightarrow> snapshot \<Rightarrow> value_diff list" where
  "value_diffs a b = List.map_filter (\<lambda>(g, k). case (tree_get a g k, tree_get b g k) of
       (Some x, Some y) \<Rightarrow> if \<not> value_eq x y
          then Some \<lparr>vd_group = g, vd_key = k, vd_branch_a = masked_value x, vd_branch_b = masked_value y\<rparr> else None
     | _ \<Rightarrow> None) (both_keys a b)"

definition missing_keys :: "snapshot \<Rightarrow> snapshot \<Rightarrow> string list" where
  "missing_keys a b = map (\<lambda>(g, k). g @ ''/'' @ k)
     (filter (\<lambda>(g, k). (tree_get a g k = None) \<noteq> (tree_get b g k = None)) (both_keys a b))"

definition branch_diff ::
  "caller \<Rightarrow> project_id \<Rightarrow> branch_name \<Rightarrow> branch_name \<Rightarrow> sm \<Rightarrow> (value_diff list \<times> string list) edited" where
  "branch_diff c pid branch_a branch_b s = answer (
     bindE (linearized_read (cl_gate c)) (\<lambda>u.
     bindE (get_config s pid branch_a 0) (\<lambda>a.
     bindE (get_config s pid branch_b 0) (\<lambda>b.
       Inr (value_diffs (cs_groups a) (cs_groups b), missing_keys (cs_groups a) (cs_groups b)))))) s"

record promote_req =
  pr_from :: string
  pr_to :: string
  pr_items :: "string list option"
  pr_force :: bool

datatype choice = Leave | Skip | Take

definition promote_choice ::
  "(string \<times> string) list option \<Rightarrow> (string \<times> string) list \<Rightarrow> value_draft \<Rightarrow> bool \<Rightarrow> string \<Rightarrow> string \<Rightarrow> choice" where
  "promote_choice wanted refs draft force g k =
     (if (case wanted of None \<Rightarrow> False | Some f \<Rightarrow> (g, k) \<notin> set f) then Leave
      else if (g, k) \<in> set refs then Skip
      else if tree_get draft g k \<noteq> None \<and> \<not> force then Skip
      else Take)"

record promote_plan =
  pl_updates :: "draft_update_item list"
  pl_applied :: "string list"
  pl_skipped :: "string list"
  pl_missing :: "string list"

definition promote_plan_of ::
  "(string \<times> string) list option \<Rightarrow> (string \<times> string) list \<Rightarrow> value_draft \<Rightarrow> bool \<Rightarrow> snapshot \<Rightarrow> promote_plan" where
  "promote_plan_of wanted refs draft force source =
     (let chosen = (\<lambda>ch (g, k, v). promote_choice wanted refs draft force g k = ch);
          path = (\<lambda>(g, k, v). g @ ''/'' @ k); rows = tree_entries source in
      \<lparr>pl_updates = map (\<lambda>(g, k, v). \<lparr>du_group = g, du_key = k, du_value = v\<rparr>) (filter (chosen Take) rows),
       pl_applied = map path (filter (chosen Take) rows),
       pl_skipped = map path (filter (chosen Skip) rows),
       pl_missing = (case wanted of None \<Rightarrow> []
         | Some f \<Rightarrow> map (\<lambda>(g, k). g @ ''/'' @ k) (filter (\<lambda>(g, k). tree_get source g k = None) f))\<rparr>)"

definition plan_promotion :: "project_id \<Rightarrow> promote_req \<Rightarrow> sm \<Rightarrow> promote_plan res" where
  "plan_promotion pid req s =
     bindE (get_config s pid (pr_from req) 0) (\<lambda>source.
     bindE (get_branch_state s pid (pr_to req)) (\<lambda>r. bindE (ok_or (err NotFound) r) (\<lambda>target.
     bindE (get_structure s pid) (\<lambda>structure.
       Inr (promote_plan_of (map_option group_keys (pr_items req))
         (case structure of None \<Rightarrow> [] | Some st \<Rightarrow> shared_items st) (b_value_draft target) (pr_force req) (cs_groups source))))))"

definition promote_handler ::
  "caller \<Rightarrow> project_id \<Rightarrow> promote_req \<Rightarrow> sm \<Rightarrow> (string list \<times> string list \<times> string list) edited" where
  "promote_handler c pid req s = (case plan_promotion pid req s of
     Inl e \<Rightarrow> (s, [], Inl (api_error e))
   | Inr plan \<Rightarrow>
       after (if pl_updates plan = [] then (s, Inr ())
              else update_draft (le_ext (cl_env c)) (cl_service c) (cl_route c) pid (pr_to req) (pl_updates plan) [] []
                None (principal_op (cl_who c)) (cl_now c) s) (\<lambda>u t.
         ([edit_audit c ''promote'' (Some pid) (Some (pr_to req)) None None
             [(''from'', JStr (pr_from req)), (''applied'', JInt (int (length (pl_applied plan)))),
              (''skipped'', JInt (int (length (pl_skipped plan)))), (''missing_from'', JInt (int (length (pl_missing plan))))]],
          Inr (pl_applied plan, pl_skipped plan, pl_missing plan))))"

end
