(* ===== verification/Api_Shared.thy ===== *)
theory Api_Shared
  imports Api_Edit
begin

text \<open>
  The handlers of the shared library and of the audit log (dsh-api \<open>lib.rs\<close>): drafts of shared items with the
  encryption of their secrets, listing, publishing and deletion; the query of the audit log.
\<close>

section \<open>Drafts of shared items\<close>

definition MAX_DESC_BYTES :: nat where "MAX_DESC_BYTES = 200"

record shared_item_req =
  sh_key :: string
  sh_ty :: value_type
  sh_secret :: bool
  sh_required :: bool
  sh_description :: "string option"
  sh_value :: val

text \<open>An empty text keeps the ciphertext there is, of the draft before that of the published item.\<close>

definition kept_ciphertext :: "string \<Rightarrow> sm \<Rightarrow> val res" where
  "kept_ciphertext key s = bindE (get_shared_effective s key) (\<lambda>cur. case cur of
     None \<Rightarrow> Inl (err Validation)
   | Some item \<Rightarrow> (case si_value item of VSecret ct \<Rightarrow> Inr (VSecret ct) | _ \<Rightarrow> Inl (err Validation)))"

definition shared_draft_value :: "encrypt \<Rightarrow> shared_item_req \<Rightarrow> sm \<Rightarrow> val res" where
  "shared_draft_value K req s =
     (if sh_secret req then
        (if sh_ty req \<noteq> TSecret then Inl (err Validation)
         else (case sh_value req of
             VString plain \<Rightarrow>
               if plain = [] then kept_ciphertext (sh_key req) s
               else (case K of
                   None \<Rightarrow> Inl (err Validation)
                 | Some enc \<Rightarrow> (case enc 0 plain of None \<Rightarrow> Inl (err Internal) | Some ct \<Rightarrow> Inr (VSecret ct)))
           | _ \<Rightarrow> Inl (err Validation)))
      else if sh_ty req = TSecret then Inl (err Validation)
      else Inr (sh_value req))"

definition write_shared_draft :: "caller \<Rightarrow> shared_item_req \<Rightarrow> sm \<Rightarrow> string edited" where
  "write_shared_draft c req s = (case shared_draft_value (ps_encrypt (cl_service c)) req s of
     Inl e \<Rightarrow> (s, [], Inl (api_error e))
   | Inr v \<Rightarrow>
       if (case sh_description req of None \<Rightarrow> False | Some d \<Rightarrow> length d > MAX_DESC_BYTES) then refuse Validation s
       else after (cl_write c (SharedDraftUpdate \<lparr>si_key = sh_key req, si_ty = sh_ty req, si_secret = sh_secret req,
              si_required = sh_required req, si_value = v, si_version = 0, si_description = sh_description req\<rparr>
              (principal_op (cl_who c))) s) (\<lambda>w t.
         ([edit_audit c ''shared_draft_update'' None None None None [(''key'', JStr (sh_key req))]], Inr (sh_key req))))"

definition create_shared :: "caller \<Rightarrow> shared_item_req \<Rightarrow> sm \<Rightarrow> string edited" where
  "create_shared c req s = write_shared_draft c req s"

definition update_shared_draft :: "caller \<Rightarrow> shared_item_req \<Rightarrow> sm \<Rightarrow> string edited" where
  "update_shared_draft c req s = write_shared_draft c req s"

section \<open>Listing\<close>

type_synonym usage = "(project_id \<times> branch_name \<times> string \<times> string) list"

record shared_item_page =
  ip_key :: string
  ip_ty :: value_type
  ip_secret :: bool
  ip_required :: bool
  ip_value :: shown
  ip_version :: nat
  ip_description :: "string option"
  ip_refs :: "usage option"

definition shared_item_json :: "shared_item \<Rightarrow> usage option \<Rightarrow> shared_item_page" where
  "shared_item_json item refs = \<lparr>ip_key = si_key item, ip_ty = si_ty item, ip_secret = si_secret item,
     ip_required = si_required item, ip_value = masked_shared_value item, ip_version = si_version item,
     ip_description = si_description item, ip_refs = refs\<rparr>"

text \<open>\<open>Result::ok\<close>.\<close>

definition ok_part :: "'e + 'a \<Rightarrow> 'a option" where
  "ok_part r = (case r of Inl e \<Rightarrow> None | Inr x \<Rightarrow> Some x)"

definition visible_usage :: "principal \<Rightarrow> usage \<Rightarrow> usage" where
  "visible_usage who refs = (case who of ProjectAdmin u pid \<Rightarrow> filter (\<lambda>(p, b, g, k). p = pid) refs | _ \<Rightarrow> refs)"

definition shared_handler :: "caller \<Rightarrow> sm \<Rightarrow> shared_item_page list edited" where
  "shared_handler c s = answer (Inr (map (\<lambda>item.
     shared_item_json item (map_option (visible_usage (cl_who c)) (ok_part (shared_usage s (si_key item)))))
     (list_shared_published s))) s"

definition shared_drafts_handler :: "sm \<Rightarrow> shared_item_page list edited" where
  "shared_drafts_handler s = answer (Inr (map (\<lambda>item. shared_item_json item None) (list_shared_drafts s))) s"

section \<open>Publishing and deletion\<close>

text \<open>One row for each branch, the first event of it.\<close>

fun affected_branches ::
  "(project_id \<times> branch_name) list \<Rightarrow> publish_event list \<Rightarrow> (project_id \<times> branch_name \<times> nat) list" where
  "affected_branches seen [] = []"
| "affected_branches seen (e # es) =
     (if (ev_project e, ev_branch e) \<in> set seen then affected_branches seen es
      else (ev_project e, ev_branch e, ev_version e) # affected_branches ((ev_project e, ev_branch e) # seen) es)"

definition publish_shared ::
  "caller \<Rightarrow> publish_req \<Rightarrow> sm \<Rightarrow> (nat \<times> (project_id \<times> branch_name \<times> nat) list \<times> string) edited" where
  "publish_shared c req s =
     (let rid = request_id_of c (pq_request_id req) in
      after (cl_write c (SharedPublish (pq_comment req) rid (principal_op (cl_who c)) (cl_now c)
          (ps_cascade (cl_service c)) (ps_policy (cl_service c))) s) (\<lambda>(v, events) t.
        (let affected = affected_branches [] events in
         ([edit_audit c ''shared_publish'' None None None (Some rid) [(''affected'', JInt (int (length affected)))]],
          Inr (fold max (map si_version (list_shared_published t)) 0, affected, rid)))))"

definition delete_shared :: "caller \<Rightarrow> string \<Rightarrow> sm \<Rightarrow> unit edited" where
  "delete_shared c key s = after (cl_write c (SharedDelete key (principal_op (cl_who c))) s) (\<lambda>w t.
     ([edit_audit c ''shared_delete'' None None None None [(''key'', JStr key)]], Inr ()))"

definition delete_shared_draft :: "caller \<Rightarrow> string \<Rightarrow> sm \<Rightarrow> unit edited" where
  "delete_shared_draft c key s = after (cl_write c (SharedDelete key (principal_op (cl_who c))) s) (\<lambda>w t.
     ([edit_audit c ''shared_delete'' None None None None [(''key'', JStr key), (''draft'', JBool True)]], Inr ()))"

section \<open>The audit log\<close>

record audit_query =
  aq_action :: "string option"
  aq_since :: "int option"
  aq_limit :: "nat option"

definition default_audit_limit :: nat where "default_audit_limit = 100"

definition audit_handler :: "caller \<Rightarrow> audit_query \<Rightarrow> sm \<Rightarrow> audit_entry list edited" where
  "audit_handler c q s = answer (Inr (get_audit s (aq_action q)
     (case cl_who c of ProjectAdmin u pid \<Rightarrow> Some pid | _ \<Rightarrow> None) (aq_since q)
     (case aq_limit q of None \<Rightarrow> default_audit_limit | Some n \<Rightarrow> n))) s"

end
