(* ===== verification/Isolation.thy ===== *)
theory Isolation
  imports Api_Shared
begin

text \<open>
  What an administrator of a project can do through the handlers of editing: the requests of the routes of
  projects, from the middleware through the dispatch and the handler to the store, and what the replies of the
  lists show.
\<close>

section \<open>The requests of the project routes\<close>

text \<open>A request with its parsed body; the handler it belongs to, as the table of routes names it.\<close>

datatype edit_request =
    Project_Detail | List_Branches | Create_Branch create_branch_req | Branch_Detail | Delete_Branch
  | Branch_Diff branch_name branch_name | Promote promote_req
  | Gray_Publish gray_publish_req | Gray_Promote gray_req | Gray_Abort gray_req | Gray_Status
  | Get_Structure_Draft | Set_Structure_Draft structure_draft_req | Publish_Structure publish_req | Get_Published_Structure
  | Update_Draft draft_update_req | Publish_Branch publish_req | Rollback_Branch rollback_req | Version_History
  | List_Projects | Create_Project create_project_req | Delete_Project bool

fun handler_of :: "edit_request \<Rightarrow> handler" where
  "handler_of Project_Detail = ''project_detail''"
| "handler_of List_Branches = ''list_branches''"
| "handler_of (Create_Branch r) = ''create_branch''"
| "handler_of Branch_Detail = ''branch_detail''"
| "handler_of Delete_Branch = ''delete_branch''"
| "handler_of (Branch_Diff a b) = ''branch_diff''"
| "handler_of (Promote r) = ''promote''"
| "handler_of (Gray_Publish r) = ''gray_publish_branch''"
| "handler_of (Gray_Promote r) = ''gray_promote_branch''"
| "handler_of (Gray_Abort r) = ''gray_abort_branch''"
| "handler_of Gray_Status = ''gray_status''"
| "handler_of Get_Structure_Draft = ''get_structure_draft''"
| "handler_of (Set_Structure_Draft r) = ''set_structure_draft''"
| "handler_of (Publish_Structure r) = ''publish_structure''"
| "handler_of Get_Published_Structure = ''get_published_structure''"
| "handler_of (Update_Draft r) = ''update_draft''"
| "handler_of (Publish_Branch r) = ''publish''"
| "handler_of (Rollback_Branch r) = ''rollback''"
| "handler_of Version_History = ''version_history''"
| "handler_of List_Projects = ''list_projects''"
| "handler_of (Create_Project r) = ''create_project''"
| "handler_of (Delete_Project force) = ''delete_project''"

definition reads_only :: "edit_request \<Rightarrow> bool" where
  "reads_only r \<longleftrightarrow> r \<in> {Project_Detail, List_Branches, Branch_Detail, Gray_Status, Get_Structure_Draft,
     Get_Published_Structure, Version_History, List_Projects} \<or> (\<exists>a b. r = Branch_Diff a b)"

text \<open>The handler with the parameters of the path; of the reply only whether it is a refusal.\<close>

definition outcome_only :: "'a edited \<Rightarrow> sm \<times> command list \<times> reject option" where
  "outcome_only r = (case r of (t, audits, reply) \<Rightarrow> (t, audits, case reply of Inl x \<Rightarrow> Some x | Inr y \<Rightarrow> None))"

fun run_edit :: "caller \<Rightarrow> edit_request \<Rightarrow> string list \<Rightarrow> sm \<Rightarrow> sm \<times> command list \<times> reject option" where
  "run_edit c Project_Detail ps s = outcome_only (project_detail (hd ps) s)"
| "run_edit c List_Branches ps s = outcome_only (branches_handler (hd ps) s)"
| "run_edit c (Create_Branch r) ps s = outcome_only (create_branch c (hd ps) r s)"
| "run_edit c Branch_Detail ps s = outcome_only (branch_detail (hd ps) (ps ! 1) s)"
| "run_edit c Delete_Branch ps s = outcome_only (delete_branch c (hd ps) (ps ! 1) s)"
| "run_edit c (Branch_Diff a b) ps s = outcome_only (branch_diff c (hd ps) a b s)"
| "run_edit c (Promote r) ps s = outcome_only (promote_handler c (hd ps) r s)"
| "run_edit c (Gray_Publish r) ps s = outcome_only (gray_publish_handler c (hd ps) (ps ! 1) r s)"
| "run_edit c (Gray_Promote r) ps s = outcome_only (gray_promote_handler c (hd ps) (ps ! 1) r s)"
| "run_edit c (Gray_Abort r) ps s = outcome_only (gray_abort_handler c (hd ps) (ps ! 1) r s)"
| "run_edit c Gray_Status ps s = outcome_only (gray_status (hd ps) (ps ! 1) s)"
| "run_edit c Get_Structure_Draft ps s = outcome_only (structure_draft_handler (hd ps) s)"
| "run_edit c (Set_Structure_Draft r) ps s = outcome_only (set_structure_draft c (hd ps) r s)"
| "run_edit c (Publish_Structure r) ps s = outcome_only (publish_structure_handler c (hd ps) r s)"
| "run_edit c Get_Published_Structure ps s = outcome_only (published_structure_handler (hd ps) s)"
| "run_edit c (Update_Draft r) ps s = outcome_only (draft_handler c (hd ps) (ps ! 1) r s)"
| "run_edit c (Publish_Branch r) ps s = outcome_only (publish_handler c (hd ps) (ps ! 1) r s)"
| "run_edit c (Rollback_Branch r) ps s = outcome_only (rollback_handler c (hd ps) (ps ! 1) r s)"
| "run_edit c Version_History ps s = outcome_only (version_history_handler (hd ps) (ps ! 1) s)"
| "run_edit c List_Projects ps s = outcome_only (projects_handler c s)"
| "run_edit c (Create_Project r) ps s = outcome_only (create_project c r s)"
| "run_edit c (Delete_Project force) ps s = outcome_only (delete_project c (hd ps) force s)"

section \<open>The keys of a project\<close>

definition own_key :: "project_id \<Rightarrow> string \<Rightarrow> bool" where
  "own_key p k \<longleftrightarrow> k = project_key p \<or> k = idx_pname p \<or> starts_with k (project_key p @ ''/'')"

lemma split_all_pieces: "x \<in> set (split_all c s) \<Longrightarrow> c \<notin> set x"
proof (induction s arbitrary: x)
  case (Cons d s)
  then show ?case by (auto split: list.splits if_splits)
qed simp

lemma project_area_own: "project_area p k \<Longrightarrow> own_key p k"
proof -
  assume area: "project_area p k"
  show "own_key p k"
  proof (cases "in_dir [''p'', p] k")
    case True
    then obtain r where r: "segs k = [''p'', p] @ r" "r \<noteq> []"
      unfolding in_dir_def by (metis append_take_drop_id drop_eq_Nil not_less)
    then have "slash_free p" using split_all_pieces [of p "CHR ''/''" k] by (simp add: segs_def slash_free_def)
    then have "segs (project_key p) = [''p'', p]" by (simp add: segs_project_key segs_free)
    then show ?thesis using r by (auto simp: own_key_def starts_with_dir)
  qed (use area in \<open>auto simp: project_area_def own_key_def\<close>)
qed

lemma branch_prefix_own: "starts_with k (branch_prefix p b) \<Longrightarrow> own_key p k"
  by (auto simp: own_key_def key_defs starts_with_iff)

fun in_project :: "project_id \<Rightarrow> command \<Rightarrow> bool" where
  "in_project p (BranchCreate q name source operator ts) = (q = p)"
| "in_project p (BranchDelete q name operator) = (q = p)"
| "in_project p (StructureDraftSet q base groups operator) = (q = p)"
| "in_project p (PublishStructure q comment rid operator ts policy) = (q = p)"
| "in_project p (DraftUpdate q b updates deletes bindings operator ts expected) = (q = p)"
| "in_project p (Publish q b comment rid operator ts policy) = (q = p)"
| "in_project p (RollbackTo q b to_version comment rid operator ts) = (q = p)"
| "in_project p (GrayPublish q b rule comment rid operator ts policy) = (q = p)"
| "in_project p (GrayPromote q b comment rid operator ts) = (q = p)"
| "in_project p (GrayAbort q b comment rid operator ts) = (q = p)"
| "in_project p _ = False"

lemma in_project_area:
  assumes "in_project p cmd"
  shows "cmd_ok cmd" "\<not> direct_writer cmd" "cmd_area u cmd k \<Longrightarrow> own_key p k"
  using assms by (cases cmd; auto dest: branch_prefix_own project_area_own branch_area_project)+

section \<open>What a request can change\<close>

definition kept :: "project_id \<Rightarrow> sm \<Rightarrow> sm \<Rightarrow> bool" where
  "kept p s t \<longleftrightarrow> store_wf (sm_store t) \<and> (\<forall>k. \<not> own_key p k \<longrightarrow> bm_get (sm_store t) k = bm_get (sm_store s) k)"

lemma kept_refl: "store_wf (sm_store s) \<Longrightarrow> kept p s s"
  by (simp add: kept_def)

lemma kept_trans: "kept p s t \<Longrightarrow> kept p t u \<Longrightarrow> kept p s u"
  by (simp add: kept_def)

lemma apply_command_kept:
  assumes "store_wf (sm_store s)" "in_project p cmd"
  shows "kept p s (fst (apply_command E cmd now s))"
proof (cases "apply_command E cmd now s")
  case (Pair t r)
  show ?thesis
  proof (cases r)
    case (Inl e)
    then obtain u where u: "apply_inner E cmd now (clear_pending s) = (u, Inl e)" "t = clear_pending u"
      using Pair by (auto simp: apply_command_Inl)
    then have "u = clear_pending s" using apply_inner_failed in_project_area(2) [OF assms(2)] by blast
    then show ?thesis using assms(1) Pair u(2) by (simp add: kept_def)
  next
    case (Inr ev)
    with Pair have run: "apply_command E cmd now s = (t, Inr ev)" by simp
    obtain u where u: "sm_store t = view u" "edits (cmd_area (clear_pending s) cmd) (clear_pending s) u" "store_wf (sm_store t)"
      by (rule apply_command_done [OF run assms(1) in_project_area(1) [OF assms(2)]])
    then show ?thesis
      using Pair edits_frame [OF u(2)] in_project_area(3) [OF assms(2)] by (auto simp: kept_def)
  qed
qed

lemma write_command_kept:
  "store_wf (sm_store s) \<Longrightarrow> in_project p cmd \<Longrightarrow> kept p s (fst (write_command E r cmd now s))"
proof (induction E r cmd now s rule: write_command.induct)
  case (2 E r cmd now s)
  then show ?case using apply_command_kept [OF 2, of E now] by (auto split: prod.splits sum.splits)
next
  case (4 E applied r cmd now s)
  have step: "kept p s (if applied then fst (apply_command E cmd now s) else s)"
    using 4(2,3) apply_command_kept kept_refl by simp
  then show ?case using 4(1) [OF _ 4(3)] kept_trans by (auto simp: kept_def)
qed (simp_all add: kept_refl)

lemma cl_write_kept: "store_wf (sm_store s) \<Longrightarrow> in_project p cmd \<Longrightarrow> kept p s (fst (cl_write c cmd s))"
  by (simp add: cl_write_def app_write_def write_command_kept kept_refl)

lemma fst_after [simp]: "fst (after w f) = fst w"
  by (auto simp: after_def split: prod.splits sum.splits)

lemma services_kept:
  assumes "store_wf (sm_store s)"
  shows "kept p s (fst (service_publish E S r p b comment rid operator now s))"
    "kept p s (fst (service_rollback E r p b to_version comment rid operator now s))"
    "kept p s (fst (service_publish_structure E S r p comment rid operator now s))"
    "kept p s (fst (service_gray_publish E S r p b rule comment rid operator now s))"
    "kept p s (fst (service_gray_promote E r p b comment rid operator now s))"
    "kept p s (fst (service_gray_abort E r p b comment rid operator now s))"
    "kept p s (fst (update_draft E S r p b updates deletes bindings expected operator now s))"
  using write_command_kept [OF assms, of p _ E r now] kept_refl [OF assms]
  by (auto simp: service_publish_def service_rollback_def service_publish_structure_def service_gray_publish_def
      service_gray_promote_def service_gray_abort_def update_draft_def split: prod.splits sum.splits)
    (metis fst_conv in_project.simps)+

lemma fst_outcome [simp]: "fst (outcome_only r) = fst r"
  by (cases r) (simp add: outcome_only_def)

lemma fst_answer [simp]: "fst (answer r s) = s" "fst (refuse k s) = s"
  by (simp_all add: answer_def refuse_def)

lemmas edit_defs = project_detail_def branches_handler_def create_branch_def branch_detail_def delete_branch_def
  branch_diff_def promote_handler_def gray_publish_handler_def gray_promote_handler_def gray_abort_handler_def
  gray_status_def structure_draft_handler_def set_structure_draft_def publish_structure_handler_def
  published_structure_handler_def draft_handler_def publish_handler_def rollback_handler_def version_history_handler_def
  projects_handler_def create_project_def delete_project_def

lemma run_edit_kept:
  assumes "store_wf (sm_store s)" "handler_of r \<in> set project_handlers"
  shows "kept (hd ps) s (fst (run_edit c r ps s))"
  using assms kept_refl [OF assms(1)] services_kept [OF assms(1)] cl_write_kept [OF assms(1)]
  by (cases r) (simp_all add: edit_defs Let_def project_handlers_def split: sum.splits if_splits)

text \<open>An audit entry names the principal and the project; it is there exactly when an edit went through.\<close>

definition audited :: "caller \<Rightarrow> string \<Rightarrow> command \<Rightarrow> bool" where
  "audited c pid cmd \<longleftrightarrow> (\<exists>action branch version rid detail.
     cmd = edit_audit c action (Some pid) branch version rid detail)"

definition well_audited :: "caller \<Rightarrow> string \<Rightarrow> sm \<times> command list \<times> reject option \<Rightarrow> bool" where
  "well_audited c pid r \<longleftrightarrow> (case r of (t, audits, reply) \<Rightarrow>
     (\<forall>a \<in> set audits. audited c pid a) \<and> length audits \<le> 1 \<and> (reply = None \<longrightarrow> length audits = 1))"

lemma audited_edit [simp]: "audited c pid (edit_audit c action (Some pid) branch version rid detail)"
  unfolding audited_def by blast

lemma after_audited:
  assumes "\<And>x t. (\<exists>a. fst (f x t) = [a] \<and> audited c pid a) \<or> fst (f x t) = [] \<and> (\<exists>e. snd (f x t) = Inl e)"
  shows "well_audited c pid (outcome_only (after w f))"
proof (cases w)
  case (Pair u r)
  show ?thesis
  proof (cases r)
    case (Inr x)
    then show ?thesis using assms [of x u] Pair
      by (cases "f x u") (auto simp: outcome_only_def after_def well_audited_def)
  qed (use Pair in \<open>auto simp: outcome_only_def after_def well_audited_def\<close>)
qed

lemma refused_audited: "well_audited c pid (outcome_only (u, [], Inl x))"
  by (simp add: outcome_only_def well_audited_def)

lemma run_edit_audited:
  assumes "handler_of r \<in> set project_handlers" "\<not> reads_only r"
  shows "well_audited c (hd ps) (run_edit c r ps s)"
  using assms
  by (cases r) (auto simp: edit_defs Let_def project_handlers_def reads_only_def refuse_def
      split: sum.splits intro!: after_audited refused_audited)

lemma run_edit_quiet:
  assumes "reads_only r"
  shows "fst (snd (run_edit c r ps s)) = []" "fst (run_edit c r ps s) = s"
  using assms by (auto simp: reads_only_def edit_defs outcome_only_def answer_def)

section \<open>A project administrator\<close>

text \<open>
  C38: Whatever a project administrator sends to the routes of projects, and whatever attempts its write takes, every
  key outside the own project stays as it was and the store stays well-typed. A request that only reads changes
  nothing; a request that edits leaves at most one audit entry, exactly one if it is answered with success, and
  the entry names the administrator and the own project.
\<close>

theorem project_admin_isolated:
  assumes "dispatch_law decode clustered dispatch" "dispatch (rq_method rq) (rq_path rq) = Some (handler_of r, ps)"
    and "auth_middleware sv rq = Pass (Some (ProjectAdmin u p))" "cl_who c = ProjectAdmin u p"
    and "store_wf (sm_store s)" "run_edit c r ps s = (t, audits, reply)"
  shows "store_wf (sm_store t) \<and>
    (\<forall>k. k \<noteq> project_key p \<and> k \<noteq> idx_pname p \<and> \<not> starts_with k (project_key p @ ''/'') \<longrightarrow>
       bm_get (sm_store t) k = bm_get (sm_store s) k) \<and>
    (reads_only r \<longrightarrow> t = s \<and> audits = []) \<and>
    (\<not> reads_only r \<longrightarrow> length audits \<le> 1 \<and> (reply = None \<longrightarrow> length audits = 1) \<and>
       (\<forall>a \<in> set audits. \<exists>e. a = AuditAppend e \<and> au_operator e = ''pa:'' @ u \<and> au_project e = Some p))"
proof -
  have "starts_with (rq_path rq) ''/api/v1/''" "authorize (ProjectAdmin u p) (rq_method rq) (rq_path rq)"
    using assms(3) by (auto simp: auth_middleware_def split: if_splits option.splits)
  then have reach: "may_reach (ProjectAdmin u p) (handler_of r) ps"
    using authorize_sound [OF assms(1,2)] by blast
  show ?thesis
  proof (cases "r = List_Projects")
    case True
    then show ?thesis using assms(5,6) by (auto simp: projects_handler_def outcome_only_def answer_def reads_only_def)
  next
    case False
    then have own: "handler_of r \<in> set project_handlers" "hd ps = p"
      using reach by (cases r; simp add: may_reach_def open_handlers_def shared_readers_def project_handlers_def)+
    have who: "principal_op (cl_who c) = ''pa:'' @ u" using assms(4) by (simp add: principal_op_def)
    have "kept p s t" using run_edit_kept [OF assms(5) own(1), of ps c] assms(6) own(2) by simp
    moreover have "reads_only r \<Longrightarrow> t = s \<and> audits = []" using run_edit_quiet [of r c ps s] assms(6) by simp
    moreover have "\<not> reads_only r \<Longrightarrow> well_audited c p (t, audits, reply)"
      using run_edit_audited [OF own(1)] assms(6) own(2) by metis
    moreover have "\<exists>e. a = AuditAppend e \<and> au_operator e = ''pa:'' @ u \<and> au_project e = Some p" if "audited c p a" for a
      using that by (auto simp: audited_def edit_audit_def audit_cmd_def who)
    ultimately show ?thesis by (auto simp: kept_def own_key_def well_audited_def)
  qed
qed

text \<open>A project administrator publishes the structure of the sample project.\<close>

definition edit_caller :: caller where
  "edit_caller = \<lparr>cl_env = sample_login, cl_service = sample_service, cl_warning = (\<lambda>e. []),
     cl_gate = \<lparr>gate_poisoned = False, gate_linear = True, gate_raft = None\<rparr>, cl_who = ProjectAdmin ''bob'' ''shop'',
     cl_route = Here, cl_now = 7, cl_request_id = new_request_id 1 0\<rparr>"

definition sample_edit :: edit_request where
  "sample_edit = Publish_Structure \<lparr>pq_comment = ''first'', pq_request_id = None\<rparr>"

definition edit_path :: string where "edit_path = ''/api/v1/projects/shop/structure-draft/publish''"

definition edit_http :: request where
  "edit_http = sample_request\<lparr>rq_path := edit_path\<rparr>"

definition edit_dispatch :: "string \<Rightarrow> string \<Rightarrow> (handler \<times> string list) option" where
  "edit_dispatch m path = (if m = ''POST'' then
     map_option (Pair ''publish_structure'') (path_params ''/api/v1/projects/{p}/structure-draft/publish'' path) else None)"

lemma edit_dispatch_law: "dispatch_law (\<lambda>x. x) False edit_dispatch"
proof -
  have "(''/api/v1/projects/{p}/structure-draft/publish'', [(''POST'', ''publish_structure'')]) \<in> set (build_router False)"
    by (simp add: build_router_def routes_def)
  then show ?thesis unfolding dispatch_law_def edit_dispatch_def by (fastforce split: if_splits)
qed

abbreviation "edited_shop \<equiv> run_edit edit_caller sample_edit [''shop''] (run sample_ext sample_start)"

lemma edited_shop_ok: "snd (snd edited_shop) = None"
proof -
  have "(case apply_command sample_ext (PublishStructure ''shop'' ''first'' (new_request_id 1 0) ''pa:bob'' 7 Block) 7
      (run sample_ext sample_start) of (t, Inr ev) \<Rightarrow> True | _ \<Rightarrow> False)" by code_simp
  then obtain t ev where "apply_command sample_ext (PublishStructure ''shop'' ''first'' (new_request_id 1 0) ''pa:bob'' 7 Block) 7
      (run sample_ext sample_start) = (t, Inr ev)" by (auto split: prod.splits sum.splits)
  then show ?thesis
    by (simp add: sample_edit_def edit_caller_def publish_structure_handler_def service_publish_structure_def request_id_of_def
        sample_service_def sample_login_def principal_op_def after_def outcome_only_def outcome_of_def Let_def)
qed

theorem project_admin_isolated_witness:
  "snd (snd edited_shop) = None \<and>
   (\<exists>e. fst (snd edited_shop) = [AuditAppend e] \<and> au_operator e = ''pa:bob'' \<and> au_project e = Some ''shop'') \<and>
   bm_get (sm_store (fst edited_shop)) K_AUDIT_SEQ = bm_get (sm_store (run sample_ext sample_start)) K_AUDIT_SEQ"
proof -
  have d: "edit_dispatch (rq_method edit_http) (rq_path edit_http) = Some (handler_of sample_edit, [''shop''])"
    by code_simp
  have p: "auth_middleware sample_server edit_http = Pass (Some (ProjectAdmin ''bob'' ''shop''))" by code_simp
  have who: "cl_who edit_caller = ProjectAdmin ''bob'' ''shop''" "\<not> reads_only sample_edit"
    by (simp_all add: edit_caller_def sample_edit_def reads_only_def)
  have wf: "store_wf (sm_store (run sample_ext sample_start))"
    using reach_rest_ok [OF sample_start_reach] by (simp add: rest_ok_def)
  have run: "edited_shop = (fst edited_shop, fst (snd edited_shop), snd (snd edited_shop))" by simp
  note facts = project_admin_isolated [OF edit_dispatch_law d p who(1) wf run]
  have "K_AUDIT_SEQ \<noteq> project_key ''shop''" "K_AUDIT_SEQ \<noteq> idx_pname ''shop''" "\<not> starts_with K_AUDIT_SEQ (project_key ''shop'' @ ''/'')"
    by code_simp+
  then have "bm_get (sm_store (fst edited_shop)) K_AUDIT_SEQ = bm_get (sm_store (run sample_ext sample_start)) K_AUDIT_SEQ"
    using facts by blast
  moreover obtain a where a: "fst (snd edited_shop) = [a]" using facts edited_shop_ok who(2) by (auto simp: length_Suc_conv)
  moreover have "\<exists>e. a = AuditAppend e \<and> au_operator e = ''pa:'' @ ''bob'' \<and> au_project e = Some ''shop''"
    using facts who(2) a by (metis list.set_intros(1))
  ultimately show ?thesis using edited_shop_ok by auto
qed

section \<open>Lists\<close>

lemma get_audit_project:
  assumes "e \<in> set (get_audit s action (Some p) since n)"
  shows "au_project e = Some p"
proof -
  have "e \<in> set (List.map_filter (\<lambda>(k, v).
        case Option.bind (strip_prefix K_AUDIT k) parse_u64 of
          None \<Rightarrow> None
        | Some _ \<Rightarrow> (case as_audit v of None \<Rightarrow> None
            | Some e \<Rightarrow> if audit_matches action (Some p) since e then Some e else None)) (get_prefix_merged s K_AUDIT))"
    using in_set_takeD [OF assms [unfolded get_audit_def]] by simp
  then show ?thesis by (auto simp: set_map_filter audit_matches_def split: option.splits if_splits)
qed

text \<open>The lists show a project administrator nothing of other projects.\<close>

lemma project_admin_lists:
  assumes "cl_who c = ProjectAdmin u p"
  shows "projects_handler c s = (t, audits, Inr rows) \<Longrightarrow> \<forall>row \<in> set rows. fst row = p"
    "audit_handler c q s = (t, audits, Inr entries) \<Longrightarrow> \<forall>e \<in> set entries. au_project e = Some p"
    "shared_handler c s = (t, audits, Inr items) \<Longrightarrow>
       \<forall>item \<in> set items. \<forall>refs. ip_refs item = Some refs \<longrightarrow> (\<forall>(q, b, g, k) \<in> set refs. q = p)"
proof -
  show "projects_handler c s = (t, audits, Inr rows) \<Longrightarrow> \<forall>row \<in> set rows. fst row = p"
    using assms by (auto simp: projects_handler_def answer_def map_error_def)
  show "audit_handler c q s = (t, audits, Inr entries) \<Longrightarrow> \<forall>e \<in> set entries. au_project e = Some p"
    using assms by (auto simp: audit_handler_def answer_def map_error_def dest: get_audit_project)
  show "shared_handler c s = (t, audits, Inr items) \<Longrightarrow>
      \<forall>item \<in> set items. \<forall>refs. ip_refs item = Some refs \<longrightarrow> (\<forall>(q, b, g, k) \<in> set refs. q = p)"
    using assms by (auto simp: shared_handler_def answer_def map_error_def shared_item_json_def visible_usage_def)
qed

section \<open>Requests taken for repetitions\<close>

text \<open>
  A generated request identifier has the number of the process and a counter from zero. A server that starts
  again under the same number (in a container it is always the same) generates the same identifiers: the
  publish of a new draft is taken for a repetition of the last one, answered as a success and audited, and
  nothing is published.
\<close>

lemma restarted_publish_is_lost:
  assumes "get_branch_state (clear_pending s) p b = Inr (Some st)" "get_structure (clear_pending s) p = Inr (Some str)"
    and "\<not> le_poisoned (cl_env c)" "cl_route c = Here"
    and "last_request_id st = Some (new_request_id process seq)" "cl_request_id c = new_request_id process seq"
    and "pq_request_id req = None" "ps_policy (cl_service c) = Block"
  shows "\<exists>t audits resp. publish_handler c p b req s = (t, audits, Inr resp) \<and> length audits = 1 \<and>
    sm_store t = sm_store s \<and> ps_version resp = active_version st \<and> ps_changes resp = []"
proof -
  have "apply_publish E p b comment (new_request_id process seq) now operator Block (clear_pending s) =
      Inr (clear_pending s, [])" for E comment now operator
    using assms(1,2,5) by (simp add: apply_publish_def done_with_def)
  then have run: "apply_command E (Publish p b comment (new_request_id process seq) operator ts Block) now s = (clear_pending s, Inr [])"
    for E comment operator ts now
    by (simp add: apply_command_def buffered_def flush_pending_def clear_pending_def buf_flush_def)
  show ?thesis
    using assms run by (auto simp: publish_handler_def request_id_of_def service_publish_def after_def outcome_of_def
        version_or_active_def publish_warnings_def Let_def)
qed

section \<open>Deleting the draft of a shared item\<close>

text \<open>The route that deletes a draft sends the command that deletes the item: the published one goes as well.\<close>

lemma draft_deletion_takes_the_published_item:
  assumes "delete_shared_draft c key s = (t, audits, Inr ())" "cl_route c = Here" "\<not> le_poisoned (cl_env c)"
    and "store_wf (sm_store s)"
  shows "get_shared t key = Inr None"
proof -
  obtain ev where run: "apply_command (le_ext (cl_env c)) (SharedDelete key (principal_op (cl_who c))) (cl_now c) s = (t, Inr ev)"
    using assms(1-3) by (auto simp: delete_shared_draft_def after_def cl_write_def app_write_def split: prod.splits sum.splits)
  obtain u where u: "apply_inner (le_ext (cl_env c)) (SharedDelete key (principal_op (cl_who c))) (cl_now c) (clear_pending s) = (u, Inr ev)"
    "sm_store t = view u" "sm_pending t = []"
    by (rule apply_command_done [OF run assms(4)]) simp_all
  have "shared_key key \<noteq> shared_draft_key key" by (simp add: key_defs)
  then have "bm_get (view u) (shared_key key) = None"
    using u(1) by (auto simp: apply_shared_delete_def done_with_def get_shared_def load_merged_eq decode_with_def
        split: if_splits option.splits sum.splits)
  then show ?thesis using u(2,3) by (simp add: get_shared_def load_merged_eq view_start decode_with_def)
qed

end
