(* ===== verification/Api_Accounts.thy ===== *)
theory Api_Accounts
  imports Api_Edit
begin

text \<open>
  The handlers of accounts, access tokens, passwords and of the operation of a node (dsh-api \<open>lib.rs\<close>). The hash
  argon2 makes of a password, with a salt it draws, is a parameter, and so are the random texts of new tokens.
\<close>

section \<open>Passwords and refusals\<close>

text \<open>\<open>hashed\<close>: the text argon2 gives for a password, or its failure.\<close>

type_synonym hasher = "string \<Rightarrow> string option"

definition hash_password :: "hasher \<Rightarrow> string \<Rightarrow> string res" where
  "hash_password hashed pw = ok_or (err Internal) (hashed pw)"

definition salted_password_hash :: "hasher \<Rightarrow> string \<Rightarrow> (string \<times> string) res" where
  "salted_password_hash hashed pw = bindE (hash_password hashed pw) (\<lambda>h. Inr ([], h))"

text \<open>Characters, not bytes: a continuation byte does not count.\<close>

definition char_count :: "string \<Rightarrow> nat" where
  "char_count s = length (filter (\<lambda>c. (of_char c :: nat) < 128 \<or> 192 \<le> (of_char c :: nat)) s)"

definition password_too_short :: "string \<Rightarrow> bool" where
  "password_too_short pw \<longleftrightarrow> char_count pw < 6"

definition forbidden :: "sm \<Rightarrow> 'a edited" where
  "forbidden s = (s, [], Inl (Reject 403 ''ERR_FORBIDDEN''))"

text \<open>One kind of error has a code of its own in the reply.\<close>

definition coded :: "error_kind \<Rightarrow> string \<Rightarrow> error \<Rightarrow> reject" where
  "coded k code e = (if e_kind e = k then Reject (status_of k) code else api_error e)"

definition after_coded :: "(error \<Rightarrow> reject) \<Rightarrow> sm \<times> 'a res \<Rightarrow> (sm \<Rightarrow> command list \<times> 'b) \<Rightarrow> 'b edited" where
  "after_coded f w g = (case w of
     (t, Inl e) \<Rightarrow> (t, [], Inl (f e))
   | (t, Inr x) \<Rightarrow> (case g t of (audits, y) \<Rightarrow> (t, audits, Inr y)))"

text \<open>Some handlers put the operator \<open>admin\<close> into the audit entry whoever calls them.\<close>

definition operator_audit :: "caller \<Rightarrow> string \<Rightarrow> string \<Rightarrow> string option \<Rightarrow> (string \<times> json) list \<Rightarrow> command" where
  "operator_audit c operator action pid detail =
     audit_cmd (cl_now c) action pid None None None (json_text (le_serde (cl_env c)) (JObj detail)) operator"

section \<open>Project administrators\<close>

record project_admin_resp =
  ar_username :: string
  ar_project :: string
  ar_created_at :: int

definition create_project_admin ::
  "hasher \<Rightarrow> caller \<Rightarrow> project_id \<Rightarrow> string \<Rightarrow> string \<Rightarrow> sm \<Rightarrow> project_admin_resp edited" where
  "create_project_admin hashed c pid username password s = (case salted_password_hash hashed password of
     Inl e \<Rightarrow> (s, [], Inl (api_error e))
   | Inr (salt, h) \<Rightarrow>
       after_coded (coded Conflict ''ERR_ACCOUNT_EXISTS'') (cl_write c (ProjectAdminCreate pid username salt h (cl_now c)) s) (\<lambda>t.
         ([operator_audit c ''admin'' ''project_admin_create'' (Some pid) [(''username'', JStr username)]],
          \<lparr>ar_username = username, ar_project = pid, ar_created_at = cl_now c\<rparr>)))"

definition project_admins_handler :: "project_id \<Rightarrow> sm \<Rightarrow> (string \<times> int) list edited" where
  "project_admins_handler pid s = answer (Inr (map (\<lambda>a. (pa_username a, pa_created_at a)) (list_project_admins s pid))) s"

definition delete_project_admin :: "caller \<Rightarrow> project_id \<Rightarrow> string \<Rightarrow> sm \<Rightarrow> unit edited" where
  "delete_project_admin c pid username s =
     after_coded (coded NotFound ''ERR_ACCOUNT_NOT_FOUND'') (cl_write c (ProjectAdminDelete username) s) (\<lambda>t.
       ([operator_audit c ''admin'' ''project_admin_delete'' (Some pid) [(''username'', JStr username)]], ()))"

definition set_project_admin_password :: "hasher \<Rightarrow> caller \<Rightarrow> project_id \<Rightarrow> string \<Rightarrow> string \<Rightarrow> sm \<Rightarrow> unit edited" where
  "set_project_admin_password hashed c pid username password s = (case salted_password_hash hashed password of
     Inl e \<Rightarrow> (s, [], Inl (api_error e))
   | Inr (salt, h) \<Rightarrow>
       after_coded (coded NotFound ''ERR_ACCOUNT_NOT_FOUND'') (cl_write c (ProjectAdminSetPassword username salt h) s) (\<lambda>t.
         ([operator_audit c ''admin'' ''project_admin_set_password'' (Some pid) [(''username'', JStr username)]], ())))"

section \<open>Global administrators\<close>

definition create_global_admin :: "hasher \<Rightarrow> caller \<Rightarrow> string \<Rightarrow> string \<Rightarrow> sm \<Rightarrow> (string \<times> int) edited" where
  "create_global_admin hashed c username password s =
     (if \<not> is_super (cl_who c) then forbidden s
      else if password_too_short password then refuse Validation s
      else (case salted_password_hash hashed password of
          Inl e \<Rightarrow> (s, [], Inl (api_error e))
        | Inr (salt, h) \<Rightarrow>
            after_coded (coded Conflict ''ERR_ACCOUNT_EXISTS'') (cl_write c (GlobalAdminCreate username salt h (cl_now c)) s) (\<lambda>t.
              ([edit_audit c ''global_admin_create'' None None None None [(''username'', JStr username)]], (username, cl_now c)))))"

definition global_admins_handler :: "caller \<Rightarrow> sm \<Rightarrow> (string \<times> int) list edited" where
  "global_admins_handler c s =
     (if \<not> is_super (cl_who c) then forbidden s
      else answer (Inr (map (\<lambda>a. (ga_username a, ga_created_at a)) (list_global_admins s))) s)"

definition set_global_admin_password :: "hasher \<Rightarrow> caller \<Rightarrow> string \<Rightarrow> string \<Rightarrow> sm \<Rightarrow> unit edited" where
  "set_global_admin_password hashed c username password s =
     (if \<not> is_super (cl_who c) then forbidden s
      else if password_too_short password then refuse Validation s
      else (case salted_password_hash hashed password of
          Inl e \<Rightarrow> (s, [], Inl (api_error e))
        | Inr (salt, h) \<Rightarrow>
            after_coded (coded NotFound ''ERR_ACCOUNT_NOT_FOUND'') (cl_write c (GlobalAdminSetPassword username salt h) s) (\<lambda>t.
              ([edit_audit c ''global_admin_set_password'' None None None None [(''username'', JStr username)]], ()))))"

definition delete_global_admin :: "caller \<Rightarrow> string \<Rightarrow> sm \<Rightarrow> unit edited" where
  "delete_global_admin c username s =
     (if \<not> is_super (cl_who c) then forbidden s
      else after_coded (coded NotFound ''ERR_ACCOUNT_NOT_FOUND'') (cl_write c (GlobalAdminDelete username) s) (\<lambda>t.
        ([edit_audit c ''global_admin_delete'' None None None None [(''username'', JStr username)]], ())))"

section \<open>Access tokens\<close>

record created_token =
  ct_id :: string
  ct_name :: string
  ct_token :: string
  ct_created_at :: int

text \<open>\<open>raw\<close>: the random text of the new token; only its hash reaches the command.\<close>

definition create_project_token :: "caller \<Rightarrow> string \<Rightarrow> project_id \<Rightarrow> string \<Rightarrow> sm \<Rightarrow> created_token edited" where
  "create_project_token c raw pid name s =
     (if \<not> is_super (cl_who c) then forbidden s
      else (let h = le_hash (cl_env c) raw in
        after_coded (\<lambda>e. if e_kind e = Conflict then Reject 409 ''ERR_TOKEN_NAME_EXISTS'' else coded NotFound ''ERR_NOT_FOUND'' e)
          (cl_write c (ProjectTokenCreate pid name h (principal_op (cl_who c)) (cl_now c)) s) (\<lambda>t.
            ([edit_audit c ''token_create'' (Some pid) (Some name) None None []],
             \<lparr>ct_id = utf8_take 16 h, ct_name = name, ct_token = raw, ct_created_at = cl_now c\<rparr>))))"

record token_page =
  tp_id :: string
  tp_name :: string
  tp_created_at :: nat
  tp_created_by :: string
  tp_revoked :: bool

definition project_tokens_handler :: "project_id \<Rightarrow> sm \<Rightarrow> token_page list edited" where
  "project_tokens_handler pid s = answer (Inr (map (\<lambda>t. \<lparr>tp_id = tk_id t, tp_name = tk_name t,
     tp_created_at = tk_created_at t, tp_created_by = tk_created_by t, tp_revoked = tk_revoked t\<rparr>) (list_project_tokens s pid))) s"

definition delete_project_token :: "caller \<Rightarrow> project_id \<Rightarrow> string \<Rightarrow> sm \<Rightarrow> unit edited" where
  "delete_project_token c pid tid s =
     (if \<not> is_super (cl_who c) then forbidden s
      else after_coded (coded NotFound ''ERR_NOT_FOUND'') (cl_write c (ProjectTokenRevoke pid tid) s) (\<lambda>t.
        ([edit_audit c ''token_revoke'' (Some pid) (Some tid) None None []], ())))"

section \<open>Sessions ended by an operator\<close>

text \<open>The commands of a handler one after the other, each with its own attempts; the first failure ends it.\<close>

fun write_all :: "caller \<Rightarrow> (route \<times> command) list \<Rightarrow> sm \<Rightarrow> sm \<times> unit res" where
  "write_all c [] s = (s, Inr ())"
| "write_all c ((r, cmd) # rs) s = (case app_write (cl_env c) r cmd (cl_now c) s of
     (t, Inl e) \<Rightarrow> (t, Inl e)
   | (t, Inr w) \<Rightarrow> write_all c rs t)"

definition nonempty :: "string option \<Rightarrow> string option" where
  "nonempty v = (case v of None \<Rightarrow> None | Some x \<Rightarrow> if trim x = [] then None else Some (trim x))"

definition opt_json :: "string option \<Rightarrow> json" where
  "opt_json v = (case v of None \<Rightarrow> JNull | Some x \<Rightarrow> JStr x)"

text \<open>\<open>r1\<close> and \<open>r2\<close> are the attempts of the first and of a second write.\<close>

definition admin_force_logout :: "caller \<Rightarrow> route \<Rightarrow> route \<Rightarrow> string option \<Rightarrow> string option \<Rightarrow> sm \<Rightarrow> unit edited" where
  "admin_force_logout c r1 r2 username session_id s =
     (let is_ga = (\<lambda>u. found (get_global_admin s u) \<noteq> None);
          logged = (\<lambda>scope. ([operator_audit c ''admin'' ''force_logout'' None
             [(''username'', opt_json username), (''session_id'', opt_json session_id), (''scope'', JStr scope)]], ())) in
      case (nonempty username, nonempty session_id) of
        (None, Some sid) \<Rightarrow> after_coded api_error (write_all c [(r1, MultiSessionLogout sid)] s) (\<lambda>t. logged ''admin'')
      | (Some u, Some sid) \<Rightarrow>
          if is_ga u then after_coded api_error (write_all c [(r1, MultiGaSessionLogout u sid)] s) (\<lambda>t. logged ''ga'')
          else after_coded api_error (write_all c [(r1, MultiPaSessionLogout u sid)] s) (\<lambda>t. logged ''pa'')
      | (Some u, None) \<Rightarrow>
          if is_ga u then after_coded api_error (write_all c [(r1, MultiGaSessionLogoutAll u)] s) (\<lambda>t. logged ''ga'')
          else after_coded api_error (write_all c [(r1, MultiPaSessionLogoutAll u)] s) (\<lambda>t. logged ''pa'')
      | (None, None) \<Rightarrow> (case write_all c [(r1, MultiSessionLogoutAll)] s of
          (t, Inl e) \<Rightarrow> (t, [], Inl (api_error e))
        | (t, Inr x) \<Rightarrow>
            if has_global_admins t
            then after_coded api_error (write_all c [(r2, GlobalAdminSessionsRevokeAll)] t) (\<lambda>u. logged ''admin+ga'')
            else after_coded api_error (t, Inr ()) (\<lambda>u. logged ''admin'')))"

section \<open>The own password and the password of the super administrator\<close>

definition too_many_attempts :: reject where
  "too_many_attempts = Reject 429 ''ERR_TOO_MANY_ATTEMPTS''"

definition bad_current_password :: reject where
  "bad_current_password = Reject 401 ''ERR_BAD_CREDENTIALS''"

text \<open>Whether the current password is right, by the kind of the principal.\<close>

definition current_password_ok :: "caller \<Rightarrow> string \<Rightarrow> sm \<Rightarrow> bool" where
  "current_password_ok c current s = (case cl_who c of
     Admin \<Rightarrow> admin_password_ok (cl_env c) current s
   | ProjectAdmin u pid \<Rightarrow> (case found (get_project_admin s u) of
        Some a \<Rightarrow> verify_password (cl_env c) current (pa_password_hash a) (pa_salt a) | None \<Rightarrow> False)
   | GlobalAdmin u \<Rightarrow> (case found (get_global_admin s u) of
        Some a \<Rightarrow> verify_password (cl_env c) current (ga_password_hash a) (ga_salt a) | None \<Rightarrow> False))"

definition password_commands :: "principal \<Rightarrow> string \<Rightarrow> command list" where
  "password_commands who h = (case who of
     Admin \<Rightarrow> [AdminSetPassword h, MultiSessionLogoutAll]
   | ProjectAdmin u pid \<Rightarrow> [ProjectAdminSetPassword u [] h]
   | GlobalAdmin u \<Rightarrow> [GlobalAdminSetPassword u [] h])"

definition own_name :: "principal \<Rightarrow> (string \<times> json) list" where
  "own_name who = (case who of Admin \<Rightarrow> [] | ProjectAdmin u pid \<Rightarrow> [(''username'', JStr u)] | GlobalAdmin u \<Rightarrow> [(''username'', JStr u)])"

definition change_my_password ::
  "hasher \<Rightarrow> caller \<Rightarrow> route \<Rightarrow> route \<Rightarrow> nat \<Rightarrow> string \<Rightarrow> string \<Rightarrow> login_state \<Rightarrow> login_state \<times> command list \<times> (reject + unit)" where
  "change_my_password hashed c r1 r2 inst current fresh st =
     (let operator = principal_op (cl_who c); key = ''me:'' @ operator; s = fst st;
          (blocked, th) = throttle_blocked inst key (snd st) in
      if blocked then ((s, th), [], Inl too_many_attempts)
      else if password_too_short fresh then ((s, th), [], Inl (api_error (err Validation)))
      else if \<not> current_password_ok c current s then ((s, record_failure inst key th), [], Inl bad_current_password)
      else (case hash_password hashed fresh of
          Inl e \<Rightarrow> ((s, th), [], Inl (api_error e))
        | Inr h \<Rightarrow> (case write_all c (zip [r1, r2] (password_commands (cl_who c) h)) s of
            (t, Inl e) \<Rightarrow> ((t, th), [], Inl (api_error e))
          | (t, Inr x) \<Rightarrow> ((t, throttle_reset key th),
              [operator_audit c operator ''set_password_self'' None (own_name (cl_who c))], Inr ()))))"

definition admin_set_password :: "hasher \<Rightarrow> caller \<Rightarrow> route \<Rightarrow> route \<Rightarrow> string \<Rightarrow> sm \<Rightarrow> unit edited" where
  "admin_set_password hashed c r1 r2 password s =
     (if password_too_short password then refuse Validation s
      else (case hash_password hashed password of
          Inl e \<Rightarrow> (s, [], Inl (api_error e))
        | Inr h \<Rightarrow> after_coded api_error (write_all c [(r1, AdminSetPassword h), (r2, MultiSessionLogoutAll)] s) (\<lambda>t.
            ([operator_audit c ''admin'' ''set_password'' None []], ()))))"

text \<open>The way back after a forgotten password: the operator's token instead of a session.\<close>

definition admin_reset_password ::
  "hasher \<Rightarrow> caller \<Rightarrow> string option \<Rightarrow> string option \<Rightarrow> route \<Rightarrow> route \<Rightarrow> route \<Rightarrow> string \<Rightarrow> sm \<Rightarrow> unit edited" where
  "admin_reset_password hashed c join_token auth r1 r2 r3 password s =
     (if \<not> ops_token_ok join_token auth then (s, [], Inl (Reject 401 ''ERR_UNAUTHORIZED''))
      else if password_too_short password then refuse Validation s
      else (case hash_password hashed password of
          Inl e \<Rightarrow> (s, [], Inl (api_error e))
        | Inr h \<Rightarrow> (case write_all c [(r1, AdminSetPassword h), (r2, MultiSessionLogoutAll)] s of
            (t, Inl e) \<Rightarrow> (t, [], Inl (api_error e))
          | (t, Inr x) \<Rightarrow>
              after_coded api_error
                (if has_global_admins t then write_all c [(r3, GlobalAdminSessionsRevokeAll)] t else (t, Inr ())) (\<lambda>u.
                  ([operator_audit c ''ops-token'' ''admin_password_reset'' None []], ())))))"

section \<open>The dump of a node and its retention\<close>

definition admin_snapshot :: "caller \<Rightarrow> sm \<Rightarrow> (string \<times> sval) list edited" where
  "admin_snapshot c s = after_coded api_error (s, Inr ()) (\<lambda>t.
     ([operator_audit c ''admin'' ''snapshot'' None [(''entries'', JInt (int (length (dump_all s))))]], dump_all s))"

record retention_status =
  rt_projects :: nat
  rt_active_versions :: nat
  rt_audit_entries :: nat

definition admin_retention_status :: "sm \<Rightarrow> retention_status edited" where
  "admin_retention_status s = answer (Inr
     \<lparr>rt_projects = length (list_projects s),
      rt_active_versions = sum_list (concat (map (\<lambda>p. map (\<lambda>b. case get_branch_state s (p_id p) b of
          Inr (Some st) \<Rightarrow> active_version st | _ \<Rightarrow> 0) (list_branches s (p_id p))) (list_projects s))),
      rt_audit_entries = (case get_audit s None None None 1 of [] \<Rightarrow> 0 | e # _ \<Rightarrow> au_seq e)\<rparr>) s"

section \<open>Writes that go through\<close>

lemma apply_command_wf:
  assumes "store_wf (sm_store s)" "cmd_ok cmd"
  shows "store_wf (sm_store (fst (apply_command E cmd now s)))"
proof (cases "apply_command E cmd now s")
  case (Pair t r)
  show ?thesis
  proof (cases r)
    case (Inl e)
    then obtain u where u: "apply_inner E cmd now (clear_pending s) = (u, Inl e)" "t = clear_pending u"
      using Pair by (auto simp: apply_command_Inl)
    then have "keeps_all_but_drafts (clear_pending s) u" using apply_inner_failed by blast
    then have "bm_get (sm_store u) k = Some v \<Longrightarrow> bm_get (sm_store s) k = Some v" for k v
      unfolding keeps_all_but_drafts_def by (metis clear_pending_simps(2) option.distinct(1))
    then show ?thesis using store_wf_subset [OF assms(1)] Pair u(2) by simp
  next
    case (Inr ev)
    with Pair have run: "apply_command E cmd now s = (t, Inr ev)" by simp
    show ?thesis using apply_command_done [OF run assms] Pair by (metis fst_conv)
  qed
qed

text \<open>Whatever the attempts are, a write that went through ends with a command that succeeded.\<close>

lemma write_command_last:
  assumes "write_command E r cmd now s = (t, Inr w)" "P s" "\<And>u. P u \<Longrightarrow> P (fst (apply_command E cmd now u))"
  shows "\<exists>u ev. P u \<and> apply_command E cmd now u = (t, Inr ev)"
  using assms
proof (induction E r cmd now s rule: write_command.induct)
  case (2 E r cmd now s)
  then show ?case by (auto split: prod.splits sum.splits)
next
  case (4 E applied r cmd now s)
  then have "P (if applied then fst (apply_command E cmd now s) else s)" by simp
  then show ?case using 4 by simp
qed simp_all

section \<open>Changing the own password\<close>

definition password_is :: "sm \<Rightarrow> principal \<Rightarrow> string \<Rightarrow> bool" where
  "password_is t who h \<longleftrightarrow> (case who of
     Admin \<Rightarrow> get_admin_password_hash t = Inr (Some h)
   | ProjectAdmin u p \<Rightarrow> (\<exists>a. get_project_admin t u = Inr (Some a) \<and> pa_password_hash a = h \<and> pa_salt a = [])
   | GlobalAdmin u \<Rightarrow> (\<exists>a. get_global_admin t u = Inr (Some a) \<and> ga_password_hash a = h \<and> ga_salt a = []))"

definition signed_out :: "sm \<Rightarrow> principal \<Rightarrow> bool" where
  "signed_out t who \<longleftrightarrow> (case who of
     Admin \<Rightarrow> get_session t = Inr None \<and> (\<forall>sid. get_session_with t sid = Inr None)
   | ProjectAdmin u p \<Rightarrow> get_pa_session t u = Inr None \<and> (\<forall>sid. get_pa_session_with t u sid = Inr None)
   | GlobalAdmin u \<Rightarrow> (\<forall>sid. get_ga_session_with t u sid = Inr None))"

lemma account_password_set:
  assumes "apply_command E cmd now s = (t, Inr ev)" "store_wf (sm_store s)"
    and "cmd = ProjectAdminSetPassword u [] h \<and> who = ProjectAdmin u p \<or> cmd = GlobalAdminSetPassword u [] h \<and> who = GlobalAdmin u"
  shows "password_is t who h \<and> signed_out t who"
proof -
  have "cmd_ok cmd" using assms(3) by auto
  then obtain v where v: "apply_inner E cmd now (clear_pending s) = (v, Inr ev)" "sm_store t = view v" "sm_pending t = []"
    using apply_command_done [OF assms(1,2)] by metis
  note readers = get_project_admin_def get_global_admin_def get_pa_session_def get_pa_session_with_def get_ga_session_with_def
  from assms(3) show ?thesis
  proof
    assume c: "cmd = ProjectAdminSetPassword u [] h \<and> who = ProjectAdmin u p"
    then show ?thesis
      using v by (auto simp: apply_project_admin_set_password_def done_with_def password_is_def signed_out_def readers load_merged_None
          load_merged_eq decode_with_def view_start view_delete_pa_sessions account_not_session areas)
  next
    assume c: "cmd = GlobalAdminSetPassword u [] h \<and> who = GlobalAdmin u"
    then show ?thesis
      using v by (auto simp: apply_global_admin_set_password_def done_with_def password_is_def signed_out_def readers load_merged_None
          load_merged_eq decode_with_def view_start view_delete_ga_sessions account_not_session areas)
  qed
qed

lemma admin_password_set:
  assumes "apply_command E (AdminSetPassword h) now s = (t, Inr ev)" "store_wf (sm_store s)"
  shows "store_wf (sm_store t)" "bm_get (sm_store t) K_ADMIN_PW = Some (SStr h)"
proof -
  obtain v where v: "apply_inner E (AdminSetPassword h) now (clear_pending s) = (v, Inr ev)" "sm_store t = view v" "store_wf (sm_store t)"
    using apply_command_done [OF assms] by auto
  then show "store_wf (sm_store t)" "bm_get (sm_store t) K_ADMIN_PW = Some (SStr h)"
    by (auto simp: apply_admin_set_password_def done_with_def)
qed

lemma admin_sessions_ended:
  assumes "apply_command E MultiSessionLogoutAll now s = (t, r)" "store_wf (sm_store s)"
  shows "sm_pending t = []" "bm_get (sm_store t) k = (if k = session_key \<or> starts_with k K_SESSION_PREFIX then None else bm_get (sm_store s) k)"
proof -
  have "\<exists>ev. r = Inr ev" using assms(1) by (auto simp: apply_command_def apply_multi_session_logout_all_def done_with_def buffered_def)
  then obtain ev where run: "apply_command E MultiSessionLogoutAll now s = (t, Inr ev)" using assms(1) by blast
  obtain v where v: "apply_inner E MultiSessionLogoutAll now (clear_pending s) = (v, Inr ev)" "sm_store t = view v" "sm_pending t = []"
    using apply_command_done [OF run assms(2)] by auto
  then show "sm_pending t = []"
    "bm_get (sm_store t) k = (if k = session_key \<or> starts_with k K_SESSION_PREFIX then None else bm_get (sm_store s) k)"
    by (auto simp: apply_multi_session_logout_all_def done_with_def view_delete_admin_sessions)
qed

lemma admin_password_changed:
  assumes "write_all c [(r1, AdminSetPassword h), (r2, MultiSessionLogoutAll)] s = (t, Inr ())" "store_wf (sm_store s)"
  shows "password_is t Admin h \<and> signed_out t Admin"
proof -
  let ?E = "le_ext (cl_env c)" and ?now = "cl_now c"
  let ?Q = "\<lambda>u. store_wf (sm_store u) \<and> bm_get (sm_store u) K_ADMIN_PW = Some (SStr h)"
  obtain t1 w1 w2 where steps: "write_command ?E r1 (AdminSetPassword h) ?now s = (t1, Inr w1)"
    "write_command ?E r2 MultiSessionLogoutAll ?now t1 = (t, Inr w2)"
    using assms(1) by (auto simp: app_write_def split: if_splits prod.splits sum.splits)
  obtain u ev where "store_wf (sm_store u)" "apply_command ?E (AdminSetPassword h) ?now u = (t1, Inr ev)"
    using write_command_last [OF steps(1), of "\<lambda>u. store_wf (sm_store u)"] apply_command_wf assms(2) by auto
  then have t1: "?Q t1" using admin_password_set by blast
  have kept: "?Q (fst (apply_command ?E MultiSessionLogoutAll ?now u))" if "?Q u" for u
    using that apply_command_wf [of u MultiSessionLogoutAll] admin_sessions_ended(2) [OF prod.collapse [symmetric], of u ?E ?now K_ADMIN_PW]
    by (simp add: key_defs)
  obtain v ev' where v: "?Q v" "apply_command ?E MultiSessionLogoutAll ?now v = (t, Inr ev')"
    using write_command_last [OF steps(2) t1 kept] by blast
  note ended = admin_sessions_ended [OF v(2)]
  have "view t = sm_store t" using ended(1) v(1) by (simp add: view_start)
  then show ?thesis
    using ended(2) v(1) by (simp add: password_is_def signed_out_def get_admin_password_hash_def get_session_def get_session_with_def
        load_merged_eq decode_with_def) (simp add: key_defs)
qed

lemma own_password_written:
  assumes "write_all c (zip [r1, r2] (password_commands who h)) s = (t, Inr ())" "store_wf (sm_store s)"
  shows "password_is t who h \<and> signed_out t who"
proof (cases who)
  case Admin
  then show ?thesis using admin_password_changed [OF _ assms(2)] assms(1) by (simp add: password_commands_def)
next
  case (ProjectAdmin u p)
  then obtain w where "write_command (le_ext (cl_env c)) r1 (ProjectAdminSetPassword u [] h) (cl_now c) s = (t, Inr w)"
    using assms(1) by (auto simp: password_commands_def app_write_def split: if_splits prod.splits sum.splits)
  from write_command_last [OF this, of "\<lambda>u. store_wf (sm_store u)"] apply_command_wf assms(2)
  show ?thesis using account_password_set ProjectAdmin by (metis cmd_ok.simps(18))
next
  case (GlobalAdmin u)
  then obtain w where "write_command (le_ext (cl_env c)) r1 (GlobalAdminSetPassword u [] h) (cl_now c) s = (t, Inr w)"
    using assms(1) by (auto simp: password_commands_def app_write_def split: if_splits prod.splits sum.splits)
  from write_command_last [OF this, of "\<lambda>u. store_wf (sm_store u)"] apply_command_wf assms(2)
  show ?thesis using account_password_set GlobalAdmin by (metis cmd_ok.simps(33))
qed

text \<open>
  C39: Changing the own password. Whatever attempts the writes take: if the request is answered with success, the
  current password was right and the throttle open, the new password has at least six characters, its hash is
  the stored one, and no session of the account is left, the one of the request included. A request with a
  wrong current password changes nothing and is never answered with success; while the throttle is closed no
  password is compared.
\<close>

theorem own_password_change:
  assumes "store_wf (sm_store s)" "change_my_password hashed c r1 r2 inst current fresh (s, th) = ((t, th'), audits, reply)"
  shows "(reply = Inr () \<longrightarrow> current_password_ok c current s \<and> 6 \<le> char_count fresh \<and>
      fst (throttle_blocked inst (''me:'' @ principal_op (cl_who c)) th) = False \<and>
      (\<exists>h. hashed fresh = Some h \<and> password_is t (cl_who c) h) \<and> signed_out t (cl_who c) \<and> length audits = 1 \<and>
      bm_get th' (''me:'' @ principal_op (cl_who c)) = None) \<and>
    (\<not> current_password_ok c current s \<longrightarrow> reply \<noteq> Inr () \<and> t = s \<and> audits = []) \<and>
    (fst (throttle_blocked inst (''me:'' @ principal_op (cl_who c)) th) \<longrightarrow> reply = Inl too_many_attempts \<and> t = s \<and> audits = [])"
proof -
  let ?key = "''me:'' @ principal_op (cl_who c)"
  obtain b th1 where th: "throttle_blocked inst ?key th = (b, th1)" by fastforce
  note def = assms(2) [unfolded change_my_password_def Let_def fst_conv snd_conv th prod.case]
  have "current_password_ok c current s \<and> 6 \<le> char_count fresh \<and> \<not> b \<and>
      (\<exists>h. hashed fresh = Some h \<and> password_is t (cl_who c) h) \<and> signed_out t (cl_who c) \<and> length audits = 1 \<and>
      bm_get th' ?key = None" if ok: "reply = Inr ()"
  proof -
    have pass: "\<not> b" "\<not> password_too_short fresh" "current_password_ok c current s"
      using def ok by (auto simp: too_many_attempts_def bad_current_password_def split: if_splits)
    have right: "\<not> \<not> current_password_ok c current s" using pass(3) by simp
    note def2 = def [unfolded if_not_P [OF pass(1)] if_not_P [OF pass(2)] if_not_P [OF right]]
    obtain h where h: "hash_password hashed fresh = Inr h" using def2 ok by (auto split: sum.splits)
    note def3 = def2 [unfolded h sum.case]
    obtain t1 r where w: "write_all c (zip [r1, r2] (password_commands (cl_who c) h)) s = (t1, r)" by fastforce
    have r: "r = Inr ()" using def3 [unfolded w prod.case] ok by (cases r) auto
    note out = def3 [unfolded w prod.case r sum.case]
    have "t1 = t" "th' = throttle_reset ?key th1" "length audits = 1" using out by auto
    moreover have "hashed fresh = Some h" using h by (simp add: hash_password_def ok_or_def split: option.splits)
    ultimately show ?thesis
      using pass own_password_written [OF w [unfolded r] assms(1)] by (auto simp: password_too_short_def throttle_reset_def)
  qed
  moreover have "reply \<noteq> Inr () \<and> t = s \<and> audits = []" if "\<not> current_password_ok c current s"
    using def that by (auto simp: too_many_attempts_def bad_current_password_def split: if_splits)
  moreover have "reply = Inl too_many_attempts \<and> t = s \<and> audits = []" if b using def that by simp
  ultimately show ?thesis unfolding th fst_conv by blast
qed

definition admin_caller :: caller where
  "admin_caller = \<lparr>cl_env = sample_login, cl_service = sample_service, cl_warning = (\<lambda>e. []),
     cl_gate = \<lparr>gate_poisoned = False, gate_linear = False, gate_raft = None\<rparr>, cl_who = Admin,
     cl_route = Here, cl_now = 7, cl_request_id = new_request_id 1 0\<rparr>"

definition sample_hasher :: hasher where "sample_hasher pw = Some (''$argon2'' @ pw)"

abbreviation "sample_change \<equiv>
  change_my_password sample_hasher admin_caller Here Here 0 ''root'' ''secret1'' (sm_new bm_empty, bm_empty)"

lemma sample_change_ok: "snd (snd sample_change) = Inr ()"
proof -
  have pw: "current_password_ok admin_caller ''root'' (sm_new bm_empty)"
    by (simp add: current_password_ok_def admin_caller_def admin_password_ok_def sample_login_def get_admin_password_hash_def
        load_merged_eq found_def decode_with_def)
  have "password_too_short ''secret1'' = False" by code_simp
  moreover have "throttle_blocked 0 k bm_empty = (False, bm_empty)" for k by (simp add: throttle_blocked_def)
  moreover obtain t where "write_all admin_caller (zip [Here, Here] (password_commands Admin ''$argon2secret1'')) (sm_new bm_empty) = (t, Inr ())"
  proof -
    obtain t1 where t1: "apply_command sample_ext (AdminSetPassword ''$argon2secret1'') 7 (sm_new bm_empty) = (t1, Inr [])"
      by (simp add: apply_command_def apply_admin_set_password_def done_with_def buffered_def)
    obtain t2 where "apply_command sample_ext MultiSessionLogoutAll 7 t1 = (t2, Inr [])"
      by (simp add: apply_command_def apply_multi_session_logout_all_def done_with_def buffered_def)
    with t1 that show thesis by (simp add: app_write_def admin_caller_def sample_login_def password_commands_def outcome_of_def)
  qed
  moreover have "cl_who admin_caller = Admin" "hash_password sample_hasher ''secret1'' = Inr ''$argon2secret1''"
    by (simp_all add: admin_caller_def hash_password_def sample_hasher_def ok_or_def)
  ultimately show ?thesis using pw by (simp add: change_my_password_def Let_def)
qed

theorem own_password_change_witness:
  "\<exists>t th' audits. sample_change = ((t, th'), audits, Inr ()) \<and> password_is t Admin ''$argon2secret1'' \<and> signed_out t Admin"
proof -
  obtain t th' audits where run: "sample_change = ((t, th'), audits, Inr ())"
    using sample_change_ok by (metis prod.collapse)
  have who: "cl_who admin_caller = Admin" by (simp add: admin_caller_def)
  have "store_wf (sm_store (sm_new bm_empty))" by (simp add: sm_new_def)
  from own_password_change [OF this run] who have "\<exists>h. sample_hasher ''secret1'' = Some h \<and> password_is t Admin h" "signed_out t Admin"
    by simp_all
  then show ?thesis using run by (auto simp: sample_hasher_def)
qed

end
