(* ===== verification/Crypto.thy ===== *)
theory Crypto
  imports Api_Edit
begin

text \<open>
  The key ring and the envelope encryption (dsh-crypto), the handler that rotates the master key (dsh-api
  \<open>lib.rs\<close>) and the hook that follows a rotation at every node (dsh-cli \<open>main.rs\<close>). The cipher (AES-256-GCM),
  base64, the random bytes and the file system are parameters. At the end: a secret stays readable through
  rotations, rewrappings and restarts.
\<close>

section \<open>The key ring\<close>

type_synonym bytes = "8 word list"
type_synonym key_ring = "bytes list"

definition ring_generation :: "key_ring \<Rightarrow> nat" where
  "ring_generation ring = length ring"

text \<open>Generations count from one; generation zero wraps around to an index that is never there.\<close>

definition ring_get :: "key_ring \<Rightarrow> nat \<Rightarrow> bytes option" where
  "ring_get ring g = (let i = (g + 2 ^ 64 - 1) mod 2 ^ 64 in if i < length ring then Some (ring ! i) else None)"

definition ring_push :: "bytes \<Rightarrow> key_ring \<Rightarrow> key_ring" where
  "ring_push kek ring = ring @ [kek]"

section \<open>The cipher\<close>

text \<open>
  The functions of the packages: base64, and sealing and opening under a key and a nonce. \<open>aead_law\<close> is what
  their documentation says: what was encoded is decoded, what was sealed is opened under the same key and nonce
  and is 16 bytes longer.
\<close>

record aead =
  b64_encode :: "bytes \<Rightarrow> string"
  b64_decode :: "string \<Rightarrow> bytes option"
  gcm_seal :: "bytes \<Rightarrow> bytes \<Rightarrow> bytes \<Rightarrow> bytes option"
  gcm_open :: "bytes \<Rightarrow> bytes \<Rightarrow> bytes \<Rightarrow> bytes option"

definition aead_law :: "aead \<Rightarrow> bool" where
  "aead_law A \<longleftrightarrow> (\<forall>x. b64_decode A (b64_encode A x) = Some x) \<and>
     (\<forall>k n p c. gcm_seal A k n p = Some c \<longrightarrow> gcm_open A k n c = Some p \<and> length c = length p + 16)"

text \<open>\<open>Nonce::from_slice\<close> panics on a slice that has not twelve bytes, and so does the current key of an empty ring.\<close>

datatype crypto_error = Crypto_Msg | Crypto_Panic

type_synonym 'a crypt = "crypto_error + 'a"

definition nonce_of :: "bytes \<Rightarrow> bytes crypt" where
  "nonce_of n = (if length n = 12 then Inr n else Inl Crypto_Panic)"

definition ring_current :: "key_ring \<Rightarrow> bytes crypt" where
  "ring_current ring = (if ring = [] then Inl Crypto_Panic else Inr (last ring))"

definition b64 :: "aead \<Rightarrow> string \<Rightarrow> bytes crypt" where
  "b64 A s = ok_or Crypto_Msg (b64_decode A s)"

definition wrap_dek :: "aead \<Rightarrow> bytes \<Rightarrow> bytes \<Rightarrow> bytes \<Rightarrow> (string \<times> string) crypt" where
  "wrap_dek A kek edek_nonce dek = bindE (ok_or Crypto_Msg (gcm_seal A kek edek_nonce dek)) (\<lambda>edek.
     Inr (b64_encode A edek, b64_encode A edek_nonce))"

text \<open>\<open>decrypt_text\<close>: a nonce and a text in base64, opened under a key.\<close>

definition decrypt_text :: "aead \<Rightarrow> bytes \<Rightarrow> string \<Rightarrow> string \<Rightarrow> bytes crypt" where
  "decrypt_text A k nonce text = bindE (bindE (b64 A nonce) nonce_of) (\<lambda>n. bindE (b64 A text) (\<lambda>c.
     ok_or Crypto_Msg (gcm_open A k n c)))"

definition unwrap_dek :: "aead \<Rightarrow> bytes \<Rightarrow> ciphertext \<Rightarrow> bytes crypt" where
  "unwrap_dek A kek c = decrypt_text A kek (ct_edek_nonce c) (ct_edek c)"

text \<open>A key of data and two nonces are drawn for every secret.\<close>

definition encrypt_secret :: "aead \<Rightarrow> key_ring \<Rightarrow> bytes \<Rightarrow> bytes \<Rightarrow> bytes \<Rightarrow> bytes \<Rightarrow> ciphertext crypt" where
  "encrypt_secret A ring dek nonce edek_nonce plain =
     bindE (ok_or Crypto_Msg (gcm_seal A dek nonce plain)) (\<lambda>ct.
     bindE (bindE (ring_current ring) (\<lambda>kek. wrap_dek A kek edek_nonce dek)) (\<lambda>(edek, en).
       Inr \<lparr>ct_enc = ''aes-256-gcm'', ct_v = 1, ct_dek_v = ring_generation ring, ct_nonce = b64_encode A nonce,
         ct_ct = b64_encode A ct, ct_edek = edek, ct_edek_nonce = en\<rparr>))"

text \<open>An unknown generation falls back to the newest key of the ring.\<close>

definition decryption_key :: "key_ring \<Rightarrow> ciphertext \<Rightarrow> bytes option" where
  "decryption_key ring c = (case ring_get ring (ct_dek_v c) of
     Some k \<Rightarrow> Some k
   | None \<Rightarrow> (case List.map_filter (ring_get ring) (rev [1..<ring_generation ring + 1]) of [] \<Rightarrow> None | k # ks \<Rightarrow> Some k))"

definition decrypt_secret :: "aead \<Rightarrow> key_ring \<Rightarrow> ciphertext \<Rightarrow> bytes crypt" where
  "decrypt_secret A ring c = bindE (ok_or Crypto_Msg (decryption_key ring c)) (\<lambda>kek.
     bindE (unwrap_dek A kek c) (\<lambda>dek.
       if length dek \<noteq> 32 then Inl Crypto_Msg else decrypt_text A dek (ct_nonce c) (ct_ct c)))"

definition rewrap_dek :: "aead \<Rightarrow> key_ring \<Rightarrow> bytes \<Rightarrow> ciphertext \<Rightarrow> ciphertext crypt" where
  "rewrap_dek A ring edek_nonce c = bindE (ok_or Crypto_Msg (ring_get ring (ct_dek_v c))) (\<lambda>kek.
     bindE (unwrap_dek A kek c) (\<lambda>dek.
     bindE (bindE (ring_current ring) (\<lambda>cur. wrap_dek A cur edek_nonce dek)) (\<lambda>(edek, en).
       Inr (c\<lparr>ct_dek_v := ring_generation ring, ct_edek := edek, ct_edek_nonce := en\<rparr>))))"

section \<open>Wrapping a new master key\<close>

definition wrap_master_key :: "aead \<Rightarrow> bytes \<Rightarrow> bytes \<Rightarrow> bytes \<Rightarrow> bytes crypt" where
  "wrap_master_key A kek nonce new_kek = bindE (ok_or Crypto_Msg (gcm_seal A kek nonce new_kek)) (\<lambda>ct. Inr (nonce @ ct))"

definition unwrap_master_key :: "aead \<Rightarrow> bytes \<Rightarrow> bytes \<Rightarrow> bytes crypt" where
  "unwrap_master_key A kek enc =
     (if length enc < 13 then Inl Crypto_Msg
      else bindE (ok_or Crypto_Msg (gcm_open A kek (take 12 enc) (drop 12 enc))) (\<lambda>plain.
        if length plain \<noteq> 32 then Inl Crypto_Msg else Inr plain))"

section \<open>The file of the ring\<close>

text \<open>What reading the file finds: the JSON list of its keys, or no file, an I/O error, or a text that is no such list.\<close>

datatype ring_file = No_File | Unreadable | Garbled | Keys "string list"

text \<open>
  The file is opened with truncation and written in place. How that can end: the open fails and leaves the file; the
  write is cut off and leaves a text that is empty or not whole (a JSON list that misses its end is no list); the text
  is written and the permissions cannot be set; or all is well. A process that dies on the way leaves the file of one
  of the first three.
\<close>

datatype save_end = Saved | Not_Opened | Write_Cut | Not_Restricted

definition ring_text :: "aead \<Rightarrow> key_ring \<Rightarrow> ring_file" where
  "ring_text A ring = Keys (map (b64_encode A) ring)"

definition save_ring :: "aead \<Rightarrow> save_end \<Rightarrow> key_ring \<Rightarrow> ring_file \<Rightarrow> ring_file \<times> unit crypt" where
  "save_ring A w ring fl = (case w of
     Not_Opened \<Rightarrow> (fl, Inl Crypto_Msg)
   | Write_Cut \<Rightarrow> (Garbled, Inl Crypto_Msg)
   | Not_Restricted \<Rightarrow> (ring_text A ring, Inl Crypto_Msg)
   | Saved \<Rightarrow> (ring_text A ring, Inr ()))"

definition load_key :: "aead \<Rightarrow> string \<Rightarrow> bytes crypt" where
  "load_key A k = bindE (b64 A k) (\<lambda>b. if length b \<noteq> 32 then Inl Crypto_Msg else Inr b)"

definition load_ring :: "aead \<Rightarrow> ring_file \<Rightarrow> key_ring crypt" where
  "load_ring A fl = (case fl of
     No_File \<Rightarrow> Inr []
   | Unreadable \<Rightarrow> Inr []
   | Garbled \<Rightarrow> Inl Crypto_Msg
   | Keys ks \<Rightarrow> foldE (\<lambda>k out. bindE (load_key A k) (\<lambda>b. Inr (out @ [b]))) ks [])"

text \<open>The master key of the start: from the environment, else from the file of keys.\<close>

definition load_master_key :: "aead \<Rightarrow> string option \<Rightarrow> bytes option option \<Rightarrow> bytes option crypt" where
  "load_master_key A env_key key_file =
     (case env_key of
        Some k \<Rightarrow> bindE (b64 A k) (\<lambda>raw. if length raw \<noteq> 32 then Inl Crypto_Msg else Inr (Some raw))
      | None \<Rightarrow> (case key_file of
            Some raw_file \<Rightarrow> bindE (ok_or Crypto_Msg raw_file) (\<lambda>raw. if length raw \<noteq> 32 then Inl Crypto_Msg else Inr (Some raw))
          | None \<Rightarrow> Inr None))"

text \<open>The ring of a node that starts with a master key; a file that cannot be read is only warned of.\<close>

definition start_ring :: "aead \<Rightarrow> bytes \<Rightarrow> ring_file option \<Rightarrow> key_ring" where
  "start_ring A k fl = k # filter (\<lambda>e. e \<noteq> k) (case fl of
     None \<Rightarrow> []
   | Some f \<Rightarrow> (case load_ring A f of Inr v \<Rightarrow> v | Inl e \<Rightarrow> []))"

section \<open>Rotation\<close>

text \<open>
  A rotation is saved first and then taken over; a key that is in the ring already is left where it is. If the file
  cannot be saved the ring in memory stays as it was, but not always the file.
  \<open>saved\<close>: \<open>None\<close> without a file of the ring, otherwise how saving it ends.
\<close>

definition take_over :: "aead \<Rightarrow> save_end option \<Rightarrow> bytes \<Rightarrow> key_ring \<times> ring_file \<Rightarrow> (key_ring \<times> ring_file) \<times> unit crypt" where
  "take_over A saved kek st = (case st of (ring, fl) \<Rightarrow>
     if kek \<in> set ring then ((ring, fl), Inr ())
     else (case saved of
         None \<Rightarrow> ((ring_push kek ring, fl), Inr ())
       | Some w \<Rightarrow> (case save_ring A w (ring_push kek ring) fl of
             (fl', Inr u) \<Rightarrow> ((ring_push kek ring, fl'), Inr ())
           | (fl', Inl e) \<Rightarrow> ((ring, fl'), Inl e))))"

text \<open>The new key of a command, tried under the keys of the ring from the newest on.\<close>

fun resolve_kek :: "aead \<Rightarrow> bytes \<Rightarrow> bytes list \<Rightarrow> bytes option" where
  "resolve_kek A enc [] = None"
| "resolve_kek A enc (k # ks) = (case unwrap_master_key A k enc of Inr x \<Rightarrow> Some x | Inl e \<Rightarrow> resolve_kek A enc ks)"

definition cluster_rotation_hook :: "aead \<Rightarrow> save_end option \<Rightarrow> command \<Rightarrow> key_ring \<times> ring_file \<Rightarrow> key_ring \<times> ring_file" where
  "cluster_rotation_hook A saved cmd st = (case cmd of
     RotateMasterKey kek kek_enc \<Rightarrow>
       (case (if kek_enc \<noteq> [] then resolve_kek A kek_enc (rev (fst st)) else Some kek) of
          None \<Rightarrow> st
        | Some plain \<Rightarrow>
            if length plain \<noteq> 32 then st
            else fst (take_over A saved plain st))
   | _ \<Rightarrow> st)"

definition new_key_of :: "aead \<Rightarrow> string \<Rightarrow> bytes res" where
  "new_key_of A text = bindE (ok_or (err Validation) (b64_decode A text)) (\<lambda>raw.
     if length raw \<noteq> 32 then Inl (err Validation) else Inr raw)"

definition rotation_audit :: "caller \<Rightarrow> nat \<Rightarrow> command" where
  "rotation_audit c g = audit_cmd (cl_now c) ''rotate_master_key'' None None None None
     (json_text (le_serde (cl_env c)) (JObj [(''generation'', JInt (int g))])) ''admin''"

text \<open>The handler at a server without Raft; without a ring, or without a file for it, there is nothing to rotate.\<close>

definition rotate_local ::
  "aead \<Rightarrow> caller \<Rightarrow> save_end option \<Rightarrow> string \<Rightarrow> (key_ring \<times> ring_file) option \<Rightarrow>
     (key_ring \<times> ring_file) option \<times> command list \<times> (reject + nat)" where
  "rotate_local A c saved text st = (case st of
     None \<Rightarrow> (None, [], Inl (api_error (err Validation)))
   | Some keys \<Rightarrow>
       if saved = None then (st, [], Inl (api_error (err Validation)))
       else (case new_key_of A text of
           Inl e \<Rightarrow> (st, [], Inl (api_error e))
         | Inr kek \<Rightarrow> (case take_over A saved kek keys of
             (keys', Inl e) \<Rightarrow> (Some keys', [], Inl (api_error (err Internal)))
           | (keys', Inr u) \<Rightarrow> (Some keys', [rotation_audit c (ring_generation (fst keys'))], Inr (ring_generation (fst keys'))))))"

text \<open>
  The loop of the handler in a cluster: it proposes the command until that is committed, refused, or answered by
  the leader. \<open>Inr None\<close>: committed here.
\<close>

fun rotate_loop :: "login_env \<Rightarrow> command \<Rightarrow> turn list \<Rightarrow> sm \<Rightarrow> sm \<times> (reject + forwarded option) option" where
  "rotate_loop L cmd [] s = (s, None)"
| "rotate_loop L cmd (tn # tns) s = (case app_write L (tn_route tn) cmd (tn_now tn) s of
     (t, Inr w) \<Rightarrow> (t, Some (Inr None))
   | (t, Inl e) \<Rightarrow>
       if e_kind e = LeaderRedirect then
         (case leader_answer tn of
            Some a \<Rightarrow> (t, Some (if 200 \<le> fw_status a \<and> fw_status a < 300 then Inr (Some a)
                else Inl (Reject (fw_status a) (case fw_code a of None \<Rightarrow> ''ERR_INTERNAL'' | Some code \<Rightarrow> code))))
          | None \<Rightarrow>
              if tn_late tn then (t, Some (Inl (Reject 504 ''ERR_LEADER_REDIRECT''))) else rotate_loop L cmd tns t)
       else (t, Some (Inl (api_error e))))"

text \<open>The command carries the new key under the current one and never in plain text; \<open>g\<close>: the generation at the end of the wait.\<close>

definition rotate_cluster ::
  "aead \<Rightarrow> caller \<Rightarrow> save_end option \<Rightarrow> string \<Rightarrow> key_ring option \<Rightarrow> bytes \<Rightarrow> nat \<Rightarrow> turn list \<Rightarrow> sm \<Rightarrow>
     sm \<times> command list \<times> (reject + (forwarded option \<times> nat)) option" where
  "rotate_cluster A c saved text ring nonce g turns s = (case ring of
     None \<Rightarrow> (s, [], Some (Inl (api_error (err Validation))))
   | Some r \<Rightarrow>
       if saved = None then (s, [], Some (Inl (api_error (err Validation))))
       else (case new_key_of A text of
           Inl e \<Rightarrow> (s, [], Some (Inl (api_error e)))
         | Inr kek \<Rightarrow> (case bindE (ring_current r) (\<lambda>cur. wrap_master_key A cur nonce kek) of
             Inl e \<Rightarrow> (s, [], Some (Inl (api_error (err Internal))))
           | Inr kek_enc \<Rightarrow> (case rotate_loop (cl_env c) (RotateMasterKey [] kek_enc) turns s of
               (t, Some (Inr None)) \<Rightarrow> (t, [rotation_audit c g], Some (Inr (None, g)))
             | (t, Some (Inr (Some a))) \<Rightarrow> (t, [], Some (Inr (Some a, g)))
             | (t, Some (Inl x)) \<Rightarrow> (t, [], Some (Inl x))
             | (t, None) \<Rightarrow> (t, [], None)))))"

text \<open>The request to the leader is built anew: of the headers it takes over only \<open>X-Forwarded-For\<close>.\<close>

definition forward_request :: "string \<Rightarrow> request" where
  "forward_request path = \<lparr>rq_method = ''POST'', rq_path = path, rq_query = None, rq_auth = None\<rparr>"

section \<open>Lemmas on rings\<close>

lemma ring_get_nth:
  assumes "0 < g" "g \<le> length ring" "length ring < 2 ^ 64"
  shows "ring_get ring g = Some (ring ! (g - 1))"
proof -
  have "g + 2 ^ 64 - 1 = (g - 1) + 2 ^ 64" using assms(1) by simp
  then have "(g + 2 ^ 64 - 1) mod 2 ^ 64 = g - 1" using assms by (simp only: mod_add_self2) simp
  then show ?thesis using assms by (simp add: ring_get_def Let_def)
qed

lemma ok_or_Inr [simp]: "ok_or e x = Inr y \<longleftrightarrow> x = Some y"
  by (auto simp: ok_or_def split: option.splits)

lemma ok_or_Some [simp]: "ok_or e (Some x) = Inr x"
  by (simp add: ok_or_def)

lemma aead_lawD:
  assumes "aead_law A"
  shows "b64_decode A (b64_encode A x) = Some x" "gcm_seal A k n p = Some c \<Longrightarrow> gcm_open A k n c = Some p"
    "gcm_seal A k n p = Some c \<Longrightarrow> length c = length p + 16"
  using assms by (auto simp: aead_law_def)

lemma decrypt_sealed:
  assumes "aead_law A" "gcm_seal A k n p = Some c" "length n = 12"
  shows "decrypt_text A k (b64_encode A n) (b64_encode A c) = Inr p"
  using aead_lawD [OF assms(1)] assms(2,3) by (simp add: decrypt_text_def b64_def nonce_of_def ok_or_def)

text \<open>The ring a start finds in the file is the one that was saved.\<close>

definition ring_ok :: "key_ring \<Rightarrow> bool" where
  "ring_ok ring \<longleftrightarrow> ring \<noteq> [] \<and> distinct ring \<and> (\<forall>k \<in> set ring. length k = 32)"

lemma load_saved:
  assumes "aead_law A" "\<forall>k \<in> set ring. length k = 32"
  shows "load_ring A (ring_text A ring) = Inr ring"
proof -
  have "foldE (\<lambda>k out. bindE (load_key A k) (\<lambda>b. Inr (out @ [b]))) (map (b64_encode A) ring) out = Inr (out @ ring)" for out
    using assms(2) aead_lawD(1) [OF assms(1)]
    by (induction ring arbitrary: out) (simp_all add: load_key_def b64_def ok_or_def)
  then show ?thesis by (simp add: load_ring_def ring_text_def)
qed

lemma start_ring_saved:
  assumes "aead_law A" "ring_ok ring"
  shows "start_ring A (hd ring) (Some (ring_text A ring)) = ring"
proof -
  have "filter (\<lambda>e. e \<noteq> k) ks = ks" if "k \<notin> set ks" for k and ks :: key_ring
    using that by (induction ks) auto
  then show ?thesis
    using load_saved [OF assms(1)] assms(2) by (cases ring) (auto simp: start_ring_def ring_ok_def)
qed

lemma take_over_ring:
  assumes "take_over A saved kek (ring, fl) = ((ring', fl'), r)" "ring_ok ring" "length kek = 32"
  shows "ring_ok ring' \<and> ring' \<in> {ring, ring @ [kek]} \<and> (r = Inr () \<longrightarrow> kek \<in> set ring')"
  using assms by (auto simp: take_over_def save_ring_def ring_ok_def ring_push_def split: if_splits option.splits save_end.splits)

section \<open>The life of a secret\<close>

text \<open>
  A ciphertext, the ring of the node that holds it and the file of the ring: encrypted after a start, then in any
  order a rotation (by the handler or by a command of the log, at a node with a file for its ring, the save ending in
  any way), a rewrapping, and a restart that reads the ring back from the file. The restart is not one that finds a file
  which a failed write has cut off, unless the master key is all there was; \<open>cut_file_loses_keys\<close> is about that one.
\<close>

inductive life :: "aead \<Rightarrow> bytes \<Rightarrow> key_ring \<Rightarrow> ring_file \<Rightarrow> ciphertext \<Rightarrow> bool" for A plain where
  sealed: "ring = start_ring A k (Some fl) \<Longrightarrow> ring_ok ring \<Longrightarrow> length dek = 32 \<Longrightarrow> length nonce = 12 \<Longrightarrow>
    length edek_nonce = 12 \<Longrightarrow> encrypt_secret A ring dek nonce edek_nonce plain = Inr c \<Longrightarrow> life A plain ring fl c"
| rotated: "life A plain ring fl c \<Longrightarrow> length kek = 32 \<Longrightarrow> saved \<noteq> None \<Longrightarrow>
    take_over A saved kek (ring, fl) = ((ring', fl'), r) \<Longrightarrow> life A plain ring' fl' c"
| followed: "life A plain ring fl c \<Longrightarrow> saved \<noteq> None \<Longrightarrow> cluster_rotation_hook A saved cmd (ring, fl) = (ring', fl') \<Longrightarrow>
    life A plain ring' fl' c"
| rewrapped: "life A plain ring fl c \<Longrightarrow> length edek_nonce = 12 \<Longrightarrow> rewrap_dek A ring edek_nonce c = Inr c' \<Longrightarrow> life A plain ring fl c'"
| restarted: "life A plain ring fl c \<Longrightarrow> fl \<noteq> Garbled \<or> ring = [hd ring] \<Longrightarrow>
    life A plain (start_ring A (hd ring) (Some fl)) fl c"

text \<open>The key of the data opens the data, and the key of the ring at the generation opens that key.\<close>

definition readable_by :: "aead \<Rightarrow> bytes \<Rightarrow> key_ring \<Rightarrow> ciphertext \<Rightarrow> bool" where
  "readable_by A plain ring c \<longleftrightarrow> ring_ok ring \<and> 0 < ct_dek_v c \<and> ct_dek_v c \<le> length ring \<and>
     (\<exists>dek. unwrap_dek A (ring ! (ct_dek_v c - 1)) c = Inr dek \<and> length dek = 32 \<and>
        decrypt_text A dek (ct_nonce c) (ct_ct c) = Inr plain)"

lemma readable_grows:
  assumes "readable_by A plain ring c" "ring_ok ring'" "ring' \<in> {ring, ring @ [kek]}"
  shows "readable_by A plain ring' c"
  using assms by (auto simp: readable_by_def nth_append)

text \<open>
  What a start reads back: the ring, or one key more if a rotation failed after the text was written. A file that was
  cut off gives the master key alone.
\<close>

definition file_keeps :: "aead \<Rightarrow> key_ring \<Rightarrow> ring_file \<Rightarrow> bool" where
  "file_keeps A ring fl \<longleftrightarrow> (fl \<noteq> Garbled \<or> ring = [hd ring] \<longrightarrow>
     start_ring A (hd ring) (Some fl) = ring \<or>
     (\<exists>kek. length kek = 32 \<and> kek \<notin> set ring \<and> start_ring A (hd ring) (Some fl) = ring @ [kek]))"

lemma hd_start_ring [simp]: "hd (start_ring A k fl) = k"
  by (simp add: start_ring_def)

lemma start_garbled [simp]: "start_ring A k (Some Garbled) = [k]"
  by (simp add: start_ring_def load_ring_def)

lemma take_over_file:
  assumes "take_over A saved kek (ring, fl) = ((ring', fl'), r)" "saved \<noteq> None" "aead_law A" "ring_ok ring" "length kek = 32"
    "file_keeps A ring fl"
  shows "file_keeps A ring' fl'"
proof (cases "kek \<in> set ring")
  case True
  then show ?thesis using assms(1,6) by (simp add: take_over_def)
next
  case False
  have ok: "ring_ok (ring @ [kek])" using assms(4,5) False by (auto simp: ring_ok_def)
  have "hd (ring @ [kek]) = hd ring" using assms(4) by (simp add: ring_ok_def)
  then have reread: "start_ring A (hd ring) (Some (ring_text A (ring @ [kek]))) = ring @ [kek]"
    using start_ring_saved [OF assms(3) ok] by simp
  obtain w where w: "saved = Some w" using assms(2) by blast
  show ?thesis
  proof (cases w)
    case Write_Cut
    then have "ring' = ring" "fl' = Garbled" using assms(1) False w by (simp_all add: take_over_def save_ring_def)
    then show ?thesis by (auto simp: file_keeps_def)
  qed (use assms(1,4,5,6) False w reread \<open>hd (ring @ [kek]) = hd ring\<close> in
      \<open>auto simp: take_over_def save_ring_def ring_push_def file_keeps_def\<close>)
qed

lemma hook_take_over:
  assumes "cluster_rotation_hook A saved cmd (ring, fl) = (ring', fl')"
  shows "(ring', fl') = (ring, fl) \<or> (\<exists>kek r. length kek = 32 \<and> take_over A saved kek (ring, fl) = ((ring', fl'), r))"
proof -
  have "\<exists>r. take_over A saved kek (ring, fl) = ((ring', fl'), r)"
    if "fst (take_over A saved kek (ring, fl)) = (ring', fl')" for kek
    using that by (metis prod.collapse)
  then show ?thesis
    using assms by (auto simp: cluster_rotation_hook_def split: command.splits option.splits if_splits)
qed

lemma life_ring:
  assumes "life A plain ring fl c" "aead_law A"
  shows "ring_ok ring \<and> file_keeps A ring fl"
  using assms(1)
proof induction
  case (sealed ring k fl)
  then show ?case by (simp add: file_keeps_def)
next
  case (rotated ring fl c kek saved ring' fl' r)
  then show ?case using take_over_ring take_over_file assms(2) by blast
next
  case (followed ring fl c saved cmd ring' fl')
  then show ?case using hook_take_over [OF followed(3)] take_over_ring take_over_file assms(2) by blast
next
  case (restarted ring fl c)
  let ?R = "start_ring A (hd ring) (Some fl)"
  have R: "?R = ring \<or> (\<exists>kek. length kek = 32 \<and> kek \<notin> set ring \<and> ?R = ring @ [kek])"
    using restarted unfolding file_keeps_def by blast
  then have "ring_ok ?R" using restarted(3) by (auto simp: ring_ok_def)
  then show ?case by (simp add: file_keeps_def)
qed simp_all

lemma life_readable:
  assumes "life A plain ring fl c" "aead_law A" "length ring < 2 ^ 64"
  shows "readable_by A plain ring c"
  using assms(1,3)
proof induction
  case (sealed ring k fl dek nonce edek_nonce c)
  obtain ct edek where s: "gcm_seal A dek nonce plain = Some ct" "gcm_seal A (last ring) edek_nonce dek = Some edek"
    and c: "c = \<lparr>ct_enc = ''aes-256-gcm'', ct_v = 1, ct_dek_v = length ring, ct_nonce = b64_encode A nonce,
        ct_ct = b64_encode A ct, ct_edek = b64_encode A edek, ct_edek_nonce = b64_encode A edek_nonce\<rparr>"
    using sealed(2,6) by (auto simp: encrypt_secret_def wrap_dek_def ring_current_def ring_ok_def ring_generation_def)
  have "ring ! (length ring - 1) = last ring" using sealed(2) by (simp add: ring_ok_def last_conv_nth)
  then show ?case
    using decrypt_sealed [OF assms(2) s(1) sealed(4)] decrypt_sealed [OF assms(2) s(2) sealed(5)] sealed(2)
      sealed(3)
    by (auto simp: readable_by_def c unwrap_dek_def ring_ok_def)
next
  case (rotated ring fl c kek saved ring' fl' r)
  note ring = take_over_ring [OF rotated(4) conjunct1 [OF life_ring [OF rotated(1) assms(2)]] rotated(2)]
  then have "length ring \<le> length ring'" by auto
  then show ?case using rotated(5,6) ring readable_grows by (meson le_less_trans)
next
  case (followed ring fl c saved cmd ring' fl')
  consider "ring' = ring" | kek r where "length kek = 32" "take_over A saved kek (ring, fl) = ((ring', fl'), r)"
    using hook_take_over [OF followed(3)] by blast
  then show ?case
  proof cases
    case 1
    then show ?thesis using followed(4,5) by simp
  next
    case (2 kek r)
    note ring = take_over_ring [OF 2(2) conjunct1 [OF life_ring [OF followed(1) assms(2)]] 2(1)]
    then have "length ring \<le> length ring'" by auto
    then show ?thesis using followed(4,5) ring readable_grows by (meson le_less_trans)
  qed
next
  case (rewrapped ring fl c edek_nonce c')
  note old = rewrapped(4) [OF rewrapped(5)]
  then have get: "ring_get ring (ct_dek_v c) = Some (ring ! (ct_dek_v c - 1))"
    using ring_get_nth rewrapped(5) by (simp add: readable_by_def)
  obtain dek where dek: "unwrap_dek A (ring ! (ct_dek_v c - 1)) c = Inr dek" "length dek = 32"
    "decrypt_text A dek (ct_nonce c) (ct_ct c) = Inr plain"
    using old by (auto simp: readable_by_def)
  have ok: "ring_ok ring" using old by (simp add: readable_by_def)
  then obtain edek where s: "gcm_seal A (last ring) edek_nonce dek = Some edek"
    and c': "c' = c\<lparr>ct_dek_v := length ring, ct_edek := b64_encode A edek, ct_edek_nonce := b64_encode A edek_nonce\<rparr>"
    using rewrapped(3) get dek(1) by (auto simp: rewrap_dek_def wrap_dek_def ring_current_def ring_generation_def ring_ok_def)
  have "ring ! (length ring - 1) = last ring" using ok by (simp add: ring_ok_def last_conv_nth)
  then show ?case
    using decrypt_sealed [OF assms(2) s rewrapped(2)] dek(2,3) ok by (auto simp: readable_by_def c' unwrap_dek_def ring_ok_def)
next
  case (restarted ring fl c)
  let ?R = "start_ring A (hd ring) (Some fl)"
  note old = life_ring [OF restarted(1) assms(2)] and new = life_ring [OF life.restarted [OF restarted(1,2)] assms(2)]
  obtain kek where "?R \<in> {ring, ring @ [kek]}" using old restarted(2) unfolding file_keeps_def by blast
  moreover from this have "length ring \<le> length ?R" by auto
  ultimately show ?case using restarted(3,4) new readable_grows by (meson le_less_trans)
qed

text \<open>
  C40: A secret stays readable: after any sequence of rotations at the handler or through the log, whichever way the
  save of the ring file ends, of rewrappings of its data key, and of restarts that read the ring from the file
  (and do not find it cut off by a failed write), the node decrypts it to the plain text. A
  rewrapping (which only the failure of the cipher can prevent) brings it to the newest generation, leaves the
  encrypted data as they are, and the result decrypts to the same plain text.
\<close>

theorem secrets_survive_rotation:
  assumes "life A plain ring fl c" "aead_law A" "length ring < 2 ^ 64"
  shows "decrypt_secret A ring c = Inr plain \<and> 0 < ct_dek_v c \<and> ct_dek_v c \<le> ring_generation ring \<and>
    (\<forall>n. length n = 12 \<longrightarrow>
      (\<forall>c'. rewrap_dek A ring n c = Inr c' \<longrightarrow> ct_dek_v c' = ring_generation ring \<and> ct_ct c' = ct_ct c \<and>
        ct_nonce c' = ct_nonce c \<and> decrypt_secret A ring c' = Inr plain) \<and>
      ((\<forall>k p. gcm_seal A k n p \<noteq> None) \<longrightarrow> (\<exists>c'. rewrap_dek A ring n c = Inr c')))"
proof -
  have dec: "decrypt_secret A ring d = Inr plain \<and> 0 < ct_dek_v d \<and> ct_dek_v d \<le> length ring" if "life A plain ring fl d" for d
    using life_readable [OF that assms(2,3)] ring_get_nth assms(3)
    by (auto simp: readable_by_def decrypt_secret_def decryption_key_def)
  have step: "ct_dek_v c' = length ring \<and> ct_ct c' = ct_ct c \<and> ct_nonce c' = ct_nonce c" if "rewrap_dek A ring n c = Inr c'" for n c'
    using that by (auto simp: rewrap_dek_def ring_generation_def)
  have total: "\<exists>c'. rewrap_dek A ring n c = Inr c'" if seals: "\<forall>k p. gcm_seal A k n p \<noteq> None" for n
  proof -
    obtain dek where dek: "unwrap_dek A (ring ! (ct_dek_v c - 1)) c = Inr dek" "0 < ct_dek_v c" "ct_dek_v c \<le> length ring" "ring \<noteq> []"
      using life_readable [OF assms] by (auto simp: readable_by_def ring_ok_def)
    obtain edek where "gcm_seal A (last ring) n dek = Some edek" using seals by blast
    then show ?thesis using dek ring_get_nth [OF dek(2,3) assms(3)] by (simp add: rewrap_dek_def ring_current_def wrap_dek_def)
  qed
  show ?thesis
    using dec [OF assms(1)] dec [OF life.rewrapped [OF assms(1)]] step total by (auto simp: ring_generation_def)
qed

text \<open>A cipher that only marks the text with its key, a ring of two keys, and a secret from before the rotation.\<close>

definition key_mark :: "bytes \<Rightarrow> bytes" where
  "key_mark k = take 16 (k @ replicate 16 0)"

definition sample_aead :: aead where
  "sample_aead = \<lparr>b64_encode = map (\<lambda>w. char_of (unat w)), b64_decode = (\<lambda>s. Some (map (\<lambda>c. word_of_nat (of_char c)) s)),
     gcm_seal = (\<lambda>k n p. Some (key_mark k @ p)),
     gcm_open = (\<lambda>k n c. if take 16 c = key_mark k then Some (drop 16 c) else None)\<rparr>"

lemma sample_aead_law: "aead_law sample_aead"
proof -
  have "word_of_nat (of_char (char_of (unat w) :: char)) = w" for w :: "8 word"
    using unsigned_less [of w, where 'a = nat] by (simp add: word_unat_eq_iff unsigned_of_nat take_bit_nat_eq_self)
  moreover have "length (key_mark k) = 16" for k by (simp add: key_mark_def)
  ultimately show ?thesis by (simp add: aead_law_def sample_aead_def comp_def)
qed

definition old_key :: bytes where "old_key = replicate 32 1"
definition new_key :: bytes where "new_key = replicate 32 2"

theorem secrets_survive_rotation_witness:
  "\<exists>c. encrypt_secret sample_aead [old_key] (replicate 32 7) (replicate 12 3) (replicate 12 4) [9, 8] = Inr c \<and>
     ct_dek_v c = 1 \<and> decrypt_secret sample_aead [old_key, new_key] c = Inr [9, 8] \<and>
     (\<exists>c'. rewrap_dek sample_aead [old_key, new_key] (replicate 12 5) c = Inr c' \<and> ct_dek_v c' = 2 \<and>
        decrypt_secret sample_aead [old_key, new_key] c' = Inr [9, 8])"
proof -
  obtain c where c: "encrypt_secret sample_aead [old_key] (replicate 32 7) (replicate 12 3) (replicate 12 4) [9, 8] = Inr c" "ct_dek_v c = 1"
    by (simp add: encrypt_secret_def sample_aead_def ring_current_def wrap_dek_def ring_generation_def)
  let ?file = "ring_text sample_aead [old_key, new_key]"
  have keys: "old_key \<noteq> new_key" "length new_key = 32" "ring_ok [old_key]" by (simp_all add: old_key_def new_key_def ring_ok_def)
  have start: "[old_key] = start_ring sample_aead old_key (Some No_File)" by (simp add: start_ring_def load_ring_def)
  have "life sample_aead [9, 8] [old_key] No_File c" by (rule life.sealed [OF start keys(3) _ _ _ c(1)]) simp_all
  moreover have "take_over sample_aead (Some Saved) new_key ([old_key], No_File) = (([old_key, new_key], ?file), Inr ())"
    using keys(1) by (simp add: take_over_def save_ring_def ring_push_def)
  ultimately have "life sample_aead [9, 8] [old_key, new_key] ?file c" using life.rotated keys(2) by blast
  note facts = secrets_survive_rotation [OF this sample_aead_law]
  have "\<forall>k p. gcm_seal sample_aead k (replicate 12 5) p \<noteq> None" by (simp add: sample_aead_def)
  then obtain c' where "rewrap_dek sample_aead [old_key, new_key] (replicate 12 5) c = Inr c'" using facts by fastforce
  moreover from this have "ct_dek_v c' = 2 \<and> decrypt_secret sample_aead [old_key, new_key] c' = Inr [9, 8]"
  proof -
    have "length (replicate 12 (5 :: 8 word)) = 12" "length [old_key, new_key] < 2 ^ 64" by simp_all
    from facts [OF this(2)] this(1) \<open>rewrap_dek _ _ _ c = Inr c'\<close>
    have "ct_dek_v c' = ring_generation [old_key, new_key] \<and> decrypt_secret sample_aead [old_key, new_key] c' = Inr [9, 8]"
      by blast
    then show ?thesis by (simp add: ring_generation_def)
  qed
  moreover have "decrypt_secret sample_aead [old_key, new_key] c = Inr [9, 8]" using facts by simp
  ultimately show ?thesis using c by blast
qed

section \<open>What goes wrong\<close>

text \<open>
  An update may bring a ciphertext of its own. One whose nonce has not twelve bytes makes the rewrapping job panic,
  and the job holds the write lock of the machine, which stays poisoned.
\<close>

lemma forged_nonce_panics:
  assumes "ring_get ring (ct_dek_v c) = Some k" "b64_decode A (ct_edek_nonce c) = Some n" "length n \<noteq> 12"
  shows "rewrap_dek A ring edek_nonce c = Inl Crypto_Panic" "decrypt_secret A ring c = Inl Crypto_Panic"
  using assms by (simp_all add: rewrap_dek_def decrypt_secret_def decryption_key_def unwrap_dek_def decrypt_text_def b64_def
      nonce_of_def bindE_def)

text \<open>
  The file of the ring is truncated before it is written. A write that fails, or a process that dies on the way, leaves
  it cut off; the next start only warns of it and goes on with the master key alone. The rotation was refused, but the
  secrets of every earlier rotation cannot be read any more.
\<close>

lemma cut_file_loses_keys:
  assumes "kek \<notin> set ring"
  shows "take_over A (Some Write_Cut) kek (ring, fl) = ((ring, Garbled), Inl Crypto_Msg)"
    and "start_ring A (hd ring) (Some Garbled) = [hd ring]"
    and "1 < ct_dek_v c \<Longrightarrow> ct_dek_v c \<le> 2 ^ 64 \<Longrightarrow> unwrap_dek A (hd ring) c = Inl e \<Longrightarrow> decrypt_secret A [hd ring] c = Inl e"
proof -
  show "take_over A (Some Write_Cut) kek (ring, fl) = ((ring, Garbled), Inl Crypto_Msg)"
    using assms by (simp add: take_over_def save_ring_def)
  assume c: "1 < ct_dek_v c" "ct_dek_v c \<le> 2 ^ 64" "unwrap_dek A (hd ring) c = Inl e"
  have "ct_dek_v c + 2 ^ 64 - 1 = (ct_dek_v c - 1) + 2 ^ 64" using c(1) by simp
  then have "(ct_dek_v c + 2 ^ 64 - 1) mod 2 ^ 64 = ct_dek_v c - 1"
    using c(1,2) by (simp only: mod_add_self2) simp
  then have "ring_get [hd ring] (ct_dek_v c) = None" using c(1) by (simp add: ring_get_def Let_def)
  moreover have "ring_get [hd ring] 1 = Some (hd ring)" by (simp add: ring_get_def)
  ultimately have "decryption_key [hd ring] c = Some (hd ring)"
    by (simp add: decryption_key_def ring_generation_def List.map_filter_simps)
  then show "decrypt_secret A [hd ring] c = Inl e" using c(3) by (simp add: decrypt_secret_def)
qed simp

text \<open>For an unknown generation only the newest key is tried.\<close>

lemma unknown_generation_tries_newest:
  assumes "ring_get ring (ct_dek_v c) = None" "ring \<noteq> []" "length ring < 2 ^ 64"
  shows "decryption_key ring c = Some (last ring)"
proof -
  have "ring_get ring (length ring) = Some (last ring)"
    using ring_get_nth [of "length ring" ring] assms(2,3) by (simp add: last_conv_nth)
  moreover have "rev [1..<length ring + 1] = length ring # rev [1..<length ring]" using assms(2) by (cases ring) simp_all
  ultimately show ?thesis using assms(1) by (simp add: decryption_key_def ring_generation_def List.map_filter_simps)
qed

text \<open>
  The rotations are in the log but not in a snapshot. A node that got the effect of a rotation by a snapshot
  misses the key; when the next rotation comes, wrapped under that key, it cannot open it either, and its ring
  stays behind for good.
\<close>

lemma missed_rotation_stays_missed:
  assumes "\<forall>k \<in> set ring. k \<noteq> cur" "wrap_master_key A cur nonce kek = Inr enc" "length nonce = 12"
    and "\<And>k k' n p c. gcm_seal A k n p = Some c \<Longrightarrow> k' \<noteq> k \<Longrightarrow> gcm_open A k' n c = None" "enc \<noteq> []"
  shows "cluster_rotation_hook A saved (RotateMasterKey [] enc) (ring, fl) = (ring, fl)"
proof -
  obtain ct where ct: "gcm_seal A cur nonce kek = Some ct" "enc = nonce @ ct"
    using assms(2) by (auto simp: wrap_master_key_def)
  have "resolve_kek A enc ks = None" if "\<forall>k \<in> set ks. k \<noteq> cur" for ks
    using that assms(3) assms(4) [OF ct(1)]
    by (induction ks) (auto simp: unwrap_master_key_def ct(2) ok_or_def bindE_def)
  then show ?thesis using assms(1,5) by (simp add: cluster_rotation_hook_def)
qed

text \<open>A node with the key of the wrapping takes the new one over.\<close>

lemma rotation_followed:
  assumes "aead_law A" "ring_ok ring" "wrap_master_key A (last ring) nonce kek = Inr enc" "length nonce = 12" "length kek = 32"
    "kek \<notin> set ring"
  shows "cluster_rotation_hook A (Some Saved) (RotateMasterKey [] enc) (ring, fl) = (ring @ [kek], ring_text A (ring @ [kek]))"
proof -
  obtain ct where ct: "gcm_seal A (last ring) nonce kek = Some ct" "enc = nonce @ ct"
    using assms(3) by (auto simp: wrap_master_key_def)
  have "unwrap_master_key A (last ring) enc = Inr kek"
    using aead_lawD(2,3) [OF assms(1) ct(1)] assms(4,5) by (simp add: unwrap_master_key_def ct(2))
  moreover obtain ks k where "ring = ks @ [k]" using assms(2) by (cases ring rule: rev_cases) (auto simp: ring_ok_def)
  ultimately have "resolve_kek A enc (rev ring) = Some kek" by simp
  moreover have "enc \<noteq> []" using assms(4) ct(2) by auto
  ultimately show ?thesis using assms(5,6) by (simp add: cluster_rotation_hook_def take_over_def save_ring_def ring_push_def)
qed

text \<open>The request that a node forwards to the leader has no session: the middleware there refuses it.\<close>

lemma forwarded_rotation_is_refused:
  "auth_middleware sv (forward_request ''/api/v1/admin/rotate-master-key'') = Session_Expired"
  by (simp add: auth_middleware_def forward_request_def resolve_principal_def bearer_def exempt_path_def starts_with_def)

end
