(* ===== verification/Redb.thy ===== *)
theory Redb
  imports Kv_Store Durable
begin

text \<open>
  The persistent store (dsh-storage \<open>lib.rs\<close>): the \<open>Store\<close> operations over the tables of a redb database, with
  their transactions. A step of the database may fail or be the last of the process; what the package documents
  is in the model: a transaction that is not committed has no effect, and a commit is made whole or not at all.
  The store keeps the laws of the store interface and answers as the in-memory store does.
\<close>

section \<open>The database\<close>

definition TBL_STATE :: string where "TBL_STATE = ''state''"
definition TBL_RAFT_LOG :: string where "TBL_RAFT_LOG = ''raft-log''"
definition TBL_RAFT_META :: string where "TBL_RAFT_META = ''raft-meta''"
definition TBL_SNAPSHOTS :: string where "TBL_SNAPSHOTS = ''snapshots''"

definition ALL_TABLES :: "string list" where
  "ALL_TABLES = [TBL_STATE, TBL_RAFT_LOG, TBL_RAFT_META, TBL_SNAPSHOTS]"

text \<open>The tables as they are committed, and what is at the place of the backup.\<close>

type_synonym 'v tables = "(string, 'v mem_store) bmap"

datatype 'v backup = No_Backup | Partial_Backup | Backup "'v tables"

record 'v redb =
  db_tables :: "'v tables"
  db_backup :: "'v backup"

type_synonym ('v, 'a) db_act = "('v redb, error, 'a) program"

text \<open>A step that changes nothing and may fail; its error is a storage error (\<open>redb_error\<close>).\<close>

definition db_step :: "('v, unit) db_act" where
  "db_step = durably (err Storage) (\<lambda>n. n)"

text \<open>A read transaction on the table of the state; a table that is not there is an error.\<close>

definition in_read :: "('v mem_store \<Rightarrow> ('v, 'a) db_act) \<Rightarrow> ('v, 'a) db_act" where
  "in_read f = seq db_step (\<lambda>u. seq db_step (\<lambda>u. seq (reads (\<lambda>n. bm_get (db_tables n) TBL_STATE)) (\<lambda>t. case t of
     None \<Rightarrow> raise (err Storage)
   | Some t \<Rightarrow> f t)))"

text \<open>A write transaction on it, which makes the table if it is not there, up to the commit.\<close>

definition in_write :: "('v mem_store \<Rightarrow> ('v, 'v mem_store) db_act) \<Rightarrow> ('v, unit) db_act" where
  "in_write f = seq db_step (\<lambda>u. seq db_step (\<lambda>u. seq (reads (\<lambda>n. bm_get (db_tables n) TBL_STATE)) (\<lambda>t.
     seq (f (case t of None \<Rightarrow> bm_empty | Some t \<Rightarrow> t)) (\<lambda>t'.
     durably (err Storage) (\<lambda>n. n\<lparr>db_tables := bm_insert TBL_STATE t' (db_tables n)\<rparr>)))))"

section \<open>The operations\<close>

definition db_get :: "string \<Rightarrow> ('v, 'v option) db_act" where
  "db_get k = in_read (\<lambda>t. seq db_step (\<lambda>u. ret (bm_get t k)))"

definition db_put :: "string \<Rightarrow> 'v \<Rightarrow> ('v, unit) db_act" where
  "db_put k v = in_write (\<lambda>t. seq db_step (\<lambda>u. ret (bm_insert k v t)))"

definition db_delete :: "string \<Rightarrow> ('v, unit) db_act" where
  "db_delete k = in_write (\<lambda>t. seq db_step (\<lambda>u. ret (bm_remove k t)))"

text \<open>\<open>range(start..)\<close>; the scan ends at the first key without the prefix.\<close>

definition db_range :: "string \<Rightarrow> 'v mem_store \<Rightarrow> (string \<times> 'v) list" where
  "db_range start t = dropWhile (\<lambda>(k, v). k < start) (bm_entries t)"

fun scan_prefix :: "string \<Rightarrow> (string \<times> 'v) list \<Rightarrow> ('v, (string \<times> 'v) list) db_act" where
  "scan_prefix p [] = ret []"
| "scan_prefix p ((k, v) # rows) = seq db_step (\<lambda>u.
     if \<not> starts_with k p then ret []
     else seq (scan_prefix p rows) (\<lambda>out. ret ((k, v) # out)))"

definition db_get_prefix :: "string \<Rightarrow> ('v, (string \<times> 'v) list) db_act" where
  "db_get_prefix p = in_read (\<lambda>t. seq db_step (\<lambda>u. scan_prefix p (db_range p t)))"

fun scan_keys :: "string \<Rightarrow> (string \<times> 'v) list \<Rightarrow> ('v, string list) db_act" where
  "scan_keys p [] = ret []"
| "scan_keys p ((k, v) # rows) = seq db_step (\<lambda>u.
     if \<not> starts_with k p then ret []
     else seq (scan_keys p rows) (\<lambda>out. ret (k # out)))"

definition db_get_prefix_keys :: "string \<Rightarrow> ('v, string list) db_act" where
  "db_get_prefix_keys p = in_read (\<lambda>t. seq db_step (\<lambda>u. scan_keys p (db_range p t)))"

text \<open>The page: from the cursor on, the cursor itself skipped, until the budget is used up.\<close>

fun scan_page ::
  "('v \<Rightarrow> nat) \<Rightarrow> string \<Rightarrow> string option \<Rightarrow> nat \<Rightarrow> nat \<Rightarrow> (string \<times> 'v) list \<Rightarrow> ('v, (string \<times> 'v) list) db_act" where
  "scan_page vlen p after budget bytes [] = ret []"
| "scan_page vlen p after budget bytes ((k, v) # rows) = seq db_step (\<lambda>u.
     if \<not> starts_with k p then ret []
     else if (case after of None \<Rightarrow> False | Some a \<Rightarrow> k \<le> a) then scan_page vlen p after budget bytes rows
     else (let bytes' = bytes + (length k + vlen v) in
       if bytes' \<ge> max budget 1 then ret [(k, v)]
       else seq (scan_page vlen p after budget bytes' rows) (\<lambda>out. ret ((k, v) # out))))"

definition db_get_prefix_page ::
  "('v \<Rightarrow> nat) \<Rightarrow> string \<Rightarrow> string option \<Rightarrow> nat \<Rightarrow> ('v, (string \<times> 'v) list) db_act" where
  "db_get_prefix_page vlen p after budget = in_read (\<lambda>t. seq db_step (\<lambda>u.
     scan_page vlen p after budget 0 (db_range (case after of None \<Rightarrow> p | Some a \<Rightarrow> a) t)))"

fun insert_rows :: "(string \<times> 'v) list \<Rightarrow> 'v mem_store \<Rightarrow> ('v, 'v mem_store) db_act" where
  "insert_rows [] t = ret t"
| "insert_rows ((k, v) # rows) t = seq db_step (\<lambda>u. insert_rows rows (bm_insert k v t))"

fun remove_keys :: "string list \<Rightarrow> 'v mem_store \<Rightarrow> ('v, 'v mem_store) db_act" where
  "remove_keys [] t = ret t"
| "remove_keys (k # ks) t = seq db_step (\<lambda>u. remove_keys ks (bm_remove k t))"

definition db_put_batch :: "(string \<times> 'v) list \<Rightarrow> ('v, unit) db_act" where
  "db_put_batch pairs = in_write (insert_rows pairs)"

definition db_write_batch :: "(string \<times> 'v) list \<Rightarrow> string list \<Rightarrow> ('v, unit) db_act" where
  "db_write_batch puts deletes = in_write (\<lambda>t. seq (remove_keys deletes t) (insert_rows puts))"

section \<open>Opening and backup\<close>

text \<open>
  The tables are made in one transaction. \<open>repaired\<close>: the file had to be repaired, \<open>intact\<close>: what the check of
  the repaired file answers.
\<close>

fun open_tables :: "string list \<Rightarrow> 'v tables \<Rightarrow> ('v, 'v tables) db_act" where
  "open_tables [] ts = ret ts"
| "open_tables (x # xs) ts = seq db_step (\<lambda>u. open_tables xs (if bm_has ts x then ts else bm_insert x bm_empty ts))"

definition db_open :: "bool \<Rightarrow> bool \<Rightarrow> ('v, unit) db_act" where
  "db_open repaired intact = seq db_step (\<lambda>u. seq db_step (\<lambda>u. seq db_step (\<lambda>u.
     seq (reads db_tables) (\<lambda>ts. seq (open_tables ALL_TABLES ts) (\<lambda>ts'.
     seq (durably (err Storage) (\<lambda>n. n\<lparr>db_tables := ts'\<rparr>)) (\<lambda>u.
     seq (if repaired then seq db_step (\<lambda>u. if intact then ret () else raise (err Storage)) else ret ()) (\<lambda>u.
     db_step)))))))"

text \<open>The copy is made under a write transaction that is given up afterwards; it is not one step.\<close>

definition create_backup :: "('v, unit) db_act" where
  "create_backup = seq db_step (\<lambda>u. seq db_step (\<lambda>u.
     seq (durably (err Storage) (\<lambda>n. n\<lparr>db_backup := Partial_Backup\<rparr>)) (\<lambda>u.
     durably (err Storage) (\<lambda>n. n\<lparr>db_backup := Backup (db_tables n)\<rparr>))))"

section \<open>Scans\<close>

lemma ksorted_dropWhile:
  "ksorted xs \<Longrightarrow> dropWhile (\<lambda>(k, v). k \<le> a) xs = filter (\<lambda>(k, v). a < k) (xs :: (string \<times> 'v) list)"
  "ksorted xs \<Longrightarrow> dropWhile (\<lambda>(k, v). k < a) xs = filter (\<lambda>(k, v). a \<le> k) xs"
proof -
  show "ksorted xs \<Longrightarrow> dropWhile (\<lambda>(k, v). k \<le> a) xs = filter (\<lambda>(k, v). a < k) xs"
    by (induction xs) (auto simp: not_le intro!: filter_True [symmetric])
  show "ksorted xs \<Longrightarrow> dropWhile (\<lambda>(k, v). k < a) xs = filter (\<lambda>(k, v). a \<le> k) xs"
    by (induction xs) (auto simp: not_less intro!: filter_True [symmetric])
qed

lemma takeWhile_prefix:
  assumes "ksorted xs" "\<forall>q \<in> set xs. p \<le> fst q"
  shows "takeWhile (\<lambda>(k, v). starts_with k p) xs = filter (\<lambda>(k, v). starts_with k p) (xs :: (string \<times> 'v) list)"
proof -
  have "dropWhile (\<lambda>(k, v). k < p) xs = xs" using assms(2) by (cases xs) (auto simp: not_less [symmetric])
  then show ?thesis using takeWhile_dropWhile_filter [OF assms(1), of p] by simp
qed

text \<open>Reading a range from the cursor gives the rows that dropping the earlier ones of the whole prefix gives.\<close>

lemma range_after_cursor:
  assumes "p \<le> a"
  shows "dropWhile (\<lambda>(k, v). k \<le> a) (takeWhile (\<lambda>(k, v). starts_with k p) (db_range a t)) =
    dropWhile (\<lambda>(k, v). k \<le> a) (ms_get_prefix t p)"
proof -
  have sorted: "ksorted (filter P (bm_entries t))" for P
    by (metis bm_entries_retain case_prod_eta curry_case_prod ksorted_entries)
  have "takeWhile (\<lambda>(k, v). starts_with k p) (db_range a t) =
      filter (\<lambda>(k, v). starts_with k p) (filter (\<lambda>(k, v). a \<le> k) (bm_entries t))"
    unfolding db_range_def ksorted_dropWhile(2) [OF ksorted_entries]
    by (rule takeWhile_prefix [OF sorted]) (use assms in auto)
  then show ?thesis
    using sorted by (simp add: ksorted_dropWhile(1) ms_get_prefix_filter) (auto intro!: filter_cong)
qed

section \<open>What an operation leaves\<close>

text \<open>
  \<open>q\<close> in every ending leaves the database as it was, and returns only \<open>x\<close>; without a fault it returns.
\<close>

definition answers :: "('v, 'a) db_act \<Rightarrow> 'v redb \<Rightarrow> 'a \<Rightarrow> bool" where
  "answers q n0 x \<longleftrightarrow> triple (\<lambda>n. n = n0) q (\<lambda>y n. n = n0 \<and> y = x) (\<lambda>n. n = n0) (\<lambda>n. n = n0) \<and> q [] n0 = ([], n0, Done x)"

lemma seq_assoc: "seq (seq q f) g = seq q (\<lambda>x. seq (f x) g)"
  by (auto simp: seq_def fun_eq_iff split: prod.splits ending.splits)

lemma answers_ret [intro, simp]: "answers (ret x) n0 x"
  by (simp add: answers_def triple_def ret_def)

lemma answers_seq [intro]:
  assumes "answers q n0 x" "answers (f x) n0 y"
  shows "answers (seq q f) n0 y"
proof -
  have "triple (\<lambda>n. n = n0) (seq q f) (\<lambda>y' n. n = n0 \<and> y' = y) (\<lambda>n. n = n0) (\<lambda>n. n = n0)"
    by (rule triple_seq [OF conjunct1 [OF assms(1) [unfolded answers_def]]])
      (use assms(2) in \<open>auto simp: answers_def triple_def\<close>)
  then show ?thesis using assms by (simp add: answers_def seq_def)
qed

lemma answers_step [intro, simp]: "answers db_step n0 ()"
  by (auto simp: answers_def db_step_def durably_def intro!: triple_durably [unfolded durably_def])

lemma answers_reads [intro, simp]: "answers (reads g) n0 (g n0)"
  by (auto simp: answers_def reads_def triple_def)

lemma answers_scan_prefix: "answers (scan_prefix p rows) n0 (takeWhile (\<lambda>(k, v). starts_with k p) rows)"
  by (induction p rows rule: scan_prefix.induct) (auto intro!: answers_seq)

lemma answers_scan_keys: "answers (scan_keys p rows) n0 (map fst (takeWhile (\<lambda>(k, v). starts_with k p) rows))"
  by (induction p rows rule: scan_keys.induct) (auto intro!: answers_seq)

lemma answers_scan_page:
  assumes "ksorted rows"
  shows "answers (scan_page vlen p after budget bytes rows) n0 (page_take vlen budget bytes
    (case after of None \<Rightarrow> takeWhile (\<lambda>(k, v). starts_with k p) rows
     | Some a \<Rightarrow> dropWhile (\<lambda>(k, v). k \<le> a) (takeWhile (\<lambda>(k, v). starts_with k p) rows)))"
  using assms
proof (induction vlen p after budget bytes rows rule: scan_page.induct)
  case (2 vlen p after budget bytes k v rows)
  have sorted: "ksorted rows" and later: "\<forall>q \<in> set rows. k < fst q" using 2(3) by auto
  show ?case
  proof (cases "starts_with k p \<and> \<not> (case after of None \<Rightarrow> False | Some a \<Rightarrow> k \<le> a)")
    case True
    have "dropWhile (\<lambda>(k, v). k \<le> a) (takeWhile (\<lambda>(k, v). starts_with k p) rows) = takeWhile (\<lambda>(k, v). starts_with k p) rows"
      if "after = Some a" for a
      using True that later by (cases rows) (auto dest: order_less_le_trans)
    then have "answers (scan_page vlen p after budget (bytes + (length k + vlen v)) rows) n0
        (page_take vlen budget (bytes + (length k + vlen v)) (takeWhile (\<lambda>(k, v). starts_with k p) rows))"
      if "\<not> max budget 1 \<le> bytes + (length k + vlen v)"
      using 2(2) [OF _ _ refl that sorted] True by (auto split: option.splits)
    then show ?thesis using True by (auto simp: Let_def intro!: answers_seq split: option.splits)
  next
    case False
    then show ?thesis using 2(1) [OF _ _ sorted] by (auto intro!: answers_seq split: option.splits)
  qed
qed (simp split: option.splits)

lemma answers_insert_rows: "answers (insert_rows rows t) n0 (fold (\<lambda>(k, v) m. bm_insert k v m) rows t)"
  by (induction rows t rule: insert_rows.induct) (auto intro!: answers_seq)

lemma answers_remove_keys: "answers (remove_keys ks t) n0 (fold bm_remove ks t)"
  by (induction ks t rule: remove_keys.induct) (auto intro!: answers_seq)

lemma answers_open_tables: "answers (open_tables xs ts) n0 (fold (\<lambda>x ts. if bm_has ts x then ts else bm_insert x bm_empty ts) xs ts)"
  by (induction xs ts rule: open_tables.induct) (auto intro!: answers_seq)

lemma answers_in_read:
  assumes "bm_get (db_tables n0) TBL_STATE = Some t" "answers (f t) n0 x"
  shows "answers (in_read f) n0 x"
  unfolding in_read_def by (rule answers_seq answers_step answers_reads)+ (use assms in simp)

text \<open>A write transaction changes the table of the state as a whole or not at all.\<close>

lemma in_write_atomic:
  fixes n0 :: "'v redb"
  assumes "\<And>t. answers (f t) n0 (g t)"
  defines "n1 \<equiv> n0\<lparr>db_tables := bm_insert TBL_STATE
    (g (case bm_get (db_tables n0) TBL_STATE of None \<Rightarrow> bm_empty | Some t \<Rightarrow> t)) (db_tables n0)\<rparr>"
  shows "triple (\<lambda>n. n = n0) (in_write f) (\<lambda>u n. n = n1) (\<lambda>n. n = n0) (\<lambda>n. n = n0)" "in_write f [] n0 = ([], n1, Done ())"
proof -
  let ?commit = "\<lambda>t'. durably (err Storage) (\<lambda>n. n\<lparr>db_tables := bm_insert TBL_STATE t' (db_tables n)\<rparr>)"
  have q: "answers (seq db_step (\<lambda>u. seq db_step (\<lambda>u. seq (reads (\<lambda>n. bm_get (db_tables n) TBL_STATE))
      (\<lambda>t. f (case t of None \<Rightarrow> bm_empty | Some t \<Rightarrow> t))))) n0
      (g (case bm_get (db_tables n0) TBL_STATE of None \<Rightarrow> bm_empty | Some t \<Rightarrow> t))" (is "answers ?q n0 ?x")
    by (rule answers_seq answers_step answers_reads)+ (rule assms)
  have "triple (\<lambda>n. n = n0) (seq ?q ?commit) (\<lambda>u n. n = n1) (\<lambda>n. n = n0) (\<lambda>n. n = n0)"
    by (rule triple_seq [OF conjunct1 [OF q [unfolded answers_def]]]) (auto simp: n1_def intro!: triple_durably)
  then show "triple (\<lambda>n. n = n0) (in_write f) (\<lambda>u n. n = n1) (\<lambda>n. n = n0) (\<lambda>n. n = n0)"
    by (simp add: in_write_def seq_assoc)
  have "seq ?q ?commit [] n0 = ([], n1, Done ())"
    using conjunct2 [OF q [unfolded answers_def]] by (subst seq_def) (simp add: durably_def n1_def)
  then show "in_write f [] n0 = ([], n1, Done ())" by (simp add: in_write_def seq_assoc)
qed

section \<open>Agreement with the in-memory store\<close>

text \<open>The operations of the store interface, with the restart and the backup.\<close>

datatype 'v store_op =
    S_Get string | S_Put string 'v | S_Delete string
  | S_Prefix string | S_Keys string | S_Page string "string option" nat
  | S_Put_Batch "(string \<times> 'v) list" | S_Write_Batch "(string \<times> 'v) list" "string list"
  | S_Open bool bool | S_Backup

datatype 'v reply = A_Value "'v option" | A_Rows "(string \<times> 'v) list" | A_Keys "string list" | A_Ok

fun db_op :: "('v \<Rightarrow> nat) \<Rightarrow> 'v store_op \<Rightarrow> ('v, 'v reply) db_act" where
  "db_op vlen (S_Get k) = seq (db_get k) (\<lambda>v. ret (A_Value v))"
| "db_op vlen (S_Put k v) = seq (db_put k v) (\<lambda>u. ret A_Ok)"
| "db_op vlen (S_Delete k) = seq (db_delete k) (\<lambda>u. ret A_Ok)"
| "db_op vlen (S_Prefix p) = seq (db_get_prefix p) (\<lambda>rows. ret (A_Rows rows))"
| "db_op vlen (S_Keys p) = seq (db_get_prefix_keys p) (\<lambda>ks. ret (A_Keys ks))"
| "db_op vlen (S_Page p after budget) = seq (db_get_prefix_page vlen p after budget) (\<lambda>rows. ret (A_Rows rows))"
| "db_op vlen (S_Put_Batch pairs) = seq (db_put_batch pairs) (\<lambda>u. ret A_Ok)"
| "db_op vlen (S_Write_Batch puts deletes) = seq (db_write_batch puts deletes) (\<lambda>u. ret A_Ok)"
| "db_op vlen (S_Open repaired intact) = seq (db_open repaired intact) (\<lambda>u. ret A_Ok)"
| "db_op vlen S_Backup = seq create_backup (\<lambda>u. ret A_Ok)"

fun mem_op :: "('v \<Rightarrow> nat) \<Rightarrow> 'v store_op \<Rightarrow> 'v mem_store \<Rightarrow> 'v reply \<times> 'v mem_store" where
  "mem_op vlen (S_Get k) t = (A_Value (ms_get t k), t)"
| "mem_op vlen (S_Put k v) t = (A_Ok, ms_put t k v)"
| "mem_op vlen (S_Delete k) t = (A_Ok, ms_delete t k)"
| "mem_op vlen (S_Prefix p) t = (A_Rows (ms_get_prefix t p), t)"
| "mem_op vlen (S_Keys p) t = (A_Keys (ms_get_prefix_keys t p), t)"
| "mem_op vlen (S_Page p after budget) t = (A_Rows (ms_get_prefix_page vlen t p after budget), t)"
| "mem_op vlen (S_Put_Batch pairs) t = (A_Ok, ms_put_batch t pairs)"
| "mem_op vlen (S_Write_Batch puts deletes) t = (A_Ok, ms_write_batch t puts deletes)"
| "mem_op vlen (S_Open repaired intact) t = (A_Ok, t)"
| "mem_op vlen S_Backup t = (A_Ok, t)"

text \<open>A cursor is not before the prefix: it is the last key of the page before.\<close>

fun cursor_ok :: "'v store_op \<Rightarrow> bool" where
  "cursor_ok (S_Page p (Some a) budget) = (p \<le> a)"
| "cursor_ok op = True"

fun answerable :: "'v store_op \<Rightarrow> bool" where
  "answerable (S_Open repaired intact) = (\<not> repaired \<or> intact)"
| "answerable op = True"

text \<open>What an ending may be: done with the reply and the effect of the in-memory store, or nothing happened to the state.\<close>

definition state_is :: "'v mem_store \<Rightarrow> 'v redb \<Rightarrow> bool" where
  "state_is t n \<longleftrightarrow> bm_get (db_tables n) TBL_STATE = Some t"

definition as_memory :: "('v, 'v reply) db_act \<Rightarrow> 'v redb \<Rightarrow> 'v reply \<times> 'v mem_store \<Rightarrow> 'v mem_store \<Rightarrow> bool" where
  "as_memory q n0 r t \<longleftrightarrow> triple (\<lambda>n. n = n0) q (\<lambda>a n. a = fst r \<and> state_is (snd r) n) (state_is t) (state_is t)"

definition returns :: "('v, 'a) db_act \<Rightarrow> 'v redb \<Rightarrow> bool" where
  "returns q n0 \<longleftrightarrow> (\<exists>n x. q [] n0 = ([], n, Done x))"

lemma answers_as_memory:
  assumes "answers q n0 x" "state_is t n0"
  shows "as_memory (seq q (\<lambda>y. ret (f y))) n0 (f x, t) t" "returns (seq q (\<lambda>y. ret (f y))) n0"
proof -
  have q: "triple (\<lambda>n. n = n0) q (\<lambda>y n. n = n0 \<and> y = x) (state_is t) (state_is t)"
    by (rule triple_conseq [OF conjunct1 [OF assms(1) [unfolded answers_def]]]) (use assms(2) in auto)
  show "as_memory (seq q (\<lambda>y. ret (f y))) n0 (f x, t) t"
    unfolding as_memory_def by (rule triple_seq [OF q]) (use assms(2) in \<open>auto intro!: triple_ret\<close>)
  show "returns (seq q (\<lambda>y. ret (f y))) n0"
    using assms(1) by (simp add: answers_def returns_def seq_def ret_def)
qed

lemma write_as_memory:
  assumes "\<And>t. answers (f t) n0 (g t)" "state_is t n0"
  shows "as_memory (seq (in_write f) (\<lambda>u. ret A_Ok)) n0 (A_Ok, g t) t" "returns (seq (in_write f) (\<lambda>u. ret A_Ok)) n0"
proof -
  have state: "bm_get (db_tables n0) TBL_STATE = Some t" using assms(2) by (simp add: state_is_def)
  have w: "triple (\<lambda>n. n = n0) (in_write f) (\<lambda>u n. state_is (g t) n) (state_is t) (state_is t)"
    by (rule triple_conseq [OF in_write_atomic(1) [of f n0 g, OF assms(1)]]) (auto simp: state_is_def state)
  show "as_memory (seq (in_write f) (\<lambda>u. ret A_Ok)) n0 (A_Ok, g t) t"
    unfolding as_memory_def by (rule triple_seq [OF w]) (auto intro!: triple_ret)
  show "returns (seq (in_write f) (\<lambda>u. ret A_Ok)) n0"
    using in_write_atomic(2) [of f n0 g, OF assms(1)] by (simp add: returns_def seq_def ret_def)
qed

lemma answers_page:
  assumes "cursor_ok (S_Page p after budget :: 'v store_op)"
  shows "answers (scan_page vlen p after budget 0 (db_range (case after of None \<Rightarrow> p | Some a \<Rightarrow> a) t)) n0
    (ms_get_prefix_page vlen (t :: 'v mem_store) p after budget)"
proof -
  have "ksorted (db_range a t)" for a
    unfolding db_range_def ksorted_dropWhile(2) [OF ksorted_entries] by (rule ksorted_filter) simp
  note scan = answers_scan_page [OF this]
  show ?thesis
  proof (cases after)
    case None
    then show ?thesis using scan [of vlen p None budget 0 p n0] by (simp add: ms_get_prefix_page_def page_of_def ms_get_prefix_def db_range_def)
  next
    case (Some a)
    then show ?thesis using scan [of vlen p "Some a" budget 0 a n0] range_after_cursor [of p a t] assms
      by (simp add: ms_get_prefix_page_def page_of_def)
  qed
qed

lemma fold_open_state:
  assumes "bm_get ts TBL_STATE = Some t"
  shows "bm_get (fold (\<lambda>x ts. if bm_has ts x then ts else bm_insert x bm_empty ts) xs ts) TBL_STATE = Some t"
  using assms by (induction xs arbitrary: ts) (auto simp: bm_has_iff)

lemma keeps_state:
  shows "triple (state_is t) db_step (\<lambda>u. state_is t) (state_is t) (state_is t)"
    and "triple (state_is t) (ret x) (\<lambda>y n. y = x \<and> state_is t n) (state_is t) (state_is t)"
    and "triple (state_is t) (raise e) Q (state_is t) (state_is t)"
    and "(\<And>n. state_is t n \<Longrightarrow> state_is t (f n)) \<Longrightarrow> triple (state_is t) (durably e f) (\<lambda>u. state_is t) (state_is t) (state_is t)"
    and "triple (state_is t) q (\<lambda>x. state_is t) (state_is t) (state_is t) \<Longrightarrow>
      (\<And>x. triple (state_is t) (h x) R (state_is t) (state_is t)) \<Longrightarrow> triple (state_is t) (seq q h) R (state_is t) (state_is t)"
  by (auto simp: db_step_def intro: triple_durably triple_ret triple_raise triple_seq)

lemma keeps_then_ok:
  "triple (state_is t) q (\<lambda>x. state_is t) (state_is t) (state_is t) \<Longrightarrow>
    triple (state_is t) (seq q (\<lambda>u. ret A_Ok)) (\<lambda>a n. a = A_Ok \<and> state_is t n) (state_is t) (state_is t)"
  by (rule keeps_state(5) [OF _ keeps_state(2)])

lemma open_as_memory:
  assumes "state_is t n0"
  shows "as_memory (db_op vlen (S_Open repaired intact)) n0 (A_Ok, t) t"
    "answerable (S_Open repaired intact :: 'v store_op) \<Longrightarrow> returns (db_op vlen (S_Open repaired intact)) (n0 :: 'v redb)"
proof -
  let ?q = "seq db_step (\<lambda>u. seq db_step (\<lambda>u. seq db_step (\<lambda>u. seq (reads db_tables) (open_tables ALL_TABLES))))"
  let ?ts = "fold (\<lambda>x ts. if bm_has ts x then ts else bm_insert x bm_empty ts) ALL_TABLES (db_tables n0)"
  let ?rest = "\<lambda>ts'. seq (durably (err Storage) (\<lambda>n. n\<lparr>db_tables := ts'\<rparr>)) (\<lambda>u.
     seq (if repaired then seq db_step (\<lambda>u. if intact then ret () else raise (err Storage)) else ret ()) (\<lambda>u.
     seq db_step (\<lambda>u. ret A_Ok)))"
  have opened: "db_op vlen (S_Open repaired intact) = seq ?q ?rest" by (simp add: db_open_def seq_assoc)
  have q: "answers ?q n0 ?ts" by (rule answers_seq answers_step answers_reads)+ (rule answers_open_tables)
  have ts: "bm_get ?ts TBL_STATE = Some t" by (rule fold_open_state) (use assms in \<open>simp add: state_is_def\<close>)
  have checked: "triple (state_is t) (if repaired then seq db_step (\<lambda>u. if intact then ret () else raise (err Storage)) else ret ())
      (\<lambda>u. state_is t) (state_is t) (state_is t)"
    by (auto intro!: keeps_state(5) keeps_state(1) keeps_state(3) triple_ret)
  have rest: "triple (\<lambda>n. n = n0) (?rest ?ts) (\<lambda>a n. a = A_Ok \<and> state_is t n) (state_is t) (state_is t)"
  proof (rule triple_seq)
    show "triple (\<lambda>n. n = n0) (durably (err Storage) (\<lambda>n. n\<lparr>db_tables := ?ts\<rparr>)) (\<lambda>u. state_is t) (state_is t) (state_is t)"
      by (rule triple_durably) (use assms ts in \<open>auto simp: state_is_def\<close>)
  qed (rule keeps_state(5) [OF checked keeps_then_ok [OF keeps_state(1)]])
  have "triple (\<lambda>n. n = n0) ?q (\<lambda>y n. n = n0 \<and> y = ?ts) (state_is t) (state_is t)"
    by (rule triple_conseq [OF conjunct1 [OF q [unfolded answers_def]]]) (use assms in auto)
  then show "as_memory (db_op vlen (S_Open repaired intact)) n0 (A_Ok, t) t"
    unfolding as_memory_def opened fst_conv snd_conv
  proof (rule triple_seq)
    show "triple (\<lambda>n. n = n0 \<and> ts' = ?ts) (?rest ts') (\<lambda>a n. a = A_Ok \<and> state_is t n) (state_is t) (state_is t)" for ts'
      using rest by (cases "ts' = ?ts") (simp_all add: triple_pre)
  qed
  show "returns (db_op vlen (S_Open repaired intact)) n0" if "answerable (S_Open repaired intact :: 'v store_op)"
    unfolding opened using conjunct2 [OF q [unfolded answers_def]] that
    by (simp add: returns_def seq_def durably_def db_step_def ret_def del: ALL_TABLES_def)
qed

lemma backup_as_memory:
  assumes "state_is t n0"
  shows "as_memory (db_op vlen S_Backup) n0 (A_Ok, t) t" "returns (db_op vlen S_Backup) n0"
proof -
  have "triple (state_is t) create_backup (\<lambda>u. state_is t) (state_is t) (state_is t)"
    unfolding create_backup_def by (intro keeps_state(5) keeps_state(1) keeps_state(4)) (auto simp: state_is_def)
  from keeps_then_ok [OF this] show "as_memory (db_op vlen S_Backup) n0 (A_Ok, t) t"
    unfolding as_memory_def db_op.simps by (rule triple_conseq) (use assms in auto)
  show "returns (db_op vlen S_Backup) n0"
    by (simp add: returns_def create_backup_def seq_def db_step_def durably_def ret_def)
qed

lemma op_as_memory:
  assumes "state_is t n0" "cursor_ok op"
  shows "as_memory (db_op vlen op) n0 (mem_op vlen op t) t" "answerable op \<Longrightarrow> returns (db_op vlen op) n0"
proof -
  have state: "bm_get (db_tables n0) TBL_STATE = Some t" using assms(1) by (simp add: state_is_def)
  note writing = write_as_memory [OF _ assms(1)]
  have "as_memory (db_op vlen op) n0 (mem_op vlen op t) t \<and> (answerable op \<longrightarrow> returns (db_op vlen op) n0)"
  proof (cases op)
    case (S_Get k)
    have "answers (seq db_step (\<lambda>u. ret (bm_get t k))) n0 (ms_get t k)" by (auto simp: ms_get_def)
    from answers_as_memory [OF answers_in_read [where f = "\<lambda>t. seq db_step (\<lambda>u. ret (bm_get t k))", OF state this] assms(1), of A_Value] show ?thesis
      by (simp add: S_Get db_get_def)
  next
    case (S_Put k v)
    have "answers (seq db_step (\<lambda>u. ret (bm_insert k v t))) n0 (ms_put t k v)" for t by (auto simp: ms_put_def)
    from writing [where f = "\<lambda>t. seq db_step (\<lambda>u. ret (bm_insert k v t))" and g = "\<lambda>t. ms_put t k v", OF this] show ?thesis
      by (simp add: S_Put db_put_def)
  next
    case (S_Delete k)
    have "answers (seq db_step (\<lambda>u. ret (bm_remove k t))) n0 (ms_delete t k)" for t by (auto simp: ms_delete_def)
    from writing [where f = "\<lambda>t. seq db_step (\<lambda>u. ret (bm_remove k t))" and g = "\<lambda>t. ms_delete t k", OF this] show ?thesis
      by (simp add: S_Delete db_delete_def)
  next
    case (S_Prefix p)
    have "answers (seq db_step (\<lambda>u. scan_prefix p (db_range p t))) n0 (ms_get_prefix t p)"
      using answers_scan_prefix [of p "db_range p t" n0] by (auto simp: ms_get_prefix_def db_range_def)
    from answers_as_memory [OF answers_in_read [where f = "\<lambda>t. seq db_step (\<lambda>u. scan_prefix p (db_range p t))", OF state this] assms(1), of A_Rows] show ?thesis
      by (simp add: S_Prefix db_get_prefix_def)
  next
    case (S_Keys p)
    have "answers (seq db_step (\<lambda>u. scan_keys p (db_range p t))) n0 (ms_get_prefix_keys t p)"
      using answers_scan_keys [of p "db_range p t" n0] by (auto simp: ms_get_prefix_keys_def ms_get_prefix_def db_range_def)
    from answers_as_memory [OF answers_in_read [where f = "\<lambda>t. seq db_step (\<lambda>u. scan_keys p (db_range p t))", OF state this] assms(1), of A_Keys] show ?thesis
      by (simp add: S_Keys db_get_prefix_keys_def)
  next
    case (S_Page p after budget)
    have "answers (seq db_step (\<lambda>u. scan_page vlen p after budget 0 (db_range (case after of None \<Rightarrow> p | Some a \<Rightarrow> a) t))) n0
        (ms_get_prefix_page vlen t p after budget)"
      using answers_page assms(2) S_Page by (auto intro!: answers_seq)
    from answers_as_memory [OF answers_in_read [where f = "\<lambda>t. seq db_step (\<lambda>u. scan_page vlen p after budget 0 (db_range (case after of None \<Rightarrow> p | Some a \<Rightarrow> a) t))", OF state this] assms(1), of A_Rows] show ?thesis
      by (simp add: S_Page db_get_prefix_page_def)
  next
    case (S_Put_Batch pairs)
    have "answers (insert_rows pairs t) n0 (ms_put_batch t pairs)" for t
      using answers_insert_rows [of pairs t n0] by (simp add: ms_put_batch_def)
    from writing [where f = "\<lambda>t. insert_rows pairs t" and g = "\<lambda>t. ms_put_batch t pairs", OF this] show ?thesis
      by (simp add: S_Put_Batch db_put_batch_def)
  next
    case (S_Write_Batch puts deletes)
    have "answers (seq (remove_keys deletes t) (insert_rows puts)) n0 (ms_write_batch t puts deletes)" for t
      unfolding ms_write_batch_def by (rule answers_seq [OF answers_remove_keys answers_insert_rows])
    from writing [where f = "\<lambda>t. seq (remove_keys deletes t) (insert_rows puts)" and g = "\<lambda>t. ms_write_batch t puts deletes", OF this] show ?thesis
      by (simp add: S_Write_Batch db_write_batch_def)
  next
    case (S_Open repaired intact)
    then show ?thesis using open_as_memory [OF assms(1)] by simp
  next
    case S_Backup
    then show ?thesis using backup_as_memory [OF assms(1)] by simp
  qed
  then show "as_memory (db_op vlen op) n0 (mem_op vlen op t) t" "answerable op \<Longrightarrow> returns (db_op vlen op) n0" by simp_all
qed

section \<open>Any sequence of operations\<close>

text \<open>Each operation runs under faults of its own; a crash ends it, and the next operation finds what is committed.\<close>

fun run_script ::
  "('v \<Rightarrow> nat) \<Rightarrow> ('v store_op \<times> fault list) list \<Rightarrow> 'v redb \<Rightarrow> 'v redb \<times> (error, 'v reply) ending list" where
  "run_script vlen [] n = (n, [])"
| "run_script vlen ((op, fs) # script) n = (case db_op vlen op fs n of (fs', n', e) \<Rightarrow>
     (case run_script vlen script n' of (m, es) \<Rightarrow> (m, e # es)))"

text \<open>The in-memory store performs the operations that ended well, and has to give the same replies.\<close>

fun mem_run :: "('v \<Rightarrow> nat) \<Rightarrow> 'v store_op list \<Rightarrow> (error, 'v reply) ending list \<Rightarrow> 'v mem_store \<Rightarrow> 'v mem_store option" where
  "mem_run vlen [] [] t = Some t"
| "mem_run vlen (op # ops) (e # es) t = (case e of
     Done a \<Rightarrow> if a = fst (mem_op vlen op t) then mem_run vlen ops es (snd (mem_op vlen op t)) else None
   | _ \<Rightarrow> mem_run vlen ops es t)"
| "mem_run vlen _ _ t = None"

text \<open>
  C21: The persistent store implements the in-memory store the rest of the development uses. For any sequence of
  reads, scans, pages, writes, batches, restarts and backups, with a storage error or a crash of the process at any
  step of any of them: what ends well gives the reply and has the effect of the in-memory operation, and what does not
  end well has no effect on the state. Without faults everything ends well, but for the start on a file that was
  repaired with losses.
\<close>

theorem redb_refines_memory:
  assumes "state_is t n" "\<forall>(op, fs) \<in> set script. cursor_ok op" "run_script vlen script n = (n', endings)"
  shows "\<exists>t'. mem_run vlen (map fst script) endings t = Some t' \<and> state_is t' n' \<and>
    ((\<forall>(op, fs) \<in> set script. fs = [] \<and> answerable op) \<longrightarrow> (\<forall>e \<in> set endings. \<exists>a. e = Done a))"
  using assms
proof (induction script arbitrary: n t endings)
  case (Cons x script)
  obtain op fs where x: "x = (op, fs)" by fastforce
  obtain fs1 n1 e where step: "db_op vlen op fs n = (fs1, n1, e)" by (cases "db_op vlen op fs n") auto
  obtain es where rest: "run_script vlen script n1 = (n', es)" "endings = e # es"
    using Cons.prems(3) step by (auto simp: x split: prod.splits)
  have ok: "cursor_ok op" "\<forall>(op, fs) \<in> set script. cursor_ok op" using Cons.prems(2) by (auto simp: x)
  let ?t = "case e of Done a \<Rightarrow> snd (mem_op vlen op t) | _ \<Rightarrow> t"
  have one: "state_is ?t n1 \<and> (\<forall>a. e = Done a \<longrightarrow> a = fst (mem_op vlen op t))"
    using op_as_memory(1) [OF Cons.prems(1) ok(1), of vlen] step by (cases e) (auto simp: as_memory_def triple_def dest!: spec [of _ fs])
  have fine: "\<exists>a. e = Done a" if "fs = []" "answerable op"
    using op_as_memory(2) [OF Cons.prems(1) ok(1) that(2), of vlen] step that(1) by (auto simp: returns_def)
  obtain t' where "mem_run vlen (map fst script) es ?t = Some t'" "state_is t' n'"
    "(\<forall>(op, fs) \<in> set script. fs = [] \<and> answerable op) \<longrightarrow> (\<forall>e \<in> set es. \<exists>a. e = Done a)"
    using Cons.IH [OF _ ok(2) rest(1), of ?t] one by blast
  then show ?case using one fine by (cases e) (auto simp: x rest(2))
qed simp

text \<open>A batch that is interrupted before its commit, a restart, and the batch again.\<close>

definition sample_db :: "nat redb" where
  "sample_db = \<lparr>db_tables = bm_insert TBL_STATE (bm_insert ''a'' 1 bm_empty) bm_empty, db_backup = No_Backup\<rparr>"

definition sample_script :: "(nat store_op \<times> fault list) list" where
  "sample_script = [(S_Write_Batch [(''b'', 2)] [''a''], [Fine, Fine, Fine, Fine, Crashes]), (S_Open True True, []),
     (S_Get ''a'', []), (S_Write_Batch [(''b'', 2)] [''a''], []), (S_Get ''b'', [Fine, Fails]), (S_Page [] (Some ''a'') 10, [])]"

theorem redb_refines_memory_witness:
  "\<exists>n' endings t'. run_script (\<lambda>v. v) sample_script sample_db = (n', endings) \<and>
     mem_run (\<lambda>v. v) (map fst sample_script) endings (bm_insert ''a'' 1 bm_empty) = Some t' \<and> state_is t' n'"
proof -
  obtain n' endings where run: "run_script (\<lambda>v. v) sample_script sample_db = (n', endings)" by fastforce
  have "state_is (bm_insert ''a'' 1 bm_empty) sample_db" by (simp add: state_is_def sample_db_def)
  moreover have "\<forall>(op, fs) \<in> set sample_script. cursor_ok op" by (simp add: sample_script_def)
  ultimately show ?thesis using redb_refines_memory [OF _ _ run] run by blast
qed

section \<open>The laws of a store hold\<close>

text \<open>The operations without faults, as functions; a table that is not there reads as an empty one.\<close>

definition done_or :: "'a \<Rightarrow> ('v, 'a) db_act \<Rightarrow> 'v redb \<Rightarrow> 'a" where
  "done_or x q n = (case q [] n of (fs, n', Done y) \<Rightarrow> y | _ \<Rightarrow> x)"

definition left_by :: "('v, 'a) db_act \<Rightarrow> 'v redb \<Rightarrow> 'v redb" where
  "left_by q n = fst (snd (q [] n))"

lemma left_by_write:
  assumes "\<And>t. answers (f t) n (g t)"
  shows "bm_get (db_tables (left_by (in_write f) n)) TBL_STATE = Some (g (case bm_get (db_tables n) TBL_STATE of None \<Rightarrow> bm_empty | Some t \<Rightarrow> t))"
  using in_write_atomic(2) [of f n g, OF assms] by (simp add: left_by_def)

lemma done_or_read:
  assumes "\<And>t. answers (f t) n (g t)"
  shows "done_or x (in_read f) n = (case bm_get (db_tables n) TBL_STATE of None \<Rightarrow> x | Some t \<Rightarrow> g t)"
proof (cases "bm_get (db_tables n) TBL_STATE")
  case None
  then show ?thesis by (simp add: done_or_def in_read_def seq_def db_step_def durably_def reads_def raise_def)
next
  case (Some t)
  then show ?thesis using answers_in_read [OF Some assms] by (simp add: done_or_def answers_def)
qed

lemma db_get_fun: "done_or None (db_get k) n = (case bm_get (db_tables n) TBL_STATE of None \<Rightarrow> None | Some t \<Rightarrow> ms_get t k)"
  unfolding db_get_def ms_get_def by (rule done_or_read) auto

lemma db_get_prefix_fun:
  "done_or [] (db_get_prefix p) n = (case bm_get (db_tables n) TBL_STATE of None \<Rightarrow> [] | Some t \<Rightarrow> ms_get_prefix t p)"
  unfolding db_get_prefix_def ms_get_prefix_def db_range_def
  by (rule done_or_read) (rule answers_seq [OF answers_step answers_scan_prefix])

lemma db_write_fun:
  "bm_get (db_tables (left_by (db_put k v) n)) TBL_STATE = Some (ms_put (case bm_get (db_tables n) TBL_STATE of None \<Rightarrow> bm_empty | Some t \<Rightarrow> t) k v)"
  "bm_get (db_tables (left_by (db_delete k) n)) TBL_STATE = Some (ms_delete (case bm_get (db_tables n) TBL_STATE of None \<Rightarrow> bm_empty | Some t \<Rightarrow> t) k)"
  "bm_get (db_tables (left_by (db_write_batch ps ds) n)) TBL_STATE =
    Some (ms_write_batch (case bm_get (db_tables n) TBL_STATE of None \<Rightarrow> bm_empty | Some t \<Rightarrow> t) ps ds)"
  unfolding db_put_def db_delete_def db_write_batch_def ms_put_def ms_delete_def ms_write_batch_def
  by (rule left_by_write; auto intro: answers_seq [OF answers_remove_keys answers_insert_rows])+

lemma ms_get_empty: "ms_get bm_empty k = None"
  by (simp add: ms_get_def)

interpretation redb: kv_store "\<lambda>n k. done_or None (db_get k) n" "\<lambda>n k v. left_by (db_put k v) n" "\<lambda>n k. left_by (db_delete k) n"
  "\<lambda>n p. done_or [] (db_get_prefix p) n" "\<lambda>n ps ds. left_by (db_write_batch ps ds) n"
  by unfold_locales (auto simp: db_get_fun db_get_prefix_fun db_write_fun mem.get_put mem.get_delete mem.get_batch
      mem.prefix_sorted mem.prefix_mem ms_get_empty split: option.splits)

section \<open>Starts, backups and foreign cursors\<close>

text \<open>The first start makes every table.\<close>

lemma first_open:
  assumes "db_tables n = bm_empty"
  shows "\<exists>n'. db_open False intact [] n = ([], n', Done ()) \<and> (\<forall>x \<in> set ALL_TABLES. bm_get (db_tables n') x = Some bm_empty)"
  using assms by (auto simp: db_open_def seq_def db_step_def durably_def reads_def ret_def ALL_TABLES_def bm_has_def
      TBL_STATE_def TBL_RAFT_LOG_def TBL_RAFT_META_def TBL_SNAPSHOTS_def)

text \<open>A backup that was completed is the committed database; one that was interrupted may be cut off.\<close>

lemma backup_is_committed:
  "triple (\<lambda>n. n = n0) create_backup (\<lambda>u n. n = n0\<lparr>db_backup := Backup (db_tables n0)\<rparr>)
    (\<lambda>n. n = n0 \<or> n = n0\<lparr>db_backup := Partial_Backup\<rparr>) (\<lambda>n. n = n0 \<or> n = n0\<lparr>db_backup := Partial_Backup\<rparr>)"
  unfolding create_backup_def db_step_def
  by (rule triple_seq [where R = "\<lambda>u n. n = n0"], rule triple_durably, simp, simp, simp)+
    (rule triple_seq [where R = "\<lambda>u n. n = n0\<lparr>db_backup := Partial_Backup\<rparr>"]; rule triple_durably; simp)

text \<open>With a cursor before the prefix the two stores differ: the scan from the cursor stops at the first key it meets.\<close>

lemma foreign_cursor_differs:
  assumes "state_is (bm_insert ''b'' v (bm_insert ''a'' v bm_empty)) n"
  shows "done_or [] (db_get_prefix_page vlen ''b'' (Some []) 10) n = []"
    "ms_get_prefix_page vlen (bm_insert ''b'' v (bm_insert ''a'' v bm_empty)) ''b'' (Some []) 10 = [(''b'', v)]"
proof -
  let ?t = "bm_insert ''b'' v (bm_insert ''a'' v bm_empty)"
  have rows: "bm_entries ?t = [(''a'', v), (''b'', v)]" by (simp add: bm_insert.rep_eq bm_empty.rep_eq)
  then have "answers (seq db_step (\<lambda>u. scan_page vlen ''b'' (Some []) 10 0 (db_range [] ?t))) n []"
    by (auto simp: db_range_def intro!: answers_seq)
  from answers_in_read [where f = "\<lambda>t. seq db_step (\<lambda>u. scan_page vlen ''b'' (Some []) 10 0 (db_range [] t))",
      OF assms [unfolded state_is_def] this]
  show "done_or [] (db_get_prefix_page vlen ''b'' (Some []) 10) n = []"
    by (simp add: db_get_prefix_page_def done_or_def answers_def)
  show "ms_get_prefix_page vlen ?t ''b'' (Some []) 10 = [(''b'', v)]"
    by (simp add: ms_get_prefix_page_def page_of_def ms_get_prefix_def rows)
qed

end
