(* ===== verification/Cluster.thy ===== *)
theory Cluster
  imports Api_Accounts Grpc
begin

text \<open>
  The cluster around the machine: the members a node is started with (dsh-cli \<open>main.rs\<close>), joining, promoting and
  removing nodes (dsh-api \<open>lib.rs\<close>, \<open>membership_retry.rs\<close>), the overview of the members (dsh-observability), and the
  layer that forwards writes to the leader. What the Raft node answers to a change of the membership is a parameter.
\<close>

section \<open>The seed map\<close>

record node_info =
  ni_grpc_addr :: string
  ni_http_addr :: string
  ni_raft_addr :: string

type_synonym seed_map = "(nat, node_info) bmap"

datatype addr_error = Not_Host_Port | Wildcard_Host | Bad_Port | Zero_Port

datatype seed_error =
    No_Http_Addr nat | Bad_Entry nat | Bad_Node_Id nat | Zero_Node_Id nat | Bad_Addr nat addr_error
  | Same_Raft_Addr nat | Same_Http_Addr nat | Same_Node_Id nat | No_Seeds

definition validate_seed_addr :: "string \<Rightarrow> addr_error + unit" where
  "validate_seed_addr addr = (case split_all CHR '':'' addr of
     [host, port] \<Rightarrow>
       if host = [] \<or> host = ''0.0.0.0'' \<or> host = ''::'' then Inl Wildcard_Host
       else (case parse_unsigned 65535 port of
           None \<Rightarrow> Inl Bad_Port
         | Some n \<Rightarrow> if n = 0 then Inl Zero_Port else Inr ())
   | _ \<Rightarrow> Inl Not_Host_Port)"

text \<open>The map so far with the addresses seen; entries count from one, empty ones are passed over.\<close>

type_synonym seeds = "seed_map \<times> string set \<times> string set"

definition seed_entry :: "nat \<times> string \<Rightarrow> seeds \<Rightarrow> seed_error + seeds" where
  "seed_entry x st = (case (x, st) of ((i, raw), (m, rafts, https)) \<Rightarrow>
     (let entry = trim raw in
      if entry = [] then Inr (m, rafts, https)
      else (case split_all CHR ''@'' entry of
          [i_str, raft, http] \<Rightarrow>
            (case parse_u64 (trim i_str) of
               None \<Rightarrow> Inl (Bad_Node_Id i)
             | Some n \<Rightarrow>
                 if n = 0 then Inl (Zero_Node_Id i)
                 else bindE (map_error (Bad_Addr i) (validate_seed_addr raft)) (\<lambda>u.
                   bindE (map_error (Bad_Addr i) (validate_seed_addr http)) (\<lambda>u.
                   if raft \<in> rafts then Inl (Same_Raft_Addr i)
                   else if http \<in> https then Inl (Same_Http_Addr i)
                   else if bm_has m n then Inl (Same_Node_Id i)
                   else Inr (bm_insert n \<lparr>ni_grpc_addr = [], ni_http_addr = http, ni_raft_addr = raft\<rparr> m,
                     insert raft rafts, insert http https))))
        | [a, b] \<Rightarrow> Inl (No_Http_Addr i)
        | _ \<Rightarrow> Inl (Bad_Entry i))))"

definition parse_bootstrap_peers :: "string \<Rightarrow> seed_error + seed_map" where
  "parse_bootstrap_peers raw =
     bindE (foldE seed_entry (let xs = split_all CHR '','' raw in zip [1..<length xs + 1] xs) (bm_empty, {}, {})) (\<lambda>(m, rafts, https).
       if m = bm_empty then Inl No_Seeds else Inr m)"

text \<open>The own node has to be in the map with the addresses of its flags.\<close>

datatype seed_mismatch = Not_In_Seeds | Raft_Addr_Differs | Http_Addr_Differs

definition validate_bootstrap_peers :: "seed_map \<Rightarrow> nat \<Rightarrow> string \<Rightarrow> string \<Rightarrow> seed_mismatch + unit" where
  "validate_bootstrap_peers m node_id raft_addr http_addr = (case bm_get m node_id of
     None \<Rightarrow> Inl Not_In_Seeds
   | Some local \<Rightarrow>
       if ni_raft_addr local \<noteq> raft_addr then Inl Raft_Addr_Differs
       else if ni_http_addr local \<noteq> http_addr then Inl Http_Addr_Differs
       else Inr ())"

datatype member_diff = Only_Seed nat | Raft_Differs nat | Http_Differs nat | Only_Cluster nat

definition membership_diff :: "seed_map \<Rightarrow> seed_map \<Rightarrow> member_diff list option" where
  "membership_diff seed members =
     (let diffs = concat (map (\<lambda>(i, node). case bm_get members i of
            None \<Rightarrow> [Only_Seed i]
          | Some cur \<Rightarrow>
              (if ni_raft_addr cur \<noteq> ni_raft_addr node then [Raft_Differs i] else []) @
              (if ni_http_addr cur \<noteq> ni_http_addr node then [Http_Differs i] else [])) (bm_entries seed))
          @ concat (map (\<lambda>(i, node). if bm_has seed i then [] else [Only_Cluster i]) (bm_entries members)) in
      if diffs = [] then None else Some diffs)"

section \<open>How a node starts\<close>

text \<open>With a state of its own a node resumes, whatever the flags say.\<close>

datatype start = Bootstrap | Seeded seed_map | Resume "member_diff list option" | Join string

datatype start_error = Nothing_To_Start_With | Seeds_Wrong seed_error | Seeds_Mismatch seed_mismatch

definition start_of ::
  "bool \<Rightarrow> bool \<Rightarrow> string option \<Rightarrow> string option \<Rightarrow> nat \<Rightarrow> string \<Rightarrow> string \<Rightarrow> seed_map option \<Rightarrow> start_error + start" where
  "start_of has_state bootstrap peers join node_id raft_addr http_addr persisted =
     (if \<not> bootstrap \<and> peers = None \<and> join = None \<and> \<not> has_state then Inl Nothing_To_Start_With
      else if bootstrap \<and> \<not> has_state then Inr Bootstrap
      else (case peers of
          Some raw \<Rightarrow>
            if has_state then Inr (Resume (case (parse_bootstrap_peers raw, persisted) of
                (Inr seed, Some members) \<Rightarrow> membership_diff seed members | _ \<Rightarrow> None))
            else bindE (map_error Seeds_Wrong (parse_bootstrap_peers raw)) (\<lambda>seed.
              bindE (map_error Seeds_Mismatch (validate_bootstrap_peers seed node_id raft_addr http_addr)) (\<lambda>u.
                Inr (Seeded seed)))
        | None \<Rightarrow> (case join of
            Some url \<Rightarrow> Inr (if has_state then Resume None else Join url)
          | None \<Rightarrow> Inr (Resume None))))"

text \<open>
  The client side of a join: attempts until one is answered with success, or with a conflict, which is taken for
  a membership of before; a redirect changes the target. The second component of a turn: the deadline has passed.
\<close>

datatype join_answer = Joined | Join_Conflict | Join_Redirect "string option" | Join_Other

definition with_scheme :: "string \<Rightarrow> string" where
  "with_scheme h = (if starts_with h ''http://'' \<or> starts_with h ''https://'' then h else ''http://'' @ h)"

definition next_target :: "string \<Rightarrow> join_answer \<Rightarrow> string" where
  "next_target target ans = (case ans of
     Join_Redirect (Some h) \<Rightarrow> if h \<noteq> [] \<and> h \<noteq> target then with_scheme h else target
   | _ \<Rightarrow> target)"

fun join_cluster :: "((string \<Rightarrow> join_answer) \<times> bool) list \<Rightarrow> string \<Rightarrow> string \<times> bool option" where
  "join_cluster [] target = (target, None)"
| "join_cluster ((ask, late) # turns) target =
     (if ask target = Joined \<or> ask target = Join_Conflict then (target, Some True)
      else if late then (next_target target (ask target), Some False)
      else join_cluster turns (next_target target (ask target)))"

section \<open>Changes of the membership\<close>

datatype membership_error = In_Progress | Forward_To_Leader "string option" | Other_Error

datatype membership_op =
    Add_Learner nat node_info | Replace_Voters "nat list" | Remove_Voters "nat set" | Remove_Nodes "nat set"

definition RETRY_LIMIT :: nat where "RETRY_LIMIT = 8"

definition is_membership_in_progress :: "membership_error \<Rightarrow> bool" where
  "is_membership_in_progress e \<longleftrightarrow> e = In_Progress"

text \<open>\<open>raft n op\<close>: the answer to the proposal at the \<open>n\<close>-th attempt; at most eight of them.\<close>

type_synonym 'm raft_node_api = "nat \<Rightarrow> membership_op \<Rightarrow> membership_error + 'm"

function membership_tries :: "'m raft_node_api \<Rightarrow> membership_op \<Rightarrow> nat \<Rightarrow> membership_error + 'm" where
  "membership_tries raft op tries = (case raft (tries + 1) op of
     Inr resp \<Rightarrow> Inr resp
   | Inl e \<Rightarrow> if tries + 1 < RETRY_LIMIT \<and> is_membership_in_progress e then membership_tries raft op (tries + 1) else Inl e)"
  by pat_completeness auto
termination by (relation "measure (\<lambda>(raft, op, tries). RETRY_LIMIT - tries)") auto

declare membership_tries.simps [simp del]

definition membership_write :: "'m raft_node_api \<Rightarrow> membership_op \<Rightarrow> membership_error + 'm" where
  "membership_write raft op = membership_tries raft op 0"

record join_req =
  jr_node_id :: nat
  jr_http_addr :: string
  jr_raft_addr :: string

text \<open>A refusal with the address of the leader in its details, where there is one.\<close>

type_synonym refusal = "reject \<times> string option"

definition refused :: "error_kind \<Rightarrow> refusal" where
  "refused k = (api_error (err k), None)"

definition addr_checked :: "string \<Rightarrow> bool" where
  "addr_checked addr \<longleftrightarrow> trim addr \<noteq> [] \<and> length (split_all CHR '':'' (trim addr)) = 2"

definition leader_http_addr :: "raft_metrics \<Rightarrow> string option" where
  "leader_http_addr m = (case mt_leader m of None \<Rightarrow> None | Some l \<Rightarrow> map_option rn_http_addr (map_of (mt_nodes m) l))"

definition join_error :: "raft_metrics \<Rightarrow> membership_error \<Rightarrow> refusal" where
  "join_error m e = (case e of
     Forward_To_Leader node \<Rightarrow> (Reject 428 ''ERR_LEADER_REDIRECT'',
       Some (case node of Some h \<Rightarrow> h | None \<Rightarrow> (case leader_http_addr m of Some h \<Rightarrow> h | None \<Rightarrow> [])))
   | _ \<Rightarrow> refused Internal)"

definition cluster_join ::
  "caller \<Rightarrow> string option \<Rightarrow> string option \<Rightarrow> (raft_metrics \<times> 'm raft_node_api) option \<Rightarrow> join_req \<Rightarrow>
     command list \<times> (refusal + nat \<times> bool)" where
  "cluster_join c token auth raft req =
     (if \<not> join_token_ok token auth then ([], Inl (Reject 401 ''ERR_UNAUTHORIZED'', None))
      else (case raft of
          None \<Rightarrow> ([], Inl (refused NotFound))
        | Some (m, api) \<Rightarrow>
            (let member = (jr_node_id req \<in> fst ` set (mt_nodes m)) in
             if member \<and> jr_node_id req \<in> set (mt_voters m) then ([], Inl (refused Conflict))
             else if \<not> addr_checked (jr_http_addr req) \<or> \<not> addr_checked (jr_raft_addr req) then ([], Inl (refused Validation))
             else (case membership_write api (Add_Learner (jr_node_id req)
                 \<lparr>ni_grpc_addr = [], ni_http_addr = jr_http_addr req, ni_raft_addr = jr_raft_addr req\<rparr>) of
                 Inl e \<Rightarrow> ([], Inl (join_error m e))
               | Inr resp \<Rightarrow> ([operator_audit c ''admin'' ''cluster_join'' None
                     [(''node_id'', JInt (int (jr_node_id req))), (''rejoined'', JBool member)]],
                   Inr (jr_node_id req, member))))))"

definition voters_json :: "nat list \<Rightarrow> json" where
  "voters_json vs = JArr (map (\<lambda>v. JInt (int v)) vs)"

definition promoted_voters :: "raft_metrics \<Rightarrow> nat \<Rightarrow> nat list" where
  "promoted_voters m n = (if n \<in> set (mt_voters m) then mt_voters m else mt_voters m @ [n])"

definition cluster_promote ::
  "caller \<Rightarrow> (raft_metrics \<times> 'm raft_node_api) option \<Rightarrow> nat \<Rightarrow> command list \<times> (refusal + nat list)" where
  "cluster_promote c raft n = (case raft of
     None \<Rightarrow> ([], Inl (refused NotFound))
   | Some (m, api) \<Rightarrow> (case membership_write api (Replace_Voters (promoted_voters m n)) of
         Inl e \<Rightarrow> ([], Inl (refused Internal))
       | Inr resp \<Rightarrow> ([operator_audit c ''admin'' ''cluster_promote'' None [(''voters'', voters_json (promoted_voters m n))]],
           Inr (promoted_voters m n))))"

text \<open>\<open>m'\<close>: the metrics after the change.\<close>

definition removal :: "raft_metrics \<Rightarrow> nat \<Rightarrow> membership_op option" where
  "removal m n = (if n \<in> set (mt_voters m) then Some (Remove_Voters {n})
     else if n \<in> fst ` set (mt_nodes m) then Some (Remove_Nodes {n}) else None)"

definition cluster_remove ::
  "caller \<Rightarrow> (raft_metrics \<times> 'm raft_node_api) option \<Rightarrow> raft_metrics \<Rightarrow> nat \<Rightarrow> command list \<times> (refusal + nat list)" where
  "cluster_remove c raft m' n = (case raft of
     None \<Rightarrow> ([], Inl (refused NotFound))
   | Some (m, api) \<Rightarrow> (case removal m n of
         None \<Rightarrow> ([], Inl (refused Validation))
       | Some op \<Rightarrow> (case membership_write api op of
             Inl e \<Rightarrow> ([], Inl (refused Internal))
           | Inr resp \<Rightarrow> ([operator_audit c ''admin'' ''cluster_remove'' None
                 [(''node_id'', JInt (int n)), (''voters'', voters_json (mt_voters m'))]], Inr (mt_voters m')))))"

section \<open>The overview of the members\<close>

definition replication_lag :: "nat option \<Rightarrow> nat option \<Rightarrow> nat option" where
  "replication_lag matched last_log = map_option (\<lambda>i. (case last_log of None \<Rightarrow> 0 | Some l \<Rightarrow> l) - i) matched"

record member_page =
  mp_node_id :: string
  mp_grpc_addr :: string
  mp_http_addr :: string
  mp_is_leader :: bool
  mp_is_voter :: bool
  mp_last_applied :: "nat option"
  mp_lag :: "nat option"
  mp_heartbeat_ago :: "nat option"

text \<open>Replication and heartbeats, known to the leader only, by node.\<close>

record leader_metrics =
  lm_replication :: "(nat \<Rightarrow> nat option) option"
  lm_heartbeat :: "(nat \<Rightarrow> nat option) option"

definition cluster_members_json :: "raft_metrics \<Rightarrow> leader_metrics \<Rightarrow> member_page list" where
  "cluster_members_json m lm = map (\<lambda>(i, n).
     (let matched = (case lm_replication lm of None \<Rightarrow> None | Some f \<Rightarrow> f i) in
      \<lparr>mp_node_id = dec_string i, mp_grpc_addr = rn_grpc_addr n, mp_http_addr = rn_http_addr n,
        mp_is_leader = (Some i = mt_leader m), mp_is_voter = (i \<in> set (mt_voters m)), mp_last_applied = matched,
        mp_lag = replication_lag matched (mt_last_log m),
        mp_heartbeat_ago = (case lm_heartbeat lm of None \<Rightarrow> None | Some f \<Rightarrow> f i)\<rparr>)) (mt_nodes m)"

definition cluster_members :: "(raft_metrics \<times> leader_metrics) option \<Rightarrow> refusal + member_page list" where
  "cluster_members raft = (case raft of None \<Rightarrow> Inl (refused NotFound) | Some (m, lm) \<Rightarrow> Inr (cluster_members_json m lm))"

section \<open>Forwarding writes to the leader\<close>

text \<open>
  A reply with what the layer looks at: the status, the address of the leader in the details of its body if that
  parses, and where it was forwarded to. \<open>send\<close>: the answer of the leader at an address, if there is one.
\<close>

record response =
  rs_status :: nat
  rs_leader_hint :: "string option"
  rs_body :: string
  rs_forwarded_to :: "string option"

definition MAX_BODY :: nat where "MAX_BODY = 2 * 1024 * 1024"

definition forward_eligible :: "string \<Rightarrow> string \<Rightarrow> bool" where
  "forward_eligible method path \<longleftrightarrow> method \<in> {''POST'', ''PUT'', ''PATCH'', ''DELETE''} \<and> starts_with path ''/api/v1/'' \<and>
     path \<noteq> ''/api/v1/login'' \<and> path \<noteq> ''/api/v1/admin/rotate-master-key'' \<and> path \<noteq> ''/api/v1/cluster/join''"

definition forward_target :: "string \<Rightarrow> string \<Rightarrow> string option \<Rightarrow> string" where
  "forward_target hint path query = with_scheme hint @ path @ (case query of None \<Rightarrow> [] | Some q \<Rightarrow> ''?'' @ q)"

definition forward_leader_writes ::
  "string \<Rightarrow> string \<Rightarrow> string option \<Rightarrow> string \<Rightarrow> (string \<Rightarrow> response) \<Rightarrow> (string \<Rightarrow> string \<Rightarrow> response option) \<Rightarrow> response" where
  "forward_leader_writes method path query body inner send =
     (if \<not> forward_eligible method path then inner body
      else if MAX_BODY < length body then inner []
      else (let r = inner body in
        if rs_status r \<noteq> 428 then r
        else (case rs_leader_hint r of
            None \<Rightarrow> r
          | Some hint \<Rightarrow>
              if hint = [] then r
              else (case send (forward_target hint path query) body of
                  None \<Rightarrow> r
                | Some a \<Rightarrow> a\<lparr>rs_forwarded_to := Some (forward_target hint path query)\<rparr>))))"

section \<open>What an accepted seed map is\<close>

definition seed_ok :: "seed_map \<Rightarrow> bool" where
  "seed_ok m \<longleftrightarrow> (\<forall>n x. bm_get m n = Some x \<longrightarrow> 0 < n \<and> n < 2 ^ 64 \<and>
       validate_seed_addr (ni_raft_addr x) = Inr () \<and> validate_seed_addr (ni_http_addr x) = Inr ()) \<and>
     (\<forall>n x k y. bm_get m n = Some x \<longrightarrow> bm_get m k = Some y \<longrightarrow> n \<noteq> k \<longrightarrow>
       ni_raft_addr x \<noteq> ni_raft_addr y \<and> ni_http_addr x \<noteq> ni_http_addr y)"

definition seeds_ok :: "seeds \<Rightarrow> bool" where
  "seeds_ok st \<longleftrightarrow> (case st of (m, rafts, https) \<Rightarrow> seed_ok m \<and>
     (\<forall>n x. bm_get m n = Some x \<longrightarrow> ni_raft_addr x \<in> rafts \<and> ni_http_addr x \<in> https))"

lemma parse_unsigned_bound: "parse_unsigned b s = Some n \<Longrightarrow> n \<le> b"
  by (auto simp: parse_unsigned_def Let_def split: if_splits)

lemma map_error_Inr [simp]: "map_error f r = Inr x \<longleftrightarrow> r = Inr x"
  by (cases r) (auto simp: map_error_def)

lemma seed_entry_cases:
  assumes "seed_entry (i, raw) (m, rafts, https) = Inr st'"
  obtains (skipped) "st' = (m, rafts, https)"
  | (added) n raft http where "0 < n" "n < 2 ^ 64" "validate_seed_addr raft = Inr ()" "validate_seed_addr http = Inr ()"
      "raft \<notin> rafts" "http \<notin> https"
      "st' = (bm_insert n \<lparr>ni_grpc_addr = [], ni_http_addr = http, ni_raft_addr = raft\<rparr> m, insert raft rafts, insert http https)"
proof (cases "trim raw = []")
  case True
  then show thesis using skipped assms by (simp add: seed_entry_def)
next
  case False
  obtain i_str raft http where parts: "split_all CHR ''@'' (trim raw) = [i_str, raft, http]"
    using assms False by (auto simp: seed_entry_def Let_def split: list.splits)
  obtain n where n: "parse_u64 (trim i_str) = Some n"
    using assms False by (auto simp: seed_entry_def Let_def parts split: option.splits)
  have "n \<le> 2 ^ 64 - 1" using parse_unsigned_bound n unfolding parse_u64_def by blast
  then have "n < 2 ^ 64" by simp
  then show thesis using added [of n raft http] assms False by (auto simp: seed_entry_def Let_def parts n split: if_splits)
qed

lemma seed_entry_ok:
  assumes "seed_entry x st = Inr st'" "seeds_ok st"
  shows "seeds_ok st'"
proof -
  obtain i raw m rafts https where st: "x = (i, raw)" "st = (m, rafts, https)" by (metis prod_cases3 surj_pair)
  from assms(1) [unfolded st] show ?thesis
  proof (cases rule: seed_entry_cases)
    case skipped
    then show ?thesis using assms(2) st by simp
  next
    case (added n raft http)
    have m: "seed_ok m" "bm_get m k = Some y \<Longrightarrow> ni_raft_addr y \<noteq> raft \<and> ni_http_addr y \<noteq> http" for k y
      using assms(2) added(5,6) by (auto simp: st seeds_ok_def)
    then have "seed_ok (bm_insert n \<lparr>ni_grpc_addr = [], ni_http_addr = http, ni_raft_addr = raft\<rparr> m)"
      using added(1-4) unfolding seed_ok_def bm_get_insert by (intro conjI allI impI) (metis node_info.select_convs(2,3) option.inject)+
    then show ?thesis using assms(2) by (auto simp: added(7) st seeds_ok_def split: if_splits)
  qed
qed

text \<open>The identifiers are positive 64-bit numbers, the addresses have a host and a port, and no two nodes share one.\<close>

lemma parsed_seeds_ok:
  assumes "parse_bootstrap_peers raw = Inr m"
  shows "m \<noteq> bm_empty \<and> seed_ok m"
proof -
  obtain rafts https where "foldE seed_entry (let xs = split_all CHR '','' raw in zip [1..<length xs + 1] xs) (bm_empty, {}, {}) =
      Inr (m, rafts, https)" "m \<noteq> bm_empty"
    using assms by (auto simp: parse_bootstrap_peers_def split: if_splits)
  moreover have "seeds_ok (bm_empty, {}, {})" by (simp add: seeds_ok_def seed_ok_def)
  ultimately show ?thesis
    using foldE_invariant [of seed_entry _ "(bm_empty, {}, {})" "(m, rafts, https)" seeds_ok] seed_entry_ok
    by (fastforce simp: seeds_ok_def)
qed

text \<open>A node with a state never forms a cluster and never joins one again.\<close>

lemma resumes_with_state:
  assumes "start_of True bootstrap peers join node_id raft_addr http_addr persisted = Inr st"
  shows "\<exists>d. st = Resume d"
  using assms by (auto simp: start_of_def split: if_splits option.splits)

text \<open>A node that forms a cluster from seeds is one of them, under the addresses it listens at.\<close>

lemma seeded_is_member:
  assumes "start_of False bootstrap (Some raw) join node_id raft_addr http_addr persisted = Inr (Seeded m)"
  shows "seed_ok m \<and> (\<exists>x. bm_get m node_id = Some x \<and> ni_raft_addr x = raft_addr \<and> ni_http_addr x = http_addr)"
  using assms parsed_seeds_ok
  by (auto simp: start_of_def validate_bootstrap_peers_def split: if_splits option.splits)

text \<open>No difference is reported exactly when the addresses agree at every identifier.\<close>

lemma membership_diff_None:
  "membership_diff seed members = None \<longleftrightarrow> (\<forall>i. map_option (\<lambda>x. (ni_raft_addr x, ni_http_addr x)) (bm_get seed i) =
     map_option (\<lambda>x. (ni_raft_addr x, ni_http_addr x)) (bm_get members i))" (is "_ \<longleftrightarrow> (\<forall>i. ?same i)")
proof -
  let ?a = "\<lambda>i x. \<exists>c. bm_get members i = Some c \<and> ni_raft_addr c = ni_raft_addr x \<and> ni_http_addr c = ni_http_addr x"
  let ?f = "\<lambda>(i, node). case bm_get members i of None \<Rightarrow> [Only_Seed i] | Some cur \<Rightarrow>
      (if ni_raft_addr cur \<noteq> ni_raft_addr node then [Raft_Differs i] else []) @
      (if ni_http_addr cur \<noteq> ni_http_addr node then [Http_Differs i] else [])"
  let ?g = "\<lambda>(i, node :: node_info). if bm_has seed i then [] else [Only_Cluster i]"
  have nil: "concat (map h xs) = [] \<longleftrightarrow> (\<forall>x \<in> set xs. h x = [])" for h :: "nat \<times> node_info \<Rightarrow> member_diff list" and xs
    by (induction xs) auto
  have "?f p = [] \<longleftrightarrow> (case p of (i, x) \<Rightarrow> ?a i x)" "?g p = [] \<longleftrightarrow> (case p of (i, x) \<Rightarrow> bm_has seed i)" for p
    by (auto split: prod.splits option.splits)
  note fg = this
  have "membership_diff seed members = None \<longleftrightarrow> concat (map ?f (bm_entries seed)) = [] \<and> concat (map ?g (bm_entries members)) = []"
    unfolding membership_diff_def Let_def append_is_Nil_conv by (simp only: split: if_split) simp
  also have "\<dots> \<longleftrightarrow> (\<forall>(i, x) \<in> set (bm_entries seed). ?a i x) \<and> (\<forall>(i, x) \<in> set (bm_entries members). bm_has seed i)"
    unfolding nil fg ..
  also have "\<dots> \<longleftrightarrow> (\<forall>i x. bm_get seed i = Some x \<longrightarrow> ?a i x) \<and> (\<forall>i x. bm_get members i = Some x \<longrightarrow> bm_has seed i)"
    by (simp add: Ball_def bm_entries_get split_paired_All)
  also have "\<dots> \<longleftrightarrow> (\<forall>i. (\<forall>x. bm_get seed i = Some x \<longrightarrow> ?a i x) \<and> (\<forall>x. bm_get members i = Some x \<longrightarrow> bm_has seed i))" by blast
  also have "\<dots> \<longleftrightarrow> (\<forall>i. ?same i)"
  proof (intro all_cong1)
    fix i
    show "(\<forall>x. bm_get seed i = Some x \<longrightarrow> ?a i x) \<and> (\<forall>x. bm_get members i = Some x \<longrightarrow> bm_has seed i) \<longleftrightarrow> ?same i"
      by (cases "bm_get seed i"; cases "bm_get members i") (auto simp: bm_has_def)
  qed
  finally show ?thesis .
qed

section \<open>Retries of a change\<close>

text \<open>The result is the answer to one of the first eight attempts, each before it was told to wait.\<close>

lemma membership_tries_result:
  assumes "tries < RETRY_LIMIT"
  shows "\<exists>k. tries < k \<and> k \<le> RETRY_LIMIT \<and> membership_tries raft op tries = raft k op \<and>
    (\<forall>j. tries < j \<and> j < k \<longrightarrow> raft j op = Inl In_Progress) \<and> (raft k op = Inl In_Progress \<longrightarrow> k = RETRY_LIMIT)"
  using assms
proof (induction raft op tries rule: membership_tries.induct)
  case (1 raft op tries)
  show ?case
  proof (cases "tries + 1 < RETRY_LIMIT \<and> raft (tries + 1) op = Inl In_Progress")
    case True
    then obtain k where k: "tries + 1 < k" "k \<le> RETRY_LIMIT" "membership_tries raft op (tries + 1) = raft k op"
      "\<forall>j. tries + 1 < j \<and> j < k \<longrightarrow> raft j op = Inl In_Progress" "raft k op = Inl In_Progress \<longrightarrow> k = RETRY_LIMIT"
      using 1(1) [of In_Progress] by (auto simp: is_membership_in_progress_def)
    moreover have "raft j op = Inl In_Progress" if "tries < j" "j < k" for j
      using k(4) True that by (cases "j = tries + 1") auto
    ultimately show ?thesis using True
      by (subst membership_tries.simps) (auto simp: is_membership_in_progress_def intro!: exI [of _ k])
  next
    case False
    then have "membership_tries raft op tries = raft (tries + 1) op"
      by (subst membership_tries.simps) (auto simp: is_membership_in_progress_def split: sum.splits)
    then show ?thesis using 1(2) False by (auto intro!: exI [of _ "tries + 1"])
  qed
qed

lemma membership_write_result:
  "\<exists>k. 0 < k \<and> k \<le> RETRY_LIMIT \<and> membership_write raft op = raft k op \<and> (\<forall>j. 0 < j \<and> j < k \<longrightarrow> raft j op = Inl In_Progress) \<and>
     (raft k op = Inl In_Progress \<longrightarrow> k = RETRY_LIMIT)"
  unfolding membership_write_def by (rule membership_tries_result) (simp add: RETRY_LIMIT_def)

text \<open>
  A promotion proposes the voters there were before it began. If it waits for another promotion and the Raft node
  then puts the proposed voters in place, the node promoted in between is a voter no more.
\<close>

lemma waiting_promotion_undoes_the_other:
  assumes "api 1 (Replace_Voters (promoted_voters m n)) = Inl In_Progress" "\<And>vs. api 2 (Replace_Voters vs) = Inr (vs :: nat list)"
    and "other \<notin> set (mt_voters m)" "other \<noteq> n"
  shows "\<exists>vs. cluster_promote c (Some (m, api)) n = ([operator_audit c ''admin'' ''cluster_promote'' None [(''voters'', voters_json vs)]], Inr vs) \<and>
    membership_write api (Replace_Voters (promoted_voters m n)) = Inr vs \<and> other \<notin> set vs"
proof -
  have "membership_write api (Replace_Voters (promoted_voters m n)) = Inr (promoted_voters m n)"
    using assms(1,2) by (simp add: membership_write_def membership_tries.simps [of _ _ 0] membership_tries.simps [of _ _ "Suc 0"]
        RETRY_LIMIT_def is_membership_in_progress_def numeral_2_eq_2)
  then show ?thesis using assms(3,4) by (simp add: cluster_promote_def) (simp add: promoted_voters_def)
qed

text \<open>At a follower a join names the leader; a promotion or removal is answered as an internal error, which nobody forwards.\<close>

lemma follower_answers:
  assumes "\<And>n op. api n op = Inl (Forward_To_Leader (Some leader))"
  shows "join_token_ok token auth \<Longrightarrow> jr_node_id req \<notin> set (mt_voters m) \<Longrightarrow> addr_checked (jr_http_addr req) \<Longrightarrow>
      addr_checked (jr_raft_addr req) \<Longrightarrow>
      cluster_join c token auth (Some (m, api)) req = ([], Inl (Reject 428 ''ERR_LEADER_REDIRECT'', Some leader))"
    "cluster_promote c (Some (m, api)) n = ([], Inl (refused Internal))"
    "removal m n \<noteq> None \<Longrightarrow> cluster_remove c (Some (m, api)) m' n = ([], Inl (refused Internal))"
proof -
  have "membership_write api op = Inl (Forward_To_Leader (Some leader))" for op
    using assms by (simp add: membership_write_def membership_tries.simps [of _ _ 0] is_membership_in_progress_def)
  then show "join_token_ok token auth \<Longrightarrow> jr_node_id req \<notin> set (mt_voters m) \<Longrightarrow> addr_checked (jr_http_addr req) \<Longrightarrow>
      addr_checked (jr_raft_addr req) \<Longrightarrow>
      cluster_join c token auth (Some (m, api)) req = ([], Inl (Reject 428 ''ERR_LEADER_REDIRECT'', Some leader))"
    "cluster_promote c (Some (m, api)) n = ([], Inl (refused Internal))"
    "removal m n \<noteq> None \<Longrightarrow> cluster_remove c (Some (m, api)) m' n = ([], Inl (refused Internal))"
    by (auto simp: cluster_join_def join_error_def cluster_promote_def cluster_remove_def Let_def)
qed

text \<open>What is not a write, and every reply but a redirect, is left alone; a write goes to the leader at most once.\<close>

lemma forwarded_only_on_redirect:
  assumes "forward_leader_writes method path query body inner send \<noteq> inner body"
  shows "forward_eligible method path \<and> (MAX_BODY < length body \<or>
    (\<exists>hint a. rs_status (inner body) = 428 \<and> rs_leader_hint (inner body) = Some hint \<and> hint \<noteq> [] \<and>
       send (forward_target hint path query) body = Some a \<and>
       forward_leader_writes method path query body inner send = a\<lparr>rs_forwarded_to := Some (forward_target hint path query)\<rparr>))"
  using assms by (auto simp: forward_leader_writes_def Let_def split: if_splits option.splits)

end
