(* ===== verification/Apply_Stream.thy ===== *)
theory Apply_Stream
  imports Install "HOL-Library.Multiset"
begin

text \<open>
  The driver of the state machine (dsh-raft \<open>store.rs\<close>: \<open>apply\<close>, \<open>apply_entry\<close>): the Raft core hands over a stream
  of committed entries, some with a responder behind which a client waits. Each entry is applied and answered, its
  events go to the watchers, and a failure of the storage stops the stream. The durable effect of an entry is that of
  \<open>apply_log_entry\<close>; here are its answer and its events.
\<close>

section \<open>One entry\<close>

text \<open>
  The hook that the code calls after a rotation of the master key does not touch the node; it is
  \<open>cluster_rotation_hook\<close> of \<open>Crypto\<close>. The poisoned lock of a crashed thread is not modelled.
\<close>

record write_ack =
  wa_version :: nat
  wa_events :: "publish_event list"

definition default_ack :: write_ack where
  "default_ack = \<lparr>wa_version = 0, wa_events = []\<rparr>"

text \<open>The result of a durable write as a value.\<close>

definition outcome_of_write :: "('mb, 'a) act \<Rightarrow> ('mb, fault_reason + 'a) act" where
  "outcome_of_write p = catch (seq p (\<lambda>x. ret (Inr x))) (\<lambda>e. ret (Inl e))"

type_synonym applied_entry = "write_ack res \<times> publish_event list \<times> fault_reason option"

text \<open>The position is written last; if that fails the client is told so, and the events stay.\<close>

definition finish_entry :: "log_id \<Rightarrow> write_ack res \<Rightarrow> publish_event list \<Rightarrow> ('mb, applied_entry) act" where
  "finish_entry lid resp events = seq (outcome_of_write (durably Io (\<lambda>n. n\<lparr>applied := Some lid\<rparr>))) (\<lambda>w. case w of
     Inr u \<Rightarrow> ret (resp, events, None)
   | Inl e \<Rightarrow> ret (Inl (err Internal), events, Some e))"

definition ack_of :: "publish_event list \<Rightarrow> write_ack" where
  "ack_of events = \<lparr>wa_version = (case events of [] \<Rightarrow> 0 | e # es \<Rightarrow> ev_version e), wa_events = events\<rparr>"

definition answer_entry :: "ext \<Rightarrow> log_id \<Rightarrow> 'mb payload \<Rightarrow> ('mb, applied_entry) act" where
  "answer_entry E lid pl = (case pl of
     Membership m \<Rightarrow> seq (outcome_of_write (durably Io (\<lambda>n. n\<lparr>membership := Some m\<rparr>))) (\<lambda>w. case w of
         Inr u \<Rightarrow> finish_entry lid (Inr default_ack) []
       | Inl e \<Rightarrow> ret (Inl (err Internal), [], Some e))
   | Blank \<Rightarrow> finish_entry lid (Inr default_ack) []
   | Normal c \<Rightarrow> seq (outcome_of_write (entry_writes E (li_index lid) c)) (\<lambda>w. case w of
         Inl e \<Rightarrow> finish_entry lid (Inl (err Storage)) []
       | Inr (Inr events) \<Rightarrow> finish_entry lid (Inr (ack_of events)) events
       | Inr (Inl e) \<Rightarrow> finish_entry lid (Inl e) []))"

section \<open>The stream\<close>

text \<open>An item of the stream is an entry, with a responder if a client waits here, or a failure of the log reader.\<close>

datatype ('mb, 'r) item = Reader_Error | Entry log_id "'mb payload" "'r option"

type_synonym 'r answers = "('r \<times> write_ack res) list"

definition answer_to :: "'r option \<Rightarrow> write_ack res \<Rightarrow> 'r answers" where
  "answer_to r resp = (case r of None \<Rightarrow> [] | Some x \<Rightarrow> [(x, resp)])"

fun responders :: "('mb, 'r) item list \<Rightarrow> 'r list" where
  "responders [] = []"
| "responders (Reader_Error # xs) = responders xs"
| "responders (Entry lid pl r # xs) = (case r of None \<Rightarrow> [] | Some x \<Rightarrow> [x]) @ responders xs"

text \<open>What is left of the stream is answered with an error.\<close>

definition drain_items :: "('mb, 'r) item list \<Rightarrow> 'r answers" where
  "drain_items xs = map (\<lambda>r. (r, Inl (err Internal))) (responders xs)"

text \<open>The loop gives the events, the answers held back, the rest of the stream and the failure that stopped it.\<close>

fun apply_loop ::
  "ext \<Rightarrow> ('mb, 'r) item list \<Rightarrow> ('mb, publish_event list \<times> 'r answers \<times> ('mb, 'r) item list \<times> fault_reason option) act" where
  "apply_loop E [] = ret ([], [], [], None)"
| "apply_loop E (Reader_Error # xs) = ret ([], [], xs, Some Io)"
| "apply_loop E (Entry lid pl r # xs) = seq (answer_entry E lid pl) (\<lambda>(resp, events, hard). case hard of
     Some h \<Rightarrow> ret (events, answer_to r resp, xs, Some h)
   | None \<Rightarrow> seq (apply_loop E xs) (\<lambda>(es, answers, rest, stop). ret (events @ es, answer_to r resp @ answers, rest, stop)))"

text \<open>Answers in the order they are sent, events in the order they are broadcast, and what the Raft core is told.\<close>

definition apply_stream ::
  "ext \<Rightarrow> ('mb, 'r) item list \<Rightarrow> ('mb, 'r answers \<times> publish_event list \<times> (fault_reason + unit)) act" where
  "apply_stream E items = seq (reads poisoned) (\<lambda>p.
     if p then ret (drain_items items, [], Inl Poisoned)
     else seq (apply_loop E items) (\<lambda>(events, answers, rest, stop).
       ret (drain_items rest @ answers, events, case stop of None \<Rightarrow> Inr () | Some e \<Rightarrow> Inl e)))"

section \<open>The durable effect\<close>

lemma delete_each_keep:
  "delete_each ks fs n = (fs', n', r) \<Longrightarrow> poisoned n' = poisoned n \<and> applied n' = applied n"
  by (induction ks arbitrary: fs n) (auto simp: ret_def seq_def durably_def split: list.splits fault.splits)

lemma entry_writes_keep:
  assumes "entry_writes E i c fs n = (fs', n', r)"
  shows "poisoned n' = poisoned n" "applied n' = applied n"
proof -
  let ?ks = "entry_deletes i c (kv n)"
  obtain fs1 n1 r1 where dels: "delete_each ?ks fs n = (fs1, n1, r1)" by (cases "delete_each ?ks fs n") auto
  have "poisoned n' = poisoned n1 \<and> applied n' = applied n1"
    using assms dels
    by (cases r1) (auto simp: entry_writes_def seq_def reads_def ret_def durably_def split: if_splits list.splits fault.splits)
  then show "poisoned n' = poisoned n" "applied n' = applied n" using delete_each_keep [OF dels] by simp_all
qed

text \<open>An entry leaves the node as \<open>apply_log_entry\<close> does; it stops the stream exactly when that fails.\<close>

lemma answer_entry_effect:
  assumes "\<not> poisoned n" "answer_entry E lid pl fs n = (fs', n', r)"
  obtains (applied) a where "r = Done a" "snd (snd a) = None" "apply_log_entry E lid pl fs n = (fs', n', Done ())" "applied n' = Some lid" "\<not> poisoned n'"
  | (stopped) a e where "r = Done a" "snd (snd a) = Some e" "fst a = Inl (err Internal)"
      "apply_log_entry E lid pl fs n = (fs', n', Err e)" "applied n' = applied n"
  | (crashed) "r = Crashed" "apply_log_entry E lid pl fs n = (fs', n', Crashed)"
proof -
  note defs = apply_log_entry_def answer_entry_def finish_entry_def outcome_of_write_def catch_def seq_def reads_def ret_def
    durably_def try_durably_def
  have "(\<exists>a. r = Done a \<and> snd (snd a) = None \<and> apply_log_entry E lid pl fs n = (fs', n', Done ()) \<and> applied n' = Some lid \<and> \<not> poisoned n') \<or>
      (\<exists>a e. r = Done a \<and> snd (snd a) = Some e \<and> fst a = Inl (err Internal) \<and> apply_log_entry E lid pl fs n = (fs', n', Err e) \<and>
        applied n' = applied n) \<or>
      r = Crashed \<and> apply_log_entry E lid pl fs n = (fs', n', Crashed)"
  proof (cases pl)
    case Blank
    then show ?thesis using assms by (auto simp: defs split: list.splits fault.splits)
  next
    case (Normal c)
    obtain fs1 n1 r1 where w: "entry_writes E (li_index lid) c fs n = (fs1, n1, r1)"
      by (cases "entry_writes E (li_index lid) c fs n") auto
    then have "poisoned n1 = poisoned n" "applied n1 = applied n" by (rule entry_writes_keep)+
    then show ?thesis using assms Normal w
      by (cases r1) (auto simp: defs split: list.splits fault.splits sum.splits)
  next
    case (Membership m)
    then show ?thesis using assms by (auto simp: defs split: list.splits fault.splits)
  qed
  then show thesis using applied stopped crashed by blast
qed

text \<open>An acknowledgement of an entry has its events.\<close>

lemma finish_entry_ack:
  assumes "finish_entry lid resp0 events0 fs n = (fs', n', Done (resp, events, hard))" "resp = Inr ack"
  shows "resp0 = Inr ack \<and> events = events0 \<and> hard = None"
  using assms
  by (auto simp: finish_entry_def outcome_of_write_def catch_def seq_def ret_def durably_def split: list.splits fault.splits)

lemma answer_entry_ack:
  assumes "answer_entry E lid pl fs n = (fs', n', Done (resp, events, hard))" "resp = Inr ack"
  shows "wa_events ack = events \<and> hard = None"
  using assms
  by (auto simp: answer_entry_def outcome_of_write_def catch_def seq_def ret_def ack_of_def default_ack_def
      dest!: finish_entry_ack [OF _ refl] split: payload.splits prod.splits ending.splits sum.splits)

section \<open>Every client is answered\<close>

text \<open>The position after a list of applied entries.\<close>

fun position_after :: "('mb, 'r) item list \<Rightarrow> log_id option \<Rightarrow> log_id option" where
  "position_after [] a = a"
| "position_after (Entry lid pl r # xs) a = position_after xs (Some lid)"
| "position_after (Reader_Error # xs) a = position_after xs a"

lemma responders_append [simp]: "responders (xs @ ys) = responders xs @ responders ys"
  by (induction xs rule: responders.induct) auto

lemma answer_to_responders [simp]: "map fst (answer_to r resp) = (case r of None \<Rightarrow> [] | Some x \<Rightarrow> [x])"
  by (simp add: answer_to_def split: option.splits)

lemma drained: "map fst (drain_items xs) = responders xs"
  by (simp add: drain_items_def comp_def)

text \<open>\<open>stream_done\<close>: the entries applied, the item that stopped the stream, the rest, and what was answered.\<close>

definition stream_done ::
  "('mb, 'r) item list \<Rightarrow> 'mb node \<Rightarrow> 'mb node \<Rightarrow> publish_event list \<Rightarrow> 'r answers \<Rightarrow> ('mb, 'r) item list \<Rightarrow> fault_reason option \<Rightarrow> bool" where
  "stream_done items n n' events answers rest stop \<longleftrightarrow> (\<exists>past stopper. items = past @ stopper @ rest \<and> Reader_Error \<notin> set past \<and>
     length stopper = (if stop = None then 0 else 1) \<and> (stop = None \<longrightarrow> rest = []) \<and>
     map fst answers = responders (past @ stopper) \<and> applied n' = position_after past (applied n) \<and>
     (\<forall>r ack. (r, Inr ack) \<in> set answers \<longrightarrow> (\<exists>lid pl. Entry lid pl (Some r) \<in> set past) \<and> set (wa_events ack) \<subseteq> set events))"

lemma stream_doneE:
  assumes "stream_done items n n' events answers rest stop"
  obtains past stopper where "items = past @ stopper @ rest" "Reader_Error \<notin> set past"
    "length stopper = (if stop = None then 0 else 1)" "stop = None \<longrightarrow> rest = []"
    "map fst answers = responders (past @ stopper)" "applied n' = position_after past (applied n)"
    "\<forall>r ack. (r, Inr ack) \<in> set answers \<longrightarrow> (\<exists>lid pl. Entry lid pl (Some r) \<in> set past) \<and> set (wa_events ack) \<subseteq> set events"
  using assms unfolding stream_done_def by (elim exE conjE) (rule that)

lemma apply_loop_done:
  assumes "\<not> poisoned n" "apply_loop E items fs n = (fs', n', out)"
  shows "(\<forall>e. out \<noteq> Err e) \<and> (\<forall>events answers rest stop. out = Done (events, answers, rest, stop) \<longrightarrow>
    stream_done items n n' events answers rest stop)"
  using assms
proof (induction E items arbitrary: fs n fs' n' out rule: apply_loop.induct)
  case (1 E)
  then show ?case by (auto simp: ret_def stream_done_def)
next
  case (2 E xs)
  have "stream_done (Reader_Error # xs) n n [] [] xs (Some Io)"
    unfolding stream_done_def by (intro exI [of _ "[]"] exI [of _ "[Reader_Error]"]) simp
  then show ?case using 2 by (auto simp: ret_def)
next
  case (3 E lid pl r xs)
  obtain fs1 n1 q where one: "answer_entry E lid pl fs n = (fs1, n1, q)" by (cases "answer_entry E lid pl fs n") auto
  note run = 3(3) [unfolded apply_loop.simps seq_def one prod.case]
  from 3(2) one show ?case
  proof (cases rule: answer_entry_effect)
    case (applied a)
    obtain resp events where a: "a = (resp, events, None)" using applied(2) by (cases a) auto
    obtain fs2 n2 q2 where two: "apply_loop E xs fs1 n1 = (fs2, n2, q2)" by (cases "apply_loop E xs fs1 n1") auto
    have IH: "(\<forall>e. q2 \<noteq> Err e) \<and> (\<forall>events answers rest stop. q2 = Done (events, answers, rest, stop) \<longrightarrow>
        stream_done xs n1 n2 events answers rest stop)"
      by (rule 3(1) [OF applied(5) two])
    show ?thesis
    proof (cases q2)
      case (Done z)
      obtain es answers rest stop where z: "z = (es, answers, rest, stop)" by (cases z) auto
      obtain past stopper where d: "xs = past @ stopper @ rest" "Reader_Error \<notin> set past"
        "length stopper = (if stop = None then 0 else 1)" "stop = None \<longrightarrow> rest = []"
        "map fst answers = responders (past @ stopper)" "applied n2 = position_after past (applied n1)"
        "\<forall>r ack. (r, Inr ack) \<in> set answers \<longrightarrow> (\<exists>lid pl. Entry lid pl (Some r) \<in> set past) \<and> set (wa_events ack) \<subseteq> set es"
        by (rule stream_doneE [of xs n1 n2 es answers rest stop]) (use IH Done z in simp)
      have ack: "set (wa_events k) \<subseteq> set (events @ es)" if "resp = Inr k" for k
        using answer_entry_ack [OF one [unfolded applied(1) a] that] by simp
      have acks: "\<exists>lid' pl'. Entry lid' pl' (Some x) \<in> set (Entry lid pl r # past)" "set (wa_events k) \<subseteq> set (events @ es)"
        if told: "(x, Inr k) \<in> set (answer_to r resp @ answers)" for x k
      proof -
        consider "(x, Inr k) \<in> set answers" | "r = Some x" "resp = Inr k"
          using told by (auto simp: answer_to_def split: option.splits)
        then have "(\<exists>lid' pl'. Entry lid' pl' (Some x) \<in> set (Entry lid pl r # past)) \<and> set (wa_events k) \<subseteq> set (events @ es)"
        proof cases
          case 1
          then show ?thesis using d(7) by fastforce
        qed (use ack in auto)
        then show "\<exists>lid' pl'. Entry lid' pl' (Some x) \<in> set (Entry lid pl r # past)" "set (wa_events k) \<subseteq> set (events @ es)" by blast+
      qed
      have "stream_done (Entry lid pl r # xs) n n2 (events @ es) (answer_to r resp @ answers) rest stop"
        unfolding stream_done_def
        by (rule exI [of _ "Entry lid pl r # past"], rule exI [of _ stopper], intro conjI allI impI acks)
          (use d(1-6) applied(4) in simp_all)
      then show ?thesis using run two Done by (auto simp: applied(1) a z ret_def)
    qed (use run two IH in \<open>auto simp: applied(1) a\<close>)
  next
    case (stopped a e)
    obtain resp events where a: "a = (resp, events, Some e)" "resp = Inl (err Internal)" using stopped(2,3) by (cases a) auto
    have "stream_done (Entry lid pl r # xs) n n1 events (answer_to r resp) xs (Some e)"
      unfolding stream_done_def using stopped(5) a(2)
      by (intro exI [of _ "[]"] exI [of _ "[Entry lid pl r]"]) (auto simp: answer_to_def split: option.splits)
    then show ?thesis using run by (auto simp: stopped(1) a(1) ret_def)
  next
    case crashed
    then show ?thesis using run by auto
  qed
qed

text \<open>
  C19: The clients that wait behind the entries of a stream. Whatever the faults, the driver ends (or the process dies)
  and every responder of the stream has got exactly one answer, also behind the entry that failed, after it, and at
  a poisoned node. A success is only told for an entry that was applied with its position written, and its events
  go to the watchers. The position is that of the last such entry, and the Raft core is told of success only if
  every entry of the stream is one.
\<close>

theorem every_client_is_answered:
  assumes "apply_stream E items fs n = (fs', n', q)"
  shows "(\<forall>e. q \<noteq> Err e) \<and> (\<forall>sent events res. q = Done (sent, events, res) \<longrightarrow>
    mset (map fst sent) = mset (responders items) \<and>
    (\<exists>past rest. items = past @ rest \<and> Reader_Error \<notin> set past \<and> (res = Inr () \<longrightarrow> rest = []) \<and>
       (poisoned n \<longrightarrow> past = [] \<and> n' = n \<and> res = Inl Poisoned) \<and> applied n' = position_after past (applied n) \<and>
       (\<forall>r ack. (r, Inr ack) \<in> set sent \<longrightarrow> (\<exists>lid pl. Entry lid pl (Some r) \<in> set past) \<and> set (wa_events ack) \<subseteq> set events)))"
proof (cases "poisoned n")
  case True
  then have q: "q = Done (drain_items items, [], Inl Poisoned)" "n' = n"
    using assms by (simp_all add: apply_stream_def seq_def reads_def ret_def)
  have "mset (map fst (drain_items items)) = mset (responders items)" by (simp add: drained)
  moreover have "(r, Inr ack) \<notin> set (drain_items items)" for r ack by (auto simp: drain_items_def)
  ultimately show ?thesis unfolding q
    by (intro conjI allI impI) (simp, simp, rule exI [of _ "[]"], rule exI [of _ items], simp)
next
  case False
  obtain fs1 n1 r where loop: "apply_loop E items fs n = (fs1, n1, r)" by (cases "apply_loop E items fs n") auto
  note run = assms [unfolded apply_stream_def seq_def reads_def prod.case ending.case if_not_P [OF False] loop]
  note looped = apply_loop_done [OF False loop]
  show ?thesis
  proof (cases r)
    case (Done z)
    obtain events answers rest stop where z: "z = (events, answers, rest, stop)" by (cases z) auto
    obtain past stopper where d: "items = past @ stopper @ rest" "Reader_Error \<notin> set past"
        "length stopper = (if stop = None then 0 else 1)" "stop = None \<longrightarrow> rest = []"
        "map fst answers = responders (past @ stopper)" "applied n1 = position_after past (applied n)"
        "\<forall>r ack. (r, Inr ack) \<in> set answers \<longrightarrow> (\<exists>lid pl. Entry lid pl (Some r) \<in> set past) \<and> set (wa_events ack) \<subseteq> set events"
      by (rule stream_doneE [of items n n1 events answers rest stop]) (use looped Done z in simp)
    have q: "q = Done (drain_items rest @ answers, events, case stop of None \<Rightarrow> Inr () | Some e \<Rightarrow> Inl e)" "n' = n1"
      using run Done z by (auto simp: ret_def)
    show ?thesis
    proof (intro conjI allI impI, goal_cases)
      case (1 e)
      then show ?case using q by simp
    next
      case (2 sent events' res)
      then have "mset (map fst sent) = mset (map fst (drain_items rest) @ map fst answers)" using q by auto
      then show ?case by (simp only: drained d(5)) (simp add: d(1) ac_simps)
    next
      case (3 sent events' res)
      then have out: "sent = drain_items rest @ answers" "events' = events" "res = Inr () \<Longrightarrow> stop = None"
        using q by (auto split: option.splits)
      have "(r, Inr ack) \<in> set sent \<Longrightarrow> (r, Inr ack) \<in> set answers" for r ack unfolding out(1) by (auto simp: drain_items_def)
      moreover have "res = Inr () \<Longrightarrow> stopper @ rest = []" using d(3,4) out(3) by simp
      ultimately show ?case using d(1,2,6,7) False out(2) q(2) by (intro exI [of _ past] exI [of _ "stopper @ rest"]) blast
    qed
  qed (use run looped in auto)
qed

text \<open>Three clients; the storage fails at the second entry: the third is told first, then the two that were held back.\<close>

definition sample_items :: "(unit, nat) item list" where
  "sample_items = map (\<lambda>i. Entry \<lparr>li_term = 1, li_node = 1, li_index = i\<rparr> Blank (Some i)) [1, 2, 3]"

lemma sample_stream: "apply_stream sample_ext sample_items [Fine, Fails] fresh_node =
  ([], fresh_node\<lparr>applied := Some \<lparr>li_term = 1, li_node = 1, li_index = 1\<rparr>\<rparr>,
   Done ([(3, Inl (err Internal)), (1, Inr default_ack), (2, Inl (err Internal))], [], Inl Io))"
  by (simp add: apply_stream_def sample_items_def answer_entry_def finish_entry_def outcome_of_write_def catch_def seq_def
      reads_def ret_def durably_def fresh_node_def answer_to_def drain_items_def)

theorem every_client_is_answered_witness:
  "mset (map fst [(3, Inl (err Internal)), (1, Inr default_ack), (2, Inl (err Internal))]) = mset (responders sample_items)"
  using conjunct2 [OF every_client_is_answered [OF sample_stream]] by blast

end
