(* ===== verification/Migration.thy ===== *)
theory Migration
  imports Install
begin

text \<open>
  The snapshot of an earlier release (dsh-raft \<open>store.rs\<close>: \<open>load_snapshot_registry\<close>). Releases before the payload
  files kept the payload in the registry itself. The first read of the registry writes it to a file and switches the
  registry over. \<open>Install\<close> has the registry without such a payload; here it is beside the node.
\<close>

type_synonym 'mb with_inline = "'mb node \<times> bytes option"

definition on_node :: "('mb, 'a) act \<Rightarrow> ('mb with_inline, fault_reason, 'a) program" where
  "on_node p = (\<lambda>fs (n, inline). case p fs n of (fs', n', r) \<Rightarrow> (fs', (n', inline), r))"

text \<open>
  The registry, the payload of the earlier release being taken over: first the file, then the switch in one
  transaction; if that fails the file is dropped. \<open>parses\<close> says that the payload can be read.
\<close>

definition load_snapshot_registry ::
  "(bytes \<Rightarrow> bool) \<Rightarrow> string \<Rightarrow> ('mb with_inline, fault_reason, ('mb snap_meta \<times> string) option) program" where
  "load_snapshot_registry parses path = seq (reads id) (\<lambda>(n, inline). case reg_meta n of
     None \<Rightarrow> ret None
   | Some m \<Rightarrow> (case reg_file n of
       Some p \<Rightarrow> ret (if files n p \<noteq> None then Some (m, p) else None)
     | None \<Rightarrow> (case inline of
         None \<Rightarrow> ret None
       | Some raw \<Rightarrow> if \<not> parses raw then ret None
           else seq (on_node (put_file path raw)) (\<lambda>u.
             seq (catch (durably Io (\<lambda>(n, inline). (n\<lparr>reg_file := Some path\<rparr>, None)))
               (\<lambda>e. seq (try_durably (\<lambda>(n, inline). (n\<lparr>files := (files n)(path := None)\<rparr>, inline))) (\<lambda>u. raise e))) (\<lambda>u.
             ret (Some (m, path)))))))"

text \<open>Without a payload of an earlier release it is the registry of \<open>Install\<close>.\<close>

lemma registry_without_inline:
  "load_snapshot_registry parses path fs (n, None) = (fs, (n, None), Done (load_registry n))"
  by (simp add: load_snapshot_registry_def load_registry_def seq_def reads_def ret_def split: option.splits)

text \<open>A payload that cannot be read is left for inspection.\<close>

lemma unreadable_inline_stays:
  assumes "reg_file n = None" "\<not> parses raw"
  shows "load_snapshot_registry parses path fs (n, Some raw) = (fs, (n, Some raw), Done None)"
  using assms by (simp add: load_snapshot_registry_def seq_def reads_def ret_def split: option.splits)

section \<open>The snapshot survives its migration\<close>

text \<open>Taken over or still to be taken over.\<close>

definition taken :: "'mb snap_meta \<Rightarrow> bytes \<Rightarrow> string \<Rightarrow> 'mb with_inline \<Rightarrow> bool" where
  "taken m raw path x \<longleftrightarrow> reg_meta (fst x) = Some m \<and> reg_file (fst x) = Some path \<and> files (fst x) path = Some raw \<and> snd x = None"

definition waiting :: "'mb snap_meta \<Rightarrow> bytes \<Rightarrow> 'mb with_inline \<Rightarrow> bool" where
  "waiting m raw x \<longleftrightarrow> reg_meta (fst x) = Some m \<and> reg_file (fst x) = None \<and> snd x = Some raw"

lemma put_file_registry:
  assumes "ends_with path ''.snap''"
  shows "triple (waiting m raw) (on_node (put_file path data)) (\<lambda>u x. waiting m raw x \<and> files (fst x) path = Some data)
    (waiting m raw) (waiting m raw)"
proof -
  have "path \<noteq> part_of path" using assms part_not_snap by metis
  then show ?thesis
    by (auto simp: triple_def on_node_def put_file_def catch_def seq_def durably_def try_durably_def raise_def waiting_def
        split: list.splits fault.splits)
qed

lemma seq_reads: "seq (reads g) f fs n = f (g n) fs n"
  by (simp add: seq_def reads_def)

text \<open>Every way the migration can end: done, or as before with an error or a crash.\<close>

lemma migration_step:
  assumes "ends_with path ''.snap''" "parses raw"
  shows "triple (waiting m raw) (load_snapshot_registry parses path) (\<lambda>r x. r = Some (m, path) \<and> taken m raw path x)
    (waiting m raw) (waiting m raw)"
proof -
  let ?switch = "catch (durably Io (\<lambda>(n, inline). (n\<lparr>reg_file := Some path\<rparr>, None)))
     (\<lambda>e. seq (try_durably (\<lambda>(n, inline). (n\<lparr>files := (files n)(path := None)\<rparr>, inline))) (\<lambda>u. raise e))"
  have switch: "triple (\<lambda>x. waiting m raw x \<and> files (fst x) path = Some raw) ?switch (\<lambda>u. taken m raw path)
      (waiting m raw) (waiting m raw)"
    by (rule triple_catch [where G = "waiting m raw"], rule triple_durably,
        (auto simp: waiting_def taken_def)[3], rule triple_seq [where R = "\<lambda>u. waiting m raw"],
        rule triple_try_durably, (auto simp: waiting_def)[3], rule triple_raise)
  have "triple (waiting m raw) (seq (on_node (put_file path raw)) (\<lambda>u. seq ?switch (\<lambda>u. ret (Some (m, path)))))
      (\<lambda>r x. r = Some (m, path) \<and> taken m raw path x) (waiting m raw) (waiting m raw)"
    by (rule triple_seq [OF put_file_registry [OF assms(1)]], rule triple_seq [OF switch], rule triple_ret) simp
  then show ?thesis using assms(2)
    by (auto simp: triple_def load_snapshot_registry_def seq_reads waiting_def)
qed

text \<open>The restart drops what an interrupted migration left, and keeps what a finished one made.\<close>

lemma restart_keeps:
  assumes "ends_with path ''.snap''"
  shows "triple (taken m raw path) (on_node open_store) (\<lambda>u. taken m raw path) (\<lambda>x. False) (taken m raw path)"
    and "triple (waiting m raw) (on_node open_store) (\<lambda>u. waiting m raw) (\<lambda>x. False) (waiting m raw)"
proof -
  have kept: "\<not> swept n path" if "reg_file n = Some path" for n :: "'a node"
    using that snap_not_part [OF assms] by (simp add: swept_def keep_set_def)
  show "triple (taken m raw path) (on_node open_store) (\<lambda>u. taken m raw path) (\<lambda>x. False) (taken m raw path)"
    by (auto simp: triple_def on_node_def open_store_def sweep_def reset_registry_if_file_missing_def seq_def modify_def reads_def
        ret_def try_durably_def taken_def kept split: list.splits fault.splits)
  show "triple (waiting m raw) (on_node open_store) (\<lambda>u. waiting m raw) (\<lambda>x. False) (waiting m raw)"
    by (auto simp: triple_def on_node_def open_store_def sweep_def reset_registry_if_file_missing_def seq_def modify_def reads_def
        ret_def try_durably_def waiting_def split: list.splits fault.splits)
qed

text \<open>
  Whatever interrupts the migration, and whatever fails at the next start: once the node is up and the
  registry can be read, it gives the snapshot with its metadata and every byte of its payload.
\<close>

lemma migration_keeps_the_snapshot:
  assumes "waiting m raw x" "parses raw" "ends_with p1 ''.snap''" "ends_with p2 ''.snap''"
    and "load_snapshot_registry parses p1 fs x = (fs1, x1, r1)"
    and "on_node open_store fs' x1 = (fs2, x2, Done ())"
    and "load_snapshot_registry parses p2 fs'' x2 = (fs3, x3, Done r3)"
  shows "\<exists>p. r3 = Some (m, p) \<and> taken m raw p x3"
proof -
  have "taken m raw p1 x1 \<or> waiting m raw x1"
    using tripleD [OF migration_step [of p1 parses raw m] assms(1,5)] assms(2,3) by (auto split: ending.splits)
  then show ?thesis
  proof
    assume "taken m raw p1 x1"
    then have "taken m raw p1 x2" using tripleD [OF restart_keeps(1) [OF assms(3)] _ assms(6), of m raw] by simp
    then have "r3 = Some (m, p1) \<and> x3 = x2" using assms(7)
      by (cases x2) (auto simp: load_snapshot_registry_def taken_def seq_def reads_def ret_def)
    then show ?thesis using \<open>taken m raw p1 x2\<close> by simp
  next
    assume "waiting m raw x1"
    then have "waiting m raw x2" using tripleD [OF restart_keeps(2) [OF assms(3)] _ assms(6), of m raw] by simp
    then show ?thesis using tripleD [OF migration_step [of p2 parses raw m] _ assms(7)] assms(2,4) by auto
  qed
qed

end
