(* ===== verification/Spec2Isabelle.thy ===== *)
theory Spec2Isabelle
  imports Gray_Release Struct_Inv Receiver Install Raft_Log Api_Login Grpc Jobs Isolation Api_Accounts Crypto Redb Cluster Apply_Stream Migration
begin

text \<open>
  \<^bold>\<open>The program.\<close> Defing is a service for configurations. A project has a structure (groups of typed items) and
  branches; a branch has a draft of values, published versions and possibly a gray release, which only the clients
  that match a rule read. A library of shared items can be bound into branches. Administrators of three kinds edit
  over HTTP; applications read over HTTP and gRPC with access tokens and watch a branch for events.

  All of that state is in one deterministic machine (\<open>StateMachine\<close>, crate \<open>dsh-core\<close>): a command of the log changes
  a key-value store through a write buffer and answers events. At a server of its own (\<open>--dev-single\<close>) the handlers
  apply commands directly; in a cluster they propose them to the Raft package, and every node applies the committed
  log (\<open>dsh-raft\<close>), keeps it with the state in a redb file (\<open>dsh-storage\<close>), builds snapshots, and sends and installs
  them. \<open>dsh-api\<close> holds the middleware, the handlers and the gRPC service, \<open>dsh-publish\<close> the step between handlers and
  commands that encrypts secrets (\<open>dsh-crypto\<close>), \<open>dsh-watch\<close> the event streams, \<open>dsh-render\<close> the text formats,
  \<open>dsh-jobs\<close> the background work, \<open>dsh-cli\<close> the start of a node. All paths below are under \<open>src/server/crates\<close>.

  \<^bold>\<open>Theories and code.\<close> A record, datatype or operation has the name it has in the code where Isabelle allows it, and
  the theories follow the layers.

  \<^item> The data: \<open>Prelude\<close> (results with an error branch, the ordered map for \<open>BTreeMap\<close> with \<open>equal\<close> and \<open>size\<close>
    instances, the operations on \<open>str\<close>, decimal numbers), \<open>Model\<close> (\<open>model.rs\<close>, \<open>error.rs\<close>, \<open>limits.rs\<close>), \<open>Keys\<close>
    (\<open>keys.rs\<close>), \<open>Validator\<close> (\<open>validator.rs\<close>), \<open>Diff\<close> (\<open>diff.rs\<close>, \<open>wire.rs\<close>), \<open>Kv_Store\<close> (\<open>store.rs\<close>, the write
    buffer) of \<open>dsh-core/src\<close>.
  \<^item> The machine (\<open>dsh-core/src/state.rs\<close>, \<open>command.rs\<close>): \<open>Machine\<close> (state and readers), \<open>Versions\<close> (checkpoints and
    differences), \<open>Gray\<close> (who reads the gray snapshot), \<open>Accounts\<close>, \<open>Project_Ops\<close>, \<open>Publish_Ops\<close>, \<open>Shared_Ops\<close> (the
    commands), \<open>Maintenance\<close> (dump, restore, rewrapping), \<open>Command\<close> (\<open>apply\<close> and its dispatch), \<open>Writes\<close> (the
    transactions a command makes, in order).
  \<^item> What the machine does: \<open>Edits\<close> and \<open>Version_Steps\<close> with \<open>Version_Ops\<close> (commands as sequences of steps),
    \<open>Publishing\<close> and \<open>Gray_Release\<close> (functional behaviour), \<open>Reach\<close>, \<open>Struct_Inv\<close> and \<open>Account_Inv\<close>
    (reachable states).
  \<^item> \<open>dsh-raft/src\<close>: \<open>Crc\<close>, \<open>Frames\<close> (\<open>snapshot_stream.rs\<close>), \<open>Receiver\<close> (\<open>raft_http_server.rs\<close>), \<open>Payload\<close>, \<open>Install\<close>,
    \<open>Apply_Stream\<close>, \<open>Migration\<close>, \<open>Raft_Log\<close> (\<open>store.rs\<close>);
    \<open>Durable\<close> is the language of interrupted programs. \<open>Redb\<close> is \<open>dsh-storage/src/lib.rs\<close>.
  \<^item> \<open>dsh-api/src/lib.rs\<close>: \<open>Api_Auth\<close> (middleware and routes), \<open>Api_Data\<close> (configuration replies, with \<open>dsh-render\<close>),
    \<open>Api_Login\<close> (sessions, throttle, proxies), \<open>Api_Edit\<close>, \<open>Api_Shared\<close>, \<open>Api_Accounts\<close> (the editing, shared library,
    audit, account and operation handlers), \<open>Isolation\<close> (a request through all layers); \<open>Grpc\<close> (\<open>grpc.rs\<close>), \<open>Watch\<close>
    (\<open>watch_branch\<close>, \<open>dsh-watch\<close>), \<open>Publish_Service\<close> (\<open>dsh-publish\<close>, \<open>write_command\<close> of \<open>dsh-raft/src/raft.rs\<close>).
  \<^item> \<open>Jobs\<close> (\<open>dsh-jobs\<close>), \<open>Crypto\<close> (\<open>dsh-crypto\<close>, the rotation of the master key), \<open>Cluster\<close> (\<open>membership_retry.rs\<close>, the
    handlers of the membership, the forwarding of writes, the seed map and the start of \<open>dsh-cli/src/main.rs\<close>).

  \<^bold>\<open>State and operations.\<close> The store maps the code's keys to tagged records (\<open>sval\<close>): a stored byte string is the record
  it encodes. The machine \<open>sm\<close> is the store with the write buffer; an operation takes it and gives a new one or an
  error (\<open>error + 'a\<close>), so every early return of the code is a branch. A handler answers the new machine, the audit
  entries it asks the log to append, and a reply or a refusal (status and code). A write carries its route: what each
  attempt meets (this node applies it, no leader, another leader, a lost answer). Programs that write to disk
  (\<open>Install\<close>, \<open>Redb\<close>) run under a list of faults, so that a theorem about every list is one about a crash or an I/O
  error at every durable write. Applying an entry is several of them: the shared drafts that a shared publish deletes,
  one by one, the flush of the command, and the position.

  \<^bold>\<open>What is shown.\<close>

  \<^item> \<open>command_effect\<close>, \<open>command_failure\<close>: the buffered execution of a command against its meaning on the store, with a
    footprint; a failed command has no effect, but a failed shared publish may lose shared drafts.
  \<^item> \<open>publish_result\<close>, \<open>draft_update_result\<close>, \<open>rollback_result\<close>, \<open>blocking_publish_is_complete\<close>, \<open>retry_is_noop\<close>,
    \<open>gray_publish_isolated\<close>, \<open>gray_promote_result\<close>, \<open>gray_promote_skips\<close>: what the commands achieve.
  \<^item> \<open>reachable_invariant\<close>, \<open>versions_immutable\<close>, \<open>config_always_readable\<close>, \<open>events_describe_versions\<close>,
    \<open>accounts_are_exclusive\<close>, \<open>credentials_change_ends_sessions\<close>, \<open>tokens_are_unique_and_revocation_final\<close>: invariants
    over all reachable states, by rule induction over the steps.
  \<^item> \<open>serving_node_is_consistent\<close>, \<open>start_recovers\<close>, \<open>redb_refines_memory\<close>, \<open>log_refines_list\<close>, \<open>reads_never_skip\<close>,
    \<open>limited_read_prefix\<close>: the durable side. The persistent store behaves as the in-memory one the machine is stated
    over, the log as a list.
  \<^item> \<open>every_client_is_answered\<close>: the driver of the state machine under storage faults;
    \<open>migration_keeps_the_snapshot\<close>: the snapshot of an earlier release.
  \<^item> \<open>transfer_roundtrip\<close>, \<open>accepted_transfer_is_checked\<close>, \<open>receiver_bounded\<close>, \<open>payload_roundtrip\<close>,
    \<open>damaged_payload_refused\<close>, \<open>crc_is_bitwise_and_detects\<close>, \<open>dump_ends_and_restores\<close>: snapshots.
  \<^item> \<open>authorization_is_the_matrix\<close>, \<open>project_admin_isolated\<close>, \<open>own_password_change\<close>, \<open>session_roundtrip\<close>,
    \<open>guesses_bounded\<close>, \<open>secrets_only_to_the_entitled\<close>, \<open>secrets_leave_encrypted\<close>, \<open>secrets_survive_rotation\<close>: who may do
    what, and what becomes of passwords and secrets.
  \<^item> \<open>watchers_follow_the_branch\<close>: both event streams.

  Lemmas named for what goes wrong (for instance \<open>restarted_publish_is_lost\<close>, \<open>pruning_diverges\<close>,
  \<open>interrupted_entry_applied_twice\<close>, \<open>interrupted_shared_publish_lost\<close>, \<open>cut_file_loses_keys\<close>,
  \<open>branch_delete_wipes_longer_names\<close>, \<open>missed_rotation_stays_missed\<close>, \<open>waiting_promotion_undoes_the_other\<close>) state
  behaviour of the code that its comments or documents do not intend.

  \<^bold>\<open>Interfaces.\<close> \<open>kv_store\<close> holds the laws of the \<open>Store\<close> trait and is interpreted for the in-memory store (\<open>mem\<close>) and the
  redb store (\<open>redb\<close>). \<open>delta_format\<close> and its extension \<open>checkpointed\<close> are the difference format and the version
  chain over it (\<open>snap_delta\<close>, \<open>snap_chain\<close>). \<open>side_invariant\<close> lifts an invariant of one area of the store to the
  reachable states (\<open>accounts\<close>, \<open>tokens\<close>, \<open>audits\<close>). \<open>watch_channel\<close> is what a client of a stream relies on (\<open>sse\<close>,
  \<open>grpc\<close>).

  \<^bold>\<open>Assumptions.\<close> Parameters stand for what is not in the repository, with their documented laws as hypotheses where a
  theorem needs one: argon2, SHA-256, AES-GCM and base64 (\<open>aead_law\<close>), the messagepack and JSON codecs (decoding gives
  back what was encoded), the dispatch of the web framework (\<open>dispatch_law\<close>), regular expressions, random texts,
  clocks, the network, and the answers of the Raft package. A redb transaction and a rename of a file are made
  whole or not at all. The broadcast channel is what a subscriber receives, lagging included. Upper case and trimming
  are those of ASCII. Version numbers are naturals, below the width of the code's integers. Two clock readings of one
  handler are one, and login attempts come one after the other. The reachable states of \<open>Reach\<close> include the jobs that prune the
  local store; \<open>serving_node_is_consistent\<close> is about the entries of the log and the snapshots only, and
  leaves out a write of a command that fails with an error (\<open>failed_flush_loses_entry\<close>). The snapshot metadata of a transfer
  are taken to fit a frame (\<open>oversized_header_refused\<close>). The file of the key ring is truncated in place, and its save can
  be cut off; \<open>secrets_survive_rotation\<close> leaves out the start that then finds it so.

  \<^bold>\<open>Bounds and fuel.\<close> Loops are structural or have a measure: the receive loop ends with its buffer, the paged dump after
  at most one call more than there are rows (\<open>dump_ends_and_restores\<close>), a change of the membership after eight attempts.
  A write and a login take the list of their attempts, whose length is not bounded in the theorems; \<open>None\<close> is the
  result when the list ends before the loop does. Checksums and frame lengths are 32-bit and 64-bit words.

  \<^bold>\<open>Not modelled.\<close> The encodings of records and replies as JSON; the texts of messages; the Raft package itself and the
  HTTP client of its network (\<open>http_network.rs\<close>), with the three handlers that hand a decoded request to it; the
  text of the metrics; static pages; the poisoned lock of a crashed handler;
  flags, wiring and the admin client of the command line;
  \<open>dsh-testkit\<close>.
\<close>

end
